(* ===== verification/Ps4_Prelude.thy ===== *)
theory Ps4_Prelude
  imports Main "HOL-Library.Word" "HOL-Library.Monad_Syntax"
begin

text \<open>
  Shared vocabulary of the development.

  \<^item> The C integer types the library uses, at their width (\<open>u8\<close> to \<open>u64\<close>), and
    pointers as 64-bit words with \<open>NULL\<close> the zero word.
  \<^item> The flat byte-addressed memory of a process: a partial map from addresses to bytes.
    An address outside its domain is not mapped, and touching it faults.  Code that reads or
    writes memory runs in the option monad, with \<open>None\<close> the fault (or, for the loops that can
    run forever, a computation that never returns).
  \<^item> Little-endian loads and stores of 1, 2, 4 and 8 bytes, \<open>memcpy\<close> and \<open>memset\<close>, and the
    lemmas that say what a load sees after a store.
  \<^item> The collection \<open>mem_simps\<close>, which carries most of the memory reasoning of the components.
\<close>

unbundle bit_operations_syntax

named_theorems mem_simps \<open>what loads and stores do, region by region\<close>
named_theorems fault_free \<open>accesses to mapped memory do not fault\<close>

section \<open>Machine types\<close>

type_synonym u8 = "8 word"
type_synonym u16 = "16 word"
type_synonym u32 = "32 word"
type_synonym u64 = "64 word"
type_synonym ptr = "64 word"
type_synonym memory = "ptr \<Rightarrow> u8 option"

abbreviation NULL :: ptr where
  "NULL \<equiv> 0"

abbreviation address_space :: nat where
  "address_space \<equiv> 18446744073709551616"

lemma address_space_eq: "address_space = 2 ^ 64"
  by simp

lemma unat_ptr_less: "unat (p :: ptr) < address_space"
  using unsigned_less [of p] by simp

section \<open>Regions\<close>

text \<open>
  The region of \<open>n\<close> bytes at \<open>a\<close> holds the addresses \<open>a\<close>, \<open>a + 1\<close>, up to
  \<open>a + n - 1\<close>, with the wrap-around of pointer arithmetic.
\<close>

definition in_region :: "ptr \<Rightarrow> nat \<Rightarrow> ptr \<Rightarrow> bool" where
  "in_region a n x \<longleftrightarrow> unat (x - a) < n"

definition mapped :: "memory \<Rightarrow> ptr \<Rightarrow> nat \<Rightarrow> bool" where
  "mapped m a n \<longleftrightarrow> (\<forall>i \<in> {0..<n}. m (a + of_nat i) \<noteq> None)"

definition disjoint_regions :: "ptr \<Rightarrow> nat \<Rightarrow> ptr \<Rightarrow> nat \<Rightarrow> bool" where
  "disjoint_regions a n b k \<longleftrightarrow>
     unat a + n \<le> address_space \<and> unat b + k \<le> address_space \<and>
     (unat a + n \<le> unat b \<or> unat b + k \<le> unat a)"

lemma in_region_0 [simp]: "\<not> in_region a 0 x"
  by (simp add: in_region_def)

lemma in_region_offset:
  "i < n \<Longrightarrow> n \<le> address_space \<Longrightarrow> in_region a n (a + of_nat i)"
  by (simp add: in_region_def unat_of_nat)

lemma in_region_iff:
  assumes "n \<le> address_space"
  shows "in_region a n x \<longleftrightarrow> (\<exists>i<n. x = a + of_nat i)"
proof
  assume "in_region a n x"
  then have "unat (x - a) < n" and "x = a + of_nat (unat (x - a))"
    by (simp_all add: in_region_def)
  then show "\<exists>i<n. x = a + of_nat i" by blast
qed (use assms in_region_offset in blast)

lemma in_region_unat:
  assumes "unat a + n \<le> address_space"
  shows "in_region a n x \<longleftrightarrow> unat a \<le> unat x \<and> unat x < unat a + n"
proof (cases "a \<le> x")
  case True
  then have "unat (x - a) = unat x - unat a"
    by (simp add: unat_sub)
  with True show ?thesis
    by (auto simp: in_region_def word_le_nat_alt)
next
  case False
  then have "unat (x - a) = address_space + unat x - unat a"
    using unat_sub_if_size [of x a] by (simp add: word_size word_le_nat_alt)
  moreover have "unat a < address_space"
    by (rule unat_ptr_less)
  ultimately show ?thesis
    using False assms by (auto simp: in_region_def word_le_nat_alt)
qed

lemma disjoint_regions_sym: "disjoint_regions a n b k \<Longrightarrow> disjoint_regions b k a n"
  by (auto simp: disjoint_regions_def)

lemma disjoint_regionsD:
  assumes "disjoint_regions a n b k" and "in_region a n x"
  shows "\<not> in_region b k x"
  using assms by (auto simp: disjoint_regions_def in_region_unat)

lemma disjoint_regions_sub:
  assumes "disjoint_regions a n b k" and "off + j \<le> n"
  shows "disjoint_regions (a + of_nat off) j b k \<or> j = 0"
proof (cases "j = 0")
  case False
  then have "unat (a + of_nat off) = unat a + off"
    using assms by (simp add: disjoint_regions_def unat_word_ariths unat_of_nat)
  then show ?thesis
    using assms by (auto simp: disjoint_regions_def)
qed simp

section \<open>Bytes\<close>

fun load_bytes :: "memory \<Rightarrow> ptr \<Rightarrow> nat \<Rightarrow> u8 list option" where
  "load_bytes m a 0 = Some []"
| "load_bytes m a (Suc n) =
     do { b \<leftarrow> m a; bs \<leftarrow> load_bytes m (a + 1) n; Some (b # bs) }"

definition store8 :: "memory \<Rightarrow> ptr \<Rightarrow> u8 \<Rightarrow> memory option" where
  "store8 m a b = (case m a of None \<Rightarrow> None | Some _ \<Rightarrow> Some (m(a \<mapsto> b)))"

fun store_bytes :: "memory \<Rightarrow> ptr \<Rightarrow> u8 list \<Rightarrow> memory option" where
  "store_bytes m a [] = Some m"
| "store_bytes m a (b # bs) = do { m1 \<leftarrow> store8 m a b; store_bytes m1 (a + 1) bs }"

lemma Some_bind_conv [mem_simps]:
  "(Option.bind x f = Some y) = (\<exists>z. x = Some z \<and> f z = Some y)"
  by (cases x) auto

lemma load_bytes_conv:
  "load_bytes m a n = Some bs \<longleftrightarrow>
     length bs = n \<and> (\<forall>i<n. m (a + of_nat i) = Some (bs ! i))"
proof (induction n arbitrary: a bs)
  case 0
  then show ?case by auto
next
  case (Suc n)
  have shift: "a + 1 + of_nat i = a + of_nat (Suc i)" for i
    by (simp add: algebra_simps)
  show ?case
    by (cases bs) (auto simp: Some_bind_conv Suc.IH shift All_less_Suc2)
qed

lemma load_bytes_mapped: "(\<exists>bs. load_bytes m a n = Some bs) \<longleftrightarrow> mapped m a n"
proof
  assume "mapped m a n"
  then have "load_bytes m a n = Some (map (\<lambda>i. the (m (a + of_nat i))) [0..<n])"
    by (auto simp: load_bytes_conv mapped_def)
  then show "\<exists>bs. load_bytes m a n = Some bs" ..
qed (auto simp: load_bytes_conv mapped_def)

lemma load_bytes_cong:
  assumes "\<And>x. in_region a n x \<Longrightarrow> m x = m' x" and "n \<le> address_space"
  shows "load_bytes m a n = load_bytes m' a n"
proof -
  have "m (a + of_nat i) = m' (a + of_nat i)" if "i < n" for i
    using assms that in_region_offset by blast
  then show ?thesis
    by (cases "load_bytes m a n"; cases "load_bytes m' a n")
      (simp, metis load_bytes_conv option.distinct(1), metis load_bytes_conv option.distinct(1),
        metis load_bytes_conv)
qed

lemma load_bytes_append:
  "load_bytes m a (n + k) =
     do { xs \<leftarrow> load_bytes m a n; ys \<leftarrow> load_bytes m (a + of_nat n) k; Some (xs @ ys) }"
  by (induction n arbitrary: a) (auto simp: algebra_simps split: Option.bind_splits)

lemma unat_minus_Suc:
  assumes "(x :: ptr) \<noteq> a"
  shows "unat (x - a) = Suc (unat (x - (a + 1)))"
proof -
  have "x - a \<noteq> 0" using assms by simp
  then have "unat (x - a - 1) = unat (x - a) - 1" and "unat (x - a) \<noteq> 0"
    by (rule unat_minus_one) (simp add: unat_eq_zero assms)
  then show ?thesis by (simp add: diff_diff_eq)
qed

lemma store_bytes_apply:
  assumes "store_bytes m a bs = Some m'" and "length bs \<le> address_space"
  shows "m' x = (if in_region a (length bs) x then Some (bs ! unat (x - a)) else m x)"
  using assms
proof (induction bs arbitrary: m a)
  case Nil
  then show ?case by simp
next
  case (Cons b bs)
  from Cons.prems have st: "store_bytes (m(a \<mapsto> b)) (a + 1) bs = Some m'"
    by (auto simp: store8_def split: option.splits)
  note IH = Cons.IH [OF st]
  show ?case
  proof (cases "x = a")
    case True
    have "unat (a - (a + 1)) = address_space - 1"
      by (simp add: unsigned_minus_1_eq_mask mask_eq_exp_minus_1)
    with True IH Cons.prems(2) show ?thesis
      by (simp add: in_region_def)
  next
    case False
    with IH Cons.prems(2) show ?thesis
      by (simp add: in_region_def unat_minus_Suc)
  qed
qed

lemma dom_store_bytes: "store_bytes m a bs = Some m' \<Longrightarrow> dom m' = dom m"
proof (induction bs arbitrary: m a)
  case (Cons b bs)
  then show ?case by (fastforce simp: store8_def split: option.splits)
qed simp

lemma mapped_cong_dom: "dom m = dom m' \<Longrightarrow> mapped m a n = mapped m' a n"
  unfolding mapped_def by (metis domIff)

lemma store_bytes_mapped: "(\<exists>m'. store_bytes m a bs = Some m') \<longleftrightarrow> mapped m a (length bs)"
proof (induction bs arbitrary: m a)
  case Nil
  then show ?case by (simp add: mapped_def)
next
  case (Cons b bs)
  have shift: "a + 1 + of_nat i = a + of_nat (Suc i)" for i
    by (simp add: algebra_simps)
  have split: "mapped m a (Suc (length bs)) \<longleftrightarrow> m a \<noteq> None \<and> mapped m (a + 1) (length bs)"
    by (simp add: mapped_def shift atLeast0LessThan lessThan_Suc_eq_insert_0
        del: of_nat_Suc)
  show ?case
  proof (cases "m a")
    case (Some c)
    then have "dom (m(a \<mapsto> b)) = dom m" by auto
    from mapped_cong_dom [OF this, of "a + 1" "length bs"] Some split
      Cons.IH [of "m(a \<mapsto> b)" "a + 1"]
    show ?thesis by (simp add: store8_def del: fun_upd_apply)
  qed (simp add: split store8_def)
qed

lemma load_store_bytes_same:
  assumes "store_bytes m a bs = Some m'" and "length bs \<le> address_space"
  shows "load_bytes m' a (length bs) = Some bs"
  using store_bytes_apply [OF assms] assms(2)
  by (auto simp: load_bytes_conv in_region_offset unat_of_nat)

lemma load_store_bytes_other:
  assumes "store_bytes m a bs = Some m'" and "disjoint_regions b n a (length bs)"
  shows "load_bytes m' b n = load_bytes m b n"
proof (rule load_bytes_cong)
  have len: "length bs \<le> address_space" and "n \<le> address_space"
    using assms(2) by (auto simp: disjoint_regions_def)
  then show "n \<le> address_space" by simp
  fix x assume "in_region b n x"
  then have "\<not> in_region a (length bs) x"
    using assms(2) disjoint_regionsD by blast
  then show "m' x = m x"
    using store_bytes_apply [OF assms(1) len] by simp
qed

section \<open>Little-endian words\<close>

primrec word_of_bytes :: "u8 list \<Rightarrow> 'a::len word" where
  "word_of_bytes [] = 0"
| "word_of_bytes (b # bs) = ucast b OR push_bit 8 (word_of_bytes bs)"

primrec bytes_of_word :: "nat \<Rightarrow> 'a::len word \<Rightarrow> u8 list" where
  "bytes_of_word 0 w = []"
| "bytes_of_word (Suc n) w = ucast w # bytes_of_word n (drop_bit 8 w)"

lemma length_bytes_of_word [simp]: "length (bytes_of_word n w) = n"
  by (induction n arbitrary: w) auto

lemma word_of_bytes_of_word:
  "word_of_bytes (bytes_of_word n w) = take_bit (8 * n) (w :: 'a::len word)"
proof (induction n arbitrary: w)
  case (Suc n)
  show ?case
    by (rule bit_word_eqI) (auto simp: Suc.IH bit_simps not_less le_diff_conv)
qed simp

lemma nth_bytes_of_word:
  "i < n \<Longrightarrow> bytes_of_word n w ! i = ucast (drop_bit (8 * i) (w :: 'a::len word))"
proof (induction n arbitrary: w i)
  case (Suc n)
  then show ?case by (cases i) (simp_all add: drop_bit_drop_bit algebra_simps)
qed simp

lemma bit_word_of_bytes:
  "bit (word_of_bytes bs :: 'a::len word) k \<longleftrightarrow>
     k < LENGTH('a) \<and> k < 8 * length bs \<and> bit (bs ! (k div 8)) (k mod 8)"
proof (induction bs arbitrary: k)
  case (Cons b bs)
  show ?case
  proof (cases "k < 8")
    case True
    then show ?thesis by (simp add: bit_simps)
  next
    case False
    then obtain j where k: "k = j + 8"
      using le_Suc_ex [of 8 k] by (auto simp: add.commute)
    have "\<not> bit b (j + 8)"
      by (auto dest: bit_imp_le_length)
    moreover have "(j + 8) div 8 - Suc 0 = j div 8"
      by simp
    ultimately show ?thesis
      by (auto simp: k Cons.IH bit_or_iff bit_push_bit_iff bit_ucast_iff)
  qed
qed simp

lemma bytes_of_word_of_bytes:
  assumes "8 * length bs \<le> LENGTH('a)"
  shows "bytes_of_word (length bs) (word_of_bytes bs :: 'a::len word) = bs"
proof (rule nth_equalityI)
  fix i assume "i < length (bytes_of_word (length bs) (word_of_bytes bs :: 'a word))"
  then have i: "i < length bs" by simp
  have idx: "(8 * i + k) div 8 = i" "(8 * i + k) mod 8 = k" if "k < 8" for k
    using that by simp_all
  show "bytes_of_word (length bs) (word_of_bytes bs :: 'a word) ! i = bs ! i"
    using i assms by (intro bit_word_eqI)
      (auto simp: nth_bytes_of_word bit_simps bit_word_of_bytes idx)
qed simp

section \<open>Loads and stores of the C integer types\<close>

definition load8 :: "memory \<Rightarrow> ptr \<Rightarrow> u8 option" where
  "load8 m a = m a"

definition load16 :: "memory \<Rightarrow> ptr \<Rightarrow> u16 option" where
  "load16 m a = map_option word_of_bytes (load_bytes m a 2)"

definition load32 :: "memory \<Rightarrow> ptr \<Rightarrow> u32 option" where
  "load32 m a = map_option word_of_bytes (load_bytes m a 4)"

definition load64 :: "memory \<Rightarrow> ptr \<Rightarrow> u64 option" where
  "load64 m a = map_option word_of_bytes (load_bytes m a 8)"

definition store16 :: "memory \<Rightarrow> ptr \<Rightarrow> u16 \<Rightarrow> memory option" where
  "store16 m a w = store_bytes m a (bytes_of_word 2 w)"

definition store32 :: "memory \<Rightarrow> ptr \<Rightarrow> u32 \<Rightarrow> memory option" where
  "store32 m a w = store_bytes m a (bytes_of_word 4 w)"

definition store64 :: "memory \<Rightarrow> ptr \<Rightarrow> u64 \<Rightarrow> memory option" where
  "store64 m a w = store_bytes m a (bytes_of_word 8 w)"

text \<open>
  \<open>memcpy\<close> reads all its bytes before it writes the first (the C library leaves overlapping
  arguments undefined), \<open>memset\<close> writes one byte value.
\<close>

definition memcpy :: "memory \<Rightarrow> ptr \<Rightarrow> ptr \<Rightarrow> u64 \<Rightarrow> memory option" where
  "memcpy m dst src n = do { bs \<leftarrow> load_bytes m src (unat n); store_bytes m dst bs }"

definition memset :: "memory \<Rightarrow> ptr \<Rightarrow> u8 \<Rightarrow> u64 \<Rightarrow> memory option" where
  "memset m dst c n = store_bytes m dst (replicate (unat n) c)"

lemmas load_defs = load8_def load16_def load32_def load64_def
lemmas store_defs = store16_def store32_def store64_def

text \<open>Two memories agree on a region when they hold the same bytes there.\<close>

definition agree :: "memory \<Rightarrow> memory \<Rightarrow> ptr \<Rightarrow> nat \<Rightarrow> bool" where
  "agree m m' a n \<longleftrightarrow> (\<forall>x. in_region a n x \<longrightarrow> m x = m' x)"

lemma agree_refl [simp]: "agree m m a n"
  by (simp add: agree_def)

lemma agree_sym: "agree m m' a n \<Longrightarrow> agree m' m a n"
  by (simp add: agree_def)

lemma agree_trans: "agree m1 m2 a n \<Longrightarrow> agree m2 m3 a n \<Longrightarrow> agree m1 m3 a n"
  by (simp add: agree_def)

lemma agree_load_bytes:
  assumes "agree m m' a n" and "n \<le> address_space" and "off + k \<le> n"
  shows "load_bytes m (a + of_nat off) k = load_bytes m' (a + of_nat off) k"
proof (rule load_bytes_cong)
  show "k \<le> address_space" using assms by simp
  fix x assume "in_region (a + of_nat off) k x"
  then obtain i where "i < k" and "x = a + of_nat (off + i)"
    using assms by (auto simp: in_region_iff algebra_simps)
  then have "in_region a n x"
    using assms in_region_offset [of "off + i" n a] by simp
  then show "m x = m' x" using assms(1) by (simp add: agree_def)
qed

lemma store_bytes_agree:
  assumes "store_bytes m a bs = Some m'" and "disjoint_regions b n a (length bs)"
  shows "agree m' m b n"
proof -
  have "length bs \<le> address_space"
    using assms(2) by (auto simp: disjoint_regions_def)
  from store_bytes_apply [OF assms(1) this] assms(2) show ?thesis
    by (auto simp: agree_def dest: disjoint_regionsD)
qed

lemma load64_store64_same:
  assumes "store64 m a w = Some m'"
  shows "load64 m' a = Some w"
proof -
  have "load_bytes m' a (length (bytes_of_word 8 w)) = Some (bytes_of_word 8 w)"
    using assms by (intro load_store_bytes_same) (simp_all add: store64_def)
  then show ?thesis
    by (simp add: load64_def word_of_bytes_of_word take_bit_word_eq_self)
qed

lemma load64_store64_other:
  assumes "store64 m a w = Some m'" and "disjoint_regions b 8 a 8"
  shows "load64 m' b = load64 m b"
  using load_store_bytes_other [of m a "bytes_of_word 8 w" m' b 8] assms
  by (simp add: store64_def load64_def)

lemma store64_mapped: "(\<exists>m'. store64 m a w = Some m') \<longleftrightarrow> mapped m a 8"
  using store_bytes_mapped [of m a "bytes_of_word 8 w"] by (simp add: store64_def)

lemma dom_store64: "store64 m a w = Some m' \<Longrightarrow> dom m' = dom m"
  by (simp add: store64_def dom_store_bytes)

lemma dom_memcpy: "memcpy m d s n = Some m' \<Longrightarrow> dom m' = dom m"
  unfolding memcpy_def Some_bind_conv by (elim exE conjE dom_store_bytes)

lemma dom_memset: "memset m d c n = Some m' \<Longrightarrow> dom m' = dom m"
  by (simp add: memset_def dom_store_bytes)

lemma memcpy_apply:
  assumes "memcpy m dst src n = Some m'"
  shows "m' x = (if in_region dst (unat n) x then m (src + (x - dst)) else m x)"
proof -
  from assms obtain bs where ld: "load_bytes m src (unat n) = Some bs"
    and st: "store_bytes m dst bs = Some m'"
    by (auto simp: memcpy_def Some_bind_conv)
  from ld have len: "length bs = unat n" by (simp add: load_bytes_conv)
  then have "length bs \<le> address_space" using unat_ptr_less [of n] by simp
  have "m (src + of_nat (unat (x - dst))) = Some (bs ! unat (x - dst))" if "unat (x - dst) < unat n"
    using ld that by (simp only: load_bytes_conv)
  with store_bytes_apply [OF st \<open>length bs \<le> address_space\<close>, of x] len show ?thesis
    by (simp add: in_region_def)
qed

lemma memset_apply:
  assumes "memset m dst c n = Some m'"
  shows "m' x = (if in_region dst (unat n) x then Some c else m x)"
proof -
  have "length (replicate (unat n) c) \<le> address_space" using unat_ptr_less [of n] by simp
  from store_bytes_apply [OF assms [unfolded memset_def] this, of x] show ?thesis
    by (simp add: in_region_def)
qed

lemma memcpy_mapped:
  "(\<exists>m'. memcpy m dst src n = Some m') \<longleftrightarrow> mapped m src (unat n) \<and> mapped m dst (unat n)"
proof (cases "load_bytes m src (unat n)")
  case None
  then show ?thesis
    using load_bytes_mapped [of m src "unat n"] by (simp add: memcpy_def)
next
  case (Some bs)
  then have "length bs = unat n" by (simp add: load_bytes_conv)
  with Some show ?thesis
    using load_bytes_mapped [of m src "unat n"] store_bytes_mapped [of m dst bs]
    by (simp add: memcpy_def)
qed

lemma memset_mapped: "(\<exists>m'. memset m dst c n = Some m') \<longleftrightarrow> mapped m dst (unat n)"
  using store_bytes_mapped [of m dst "replicate (unat n) c"] by (simp add: memset_def)

text \<open>The bytes \<open>bs\<close> stand in memory at \<open>a\<close>.\<close>

definition holds_bytes :: "memory \<Rightarrow> ptr \<Rightarrow> u8 list \<Rightarrow> bool" where
  "holds_bytes m a bs \<longleftrightarrow> load_bytes m a (length bs) = Some bs"

lemma holds_bytes_iff: "holds_bytes m a bs \<longleftrightarrow> (\<forall>i<length bs. m (a + of_nat i) = Some (bs ! i))"
  by (simp add: holds_bytes_def load_bytes_conv)

lemma load_bytes_holds: "load_bytes m a n = Some bs \<longleftrightarrow> length bs = n \<and> holds_bytes m a bs"
  by (auto simp: holds_bytes_def load_bytes_conv)

lemma holds_bytes_Nil [simp]: "holds_bytes m a []"
  by (simp add: holds_bytes_def)

lemma holds_bytes_append:
  "holds_bytes m a (xs @ ys) \<longleftrightarrow> holds_bytes m a xs \<and> holds_bytes m (a + of_nat (length xs)) ys"
proof -
  have "load_bytes m a (length xs + length ys) = Some (xs @ ys) \<longleftrightarrow>
      load_bytes m a (length xs) = Some xs \<and>
      load_bytes m (a + of_nat (length xs)) (length ys) = Some ys"
    unfolding load_bytes_append Some_bind_conv
    by (auto simp: load_bytes_holds)
  then show ?thesis by (simp add: holds_bytes_def)
qed

lemma holds_bytes_Cons:
  "holds_bytes m a (b # bs) \<longleftrightarrow> load8 m a = Some b \<and> holds_bytes m (a + 1) bs"
  using holds_bytes_append [of m a "[b]" bs] by (simp add: holds_bytes_iff load8_def)

lemma load_word_holds:
  assumes "8 * n = LENGTH('a)"
  shows "map_option (word_of_bytes :: u8 list \<Rightarrow> 'a::len word) (load_bytes m a n) = Some w \<longleftrightarrow>
    holds_bytes m a (bytes_of_word n w)"
proof
  assume "map_option word_of_bytes (load_bytes m a n) = Some w"
  then obtain bs where ld: "load_bytes m a n = Some bs" and w: "w = word_of_bytes bs"
    by auto
  then have "length bs = n" by (simp add: load_bytes_conv)
  then have "bytes_of_word n w = bs"
    using assms bytes_of_word_of_bytes [of bs, where 'a = 'a] w by simp
  then show "holds_bytes m a (bytes_of_word n w)"
    using ld \<open>length bs = n\<close> by (simp add: load_bytes_holds)
next
  assume "holds_bytes m a (bytes_of_word n w)"
  then have "load_bytes m a n = Some (bytes_of_word n w)"
    by (simp add: load_bytes_holds)
  moreover have "take_bit (8 * n) w = w"
    using assms by (simp add: take_bit_word_eq_self)
  ultimately show "map_option word_of_bytes (load_bytes m a n) = Some w"
    by (simp add: word_of_bytes_of_word)
qed

lemma load16_holds: "load16 m a = Some w \<longleftrightarrow> holds_bytes m a (bytes_of_word 2 w)"
  unfolding load16_def by (rule load_word_holds) simp

lemma load32_holds: "load32 m a = Some w \<longleftrightarrow> holds_bytes m a (bytes_of_word 4 w)"
  unfolding load32_def by (rule load_word_holds) simp

lemma load64_holds: "load64 m a = Some w \<longleftrightarrow> holds_bytes m a (bytes_of_word 8 w)"
  unfolding load64_def by (rule load_word_holds) simp

lemmas load_holds = holds_bytes_Cons load16_holds load32_holds load64_holds

section \<open>C arithmetic on table indices\<close>

text \<open>
  The expression \<open>index * size\<close> over two \<open>uint16_t\<close> operands is computed in 32-bit \<open>int\<close>
  (with the usual two's complement result where C leaves overflow undefined) and sign-extended
  when it is added to a pointer.
\<close>

definition entry_offset :: "u16 \<Rightarrow> u16 \<Rightarrow> u64" where
  "entry_offset i sz = scast ((ucast i :: u32) * ucast sz)"

text \<open>An out-parameter: \<open>None\<close> when the caller passed \<open>NULL\<close>, else its value.\<close>

definition write_out :: "'a option \<Rightarrow> 'a option \<Rightarrow> 'a option option" where
  "write_out p v = (case p of None \<Rightarrow> Some None | Some _ \<Rightarrow> map_option Some v)"

lemma write_out_simps [simp]:
  "write_out None v = Some None"
  "write_out (Some x) v = map_option Some v"
  by (simp_all add: write_out_def)

text \<open>Unsigned division traps on a zero divisor.\<close>

definition udiv :: "u64 \<Rightarrow> u64 \<Rightarrow> u64 option" where
  "udiv a b = (if b = 0 then None else Some (a div b))"

lemma unat_Suc_index:
  assumes "i < (len :: 'a::len word)"
  shows "unat (i + 1) = Suc (unat i)"
proof -
  have "unat len < 2 ^ LENGTH('a)" by (rule unsigned_less)
  then have "Suc (unat i) < 2 ^ LENGTH('a)"
    using assms unfolding word_less_nat_alt by linarith
  then have "Suc (unat i) mod 2 ^ LENGTH('a) = Suc (unat i)"
    by (rule mod_less)
  then show ?thesis
    by (simp add: unat_word_ariths unsigned_1 del: mod_less)
qed

lemma index_measure: "i < (len :: 'a::len word) \<Longrightarrow> unat len - unat (i + 1) < unat len - unat i"
  by (simp add: unat_Suc_index word_less_nat_alt)

lemma sint_small: "unat (x :: u64) < 2 ^ 63 \<Longrightarrow> sint x = int (unat x)"
proof -
  assume "unat x < 2 ^ 63"
  then have "int (unat x) < int (2 ^ 63)" by (simp only: of_nat_less_iff)
  then have "uint x < 2 ^ 63" by simp
  moreover have "- (2 ^ 63) \<le> uint x" by (rule order_trans [of _ 0]) simp_all
  ultimately have "signed_take_bit 63 (uint x) = uint x" by (intro signed_take_bit_int_eq_self) simp_all
  then show ?thesis by (simp add: sint_uint)
qed

lemma sint_small32: "unat (x :: u32) < 2 ^ 31 \<Longrightarrow> sint x = int (unat x)"
proof -
  assume "unat x < 2 ^ 31"
  then have "int (unat x) < int (2 ^ 31)" by (simp only: of_nat_less_iff)
  then have "uint x < 2 ^ 31" by simp
  moreover have "- (2 ^ 31) \<le> uint x" by (rule order_trans [of _ 0]) simp_all
  ultimately have "signed_take_bit 31 (uint x) = uint x" by (intro signed_take_bit_int_eq_self) simp_all
  then show ?thesis by (simp add: sint_uint)
qed

lemma unat_ucast_u32: "unat (ucast (x :: u32) :: u64) = unat x"
proof -
  have "unat x < 4294967296" using unsigned_less [of x] by simp
  then show ?thesis by (simp add: unsigned_ucast_eq take_bit_nat_eq_self)
qed

lemma and_not_mask: "(w :: 'a::len word) AND NOT (mask n) = w - take_bit n w"
proof -
  have "w AND NOT (mask n) = push_bit n (drop_bit n w)"
    by (rule bit_eqI) (auto simp: bit_and_iff bit_not_iff bit_mask_iff bit_push_bit_iff bit_drop_bit_eq)
  moreover have "push_bit n (drop_bit n w) + take_bit n w = w" by (rule bits_ident)
  ultimately show ?thesis by (simp add: eq_diff_eq)
qed

lemma unat_and_not_mask: "unat ((w :: 'a::len word) AND NOT (mask n)) = unat w div 2 ^ n * 2 ^ n"
proof -
  have t: "unat (take_bit n w) = unat w mod 2 ^ n"
    by (metis unsigned_take_bit_eq take_bit_eq_mod)
  then have "take_bit n w \<le> w" by (simp add: word_le_nat_alt)
  then have "unat (w - take_bit n w) = unat w - unat w mod 2 ^ n" using t by (simp add: unat_sub)
  then show ?thesis by (simp add: and_not_mask minus_mod_eq_div_mult)
qed

lemma unat_add_small: "unat (a :: u64) + unat b < 2 ^ 64 \<Longrightarrow> unat (a + b) = unat a + unat b"
  by (subst unat_add_lem [THEN iffD1]) simp_all

lemma unat_u16_less: "unat (i :: u16) < 65536"
  using unsigned_less [of i] by simp

lemma u16_le_max: "(i :: u16) \<le> 0xffff"
  using unat_u16_less [of i] by (simp add: word_le_nat_alt)

lemma if_less_max: "(if z < a then a else z) = max z (a :: 'a::linorder)"
  by (auto simp: max_def)

lemma index_step_le: "i < (len :: 'a::len word) \<Longrightarrow> i + 1 \<le> k \<longleftrightarrow> i < k"
  by (simp add: word_le_nat_alt word_less_nat_alt unat_Suc_index Suc_le_eq)

lemma index_le_cases:
  "i < (len :: 'a::len word) \<Longrightarrow> i \<le> k \<longleftrightarrow> k = i \<or> i + 1 \<le> k"
  by (auto simp: index_step_le)

lemma scast_small:
  assumes "unat (w :: u32) < 2147483648"
  shows "(scast w :: u64) = of_nat (unat w)"
proof -
  have "uint w = int (unat w)" by simp
  then have "uint w < 2147483648" using assms by linarith
  moreover have "- 2147483648 \<le> uint w" using uint_ge_0 [of w] by linarith
  ultimately have "sint w = uint w"
    by (simp add: sint_uint signed_take_bit_int_eq_self)
  then show ?thesis by (simp add: scast_eq)
qed

lemma entry_offset_nat:
  assumes "unat i * unat sz < 2147483648"
  shows "entry_offset i sz = of_nat (unat i * unat sz)"
proof -
  have "unat (ucast (x :: u16) :: u32) = unat x" for x
  proof -
    have "unat x < 2 ^ 16" using unsigned_less [of x] by simp
    then show ?thesis by (simp add: unsigned_ucast_eq take_bit_nat_eq_self)
  qed
  then have "unat ((ucast i :: u32) * ucast sz) = unat i * unat sz"
    using assms by (simp add: unat_word_ariths)
  with assms show ?thesis by (simp only: entry_offset_def scast_small)
qed

section \<open>Folding with faults\<close>

primrec fold_opt :: "('a \<Rightarrow> 's \<Rightarrow> 's option) \<Rightarrow> 'a list \<Rightarrow> 's \<Rightarrow> 's option" where
  "fold_opt f [] s = Some s"
| "fold_opt f (x # xs) s = do { s' \<leftarrow> f x s; fold_opt f xs s' }"

lemma fold_opt_append:
  "fold_opt f (xs @ ys) s = do { s' \<leftarrow> fold_opt f xs s; fold_opt f ys s' }"
  by (induction xs arbitrary: s) (auto split: Option.bind_splits)

lemma fold_opt_cong:
  "(\<And>x s. x \<in> set xs \<Longrightarrow> f x s = g x s) \<Longrightarrow> fold_opt f xs s = fold_opt g xs s"
  by (induction xs arbitrary: s) (auto split: Option.bind_splits)

lemma fold_opt_total:
  assumes "\<And>x s. x \<in> set xs \<Longrightarrow> P s \<Longrightarrow> \<exists>s'. f x s = Some s' \<and> P s'" and "P s"
  shows "\<exists>s'. fold_opt f xs s = Some s' \<and> P s'"
  using assms
proof (induction xs arbitrary: s)
  case (Cons x xs)
  then obtain s1 where "f x s = Some s1" and "P s1" by (meson list.set_intros(1))
  with Cons show ?case by simp
qed simp

lemma fold_opt_pure: "fold_opt (\<lambda>x s. Some (f x s)) xs s = Some (fold f xs s)"
  by (induction xs arbitrary: s) auto

lemma fold_opt_map: "fold_opt f (map g xs) s = fold_opt (\<lambda>x. f (g x)) xs s"
  by (induction xs arbitrary: s) (auto split: Option.bind_splits)

lemma fold_opt_nth:
  assumes "\<And>k s. k < length ps \<Longrightarrow> step k s = f (ps ! k) s"
  shows "fold_opt step [0..<length ps] s = fold_opt f ps s"
proof -
  have "fold_opt f ps s = fold_opt f (map ((!) ps) [0..<length ps]) s"
    by (simp add: map_nth)
  also have "\<dots> = fold_opt step [0..<length ps] s"
    unfolding fold_opt_map by (rule fold_opt_cong) (simp add: assms)
  finally show ?thesis ..
qed

lemma find_upt_SomeD:
  assumes "find P [i..<n] = Some k"
  shows "i \<le> k" and "k < n" and "P k" and "\<And>j. i \<le> j \<Longrightarrow> j < k \<Longrightarrow> \<not> P j"
proof -
  from assms obtain q where q: "q < n - i" "P (i + q)" "k = i + q"
    and before: "\<And>j. j < q \<Longrightarrow> \<not> P (i + j)"
    by (auto simp: find_Some_iff)
  then show "i \<le> k" "k < n" "P k" by auto
  show "\<not> P j" if "i \<le> j" "j < k" for j
    using that q before [of "j - i"] by auto
qed

lemma find_upt_NoneD: "find P [i..<n] = None \<Longrightarrow> i \<le> j \<Longrightarrow> j < n \<Longrightarrow> \<not> P j"
  by (auto simp: find_None_iff)

lemma fold_skip: "(\<And>x z. x \<in> set xs \<Longrightarrow> f x z = z) \<Longrightarrow> fold f xs z = z"
  by (induction xs arbitrary: z) auto

lemma drop_split_at:
  assumes "i \<le> k" and "k < length ps"
  shows "drop i ps = take (k - i) (drop i ps) @ ps ! k # drop (Suc k) ps"
proof -
  have "drop (k - i) (drop i ps) = ps ! k # drop (Suc k) ps"
    using assms by (simp add: Cons_nth_drop_Suc)
  then show ?thesis by (metis append_take_drop_id)
qed

lemma fold_skip_to:
  assumes "i \<le> k" and "k < length ps" and "\<And>j z. i \<le> j \<Longrightarrow> j < k \<Longrightarrow> f (ps ! j) z = z"
  shows "fold f (drop i ps) z = fold f (drop (Suc k) ps) (f (ps ! k) z)"
proof -
  have "fold f (take (k - i) (drop i ps)) z = z"
    using assms by (intro fold_skip) (auto simp: in_set_conv_nth)
  then show ?thesis
    by (subst drop_split_at [OF assms(1,2)]) simp
qed

lemma fold_max_start: "z \<le> fold (\<lambda>p z. max z (f p :: 'a::linorder)) xs z"
proof (induction xs arbitrary: z)
  case (Cons x xs)
  have "z \<le> max z (f x)" by simp
  also have "\<dots> \<le> fold (\<lambda>p z. max z (f p)) xs (max z (f x))" by (rule Cons.IH)
  finally show ?case by simp
qed simp

lemma fold_max_upper: "x \<in> set xs \<Longrightarrow> f x \<le> fold (\<lambda>p z. max z (f p :: 'a::linorder)) xs z"
proof (induction xs arbitrary: z)
  case (Cons y xs)
  have "f y \<le> fold (\<lambda>p z. max z (f p)) xs (max z (f y))"
    using fold_max_start [of "max z (f y)" f xs] by simp
  with Cons show ?case by auto
qed simp

lemma fold_max_attained:
  "fold (\<lambda>p z. max z (f p :: 'a::linorder)) xs z = z \<or>
     (\<exists>p \<in> set xs. fold (\<lambda>p z. max z (f p)) xs z = f p)"
proof (induction xs arbitrary: z)
  case (Cons x xs)
  from Cons.IH [of "max z (f x)"] show ?case by (auto simp: max_def)
qed simp

lemma those_eq_Some: "those xs = Some ys \<longleftrightarrow> xs = map Some ys"
proof (induction xs arbitrary: ys)
  case Nil
  then show ?case by auto
next
  case (Cons x xs)
  then show ?case by (cases x; cases ys) auto
qed

text \<open>
  The contract of a counting loop over the entries of a table: entry \<open>i\<close> transforms the state,
  and the loop is the fold over the indices below the length.
\<close>

locale table_fold =
  fixes loop :: "u16 \<Rightarrow> 's \<Rightarrow> 's option"
    and step :: "u16 \<Rightarrow> 's \<Rightarrow> 's option"
    and len :: u16
  assumes loop_step: "loop i s =
    (if i < len then do { s' \<leftarrow> step i s; loop (i + 1) s' } else Some s)"
begin

lemma loop_from: "loop i s = fold_opt (\<lambda>k. step (of_nat k)) [unat i..<unat len] s"
proof (induction "unat len - unat i" arbitrary: i s rule: less_induct)
  case less
  show ?case
  proof (cases "i < len")
    case True
    then have "[unat i..<unat len] = unat i # [unat (i + 1)..<unat len]"
      by (simp add: unat_Suc_index word_less_nat_alt upt_conv_Cons)
    with True less.hyps [OF index_measure [OF True]] show ?thesis
      by (cases "step i s") (simp_all add: loop_step [of i])
  next
    case False
    then show ?thesis by (simp add: loop_step [of i] word_less_nat_alt)
  qed
qed

lemma loop_fold: "loop 0 s = fold_opt (\<lambda>k. step (of_nat k)) [0..<unat len] s"
  using loop_from [of 0 s] by simp

end

section \<open>Code that only reads\<close>

text \<open>
  A computation that only reads memory gives the same answer in every memory that extends the one
  it succeeded in.  \<open>outside m a n\<close> is the memory without the region of \<open>n\<close> bytes at
  \<open>a\<close>: a reader that succeeds there never touches the region, so its answer does not depend on
  what is written to it.
\<close>

definition reads :: "(memory \<Rightarrow> 'a option) \<Rightarrow> bool" where
  "reads f \<longleftrightarrow> (\<forall>m m' r. m \<subseteq>\<^sub>m m' \<longrightarrow> f m = Some r \<longrightarrow> f m' = Some r)"

definition outside :: "memory \<Rightarrow> ptr \<Rightarrow> nat \<Rightarrow> memory" where
  "outside m a n = (\<lambda>x. if in_region a n x then None else m x)"

named_theorems reads_intro \<open>the readers among the definitions\<close>

lemma readsI: "(\<And>m m' r. m \<subseteq>\<^sub>m m' \<Longrightarrow> f m = Some r \<Longrightarrow> f m' = Some r) \<Longrightarrow> reads f"
  by (simp add: reads_def)

lemma readsD: "reads f \<Longrightarrow> f m = Some r \<Longrightarrow> m \<subseteq>\<^sub>m m' \<Longrightarrow> f m' = Some r"
  by (auto simp: reads_def)

lemma reads_const [reads_intro]: "reads (\<lambda>m. c)"
  by (simp add: reads_def)

lemma reads_bind [reads_intro]:
  "reads f \<Longrightarrow> (\<And>x. reads (\<lambda>m. g m x)) \<Longrightarrow> reads (\<lambda>m. Option.bind (f m) (g m))"
  unfolding reads_def Some_bind_conv by blast

lemma reads_if [reads_intro]:
  "(b \<Longrightarrow> reads f) \<Longrightarrow> (\<not> b \<Longrightarrow> reads g) \<Longrightarrow> reads (\<lambda>m. if b then f m else g m)"
  by (cases b) simp_all

lemma reads_case_prod [reads_intro]:
  "(\<And>a b. p = (a, b) \<Longrightarrow> reads (\<lambda>m. f m a b)) \<Longrightarrow> reads (\<lambda>m. case_prod (f m) p)"
  by (cases p) simp

lemma reads_case_option [reads_intro]:
  "reads f \<Longrightarrow> (\<And>x. reads (\<lambda>m. g m x)) \<Longrightarrow>
     reads (\<lambda>m. case p of None \<Rightarrow> f m | Some x \<Rightarrow> g m x)"
  by (cases p) simp_all

lemma reads_map_option [reads_intro]: "reads f \<Longrightarrow> reads (\<lambda>m. map_option g (f m))"
  by (fastforce simp: reads_def)

lemma reads_write_out [reads_intro]: "reads f \<Longrightarrow> reads (\<lambda>m. write_out p (f m))"
  by (cases p) (simp_all add: reads_const reads_map_option)

lemma map_le_Some: "m \<subseteq>\<^sub>m m' \<Longrightarrow> m a = Some b \<Longrightarrow> m' a = Some b"
  by (metis domI map_le_def)

lemma reads_load_bytes [reads_intro]: "reads (\<lambda>m. load_bytes m a n)"
  by (rule readsI) (auto simp: load_bytes_conv dest: map_le_Some)

lemma reads_load8 [reads_intro]: "reads (\<lambda>m. load8 m a)"
  by (rule readsI) (auto simp: load8_def dest: map_le_Some)

lemma reads_load16 [reads_intro]: "reads (\<lambda>m. load16 m a)"
  unfolding load16_def by (intro reads_intro)

lemma reads_load32 [reads_intro]: "reads (\<lambda>m. load32 m a)"
  unfolding load32_def by (intro reads_intro)

lemma reads_load64 [reads_intro]: "reads (\<lambda>m. load64 m a)"
  unfolding load64_def by (intro reads_intro)

lemma outside_le [simp]: "outside m a n \<subseteq>\<^sub>m m"
  by (auto simp: outside_def map_le_def dom_def)

lemma outside_mono_le: "outside m a n = outside m' a n \<Longrightarrow> outside m a n \<subseteq>\<^sub>m m'"
  using outside_le [of m' a n] by simp

lemma outside_eqD: "outside m a n = outside m' a n \<Longrightarrow> \<not> in_region a n x \<Longrightarrow> m x = m' x"
  by (metis outside_def)

lemma outside_eqI: "(\<And>x. \<not> in_region a n x \<Longrightarrow> m x = m' x) \<Longrightarrow> outside m a n = outside m' a n"
  by (auto simp: outside_def)

text \<open>What a reader finds outside a region, it finds after any change of that region.\<close>

lemma reads_outside:
  "reads f \<Longrightarrow> f (outside m a n) = Some r \<Longrightarrow> outside m' a n = outside m a n \<Longrightarrow> f m' = Some r"
  by (metis outside_le readsD)

lemma in_region_sub:
  assumes "in_region (a + b) k x" and "unat b + k \<le> n" and "n \<le> address_space"
  shows "in_region a n x"
proof -
  define y where "y = x - (a + b)"
  have "unat y < k" using assms(1) by (simp add: in_region_def y_def)
  moreover from this have "unat (y + b) = unat y + unat b"
    using assms(2,3) by (simp add: unat_word_ariths)
  moreover have "x - a = y + b" by (simp add: y_def)
  ultimately show ?thesis using assms(2) by (simp add: in_region_def)
qed

lemma mapped_sub:
  assumes "mapped m a n" and "unat b + k \<le> n"
  shows "mapped m (a + b) k"
  unfolding mapped_def
proof
  fix i assume "i \<in> {0..<k}"
  then have "unat b + i \<in> {0..<n}" using assms(2) by simp
  then have "m (a + of_nat (unat b + i)) \<noteq> None" using assms(1) unfolding mapped_def by blast
  then show "m (a + b + of_nat i) \<noteq> None" by (simp add: add.assoc)
qed

text \<open>A memory given by the bytes at a base address, for concrete inputs.\<close>

definition memory_at :: "ptr \<Rightarrow> u8 list \<Rightarrow> memory" where
  "memory_at base bs = (\<lambda>a. let i = unat (a - base) in if i < length bs then Some (bs ! i) else None)"

lemma memory_at_nth:
  assumes "i < length bs" and "length bs \<le> address_space"
  shows "memory_at b bs (b + of_nat i) = Some (bs ! i)"
  using assms by (simp add: memory_at_def unat_of_nat Let_def)

lemma holds_memory_at: "length bs \<le> address_space \<Longrightarrow> holds_bytes (memory_at b bs) b bs"
  by (simp add: holds_bytes_iff memory_at_nth)

lemma mapped_memory_at:
  assumes "length bs \<le> address_space" and "unat a + n \<le> length bs"
  shows "mapped (memory_at b bs) (b + a) n"
proof -
  have "mapped (memory_at b bs) b (length bs)"
    using memory_at_nth [OF _ assms(1)] by (simp add: mapped_def)
  then show ?thesis using assms(2) by (rule mapped_sub)
qed

lemma outside_memory_at:
  assumes "length (xs @ ys) \<le> address_space"
  shows "outside (memory_at b (xs @ ys)) (b + of_nat (length xs)) (length ys) = memory_at b xs"
proof
  fix x
  let ?i = "unat (x - b)"
  show "outside (memory_at b (xs @ ys)) (b + of_nat (length xs)) (length ys) x = memory_at b xs x"
  proof (cases "ys = []")
    case True
    then show ?thesis by (simp add: outside_def)
  next
    case False
    then have "length xs < address_space" using assms by (cases ys) auto
    then have lx: "unat (of_nat (length xs) :: u64) = length xs" by (simp add: unat_of_nat)
    have "in_region (b + of_nat (length xs)) (length ys) x \<longleftrightarrow> in_region (of_nat (length xs)) (length ys) (x - b)"
      by (simp add: in_region_def diff_diff_eq)
    also have "\<dots> \<longleftrightarrow> length xs \<le> ?i \<and> ?i < length xs + length ys"
      using in_region_unat [of "of_nat (length xs)" "length ys" "x - b"] lx assms by simp
    finally show ?thesis by (auto simp: outside_def memory_at_def Let_def nth_append)
  qed
qed

end
