(* ===== verification/Elf_Format.thy ===== *)
theory Elf_Format
  imports Ps4_Prelude
begin

text \<open>
  The ELF file format as \<open>include/sys/elf_common.h\<close>, \<open>include/sys/elf64.h\<close> and
  \<open>include/ps4/elfloader.h\<close> declare it: the constants the loader tests, the 64-bit structures
  as records, the accessors \<open>ld_f\<close> that read the field \<open>f\<close> of a structure through a pointer
  (only the bytes of that field, as the C expression \<open>s->f\<close> does), the decoders \<open>x_at\<close> of a
  whole structure, the encoders \<open>x_bytes\<close>, and the macros over \<open>r_info\<close>, \<open>m_info\<close>,
  \<open>st_info\<close> and \<open>st_other\<close>.  The \<open>x_at_iff\<close> lemmas are the round trip between the two.
\<close>

section \<open>Constants\<close>

text \<open>Values of \<open>e_ident\<close> (elf_common.h).\<close>

abbreviation (input) ELFMAG0 :: u8 where "ELFMAG0 \<equiv> 0x7f"
abbreviation (input) ELFMAG1 :: u8 where "ELFMAG1 \<equiv> 0x45"
abbreviation (input) ELFMAG2 :: u8 where "ELFMAG2 \<equiv> 0x4c"
abbreviation (input) ELFMAG3 :: u8 where "ELFMAG3 \<equiv> 0x46"
abbreviation (input) ELFCLASS64 :: u8 where "ELFCLASS64 \<equiv> 2"
abbreviation (input) ELFDATA2LSB :: u8 where "ELFDATA2LSB \<equiv> 1"
abbreviation (input) EV_CURRENT :: "'a::len word" where "EV_CURRENT \<equiv> 1"
abbreviation (input) ELFOSABI_SYSV :: u8 where "ELFOSABI_SYSV \<equiv> 0"
abbreviation (input) ELFOSABI_FREEBSD :: u8 where "ELFOSABI_FREEBSD \<equiv> 9"

text \<open>Values of \<open>e_type\<close>, \<open>e_machine\<close>, \<open>sh_type\<close>, \<open>sh_flags\<close>, \<open>p_type\<close>,
  \<open>p_flags\<close>, \<open>d_tag\<close> and the relocation types.\<close>

abbreviation (input) ET_DYN :: u16 where "ET_DYN \<equiv> 3"
abbreviation (input) EM_X86_64 :: u16 where "EM_X86_64 \<equiv> 62"
abbreviation (input) SHT_SYMTAB :: u32 where "SHT_SYMTAB \<equiv> 2"
abbreviation (input) SHT_RELA :: u32 where "SHT_RELA \<equiv> 4"
abbreviation (input) SHT_DYNAMIC :: u64 where "SHT_DYNAMIC \<equiv> 6"
abbreviation (input) SHT_DYNSYM :: u32 where "SHT_DYNSYM \<equiv> 11"
abbreviation (input) SHF_ALLOC :: u64 where "SHF_ALLOC \<equiv> 0x2"
abbreviation (input) SHF_EXECINSTR :: u64 where "SHF_EXECINSTR \<equiv> 0x4"
abbreviation (input) PT_LOAD :: u64 where "PT_LOAD \<equiv> 1"
abbreviation (input) PT_DYNAMIC :: u64 where "PT_DYNAMIC \<equiv> 2"
abbreviation (input) PF_X :: u32 where "PF_X \<equiv> 0x1"
abbreviation (input) DT_NULL :: u64 where "DT_NULL \<equiv> 0"
abbreviation (input) DT_STRTAB :: u64 where "DT_STRTAB \<equiv> 5"
abbreviation (input) DT_SYMTAB :: u64 where "DT_SYMTAB \<equiv> 6"
abbreviation (input) R_X86_64_64 :: u16 where "R_X86_64_64 \<equiv> 1"
abbreviation (input) R_X86_64_GLOB_DAT :: u16 where "R_X86_64_GLOB_DAT \<equiv> 6"
abbreviation (input) R_X86_64_JMP_SLOT :: u16 where "R_X86_64_JMP_SLOT \<equiv> 7"
abbreviation (input) R_X86_64_RELATIVE :: u16 where "R_X86_64_RELATIVE \<equiv> 8"

section \<open>Structures\<close>

text \<open>ELF header: identification bytes, then the fixed fields.\<close>

record Elf64_Ehdr =
  e_ident :: "u8 list"
  e_type :: u16
  e_machine :: u16
  e_version :: u32
  e_entry :: u64
  e_phoff :: u64
  e_shoff :: u64
  e_flags :: u32
  e_ehsize :: u16
  e_phentsize :: u16
  e_phnum :: u16
  e_shentsize :: u16
  e_shnum :: u16
  e_shstrndx :: u16

definition ld_e_ident :: "memory \<Rightarrow> ptr \<Rightarrow> u8 list option" where
  "ld_e_ident m s = load_bytes m s 16"

definition ld_e_type :: "memory \<Rightarrow> ptr \<Rightarrow> u16 option" where
  "ld_e_type m s = load16 m (s + 16)"

definition ld_e_machine :: "memory \<Rightarrow> ptr \<Rightarrow> u16 option" where
  "ld_e_machine m s = load16 m (s + 18)"

definition ld_e_version :: "memory \<Rightarrow> ptr \<Rightarrow> u32 option" where
  "ld_e_version m s = load32 m (s + 20)"

definition ld_e_entry :: "memory \<Rightarrow> ptr \<Rightarrow> u64 option" where
  "ld_e_entry m s = load64 m (s + 24)"

definition ld_e_phoff :: "memory \<Rightarrow> ptr \<Rightarrow> u64 option" where
  "ld_e_phoff m s = load64 m (s + 32)"

definition ld_e_shoff :: "memory \<Rightarrow> ptr \<Rightarrow> u64 option" where
  "ld_e_shoff m s = load64 m (s + 40)"

definition ld_e_flags :: "memory \<Rightarrow> ptr \<Rightarrow> u32 option" where
  "ld_e_flags m s = load32 m (s + 48)"

definition ld_e_ehsize :: "memory \<Rightarrow> ptr \<Rightarrow> u16 option" where
  "ld_e_ehsize m s = load16 m (s + 52)"

definition ld_e_phentsize :: "memory \<Rightarrow> ptr \<Rightarrow> u16 option" where
  "ld_e_phentsize m s = load16 m (s + 54)"

definition ld_e_phnum :: "memory \<Rightarrow> ptr \<Rightarrow> u16 option" where
  "ld_e_phnum m s = load16 m (s + 56)"

definition ld_e_shentsize :: "memory \<Rightarrow> ptr \<Rightarrow> u16 option" where
  "ld_e_shentsize m s = load16 m (s + 58)"

definition ld_e_shnum :: "memory \<Rightarrow> ptr \<Rightarrow> u16 option" where
  "ld_e_shnum m s = load16 m (s + 60)"

definition ld_e_shstrndx :: "memory \<Rightarrow> ptr \<Rightarrow> u16 option" where
  "ld_e_shstrndx m s = load16 m (s + 62)"

lemmas ld_ehdr_defs =
  ld_e_ident_def ld_e_type_def ld_e_machine_def ld_e_version_def ld_e_entry_def
  ld_e_phoff_def ld_e_shoff_def ld_e_flags_def ld_e_ehsize_def ld_e_phentsize_def
  ld_e_phnum_def ld_e_shentsize_def ld_e_shnum_def ld_e_shstrndx_def

definition ehdr_at :: "memory \<Rightarrow> ptr \<Rightarrow> Elf64_Ehdr option" where
  "ehdr_at m s = do {
     v0 \<leftarrow> ld_e_ident m s;
     v1 \<leftarrow> ld_e_type m s;
     v2 \<leftarrow> ld_e_machine m s;
     v3 \<leftarrow> ld_e_version m s;
     v4 \<leftarrow> ld_e_entry m s;
     v5 \<leftarrow> ld_e_phoff m s;
     v6 \<leftarrow> ld_e_shoff m s;
     v7 \<leftarrow> ld_e_flags m s;
     v8 \<leftarrow> ld_e_ehsize m s;
     v9 \<leftarrow> ld_e_phentsize m s;
     v10 \<leftarrow> ld_e_phnum m s;
     v11 \<leftarrow> ld_e_shentsize m s;
     v12 \<leftarrow> ld_e_shnum m s;
     v13 \<leftarrow> ld_e_shstrndx m s;
     Some \<lparr>e_ident = v0, e_type = v1, e_machine = v2, e_version = v3, e_entry = v4, e_phoff = v5, e_shoff = v6, e_flags = v7, e_ehsize = v8, e_phentsize = v9, e_phnum = v10, e_shentsize = v11, e_shnum = v12, e_shstrndx = v13\<rparr> }"

definition ehdr_bytes :: "Elf64_Ehdr \<Rightarrow> u8 list" where
  "ehdr_bytes h =
     e_ident h @ bytes_of_word 2 (e_type h) @ bytes_of_word 2 (e_machine h) @ bytes_of_word 4 (e_version h) @ bytes_of_word 8 (e_entry h) @ bytes_of_word 8 (e_phoff h) @ bytes_of_word 8 (e_shoff h) @ bytes_of_word 4 (e_flags h) @ bytes_of_word 2 (e_ehsize h) @ bytes_of_word 2 (e_phentsize h) @ bytes_of_word 2 (e_phnum h) @ bytes_of_word 2 (e_shentsize h) @ bytes_of_word 2 (e_shnum h) @ bytes_of_word 2 (e_shstrndx h)"

abbreviation (input) sizeof_Elf64_Ehdr :: nat where
  "sizeof_Elf64_Ehdr \<equiv> 64"

lemma ehdr_atD:
  assumes "ehdr_at m s = Some h"
  shows "ld_e_ident m s = Some (e_ident h)"
    and "ld_e_type m s = Some (e_type h)"
    and "ld_e_machine m s = Some (e_machine h)"
    and "ld_e_version m s = Some (e_version h)"
    and "ld_e_entry m s = Some (e_entry h)"
    and "ld_e_phoff m s = Some (e_phoff h)"
    and "ld_e_shoff m s = Some (e_shoff h)"
    and "ld_e_flags m s = Some (e_flags h)"
    and "ld_e_ehsize m s = Some (e_ehsize h)"
    and "ld_e_phentsize m s = Some (e_phentsize h)"
    and "ld_e_phnum m s = Some (e_phnum h)"
    and "ld_e_shentsize m s = Some (e_shentsize h)"
    and "ld_e_shnum m s = Some (e_shnum h)"
    and "ld_e_shstrndx m s = Some (e_shstrndx h)"
  using assms by (auto simp: ehdr_at_def Some_bind_conv)

text \<open>Section header.\<close>

record Elf64_Shdr =
  sh_name :: u32
  sh_type :: u32
  sh_flags :: u64
  sh_addr :: u64
  sh_offset :: u64
  sh_size :: u64
  sh_link :: u32
  sh_info :: u32
  sh_addralign :: u64
  sh_entsize :: u64

definition ld_sh_name :: "memory \<Rightarrow> ptr \<Rightarrow> u32 option" where
  "ld_sh_name m s = load32 m (s)"

definition ld_sh_type :: "memory \<Rightarrow> ptr \<Rightarrow> u32 option" where
  "ld_sh_type m s = load32 m (s + 4)"

definition ld_sh_flags :: "memory \<Rightarrow> ptr \<Rightarrow> u64 option" where
  "ld_sh_flags m s = load64 m (s + 8)"

definition ld_sh_addr :: "memory \<Rightarrow> ptr \<Rightarrow> u64 option" where
  "ld_sh_addr m s = load64 m (s + 16)"

definition ld_sh_offset :: "memory \<Rightarrow> ptr \<Rightarrow> u64 option" where
  "ld_sh_offset m s = load64 m (s + 24)"

definition ld_sh_size :: "memory \<Rightarrow> ptr \<Rightarrow> u64 option" where
  "ld_sh_size m s = load64 m (s + 32)"

definition ld_sh_link :: "memory \<Rightarrow> ptr \<Rightarrow> u32 option" where
  "ld_sh_link m s = load32 m (s + 40)"

definition ld_sh_info :: "memory \<Rightarrow> ptr \<Rightarrow> u32 option" where
  "ld_sh_info m s = load32 m (s + 44)"

definition ld_sh_addralign :: "memory \<Rightarrow> ptr \<Rightarrow> u64 option" where
  "ld_sh_addralign m s = load64 m (s + 48)"

definition ld_sh_entsize :: "memory \<Rightarrow> ptr \<Rightarrow> u64 option" where
  "ld_sh_entsize m s = load64 m (s + 56)"

lemmas ld_shdr_defs =
  ld_sh_name_def ld_sh_type_def ld_sh_flags_def ld_sh_addr_def ld_sh_offset_def
  ld_sh_size_def ld_sh_link_def ld_sh_info_def ld_sh_addralign_def ld_sh_entsize_def

definition shdr_at :: "memory \<Rightarrow> ptr \<Rightarrow> Elf64_Shdr option" where
  "shdr_at m s = do {
     v0 \<leftarrow> ld_sh_name m s;
     v1 \<leftarrow> ld_sh_type m s;
     v2 \<leftarrow> ld_sh_flags m s;
     v3 \<leftarrow> ld_sh_addr m s;
     v4 \<leftarrow> ld_sh_offset m s;
     v5 \<leftarrow> ld_sh_size m s;
     v6 \<leftarrow> ld_sh_link m s;
     v7 \<leftarrow> ld_sh_info m s;
     v8 \<leftarrow> ld_sh_addralign m s;
     v9 \<leftarrow> ld_sh_entsize m s;
     Some \<lparr>sh_name = v0, sh_type = v1, sh_flags = v2, sh_addr = v3, sh_offset = v4, sh_size = v5, sh_link = v6, sh_info = v7, sh_addralign = v8, sh_entsize = v9\<rparr> }"

definition shdr_bytes :: "Elf64_Shdr \<Rightarrow> u8 list" where
  "shdr_bytes h =
     bytes_of_word 4 (sh_name h) @ bytes_of_word 4 (sh_type h) @ bytes_of_word 8 (sh_flags h) @ bytes_of_word 8 (sh_addr h) @ bytes_of_word 8 (sh_offset h) @ bytes_of_word 8 (sh_size h) @ bytes_of_word 4 (sh_link h) @ bytes_of_word 4 (sh_info h) @ bytes_of_word 8 (sh_addralign h) @ bytes_of_word 8 (sh_entsize h)"

abbreviation (input) sizeof_Elf64_Shdr :: nat where
  "sizeof_Elf64_Shdr \<equiv> 64"

lemma shdr_atD:
  assumes "shdr_at m s = Some h"
  shows "ld_sh_name m s = Some (sh_name h)"
    and "ld_sh_type m s = Some (sh_type h)"
    and "ld_sh_flags m s = Some (sh_flags h)"
    and "ld_sh_addr m s = Some (sh_addr h)"
    and "ld_sh_offset m s = Some (sh_offset h)"
    and "ld_sh_size m s = Some (sh_size h)"
    and "ld_sh_link m s = Some (sh_link h)"
    and "ld_sh_info m s = Some (sh_info h)"
    and "ld_sh_addralign m s = Some (sh_addralign h)"
    and "ld_sh_entsize m s = Some (sh_entsize h)"
  using assms by (auto simp: shdr_at_def Some_bind_conv)

text \<open>Program header.\<close>

record Elf64_Phdr =
  p_type :: u32
  p_flags :: u32
  p_offset :: u64
  p_vaddr :: u64
  p_paddr :: u64
  p_filesz :: u64
  p_memsz :: u64
  p_align :: u64

definition ld_p_type :: "memory \<Rightarrow> ptr \<Rightarrow> u32 option" where
  "ld_p_type m s = load32 m (s)"

definition ld_p_flags :: "memory \<Rightarrow> ptr \<Rightarrow> u32 option" where
  "ld_p_flags m s = load32 m (s + 4)"

definition ld_p_offset :: "memory \<Rightarrow> ptr \<Rightarrow> u64 option" where
  "ld_p_offset m s = load64 m (s + 8)"

definition ld_p_vaddr :: "memory \<Rightarrow> ptr \<Rightarrow> u64 option" where
  "ld_p_vaddr m s = load64 m (s + 16)"

definition ld_p_paddr :: "memory \<Rightarrow> ptr \<Rightarrow> u64 option" where
  "ld_p_paddr m s = load64 m (s + 24)"

definition ld_p_filesz :: "memory \<Rightarrow> ptr \<Rightarrow> u64 option" where
  "ld_p_filesz m s = load64 m (s + 32)"

definition ld_p_memsz :: "memory \<Rightarrow> ptr \<Rightarrow> u64 option" where
  "ld_p_memsz m s = load64 m (s + 40)"

definition ld_p_align :: "memory \<Rightarrow> ptr \<Rightarrow> u64 option" where
  "ld_p_align m s = load64 m (s + 48)"

lemmas ld_phdr_defs =
  ld_p_type_def ld_p_flags_def ld_p_offset_def ld_p_vaddr_def ld_p_paddr_def
  ld_p_filesz_def ld_p_memsz_def ld_p_align_def

definition phdr_at :: "memory \<Rightarrow> ptr \<Rightarrow> Elf64_Phdr option" where
  "phdr_at m s = do {
     v0 \<leftarrow> ld_p_type m s;
     v1 \<leftarrow> ld_p_flags m s;
     v2 \<leftarrow> ld_p_offset m s;
     v3 \<leftarrow> ld_p_vaddr m s;
     v4 \<leftarrow> ld_p_paddr m s;
     v5 \<leftarrow> ld_p_filesz m s;
     v6 \<leftarrow> ld_p_memsz m s;
     v7 \<leftarrow> ld_p_align m s;
     Some \<lparr>p_type = v0, p_flags = v1, p_offset = v2, p_vaddr = v3, p_paddr = v4, p_filesz = v5, p_memsz = v6, p_align = v7\<rparr> }"

definition phdr_bytes :: "Elf64_Phdr \<Rightarrow> u8 list" where
  "phdr_bytes h =
     bytes_of_word 4 (p_type h) @ bytes_of_word 4 (p_flags h) @ bytes_of_word 8 (p_offset h) @ bytes_of_word 8 (p_vaddr h) @ bytes_of_word 8 (p_paddr h) @ bytes_of_word 8 (p_filesz h) @ bytes_of_word 8 (p_memsz h) @ bytes_of_word 8 (p_align h)"

abbreviation (input) sizeof_Elf64_Phdr :: nat where
  "sizeof_Elf64_Phdr \<equiv> 56"

lemma phdr_atD:
  assumes "phdr_at m s = Some h"
  shows "ld_p_type m s = Some (p_type h)"
    and "ld_p_flags m s = Some (p_flags h)"
    and "ld_p_offset m s = Some (p_offset h)"
    and "ld_p_vaddr m s = Some (p_vaddr h)"
    and "ld_p_paddr m s = Some (p_paddr h)"
    and "ld_p_filesz m s = Some (p_filesz h)"
    and "ld_p_memsz m s = Some (p_memsz h)"
    and "ld_p_align m s = Some (p_align h)"
  using assms by (auto simp: phdr_at_def Some_bind_conv)

text \<open>Dynamic entry; the tag is signed in C and kept here by its bits, the union by its value.\<close>

record Elf64_Dyn =
  d_tag :: u64
  d_un :: u64

definition ld_d_tag :: "memory \<Rightarrow> ptr \<Rightarrow> u64 option" where
  "ld_d_tag m s = load64 m (s)"

definition ld_d_un :: "memory \<Rightarrow> ptr \<Rightarrow> u64 option" where
  "ld_d_un m s = load64 m (s + 8)"

lemmas ld_dyn_defs =
  ld_d_tag_def ld_d_un_def

definition dyn_at :: "memory \<Rightarrow> ptr \<Rightarrow> Elf64_Dyn option" where
  "dyn_at m s = do {
     v0 \<leftarrow> ld_d_tag m s;
     v1 \<leftarrow> ld_d_un m s;
     Some \<lparr>d_tag = v0, d_un = v1\<rparr> }"

definition dyn_bytes :: "Elf64_Dyn \<Rightarrow> u8 list" where
  "dyn_bytes h =
     bytes_of_word 8 (d_tag h) @ bytes_of_word 8 (d_un h)"

abbreviation (input) sizeof_Elf64_Dyn :: nat where
  "sizeof_Elf64_Dyn \<equiv> 16"

lemma dyn_atD:
  assumes "dyn_at m s = Some h"
  shows "ld_d_tag m s = Some (d_tag h)"
    and "ld_d_un m s = Some (d_un h)"
  using assms by (auto simp: dyn_at_def Some_bind_conv)

text \<open>Relocation without addend.\<close>

record Elf64_Rel =
  rel_offset :: u64
  rel_info :: u64

definition ld_rel_offset :: "memory \<Rightarrow> ptr \<Rightarrow> u64 option" where
  "ld_rel_offset m s = load64 m (s)"

definition ld_rel_info :: "memory \<Rightarrow> ptr \<Rightarrow> u64 option" where
  "ld_rel_info m s = load64 m (s + 8)"

lemmas ld_rel_defs =
  ld_rel_offset_def ld_rel_info_def

definition rel_at :: "memory \<Rightarrow> ptr \<Rightarrow> Elf64_Rel option" where
  "rel_at m s = do {
     v0 \<leftarrow> ld_rel_offset m s;
     v1 \<leftarrow> ld_rel_info m s;
     Some \<lparr>rel_offset = v0, rel_info = v1\<rparr> }"

definition rel_bytes :: "Elf64_Rel \<Rightarrow> u8 list" where
  "rel_bytes h =
     bytes_of_word 8 (rel_offset h) @ bytes_of_word 8 (rel_info h)"

abbreviation (input) sizeof_Elf64_Rel :: nat where
  "sizeof_Elf64_Rel \<equiv> 16"

lemma rel_atD:
  assumes "rel_at m s = Some h"
  shows "ld_rel_offset m s = Some (rel_offset h)"
    and "ld_rel_info m s = Some (rel_info h)"
  using assms by (auto simp: rel_at_def Some_bind_conv)

text \<open>Relocation with addend; the addend is signed in C and kept by its bits.\<close>

record Elf64_Rela =
  r_offset :: u64
  r_info :: u64
  r_addend :: u64

definition ld_r_offset :: "memory \<Rightarrow> ptr \<Rightarrow> u64 option" where
  "ld_r_offset m s = load64 m (s)"

definition ld_r_info :: "memory \<Rightarrow> ptr \<Rightarrow> u64 option" where
  "ld_r_info m s = load64 m (s + 8)"

definition ld_r_addend :: "memory \<Rightarrow> ptr \<Rightarrow> u64 option" where
  "ld_r_addend m s = load64 m (s + 16)"

lemmas ld_rela_defs =
  ld_r_offset_def ld_r_info_def ld_r_addend_def

definition rela_at :: "memory \<Rightarrow> ptr \<Rightarrow> Elf64_Rela option" where
  "rela_at m s = do {
     v0 \<leftarrow> ld_r_offset m s;
     v1 \<leftarrow> ld_r_info m s;
     v2 \<leftarrow> ld_r_addend m s;
     Some \<lparr>r_offset = v0, r_info = v1, r_addend = v2\<rparr> }"

definition rela_bytes :: "Elf64_Rela \<Rightarrow> u8 list" where
  "rela_bytes h =
     bytes_of_word 8 (r_offset h) @ bytes_of_word 8 (r_info h) @ bytes_of_word 8 (r_addend h)"

abbreviation (input) sizeof_Elf64_Rela :: nat where
  "sizeof_Elf64_Rela \<equiv> 24"

lemma rela_atD:
  assumes "rela_at m s = Some h"
  shows "ld_r_offset m s = Some (r_offset h)"
    and "ld_r_info m s = Some (r_info h)"
    and "ld_r_addend m s = Some (r_addend h)"
  using assms by (auto simp: rela_at_def Some_bind_conv)

text \<open>Symbol table entry.\<close>

record Elf64_Sym =
  st_name :: u32
  st_info :: u8
  st_other :: u8
  st_shndx :: u16
  st_value :: u64
  st_size :: u64

definition ld_st_name :: "memory \<Rightarrow> ptr \<Rightarrow> u32 option" where
  "ld_st_name m s = load32 m (s)"

definition ld_st_info :: "memory \<Rightarrow> ptr \<Rightarrow> u8 option" where
  "ld_st_info m s = load8 m (s + 4)"

definition ld_st_other :: "memory \<Rightarrow> ptr \<Rightarrow> u8 option" where
  "ld_st_other m s = load8 m (s + 5)"

definition ld_st_shndx :: "memory \<Rightarrow> ptr \<Rightarrow> u16 option" where
  "ld_st_shndx m s = load16 m (s + 6)"

definition ld_st_value :: "memory \<Rightarrow> ptr \<Rightarrow> u64 option" where
  "ld_st_value m s = load64 m (s + 8)"

definition ld_st_size :: "memory \<Rightarrow> ptr \<Rightarrow> u64 option" where
  "ld_st_size m s = load64 m (s + 16)"

lemmas ld_sym_defs =
  ld_st_name_def ld_st_info_def ld_st_other_def ld_st_shndx_def ld_st_value_def
  ld_st_size_def

definition sym_at :: "memory \<Rightarrow> ptr \<Rightarrow> Elf64_Sym option" where
  "sym_at m s = do {
     v0 \<leftarrow> ld_st_name m s;
     v1 \<leftarrow> ld_st_info m s;
     v2 \<leftarrow> ld_st_other m s;
     v3 \<leftarrow> ld_st_shndx m s;
     v4 \<leftarrow> ld_st_value m s;
     v5 \<leftarrow> ld_st_size m s;
     Some \<lparr>st_name = v0, st_info = v1, st_other = v2, st_shndx = v3, st_value = v4, st_size = v5\<rparr> }"

definition sym_bytes :: "Elf64_Sym \<Rightarrow> u8 list" where
  "sym_bytes h =
     bytes_of_word 4 (st_name h) @ [st_info h] @ [st_other h] @ bytes_of_word 2 (st_shndx h) @ bytes_of_word 8 (st_value h) @ bytes_of_word 8 (st_size h)"

abbreviation (input) sizeof_Elf64_Sym :: nat where
  "sizeof_Elf64_Sym \<equiv> 24"

lemma sym_atD:
  assumes "sym_at m s = Some h"
  shows "ld_st_name m s = Some (st_name h)"
    and "ld_st_info m s = Some (st_info h)"
    and "ld_st_other m s = Some (st_other h)"
    and "ld_st_shndx m s = Some (st_shndx h)"
    and "ld_st_value m s = Some (st_value h)"
    and "ld_st_size m s = Some (st_size h)"
  using assms by (auto simp: sym_at_def Some_bind_conv)


section \<open>Decoding inverts encoding\<close>

lemmas layout_simps = load_holds load_bytes_holds holds_bytes_append Some_bind_conv

lemma ehdr_at_iff: "length (e_ident h) = 16 \<Longrightarrow> ehdr_at m s = Some h \<longleftrightarrow> holds_bytes m s (ehdr_bytes h)"
  by (cases h) (auto simp: ehdr_at_def ehdr_bytes_def ld_ehdr_defs layout_simps ac_simps)

lemma length_ehdr_bytes: "length (e_ident h) = 16 \<Longrightarrow> length (ehdr_bytes h) = sizeof_Elf64_Ehdr"
  by (simp add: ehdr_bytes_def)

lemma shdr_at_iff: "shdr_at m s = Some h \<longleftrightarrow> holds_bytes m s (shdr_bytes h)"
  by (cases h) (auto simp: shdr_at_def shdr_bytes_def ld_shdr_defs layout_simps ac_simps)

lemma length_shdr_bytes: "length (shdr_bytes h) = sizeof_Elf64_Shdr"
  by (simp add: shdr_bytes_def)

lemma phdr_at_iff: "phdr_at m s = Some h \<longleftrightarrow> holds_bytes m s (phdr_bytes h)"
  by (cases h) (auto simp: phdr_at_def phdr_bytes_def ld_phdr_defs layout_simps ac_simps)

lemma length_phdr_bytes: "length (phdr_bytes h) = sizeof_Elf64_Phdr"
  by (simp add: phdr_bytes_def)

lemma dyn_at_iff: "dyn_at m s = Some h \<longleftrightarrow> holds_bytes m s (dyn_bytes h)"
  by (cases h) (auto simp: dyn_at_def dyn_bytes_def ld_dyn_defs layout_simps ac_simps)

lemma length_dyn_bytes: "length (dyn_bytes h) = sizeof_Elf64_Dyn"
  by (simp add: dyn_bytes_def)

lemma rel_at_iff: "rel_at m s = Some h \<longleftrightarrow> holds_bytes m s (rel_bytes h)"
  by (cases h) (auto simp: rel_at_def rel_bytes_def ld_rel_defs layout_simps ac_simps)

lemma length_rel_bytes: "length (rel_bytes h) = sizeof_Elf64_Rel"
  by (simp add: rel_bytes_def)

lemma rela_at_iff: "rela_at m s = Some h \<longleftrightarrow> holds_bytes m s (rela_bytes h)"
  by (cases h) (auto simp: rela_at_def rela_bytes_def ld_rela_defs layout_simps ac_simps)

lemma length_rela_bytes: "length (rela_bytes h) = sizeof_Elf64_Rela"
  by (simp add: rela_bytes_def)

lemma sym_at_iff: "sym_at m s = Some h \<longleftrightarrow> holds_bytes m s (sym_bytes h)"
  by (cases h) (auto simp: sym_at_def sym_bytes_def ld_sym_defs layout_simps ac_simps)

lemma length_sym_bytes: "length (sym_bytes h) = sizeof_Elf64_Sym"
  by (simp add: sym_bytes_def)

section \<open>Field accesses only read\<close>

lemma reads_ld_e_ident [reads_intro]: "reads (\<lambda>m. ld_e_ident m s)"
  unfolding ld_e_ident_def by (intro reads_intro)

lemma reads_ld_e_type [reads_intro]: "reads (\<lambda>m. ld_e_type m s)"
  unfolding ld_e_type_def by (intro reads_intro)

lemma reads_ld_e_machine [reads_intro]: "reads (\<lambda>m. ld_e_machine m s)"
  unfolding ld_e_machine_def by (intro reads_intro)

lemma reads_ld_e_version [reads_intro]: "reads (\<lambda>m. ld_e_version m s)"
  unfolding ld_e_version_def by (intro reads_intro)

lemma reads_ld_e_entry [reads_intro]: "reads (\<lambda>m. ld_e_entry m s)"
  unfolding ld_e_entry_def by (intro reads_intro)

lemma reads_ld_e_phoff [reads_intro]: "reads (\<lambda>m. ld_e_phoff m s)"
  unfolding ld_e_phoff_def by (intro reads_intro)

lemma reads_ld_e_shoff [reads_intro]: "reads (\<lambda>m. ld_e_shoff m s)"
  unfolding ld_e_shoff_def by (intro reads_intro)

lemma reads_ld_e_flags [reads_intro]: "reads (\<lambda>m. ld_e_flags m s)"
  unfolding ld_e_flags_def by (intro reads_intro)

lemma reads_ld_e_ehsize [reads_intro]: "reads (\<lambda>m. ld_e_ehsize m s)"
  unfolding ld_e_ehsize_def by (intro reads_intro)

lemma reads_ld_e_phentsize [reads_intro]: "reads (\<lambda>m. ld_e_phentsize m s)"
  unfolding ld_e_phentsize_def by (intro reads_intro)

lemma reads_ld_e_phnum [reads_intro]: "reads (\<lambda>m. ld_e_phnum m s)"
  unfolding ld_e_phnum_def by (intro reads_intro)

lemma reads_ld_e_shentsize [reads_intro]: "reads (\<lambda>m. ld_e_shentsize m s)"
  unfolding ld_e_shentsize_def by (intro reads_intro)

lemma reads_ld_e_shnum [reads_intro]: "reads (\<lambda>m. ld_e_shnum m s)"
  unfolding ld_e_shnum_def by (intro reads_intro)

lemma reads_ld_e_shstrndx [reads_intro]: "reads (\<lambda>m. ld_e_shstrndx m s)"
  unfolding ld_e_shstrndx_def by (intro reads_intro)

lemma reads_ld_sh_name [reads_intro]: "reads (\<lambda>m. ld_sh_name m s)"
  unfolding ld_sh_name_def by (intro reads_intro)

lemma reads_ld_sh_type [reads_intro]: "reads (\<lambda>m. ld_sh_type m s)"
  unfolding ld_sh_type_def by (intro reads_intro)

lemma reads_ld_sh_flags [reads_intro]: "reads (\<lambda>m. ld_sh_flags m s)"
  unfolding ld_sh_flags_def by (intro reads_intro)

lemma reads_ld_sh_addr [reads_intro]: "reads (\<lambda>m. ld_sh_addr m s)"
  unfolding ld_sh_addr_def by (intro reads_intro)

lemma reads_ld_sh_offset [reads_intro]: "reads (\<lambda>m. ld_sh_offset m s)"
  unfolding ld_sh_offset_def by (intro reads_intro)

lemma reads_ld_sh_size [reads_intro]: "reads (\<lambda>m. ld_sh_size m s)"
  unfolding ld_sh_size_def by (intro reads_intro)

lemma reads_ld_sh_link [reads_intro]: "reads (\<lambda>m. ld_sh_link m s)"
  unfolding ld_sh_link_def by (intro reads_intro)

lemma reads_ld_sh_info [reads_intro]: "reads (\<lambda>m. ld_sh_info m s)"
  unfolding ld_sh_info_def by (intro reads_intro)

lemma reads_ld_sh_addralign [reads_intro]: "reads (\<lambda>m. ld_sh_addralign m s)"
  unfolding ld_sh_addralign_def by (intro reads_intro)

lemma reads_ld_sh_entsize [reads_intro]: "reads (\<lambda>m. ld_sh_entsize m s)"
  unfolding ld_sh_entsize_def by (intro reads_intro)

lemma reads_ld_p_type [reads_intro]: "reads (\<lambda>m. ld_p_type m s)"
  unfolding ld_p_type_def by (intro reads_intro)

lemma reads_ld_p_flags [reads_intro]: "reads (\<lambda>m. ld_p_flags m s)"
  unfolding ld_p_flags_def by (intro reads_intro)

lemma reads_ld_p_offset [reads_intro]: "reads (\<lambda>m. ld_p_offset m s)"
  unfolding ld_p_offset_def by (intro reads_intro)

lemma reads_ld_p_vaddr [reads_intro]: "reads (\<lambda>m. ld_p_vaddr m s)"
  unfolding ld_p_vaddr_def by (intro reads_intro)

lemma reads_ld_p_paddr [reads_intro]: "reads (\<lambda>m. ld_p_paddr m s)"
  unfolding ld_p_paddr_def by (intro reads_intro)

lemma reads_ld_p_filesz [reads_intro]: "reads (\<lambda>m. ld_p_filesz m s)"
  unfolding ld_p_filesz_def by (intro reads_intro)

lemma reads_ld_p_memsz [reads_intro]: "reads (\<lambda>m. ld_p_memsz m s)"
  unfolding ld_p_memsz_def by (intro reads_intro)

lemma reads_ld_p_align [reads_intro]: "reads (\<lambda>m. ld_p_align m s)"
  unfolding ld_p_align_def by (intro reads_intro)

lemma reads_ld_d_tag [reads_intro]: "reads (\<lambda>m. ld_d_tag m s)"
  unfolding ld_d_tag_def by (intro reads_intro)

lemma reads_ld_d_un [reads_intro]: "reads (\<lambda>m. ld_d_un m s)"
  unfolding ld_d_un_def by (intro reads_intro)

lemma reads_ld_rel_offset [reads_intro]: "reads (\<lambda>m. ld_rel_offset m s)"
  unfolding ld_rel_offset_def by (intro reads_intro)

lemma reads_ld_rel_info [reads_intro]: "reads (\<lambda>m. ld_rel_info m s)"
  unfolding ld_rel_info_def by (intro reads_intro)

lemma reads_ld_r_offset [reads_intro]: "reads (\<lambda>m. ld_r_offset m s)"
  unfolding ld_r_offset_def by (intro reads_intro)

lemma reads_ld_r_info [reads_intro]: "reads (\<lambda>m. ld_r_info m s)"
  unfolding ld_r_info_def by (intro reads_intro)

lemma reads_ld_r_addend [reads_intro]: "reads (\<lambda>m. ld_r_addend m s)"
  unfolding ld_r_addend_def by (intro reads_intro)

lemma reads_ld_st_name [reads_intro]: "reads (\<lambda>m. ld_st_name m s)"
  unfolding ld_st_name_def by (intro reads_intro)

lemma reads_ld_st_info [reads_intro]: "reads (\<lambda>m. ld_st_info m s)"
  unfolding ld_st_info_def by (intro reads_intro)

lemma reads_ld_st_other [reads_intro]: "reads (\<lambda>m. ld_st_other m s)"
  unfolding ld_st_other_def by (intro reads_intro)

lemma reads_ld_st_shndx [reads_intro]: "reads (\<lambda>m. ld_st_shndx m s)"
  unfolding ld_st_shndx_def by (intro reads_intro)

lemma reads_ld_st_value [reads_intro]: "reads (\<lambda>m. ld_st_value m s)"
  unfolding ld_st_value_def by (intro reads_intro)

lemma reads_ld_st_size [reads_intro]: "reads (\<lambda>m. ld_st_size m s)"
  unfolding ld_st_size_def by (intro reads_intro)

lemma reads_ehdr_at [reads_intro]: "reads (\<lambda>m. ehdr_at m s)"
  unfolding ehdr_at_def by (intro reads_intro)

lemma reads_shdr_at [reads_intro]: "reads (\<lambda>m. shdr_at m s)"
  unfolding shdr_at_def by (intro reads_intro)

lemma reads_phdr_at [reads_intro]: "reads (\<lambda>m. phdr_at m s)"
  unfolding phdr_at_def by (intro reads_intro)

lemma reads_rela_at [reads_intro]: "reads (\<lambda>m. rela_at m s)"
  unfolding rela_at_def by (intro reads_intro)

lemma reads_sym_at [reads_intro]: "reads (\<lambda>m. sym_at m s)"
  unfolding sym_at_def by (intro reads_intro)

section \<open>Packed fields\<close>

definition ELF64_R_SYM :: "u64 \<Rightarrow> u64" where
  "ELF64_R_SYM info = drop_bit 32 info"

definition ELF64_R_TYPE :: "u64 \<Rightarrow> u64" where
  "ELF64_R_TYPE info = info AND 0xffffffff"

definition ELF64_R_INFO :: "u64 \<Rightarrow> u64 \<Rightarrow> u64" where
  "ELF64_R_INFO symb type = push_bit 32 symb + (type AND 0xffffffff)"

definition ELF64_R_TYPE_DATA :: "u64 \<Rightarrow> u64" where
  "ELF64_R_TYPE_DATA info = drop_bit 40 (push_bit 32 info)"

definition ELF64_R_TYPE_ID :: "u64 \<Rightarrow> u64" where
  "ELF64_R_TYPE_ID info = drop_bit 56 (push_bit 56 info)"

definition ELF64_R_TYPE_INFO :: "u64 \<Rightarrow> u64 \<Rightarrow> u64" where
  "ELF64_R_TYPE_INFO data type = push_bit 8 data + type"

definition ELF64_M_SYM :: "u64 \<Rightarrow> u64" where
  "ELF64_M_SYM info = drop_bit 8 info"

definition ELF64_M_SIZE :: "u64 \<Rightarrow> u8" where
  "ELF64_M_SIZE info = ucast info"

definition ELF64_M_INFO :: "u64 \<Rightarrow> u8 \<Rightarrow> u64" where
  "ELF64_M_INFO symb sz = push_bit 8 symb + ucast sz"

text \<open>An \<open>unsigned char\<close> operand is promoted to a 32-bit \<open>int\<close> before the shift.\<close>

definition ELF64_ST_BIND :: "u8 \<Rightarrow> u32" where
  "ELF64_ST_BIND info = drop_bit 4 (ucast info)"

definition ELF64_ST_TYPE :: "u8 \<Rightarrow> u32" where
  "ELF64_ST_TYPE info = ucast info AND 0xf"

definition ELF64_ST_INFO :: "u32 \<Rightarrow> u32 \<Rightarrow> u32" where
  "ELF64_ST_INFO bnd type = push_bit 4 bnd + (type AND 0xf)"

definition ELF64_ST_VISIBILITY :: "u8 \<Rightarrow> u32" where
  "ELF64_ST_VISIBILITY oth = ucast oth AND 0x3"

lemma disjoint_add_or: "(x :: 'a::len word) AND y = 0 \<Longrightarrow> x + y = x OR y"
  by (rule disjunctive_add) (metis bit_0_eq bit_and_iff bot_apply bot_bool_def)

lemma mask_lit: "(0xffffffff :: u64) = mask 32" "(0xf :: u32) = mask 4" "(0x3 :: u32) = mask 2"
  by (simp_all add: mask_eq_exp_minus_1)

lemma push_bit_disjoint_mask:
  "push_bit n (x :: 'a::len word) AND (y AND mask n) = 0"
  by (rule bit_word_eqI) (auto simp: bit_simps)

lemma R_INFO_or: "ELF64_R_INFO s t = push_bit 32 s OR (t AND mask 32)"
  unfolding ELF64_R_INFO_def mask_lit by (intro disjoint_add_or push_bit_disjoint_mask)

lemma ST_INFO_or: "ELF64_ST_INFO b t = push_bit 4 b OR (t AND mask 4)"
  unfolding ELF64_ST_INFO_def mask_lit by (intro disjoint_add_or push_bit_disjoint_mask)

lemma M_INFO_or: "ELF64_M_INFO s z = push_bit 8 s OR ucast z"
  unfolding ELF64_M_INFO_def
  by (rule disjoint_add_or, rule bit_word_eqI) (auto simp: bit_simps dest: bit_imp_le_length)

lemma R_SYM_INFO: "ELF64_R_SYM (ELF64_R_INFO s t) = take_bit 32 s"
  unfolding R_INFO_or ELF64_R_SYM_def by (rule bit_word_eqI) (auto simp: bit_simps)

lemma R_TYPE_INFO: "ELF64_R_TYPE (ELF64_R_INFO s t) = take_bit 32 t"
  unfolding R_INFO_or ELF64_R_TYPE_def mask_lit by (rule bit_word_eqI) (auto simp: bit_simps)

lemma R_INFO_split: "ELF64_R_INFO (ELF64_R_SYM i) (ELF64_R_TYPE i) = i"
  unfolding R_INFO_or ELF64_R_TYPE_def ELF64_R_SYM_def mask_lit
  by (rule bit_word_eqI) (auto simp: bit_simps)

lemma M_SYM_INFO: "ELF64_M_SYM (ELF64_M_INFO s z) = take_bit 56 s"
  unfolding M_INFO_or ELF64_M_SYM_def
  by (rule bit_word_eqI) (auto simp: bit_simps dest: bit_imp_le_length)

lemma M_SIZE_INFO: "ELF64_M_SIZE (ELF64_M_INFO s z) = z"
  unfolding M_INFO_or ELF64_M_SIZE_def by (rule bit_word_eqI) (auto simp: bit_simps)

lemma ST_INFO_split: "ELF64_ST_INFO (ELF64_ST_BIND i) (ELF64_ST_TYPE i) = ucast i"
  unfolding ST_INFO_or ELF64_ST_BIND_def ELF64_ST_TYPE_def mask_lit
  by (rule bit_word_eqI) (auto simp: bit_simps)

end
