(* ===== verification/Elf_Object.thy ===== *)
theory Elf_Object
  imports Elf_Format
begin

text \<open>
  The object half of \<open>source/ps4/elfloader.c\<close>: the \<open>Elf\<close> handle, the getters of the ELF
  header, and the section, segment and dynamic tables with their searches.

  A handle is a pointer to a \<open>struct Elf\<close> in memory (\<open>data\<close> at offset 0, \<open>size\<close> at
  offset 8); \<open>NULL\<close> is a legal handle and every function says what it does with it.
  Out-parameters are passed as their old contents and returned with the new ones (\<open>None\<close> when
  the caller passed \<open>NULL\<close>).  A result \<open>None\<close> is a memory fault, a division by zero, or,
  for \<open>elfDynamicsLength\<close>, a walk that never meets \<open>DT_NULL\<close>.

  The four searches of the source are four copies of one loop.  The locale \<open>table_search\<close>
  states that loop once, with its meaning (the first matching index, or \<open>NULL\<close>), and is
  interpreted on each of the four.
\<close>

section \<open>The handle and the ELF header\<close>

record Elf =
  elf_data :: ptr
  elf_size :: u64

definition ld_elf_data :: "memory \<Rightarrow> ptr \<Rightarrow> ptr option" where
  "ld_elf_data m elf = load64 m elf"

definition ld_elf_size :: "memory \<Rightarrow> ptr \<Rightarrow> u64 option" where
  "ld_elf_size m elf = load64 m (elf + 8)"

definition elfHeader :: "memory \<Rightarrow> ptr \<Rightarrow> ptr option" where
  "elfHeader m elf = (if elf = NULL then Some NULL else ld_elf_data m elf)"

text \<open>\<open>IS_ELF\<close> compares the four magic bytes from left to right and stops at the first
  difference.\<close>

definition IS_ELF :: "memory \<Rightarrow> ptr \<Rightarrow> bool option" where
  "IS_ELF m h = do {
     b0 \<leftarrow> load8 m h;
     if b0 \<noteq> ELFMAG0 then Some False else do {
     b1 \<leftarrow> load8 m (h + 1);
     if b1 \<noteq> ELFMAG1 then Some False else do {
     b2 \<leftarrow> load8 m (h + 2);
     if b2 \<noteq> ELFMAG2 then Some False else do {
     b3 \<leftarrow> load8 m (h + 3);
     Some (b3 = ELFMAG3) }}}}"

definition elfIsElf :: "memory \<Rightarrow> ptr \<Rightarrow> bool option" where
  "elfIsElf m e = do { h \<leftarrow> elfHeader m e; IS_ELF m h }"

definition elf_ident_byte :: "memory \<Rightarrow> ptr \<Rightarrow> u64 \<Rightarrow> u8 option" where
  "elf_ident_byte m e k =
     (if e = NULL then Some 0 else do { d \<leftarrow> ld_elf_data m e; load8 m (d + k) })"

definition elfClass :: "memory \<Rightarrow> ptr \<Rightarrow> u8 option" where
  "elfClass m e = elf_ident_byte m e 4"

definition elfEncoding :: "memory \<Rightarrow> ptr \<Rightarrow> u8 option" where
  "elfEncoding m e = elf_ident_byte m e 5"

definition elfVersion :: "memory \<Rightarrow> ptr \<Rightarrow> u8 option" where
  "elfVersion m e = elf_ident_byte m e 6"

definition elfABI :: "memory \<Rightarrow> ptr \<Rightarrow> u8 option" where
  "elfABI m e = elf_ident_byte m e 7"

definition elfEntry :: "memory \<Rightarrow> ptr \<Rightarrow> u64 option" where
  "elfEntry m elf =
     (if elf = NULL then Some 0 else do {
        h \<leftarrow> elfHeader m elf;
        if h = NULL then Some 0 else ld_e_entry m h })"

section \<open>Searching a table\<close>

text \<open>
  The contract of the search loops: starting at index \<open>i\<close>, entries are tested in order; the
  first that matches is returned with its index, and \<open>NULL\<close> when the index reaches the length.
\<close>

locale table_search =
  fixes loop :: "u16 \<Rightarrow> (ptr \<times> u16) option"
    and hit :: "u16 \<Rightarrow> bool option"
    and entry :: "u16 \<Rightarrow> ptr"
    and len :: u16
  assumes loop_step: "loop i =
    (if i < len then do { b \<leftarrow> hit i; if b then Some (entry i, i) else loop (i + 1) }
     else Some (NULL, i))"
begin

lemma loop_first_hit:
  assumes "i \<le> j" and "j < len" and "hit j = Some True"
    and "\<And>k. i \<le> k \<Longrightarrow> k < j \<Longrightarrow> hit k = Some False"
  shows "loop i = Some (entry j, j)"
  using assms
proof (induction "unat len - unat i" arbitrary: i rule: less_induct)
  case less
  then have il: "i < len" by simp
  show ?case
  proof (cases "i = j")
    case True
    with less.prems il show ?thesis by (simp add: loop_step [of j])
  next
    case False
    with less.prems have ij: "i < j" by simp
    have "loop (i + 1) = Some (entry j, j)"
      using less.hyps [OF index_measure [OF il]] less.prems ij by (simp add: index_step_le [OF il])
    moreover have "hit i = Some False" using less.prems(4) [of i] ij by simp
    ultimately show ?thesis using il by (simp add: loop_step [of i])
  qed
qed

lemma loop_no_hit:
  assumes "\<And>k. i \<le> k \<Longrightarrow> k < len \<Longrightarrow> hit k = Some False"
  shows "loop i = Some (NULL, max i len)"
  using assms
proof (induction "unat len - unat i" arbitrary: i rule: less_induct)
  case less
  show ?case
  proof (cases "i < len")
    case True
    have "loop (i + 1) = Some (NULL, max (i + 1) len)"
      using less.hyps [OF index_measure [OF True]] less.prems by (simp add: index_step_le [OF True])
    moreover have "max (i + 1) len = len" and "max i len = len"
      using True by (simp_all add: max_absorb2 index_step_le)
    ultimately show ?thesis using True less.prems [of i] by (simp add: loop_step [of i])
  next
    case False
    then show ?thesis by (simp add: loop_step [of i] max_def)
  qed
qed

text \<open>Every answer of the loop is one of the two.\<close>

lemma loop_cases:
  assumes "loop i = Some (t, j)"
  shows "(i \<le> j \<and> j < len \<and> t = entry j \<and> hit j = Some True \<and>
            (\<forall>k. i \<le> k \<longrightarrow> k < j \<longrightarrow> hit k = Some False)) \<or>
         (t = NULL \<and> j = max i len \<and> (\<forall>k. i \<le> k \<longrightarrow> k < len \<longrightarrow> hit k = Some False))"
  using assms
proof (induction "unat len - unat i" arbitrary: i rule: less_induct)
  case less
  show ?case
  proof (cases "i < len")
    case False
    with less.prems show ?thesis by (auto simp: loop_step [of i] max_def)
  next
    case il: True
    then have mx: "max (i + 1) len = len" "max i len = len"
      by (simp_all add: max_absorb2 index_step_le)
    from less.prems il obtain b where b: "hit i = Some b"
      by (auto simp: loop_step [of i] Some_bind_conv)
    show ?thesis
    proof (cases b)
      case True
      with less.prems b il show ?thesis by (auto simp: loop_step [of i])
    next
      case False
      with less.prems b il have "loop (i + 1) = Some (t, j)"
        by (simp add: loop_step [of i])
      from less.hyps [OF index_measure [OF il] this] False b il mx
      show ?thesis
        by (auto simp: index_le_cases [OF il])
    qed
  qed
qed

text \<open>On a readable table the loop is a list search over the remaining indices.\<close>

lemma loop_find:
  assumes "\<And>k. k < len \<Longrightarrow> hit k = Some (P (unat k))"
  shows "loop i = Some (case find P [unat i..<unat len] of
     Some k \<Rightarrow> (entry (of_nat k), of_nat k) | None \<Rightarrow> (NULL, max i len))"
proof (induction "unat len - unat i" arbitrary: i rule: less_induct)
  case less
  show ?case
  proof (cases "i < len")
    case True
    then have "[unat i..<unat len] = unat i # [unat (i + 1)..<unat len]"
      by (simp add: unat_Suc_index word_less_nat_alt upt_conv_Cons)
    moreover have "max (i + 1) len = len" "max i len = len"
      using True by (simp_all add: max_absorb2 index_step_le)
    ultimately show ?thesis
      using True assms [OF True] less.hyps [OF index_measure [OF True]]
      by (simp add: loop_step [of i] split: option.split)
  next
    case False
    then have "max i len = i" by simp
    with False show ?thesis by (simp add: loop_step [of i] word_less_nat_alt)
  qed
qed

lemma loop_total:
  assumes "\<And>k. i \<le> k \<Longrightarrow> k < len \<Longrightarrow> hit k \<noteq> None"
  shows "\<exists>t j. loop i = Some (t, j)"
  using assms
proof (induction "unat len - unat i" arbitrary: i rule: less_induct)
  case less
  show ?case
  proof (cases "i < len")
    case True
    have "\<exists>t j. loop (i + 1) = Some (t, j)"
      using less.hyps [OF index_measure [OF True]] less.prems by (simp add: index_step_le [OF True])
    moreover obtain b where "hit i = Some b" using less.prems [of i] True by auto
    ultimately show ?thesis using True by (simp add: loop_step [of i])
  qed (simp add: loop_step [of i])
qed

end

section \<open>Section headers\<close>

datatype ElfSectionAttribute =
    ElfSectionAttributeNone
  | ElfSectionAttributeName
  | ElfSectionAttributeType
  | ElfSectionAttributeFlags
  | ElfSectionAttributeAddress
  | ElfSectionAttributeOffset
  | ElfSectionAttributeSize
  | ElfSectionAttributeLink
  | ElfSectionAttributeInfo
  | ElfSectionAttributeMemoryAlignment
  | ElfSectionAttributeEntrySize

fun elfSectionAttribute :: "memory \<Rightarrow> ptr \<Rightarrow> ElfSectionAttribute \<Rightarrow> u64 option" where
  "elfSectionAttribute m s ElfSectionAttributeName = map_option ucast (ld_sh_name m s)"
| "elfSectionAttribute m s ElfSectionAttributeType = map_option ucast (ld_sh_type m s)"
| "elfSectionAttribute m s ElfSectionAttributeFlags = ld_sh_flags m s"
| "elfSectionAttribute m s ElfSectionAttributeAddress = ld_sh_addr m s"
| "elfSectionAttribute m s ElfSectionAttributeOffset = ld_sh_offset m s"
| "elfSectionAttribute m s ElfSectionAttributeSize = ld_sh_size m s"
| "elfSectionAttribute m s ElfSectionAttributeLink = map_option ucast (ld_sh_link m s)"
| "elfSectionAttribute m s ElfSectionAttributeInfo = map_option ucast (ld_sh_info m s)"
| "elfSectionAttribute m s ElfSectionAttributeMemoryAlignment = ld_sh_addralign m s"
| "elfSectionAttribute m s ElfSectionAttributeEntrySize = ld_sh_entsize m s"
| "elfSectionAttribute m s ElfSectionAttributeNone = Some 0"

definition elfSections ::
  "memory \<Rightarrow> ptr \<Rightarrow> u16 option \<Rightarrow> u16 option \<Rightarrow> (ptr \<times> u16 option \<times> u16 option) option" where
  "elfSections m elf sz len =
     (if elf = NULL then Some (NULL, sz, len) else do {
        h \<leftarrow> elfHeader m elf;
        off \<leftarrow> ld_e_shoff m h;
        if off = 0 then Some (NULL, sz, len) else do {
          sz' \<leftarrow> write_out sz (ld_e_shentsize m h);
          len' \<leftarrow> write_out len (ld_e_shnum m h);
          d \<leftarrow> ld_elf_data m elf;
          Some (d + off, sz', len') }})"

text \<open>The test of one entry: the attribute \<open>None\<close> matches every entry without reading it.\<close>

definition section_hit :: "memory \<Rightarrow> ElfSectionAttribute \<Rightarrow> u64 \<Rightarrow> ptr \<Rightarrow> bool option" where
  "section_hit m attribute v t =
     (if attribute = ElfSectionAttributeNone then Some True
      else do { a \<leftarrow> elfSectionAttribute m t attribute; Some (a = v) })"

function elfSection_loop ::
  "memory \<Rightarrow> ptr \<Rightarrow> u16 \<Rightarrow> u16 \<Rightarrow> ElfSectionAttribute \<Rightarrow> u64 \<Rightarrow> u16 \<Rightarrow> (ptr \<times> u16) option" where
  "elfSection_loop m h sz len attribute v i =
     (if i < len then do {
        hit \<leftarrow> section_hit m attribute v (h + entry_offset i sz);
        if hit then Some (h + entry_offset i sz, i)
        else elfSection_loop m h sz len attribute v (i + 1) }
      else Some (NULL, i))"
  by pat_completeness auto
termination
  by (relation "measure (\<lambda>(m, h, sz, len, attribute, v, i). unat len - unat i)")
    (auto simp: index_measure)

declare elfSection_loop.simps [simp del]

text \<open>The \<open>uninitialised\<close> locals \<open>size\<close> and \<open>length\<close> start with an arbitrary value,
  here 0: they are read only when \<open>elfSections\<close> wrote them.\<close>

definition elfSection ::
  "memory \<Rightarrow> ptr \<Rightarrow> u16 option \<Rightarrow> ElfSectionAttribute \<Rightarrow> u64 \<Rightarrow> (ptr \<times> u16) option" where
  "elfSection m elf index attribute v = do {
     let i = (case index of None \<Rightarrow> 0 | Some i \<Rightarrow> i);
     (h, sz, len) \<leftarrow> elfSections m elf (Some 0) (Some 0);
     if h = NULL then Some (NULL, i)
     else elfSection_loop m h (the sz) (the len) attribute v i }"

interpretation section_search: table_search
  "elfSection_loop m h sz len attribute v"
  "\<lambda>i. section_hit m attribute v (h + entry_offset i sz)"
  "\<lambda>i. h + entry_offset i sz" len
  for m h sz len attribute v
  by unfold_locales (rule elfSection_loop.simps)

section \<open>Segment headers\<close>

datatype ElfSegmentAttribute =
    ElfSegmentAttributeNone
  | ElfSegmentAttributeType
  | ElfSegmentAttributeFlags
  | ElfSegmentAttributeOffset
  | ElfSegmentAttributeVirtualAddress
  | ElfSegmentAttributePhysicalAddress
  | ElfSegmentAttributeFileSize
  | ElfSegmentAttributeMemorySize
  | ElfSegmentAttributeAlignment

fun elfSegmentAttribute :: "memory \<Rightarrow> ptr \<Rightarrow> ElfSegmentAttribute \<Rightarrow> u64 option" where
  "elfSegmentAttribute m s ElfSegmentAttributeType = map_option ucast (ld_p_type m s)"
| "elfSegmentAttribute m s ElfSegmentAttributeFlags = map_option ucast (ld_p_flags m s)"
| "elfSegmentAttribute m s ElfSegmentAttributeOffset = ld_p_offset m s"
| "elfSegmentAttribute m s ElfSegmentAttributeVirtualAddress = ld_p_vaddr m s"
| "elfSegmentAttribute m s ElfSegmentAttributePhysicalAddress = ld_p_paddr m s"
| "elfSegmentAttribute m s ElfSegmentAttributeFileSize = ld_p_filesz m s"
| "elfSegmentAttribute m s ElfSegmentAttributeMemorySize = ld_p_memsz m s"
| "elfSegmentAttribute m s ElfSegmentAttributeAlignment = ld_p_align m s"
| "elfSegmentAttribute m s ElfSegmentAttributeNone = Some 0"

definition elfSegments ::
  "memory \<Rightarrow> ptr \<Rightarrow> u16 option \<Rightarrow> u16 option \<Rightarrow> (ptr \<times> u16 option \<times> u16 option) option" where
  "elfSegments m elf sz len =
     (if elf = NULL then Some (NULL, sz, len) else do {
        h \<leftarrow> elfHeader m elf;
        off \<leftarrow> ld_e_phoff m h;
        if off = 0 then Some (NULL, sz, len) else do {
          sz' \<leftarrow> write_out sz (ld_e_phentsize m h);
          len' \<leftarrow> write_out len (ld_e_phnum m h);
          d \<leftarrow> ld_elf_data m elf;
          Some (d + off, sz', len') }})"

definition segment_hit :: "memory \<Rightarrow> ElfSegmentAttribute \<Rightarrow> u64 \<Rightarrow> ptr \<Rightarrow> bool option" where
  "segment_hit m attribute v t =
     (if attribute = ElfSegmentAttributeNone then Some True
      else do { a \<leftarrow> elfSegmentAttribute m t attribute; Some (a = v) })"

function elfSegment_loop ::
  "memory \<Rightarrow> ptr \<Rightarrow> u16 \<Rightarrow> u16 \<Rightarrow> ElfSegmentAttribute \<Rightarrow> u64 \<Rightarrow> u16 \<Rightarrow> (ptr \<times> u16) option" where
  "elfSegment_loop m h sz len attribute v i =
     (if i < len then do {
        hit \<leftarrow> segment_hit m attribute v (h + entry_offset i sz);
        if hit then Some (h + entry_offset i sz, i)
        else elfSegment_loop m h sz len attribute v (i + 1) }
      else Some (NULL, i))"
  by pat_completeness auto
termination
  by (relation "measure (\<lambda>(m, h, sz, len, attribute, v, i). unat len - unat i)")
    (auto simp: index_measure)

declare elfSegment_loop.simps [simp del]

definition elfSegment ::
  "memory \<Rightarrow> ptr \<Rightarrow> u16 option \<Rightarrow> ElfSegmentAttribute \<Rightarrow> u64 \<Rightarrow> (ptr \<times> u16) option" where
  "elfSegment m elf index attribute v = do {
     let i = (case index of None \<Rightarrow> 0 | Some i \<Rightarrow> i);
     (h, sz, len) \<leftarrow> elfSegments m elf (Some 0) (Some 0);
     if h = NULL then Some (NULL, i)
     else elfSegment_loop m h (the sz) (the len) attribute v i }"

interpretation segment_search: table_search
  "elfSegment_loop m h sz len attribute v"
  "\<lambda>i. segment_hit m attribute v (h + entry_offset i sz)"
  "\<lambda>i. h + entry_offset i sz" len
  for m h sz len attribute v
  by unfold_locales (rule elfSegment_loop.simps)

lemma elfSegment_index_bound:
  assumes "elfSegment m elf (Some i) attribute v = Some (h, j)" and "h \<noteq> NULL"
  shows "i \<le> j \<and> j < 0xffff"
proof -
  from assms obtain t sz len where "elfSegment_loop m t sz len attribute v i = Some (h, j)"
    by (auto simp: elfSegment_def Some_bind_conv split: if_splits)
  from segment_search.loop_cases [OF this] assms(2) have "i \<le> j" and "j < len"
    by auto
  then show ?thesis using u16_le_max [of len] by simp
qed

function elfLargestAlignment_loop :: "memory \<Rightarrow> ptr \<Rightarrow> u16 \<Rightarrow> u64 \<Rightarrow> u64 option" where
  "elfLargestAlignment_loop m elf index alignment = do {
     (h, j) \<leftarrow> elfSegment m elf (Some index) ElfSegmentAttributeType PT_LOAD;
     if h = NULL then Some alignment else do {
       a \<leftarrow> ld_p_align m h;
       elfLargestAlignment_loop m elf (j + 1)
         (if alignment < a \<and> a < 0x200000 then a else alignment) }}"
  by pat_completeness auto
termination
proof (relation "measure (\<lambda>(m, elf, index, alignment). 65536 - unat index)")
  fix m elf index alignment x h j a
  assume x: "elfSegment m elf (Some index) ElfSegmentAttributeType PT_LOAD = Some x"
    and p: "(h, j) = x" and nz: "h \<noteq> NULL"
  from elfSegment_index_bound [of m elf index _ _ h j] x p nz
  have "index \<le> j" and "j < 0xffff" by auto
  then have "unat index \<le> unat j" and "unat (j + 1) = Suc (unat j)" and "unat j < 65535"
    using unat_Suc_index [OF \<open>j < 0xffff\<close>] by (simp_all add: word_le_nat_alt word_less_nat_alt)
  then show "((m, elf, j + 1, if alignment < a \<and> a < 0x200000 then a else alignment),
      (m, elf, index, alignment)) \<in> measure (\<lambda>(m, elf, index, alignment). 65536 - unat index)"
    by simp
qed simp

declare elfLargestAlignment_loop.simps [simp del]

definition elfLargestAlignment :: "memory \<Rightarrow> ptr \<Rightarrow> u64 option" where
  "elfLargestAlignment m elf = elfLargestAlignment_loop m elf 0 0"

section \<open>The size of the loaded image\<close>

definition grow_by_segment :: "memory \<Rightarrow> ptr \<Rightarrow> u64 \<Rightarrow> u64 option" where
  "grow_by_segment m s memorySize = do {
     a \<leftarrow> ld_p_paddr m s; z \<leftarrow> ld_p_memsz m s;
     Some (if memorySize < a + z then a + z else memorySize) }"

definition grow_by_section :: "memory \<Rightarrow> ptr \<Rightarrow> u64 \<Rightarrow> u64 option" where
  "grow_by_section m s memorySize = do {
     a \<leftarrow> ld_sh_addr m s; z \<leftarrow> ld_sh_size m s;
     Some (if memorySize < a + z then a + z else memorySize) }"

function elfMemorySize_segments ::
  "memory \<Rightarrow> ptr \<Rightarrow> u16 \<Rightarrow> u16 \<Rightarrow> u16 \<Rightarrow> u64 \<Rightarrow> u64 option" where
  "elfMemorySize_segments m segments sz len index memorySize =
     (if index < len then do {
        memorySize' \<leftarrow> grow_by_segment m (segments + entry_offset index sz) memorySize;
        elfMemorySize_segments m segments sz len (index + 1) memorySize' }
      else Some memorySize)"
  by pat_completeness auto
termination
  by (relation "measure (\<lambda>(m, h, sz, len, i, z). unat len - unat i)") (auto simp: index_measure)

declare elfMemorySize_segments.simps [simp del]

function elfMemorySize_sections ::
  "memory \<Rightarrow> ptr \<Rightarrow> u16 \<Rightarrow> u16 \<Rightarrow> u16 \<Rightarrow> u64 \<Rightarrow> u64 option" where
  "elfMemorySize_sections m sections sz len index memorySize =
     (if index < len then do {
        memorySize' \<leftarrow> grow_by_section m (sections + entry_offset index sz) memorySize;
        elfMemorySize_sections m sections sz len (index + 1) memorySize' }
      else Some memorySize)"
  by pat_completeness auto
termination
  by (relation "measure (\<lambda>(m, h, sz, len, i, z). unat len - unat i)") (auto simp: index_measure)

declare elfMemorySize_sections.simps [simp del]

definition elfMemorySize :: "memory \<Rightarrow> ptr \<Rightarrow> u64 option" where
  "elfMemorySize m elf =
     (if elf = NULL then Some 0 else do {
        (segments, sz, len) \<leftarrow> elfSegments m elf (Some 0) (Some 0);
        if segments \<noteq> NULL then elfMemorySize_segments m segments (the sz) (the len) 0 0
        else do {
          (sections, sz, len) \<leftarrow> elfSections m elf (Some 0) (Some 0);
          if sections = NULL then Some 0
          else elfMemorySize_sections m sections (the sz) (the len) 0 0 }})"

interpretation memsize_segments: table_fold
  "elfMemorySize_segments m h sz len"
  "\<lambda>i. grow_by_segment m (h + entry_offset i sz)" len
  for m h sz len
  by unfold_locales (rule elfMemorySize_segments.simps)

interpretation memsize_sections: table_fold
  "elfMemorySize_sections m h sz len"
  "\<lambda>i. grow_by_section m (h + entry_offset i sz)" len
  for m h sz len
  by unfold_locales (rule elfMemorySize_sections.simps)

section \<open>The dynamic table\<close>

datatype ElfDynamicAttribute =
    ElfDynamicAttributeNone
  | ElfDynamicAttributeTag
  | ElfDynamicAttributeValue
  | ElfDynamicAttributePointer

fun elfDynamicAttribute :: "memory \<Rightarrow> ptr \<Rightarrow> ElfDynamicAttribute \<Rightarrow> u64 option" where
  "elfDynamicAttribute m s ElfDynamicAttributeTag = ld_d_tag m s"
| "elfDynamicAttribute m s ElfDynamicAttributeValue = ld_d_un m s"
| "elfDynamicAttribute m s ElfDynamicAttributePointer = ld_d_un m s"
| "elfDynamicAttribute m s ElfDynamicAttributeNone = Some 0"

text \<open>The walk to \<open>DT_NULL\<close> has no bound; the 16-bit counter wraps around.\<close>

partial_function (option) elfDynamicsLength_loop :: "memory \<Rightarrow> ptr \<Rightarrow> u16 \<Rightarrow> u16 option" where
  "elfDynamicsLength_loop m dyn i = do {
     tag \<leftarrow> ld_d_tag m dyn;
     if tag \<noteq> DT_NULL then elfDynamicsLength_loop m (dyn + 16) (i + 1) else Some i }"

definition elfDynamicsLength :: "memory \<Rightarrow> ptr \<Rightarrow> u16 option" where
  "elfDynamicsLength m dyn = (if dyn \<noteq> NULL then elfDynamicsLength_loop m dyn 0 else Some 0)"

text \<open>Entry size and entry count of a section, narrowed to the 16-bit out-parameters.\<close>

definition section_entry_size :: "memory \<Rightarrow> ptr \<Rightarrow> u16 option" where
  "section_entry_size m h = map_option ucast (ld_sh_entsize m h)"

definition section_entry_count :: "memory \<Rightarrow> ptr \<Rightarrow> u16 option" where
  "section_entry_count m h = do {
     z \<leftarrow> ld_sh_size m h; e \<leftarrow> ld_sh_entsize m h; q \<leftarrow> udiv z e; Some (ucast q) }"

definition elfDynamics ::
  "memory \<Rightarrow> ptr \<Rightarrow> u16 option \<Rightarrow> u16 option \<Rightarrow> (ptr \<times> u16 option \<times> u16 option) option" where
  "elfDynamics m elf sz len =
     (if elf = NULL then Some (NULL, sz, len) else do {
        (h, _) \<leftarrow> elfSection m elf None ElfSectionAttributeType SHT_DYNAMIC;
        if h \<noteq> NULL then do {
          sz' \<leftarrow> write_out sz (section_entry_size m h);
          len' \<leftarrow> write_out len (section_entry_count m h);
          d \<leftarrow> ld_elf_data m elf;
          off \<leftarrow> ld_sh_offset m h;
          Some (d + off, sz', len') }
        else do {
          (h2, _) \<leftarrow> elfSegment m elf None ElfSegmentAttributeType PT_DYNAMIC;
          if h2 \<noteq> NULL then do {
            sz' \<leftarrow> write_out sz (Some 16);
            d \<leftarrow> ld_elf_data m elf;
            off \<leftarrow> ld_p_offset m h2;
            len' \<leftarrow> write_out len (elfDynamicsLength m (d + off));
            Some (d + off, sz', len') }
          else Some (NULL, sz, len) }})"

definition elfLoadedDynamics ::
  "memory \<Rightarrow> ptr \<Rightarrow> u16 option \<Rightarrow> u16 option \<Rightarrow> (ptr \<times> u16 option \<times> u16 option) option" where
  "elfLoadedDynamics m elf sz len =
     (if elf = NULL then Some (NULL, sz, len) else do {
        (h2, _) \<leftarrow> elfSegment m elf None ElfSegmentAttributeType PT_DYNAMIC;
        if h2 \<noteq> NULL then do {
          sz' \<leftarrow> write_out sz (Some 16);
          a \<leftarrow> ld_p_vaddr m h2;
          len' \<leftarrow> write_out len (elfDynamicsLength m a);
          Some (a, sz', len') }
        else Some (NULL, sz, len) })"

definition dynamic_hit :: "memory \<Rightarrow> ElfDynamicAttribute \<Rightarrow> u64 \<Rightarrow> ptr \<Rightarrow> bool option" where
  "dynamic_hit m attribute v t =
     (if attribute = ElfDynamicAttributeNone then Some True
      else do { a \<leftarrow> elfDynamicAttribute m t attribute; Some (a = v) })"

function elfDynamic_loop ::
  "memory \<Rightarrow> ptr \<Rightarrow> u16 \<Rightarrow> u16 \<Rightarrow> ElfDynamicAttribute \<Rightarrow> u64 \<Rightarrow> u16 \<Rightarrow> (ptr \<times> u16) option" where
  "elfDynamic_loop m h sz len attribute v i =
     (if i < len then do {
        hit \<leftarrow> dynamic_hit m attribute v (h + entry_offset i sz);
        if hit then Some (h + entry_offset i sz, i)
        else elfDynamic_loop m h sz len attribute v (i + 1) }
      else Some (NULL, i))"
  by pat_completeness auto
termination
  by (relation "measure (\<lambda>(m, h, sz, len, attribute, v, i). unat len - unat i)")
    (auto simp: index_measure)

declare elfDynamic_loop.simps [simp del]

definition elfDynamic ::
  "memory \<Rightarrow> ptr \<Rightarrow> u16 option \<Rightarrow> ElfDynamicAttribute \<Rightarrow> u64 \<Rightarrow> (ptr \<times> u16) option" where
  "elfDynamic m elf index attribute v = do {
     let i = (case index of None \<Rightarrow> 0 | Some i \<Rightarrow> i);
     (h, sz, len) \<leftarrow> elfDynamics m elf (Some 0) (Some 0);
     if h = NULL then Some (NULL, i)
     else elfDynamic_loop m h (the sz) (the len) attribute v i }"

definition elfLoadedDynamic ::
  "memory \<Rightarrow> ptr \<Rightarrow> u16 option \<Rightarrow> ElfDynamicAttribute \<Rightarrow> u64 \<Rightarrow> (ptr \<times> u16) option" where
  "elfLoadedDynamic m elf index attribute v = do {
     let i = (case index of None \<Rightarrow> 0 | Some i \<Rightarrow> i);
     (h, sz, len) \<leftarrow> elfLoadedDynamics m elf (Some 0) (Some 0);
     if h = NULL then Some (NULL, i)
     else elfDynamic_loop m h (the sz) (the len) attribute v i }"

interpretation dynamic_search: table_search
  "elfDynamic_loop m h sz len attribute v"
  "\<lambda>i. dynamic_hit m attribute v (h + entry_offset i sz)"
  "\<lambda>i. h + entry_offset i sz" len
  for m h sz len attribute v
  by unfold_locales (rule elfDynamic_loop.simps)

section \<open>The tables as lists\<close>

text \<open>
  What the tables mean: the decoded headers in table order.  These lists are the abstract state
  that the loader's theorems speak about.
\<close>

definition phdr_table :: "memory \<Rightarrow> ptr \<Rightarrow> u16 \<Rightarrow> u16 \<Rightarrow> Elf64_Phdr list option" where
  "phdr_table m h sz len =
     those (map (\<lambda>k. phdr_at m (h + entry_offset (of_nat k) sz)) [0..<unat len])"

definition shdr_table :: "memory \<Rightarrow> ptr \<Rightarrow> u16 \<Rightarrow> u16 \<Rightarrow> Elf64_Shdr list option" where
  "shdr_table m h sz len =
     those (map (\<lambda>k. shdr_at m (h + entry_offset (of_nat k) sz)) [0..<unat len])"

definition elf_segment_list :: "memory \<Rightarrow> ptr \<Rightarrow> Elf64_Phdr list option" where
  "elf_segment_list m elf = do {
     (h, sz, len) \<leftarrow> elfSegments m elf (Some 0) (Some 0);
     if h = NULL then None else phdr_table m h (the sz) (the len) }"

definition elf_section_list :: "memory \<Rightarrow> ptr \<Rightarrow> Elf64_Shdr list option" where
  "elf_section_list m elf = do {
     (h, sz, len) \<leftarrow> elfSections m elf (Some 0) (Some 0);
     if h = NULL then None else shdr_table m h (the sz) (the len) }"

lemma phdr_table_conv:
  "phdr_table m h sz len = Some ps \<longleftrightarrow> length ps = unat len \<and>
     (\<forall>k < unat len. phdr_at m (h + entry_offset (of_nat k) sz) = Some (ps ! k))"
  by (auto simp: phdr_table_def those_eq_Some list_eq_iff_nth_eq)

lemma shdr_table_conv:
  "shdr_table m h sz len = Some ps \<longleftrightarrow> length ps = unat len \<and>
     (\<forall>k < unat len. shdr_at m (h + entry_offset (of_nat k) sz) = Some (ps ! k))"
  by (auto simp: shdr_table_def those_eq_Some list_eq_iff_nth_eq)

lemma elf_segment_listD:
  assumes "elf_segment_list m elf = Some ps"
  obtains h sz len where "elfSegments m elf (Some 0) (Some 0) = Some (h, Some sz, Some len)"
    and "h \<noteq> NULL" and "elf \<noteq> NULL" and "phdr_table m h sz len = Some ps"
  using assms
  by (fastforce simp: elf_segment_list_def elfSegments_def Some_bind_conv split: if_splits)

lemma elf_section_listD:
  assumes "elf_section_list m elf = Some ps"
  obtains h sz len where "elfSections m elf (Some 0) (Some 0) = Some (h, Some sz, Some len)"
    and "h \<noteq> NULL" and "elf \<noteq> NULL" and "shdr_table m h sz len = Some ps"
  using assms
  by (fastforce simp: elf_section_list_def elfSections_def Some_bind_conv split: if_splits)

lemma elfSegments_NULL [simp]: "elfSegments m NULL sz len = Some (NULL, sz, len)"
  by (simp add: elfSegments_def)

lemma elfSections_NULL [simp]: "elfSections m NULL sz len = Some (NULL, sz, len)"
  by (simp add: elfSections_def)

fun segment_attr :: "Elf64_Phdr \<Rightarrow> ElfSegmentAttribute \<Rightarrow> u64" where
  "segment_attr p ElfSegmentAttributeType = ucast (p_type p)"
| "segment_attr p ElfSegmentAttributeFlags = ucast (p_flags p)"
| "segment_attr p ElfSegmentAttributeOffset = p_offset p"
| "segment_attr p ElfSegmentAttributeVirtualAddress = p_vaddr p"
| "segment_attr p ElfSegmentAttributePhysicalAddress = p_paddr p"
| "segment_attr p ElfSegmentAttributeFileSize = p_filesz p"
| "segment_attr p ElfSegmentAttributeMemorySize = p_memsz p"
| "segment_attr p ElfSegmentAttributeAlignment = p_align p"
| "segment_attr p ElfSegmentAttributeNone = 0"

fun section_attr :: "Elf64_Shdr \<Rightarrow> ElfSectionAttribute \<Rightarrow> u64" where
  "section_attr p ElfSectionAttributeName = ucast (sh_name p)"
| "section_attr p ElfSectionAttributeType = ucast (sh_type p)"
| "section_attr p ElfSectionAttributeFlags = sh_flags p"
| "section_attr p ElfSectionAttributeAddress = sh_addr p"
| "section_attr p ElfSectionAttributeOffset = sh_offset p"
| "section_attr p ElfSectionAttributeSize = sh_size p"
| "section_attr p ElfSectionAttributeLink = ucast (sh_link p)"
| "section_attr p ElfSectionAttributeInfo = ucast (sh_info p)"
| "section_attr p ElfSectionAttributeMemoryAlignment = sh_addralign p"
| "section_attr p ElfSectionAttributeEntrySize = sh_entsize p"
| "section_attr p ElfSectionAttributeNone = 0"

lemma elfSegmentAttribute_at:
  "phdr_at m s = Some p \<Longrightarrow> elfSegmentAttribute m s a = Some (segment_attr p a)"
  by (cases a) (auto dest: phdr_atD)

lemma elfSectionAttribute_at:
  "shdr_at m s = Some p \<Longrightarrow> elfSectionAttribute m s a = Some (section_attr p a)"
  by (cases a) (auto dest: shdr_atD)

lemma segment_hit_at:
  "phdr_at m s = Some p \<Longrightarrow>
     segment_hit m a v s = Some (a = ElfSegmentAttributeNone \<or> segment_attr p a = v)"
  by (simp add: segment_hit_def elfSegmentAttribute_at)

lemma section_hit_at:
  "shdr_at m s = Some p \<Longrightarrow>
     section_hit m a v s = Some (a = ElfSectionAttributeNone \<or> section_attr p a = v)"
  by (simp add: section_hit_def elfSectionAttribute_at)

section \<open>What the searches return\<close>

lemma elfSegment_find:
  assumes "elfSegments m elf (Some 0) (Some 0) = Some (h, Some sz, Some len)" and "h \<noteq> NULL"
    and "phdr_table m h sz len = Some ps"
  shows "elfSegment m elf (Some i) attribute v = Some
    (case find (\<lambda>k. attribute = ElfSegmentAttributeNone \<or> segment_attr (ps ! k) attribute = v)
            [unat i..<length ps] of
       Some k \<Rightarrow> (h + entry_offset (of_nat k) sz, of_nat k)
     | None \<Rightarrow> (NULL, max i len))"
proof -
  have len: "length ps = unat len"
    and at: "\<And>k. k < unat len \<Longrightarrow> phdr_at m (h + entry_offset (of_nat k) sz) = Some (ps ! k)"
    using assms(3) by (auto simp: phdr_table_conv)
  have "segment_hit m attribute v (h + entry_offset k sz) =
      Some (attribute = ElfSegmentAttributeNone \<or> segment_attr (ps ! unat k) attribute = v)"
    if "k < len" for k
    using at [of "unat k"] that by (simp add: word_less_nat_alt segment_hit_at)
  from segment_search.loop_find [of len m attribute v h sz, OF this] assms(1,2) len
  show ?thesis by (simp add: elfSegment_def)
qed

lemma elfSection_find:
  assumes "elfSections m elf (Some 0) (Some 0) = Some (h, Some sz, Some len)" and "h \<noteq> NULL"
    and "shdr_table m h sz len = Some ps"
  shows "elfSection m elf (Some i) attribute v = Some
    (case find (\<lambda>k. attribute = ElfSectionAttributeNone \<or> section_attr (ps ! k) attribute = v)
            [unat i..<length ps] of
       Some k \<Rightarrow> (h + entry_offset (of_nat k) sz, of_nat k)
     | None \<Rightarrow> (NULL, max i len))"
proof -
  have len: "length ps = unat len"
    and at: "\<And>k. k < unat len \<Longrightarrow> shdr_at m (h + entry_offset (of_nat k) sz) = Some (ps ! k)"
    using assms(3) by (auto simp: shdr_table_conv)
  have "section_hit m attribute v (h + entry_offset k sz) =
      Some (attribute = ElfSectionAttributeNone \<or> section_attr (ps ! unat k) attribute = v)"
    if "k < len" for k
    using at [of "unat k"] that by (simp add: word_less_nat_alt section_hit_at)
  from section_search.loop_find [of len m attribute v h sz, OF this] assms(1,2) len
  show ?thesis by (simp add: elfSection_def)
qed

lemma elfSection_index_None: "elfSection m elf None attribute v = elfSection m elf (Some 0) attribute v"
  by (simp add: elfSection_def)

lemma elfSegment_index_None: "elfSegment m elf None attribute v = elfSegment m elf (Some 0) attribute v"
  by (simp add: elfSegment_def)

text \<open>Searching the program headers from an index returns the first header at or behind it whose
  attribute has the value asked for, with its index, and \<open>NULL\<close> with the index at the end of the
  table when there is none; the attribute \<open>None\<close> accepts every header.\<close>

lemma elfSegment_first_match:
  assumes "elfSegments m elf (Some 0) (Some 0) = Some (h, Some sz, Some len)" and "h \<noteq> NULL"
    and "phdr_table m h sz len = Some ps"
  shows "elfSegment m elf (Some i) attribute v = Some
    (case find (\<lambda>k. attribute = ElfSegmentAttributeNone \<or> segment_attr (ps ! k) attribute = v)
            [unat i..<length ps] of
       Some k \<Rightarrow> (h + entry_offset (of_nat k) sz, of_nat k)
     | None \<Rightarrow> (NULL, max i len))"
  by (rule elfSegment_find [OF assms])

text \<open>The same for the section headers: first match at or behind the index, or \<open>NULL\<close>.\<close>

lemma elfSection_first_match:
  assumes "elfSections m elf (Some 0) (Some 0) = Some (h, Some sz, Some len)" and "h \<noteq> NULL"
    and "shdr_table m h sz len = Some ps"
  shows "elfSection m elf (Some i) attribute v = Some
    (case find (\<lambda>k. attribute = ElfSectionAttributeNone \<or> section_attr (ps ! k) attribute = v)
            [unat i..<length ps] of
       Some k \<Rightarrow> (h + entry_offset (of_nat k) sz, of_nat k)
     | None \<Rightarrow> (NULL, max i len))"
  by (rule elfSection_find [OF assms])

section \<open>Alignment and size of the image\<close>

definition align_step :: "Elf64_Phdr \<Rightarrow> u64 \<Rightarrow> u64" where
  "align_step p z = (if ucast (p_type p) = PT_LOAD \<and> z < p_align p \<and> p_align p < 0x200000
     then p_align p else z)"

lemma elfLargestAlignment_loop_fold:
  assumes segs: "elfSegments m elf (Some 0) (Some 0) = Some (h, Some sz, Some len)" "h \<noteq> NULL"
    and tab: "phdr_table m h sz len = Some ps"
    and nonnull: "\<And>k. k < length ps \<Longrightarrow> h + entry_offset (of_nat k) sz \<noteq> NULL"
  shows "elfLargestAlignment_loop m elf i z = Some (fold align_step (drop (unat i) ps) z)"
proof (induction "length ps - unat i" arbitrary: i z rule: less_induct)
  case less
  let ?load = "\<lambda>k. segment_attr (ps ! k) ElfSegmentAttributeType = PT_LOAD"
  have len: "length ps = unat len" using tab by (simp add: phdr_table_conv)
  note found = elfSegment_find [OF segs tab, of i ElfSegmentAttributeType PT_LOAD, simplified]
  show ?case
  proof (cases "find ?load [unat i..<length ps]")
    case None
    have "\<not> ?load j" if "unat i \<le> j" "j < length ps" for j
      using find_upt_NoneD [OF None that] .
    then have "fold align_step (drop (unat i) ps) z = z"
      by (intro fold_skip) (auto simp: align_step_def in_set_conv_nth)
    with None found show ?thesis
      by (simp add: elfLargestAlignment_loop.simps [of m elf i z])
  next
    case (Some k)
    note k = find_upt_SomeD [OF Some]
    let ?z = "if z < p_align (ps ! k) \<and> p_align (ps ! k) < 0x200000 then p_align (ps ! k) else z"
    have "k < 65536" using k(2) len unat_u16_less [of len] by simp
    then have uk: "unat (of_nat k :: u16) = k" by (simp add: unat_of_nat)
    have "(of_nat k :: u16) < len" using k(2) len uk by (simp add: word_less_nat_alt)
    from unat_Suc_index [OF this] uk have usuc: "unat ((of_nat k :: u16) + 1) = Suc k" by simp
    have split: "fold align_step (drop (unat i) ps) z = fold align_step (drop (Suc k) ps) ?z"
      using fold_skip_to [of "unat i" k ps align_step z] k by (simp add: align_step_def)
    have al: "ld_p_align m (h + entry_offset (of_nat k) sz) = Some (p_align (ps ! k))"
      using tab k(2) len by (auto simp: phdr_table_conv dest: phdr_atD)
    have "elfLargestAlignment_loop m elf (of_nat k + 1) ?z = Some (fold align_step (drop (Suc k) ps) ?z)"
      using less.hyps [of "of_nat k + 1" ?z] k(1,2) usuc by simp
    with Some found split nonnull [OF k(2)] al show ?thesis
      by (simp add: elfLargestAlignment_loop.simps [of m elf i z])
  qed
qed

lemma align_step_ge: "z \<le> fold align_step ps z"
  by (induction ps arbitrary: z) (auto simp: align_step_def dest: order_trans [OF less_imp_le])

lemma align_step_mono: "z \<le> z' \<Longrightarrow> fold align_step ps z \<le> fold align_step ps z'"
  by (induction ps arbitrary: z z') (auto simp: align_step_def)

lemma align_fold_upper:
  assumes "p \<in> set ps" and "ucast (p_type p) = PT_LOAD" and "p_align p < 0x200000"
  shows "p_align p \<le> fold align_step ps z"
  using assms(1)
proof (induction ps arbitrary: z)
  case (Cons q ps)
  have "p_align p \<le> align_step p z" using assms by (auto simp: align_step_def)
  then have "p_align p \<le> fold align_step ps (align_step p z)"
    using align_step_ge order_trans by blast
  with Cons show ?case by auto
qed simp

lemma align_fold_attained:
  "fold align_step ps z = z \<or> (\<exists>p \<in> set ps. ucast (p_type p) = PT_LOAD \<and>
     p_align p < 0x200000 \<and> fold align_step ps z = p_align p)"
proof (induction ps arbitrary: z)
  case (Cons q ps)
  from Cons.IH [of "align_step q z"] show ?case
    by (auto simp: align_step_def split: if_splits)
qed simp

text \<open>The reported alignment is the largest \<open>p_align\<close> below 2 MiB of a loadable segment, and 0
  when no loadable segment has one.\<close>

lemma elfLargestAlignment_max:
  assumes "elfSegments m elf (Some 0) (Some 0) = Some (h, Some sz, Some len)" and "h \<noteq> NULL"
    and "phdr_table m h sz len = Some ps"
    and "\<And>k. k < length ps \<Longrightarrow> h + entry_offset (of_nat k) sz \<noteq> NULL"
  shows "\<exists>a. elfLargestAlignment m elf = Some a \<and>
    (\<forall>p \<in> set ps. ucast (p_type p) = PT_LOAD \<longrightarrow> p_align p < 0x200000 \<longrightarrow> p_align p \<le> a) \<and>
    (a = 0 \<or> (\<exists>p \<in> set ps. ucast (p_type p) = PT_LOAD \<and> p_align p < 0x200000 \<and> a = p_align p))"
proof -
  have "elfLargestAlignment m elf = Some (fold align_step ps 0)"
    using elfLargestAlignment_loop_fold [OF assms, of 0 0] by (simp add: elfLargestAlignment_def)
  then show ?thesis using align_fold_upper align_fold_attained [of ps 0] by auto
qed

lemma elfMemorySize_segments_fold:
  assumes "phdr_table m h sz len = Some ps"
  shows "elfMemorySize_segments m h sz len 0 z =
    Some (fold (\<lambda>p z. max z (p_paddr p + p_memsz p)) ps z)"
proof -
  have len: "length ps = unat len"
    and at: "\<And>k. k < unat len \<Longrightarrow> phdr_at m (h + entry_offset (of_nat k) sz) = Some (ps ! k)"
    using assms by (auto simp: phdr_table_conv)
  have "grow_by_segment m (h + entry_offset (of_nat k) sz) z =
      Some (max z (p_paddr (ps ! k) + p_memsz (ps ! k)))" if "k < length ps" for k z
    using phdr_atD [OF at [of k]] that len by (simp add: grow_by_segment_def if_less_max)
  with fold_opt_nth [of ps "\<lambda>k. grow_by_segment m (h + entry_offset (of_nat k) sz)"
      "\<lambda>p z. Some (max z (p_paddr p + p_memsz p))" z] len
  show ?thesis by (simp add: memsize_segments.loop_fold fold_opt_pure)
qed

lemma elfMemorySize_sections_fold:
  assumes "shdr_table m h sz len = Some ps"
  shows "elfMemorySize_sections m h sz len 0 z =
    Some (fold (\<lambda>p z. max z (sh_addr p + sh_size p)) ps z)"
proof -
  have len: "length ps = unat len"
    and at: "\<And>k. k < unat len \<Longrightarrow> shdr_at m (h + entry_offset (of_nat k) sz) = Some (ps ! k)"
    using assms by (auto simp: shdr_table_conv)
  have "grow_by_section m (h + entry_offset (of_nat k) sz) z =
      Some (max z (sh_addr (ps ! k) + sh_size (ps ! k)))" if "k < length ps" for k z
    using shdr_atD [OF at [of k]] that len by (simp add: grow_by_section_def if_less_max)
  with fold_opt_nth [of ps "\<lambda>k. grow_by_section m (h + entry_offset (of_nat k) sz)"
      "\<lambda>p z. Some (max z (sh_addr p + sh_size p))" z] len
  show ?thesis by (simp add: memsize_sections.loop_fold fold_opt_pure)
qed

text \<open>With program headers, the size of the image is the largest segment end
  \<open>p_paddr + p_memsz\<close> (computed modulo \<open>2 ^ 64\<close>), and 0 for an empty table.\<close>

lemma elfMemorySize_segments_max:
  assumes "elf_segment_list m elf = Some ps"
  shows "\<exists>z. elfMemorySize m elf = Some z \<and>
    (\<forall>p \<in> set ps. p_paddr p + p_memsz p \<le> z) \<and>
    (z = 0 \<or> (\<exists>p \<in> set ps. z = p_paddr p + p_memsz p))"
proof -
  from assms obtain h sz len where "elfSegments m elf (Some 0) (Some 0) = Some (h, Some sz, Some len)"
    and "h \<noteq> NULL" and "elf \<noteq> NULL" and tab: "phdr_table m h sz len = Some ps"
    by (rule elf_segment_listD)
  then have "elfMemorySize m elf = Some (fold (\<lambda>p z. max z (p_paddr p + p_memsz p)) ps 0)"
    by (simp add: elfMemorySize_def elfMemorySize_segments_fold [OF tab])
  moreover note fold_max_attained [of "\<lambda>p. p_paddr p + p_memsz p" ps 0]
  ultimately show ?thesis by (auto intro: fold_max_upper)
qed

section \<open>The length of a dynamic table\<close>

lemma elfDynamicsLength_loop_count:
  assumes "\<And>k. k < n \<Longrightarrow> \<exists>t. ld_d_tag m (dyn + of_nat (16 * k)) = Some t \<and> t \<noteq> DT_NULL"
    and "ld_d_tag m (dyn + of_nat (16 * n)) = Some DT_NULL"
  shows "elfDynamicsLength_loop m dyn i = Some (i + of_nat n)"
  using assms
proof (induction n arbitrary: dyn i)
  case 0
  then show ?case by (simp add: elfDynamicsLength_loop.simps [of m dyn i])
next
  case (Suc n)
  have "elfDynamicsLength_loop m (dyn + 16) (i + 1) = Some (i + 1 + of_nat n)"
  proof (rule Suc.IH)
    show "\<exists>t. ld_d_tag m (dyn + 16 + of_nat (16 * k)) = Some t \<and> t \<noteq> DT_NULL" if "k < n" for k
      using Suc.prems(1) [of "Suc k"] that by (simp add: add.assoc)
    show "ld_d_tag m (dyn + 16 + of_nat (16 * n)) = Some DT_NULL"
      using Suc.prems(2) by (simp add: add.assoc)
  qed
  moreover obtain t where "ld_d_tag m dyn = Some t" and "t \<noteq> DT_NULL"
    using Suc.prems(1) [of 0] by auto
  ultimately show ?case
    by (simp add: elfDynamicsLength_loop.simps [of m dyn i] algebra_simps)
qed

text \<open>Counting the entries of a dynamic table returns, for any number \<open>n\<close> of entries before
  the first \<open>DT_NULL\<close>, the value \<open>n\<close> reduced to the 16 bits of the result: the walk ends, and
  a table of 65536 entries counts as empty.\<close>

lemma elfDynamicsLength_counts:
  assumes "dyn \<noteq> NULL"
    and "\<And>k. k < n \<Longrightarrow> \<exists>t. ld_d_tag m (dyn + of_nat (16 * k)) = Some t \<and> t \<noteq> DT_NULL"
    and "ld_d_tag m (dyn + of_nat (16 * n)) = Some DT_NULL"
  shows "\<exists>r. elfDynamicsLength m dyn = Some r \<and> unat r = n mod 65536"
  using elfDynamicsLength_loop_count [OF assms(2,3), of 0] assms(1)
  by (simp add: elfDynamicsLength_def unat_of_nat)

section \<open>The lookups only read\<close>

lemma reads_ld_elf_data [reads_intro]: "reads (\<lambda>m. ld_elf_data m elf)"
  unfolding ld_elf_data_def by (intro reads_intro)

lemma reads_elfHeader [reads_intro]: "reads (\<lambda>m. elfHeader m elf)"
  unfolding elfHeader_def by (intro reads_intro)

lemma reads_elfSections [reads_intro]: "reads (\<lambda>m. elfSections m elf sz len)"
  unfolding elfSections_def by (intro reads_intro)

lemma reads_elfSegments [reads_intro]: "reads (\<lambda>m. elfSegments m elf sz len)"
  unfolding elfSegments_def by (intro reads_intro)

lemma reads_elfSectionAttribute [reads_intro]: "reads (\<lambda>m. elfSectionAttribute m s a)"
  by (cases a) (simp_all, (intro reads_intro)+)

lemma reads_section_hit [reads_intro]: "reads (\<lambda>m. section_hit m a v t)"
  unfolding section_hit_def by (intro reads_intro)

lemma reads_elfSection_loop [reads_intro]: "reads (\<lambda>m. elfSection_loop m h sz len a v i)"
proof (induction "unat len - unat i" arbitrary: i rule: less_induct)
  case less
  show ?case
    unfolding elfSection_loop.simps [of _ h sz len a v i]
    by (intro reads_intro less index_measure)
qed

lemma reads_elfSection [reads_intro]: "reads (\<lambda>m. elfSection m elf index a v)"
  unfolding elfSection_def Let_def by (intro reads_intro)

lemma reads_section_entry_size [reads_intro]: "reads (\<lambda>m. section_entry_size m h)"
  unfolding section_entry_size_def by (intro reads_intro)

lemma reads_section_entry_count [reads_intro]: "reads (\<lambda>m. section_entry_count m h)"
  unfolding section_entry_count_def by (intro reads_intro)

lemma reads_phdr_table [reads_intro]: "reads (\<lambda>m. phdr_table m h sz len)"
  by (rule readsI) (auto simp: phdr_table_conv intro: readsD [OF reads_phdr_at])

lemma reads_shdr_table [reads_intro]: "reads (\<lambda>m. shdr_table m h sz len)"
  by (rule readsI) (auto simp: shdr_table_conv intro: readsD [OF reads_shdr_at])

lemma reads_elf_segment_list [reads_intro]: "reads (\<lambda>m. elf_segment_list m elf)"
  unfolding elf_segment_list_def by (intro reads_intro)

end
