(* ===== verification/Elf_Strings.thy ===== *)
theory Elf_Strings
  imports Elf_Object "HOL-Library.Sublist"
begin

text \<open>
  The string tables of \<open>source/ps4/elfloader.c\<close> and the tables found by section name:
  \<open>elfSectionStrings\<close>, the four string conversions, \<open>elfSectionByName\<close>, the relocations with
  addend and the symbols.  The lemmas give the meaning of the byte loops on a table that ends in
  NUL: a string maps to the least offset where it stands with its terminator, no read leaves the
  table, and a string that is not there maps to offset 0.
\<close>

section \<open>String tables\<close>

text \<open>\<open>elfSectionStrings\<close> returns the string table and its size; nothing is tested for
  \<open>NULL\<close> on the way, so a missing table reads through a null section header.\<close>

definition elfSectionStrings :: "memory \<Rightarrow> ptr \<Rightarrow> u64 option \<Rightarrow> (ptr \<times> u64 option) option" where
  "elfSectionStrings m elf sz = do {
     h \<leftarrow> elfHeader m elf;
     i \<leftarrow> ld_e_shstrndx m h;
     (s, _) \<leftarrow> elfSection m elf (Some i) ElfSectionAttributeNone 0;
     sz' \<leftarrow> write_out sz (ld_sh_size m s);
     d \<leftarrow> ld_elf_data m elf;
     off \<leftarrow> ld_sh_offset m s;
     Some (d + off, sz') }"

function elfStringFromIndex_loop :: "memory \<Rightarrow> ptr \<Rightarrow> u64 \<Rightarrow> u32 \<Rightarrow> u64 \<Rightarrow> u64 \<Rightarrow> ptr option" where
  "elfStringFromIndex_loop m mem sz index i j =
     (if i < sz - 1 then do {
        c \<leftarrow> load8 m (mem + i);
        if c = 0 \<and> j + 1 = ucast index then Some (mem + i + 1)
        else elfStringFromIndex_loop m mem sz index (i + 1) (if c = 0 then j + 1 else j) }
      else Some NULL)"
  by pat_completeness auto
termination
  by (relation "measure (\<lambda>(m, mem, sz, index, i, j). unat (sz - 1) - unat i)")
    (auto simp: index_measure)

declare elfStringFromIndex_loop.simps [simp del]

definition elfStringFromIndex :: "memory \<Rightarrow> ptr \<Rightarrow> u64 \<Rightarrow> u32 \<Rightarrow> ptr option" where
  "elfStringFromIndex m mem sz index =
     (if mem = NULL then Some NULL
      else if index = 0 then Some mem
      else elfStringFromIndex_loop m mem sz index 0 0)"

definition elfStringFromOffset :: "ptr \<Rightarrow> u64 \<Rightarrow> u32 \<Rightarrow> ptr" where
  "elfStringFromOffset mem sz offset =
     (if mem = NULL \<or> ucast offset \<ge> sz then NULL else mem + ucast offset)"

abbreviation (input) ElfMaximalStringLength :: nat where
  "ElfMaximalStringLength \<equiv> 4096"

text \<open>The inner loop: compare the bytes at \<open>a\<close> with the string at \<open>str\<close>, up to and with the
  terminator.\<close>

function str_match :: "memory \<Rightarrow> ptr \<Rightarrow> ptr \<Rightarrow> nat \<Rightarrow> bool option" where
  "str_match m a str j =
     (if j < ElfMaximalStringLength then do {
        c \<leftarrow> load8 m (a + of_nat j);
        d \<leftarrow> load8 m (str + of_nat j);
        if c = d then (if d = 0 then Some True else str_match m a str (Suc j)) else Some False }
      else Some False)"
  by pat_completeness auto
termination
  by (relation "measure (\<lambda>(m, a, str, j). ElfMaximalStringLength - j)") auto

declare str_match.simps [simp del]

function elfStringToOffset_loop :: "memory \<Rightarrow> ptr \<Rightarrow> u64 \<Rightarrow> ptr \<Rightarrow> u64 \<Rightarrow> u32 option" where
  "elfStringToOffset_loop m mem sz str i =
     (if i < sz then do {
        hit \<leftarrow> str_match m (mem + i) str 0;
        if hit then Some (ucast i) else elfStringToOffset_loop m mem sz str (i + 1) }
      else Some 0)"
  by pat_completeness auto
termination
  by (relation "measure (\<lambda>(m, mem, sz, str, i). unat sz - unat i)") (auto simp: index_measure)

declare elfStringToOffset_loop.simps [simp del]

definition elfStringToOffset :: "memory \<Rightarrow> ptr \<Rightarrow> u64 \<Rightarrow> ptr \<Rightarrow> u32 option" where
  "elfStringToOffset m mem sz str =
     (if str = NULL then Some 0 else elfStringToOffset_loop m mem sz str 0)"

function elfStringToIndex_loop :: "memory \<Rightarrow> ptr \<Rightarrow> u64 \<Rightarrow> ptr \<Rightarrow> u64 \<Rightarrow> u64 \<Rightarrow> u32 option" where
  "elfStringToIndex_loop m mem sz str index i =
     (if i < sz then do {
        hit \<leftarrow> str_match m (mem + i) str 0;
        if hit then Some (ucast index) else do {
          c \<leftarrow> load8 m (mem + i);
          elfStringToIndex_loop m mem sz str (if c = 0 then index + 1 else index) (i + 1) }}
      else Some 0)"
  by pat_completeness auto
termination
  by (relation "measure (\<lambda>(m, mem, sz, str, index, i). unat sz - unat i)") (auto simp: index_measure)

declare elfStringToIndex_loop.simps [simp del]

definition elfStringToIndex :: "memory \<Rightarrow> ptr \<Rightarrow> u64 \<Rightarrow> ptr \<Rightarrow> u32 option" where
  "elfStringToIndex m mem sz str =
     (if str = NULL then Some 0 else elfStringToIndex_loop m mem sz str 0 0)"

section \<open>Tables found by name\<close>

definition elfSectionByName :: "memory \<Rightarrow> ptr \<Rightarrow> ptr \<Rightarrow> ptr option" where
  "elfSectionByName m elf name = do {
     (mem, sz) \<leftarrow> elfSectionStrings m elf (Some 0);
     offset \<leftarrow> elfStringToOffset m mem (the sz) name;
     (sh, _) \<leftarrow> elfSection m elf None ElfSectionAttributeName (ucast offset);
     Some sh }"

datatype ElfAddendRelocationAttribute =
    ElfAddendRelocationAttributeNone
  | ElfAddendRelocationAttributeOffset
  | ElfAddendRelocationAttributeInfo
  | ElfAddendRelocationAttributeAddend

fun elfAddendRelocationAttribute ::
  "memory \<Rightarrow> ptr \<Rightarrow> ElfAddendRelocationAttribute \<Rightarrow> u64 option" where
  "elfAddendRelocationAttribute m r ElfAddendRelocationAttributeInfo = ld_r_info m r"
| "elfAddendRelocationAttribute m r ElfAddendRelocationAttributeOffset = ld_r_offset m r"
| "elfAddendRelocationAttribute m r ElfAddendRelocationAttributeAddend = ld_r_addend m r"
| "elfAddendRelocationAttribute m r ElfAddendRelocationAttributeNone = Some 0"

definition elfAddendRelocations ::
  "memory \<Rightarrow> ptr \<Rightarrow> ptr \<Rightarrow> u16 option \<Rightarrow> u16 option \<Rightarrow> (ptr \<times> u16 option \<times> u16 option) option" where
  "elfAddendRelocations m elf name sz len = do {
     h \<leftarrow> elfSectionByName m elf name;
     if h = NULL then Some (NULL, sz, len) else do {
       ty \<leftarrow> ld_sh_type m h;
       if ty \<noteq> SHT_RELA then Some (NULL, sz, len) else do {
         sz' \<leftarrow> write_out sz (section_entry_size m h);
         len' \<leftarrow> write_out len (section_entry_count m h);
         d \<leftarrow> ld_elf_data m elf;
         off \<leftarrow> ld_sh_offset m h;
         Some (d + off, sz', len') }}}"

datatype ElfSymbolAttribute =
    ElfSymbolAttributeNone
  | ElfSymbolAttributeName
  | ElfSymbolAttributeInfo
  | ElfSymbolAttributeUnused
  | ElfSymbolAttributeSectionIndex
  | ElfSymbolAttributeValue
  | ElfSymbolAttributeSize

fun elfSymbolAttribute :: "memory \<Rightarrow> ptr \<Rightarrow> ElfSymbolAttribute \<Rightarrow> u64 option" where
  "elfSymbolAttribute m s ElfSymbolAttributeName = map_option ucast (ld_st_name m s)"
| "elfSymbolAttribute m s ElfSymbolAttributeInfo = map_option ucast (ld_st_info m s)"
| "elfSymbolAttribute m s ElfSymbolAttributeUnused = map_option ucast (ld_st_other m s)"
| "elfSymbolAttribute m s ElfSymbolAttributeSectionIndex = map_option ucast (ld_st_shndx m s)"
| "elfSymbolAttribute m s ElfSymbolAttributeValue = ld_st_value m s"
| "elfSymbolAttribute m s ElfSymbolAttributeSize = ld_st_size m s"
| "elfSymbolAttribute m s ElfSymbolAttributeNone = Some 0"

definition elfSymbols ::
  "memory \<Rightarrow> ptr \<Rightarrow> ptr \<Rightarrow> u16 option \<Rightarrow> u16 option \<Rightarrow> (ptr \<times> u16 option \<times> u16 option) option" where
  "elfSymbols m elf name sz len = do {
     h \<leftarrow> elfSectionByName m elf name;
     if h = NULL then Some (NULL, sz, len) else do {
       ty \<leftarrow> ld_sh_type m h;
       if ty \<noteq> SHT_SYMTAB \<and> ty \<noteq> SHT_DYNSYM then Some (NULL, sz, len) else do {
         sz' \<leftarrow> write_out sz (section_entry_size m h);
         len' \<leftarrow> write_out len (section_entry_count m h);
         d \<leftarrow> ld_elf_data m elf;
         off \<leftarrow> ld_sh_offset m h;
         Some (d + off, sz', len') }}}"

section \<open>Comparing and finding strings\<close>

text \<open>A C string without its terminator, and where it stands.\<close>

definition cstring_at :: "memory \<Rightarrow> ptr \<Rightarrow> u8 list \<Rightarrow> bool" where
  "cstring_at m a s \<longleftrightarrow> 0 \<notin> set s \<and> holds_bytes m a (s @ [0])"

lemma str_match_prefix_from:
  assumes "holds_bytes m (a + of_nat j) ys" and "ys \<noteq> []" and "last ys = 0"
    and "holds_bytes m (str + of_nat j) (s @ [0])" and "0 \<notin> set s"
    and "j + length s < ElfMaximalStringLength"
  shows "str_match m a str j = Some (prefix (s @ [0]) ys)"
  using assms
proof (induction s arbitrary: j ys)
  case Nil
  then obtain c ys' where "ys = c # ys'" by (cases ys) auto
  with Nil show ?case by (simp add: str_match.simps [of m a str j] holds_bytes_Cons)
next
  case (Cons x s)
  then obtain c ys' where ys: "ys = c # ys'" by (cases ys) auto
  show ?case
  proof (cases "c = x")
    case True
    with Cons.prems ys have "ys' \<noteq> []" and "last ys' = 0" by (auto split: if_splits)
    moreover have "holds_bytes m (a + of_nat (Suc j)) ys'"
      and "holds_bytes m (str + of_nat (Suc j)) (s @ [0])"
      using Cons.prems ys by (simp_all add: holds_bytes_Cons algebra_simps)
    ultimately have "str_match m a str (Suc j) = Some (prefix (s @ [0]) ys')"
      using Cons.prems by (intro Cons.IH) auto
    with True ys Cons.prems show ?thesis
      by (simp add: str_match.simps [of m a str j] holds_bytes_Cons)
  next
    case False
    with ys Cons.prems show ?thesis
      by (auto simp: str_match.simps [of m a str j] holds_bytes_Cons)
  qed
qed

lemma holds_bytes_drop:
  assumes "holds_bytes m a ys" and "i \<le> length ys"
  shows "holds_bytes m (a + of_nat i) (drop i ys)"
  using assms holds_bytes_append [of m a "take i ys" "drop i ys"] by (simp add: min_absorb2)

lemma str_match_in_table:
  assumes "holds_bytes m mem tab" and "i < length tab" and "last tab = 0"
    and "cstring_at m str s" and "length s < ElfMaximalStringLength"
  shows "str_match m (mem + of_nat i) str 0 = Some (prefix (s @ [0]) (drop i tab))"
  using assms holds_bytes_drop [of m mem tab i]
  by (intro str_match_prefix_from) (auto simp: cstring_at_def)

text \<open>A string table: the bytes \<open>tab\<close> at \<open>mem\<close>, not empty, ending in NUL.\<close>

definition strtab_at :: "memory \<Rightarrow> ptr \<Rightarrow> u8 list \<Rightarrow> bool" where
  "strtab_at m mem tab \<longleftrightarrow>
     tab \<noteq> [] \<and> last tab = 0 \<and> length tab < address_space \<and> holds_bytes m mem tab"

text \<open>The least offset at which \<open>s\<close> stands in the table with its terminator.\<close>

definition strtab_find :: "u8 list \<Rightarrow> u8 list \<Rightarrow> nat option" where
  "strtab_find tab s = find (\<lambda>i. prefix (s @ [0]) (drop i tab)) [0..<length tab]"

lemma of_nat_index_less:
  "i < n \<Longrightarrow> n < address_space \<Longrightarrow> (of_nat i :: u64) < of_nat n"
  by (simp add: word_less_nat_alt unat_of_nat)

lemma ucast_of_nat_u32: "(ucast (of_nat i :: u64) :: u32) = of_nat i"
  by (simp add: unsigned_of_nat word_of_nat_eq_iff)

lemma elfStringToOffset_loop_find:
  assumes "strtab_at m mem tab" and "cstring_at m str s" and "length s < ElfMaximalStringLength"
    and "i \<le> length tab"
  shows "elfStringToOffset_loop m mem (of_nat (length tab)) str (of_nat i) = Some
    (case find (\<lambda>i. prefix (s @ [0]) (drop i tab)) [i..<length tab] of
       Some k \<Rightarrow> of_nat k | None \<Rightarrow> 0)"
  using assms(4)
proof (induction i rule: inc_induct)
  case base
  then show ?case by (simp add: elfStringToOffset_loop.simps [of m mem _ str])
next
  case (step i)
  then have "(of_nat i :: u64) < of_nat (length tab)"
    using assms(1) by (simp add: of_nat_index_less strtab_at_def)
  moreover have "str_match m (mem + of_nat i) str 0 = Some (prefix (s @ [0]) (drop i tab))"
    using assms step by (intro str_match_in_table) (auto simp: strtab_at_def)
  moreover have "[i..<length tab] = i # [Suc i..<length tab]"
    using step by (simp add: upt_conv_Cons)
  ultimately show ?case
    using step.IH by (simp add: elfStringToOffset_loop.simps [of m mem _ str "of_nat i"]
        add.commute ucast_of_nat_u32)
qed

lemma elfStringToOffset_find:
  assumes "strtab_at m mem tab" and "cstring_at m str s" and "length s < ElfMaximalStringLength"
    and "str \<noteq> NULL"
  shows "elfStringToOffset m mem (of_nat (length tab)) str = Some
    (case strtab_find tab s of Some k \<Rightarrow> of_nat k | None \<Rightarrow> 0)"
  using elfStringToOffset_loop_find [OF assms(1-3), of 0] assms(4)
  by (simp add: elfStringToOffset_def strtab_find_def)

lemma strtab_find_SomeD:
  assumes "strtab_find tab s = Some k"
  shows "k + length s < length tab" and "prefix (s @ [0]) (drop k tab)"
    and "\<And>j. j < k \<Longrightarrow> \<not> prefix (s @ [0]) (drop j tab)"
proof -
  note k = find_upt_SomeD [OF assms [unfolded strtab_find_def]]
  show pre: "prefix (s @ [0]) (drop k tab)" by (rule k(3))
  from prefix_length_le [OF pre] k(2) show "k + length s < length tab" by simp
  show "\<And>j. j < k \<Longrightarrow> \<not> prefix (s @ [0]) (drop j tab)" using k(4) by simp
qed

lemma holds_bytes_prefix: "holds_bytes m a ys \<Longrightarrow> prefix xs ys \<Longrightarrow> holds_bytes m a xs"
  by (auto simp: prefix_def holds_bytes_append)

text \<open>C26 Looking a string up in a NUL-terminated table of less than 4 GiB and reading the returned
  offset back gives a pointer to that same string, at the least offset where it stands; the search
  ends and reads nothing outside the table.\<close>

theorem elfString_offset_roundtrip:
  assumes "strtab_at m mem tab" and "cstring_at m str s" and "length s < ElfMaximalStringLength"
    and "str \<noteq> NULL" and "mem \<noteq> NULL" and "length tab < 4294967296"
    and "strtab_find tab s = Some k"
  shows "\<exists>off. elfStringToOffset m mem (of_nat (length tab)) str = Some off \<and>
    elfStringFromOffset mem (of_nat (length tab)) off = mem + of_nat k \<and>
    cstring_at m (mem + of_nat k) s \<and>
    (\<forall>j < k. \<not> prefix (s @ [0]) (drop j tab))"
proof -
  note k = strtab_find_SomeD [OF assms(7)]
  have off: "elfStringToOffset m mem (of_nat (length tab)) str = Some (of_nat k)"
    using elfStringToOffset_find [OF assms(1-4)] assms(7) by simp
  have "(ucast (of_nat k :: u32) :: u64) = of_nat k"
    using k(1) assms(6) by (simp add: unsigned_of_nat take_bit_nat_eq_self)
  moreover have "\<not> of_nat (length tab) \<le> (of_nat k :: u64)"
    unfolding not_le using k(1) assms(1) by (intro of_nat_index_less) (auto simp: strtab_at_def)
  ultimately have "elfStringFromOffset mem (of_nat (length tab)) (of_nat k) = mem + of_nat k"
    using assms(5) by (simp add: elfStringFromOffset_def)
  moreover have "holds_bytes m (mem + of_nat k) (drop k tab)"
    using assms(1) k(1) by (intro holds_bytes_drop) (simp_all add: strtab_at_def)
  then have "holds_bytes m (mem + of_nat k) (s @ [0])"
    using k(2) by (rule holds_bytes_prefix)
  ultimately show ?thesis
    using off k(3) assms(2) by (auto simp: cstring_at_def)
qed

text \<open>A string that does not stand in the table is mapped to offset 0, the same answer as for a
  string at the start of the table: the result alone does not say that the lookup failed.\<close>

lemma elfStringToOffset_absent:
  assumes "strtab_at m mem tab" and "cstring_at m str s" and "length s < ElfMaximalStringLength"
    and "str \<noteq> NULL" and "strtab_find tab s = None"
  shows "elfStringToOffset m mem (of_nat (length tab)) str = Some 0"
  using elfStringToOffset_find [OF assms(1-4)] assms(5) by simp

section \<open>Strings by number\<close>

text \<open>The number of terminators among the first \<open>i\<close> bytes.\<close>

definition nul_count :: "u8 list \<Rightarrow> nat \<Rightarrow> nat" where
  "nul_count tab i = length (filter (\<lambda>c. c = 0) (take i tab))"

lemma nul_count_0 [simp]: "nul_count tab 0 = 0"
  by (simp add: nul_count_def)

lemma nul_count_Suc:
  "i < length tab \<Longrightarrow> nul_count tab (Suc i) = nul_count tab i + (if tab ! i = 0 then 1 else 0)"
  by (simp add: nul_count_def take_Suc_conv_app_nth)

lemma nul_count_le: "nul_count tab i \<le> i"
proof -
  have "nul_count tab i \<le> length (take i tab)" unfolding nul_count_def by (rule length_filter_le)
  then show ?thesis by simp
qed

lemma strtab_load: "strtab_at m mem tab \<Longrightarrow> i < length tab \<Longrightarrow> load8 m (mem + of_nat i) = Some (tab ! i)"
  by (simp add: strtab_at_def holds_bytes_iff load8_def)

text \<open>The scan for the \<open>index\<close>-th terminator stops just behind it, or runs to the last byte.\<close>

lemma nul_reached:
  assumes "n < unat index"
  shows "(of_nat n + 1 = (ucast (index :: u32) :: u64)) = (Suc n = unat index)"
proof -
  have "unat index < 4294967296" using unsigned_less [of index] by simp
  then have "unat (ucast index :: u64) = unat index" and "unat (of_nat n + 1 :: u64) = Suc n"
    using assms by (simp_all add: unsigned_ucast_eq take_bit_nat_eq_self unat_of_nat unat_word_ariths)
  then show ?thesis by (metis word_unat_eq_iff)
qed

lemma elfStringFromIndex_loop_find:
  assumes "\<And>k. k < N \<Longrightarrow> load8 m (mem + of_nat k) = Some (tab ! k)" and "N \<le> length tab"
    and "N < address_space" and "sz - 1 = of_nat N"
    and "i \<le> N" and "nul_count tab i < unat index"
  shows "elfStringFromIndex_loop m mem sz index (of_nat i) (of_nat (nul_count tab i)) =
    Some (case find (\<lambda>k. nul_count tab (Suc k) = unat index) [i..<N] of
       Some k \<Rightarrow> mem + of_nat (Suc k) | None \<Rightarrow> NULL)"
  using assms(5,6)
proof (induction i rule: inc_induct)
  case base
  then show ?case by (simp add: elfStringFromIndex_loop.simps [of m mem sz index] assms(4))
next
  case (step i)
  let ?n = "nul_count tab i" and ?c = "tab ! i"
  have lt: "(of_nat i :: u64) < sz - 1"
    unfolding assms(4) using step.hyps assms(3) by (intro of_nat_index_less)
  have upt: "[i..<N] = i # [Suc i..<N]"
    using step.hyps by (simp add: upt_conv_Cons)
  have suc: "nul_count tab (Suc i) = ?n + (if ?c = 0 then 1 else 0)"
    using step.hyps assms(2) by (simp add: nul_count_Suc)
  show ?case
  proof (cases "?c = 0 \<and> Suc ?n = unat index")
    case True
    with suc lt upt assms(1) [OF step.hyps(2)] step.prems show ?thesis
      by (simp add: elfStringFromIndex_loop.simps [of m mem sz index "of_nat i"] nul_reached add.assoc
          add.commute [of 1])
  next
    case False
    then have "nul_count tab (Suc i) < unat index" and ne: "nul_count tab (Suc i) \<noteq> unat index"
      using suc step.prems by (auto split: if_splits)
    from step.IH [OF this(1)] False suc lt upt assms(1) [OF step.hyps(2)] step.prems ne
    show ?thesis
      by (auto simp: elfStringFromIndex_loop.simps [of m mem sz index "of_nat i"] nul_reached
          add.commute [of 1])
  qed
qed

text \<open>Asking for string number \<open>index\<close> of a NUL-terminated table returns the table for
  number 0, for a positive number the byte behind the \<open>index\<close>-th terminator when that terminator
  is not the last byte of the table, and \<open>NULL\<close> otherwise: a returned pointer always lies
  in the table.\<close>

lemma elfStringFromIndex_nth:
  assumes "strtab_at m mem tab" and "mem \<noteq> NULL"
  shows "elfStringFromIndex m mem (of_nat (length tab)) index = Some
    (if index = 0 then mem
     else case find (\<lambda>k. nul_count tab (Suc k) = unat index) [0..<length tab - 1] of
       Some k \<Rightarrow> mem + of_nat (Suc k) | None \<Rightarrow> NULL)"
proof (cases "index = 0")
  case True
  then show ?thesis using assms(2) by (simp add: elfStringFromIndex_def)
next
  case False
  then have "nul_count tab 0 < unat index" by (simp add: unat_gt_0)
  have "(of_nat (length tab) :: u64) - 1 = of_nat (length tab - 1)"
    using assms(1) by (simp add: strtab_at_def Suc_leI)
  moreover have "length tab - 1 < address_space" and "length tab - 1 \<le> length tab"
    using assms(1) unfolding strtab_at_def by linarith+
  moreover have "load8 m (mem + of_nat k) = Some (tab ! k)" if "k < length tab - 1" for k
    using assms(1) that by (simp add: strtab_load)
  ultimately show ?thesis
    using elfStringFromIndex_loop_find [of "length tab - 1" m mem tab _ 0 index] False assms(2)
      \<open>nul_count tab 0 < unat index\<close>
    by (simp add: elfStringFromIndex_def)
qed

lemma elfStringToIndex_loop_find:
  assumes "strtab_at m mem tab" and "cstring_at m str s" and "length s < ElfMaximalStringLength"
    and "i \<le> length tab"
  shows "elfStringToIndex_loop m mem (of_nat (length tab)) str (of_nat (nul_count tab i)) (of_nat i) = Some
    (case find (\<lambda>i. prefix (s @ [0]) (drop i tab)) [i..<length tab] of
       Some k \<Rightarrow> of_nat (nul_count tab k) | None \<Rightarrow> 0)"
  using assms(4)
proof (induction i rule: inc_induct)
  case base
  then show ?case by (simp add: elfStringToIndex_loop.simps [of m mem _ str])
next
  case (step i)
  then have "(of_nat i :: u64) < of_nat (length tab)"
    using assms(1) by (simp add: of_nat_index_less strtab_at_def)
  moreover have "str_match m (mem + of_nat i) str 0 = Some (prefix (s @ [0]) (drop i tab))"
    using assms step by (intro str_match_in_table) (auto simp: strtab_at_def)
  moreover have "[i..<length tab] = i # [Suc i..<length tab]"
    using step by (simp add: upt_conv_Cons)
  moreover have "load8 m (mem + of_nat i) = Some (tab ! i)"
    using assms(1) step by (simp add: strtab_load)
  moreover have "nul_count tab (Suc i) = nul_count tab i + (if tab ! i = 0 then 1 else 0)"
    using step by (simp add: nul_count_Suc)
  ultimately show ?case
    using step.IH by (simp add: elfStringToIndex_loop.simps [of m mem _ str _ "of_nat i"]
        ucast_of_nat_u32 add.commute [of 1] split: if_splits)
qed

text \<open>The number of a string is the number of terminators before the least offset where it
  stands in the table, and 0 when it does not stand there.\<close>

lemma elfStringToIndex_counts:
  assumes "strtab_at m mem tab" and "cstring_at m str s" and "length s < ElfMaximalStringLength"
    and "str \<noteq> NULL"
  shows "elfStringToIndex m mem (of_nat (length tab)) str = Some
    (case strtab_find tab s of Some k \<Rightarrow> of_nat (nul_count tab k) | None \<Rightarrow> 0)"
  using elfStringToIndex_loop_find [OF assms(1-3), of 0] assms(4)
  by (simp add: elfStringToIndex_def strtab_find_def)

section \<open>Sections by name\<close>

lemma ucast_u32_eq_iff: "(ucast (a :: u32) :: u64) = ucast b \<longleftrightarrow> a = b"
  by (metis unat_ucast_u32 word_unat_eq_iff)

lemma elfSectionByName_find:
  assumes "elfSections m elf (Some 0) (Some 0) = Some (h, Some sz, Some len)" and "h \<noteq> NULL"
    and "shdr_table m h sz len = Some ps"
    and "elfSectionStrings m elf (Some 0) = Some (mem, Some (of_nat (length tab)))"
    and "strtab_at m mem tab" and "cstring_at m name s" and "length s < ElfMaximalStringLength"
    and "name \<noteq> NULL"
  shows "elfSectionByName m elf name = Some
    (case find (\<lambda>k. sh_name (ps ! k) = (case strtab_find tab s of Some q \<Rightarrow> of_nat q | None \<Rightarrow> 0))
            [0..<length ps] of
       Some k \<Rightarrow> h + entry_offset (of_nat k) sz | None \<Rightarrow> NULL)"
proof -
  let ?off = "case strtab_find tab s of Some q \<Rightarrow> of_nat q | None \<Rightarrow> (0 :: u32)"
  have "elfStringToOffset m mem (of_nat (length tab)) name = Some ?off"
    using assms(5-8) by (rule elfStringToOffset_find)
  moreover have "elfSection m elf None ElfSectionAttributeName (ucast ?off) = Some
    (case find (\<lambda>k. sh_name (ps ! k) = ?off) [0..<length ps] of
       Some k \<Rightarrow> (h + entry_offset (of_nat k) sz, of_nat k) | None \<Rightarrow> (NULL, max 0 len))"
    using elfSection_find [OF assms(1-3), of 0 ElfSectionAttributeName "ucast ?off"]
    by (simp add: elfSection_index_None ucast_u32_eq_iff)
  ultimately show ?thesis
    using assms(4) by (simp add: elfSectionByName_def split: option.split)
qed

text \<open>C27 A section lookup by name returns the first section whose \<open>sh_name\<close> is the least offset of
  the name in the section string table.  When the name is nowhere in that table the lookup does not
  report it: it returns the first section whose name offset is 0, which is the null section of every
  well-formed file, and only the caller's test of \<open>sh_type\<close> rejects it.\<close>

theorem elfSectionByName_meaning:
  assumes "elfSections m elf (Some 0) (Some 0) = Some (h, Some sz, Some len)" and "h \<noteq> NULL"
    and "shdr_table m h sz len = Some ps"
    and "elfSectionStrings m elf (Some 0) = Some (mem, Some (of_nat (length tab)))"
    and "strtab_at m mem tab" and "cstring_at m name s" and "length s < ElfMaximalStringLength"
    and "name \<noteq> NULL" and "ps \<noteq> []" and "sh_name (ps ! 0) = 0"
  shows "elfSectionByName m elf name = Some
    (case strtab_find tab s of
       None \<Rightarrow> h
     | Some q \<Rightarrow> (case find (\<lambda>k. sh_name (ps ! k) = of_nat q) [0..<length ps] of
          Some k \<Rightarrow> h + entry_offset (of_nat k) sz | None \<Rightarrow> NULL))"
proof (cases "strtab_find tab s")
  case None
  have "[0..<length ps] = 0 # [Suc 0..<length ps]"
    using assms(9) by (simp add: upt_conv_Cons)
  with None elfSectionByName_find [OF assms(1-8)] assms(10) show ?thesis
    by (simp add: entry_offset_def)
qed (use elfSectionByName_find [OF assms(1-8)] in simp)

section \<open>The lookups by name only read\<close>

lemma reads_elfSectionStrings [reads_intro]: "reads (\<lambda>m. elfSectionStrings m elf sz)"
  unfolding elfSectionStrings_def by (intro reads_intro)

lemma reads_str_match [reads_intro]: "reads (\<lambda>m. str_match m a str j)"
proof (induction "ElfMaximalStringLength - j" arbitrary: j rule: less_induct)
  case less
  have "reads (\<lambda>m. str_match m a str (Suc j))" if "j < ElfMaximalStringLength"
    using that by (intro less) simp
  then show ?case
    unfolding str_match.simps [of _ a str j] by (intro reads_intro)
qed

lemma reads_elfStringToOffset_loop [reads_intro]: "reads (\<lambda>m. elfStringToOffset_loop m mem sz str i)"
proof (induction "unat sz - unat i" arbitrary: i rule: less_induct)
  case less
  show ?case
    unfolding elfStringToOffset_loop.simps [of _ mem sz str i]
    by (intro reads_intro less index_measure)
qed

lemma reads_elfStringToOffset [reads_intro]: "reads (\<lambda>m. elfStringToOffset m mem sz str)"
  unfolding elfStringToOffset_def by (intro reads_intro)

lemma reads_elfSectionByName [reads_intro]: "reads (\<lambda>m. elfSectionByName m elf name)"
  unfolding elfSectionByName_def by (intro reads_intro)

lemma reads_elfAddendRelocations [reads_intro]: "reads (\<lambda>m. elfAddendRelocations m elf name sz len)"
  unfolding elfAddendRelocations_def by (intro reads_intro)

lemma reads_elfSymbols [reads_intro]: "reads (\<lambda>m. elfSymbols m elf name sz len)"
  unfolding elfSymbols_def by (intro reads_intro)

end
