(* ===== verification/Elf_Loader.thy ===== *)
theory Elf_Loader
  imports Elf_Strings
begin

text \<open>
  The loader of \<open>source/ps4/elfloader.c\<close>: the test whether an object can be loaded, the
  instantiation of its image in memory, the relocation of the image, and the three together.

  Memory is threaded through every call.  A result \<open>None\<close> is a fault; otherwise the
  result is the return code with the memory the call leaves.  The string literals of
  \<open>elfLoaderRelocate\<close> stand at addresses the linker chose, the record \<open>literals\<close>.
\<close>

section \<open>Return codes\<close>

datatype ElfLoaderReturn =
    ElfLoaderReturnOK
  | ElfLoaderReturnElfNull
  | ElfLoaderReturnWritableMemoryNull
  | ElfLoaderReturnExecutableMemoryNull
  | ElfLoaderReturnNoElf
  | ElfLoaderReturnUnknownRelocation
  | ElfLoaderReturnAddressNotFound
  | ElfLoaderReturnNoSectionsOrSegments
  | ElfLoaderReturnIsNotLoadable

primrec elfLoaderReturn_value :: "ElfLoaderReturn \<Rightarrow> u32" where
  "elfLoaderReturn_value ElfLoaderReturnOK = 0"
| "elfLoaderReturn_value ElfLoaderReturnElfNull = - 1"
| "elfLoaderReturn_value ElfLoaderReturnWritableMemoryNull = - 2"
| "elfLoaderReturn_value ElfLoaderReturnExecutableMemoryNull = - 3"
| "elfLoaderReturn_value ElfLoaderReturnNoElf = - 4"
| "elfLoaderReturn_value ElfLoaderReturnUnknownRelocation = - 5"
| "elfLoaderReturn_value ElfLoaderReturnAddressNotFound = - 6"
| "elfLoaderReturn_value ElfLoaderReturnNoSectionsOrSegments = - 7"
| "elfLoaderReturn_value ElfLoaderReturnIsNotLoadable = - 8"

section \<open>Operations\<close>

text \<open>The conjunction is evaluated from left to right and stops at the first false operand.\<close>

definition and_then :: "bool option \<Rightarrow> bool option \<Rightarrow> bool option" where
  "and_then a b = do { x \<leftarrow> a; if x then b else Some False }"

definition elfLoaderIsLoadable :: "memory \<Rightarrow> ptr \<Rightarrow> bool option" where
  "elfLoaderIsLoadable m elf = do {
     is \<leftarrow> elfIsElf m elf;
     if \<not> is then Some False else do {
       h \<leftarrow> elfHeader m elf;
       and_then (map_option (\<lambda>c. c = ELFCLASS64) (elfClass m elf))
       (and_then (map_option (\<lambda>c. c = ELFDATA2LSB) (elfEncoding m elf))
       (and_then (map_option (\<lambda>c. c = EV_CURRENT) (elfVersion m elf))
       (and_then (map_option (\<lambda>c. c = ELFOSABI_SYSV \<or> c = ELFOSABI_FREEBSD) (elfABI m elf))
       (and_then (map_option (\<lambda>t. t = ET_DYN) (ld_e_type m h))
       (and_then (map_option (\<lambda>x. x \<noteq> 0) (ld_e_phoff m h))
       (and_then (map_option (\<lambda>x. x \<noteq> 0) (ld_e_shoff m h))
       (and_then (map_option (\<lambda>x. x = EM_X86_64) (ld_e_machine m h))
       (map_option (\<lambda>v. v = EV_CURRENT) (ld_e_version m h))))))))) }}"

text \<open>One pass of the segment loop: the file bytes, then the zeros up to \<open>p_memsz\<close>.  The
  fields are read again after the copy, as the source does.\<close>

definition instantiate_segment :: "ptr \<Rightarrow> ptr \<Rightarrow> ptr \<Rightarrow> memory \<Rightarrow> memory option" where
  "instantiate_segment elf mem s m = do {
     filesz \<leftarrow> ld_p_filesz m s;
     m1 \<leftarrow> (if filesz \<noteq> 0 then do {
        paddr \<leftarrow> ld_p_paddr m s;
        d \<leftarrow> ld_elf_data m elf;
        off \<leftarrow> ld_p_offset m s;
        memcpy m (mem + paddr) (d + off) filesz } else Some m);
     memsz \<leftarrow> ld_p_memsz m1 s;
     filesz1 \<leftarrow> ld_p_filesz m1 s;
     if memsz - filesz1 \<noteq> 0 then do {
        paddr \<leftarrow> ld_p_paddr m1 s;
        memset m1 (mem + paddr + filesz1) 0 (memsz - filesz1) } else Some m1 }"

definition instantiate_section :: "ptr \<Rightarrow> ptr \<Rightarrow> ptr \<Rightarrow> memory \<Rightarrow> memory option" where
  "instantiate_section elf mem s m = do {
     flags \<leftarrow> ld_sh_flags m s;
     if flags AND SHF_ALLOC = 0 then Some m else do {
       sz \<leftarrow> ld_sh_size m s;
       if sz \<noteq> 0 then do {
         addr \<leftarrow> ld_sh_addr m s;
         d \<leftarrow> ld_elf_data m elf;
         off \<leftarrow> ld_sh_offset m s;
         memcpy m (mem + addr) (d + off) sz } else Some m }}"

function instantiate_segments ::
  "ptr \<Rightarrow> ptr \<Rightarrow> ptr \<Rightarrow> u16 \<Rightarrow> u16 \<Rightarrow> u16 \<Rightarrow> memory \<Rightarrow> memory option" where
  "instantiate_segments elf mem segments sz len index m =
     (if index < len then do {
        m' \<leftarrow> instantiate_segment elf mem (segments + entry_offset index sz) m;
        instantiate_segments elf mem segments sz len (index + 1) m' }
      else Some m)"
  by pat_completeness auto
termination
  by (relation "measure (\<lambda>(elf, mem, h, sz, len, i, m). unat len - unat i)")
    (auto simp: index_measure)

declare instantiate_segments.simps [simp del]

function instantiate_sections ::
  "ptr \<Rightarrow> ptr \<Rightarrow> ptr \<Rightarrow> u16 \<Rightarrow> u16 \<Rightarrow> u16 \<Rightarrow> memory \<Rightarrow> memory option" where
  "instantiate_sections elf mem sections sz len index m =
     (if index < len then do {
        m' \<leftarrow> instantiate_section elf mem (sections + entry_offset index sz) m;
        instantiate_sections elf mem sections sz len (index + 1) m' }
      else Some m)"
  by pat_completeness auto
termination
  by (relation "measure (\<lambda>(elf, mem, h, sz, len, i, m). unat len - unat i)")
    (auto simp: index_measure)

declare instantiate_sections.simps [simp del]

definition elfLoaderInstantiate :: "memory \<Rightarrow> ptr \<Rightarrow> ptr \<Rightarrow> (ElfLoaderReturn \<times> memory) option" where
  "elfLoaderInstantiate m elf mem =
     (if elf = NULL then Some (ElfLoaderReturnElfNull, m)
      else if mem = NULL then Some (ElfLoaderReturnWritableMemoryNull, m)
      else do {
        (segments, sz, len) \<leftarrow> elfSegments m elf (Some 0) (Some 0);
        if segments \<noteq> NULL then do {
          m' \<leftarrow> instantiate_segments elf mem segments (the sz) (the len) 0 m;
          Some (ElfLoaderReturnOK, m') }
        else do {
          (sections, sz, len) \<leftarrow> elfSections m elf sz (Some 0);
          if sections = NULL then Some (ElfLoaderReturnOK, m)
          else do {
            m' \<leftarrow> instantiate_sections elf mem sections (the sz) (the len) 0 m;
            Some (ElfLoaderReturnOK, m') }}})"

text \<open>The address test walks the segments (or, without segments, the sections) and answers from
  the first that covers the address, the end included; 1 when none does.\<close>

function executable_segments :: "memory \<Rightarrow> ptr \<Rightarrow> u16 \<Rightarrow> u16 \<Rightarrow> u64 \<Rightarrow> u16 \<Rightarrow> u32 option" where
  "executable_segments m segments sz len address index =
     (if index < len then do {
        let s = segments + entry_offset index sz;
        paddr \<leftarrow> ld_p_paddr m s;
        hit \<leftarrow> (if address \<ge> paddr then do {
           memsz \<leftarrow> ld_p_memsz m s; Some (address \<le> paddr + memsz) } else Some False);
        if hit then map_option (\<lambda>f. f AND PF_X) (ld_p_flags m s)
        else executable_segments m segments sz len address (index + 1) }
      else Some 1)"
  by pat_completeness auto
termination
  by (relation "measure (\<lambda>(m, h, sz, len, a, i). unat len - unat i)") (auto simp: index_measure)

declare executable_segments.simps [simp del]

function executable_sections :: "memory \<Rightarrow> ptr \<Rightarrow> u16 \<Rightarrow> u16 \<Rightarrow> u64 \<Rightarrow> u16 \<Rightarrow> u32 option" where
  "executable_sections m sections sz len address index =
     (if index < len then do {
        let s = sections + entry_offset index sz;
        addr \<leftarrow> ld_sh_addr m s;
        hit \<leftarrow> (if address \<ge> addr then do {
           size \<leftarrow> ld_sh_size m s; Some (address \<le> addr + size) } else Some False);
        if hit then map_option (\<lambda>f. ucast (f AND SHF_EXECINSTR)) (ld_sh_flags m s)
        else executable_sections m sections sz len address (index + 1) }
      else Some 1)"
  by pat_completeness auto
termination
  by (relation "measure (\<lambda>(m, h, sz, len, a, i). unat len - unat i)") (auto simp: index_measure)

declare executable_sections.simps [simp del]

definition elfLoaderRelativeAddressIsExecutable :: "memory \<Rightarrow> ptr \<Rightarrow> u64 \<Rightarrow> u32 option" where
  "elfLoaderRelativeAddressIsExecutable m elf address =
     (if elf = NULL then Some 0 else do {
        (segments, sz, len) \<leftarrow> elfSegments m elf (Some 0) (Some 0);
        if segments \<noteq> NULL then executable_segments m segments (the sz) (the len) address 0
        else do {
          (sections, sz, len) \<leftarrow> elfSections m elf sz (Some 0);
          if sections = NULL then Some (elfLoaderReturn_value ElfLoaderReturnNoSectionsOrSegments)
          else executable_sections m sections (the sz) (the len) address 0 }})"

text \<open>The relocated value of one entry: \<open>Some None\<close> for a type the loader does not know.  The
  type and the symbol number are narrowed to 16 bits.\<close>

definition relocation_value ::
  "memory \<Rightarrow> ptr \<Rightarrow> u16 \<Rightarrow> ptr \<Rightarrow> u64 option option" where
  "relocation_value m dynamicSymbols dynamicSymbolSize relocation = do {
     info \<leftarrow> ld_r_info m relocation;
     let relocationType = (ucast (ELF64_R_TYPE info) :: u16);
     let relocationSymbol = (ucast (ELF64_R_SYM info) :: u16);
     if relocationType = R_X86_64_RELATIVE then map_option Some (ld_r_addend m relocation)
     else if relocationType = R_X86_64_64 then do {
       v \<leftarrow> ld_st_value m (dynamicSymbols + entry_offset relocationSymbol dynamicSymbolSize);
       a \<leftarrow> ld_r_addend m relocation;
       Some (Some (v + a)) }
     else if relocationType = R_X86_64_JMP_SLOT \<or> relocationType = R_X86_64_GLOB_DAT then
       map_option Some
         (ld_st_value m (dynamicSymbols + entry_offset relocationSymbol dynamicSymbolSize))
     else Some None }"

definition relocate_entry ::
  "ptr \<Rightarrow> ptr \<Rightarrow> ptr \<Rightarrow> ptr \<Rightarrow> u16 \<Rightarrow> ptr \<Rightarrow> memory \<Rightarrow> (ElfLoaderReturn \<times> memory) option" where
  "relocate_entry elf writable executable dynamicSymbols dynamicSymbolSize relocation m = do {
     off \<leftarrow> ld_r_offset m relocation;
     value \<leftarrow> relocation_value m dynamicSymbols dynamicSymbolSize relocation;
     case value of
       None \<Rightarrow> Some (ElfLoaderReturnUnknownRelocation, m)
     | Some v \<Rightarrow> do {
         x \<leftarrow> elfLoaderRelativeAddressIsExecutable m elf v;
         m' \<leftarrow> store64 m (writable + off) ((if x \<noteq> 0 then executable else writable) + v);
         Some (ElfLoaderReturnOK, m') }}"

function relocate_entries ::
  "ptr \<Rightarrow> ptr \<Rightarrow> ptr \<Rightarrow> ptr \<Rightarrow> u16 \<Rightarrow> ptr \<Rightarrow> u16 \<Rightarrow> u16 \<Rightarrow> u16 \<Rightarrow> memory \<Rightarrow>
     (ElfLoaderReturn \<times> memory) option" where
  "relocate_entries elf writable executable dynamicSymbols dynamicSymbolSize
     relocations relocationSize relocationsLength i m =
     (if i < relocationsLength then do {
        (r, m') \<leftarrow> relocate_entry elf writable executable dynamicSymbols dynamicSymbolSize
          (relocations + entry_offset i relocationSize) m;
        if r = ElfLoaderReturnOK then
          relocate_entries elf writable executable dynamicSymbols dynamicSymbolSize
            relocations relocationSize relocationsLength (i + 1) m'
        else Some (r, m') }
      else Some (ElfLoaderReturnOK, m))"
  by pat_completeness auto
termination
  by (relation "measure (\<lambda>(elf, w, x, d, z, r, rz, len, i, m). unat len - unat i)")
    (auto simp: index_measure)

declare relocate_entries.simps [simp del]

text \<open>The outer loop over the section names; \<open>relocationSize\<close> keeps its last value when a
  section is missing, \<open>relocationsLength\<close> is reset.\<close>

fun relocate_sections ::
  "ptr \<Rightarrow> ptr \<Rightarrow> ptr \<Rightarrow> ptr \<Rightarrow> u16 \<Rightarrow> ptr list \<Rightarrow> u16 \<Rightarrow> memory \<Rightarrow>
     (ElfLoaderReturn \<times> memory) option" where
  "relocate_sections elf writable executable dynamicSymbols dynamicSymbolSize [] relocationSize m =
     Some (ElfLoaderReturnOK, m)"
| "relocate_sections elf writable executable dynamicSymbols dynamicSymbolSize (name # rel)
     relocationSize m = do {
     (relocations, sz, len) \<leftarrow> elfAddendRelocations m elf name (Some relocationSize) (Some 0);
     (r, m') \<leftarrow> relocate_entries elf writable executable dynamicSymbols dynamicSymbolSize
        relocations (the sz) (the len) 0 m;
     if r = ElfLoaderReturnOK then
       relocate_sections elf writable executable dynamicSymbols dynamicSymbolSize rel (the sz) m'
     else Some (r, m') }"

record literals =
  lit_dynsym :: ptr
  lit_rela_dyn :: ptr
  lit_rela_plt :: ptr

definition elfLoaderRelocate ::
  "literals \<Rightarrow> memory \<Rightarrow> ptr \<Rightarrow> ptr \<Rightarrow> ptr \<Rightarrow> (ElfLoaderReturn \<times> memory) option" where
  "elfLoaderRelocate lits m elf writable executable =
     (if elf = NULL then Some (ElfLoaderReturnElfNull, m)
      else if writable = NULL then Some (ElfLoaderReturnWritableMemoryNull, m)
      else if executable = NULL then Some (ElfLoaderReturnExecutableMemoryNull, m)
      else do {
        (dynamicSymbols, dynamicSymbolSize, _) \<leftarrow>
          elfSymbols m elf (lit_dynsym lits) (Some 0) (Some 0);
        relocate_sections elf writable executable dynamicSymbols (the dynamicSymbolSize)
          [lit_rela_dyn lits, lit_rela_plt lits] 0 m })"

definition elfLoaderLoad ::
  "literals \<Rightarrow> memory \<Rightarrow> ptr \<Rightarrow> ptr \<Rightarrow> ptr \<Rightarrow> (ElfLoaderReturn \<times> memory) option" where
  "elfLoaderLoad lits m elf writable executable =
     (if elf = NULL then Some (ElfLoaderReturnElfNull, m)
      else if writable = NULL then Some (ElfLoaderReturnWritableMemoryNull, m)
      else if executable = NULL then Some (ElfLoaderReturnExecutableMemoryNull, m)
      else do {
        loadable \<leftarrow> elfLoaderIsLoadable m elf;
        if \<not> loadable then Some (ElfLoaderReturnIsNotLoadable, m) else do {
          (r, m') \<leftarrow> elfLoaderInstantiate m elf writable;
          if r \<noteq> ElfLoaderReturnOK then Some (r, m')
          else elfLoaderRelocate lits m' elf writable executable }})"

interpretation instantiate_segments: table_fold
  "instantiate_segments elf mem h sz len"
  "\<lambda>i. instantiate_segment elf mem (h + entry_offset i sz)" len
  for elf mem h sz len
  by unfold_locales (rule instantiate_segments.simps)

interpretation instantiate_sections: table_fold
  "instantiate_sections elf mem h sz len"
  "\<lambda>i. instantiate_section elf mem (h + entry_offset i sz)" len
  for elf mem h sz len
  by unfold_locales (rule instantiate_sections.simps)

section \<open>The image of the segments\<close>

text \<open>
  The abstract image is a map from offsets to bytes.  A segment puts \<open>p_filesz\<close> bytes of the file
  at \<open>p_paddr\<close> and zeros behind them up to \<open>p_memsz\<close>; the image of a program is what its
  segments put there, in table order.
\<close>

definition segment_image :: "(u64 \<Rightarrow> u8 option) \<Rightarrow> Elf64_Phdr \<Rightarrow> (u64 \<Rightarrow> u8 option) \<Rightarrow> u64 \<Rightarrow> u8 option" where
  "segment_image file p img = (\<lambda>x.
     if x - p_paddr p < p_filesz p then file (p_offset p + (x - p_paddr p))
     else if x - p_paddr p < p_memsz p then Some 0 else img x)"

text \<open>A segment fits a target of \<open>n\<close> bytes, and its file bytes can be read from \<open>m\<close>.\<close>

definition segment_fits :: "memory \<Rightarrow> ptr \<Rightarrow> nat \<Rightarrow> Elf64_Phdr \<Rightarrow> bool" where
  "segment_fits m d n p \<longleftrightarrow> p_filesz p \<le> p_memsz p \<and>
     unat (p_paddr p) + unat (p_memsz p) \<le> n \<and> mapped m (d + p_offset p) (unat (p_filesz p))"

lemma mapped_le:
  assumes "m \<subseteq>\<^sub>m m'" and "mapped m a n"
  shows "mapped m' a n"
proof -
  obtain bs where "load_bytes m a n = Some bs" using assms(2) load_bytes_mapped by blast
  from readsD [OF reads_load_bytes this assms(1)] show ?thesis using load_bytes_mapped by blast
qed

lemma outside_mapped_eq:
  assumes "mapped (outside m a n) b k" and "outside m' a n = outside m a n" and "j < k"
  shows "m' (b + of_nat j) = m (b + of_nat j)"
proof -
  have "outside m a n (b + of_nat j) \<noteq> None"
    using assms(1,3) unfolding mapped_def by simp
  then have "\<not> in_region a n (b + of_nat j)" by (auto simp: outside_def split: if_splits)
  with assms(2) show ?thesis by (metis outside_def)
qed

lemma memset_rel:
  assumes "memset m (a + b) c k = Some m'"
  shows "m' (a + x) = (if unat (x - b) < unat k then Some c else m (a + x))"
  using memset_apply [OF assms, of "a + x"] by (simp add: in_region_def)

lemma memcpy_rel:
  assumes "memcpy m (a + b) s k = Some m'"
  shows "m' (a + x) = (if unat (x - b) < unat k then m (s + (x - b)) else m (a + x))"
  using memcpy_apply [OF assms, of "a + x"] by (simp add: in_region_def)

lemma outside_memcpy:
  assumes "memcpy m (a + b) s k = Some m'" and "unat b + unat k \<le> n" and "n \<le> address_space"
  shows "outside m' a n = outside m a n"
  using memcpy_apply [OF assms(1)] in_region_sub [of a b "unat k" _ n] assms(2,3)
  by (intro outside_eqI) auto

lemma outside_memset:
  assumes "memset m (a + b) c k = Some m'" and "unat b + unat k \<le> n" and "n \<le> address_space"
  shows "outside m' a n = outside m a n"
  using memset_apply [OF assms(1)] in_region_sub [of a b "unat k" _ n] assms(2,3)
  by (intro outside_eqI) auto

text \<open>The two halves of one pass, each total on a target that is mapped.\<close>

lemma segment_copy:
  assumes frame: "outside m mem n = outside m0 mem n" and tgt: "mapped m mem n" "n \<le> address_space"
    and fits: "segment_fits (outside m0 mem n) d n p"
  shows "\<exists>m1. (if p_filesz p \<noteq> 0 then memcpy m (mem + p_paddr p) (d + p_offset p) (p_filesz p)
       else Some m) = Some m1 \<and> outside m1 mem n = outside m0 mem n \<and> mapped m1 mem n \<and>
     (\<forall>x. m1 (mem + x) = (if x - p_paddr p < p_filesz p
        then m0 (d + (p_offset p + (x - p_paddr p))) else m (mem + x)))"
proof (cases "p_filesz p = 0")
  case True
  then show ?thesis using frame tgt by simp
next
  case False
  have src: "mapped (outside m0 mem n) (d + p_offset p) (unat (p_filesz p))"
    and end1: "unat (p_paddr p) + unat (p_filesz p) \<le> n"
    using fits by (auto simp: segment_fits_def word_le_nat_alt)
  have "mapped m (d + p_offset p) (unat (p_filesz p))"
    using mapped_le [OF _ src, of m] frame outside_le [of m mem n] by simp
  moreover have "mapped m (mem + p_paddr p) (unat (p_filesz p))"
    using mapped_sub [OF tgt(1) end1] .
  ultimately obtain m1 where m1: "memcpy m (mem + p_paddr p) (d + p_offset p) (p_filesz p) = Some m1"
    using memcpy_mapped by blast
  have "m (d + p_offset p + (x - p_paddr p)) = m0 (d + p_offset p + (x - p_paddr p))"
    if "unat (x - p_paddr p) < unat (p_filesz p)" for x
    using outside_mapped_eq [OF src frame that] by simp
  then have "\<forall>x. m1 (mem + x) = (if x - p_paddr p < p_filesz p
        then m0 (d + (p_offset p + (x - p_paddr p))) else m (mem + x))"
    using memcpy_rel [OF m1] by (simp add: word_less_nat_alt add.assoc)
  moreover have "mapped m1 mem n"
    using mapped_cong_dom [OF dom_memcpy [OF m1]] tgt(1) by simp
  ultimately show ?thesis
    using False m1 outside_memcpy [OF m1 end1 tgt(2)] frame by simp
qed

lemma segment_clear:
  assumes frame: "outside m mem n = outside m0 mem n" and tgt: "mapped m mem n" "n \<le> address_space"
    and fits: "segment_fits (outside m0 mem n) d n p"
  shows "\<exists>m1. (if p_memsz p - p_filesz p \<noteq> 0
       then memset m (mem + p_paddr p + p_filesz p) 0 (p_memsz p - p_filesz p) else Some m) = Some m1 \<and>
     outside m1 mem n = outside m0 mem n \<and> mapped m1 mem n \<and>
     (\<forall>x. m1 (mem + x) = (if p_filesz p \<le> x - p_paddr p \<and> x - p_paddr p < p_memsz p
        then Some 0 else m (mem + x)))"
proof (cases "p_memsz p = p_filesz p")
  case True
  then show ?thesis using frame tgt by auto
next
  case False
  let ?k = "p_memsz p - p_filesz p" and ?b = "p_paddr p + p_filesz p"
  have le: "p_filesz p \<le> p_memsz p" and end1: "unat (p_paddr p) + unat (p_memsz p) \<le> n"
    using fits by (auto simp: segment_fits_def)
  have k: "unat ?k = unat (p_memsz p) - unat (p_filesz p)"
    using le by (simp add: unat_sub)
  have lt: "unat (p_filesz p) < unat (p_memsz p)"
    using le False unfolding word_less_nat_alt [symmetric] by simp
  then have b: "unat ?b = unat (p_paddr p) + unat (p_filesz p)"
    using end1 tgt(2) by (simp add: unat_word_ariths)
  have end2: "unat ?b + unat ?k \<le> n" using b k lt end1 by simp
  from mapped_sub [OF tgt(1) end2] obtain m1 where m1: "memset m (mem + ?b) 0 ?k = Some m1"
    using memset_mapped by blast
  have "unat (x - ?b) < unat ?k \<longleftrightarrow> p_filesz p \<le> x - p_paddr p \<and> x - p_paddr p < p_memsz p" for x
    using in_region_unat [of "p_filesz p" "unat ?k" "x - p_paddr p"] k lt unat_ptr_less [of "p_memsz p"]
    by (simp add: in_region_def word_le_nat_alt word_less_nat_alt diff_diff_eq)
  with memset_rel [OF m1] have "\<forall>x. m1 (mem + x) =
      (if p_filesz p \<le> x - p_paddr p \<and> x - p_paddr p < p_memsz p then Some 0 else m (mem + x))"
    by simp
  moreover have "mapped m1 mem n"
    using mapped_cong_dom [OF dom_memset [OF m1]] tgt(1) by simp
  ultimately show ?thesis
    using False m1 outside_memset [OF m1 end2 tgt(2)] frame by (simp add: add.assoc)
qed

lemma instantiate_segment_step:
  assumes frame: "outside m mem n = outside m0 mem n" and tgt: "mapped m mem n" "n \<le> address_space"
    and hdr: "phdr_at (outside m0 mem n) s = Some p" and dat: "ld_elf_data (outside m0 mem n) elf = Some d"
    and fits: "segment_fits (outside m0 mem n) d n p"
  shows "\<exists>m'. instantiate_segment elf mem s m = Some m' \<and> outside m' mem n = outside m0 mem n \<and>
     mapped m' mem n \<and>
     (\<lambda>x. m' (mem + x)) = segment_image (\<lambda>y. m0 (d + y)) p (\<lambda>x. m (mem + x))"
proof -
  obtain m1 where m1: "(if p_filesz p \<noteq> 0 then memcpy m (mem + p_paddr p) (d + p_offset p) (p_filesz p)
       else Some m) = Some m1" "outside m1 mem n = outside m0 mem n" "mapped m1 mem n"
     "\<And>x. m1 (mem + x) = (if x - p_paddr p < p_filesz p
        then m0 (d + (p_offset p + (x - p_paddr p))) else m (mem + x))"
    using segment_copy [OF frame tgt fits] by blast
  obtain m2 where m2: "(if p_memsz p - p_filesz p \<noteq> 0
       then memset m1 (mem + p_paddr p + p_filesz p) 0 (p_memsz p - p_filesz p) else Some m1) = Some m2"
     "outside m2 mem n = outside m0 mem n" "mapped m2 mem n"
     "\<And>x. m2 (mem + x) = (if p_filesz p \<le> x - p_paddr p \<and> x - p_paddr p < p_memsz p
        then Some 0 else m1 (mem + x))"
    using segment_clear [OF m1(2,3) tgt(2) fits] by blast
  note p = phdr_atD [OF reads_outside [OF reads_phdr_at hdr frame]]
  note p1 = phdr_atD [OF reads_outside [OF reads_phdr_at hdr m1(2)]]
  have dm: "ld_elf_data m elf = Some d"
    using reads_outside [OF reads_ld_elf_data dat frame] .
  have "instantiate_segment elf mem s m = Some m2"
    using m1(1) m2(1)
    by (cases "p_filesz p = 0") (simp_all add: instantiate_segment_def p p1 dm split: if_splits)
  moreover have "(\<lambda>x. m2 (mem + x)) = segment_image (\<lambda>y. m0 (d + y)) p (\<lambda>x. m (mem + x))"
    by (rule ext) (auto simp: m1(4) m2(4) segment_image_def)
  ultimately show ?thesis using m2(2,3) by blast
qed

text \<open>Any loop whose passes keep the frame and act on the image entry by entry acts on the image as the
  fold of its passes.\<close>

lemma fold_opt_image:
  assumes step: "\<And>k m1. k < length ps \<Longrightarrow> outside m1 mem n = outside m0 mem n \<Longrightarrow> mapped m1 mem n \<Longrightarrow>
      \<exists>m2. step k m1 = Some m2 \<and> outside m2 mem n = outside m0 mem n \<and> mapped m2 mem n \<and>
        (\<lambda>x. m2 (mem + x)) = g (ps ! k) (\<lambda>x. m1 (mem + x))"
    and "mapped m0 mem n"
  shows "\<exists>m'. fold_opt step [0..<length ps] m0 = Some m' \<and> outside m' mem n = outside m0 mem n \<and>
     mapped m' mem n \<and> (\<lambda>x. m' (mem + x)) = fold g ps (\<lambda>x. m0 (mem + x))"
proof -
  have "\<exists>m'. fold_opt step [0..<j] m0 = Some m' \<and> outside m' mem n = outside m0 mem n \<and>
      mapped m' mem n \<and> (\<lambda>x. m' (mem + x)) = fold g (take j ps) (\<lambda>x. m0 (mem + x))"
    if "j \<le> length ps" for j
    using that
  proof (induction j)
    case 0
    then show ?case using assms(2) by simp
  next
    case (Suc j)
    then obtain m1 where m1: "fold_opt step [0..<j] m0 = Some m1" "outside m1 mem n = outside m0 mem n"
      "mapped m1 mem n" "(\<lambda>x. m1 (mem + x)) = fold g (take j ps) (\<lambda>x. m0 (mem + x))"
      by auto
    from step [OF _ m1(2,3), of j] Suc.prems
    obtain m2 where "step j m1 = Some m2" "outside m2 mem n = outside m0 mem n" "mapped m2 mem n"
      "(\<lambda>x. m2 (mem + x)) = g (ps ! j) (\<lambda>x. m1 (mem + x))"
      by auto
    with m1 Suc.prems show ?case
      by (simp add: fold_opt_append take_Suc_conv_app_nth)
  qed
  from this [of "length ps"] show ?thesis by simp
qed

lemma instantiate_segments_image:
  assumes tgt: "mapped m0 mem n" "n \<le> address_space"
    and dat: "ld_elf_data (outside m0 mem n) elf = Some d"
    and tab: "phdr_table (outside m0 mem n) h sz len = Some ps"
    and fits: "\<And>p. p \<in> set ps \<Longrightarrow> segment_fits (outside m0 mem n) d n p"
  shows "\<exists>m'. instantiate_segments elf mem h sz len 0 m0 = Some m' \<and>
     outside m' mem n = outside m0 mem n \<and> mapped m' mem n \<and>
     (\<lambda>x. m' (mem + x)) = fold (segment_image (\<lambda>y. m0 (d + y))) ps (\<lambda>x. m0 (mem + x))"
proof -
  have len: "length ps = unat len"
    and at: "\<And>k. k < length ps \<Longrightarrow> phdr_at (outside m0 mem n) (h + entry_offset (of_nat k) sz) = Some (ps ! k)"
    using tab by (auto simp: phdr_table_conv)
  have "\<exists>m'. fold_opt (\<lambda>k. instantiate_segment elf mem (h + entry_offset (of_nat k) sz)) [0..<length ps] m0 =
      Some m' \<and> outside m' mem n = outside m0 mem n \<and> mapped m' mem n \<and>
     (\<lambda>x. m' (mem + x)) = fold (segment_image (\<lambda>y. m0 (d + y))) ps (\<lambda>x. m0 (mem + x))"
    using instantiate_segment_step [OF _ _ tgt(2) at dat fits] tgt(1) by (intro fold_opt_image) auto
  with len show ?thesis by (simp add: instantiate_segments.loop_fold)
qed

lemma elfLoaderInstantiate_segments:
  assumes "mapped m mem n" and "n \<le> address_space" and "mem \<noteq> NULL"
    and "elf_segment_list (outside m mem n) elf = Some ps"
    and "ld_elf_data (outside m mem n) elf = Some d"
    and "\<And>p. p \<in> set ps \<Longrightarrow> segment_fits (outside m mem n) d n p"
  shows "\<exists>m'. elfLoaderInstantiate m elf mem = Some (ElfLoaderReturnOK, m') \<and>
    outside m' mem n = outside m mem n \<and> mapped m' mem n \<and>
    (\<lambda>x. m' (mem + x)) = fold (segment_image (\<lambda>y. m (d + y))) ps (\<lambda>x. m (mem + x))"
proof -
  obtain h sz len where segs: "elfSegments (outside m mem n) elf (Some 0) (Some 0) =
      Some (h, Some sz, Some len)" and "h \<noteq> NULL" and "elf \<noteq> NULL"
    and tab: "phdr_table (outside m mem n) h sz len = Some ps"
    using assms(4) by (rule elf_segment_listD)
  have "elfSegments m elf (Some 0) (Some 0) = Some (h, Some sz, Some len)"
    by (rule reads_outside [OF reads_elfSegments segs]) simp
  moreover from instantiate_segments_image [OF assms(1,2,5) tab assms(6)] obtain m' where
    "instantiate_segments elf mem h sz len 0 m = Some m'" "outside m' mem n = outside m mem n"
    "mapped m' mem n"     "(\<lambda>x. m' (mem + x)) = fold (segment_image (\<lambda>y. m (d + y))) ps (\<lambda>x. m (mem + x))"
    by auto
  ultimately show ?thesis
    using \<open>h \<noteq> NULL\<close> \<open>elf \<noteq> NULL\<close> assms(3) by (simp add: elfLoaderInstantiate_def)
qed

text \<open>C2 Instantiating an object with program headers in a mapped target that no read touches
  returns OK, leaves every byte outside the target as it was, and leaves in the target
  exactly the image of its segments: for each segment in table order its file bytes, then zeros up to
  its memory size.\<close>

theorem elfLoaderInstantiate_image:
  assumes "mapped m mem n" and "n \<le> address_space" and "mem \<noteq> NULL"
    and "elf_segment_list (outside m mem n) elf = Some ps"
    and "ld_elf_data (outside m mem n) elf = Some d"
    and "\<And>p. p \<in> set ps \<Longrightarrow> segment_fits (outside m mem n) d n p"
  shows "\<exists>m'. elfLoaderInstantiate m elf mem = Some (ElfLoaderReturnOK, m') \<and>
    outside m' mem n = outside m mem n \<and>
    (\<lambda>x. m' (mem + x)) = fold (segment_image (\<lambda>y. m (d + y))) ps (\<lambda>x. m (mem + x))"
  using elfLoaderInstantiate_segments [OF assms] by blast

section \<open>The image of the sections\<close>

definition section_image :: "(u64 \<Rightarrow> u8 option) \<Rightarrow> Elf64_Shdr \<Rightarrow> (u64 \<Rightarrow> u8 option) \<Rightarrow> u64 \<Rightarrow> u8 option" where
  "section_image file s img = (\<lambda>x.
     if sh_flags s AND SHF_ALLOC \<noteq> 0 \<and> x - sh_addr s < sh_size s
     then file (sh_offset s + (x - sh_addr s)) else img x)"

definition section_fits :: "memory \<Rightarrow> ptr \<Rightarrow> nat \<Rightarrow> Elf64_Shdr \<Rightarrow> bool" where
  "section_fits m d n s \<longleftrightarrow> (sh_flags s AND SHF_ALLOC \<noteq> 0 \<longrightarrow>
     unat (sh_addr s) + unat (sh_size s) \<le> n \<and> mapped m (d + sh_offset s) (unat (sh_size s)))"

lemma instantiate_section_step:
  assumes frame: "outside m mem n = outside m0 mem n" and tgt: "mapped m mem n" "n \<le> address_space"
    and hdr: "shdr_at (outside m0 mem n) s = Some p" and dat: "ld_elf_data (outside m0 mem n) elf = Some d"
    and fits: "section_fits (outside m0 mem n) d n p"
  shows "\<exists>m'. instantiate_section elf mem s m = Some m' \<and> outside m' mem n = outside m0 mem n \<and>
     mapped m' mem n \<and>
     (\<lambda>x. m' (mem + x)) = section_image (\<lambda>y. m0 (d + y)) p (\<lambda>x. m (mem + x))"
proof (cases "sh_flags p AND SHF_ALLOC \<noteq> 0 \<and> sh_size p \<noteq> 0")
  case False
  then show ?thesis
    using frame tgt shdr_atD [OF reads_outside [OF reads_shdr_at hdr frame]]
    by (auto simp: instantiate_section_def section_image_def)
next
  case True
  have src: "mapped (outside m0 mem n) (d + sh_offset p) (unat (sh_size p))"
    and end1: "unat (sh_addr p) + unat (sh_size p) \<le> n"
    using fits True by (auto simp: section_fits_def)
  have "mapped m (d + sh_offset p) (unat (sh_size p))"
    using mapped_le [OF _ src, of m] frame outside_le [of m mem n] by simp
  with mapped_sub [OF tgt(1) end1]
  obtain m1 where m1: "memcpy m (mem + sh_addr p) (d + sh_offset p) (sh_size p) = Some m1"
    using memcpy_mapped by blast
  have "m (d + sh_offset p + (x - sh_addr p)) = m0 (d + sh_offset p + (x - sh_addr p))"
    if "unat (x - sh_addr p) < unat (sh_size p)" for x
    using outside_mapped_eq [OF src frame that] by simp
  then have "(\<lambda>x. m1 (mem + x)) = section_image (\<lambda>y. m0 (d + y)) p (\<lambda>x. m (mem + x))"
    using memcpy_rel [OF m1] True
    by (intro ext) (simp add: section_image_def word_less_nat_alt add.assoc)
  moreover have "instantiate_section elf mem s m = Some m1"
    using True m1 shdr_atD [OF reads_outside [OF reads_shdr_at hdr frame]]
      reads_outside [OF reads_ld_elf_data dat frame]
    by (simp add: instantiate_section_def)
  moreover have "mapped m1 mem n"
    using mapped_cong_dom [OF dom_memcpy [OF m1]] tgt(1) by simp
  ultimately show ?thesis
    using outside_memcpy [OF m1 end1 tgt(2)] frame by simp
qed

lemma instantiate_sections_image:
  assumes tgt: "mapped m0 mem n" "n \<le> address_space"
    and dat: "ld_elf_data (outside m0 mem n) elf = Some d"
    and tab: "shdr_table (outside m0 mem n) h sz len = Some ps"
    and fits: "\<And>p. p \<in> set ps \<Longrightarrow> section_fits (outside m0 mem n) d n p"
  shows "\<exists>m'. instantiate_sections elf mem h sz len 0 m0 = Some m' \<and>
     outside m' mem n = outside m0 mem n \<and> mapped m' mem n \<and>
     (\<lambda>x. m' (mem + x)) = fold (section_image (\<lambda>y. m0 (d + y))) ps (\<lambda>x. m0 (mem + x))"
proof -
  have len: "length ps = unat len"
    and at: "\<And>k. k < length ps \<Longrightarrow> shdr_at (outside m0 mem n) (h + entry_offset (of_nat k) sz) = Some (ps ! k)"
    using tab by (auto simp: shdr_table_conv)
  have "\<exists>m'. fold_opt (\<lambda>k. instantiate_section elf mem (h + entry_offset (of_nat k) sz)) [0..<length ps] m0 =
      Some m' \<and> outside m' mem n = outside m0 mem n \<and> mapped m' mem n \<and>
     (\<lambda>x. m' (mem + x)) = fold (section_image (\<lambda>y. m0 (d + y))) ps (\<lambda>x. m0 (mem + x))"
    using instantiate_section_step [OF _ _ tgt(2) at dat fits] tgt(1) by (intro fold_opt_image) auto
  with len show ?thesis by (simp add: instantiate_sections.loop_fold)
qed

text \<open>C34 An object without program headers is instantiated from its allocated sections, each copied
  from the file for all of its \<open>sh_size\<close> bytes: sections of type \<open>SHT_NOBITS\<close> are not
  cleared but filled with whatever the file holds at their offset.\<close>

theorem elfLoaderInstantiate_sections_image:
  assumes "mapped m mem n" and "n \<le> address_space" and "mem \<noteq> NULL"
    and "elfSegments (outside m mem n) elf (Some 0) (Some 0) = Some (NULL, Some 0, Some 0)"
    and "elf_section_list (outside m mem n) elf = Some ps"
    and "ld_elf_data (outside m mem n) elf = Some d"
    and "\<And>p. p \<in> set ps \<Longrightarrow> section_fits (outside m mem n) d n p"
  shows "\<exists>m'. elfLoaderInstantiate m elf mem = Some (ElfLoaderReturnOK, m') \<and>
    outside m' mem n = outside m mem n \<and>
    (\<lambda>x. m' (mem + x)) = fold (section_image (\<lambda>y. m (d + y))) ps (\<lambda>x. m (mem + x))"
proof -
  obtain h sz len where secs: "elfSections (outside m mem n) elf (Some 0) (Some 0) =
      Some (h, Some sz, Some len)" and "h \<noteq> NULL" and "elf \<noteq> NULL"
    and tab: "shdr_table (outside m mem n) h sz len = Some ps"
    using assms(5) by (rule elf_section_listD)
  have "elfSections m elf (Some 0) (Some 0) = Some (h, Some sz, Some len)"
    by (rule reads_outside [OF reads_elfSections secs]) simp
  moreover have "elfSegments m elf (Some 0) (Some 0) = Some (NULL, Some 0, Some 0)"
    by (rule reads_outside [OF reads_elfSegments assms(4)]) simp
  moreover from instantiate_sections_image [OF assms(1,2,6) tab assms(7)] obtain m' where
    "instantiate_sections elf mem h sz len 0 m = Some m'" "outside m' mem n = outside m mem n"
    "(\<lambda>x. m' (mem + x)) = fold (section_image (\<lambda>y. m (d + y))) ps (\<lambda>x. m (mem + x))"
    by auto
  ultimately show ?thesis
    using \<open>h \<noteq> NULL\<close> \<open>elf \<noteq> NULL\<close> assms(3) by (simp add: elfLoaderInstantiate_def)
qed

section \<open>The meaning of the relocations\<close>

text \<open>
  The relocations of an object, read in the order the loader applies them, with the place of the
  dynamic symbols; and the abstract relocation: each entry replaces eight bytes of the image by a
  value taken relative to the executable or the writable base.
\<close>

definition rela_table :: "memory \<Rightarrow> ptr \<Rightarrow> u16 \<Rightarrow> u16 \<Rightarrow> Elf64_Rela list option" where
  "rela_table m h sz len =
     those (map (\<lambda>k. rela_at m (h + entry_offset (of_nat k) sz)) [0..<unat len])"

definition elf_relocation_list ::
  "literals \<Rightarrow> memory \<Rightarrow> ptr \<Rightarrow> (ptr \<times> u16 \<times> Elf64_Rela list) option" where
  "elf_relocation_list lits m elf = do {
     (ds, dsz, _) \<leftarrow> elfSymbols m elf (lit_dynsym lits) (Some 0) (Some 0);
     (h1, sz1, n1) \<leftarrow> elfAddendRelocations m elf (lit_rela_dyn lits) (Some 0) (Some 0);
     rs1 \<leftarrow> rela_table m h1 (the sz1) (the n1);
     (h2, sz2, n2) \<leftarrow> elfAddendRelocations m elf (lit_rela_plt lits) (Some (the sz1)) (Some 0);
     rs2 \<leftarrow> rela_table m h2 (the sz2) (the n2);
     Some (ds, the dsz, rs1 @ rs2) }"

definition rela_type :: "Elf64_Rela \<Rightarrow> u16" where
  "rela_type r = ucast (ELF64_R_TYPE (r_info r))"

definition rela_symbol :: "Elf64_Rela \<Rightarrow> u16" where
  "rela_symbol r = ucast (ELF64_R_SYM (r_info r))"

definition relocated_value :: "(u16 \<Rightarrow> u64) \<Rightarrow> Elf64_Rela \<Rightarrow> u64 option" where
  "relocated_value symval r =
     (if rela_type r = R_X86_64_RELATIVE then Some (r_addend r)
      else if rela_type r = R_X86_64_64 then Some (symval (rela_symbol r) + r_addend r)
      else if rela_type r = R_X86_64_JMP_SLOT \<or> rela_type r = R_X86_64_GLOB_DAT
        then Some (symval (rela_symbol r))
      else None)"

definition covers :: "u64 \<Rightarrow> Elf64_Phdr \<Rightarrow> bool" where
  "covers a p \<longleftrightarrow> p_paddr p \<le> a \<and> a \<le> p_paddr p + p_memsz p"

definition executable_in :: "Elf64_Phdr list \<Rightarrow> u64 \<Rightarrow> bool" where
  "executable_in ps a =
     (case find (covers a) ps of Some p \<Rightarrow> p_flags p AND PF_X \<noteq> 0 | None \<Rightarrow> True)"

definition put64 :: "memory \<Rightarrow> ptr \<Rightarrow> u64 \<Rightarrow> memory" where
  "put64 m a w = (\<lambda>x. if in_region a 8 x then Some (bytes_of_word 8 w ! unat (x - a)) else m x)"

definition relocation_base :: "ptr \<Rightarrow> ptr \<Rightarrow> Elf64_Phdr list \<Rightarrow> u64 \<Rightarrow> ptr" where
  "relocation_base writable executable ps v = (if executable_in ps v then executable else writable)"

primrec relocate_spec ::
  "ptr \<Rightarrow> ptr \<Rightarrow> Elf64_Phdr list \<Rightarrow> (u16 \<Rightarrow> u64) \<Rightarrow> Elf64_Rela list \<Rightarrow> memory \<Rightarrow> ElfLoaderReturn \<times> memory"
where
  "relocate_spec writable executable ps symval [] m = (ElfLoaderReturnOK, m)"
| "relocate_spec writable executable ps symval (r # rs) m =
     (case relocated_value symval r of
        None \<Rightarrow> (ElfLoaderReturnUnknownRelocation, m)
      | Some v \<Rightarrow> relocate_spec writable executable ps symval rs
          (put64 m (writable + r_offset r) (relocation_base writable executable ps v + v)))"

text \<open>An entry whose slot lies in the target and whose symbol, if it needs one, can be read.\<close>

definition relocation_fits :: "memory \<Rightarrow> ptr \<Rightarrow> u16 \<Rightarrow> nat \<Rightarrow> (u16 \<Rightarrow> u64) \<Rightarrow> Elf64_Rela \<Rightarrow> bool" where
  "relocation_fits m ds dsz n symval r \<longleftrightarrow> unat (r_offset r) + 8 \<le> n \<and>
     (rela_type r \<in> {R_X86_64_64, R_X86_64_JMP_SLOT, R_X86_64_GLOB_DAT} \<longrightarrow>
        ld_st_value m (ds + entry_offset (rela_symbol r) dsz) = Some (symval (rela_symbol r)))"

lemma rela_table_conv:
  "rela_table m h sz len = Some rs \<longleftrightarrow> length rs = unat len \<and>
     (\<forall>k < unat len. rela_at m (h + entry_offset (of_nat k) sz) = Some (rs ! k))"
  by (auto simp: rela_table_def those_eq_Some list_eq_iff_nth_eq)

lemma reads_executable_segments [reads_intro]: "reads (\<lambda>m. executable_segments m h sz len a i)"
proof (induction "unat len - unat i" arbitrary: i rule: less_induct)
  case less
  show ?case
    unfolding executable_segments.simps [of _ h sz len a i] Let_def
    by (intro reads_intro less index_measure)
qed

lemma reads_executable_sections [reads_intro]: "reads (\<lambda>m. executable_sections m h sz len a i)"
proof (induction "unat len - unat i" arbitrary: i rule: less_induct)
  case less
  show ?case
    unfolding executable_sections.simps [of _ h sz len a i] Let_def
    by (intro reads_intro less index_measure)
qed

lemma reads_elfLoaderRelativeAddressIsExecutable [reads_intro]:
  "reads (\<lambda>m. elfLoaderRelativeAddressIsExecutable m elf a)"
  unfolding elfLoaderRelativeAddressIsExecutable_def by (intro reads_intro)

lemma executable_segments_find:
  assumes "phdr_table m h sz len = Some ps"
  shows "executable_segments m h sz len a i = Some
    (case find (covers a) (drop (unat i) ps) of Some p \<Rightarrow> p_flags p AND PF_X | None \<Rightarrow> 1)"
proof (induction "unat len - unat i" arbitrary: i rule: less_induct)
  case less
  have len: "length ps = unat len" using assms by (simp add: phdr_table_conv)
  show ?case
  proof (cases "i < len")
    case True
    then have lt: "unat i < length ps" using len by (simp add: word_less_nat_alt)
    then have p: "phdr_at m (h + entry_offset i sz) = Some (ps ! unat i)"
      using assms len by (auto simp: phdr_table_conv)
    have "drop (unat i) ps = ps ! unat i # drop (Suc (unat i)) ps"
      using lt by (simp add: Cons_nth_drop_Suc)
    with less [OF index_measure [OF True]] True phdr_atD [OF p] show ?thesis
      by (simp add: executable_segments.simps [of m h sz len a i] Let_def covers_def unat_Suc_index [OF True])
  next
    case False
    then show ?thesis
      using len by (simp add: executable_segments.simps [of m h sz len a i] word_less_nat_alt)
  qed
qed

lemma executable_address:
  assumes "elf_segment_list m elf = Some ps"
  shows "\<exists>x. elfLoaderRelativeAddressIsExecutable m elf a = Some x \<and> (x \<noteq> 0) = executable_in ps a"
proof -
  from assms obtain h sz len where "elfSegments m elf (Some 0) (Some 0) = Some (h, Some sz, Some len)"
    and "h \<noteq> NULL" and "elf \<noteq> NULL" and "phdr_table m h sz len = Some ps"
    by (rule elf_segment_listD)
  then show ?thesis
    by (simp add: elfLoaderRelativeAddressIsExecutable_def executable_segments_find executable_in_def
        split: option.split)
qed

lemma relocation_value_at:
  assumes "rela_at m s = Some r" and "relocation_fits m ds dsz n symval r"
  shows "relocation_value m ds dsz s = Some (relocated_value symval r)"
  using assms(2) rela_atD [OF assms(1)]
  by (auto simp: relocation_value_def relocated_value_def relocation_fits_def rela_type_def
      rela_symbol_def)

lemma relocation_fits_le: "m \<subseteq>\<^sub>m m' \<Longrightarrow> relocation_fits m ds dsz n symval r \<Longrightarrow> relocation_fits m' ds dsz n symval r"
  by (auto simp: relocation_fits_def intro: readsD [OF reads_ld_st_value])

lemma store64_put64: "mapped m a 8 \<Longrightarrow> store64 m a w = Some (put64 m a w)"
proof -
  assume "mapped m a 8"
  then obtain m' where m': "store64 m a w = Some m'" using store64_mapped by blast
  from store_bytes_apply [OF m' [unfolded store64_def]] have "m' = put64 m a w"
    by (intro ext) (simp add: put64_def)
  with m' show ?thesis by simp
qed

lemma put64_outside:
  assumes "unat b + 8 \<le> n" and "n \<le> address_space"
  shows "outside (put64 m (a + b) w) a n = outside m a n"
  using in_region_sub [OF _ assms] by (intro outside_eqI) (auto simp: put64_def)

lemma put64_mapped: "mapped m b n \<Longrightarrow> mapped (put64 m a w) b n"
  by (simp add: mapped_def put64_def)

lemma relocate_entry_spec:
  assumes frame: "outside m w n = outside m0 w n" and tgt: "mapped m w n"
    and rela: "rela_at (outside m0 w n) s = Some r"
    and segs: "elf_segment_list (outside m0 w n) elf = Some ps"
    and fits: "relocation_fits (outside m0 w n) ds dsz n symval r"
  shows "relocate_entry elf w x ds dsz s m = Some (relocate_spec w x ps symval [r] m)"
proof -
  have le: "outside m0 w n \<subseteq>\<^sub>m m" using frame outside_le [of m w n] by simp
  have rm: "rela_at m s = Some r" by (rule readsD [OF reads_rela_at rela le])
  have val: "relocation_value m ds dsz s = Some (relocated_value symval r)"
    using rm relocation_fits_le [OF le fits] by (rule relocation_value_at)
  have "elf_segment_list m elf = Some ps" by (rule readsD [OF reads_elf_segment_list segs le])
  then obtain e where e: "\<And>a. elfLoaderRelativeAddressIsExecutable m elf a = Some (e a)"
    "\<And>a. (e a \<noteq> 0) = executable_in ps a"
    using executable_address [of m elf ps] by metis
  have "mapped m (w + r_offset r) 8"
    using fits by (intro mapped_sub [OF tgt]) (simp add: relocation_fits_def)
  then show ?thesis
    using rela_atD [OF rm]
    by (auto simp: relocate_entry_def val e store64_put64 relocation_base_def split: option.split)
qed

text \<open>The image keeps its frame through any number of entries.\<close>

lemma relocate_spec_frame:
  assumes "\<And>r. r \<in> set rs \<Longrightarrow> unat (r_offset r) + 8 \<le> n" and "n \<le> address_space"
    and "mapped m w n" and "relocate_spec w x ps symval rs m = (c, m')"
  shows "outside m' w n = outside m w n \<and> mapped m' w n"
  using assms(1,3,4)
proof (induction rs arbitrary: m)
  case (Cons r rs)
  show ?case
  proof (cases "relocated_value symval r")
    case None
    with Cons.prems show ?thesis by simp
  next
    case (Some v)
    let ?m = "put64 m (w + r_offset r) (relocation_base w x ps v + v)"
    have "outside m' w n = outside ?m w n \<and> mapped m' w n"
      using Cons.prems Some by (intro Cons.IH) (simp_all add: put64_mapped)
    then show ?thesis using put64_outside [of "r_offset r" n m w] Cons.prems(1) assms(2) by simp
  qed
qed simp

lemma relocate_spec_append:
  "relocate_spec w x ps symval (rs1 @ rs2) m =
    (case relocate_spec w x ps symval rs1 m of (c, m') \<Rightarrow>
       if c = ElfLoaderReturnOK then relocate_spec w x ps symval rs2 m' else (c, m'))"
  by (induction rs1 arbitrary: m) (auto split: option.split)

lemma relocate_entries_spec:
  assumes "n \<le> address_space" and tab: "rela_table (outside m0 w n) h sz len = Some rs"
    and segs: "elf_segment_list (outside m0 w n) elf = Some ps"
    and fits: "\<And>r. r \<in> set rs \<Longrightarrow> relocation_fits (outside m0 w n) ds dsz n symval r"
    and "outside m w n = outside m0 w n" and "mapped m w n"
  shows "relocate_entries elf w x ds dsz h sz len i m =
    Some (relocate_spec w x ps symval (drop (unat i) rs) m)"
  using assms(5,6)
proof (induction "unat len - unat i" arbitrary: i m rule: less_induct)
  case less
  have len: "length rs = unat len" using tab by (simp add: rela_table_conv)
  show ?case
  proof (cases "i < len")
    case True
    let ?r = "rs ! unat i"
    have lt: "unat i < length rs" using True len by (simp add: word_less_nat_alt)
    have r: "rela_at (outside m0 w n) (h + entry_offset i sz) = Some ?r"
      using tab lt len by (auto simp: rela_table_conv)
    have fr: "relocation_fits (outside m0 w n) ds dsz n symval ?r" using fits lt by simp
    obtain c m' where one: "relocate_spec w x ps symval [?r] m = (c, m')" by fastforce
    have "outside m' w n = outside m w n \<and> mapped m' w n"
      using relocate_spec_frame [OF _ assms(1) less.prems(2) one] fr by (simp add: relocation_fits_def)
    then have rest: "relocate_entries elf w x ds dsz h sz len (i + 1) m' =
        Some (relocate_spec w x ps symval (drop (Suc (unat i)) rs) m')"
      using less.hyps [OF index_measure [OF True]] less.prems(1)
      by (simp add: unat_Suc_index [OF True])
    have "drop (unat i) rs = [?r] @ drop (Suc (unat i)) rs"
      using lt by (simp add: Cons_nth_drop_Suc)
    then show ?thesis
      using True relocate_entry_spec [OF less.prems r segs fr, of x] one rest
      by (simp only: relocate_entries.simps [of elf w x ds dsz h sz len i m] relocate_spec_append) simp
  next
    case False
    then show ?thesis
      using len by (simp add: relocate_entries.simps [of elf w x ds dsz h sz len i m] word_less_nat_alt)
  qed
qed

lemma elf_relocation_listD:
  assumes "elf_relocation_list lits m elf = Some (ds, dsz, rs)"
  obtains dl h1 sz1 n1 rs1 h2 sz2 n2 rs2 where
    "elfSymbols m elf (lit_dynsym lits) (Some 0) (Some 0) = Some (ds, Some dsz, dl)"
    and "elfAddendRelocations m elf (lit_rela_dyn lits) (Some 0) (Some 0) = Some (h1, Some sz1, Some n1)"
    and "rela_table m h1 sz1 n1 = Some rs1"
    and "elfAddendRelocations m elf (lit_rela_plt lits) (Some sz1) (Some 0) = Some (h2, Some sz2, Some n2)"
    and "rela_table m h2 sz2 n2 = Some rs2" and "rs = rs1 @ rs2"
proof -
  have out: "\<exists>sz' len'. r = (fst r, Some sz', Some len')"
    if "elfAddendRelocations m elf nm (Some a) (Some b) = Some r" for nm a b r
    using that by (auto simp: elfAddendRelocations_def Some_bind_conv split: if_splits)
  have outs: "\<exists>sz'. r = (fst r, Some sz', snd (snd r))"
    if "elfSymbols m elf nm (Some a) (Some b) = Some r" for nm a b r
    using that by (auto simp: elfSymbols_def Some_bind_conv split: if_splits)
  from assms obtain dsz0 dl h1 s1 l1 rs1 h2 s2 l2 rs2 where
    ds: "elfSymbols m elf (lit_dynsym lits) (Some 0) (Some 0) = Some (ds, dsz0, dl)" "dsz = the dsz0"
    and r1: "elfAddendRelocations m elf (lit_rela_dyn lits) (Some 0) (Some 0) = Some (h1, s1, l1)"
    and t1: "rela_table m h1 (the s1) (the l1) = Some rs1"
    and r2: "elfAddendRelocations m elf (lit_rela_plt lits) (Some (the s1)) (Some 0) = Some (h2, s2, l2)"
    and t2: "rela_table m h2 (the s2) (the l2) = Some rs2" and "rs = rs1 @ rs2"
    by (auto simp: elf_relocation_list_def Some_bind_conv)
  then show ?thesis
    using that [of dl h1 "the s1" "the l1" rs1 h2 "the s2" "the l2" rs2]
      outs [OF ds(1)] out [OF r1] out [OF r2] by auto
qed

lemma elfLoaderRelocate_spec:
  assumes "mapped m w n" and "n \<le> address_space" and "w \<noteq> NULL" and "x \<noteq> NULL"
    and segs: "elf_segment_list (outside m w n) elf = Some ps"
    and rel: "elf_relocation_list lits (outside m w n) elf = Some (ds, dsz, rs)"
    and fits: "\<And>r. r \<in> set rs \<Longrightarrow> relocation_fits (outside m w n) ds dsz n symval r"
  shows "elfLoaderRelocate lits m elf w x = Some (relocate_spec w x ps symval rs m)"
proof -
  obtain dl h1 sz1 n1 rs1 h2 sz2 n2 rs2 where
    ds: "elfSymbols (outside m w n) elf (lit_dynsym lits) (Some 0) (Some 0) = Some (ds, Some dsz, dl)"
    and r1: "elfAddendRelocations (outside m w n) elf (lit_rela_dyn lits) (Some 0) (Some 0) =
      Some (h1, Some sz1, Some n1)" and t1: "rela_table (outside m w n) h1 sz1 n1 = Some rs1"
    and r2: "elfAddendRelocations (outside m w n) elf (lit_rela_plt lits) (Some sz1) (Some 0) =
      Some (h2, Some sz2, Some n2)" and t2: "rela_table (outside m w n) h2 sz2 n2 = Some rs2"
    and rs: "rs = rs1 @ rs2"
    using rel by (rule elf_relocation_listD)
  obtain c m' where one: "relocate_spec w x ps symval rs1 m = (c, m')" by fastforce
  have frame: "outside m' w n = outside m w n" and tgt: "mapped m' w n"
    using relocate_spec_frame [OF _ assms(2,1) one] fits rs by (auto simp: relocation_fits_def)
  have e1: "relocate_entries elf w x ds dsz h1 sz1 n1 0 m = Some (c, m')"
    using relocate_entries_spec [OF assms(2) t1 segs _ _ assms(1), of ds dsz symval x 0] fits rs one
    by simp
  have e2: "relocate_entries elf w x ds dsz h2 sz2 n2 0 m' = Some (relocate_spec w x ps symval rs2 m')"
    using relocate_entries_spec [OF assms(2) t2 segs _ frame tgt, of ds dsz symval x 0] fits rs
    by simp
  obtain c2 m2 where two: "relocate_spec w x ps symval rs2 m' = (c2, m2)" by fastforce
  have "elf \<noteq> NULL" using segs by (rule elf_segment_listD)
  moreover have "elfSymbols m elf (lit_dynsym lits) (Some 0) (Some 0) = Some (ds, Some dsz, dl)"
    by (rule reads_outside [OF reads_elfSymbols ds]) simp
  moreover have "elfAddendRelocations m elf (lit_rela_dyn lits) (Some 0) (Some 0) =
      Some (h1, Some sz1, Some n1)"
    by (rule reads_outside [OF reads_elfAddendRelocations r1]) simp
  moreover have "elfAddendRelocations m' elf (lit_rela_plt lits) (Some sz1) (Some 0) =
      Some (h2, Some sz2, Some n2)"
    by (rule reads_outside [OF reads_elfAddendRelocations r2 frame])
  ultimately show ?thesis
    using assms(3,4) one two e1 e2 by (simp add: elfLoaderRelocate_def rs relocate_spec_append)
qed

text \<open>C3 Relocating an object in a mapped target that no lookup touches is exactly the abstract
  relocation over the entries of \<open>.rela.dyn\<close> followed by those of \<open>.rela.plt\<close>: every
  entry of a known type puts its base plus its value in its slot, the first entry of an unknown type
  stops the loop with an error after the slots before it were written, and it never faults.\<close>

theorem elfLoaderRelocate_refines:
  assumes "mapped m w n" and "n \<le> address_space" and "w \<noteq> NULL" and "x \<noteq> NULL"
    and "elf_segment_list (outside m w n) elf = Some ps"
    and "elf_relocation_list lits (outside m w n) elf = Some (ds, dsz, rs)"
    and "\<And>r. r \<in> set rs \<Longrightarrow> relocation_fits (outside m w n) ds dsz n symval r"
  shows "elfLoaderRelocate lits m elf w x = Some (relocate_spec w x ps symval rs m)"
  by (rule elfLoaderRelocate_spec [OF assms])

lemma load64_put64_same: "load64 (put64 m a w) a = Some w"
proof -
  have "in_region a 8 (a + of_nat i)" if "i < 8" for i using that by (intro in_region_offset) simp_all
  then have "load_bytes (put64 m a w) a 8 = Some (bytes_of_word 8 w)"
    by (auto simp: load_bytes_conv put64_def unat_of_nat)
  then show ?thesis by (simp add: load64_def word_of_bytes_of_word take_bit_word_eq_self)
qed

lemma load64_put64_other:
  "\<lbrakk>\<And>y. in_region b 8 y \<Longrightarrow> \<not> in_region a 8 y\<rbrakk> \<Longrightarrow> load64 (put64 m a w) b = load64 m b"
  unfolding load64_def by (subst load_bytes_cong [of b 8 "put64 m a w" m]) (auto simp: put64_def)

text \<open>Slots of two entries that share no byte.\<close>

definition slots_apart :: "Elf64_Rela \<Rightarrow> Elf64_Rela \<Rightarrow> bool" where
  "slots_apart r s \<longleftrightarrow>
     unat (r_offset r) + 8 \<le> unat (r_offset s) \<or> unat (r_offset s) + 8 \<le> unat (r_offset r)"

lemma slots_apart_regions:
  assumes "slots_apart r s" and "unat (r_offset r) + 8 \<le> address_space"
    and "unat (r_offset s) + 8 \<le> address_space" and "in_region (w + r_offset r) 8 y"
  shows "\<not> in_region (w + r_offset s) 8 y"
proof -
  have shift: "in_region (w + a) 8 y \<longleftrightarrow> in_region a 8 (y - w)" for a :: u64
    by (simp add: in_region_def diff_diff_eq)
  show ?thesis
    using assms unfolding shift by (auto simp: in_region_unat slots_apart_def)
qed

lemma relocate_spec_keeps:
  assumes "\<And>s. s \<in> set rs \<Longrightarrow> slots_apart r s \<and> unat (r_offset s) + 8 \<le> address_space"
    and "unat (r_offset r) + 8 \<le> address_space"
  shows "load64 (snd (relocate_spec w x ps symval rs m)) (w + r_offset r) = load64 m (w + r_offset r)"
  using assms(1)
proof (induction rs arbitrary: m)
  case (Cons s rs)
  have "load64 (put64 m (w + r_offset s) v) (w + r_offset r) = load64 m (w + r_offset r)" for v
    using slots_apart_regions [of r s] Cons.prems assms(2) by (intro load64_put64_other) auto
  with Cons show ?case by (simp split: option.split)
qed simp

lemma relocate_spec_ok:
  "(\<And>r. r \<in> set rs \<Longrightarrow> relocated_value symval r \<noteq> None) \<Longrightarrow>
     fst (relocate_spec w x ps symval rs m) = ElfLoaderReturnOK"
  by (induction rs arbitrary: m) (auto split: option.splits)

lemma relocate_spec_slot:
  assumes "rs = xs @ r # ys" and "relocated_value symval r = Some v"
    and known: "\<And>s. s \<in> set xs \<Longrightarrow> relocated_value symval s \<noteq> None"
    and "\<And>s. s \<in> set ys \<Longrightarrow> slots_apart r s \<and> unat (r_offset s) + 8 \<le> address_space"
    and "unat (r_offset r) + 8 \<le> address_space"
  shows "load64 (snd (relocate_spec w x ps symval rs m)) (w + r_offset r) =
    Some (relocation_base w x ps v + v)"
proof -
  obtain m' where "relocate_spec w x ps symval xs m = (ElfLoaderReturnOK, m')"
    using relocate_spec_ok [OF known, of xs w x ps m] by (metis prod.collapse)
  then show ?thesis
    using assms(1,2) relocate_spec_keeps [OF assms(4,5)]
    by (simp add: relocate_spec_append load64_put64_same)
qed

text \<open>C4 When every relocation has a known type, relocating returns OK, changes nothing outside
  the target, and leaves in the slot of each entry that no later entry overlaps the base (the
  executable one exactly when the first segment covering the value is executable, or none covers it)
  plus the value of its type: the addend, symbol plus addend, or the symbol.\<close>

theorem elfLoaderRelocate_slot:
  assumes "mapped m w n" and "n \<le> address_space" and "w \<noteq> NULL" and "x \<noteq> NULL"
    and "elf_segment_list (outside m w n) elf = Some ps"
    and "elf_relocation_list lits (outside m w n) elf = Some (ds, dsz, xs @ r # ys)"
    and "\<And>s. s \<in> set (xs @ r # ys) \<Longrightarrow> relocation_fits (outside m w n) ds dsz n symval s"
    and "\<And>s. s \<in> set (xs @ r # ys) \<Longrightarrow> relocated_value symval s \<noteq> None"
    and "\<And>s. s \<in> set ys \<Longrightarrow> slots_apart r s"
  shows "\<exists>m' v. elfLoaderRelocate lits m elf w x = Some (ElfLoaderReturnOK, m') \<and>
    outside m' w n = outside m w n \<and> relocated_value symval r = Some v \<and>
    load64 m' (w + r_offset r) = Some ((if executable_in ps v then x else w) + v)"
proof -
  let ?rs = "xs @ r # ys"
  obtain c m' where spec: "relocate_spec w x ps symval ?rs m = (c, m')" by fastforce
  have off: "unat (r_offset s) + 8 \<le> n" if "s \<in> set ?rs" for s
    using assms(7) [OF that] by (simp add: relocation_fits_def)
  obtain v where v: "relocated_value symval r = Some v" using assms(8) [of r] by auto
  have "c = ElfLoaderReturnOK"
    using relocate_spec_ok [of ?rs symval w x ps m] assms(8) spec by fastforce
  moreover have "load64 m' (w + r_offset r) = Some (relocation_base w x ps v + v)"
    using relocate_spec_slot [OF refl v, of xs ys w x ps m] assms(2,8,9) off spec by fastforce
  moreover have "outside m' w n = outside m w n"
    using relocate_spec_frame [OF off assms(2,1) spec] by simp
  ultimately show ?thesis
    using elfLoaderRelocate_spec [OF assms(1-7)] spec v by (simp add: relocation_base_def)
qed

section \<open>Loading\<close>

text \<open>A header the loader accepts.\<close>

definition loadable_header :: "Elf64_Ehdr \<Rightarrow> bool" where
  "loadable_header h \<longleftrightarrow>
     take 4 (e_ident h) = [ELFMAG0, ELFMAG1, ELFMAG2, ELFMAG3] \<and>
     e_ident h ! 4 = ELFCLASS64 \<and> e_ident h ! 5 = ELFDATA2LSB \<and> e_ident h ! 6 = EV_CURRENT \<and>
     e_ident h ! 7 \<in> {ELFOSABI_SYSV, ELFOSABI_FREEBSD} \<and>
     e_type h = ET_DYN \<and> e_phoff h \<noteq> 0 \<and> e_shoff h \<noteq> 0 \<and>
     e_machine h = EM_X86_64 \<and> e_version h = EV_CURRENT"

lemma ehdr_ident_byte:
  assumes "ehdr_at m d = Some eh" and "k < 16"
  shows "load8 m (d + of_nat k) = Some (e_ident eh ! k)"
  using ehdr_atD(1) [OF assms(1)] assms(2) by (simp add: ld_e_ident_def load_bytes_conv load8_def)

lemma ehdr_ident_length: "ehdr_at m d = Some eh \<Longrightarrow> length (e_ident eh) = 16"
  by (drule ehdr_atD(1)) (simp add: ld_e_ident_def load_bytes_conv)

lemma take_4_eq: "4 \<le> length xs \<Longrightarrow> take 4 xs = [a, b, c, d] \<longleftrightarrow>
    xs ! 0 = a \<and> xs ! 1 = b \<and> xs ! 2 = c \<and> xs ! 3 = d"
  by (auto simp: list_eq_iff_nth_eq less_Suc_eq numeral_eq_Suc)

lemma and_then_Some [simp]: "and_then (Some a) (Some b) = Some (a \<and> b)"
  by (simp add: and_then_def)

lemma elfLoaderIsLoadable_header:
  assumes "elf \<noteq> NULL" and "ld_elf_data m elf = Some d" and "ehdr_at m d = Some eh"
  shows "elfLoaderIsLoadable m elf = Some (loadable_header eh)"
proof -
  have b: "load8 m d = Some (e_ident eh ! 0)" "load8 m (d + 1) = Some (e_ident eh ! 1)"
    "load8 m (d + 2) = Some (e_ident eh ! 2)" "load8 m (d + 3) = Some (e_ident eh ! 3)"
    "load8 m (d + 4) = Some (e_ident eh ! 4)" "load8 m (d + 5) = Some (e_ident eh ! 5)"
    "load8 m (d + 6) = Some (e_ident eh ! 6)" "load8 m (d + 7) = Some (e_ident eh ! 7)"
    using ehdr_ident_byte [OF assms(3), of 0] ehdr_ident_byte [OF assms(3), of 1]
      ehdr_ident_byte [OF assms(3), of 2] ehdr_ident_byte [OF assms(3), of 3]
      ehdr_ident_byte [OF assms(3), of 4] ehdr_ident_byte [OF assms(3), of 5]
      ehdr_ident_byte [OF assms(3), of 6] ehdr_ident_byte [OF assms(3), of 7]
    by simp_all
  have is_elf: "elfIsElf m elf = Some (take 4 (e_ident eh) = [ELFMAG0, ELFMAG1, ELFMAG2, ELFMAG3])"
    using assms(1,2) ehdr_ident_length [OF assms(3)]
    by (simp add: elfIsElf_def elfHeader_def IS_ELF_def b take_4_eq)
  show ?thesis
    using assms(1,2) ehdr_atD [OF assms(3)]
    by (simp add: elfLoaderIsLoadable_def is_elf elfHeader_def elfClass_def elfEncoding_def elfVersion_def
        elfABI_def elf_ident_byte_def b loadable_header_def)
qed

text \<open>An object is loadable exactly when its header has the ELF magic, class 64, little-endian
  data, the current version, a System V or FreeBSD ABI, type \<open>ET_DYN\<close>, machine x86-64, and
  both tables; the test reads only the handle and the header.\<close>

lemma elfLoaderIsLoadable_iff:
  assumes "elf \<noteq> NULL" and "ld_elf_data m elf = Some d" and "ehdr_at m d = Some eh"
  shows "elfLoaderIsLoadable m elf = Some (loadable_header eh)"
  by (rule elfLoaderIsLoadable_header [OF assms])

text \<open>C33 Loading checks its arguments in order (handle, writable memory, executable memory,
  loadable header) and reports the first that fails with its own code and with memory untouched.\<close>

theorem elfLoaderLoad_rejects:
  assumes "elf \<noteq> NULL \<longrightarrow> ld_elf_data m elf = Some d \<and> ehdr_at m d = Some eh"
    and "elf = NULL \<or> w = NULL \<or> x = NULL \<or> \<not> loadable_header eh"
  shows "elfLoaderLoad lits m elf w x = Some
    (if elf = NULL then ElfLoaderReturnElfNull
     else if w = NULL then ElfLoaderReturnWritableMemoryNull
     else if x = NULL then ElfLoaderReturnExecutableMemoryNull
     else ElfLoaderReturnIsNotLoadable, m)"
  using assms elfLoaderIsLoadable_header [of elf m d eh] by (auto simp: elfLoaderLoad_def)

lemma fst_relocate_spec:
  "fst (relocate_spec w x ps symval rs m) \<in> {ElfLoaderReturnOK, ElfLoaderReturnUnknownRelocation}"
  by (induction rs arbitrary: m) (auto split: option.split)

text \<open>C1 Loading an accepted object whose reads stay clear of a mapped target first builds the image
  of its segments and then relocates exactly that image: the result is the abstract relocation of
  the abstract image, nothing outside the target changes, and the return code is OK or the unknown
  relocation error.\<close>

theorem elfLoaderLoad_image:
  assumes "mapped m w n" and "n \<le> address_space" and "w \<noteq> NULL" and "x \<noteq> NULL"
    and "elf_segment_list (outside m w n) elf = Some ps"
    and "ld_elf_data (outside m w n) elf = Some d"
    and "ehdr_at (outside m w n) d = Some eh" and "loadable_header eh"
    and "\<And>p. p \<in> set ps \<Longrightarrow> segment_fits (outside m w n) d n p"
    and "elf_relocation_list lits (outside m w n) elf = Some (ds, dsz, rs)"
    and "\<And>r. r \<in> set rs \<Longrightarrow> relocation_fits (outside m w n) ds dsz n symval r"
  shows "\<exists>m1 c m2. (\<lambda>y. m1 (w + y)) = fold (segment_image (\<lambda>y. m (d + y))) ps (\<lambda>y. m (w + y)) \<and>
    outside m1 w n = outside m w n \<and>
    relocate_spec w x ps symval rs m1 = (c, m2) \<and>
    elfLoaderLoad lits m elf w x = Some (c, m2) \<and>
    outside m2 w n = outside m w n \<and>
    c \<in> {ElfLoaderReturnOK, ElfLoaderReturnUnknownRelocation}"
proof -
  have elf: "elf \<noteq> NULL" using assms(5) by (rule elf_segment_listD)
  obtain m1 where m1: "elfLoaderInstantiate m elf w = Some (ElfLoaderReturnOK, m1)"
    "outside m1 w n = outside m w n" "mapped m1 w n"
    "(\<lambda>y. m1 (w + y)) = fold (segment_image (\<lambda>y. m (d + y))) ps (\<lambda>y. m (w + y))"
    using elfLoaderInstantiate_segments [OF assms(1-3,5,6,9)] by blast
  obtain c m2 where spec: "relocate_spec w x ps symval rs m1 = (c, m2)" by fastforce
  have "ld_elf_data m elf = Some d" and "ehdr_at m d = Some eh"
    using readsD [OF reads_ld_elf_data assms(6) outside_le] readsD [OF reads_ehdr_at assms(7) outside_le]
    by auto
  then have "elfLoaderIsLoadable m elf = Some True"
    using elfLoaderIsLoadable_header [OF elf] assms(8) by simp
  moreover have "elfLoaderRelocate lits m1 elf w x = Some (c, m2)"
    using elfLoaderRelocate_spec [OF m1(3) assms(2-4), of elf ps lits ds dsz rs symval] assms(5,10,11)
    by (simp add: m1(2) spec)
  moreover have "outside m2 w n = outside m1 w n"
    using relocate_spec_frame [OF _ assms(2) m1(3) spec] assms(11) by (auto simp: relocation_fits_def)
  ultimately show ?thesis
    using m1 elf assms(3,4) fst_relocate_spec [of w x ps symval rs m1] spec
    by (auto simp: elfLoaderLoad_def)
qed

end
