(* ===== verification/Elf_Lifecycle.thy ===== *)
theory Elf_Lifecycle
  imports Elf_Object
begin

text \<open>
  Creation and destruction of \<open>Elf\<close> handles in \<open>source/ps4/elfloader.c\<close>.  The C library's
  \<open>malloc\<close> and \<open>free\<close> are parameters: \<open>malloc m n\<close> is the block address with the memory
  after the call, \<open>free m p\<close> the memory after the release.
\<close>

type_synonym malloc_fn = "memory \<Rightarrow> u64 \<Rightarrow> ptr \<times> memory"
type_synonym free_fn = "memory \<Rightarrow> ptr \<Rightarrow> memory"

definition store_elf :: "memory \<Rightarrow> ptr \<Rightarrow> ptr \<Rightarrow> u64 \<Rightarrow> memory option" where
  "store_elf m elf data sz = do { m1 \<leftarrow> store64 m elf data; store64 m1 (elf + 8) sz }"

text \<open>The temporary \<open>t\<close> lives on the stack and is only used for the test of the magic, which
  reads \<open>t.data\<close>.  The result of \<open>malloc\<close> is not tested.\<close>

definition elfCreate :: "malloc_fn \<Rightarrow> memory \<Rightarrow> ptr \<Rightarrow> u64 \<Rightarrow> (ptr \<times> memory) option" where
  "elfCreate malloc m data sz =
     (if data = NULL then Some (NULL, m) else do {
        is \<leftarrow> IS_ELF m data;
        if \<not> is then Some (NULL, m) else do {
          let (elf, m1) = malloc m 16;
          m2 \<leftarrow> store_elf m1 elf data sz;
          Some (elf, m2) }})"

definition elfCreateLocal :: "memory \<Rightarrow> ptr \<Rightarrow> ptr \<Rightarrow> u64 \<Rightarrow> (ptr \<times> memory) option" where
  "elfCreateLocal m elfl data sz =
     (if elfl = NULL \<or> data = NULL then Some (NULL, m) else do {
        is \<leftarrow> IS_ELF m data;
        if \<not> is then Some (NULL, m) else do {
          m1 \<leftarrow> store_elf m elfl data sz;
          Some (elfl, m1) }})"

definition elfCreateLocalUnchecked :: "memory \<Rightarrow> ptr \<Rightarrow> ptr \<Rightarrow> u64 \<Rightarrow> (ptr \<times> memory) option" where
  "elfCreateLocalUnchecked m elfl data sz =
     (if elfl = NULL \<or> data = NULL then Some (NULL, m) else do {
        m1 \<leftarrow> store_elf m elfl data sz;
        Some (elfl, m1) })"

definition elfDestroy :: "free_fn \<Rightarrow> memory \<Rightarrow> ptr \<Rightarrow> (ptr \<times> memory) option" where
  "elfDestroy free m elf =
     (if elf = NULL then Some (NULL, m) else do {
        data \<leftarrow> ld_elf_data m elf;
        Some (data, free m elf) })"

definition elfDestroyAndFree :: "free_fn \<Rightarrow> memory \<Rightarrow> ptr \<Rightarrow> memory option" where
  "elfDestroyAndFree free m elf =
     (if elf = NULL then Some m else do {
        (d, m1) \<leftarrow> elfDestroy free m elf;
        if d \<noteq> NULL then Some (free m1 d) else Some m1 })"

section \<open>What a created handle holds\<close>

lemma in_region_halves:
  "in_region (a + 8) 8 x \<longleftrightarrow> \<not> in_region a 8 x \<and> in_region a 16 x"
  using in_region_unat [of 8 8 "x - a"] by (auto simp: in_region_def diff_diff_eq)

lemma store_elf_total:
  assumes "mapped m elf 16"
  shows "\<exists>m'. store_elf m elf data sz = Some m' \<and> dom m' = dom m"
proof -
  have "mapped m (elf + 0) 8" by (rule mapped_sub [OF assms]) simp
  then obtain m1 where m1: "store64 m elf data = Some m1" using store64_mapped [of m elf data] by auto
  have "mapped m1 elf 16" using mapped_cong_dom [OF dom_store64 [OF m1]] assms by simp
  then have "mapped m1 (elf + 8) 8" by (rule mapped_sub) simp
  then obtain m2 where m2: "store64 m1 (elf + 8) sz = Some m2" using store64_mapped [of m1 "elf + 8" sz] by auto
  show ?thesis using m1 m2 dom_store64 [OF m1] dom_store64 [OF m2] by (simp add: store_elf_def)
qed

lemma store64_apply:
  assumes "store64 m a w = Some m'"
  shows "m' x = (if in_region a 8 x then Some (bytes_of_word 8 w ! unat (x - a)) else m x)"
  using store_bytes_apply [OF assms [unfolded store64_def]] by simp

lemma store_elf_spec:
  assumes "store_elf m elf data sz = Some m'"
  shows "ld_elf_data m' elf = Some data" and "ld_elf_size m' elf = Some sz"
    and "outside m' elf 16 = outside m elf 16"
proof -
  from assms obtain m1 where m1: "store64 m elf data = Some m1" and m2: "store64 m1 (elf + 8) sz = Some m'"
    by (auto simp: store_elf_def Some_bind_conv)
  show "ld_elf_size m' elf = Some sz" using load64_store64_same [OF m2] by (simp add: ld_elf_size_def)
  have "load64 m' elf = load64 m1 elf"
    unfolding load64_def
    by (subst load_bytes_cong [of elf 8 m' m1]) (auto simp: store64_apply [OF m2] in_region_halves)
  then show "ld_elf_data m' elf = Some data"
    using load64_store64_same [OF m1] by (simp add: ld_elf_data_def)
  show "outside m' elf 16 = outside m elf 16"
  proof (rule outside_eqI)
    fix x assume "\<not> in_region elf 16 x"
    then have "\<not> in_region elf 8 x" and "\<not> in_region (elf + 8) 8 x"
      unfolding in_region_halves by (auto simp: in_region_def)
    then show "m' x = m x" by (simp add: store64_apply [OF m1] store64_apply [OF m2])
  qed
qed

text \<open>What the library expects of \<open>malloc\<close>: the block is mapped, and what was mapped before keeps
  its contents and is not part of the block.\<close>

definition malloc_ok :: "malloc_fn \<Rightarrow> memory \<Rightarrow> u64 \<Rightarrow> bool" where
  "malloc_ok malloc m n \<longleftrightarrow> (case malloc m n of (p, m') \<Rightarrow>
     p \<noteq> NULL \<and> mapped m' p (unat n) \<and>
     (\<forall>x. m x \<noteq> None \<longrightarrow> m' x = m x \<and> \<not> in_region p (unat n) x))"

text \<open>When \<open>malloc\<close> delivers, creating a handle for data with the ELF magic returns a
  non-null handle that holds the data pointer and the size and leaves all older memory as it was, and
  destroying that handle gives the data pointer back.\<close>

lemma elfCreate_elfDestroy:
  assumes "data \<noteq> NULL" and "IS_ELF m data = Some True" and "malloc_ok malloc m 16"
  shows "\<exists>elf m'. elfCreate malloc m data sz = Some (elf, m') \<and> elf \<noteq> NULL \<and>
    ld_elf_data m' elf = Some data \<and> ld_elf_size m' elf = Some sz \<and> m \<subseteq>\<^sub>m m' \<and>
    elfDestroy free m' elf = Some (data, free m' elf)"
proof -
  obtain elf m1 where p: "malloc m 16 = (elf, m1)" by fastforce
  have elf: "elf \<noteq> NULL" and "mapped m1 elf 16"
    and old: "\<And>x. m x \<noteq> None \<Longrightarrow> m1 x = m x \<and> \<not> in_region elf 16 x"
    using assms(3) p by (auto simp: malloc_ok_def)
  then obtain m2 where m2: "store_elf m1 elf data sz = Some m2" using store_elf_total by blast
  note spec = store_elf_spec [OF m2]
  have "m \<subseteq>\<^sub>m m2"
    unfolding map_le_def by (metis domIff old outside_eqD spec(3))
  then show ?thesis
    using assms(1,2) p m2 spec(1,2) elf by (auto simp: elfCreate_def elfDestroy_def)
qed

text \<open>A caller-supplied handle is filled only for non-null arguments and, in the checked
  variant, data with the ELF magic; every other call returns \<open>NULL\<close> and leaves memory as it was.
  A filled handle holds its two fields and nothing outside its sixteen bytes changes.\<close>

lemma elfCreateLocal_spec:
  assumes "mapped m elfl 16" and "IS_ELF m data = Some is"
  shows "\<exists>r m'. elfCreateLocal m elfl data sz = Some (r, m') \<and>
    outside m' elfl 16 = outside m elfl 16 \<and>
    (if elfl = NULL \<or> data = NULL \<or> \<not> is then r = NULL \<and> m' = m
     else r = elfl \<and> ld_elf_data m' r = Some data \<and> ld_elf_size m' r = Some sz \<and>
       elfCreateLocalUnchecked m elfl data sz = Some (r, m'))"
proof -
  obtain m' where m': "store_elf m elfl data sz = Some m'" using store_elf_total [OF assms(1)] by blast
  show ?thesis
    using assms(2) m' store_elf_spec [OF m']
    by (auto simp: elfCreateLocal_def elfCreateLocalUnchecked_def)
qed

end
