(* ===== verification/Elf_Sample.thy ===== *)
theory Elf_Sample
  imports Elf_Loader Elf_Lifecycle
begin

text \<open>
  A small shared object, laid out byte by byte as a linker would, and the concrete instances of the
  theorems about objects and the loader on it: two loadable segments (one executable, one
  writable with a zero tail), four sections, two symbols and two relocations, the handle in front
  of the file and the target memory behind it.
\<close>

section \<open>The object\<close>

definition str_dynsym :: "u8 list" where
  "str_dynsym = [0x2e, 0x64, 0x79, 0x6e, 0x73, 0x79, 0x6d]"
definition str_rela_dyn :: "u8 list" where
  "str_rela_dyn = [0x2e, 0x72, 0x65, 0x6c, 0x61, 0x2e, 0x64, 0x79, 0x6e]"
definition str_rela_plt :: "u8 list" where
  "str_rela_plt = [0x2e, 0x72, 0x65, 0x6c, 0x61, 0x2e, 0x70, 0x6c, 0x74]"
definition str_shstrtab :: "u8 list" where
  "str_shstrtab = [0x2e, 0x73, 0x68, 0x73, 0x74, 0x72, 0x74, 0x61, 0x62]"

definition sample_ehdr :: Elf64_Ehdr where
  "sample_ehdr = \<lparr>e_ident = [0x7f, 0x45, 0x4c, 0x46, 2, 1, 1, 9, 0, 0, 0, 0, 0, 0, 0, 0],
     e_type = 3, e_machine = 62, e_version = 1, e_entry = 4, e_phoff = 64, e_shoff = 176,
     e_flags = 0, e_ehsize = 64, e_phentsize = 56, e_phnum = 2, e_shentsize = 64, e_shnum = 4,
     e_shstrndx = 3\<rparr>"

definition sample_text :: Elf64_Phdr where
  "sample_text = \<lparr>p_type = 1, p_flags = 5, p_offset = 557, p_vaddr = 0, p_paddr = 0,
     p_filesz = 8, p_memsz = 8, p_align = 16\<rparr>"

definition sample_data :: Elf64_Phdr where
  "sample_data = \<lparr>p_type = 1, p_flags = 6, p_offset = 565, p_vaddr = 16, p_paddr = 16,
     p_filesz = 8, p_memsz = 16, p_align = 4096\<rparr>"

definition shdr_null :: Elf64_Shdr where
  "shdr_null = \<lparr>sh_name = 0, sh_type = 0, sh_flags = 0, sh_addr = 0, sh_offset = 0, sh_size = 0,
     sh_link = 0, sh_info = 0, sh_addralign = 0, sh_entsize = 0\<rparr>"

definition shdr_dynsym :: Elf64_Shdr where
  "shdr_dynsym = \<lparr>sh_name = 1, sh_type = 11, sh_flags = 2, sh_addr = 0, sh_offset = 432, sh_size = 48,
     sh_link = 0, sh_info = 0, sh_addralign = 8, sh_entsize = 24\<rparr>"

definition shdr_rela_dyn :: Elf64_Shdr where
  "shdr_rela_dyn = \<lparr>sh_name = 9, sh_type = 4, sh_flags = 2, sh_addr = 0, sh_offset = 480, sh_size = 48,
     sh_link = 1, sh_info = 0, sh_addralign = 8, sh_entsize = 24\<rparr>"

definition shdr_shstrtab :: Elf64_Shdr where
  "shdr_shstrtab = \<lparr>sh_name = 19, sh_type = 3, sh_flags = 0, sh_addr = 0, sh_offset = 528, sh_size = 29,
     sh_link = 0, sh_info = 0, sh_addralign = 1, sh_entsize = 0\<rparr>"

definition sym_null :: Elf64_Sym where
  "sym_null = \<lparr>st_name = 0, st_info = 0, st_other = 0, st_shndx = 0, st_value = 0, st_size = 0\<rparr>"

definition sym_entry :: Elf64_Sym where
  "sym_entry = \<lparr>st_name = 1, st_info = 0x12, st_other = 0, st_shndx = 1, st_value = 4, st_size = 4\<rparr>"

definition rela_entry :: Elf64_Rela where
  "rela_entry = \<lparr>r_offset = 16, r_info = 0x100000001, r_addend = 2\<rparr>"

definition rela_local :: Elf64_Rela where
  "rela_local = \<lparr>r_offset = 24, r_info = 8, r_addend = 20\<rparr>"

definition sample_strtab :: "u8 list" where
  "sample_strtab = [0] @ (str_dynsym @ [0]) @ (str_rela_dyn @ [0]) @ (str_shstrtab @ [0])"

definition sample_handle :: "u8 list" where
  "sample_handle = bytes_of_word 8 (0x1010 :: u64) @ bytes_of_word 8 (573 :: u64)"

definition sample_file :: "u8 list" where
  "sample_file = ehdr_bytes sample_ehdr @ phdr_bytes sample_text @ phdr_bytes sample_data @
     shdr_bytes shdr_null @ shdr_bytes shdr_dynsym @ shdr_bytes shdr_rela_dyn @ shdr_bytes shdr_shstrtab @
     sym_bytes sym_null @ sym_bytes sym_entry @ rela_bytes rela_entry @ rela_bytes rela_local @
     sample_strtab @ [1, 2, 3, 4, 5, 6, 7, 8] @ [11, 12, 13, 14, 15, 16, 17, 18]"

definition sample_inputs :: "u8 list" where
  "sample_inputs = sample_handle @ sample_file @
     (str_dynsym @ [0]) @ (str_rela_dyn @ [0]) @ (str_rela_plt @ [0])"

text \<open>Memory with the inputs alone, and with 32 bytes of target behind them.\<close>

definition sample_rom :: memory where
  "sample_rom = memory_at 0x1000 sample_inputs"

definition sample_mem :: memory where
  "sample_mem = memory_at 0x1000 (sample_inputs @ replicate 32 0xff)"

abbreviation (input) sample_elf :: ptr where "sample_elf \<equiv> 0x1000"
abbreviation (input) sample_target :: ptr where "sample_target \<equiv> 0x1269"

definition sample_literals :: literals where
  "sample_literals = \<lparr>lit_dynsym = 0x124d, lit_rela_dyn = 0x1255, lit_rela_plt = 0x125f\<rparr>"

section \<open>Where its parts stand\<close>

lemma length_strings [simp]:
  "length str_dynsym = 7" "length str_rela_dyn = 9" "length str_rela_plt = 9" "length str_shstrtab = 9"
  "length sample_strtab = 29"
  by (simp_all add: str_dynsym_def str_rela_dyn_def str_rela_plt_def str_shstrtab_def sample_strtab_def)

lemma length_sample_ident [simp]: "length (e_ident sample_ehdr) = 16"
  by (simp add: sample_ehdr_def)

lemma length_sample_parts:
  "length sample_handle = 16" "length sample_file = 573" "length sample_inputs = 617"
  by (simp_all add: sample_handle_def sample_file_def sample_inputs_def length_ehdr_bytes
      length_phdr_bytes length_shdr_bytes length_sym_bytes length_rela_bytes)

lemma sample_holds: "holds_bytes sample_rom 0x1000 sample_inputs"
  unfolding sample_rom_def by (rule holds_memory_at) (simp add: length_sample_parts)

lemma sample_parts:
  "holds_bytes sample_rom 0x1000 (bytes_of_word 8 (0x1010 :: u64))"
  "holds_bytes sample_rom 0x1008 (bytes_of_word 8 (573 :: u64))"
  "holds_bytes sample_rom 0x1010 (ehdr_bytes sample_ehdr)"
  "holds_bytes sample_rom 0x1050 (phdr_bytes sample_text)"
  "holds_bytes sample_rom 0x1088 (phdr_bytes sample_data)"
  "holds_bytes sample_rom 0x10c0 (shdr_bytes shdr_null)"
  "holds_bytes sample_rom 0x1100 (shdr_bytes shdr_dynsym)"
  "holds_bytes sample_rom 0x1140 (shdr_bytes shdr_rela_dyn)"
  "holds_bytes sample_rom 0x1180 (shdr_bytes shdr_shstrtab)"
  "holds_bytes sample_rom 0x11c0 (sym_bytes sym_null)"
  "holds_bytes sample_rom 0x11d8 (sym_bytes sym_entry)"
  "holds_bytes sample_rom 0x11f0 (rela_bytes rela_entry)"
  "holds_bytes sample_rom 0x1208 (rela_bytes rela_local)"
  "holds_bytes sample_rom 0x1220 sample_strtab"
  "holds_bytes sample_rom 0x124d (str_dynsym @ [0])"
  "holds_bytes sample_rom 0x1255 (str_rela_dyn @ [0])"
  "holds_bytes sample_rom 0x125f (str_rela_plt @ [0])"
  using sample_holds
  unfolding sample_inputs_def sample_handle_def sample_file_def holds_bytes_append
  by (simp_all add: length_ehdr_bytes length_phdr_bytes length_shdr_bytes length_sym_bytes length_rela_bytes)

lemma sample_outside: "outside sample_mem sample_target 32 = sample_rom"
  using outside_memory_at [of sample_inputs "replicate 32 0xff" "0x1000"]
  by (simp add: sample_mem_def sample_rom_def length_sample_parts)

lemma sample_mapped: "mapped sample_mem sample_target 32"
  using mapped_memory_at [of "sample_inputs @ replicate 32 0xff" 617 32 "0x1000"]
  by (simp add: sample_mem_def length_sample_parts)

lemma sample_records:
  "ehdr_at sample_rom 0x1010 = Some sample_ehdr"
  "phdr_at sample_rom 0x1050 = Some sample_text" "phdr_at sample_rom 0x1088 = Some sample_data"
  "shdr_at sample_rom 0x10c0 = Some shdr_null" "shdr_at sample_rom 0x1100 = Some shdr_dynsym"
  "shdr_at sample_rom 0x1140 = Some shdr_rela_dyn" "shdr_at sample_rom 0x1180 = Some shdr_shstrtab"
  "sym_at sample_rom 0x11c0 = Some sym_null" "sym_at sample_rom 0x11d8 = Some sym_entry"
  "rela_at sample_rom 0x11f0 = Some rela_entry" "rela_at sample_rom 0x1208 = Some rela_local"
  by (simp_all add: ehdr_at_iff phdr_at_iff shdr_at_iff sym_at_iff rela_at_iff sample_parts)

lemma sample_handle_fields:
  "ld_elf_data sample_rom sample_elf = Some 0x1010" "ld_elf_size sample_rom sample_elf = Some 573"
  by (simp_all add: ld_elf_data_def ld_elf_size_def load64_holds sample_parts)

lemma sample_offsets:
  "entry_offset 0 sz = 0" "entry_offset 1 56 = 56" "entry_offset 1 64 = 64" "entry_offset 2 64 = 128"
  "entry_offset 3 64 = 192" "entry_offset 1 24 = 24"
  by (simp_all add: entry_offset_def)

lemma upt_small: "[0..<2] = [0, 1]" "[0..<4] = [0, 1, 2, 3]"
  by (simp_all add: upt_rec)

lemma sample_segments:
  "elfSegments sample_rom sample_elf (Some 0) (Some 0) = Some (0x1050, Some 56, Some 2)"
  "phdr_table sample_rom 0x1050 56 2 = Some [sample_text, sample_data]"
  using ehdr_atD [OF sample_records(1)]
  by (simp_all add: elfSegments_def elfHeader_def sample_handle_fields sample_ehdr_def
      phdr_table_def upt_small sample_offsets sample_records)

lemma sample_segment_list: "elf_segment_list sample_rom sample_elf = Some [sample_text, sample_data]"
  by (simp add: elf_segment_list_def sample_segments)

lemma sample_sections:
  "elfSections sample_rom sample_elf (Some 0) (Some 0) = Some (0x10c0, Some 64, Some 4)"
  "shdr_table sample_rom 0x10c0 64 4 = Some [shdr_null, shdr_dynsym, shdr_rela_dyn, shdr_shstrtab]"
  using ehdr_atD [OF sample_records(1)]
  by (simp_all add: elfSections_def elfHeader_def sample_handle_fields sample_ehdr_def
      shdr_table_def upt_small sample_offsets sample_records)

section \<open>Its strings and the tables found by name\<close>

lemma sample_strings:
  "strtab_at sample_rom 0x1220 sample_strtab"
  "cstring_at sample_rom 0x124d str_dynsym"
  "cstring_at sample_rom 0x1255 str_rela_dyn"
  "cstring_at sample_rom 0x125f str_rela_plt"
  using sample_parts
  by (simp_all add: strtab_at_def cstring_at_def sample_strtab_def str_dynsym_def str_rela_dyn_def
      str_rela_plt_def str_shstrtab_def)

lemma sample_find:
  "strtab_find sample_strtab str_dynsym = Some 1"
  "strtab_find sample_strtab str_rela_dyn = Some 9"
  "strtab_find sample_strtab str_rela_plt = None"
  by (simp_all add: strtab_find_def sample_strtab_def str_dynsym_def str_rela_dyn_def
      str_rela_plt_def str_shstrtab_def upt_rec)

lemma sample_section_strings:
  "elfSectionStrings sample_rom sample_elf (Some 0) = Some (0x1220, Some (of_nat (length sample_strtab)))"
  using ehdr_atD [OF sample_records(1)] shdr_atD [OF sample_records(7)]
    elfSection_find [OF sample_sections(1) _ sample_sections(2), of 3 ElfSectionAttributeNone 0]
  by (simp add: elfSectionStrings_def elfHeader_def sample_handle_fields sample_ehdr_def
      shdr_shstrtab_def sample_offsets upt_rec)

lemma sample_by_name:
  "elfSectionByName sample_rom sample_elf 0x124d = Some 0x1100"
  "elfSectionByName sample_rom sample_elf 0x1255 = Some 0x1140"
  "elfSectionByName sample_rom sample_elf 0x125f = Some 0x10c0"
proof -
  note find = elfSectionByName_find [OF sample_sections(1) _ sample_sections(2) sample_section_strings
      sample_strings(1)]
  show "elfSectionByName sample_rom sample_elf 0x124d = Some 0x1100"
    using find [OF _ sample_strings(2)] by (simp add: sample_find upt_small shdr_null_def shdr_dynsym_def sample_offsets)
  show "elfSectionByName sample_rom sample_elf 0x1255 = Some 0x1140"
    using find [OF _ sample_strings(3)]
    by (simp add: sample_find upt_small shdr_null_def shdr_dynsym_def shdr_rela_dyn_def sample_offsets)
  show "elfSectionByName sample_rom sample_elf 0x125f = Some 0x10c0"
    using find [OF _ sample_strings(4)] by (simp add: sample_find upt_small shdr_null_def sample_offsets)
qed

lemma sample_relocations:
  "elf_relocation_list sample_literals sample_rom sample_elf = Some (0x11c0, 24, [rela_entry, rela_local])"
  using shdr_atD [OF sample_records(4)] shdr_atD [OF sample_records(5)] shdr_atD [OF sample_records(6)]
  by (simp add: elf_relocation_list_def elfSymbols_def elfAddendRelocations_def sample_literals_def
      sample_by_name sample_handle_fields section_entry_size_def section_entry_count_def udiv_def
      shdr_null_def shdr_dynsym_def shdr_rela_dyn_def rela_table_def upt_small sample_offsets sample_records)

section \<open>Instances: the tables and the strings\<close>

lemma elfSegment_first_match_witness:
  "elfSegment sample_rom sample_elf (Some 0) ElfSegmentAttributeAlignment 4096 = Some (0x1088, 1)"
  using elfSegment_first_match [OF sample_segments(1) _ sample_segments(2), of 0 ElfSegmentAttributeAlignment 4096]
  by (simp add: upt_rec sample_text_def sample_data_def sample_offsets)

lemma elfSection_first_match_witness:
  "elfSection sample_rom sample_elf (Some 1) ElfSectionAttributeType 3 = Some (0x1180, 3)"
  using elfSection_first_match [OF sample_sections(1) _ sample_sections(2), of 1 ElfSectionAttributeType 3]
  by (simp add: upt_rec shdr_dynsym_def shdr_rela_dyn_def shdr_shstrtab_def sample_offsets)

lemma elfLargestAlignment_max_witness: "elfLargestAlignment sample_rom sample_elf = Some 4096"
proof -
  have "0x1050 + entry_offset (of_nat k) 56 \<noteq> (0 :: ptr)" if "k < length [sample_text, sample_data]" for k
    using that by (auto simp: less_Suc_eq sample_offsets)
  from elfLargestAlignment_max [OF sample_segments(1) _ sample_segments(2) this] show ?thesis
    by (auto simp: sample_text_def sample_data_def)
qed

lemma elfMemorySize_segments_max_witness: "elfMemorySize sample_rom sample_elf = Some 32"
  using elfMemorySize_segments_max [OF sample_segment_list]
  by (auto simp: sample_text_def sample_data_def)

definition sample_dynamics :: memory where
  "sample_dynamics = memory_at 0x2000
     (dyn_bytes \<lparr>d_tag = 5, d_un = 0x10\<rparr> @ dyn_bytes \<lparr>d_tag = 6, d_un = 0x20\<rparr> @ dyn_bytes \<lparr>d_tag = 0, d_un = 0\<rparr>)"

lemma sample_dynamics_at:
  "dyn_at sample_dynamics 0x2000 = Some \<lparr>d_tag = 5, d_un = 0x10\<rparr>"
  "dyn_at sample_dynamics 0x2010 = Some \<lparr>d_tag = 6, d_un = 0x20\<rparr>"
  "dyn_at sample_dynamics 0x2020 = Some \<lparr>d_tag = 0, d_un = 0\<rparr>"
proof -
  have "holds_bytes sample_dynamics 0x2000
     (dyn_bytes \<lparr>d_tag = 5, d_un = 0x10\<rparr> @ dyn_bytes \<lparr>d_tag = 6, d_un = 0x20\<rparr> @ dyn_bytes \<lparr>d_tag = 0, d_un = 0\<rparr>)"
    unfolding sample_dynamics_def by (rule holds_memory_at) (simp add: length_dyn_bytes)
  then show "dyn_at sample_dynamics 0x2000 = Some \<lparr>d_tag = 5, d_un = 0x10\<rparr>"
    "dyn_at sample_dynamics 0x2010 = Some \<lparr>d_tag = 6, d_un = 0x20\<rparr>"
    "dyn_at sample_dynamics 0x2020 = Some \<lparr>d_tag = 0, d_un = 0\<rparr>"
    by (simp_all add: dyn_at_iff holds_bytes_append length_dyn_bytes)
qed

lemma elfDynamicsLength_counts_witness: "elfDynamicsLength sample_dynamics 0x2000 = Some 2"
proof -
  have "\<exists>t. ld_d_tag sample_dynamics (0x2000 + of_nat (16 * k)) = Some t \<and> t \<noteq> DT_NULL" if "k < 2" for k
  proof -
    from that consider "k = 0" | "k = 1" by linarith
    then show ?thesis using sample_dynamics_at [THEN dyn_atD(1)] by cases simp_all
  qed
  moreover have "ld_d_tag sample_dynamics (0x2000 + of_nat (16 * 2)) = Some DT_NULL"
    using sample_dynamics_at(3) [THEN dyn_atD(1)] by simp
  ultimately obtain r where "elfDynamicsLength sample_dynamics 0x2000 = Some r" and "unat r = 2"
    using elfDynamicsLength_counts [of "0x2000" 2 sample_dynamics] by auto
  moreover from this have "r = 2" by (simp add: word_unat_eq_iff)
  ultimately show ?thesis by simp
qed

theorem elfString_offset_roundtrip_witness:
  "\<exists>off. elfStringToOffset sample_rom 0x1220 29 0x1255 = Some off \<and>
     elfStringFromOffset 0x1220 29 off = 0x1229 \<and> cstring_at sample_rom 0x1229 str_rela_dyn"
  using elfString_offset_roundtrip [OF sample_strings(1,3) _ _ _ _ sample_find(2)] by auto

lemma elfStringToOffset_absent_witness: "elfStringToOffset sample_rom 0x1220 29 0x125f = Some 0"
  using elfStringToOffset_absent [OF sample_strings(1,4) _ _ sample_find(3)] by simp

lemma elfStringFromIndex_nth_witness: "elfStringFromIndex sample_rom 0x1220 29 2 = Some 0x1229"
  using elfStringFromIndex_nth [OF sample_strings(1), of 2]
  by (simp add: upt_rec nul_count_def sample_strtab_def str_dynsym_def str_rela_dyn_def str_shstrtab_def)

lemma elfStringToIndex_counts_witness: "elfStringToIndex sample_rom 0x1220 29 0x1255 = Some 2"
proof -
  have "nul_count sample_strtab 9 = 2"
    by (simp add: nul_count_def sample_strtab_def str_dynsym_def)
  then show ?thesis using elfStringToIndex_counts [OF sample_strings(1,3)] by (simp add: sample_find)
qed

theorem elfSectionByName_meaning_witness:
  "elfSectionByName sample_rom sample_elf 0x1255 = Some 0x1140 \<and>
   elfSectionByName sample_rom sample_elf 0x125f = Some 0x10c0"
  using elfSectionByName_meaning [OF sample_sections(1) _ sample_sections(2) sample_section_strings
      sample_strings(1,3)]
    elfSectionByName_meaning [OF sample_sections(1) _ sample_sections(2) sample_section_strings
      sample_strings(1,4)]
  by (simp add: sample_find upt_small shdr_null_def shdr_dynsym_def shdr_rela_dyn_def sample_offsets)

section \<open>Instances: creation and loading\<close>

definition sample_malloc :: malloc_fn where
  "sample_malloc m n = (0x9000, \<lambda>x. if in_region 0x9000 (unat n) x then Some 0 else m x)"

lemma sample_malloc_ok: "malloc_ok sample_malloc sample_rom 16"
proof -
  have "sample_rom x = None" if "in_region 0x9000 16 x" for x
  proof -
    have "\<not> in_region 0x1000 617 x"
      using that by (rule disjoint_regionsD [rotated]) (simp add: disjoint_regions_def)
    then show ?thesis by (simp add: sample_rom_def memory_at_def Let_def length_sample_parts in_region_def)
  qed
  moreover have "mapped (snd (sample_malloc sample_rom 16)) 0x9000 16"
    by (simp add: mapped_def sample_malloc_def in_region_offset)
  ultimately show ?thesis by (auto simp: malloc_ok_def sample_malloc_def)
qed

lemma sample_magic: "IS_ELF sample_rom 0x1010 = Some True"
  using ehdr_ident_byte [OF sample_records(1), of 0] ehdr_ident_byte [OF sample_records(1), of 1]
    ehdr_ident_byte [OF sample_records(1), of 2] ehdr_ident_byte [OF sample_records(1), of 3]
  by (simp add: IS_ELF_def sample_ehdr_def)

lemma elfCreate_elfDestroy_witness:
  "\<exists>elf m'. elfCreate sample_malloc sample_rom 0x1010 573 = Some (elf, m') \<and>
     ld_elf_data m' elf = Some 0x1010 \<and> elfDestroy (\<lambda>m p. m) m' elf = Some (0x1010, m')"
  using elfCreate_elfDestroy [OF _ sample_magic sample_malloc_ok, of 573 "\<lambda>m p. m"] by auto

lemma elfCreateLocal_spec_witness:
  "\<exists>m'. elfCreateLocal sample_rom 0x124d 0x1010 573 = Some (0x124d, m') \<and>
     ld_elf_data m' 0x124d = Some 0x1010 \<and> outside m' 0x124d 16 = outside sample_rom 0x124d 16"
  using elfCreateLocal_spec [OF _ sample_magic, of "0x124d" 573]
    mapped_memory_at [of sample_inputs "0x24d" 16 "0x1000"]
  by (auto simp: sample_rom_def length_sample_parts)

lemma sample_header: "loadable_header sample_ehdr"
  by (simp add: loadable_header_def sample_ehdr_def)

lemma elfLoaderIsLoadable_iff_witness: "elfLoaderIsLoadable sample_rom sample_elf = Some True"
  using elfLoaderIsLoadable_iff [OF _ sample_handle_fields(1) sample_records(1)] sample_header by simp

theorem elfLoaderLoad_rejects_witness:
  "elfLoaderLoad sample_literals sample_rom sample_elf 0x1269 NULL =
     Some (ElfLoaderReturnExecutableMemoryNull, sample_rom)"
  using elfLoaderLoad_rejects [of sample_elf sample_rom "0x1010" sample_ehdr "0x1269" NULL sample_literals]
    sample_handle_fields(1) sample_records(1) by simp

lemma sample_fits:
  assumes "p \<in> set [sample_text, sample_data]"
  shows "segment_fits sample_rom 0x1010 32 p"
  using assms mapped_memory_at [of sample_inputs 573 8 "0x1000"] mapped_memory_at [of sample_inputs 581 8 "0x1000"]
  by (auto simp: segment_fits_def sample_text_def sample_data_def sample_rom_def length_sample_parts)

theorem elfLoaderInstantiate_image_witness:
  "\<exists>m'. elfLoaderInstantiate sample_mem sample_elf sample_target = Some (ElfLoaderReturnOK, m') \<and>
     outside m' sample_target 32 = sample_rom \<and> m' (sample_target + 31) = Some 0"
proof -
  obtain m' where "elfLoaderInstantiate sample_mem sample_elf sample_target = Some (ElfLoaderReturnOK, m')"
    "outside m' sample_target 32 = outside sample_mem sample_target 32"
    and img: "(\<lambda>x. m' (sample_target + x)) = fold (segment_image (\<lambda>y. sample_mem (0x1010 + y)))
      [sample_text, sample_data] (\<lambda>x. sample_mem (sample_target + x))"
    using elfLoaderInstantiate_image [of sample_mem sample_target 32 sample_elf "[sample_text, sample_data]" "0x1010"]
      sample_mapped sample_fits by (auto simp: sample_outside sample_segment_list sample_handle_fields)
  moreover have "m' (sample_target + 31) = Some 0"
    using fun_cong [OF img, of 31] by (simp add: segment_image_def sample_text_def sample_data_def)
  ultimately show ?thesis by (simp add: sample_outside)
qed

definition sample_symval :: "u16 \<Rightarrow> u64" where
  "sample_symval i = (if i = 1 then 4 else 0)"

lemma sample_relocation_fits:
  assumes "r \<in> set [rela_entry, rela_local]"
  shows "relocation_fits sample_rom 0x11c0 24 32 sample_symval r"
  using assms sym_atD(5) [OF sample_records(9)]
  by (auto simp: relocation_fits_def rela_entry_def rela_local_def rela_type_def rela_symbol_def
      ELF64_R_TYPE_def ELF64_R_SYM_def sample_symval_def sym_entry_def sample_offsets)

lemma sample_values:
  "relocated_value sample_symval rela_entry = Some 6" "relocated_value sample_symval rela_local = Some 20"
  by (simp_all add: relocated_value_def rela_entry_def rela_local_def rela_type_def rela_symbol_def
      ELF64_R_TYPE_def ELF64_R_SYM_def sample_symval_def)

theorem elfLoaderRelocate_refines_witness:
  "elfLoaderRelocate sample_literals sample_mem sample_elf sample_target 0x8000 =
     Some (relocate_spec sample_target 0x8000 [sample_text, sample_data] sample_symval
       [rela_entry, rela_local] sample_mem)"
  by (rule elfLoaderRelocate_refines [of _ _ 32 _ _ _ _ "0x11c0" 24])
    (use sample_mapped sample_relocation_fits in
      \<open>simp_all add: sample_outside sample_segment_list sample_relocations\<close>)

lemma sample_slots:
  "slots_apart rela_entry rela_local" "r_offset rela_entry = 16"
  "executable_in [sample_text, sample_data] 6"
  by (simp_all add: slots_apart_def rela_entry_def rela_local_def executable_in_def covers_def sample_text_def)

theorem elfLoaderRelocate_slot_witness:
  "\<exists>m'. elfLoaderRelocate sample_literals sample_mem sample_elf sample_target 0x8000 =
     Some (ElfLoaderReturnOK, m') \<and> load64 m' (sample_target + 16) = Some 0x8006"
proof -
  have "relocated_value sample_symval s \<noteq> None" if "s \<in> set ([] @ rela_entry # [rela_local])" for s
    using that sample_values by auto
  from elfLoaderRelocate_slot [OF sample_mapped _ _ _ _ _ _ this, of "0x8000" sample_elf
      "[sample_text, sample_data]" sample_literals "0x11c0" 24 "[]" rela_entry "[rela_local]"]
  show ?thesis
    using sample_relocation_fits
    by (auto simp: sample_outside sample_segment_list sample_relocations sample_values sample_slots)
qed

theorem elfLoaderLoad_image_witness:
  "\<exists>m1 c m2. relocate_spec sample_target 0x8000 [sample_text, sample_data] sample_symval
       [rela_entry, rela_local] m1 = (c, m2) \<and> outside m1 sample_target 32 = sample_rom \<and>
     elfLoaderLoad sample_literals sample_mem sample_elf sample_target 0x8000 = Some (c, m2)"
  using elfLoaderLoad_image [of sample_mem sample_target 32 "0x8000" sample_elf "[sample_text, sample_data]"
      "0x1010" sample_ehdr sample_literals "0x11c0" 24 "[rela_entry, rela_local]" sample_symval]
    sample_mapped sample_fits sample_relocation_fits sample_header
  by (auto simp: sample_outside sample_segment_list sample_relocations sample_handle_fields sample_records)

text \<open>An object without program headers: one allocated section of three bytes.\<close>

definition plain_ehdr :: Elf64_Ehdr where
  "plain_ehdr = sample_ehdr\<lparr>e_phoff := 0, e_shoff := 64, e_shnum := 1\<rparr>"

definition plain_section :: Elf64_Shdr where
  "plain_section = shdr_null\<lparr>sh_flags := 2, sh_addr := 4, sh_offset := 128, sh_size := 3\<rparr>"

definition plain_inputs :: "u8 list" where
  "plain_inputs = bytes_of_word 8 (0x3010 :: u64) @ bytes_of_word 8 (131 :: u64) @
     ehdr_bytes plain_ehdr @ shdr_bytes plain_section @ [9, 8, 7]"

definition plain_rom :: memory where "plain_rom = memory_at 0x3000 plain_inputs"
definition plain_mem :: memory where "plain_mem = memory_at 0x3000 (plain_inputs @ replicate 8 0x55)"

lemma length_plain [simp]: "length (e_ident plain_ehdr) = 16" "length plain_inputs = 147"
  by (simp_all add: plain_ehdr_def plain_inputs_def length_ehdr_bytes length_shdr_bytes)

lemma plain_parts:
  "ld_elf_data plain_rom 0x3000 = Some 0x3010" "ehdr_at plain_rom 0x3010 = Some plain_ehdr"
  "shdr_at plain_rom 0x3050 = Some plain_section" "outside plain_mem 0x3093 8 = plain_rom"
  "mapped plain_mem 0x3093 8" "mapped plain_rom 0x3090 3"
proof -
  have "holds_bytes plain_rom 0x3000 plain_inputs"
    unfolding plain_rom_def by (rule holds_memory_at) simp
  then show "ld_elf_data plain_rom 0x3000 = Some 0x3010" "ehdr_at plain_rom 0x3010 = Some plain_ehdr"
    "shdr_at plain_rom 0x3050 = Some plain_section"
    unfolding plain_inputs_def holds_bytes_append
    by (simp_all add: ld_elf_data_def load64_holds ehdr_at_iff shdr_at_iff length_ehdr_bytes)
  show "outside plain_mem 0x3093 8 = plain_rom"
    using outside_memory_at [of plain_inputs "replicate 8 0x55" "0x3000"]
    by (simp add: plain_mem_def plain_rom_def)
  show "mapped plain_mem 0x3093 8" "mapped plain_rom 0x3090 3"
    using mapped_memory_at [of "plain_inputs @ replicate 8 0x55" 147 8 "0x3000"]
      mapped_memory_at [of plain_inputs 144 3 "0x3000"] by (simp_all add: plain_mem_def plain_rom_def)
qed

lemma plain_tables:
  "elfSegments plain_rom 0x3000 (Some 0) (Some 0) = Some (NULL, Some 0, Some 0)"
  "elf_section_list plain_rom 0x3000 = Some [plain_section]"
  using ehdr_atD [OF plain_parts(2)]
  by (simp_all add: elfSegments_def elf_section_list_def elfSections_def elfHeader_def plain_parts
      plain_ehdr_def sample_ehdr_def shdr_table_def sample_offsets)

theorem elfLoaderInstantiate_sections_image_witness:
  "\<exists>m'. elfLoaderInstantiate plain_mem 0x3000 0x3093 = Some (ElfLoaderReturnOK, m') \<and>
     outside m' 0x3093 8 = plain_rom \<and> m' (0x3093 + 4) = plain_mem 0x3090"
proof -
  have "section_fits plain_rom 0x3010 8 p" if "p \<in> set [plain_section]" for p
    using that plain_parts(6) by (simp add: section_fits_def plain_section_def shdr_null_def)
  then obtain m' where "elfLoaderInstantiate plain_mem 0x3000 0x3093 = Some (ElfLoaderReturnOK, m')"
    "outside m' 0x3093 8 = outside plain_mem 0x3093 8"
    and img: "(\<lambda>x. m' (0x3093 + x)) = fold (section_image (\<lambda>y. plain_mem (0x3010 + y)))
      [plain_section] (\<lambda>x. plain_mem (0x3093 + x))"
    using elfLoaderInstantiate_sections_image [of plain_mem "0x3093" 8 "0x3000" "[plain_section]" "0x3010"]
      plain_parts plain_tables by auto
  moreover have "m' (0x3093 + 4) = plain_mem 0x3090"
    using fun_cong [OF img, of 4] by (simp add: section_image_def plain_section_def shdr_null_def)
  ultimately show ?thesis by (simp add: plain_parts)
qed

end
