(* ===== verification/Kernel_Services.thy ===== *)
theory Kernel_Services
  imports Elf_Lifecycle Elf_Strings
begin

text \<open>
  The kernel side services of \<open>source/ps4/kernel.c\<close>: the search for the kernel's ELF header, the
  one-time initialisation of the globals from its dynamic table, the bump allocator for executable
  memory, the symbol lookup, and the protocol by which a function is run in kernel mode.

  The globals of the file are the record \<open>kernel_globals\<close>.  The stack pointer, the address of a
  stack buffer, the system call and the installation of the run system call (code of other files and
  of the target system) are parameters.
\<close>

record kernel_globals =
  ps4KernelInternalInitialized :: bool
  ps4KernelElfSymbols :: ptr
  ps4KernelElfStrings :: ptr
  ps4KernelExecutableAddress :: ptr

definition kernel_globals_init :: kernel_globals where
  "kernel_globals_init = \<lparr>ps4KernelInternalInitialized = False, ps4KernelElfSymbols = NULL,
     ps4KernelElfStrings = NULL, ps4KernelExecutableAddress = NULL\<rparr>"

section \<open>Finding the kernel image\<close>

abbreviation (input) PS4KernelElfSeekAddress :: ptr where
  "PS4KernelElfSeekAddress \<equiv> 0xffffffff80000000"
abbreviation (input) PS4KernelElfSeekSize :: u64 where "PS4KernelElfSeekSize \<equiv> 0x02000000"
abbreviation (input) PS4KernelElfSeekStaticAddress :: ptr where
  "PS4KernelElfSeekStaticAddress \<equiv> 0xffffffff80700000"
abbreviation (input) PS4KernelElfSize :: u64 where "PS4KernelElfSize \<equiv> 0x00EAC180"
abbreviation (input) PS4KernelElfPageSize :: u64 where "PS4KernelElfPageSize \<equiv> 0x4000"

definition elfMagic :: "u8 list" where
  "elfMagic = [0x7f, 0x45, 0x4c, 0x46, 0x02, 0x01, 0x01, 0x09, 0x00]"

text \<open>The comparison loop: bytes are read one by one up to the first difference.\<close>

primrec magic_match :: "memory \<Rightarrow> ptr \<Rightarrow> u8 list \<Rightarrow> bool option" where
  "magic_match m a [] = Some True"
| "magic_match m a (b # bs) = do {
     c \<leftarrow> load8 m a;
     if c = b then magic_match m (a + 1) bs else Some False }"

function ps4KernelElfSeek_loop :: "memory \<Rightarrow> ptr \<Rightarrow> ptr option" where
  "ps4KernelElfSeek_loop mem m =
     (if m < PS4KernelElfSeekAddress + PS4KernelElfSeekSize then do {
        hit \<leftarrow> magic_match mem m elfMagic;
        if hit then Some m else ps4KernelElfSeek_loop mem (m + PS4KernelElfPageSize) }
      else Some NULL)"
  by pat_completeness auto
termination
proof (relation "measure (\<lambda>(mem, m). unat (0xffffffff82000000 :: ptr) - unat m)")
  fix m :: ptr and mem :: memory
  assume "m < PS4KernelElfSeekAddress + PS4KernelElfSeekSize"
  then have "unat m < 18446744071595622400" by (simp add: word_less_nat_alt)
  moreover from this have "unat (m + PS4KernelElfPageSize) = unat m + 16384"
    by (simp add: unat_word_ariths)
  ultimately show "((mem, m + PS4KernelElfPageSize), mem, m)
      \<in> measure (\<lambda>(mem, m). unat (0xffffffff82000000 :: ptr) - unat m)"
    by simp
qed simp

declare ps4KernelElfSeek_loop.simps [simp del]

definition ps4KernelElfSeek :: "memory \<Rightarrow> ptr option" where
  "ps4KernelElfSeek m = do {
     hit \<leftarrow> magic_match m PS4KernelElfSeekStaticAddress elfMagic;
     if hit then Some PS4KernelElfSeekStaticAddress
     else ps4KernelElfSeek_loop m PS4KernelElfSeekAddress }"

section \<open>Initialisation\<close>

text \<open>The handle is made in the stack buffer \<open>buf\<close>.  The results of the dynamic lookups and of the
  segment lookup are used without a test for \<open>NULL\<close>.\<close>

definition ps4KernelInternalInitialize ::
  "ptr \<Rightarrow> memory \<Rightarrow> kernel_globals \<Rightarrow> (memory \<times> kernel_globals) option" where
  "ps4KernelInternalInitialize buf m g = do {
     kernelAddress \<leftarrow> ps4KernelElfSeek m;
     if kernelAddress = NULL then Some (m, g) else do {
       (kernel, m1) \<leftarrow> elfCreateLocalUnchecked m buf kernelAddress PS4KernelElfSize;
       (dyn, _) \<leftarrow> elfLoadedDynamic m1 kernel None ElfDynamicAttributeTag DT_SYMTAB;
       symbols \<leftarrow> elfDynamicAttribute m1 dyn ElfDynamicAttributePointer;
       (dyn2, _) \<leftarrow> elfLoadedDynamic m1 kernel None ElfDynamicAttributeTag DT_STRTAB;
       strings \<leftarrow> elfDynamicAttribute m1 dyn2 ElfDynamicAttributePointer;
       (seg, _) \<leftarrow> elfSegment m1 kernel None ElfSegmentAttributeType PT_LOAD;
       vaddr \<leftarrow> ld_p_vaddr m1 seg;
       Some (m1, \<lparr>ps4KernelInternalInitialized = True, ps4KernelElfSymbols = symbols,
         ps4KernelElfStrings = strings, ps4KernelExecutableAddress = vaddr\<rparr>) }}"

definition ensure_initialized ::
  "ptr \<Rightarrow> memory \<Rightarrow> kernel_globals \<Rightarrow> (memory \<times> kernel_globals) option" where
  "ensure_initialized buf m g =
     (if ps4KernelInternalInitialized g then Some (m, g) else ps4KernelInternalInitialize buf m g)"

section \<open>Executable memory\<close>

definition ps4KernelExecutableMemoryMalloc ::
  "ptr \<Rightarrow> u64 \<Rightarrow> memory \<Rightarrow> kernel_globals \<Rightarrow> (ptr \<times> memory \<times> kernel_globals) option" where
  "ps4KernelExecutableMemoryMalloc buf sz m g = do {
     (m1, g1) \<leftarrow> ensure_initialized buf m g;
     let a = ps4KernelExecutableAddress g1;
     Some (a, m1, g1\<lparr>ps4KernelExecutableAddress := a + sz\<rparr>) }"

definition ps4KernelExecutableMemoryFree :: "ptr \<Rightarrow> kernel_globals \<Rightarrow> kernel_globals" where
  "ps4KernelExecutableMemoryFree addr g = g"

section \<open>Kernel addresses and running in the kernel\<close>

definition ps4KernelIsKernelAddress :: "ptr \<Rightarrow> bool" where
  "ps4KernelIsKernelAddress addr \<longleftrightarrow> drop_bit 48 addr > 0"

definition ps4KernelIsInKernel :: "ptr \<Rightarrow> bool" where
  "ps4KernelIsInKernel sp = ps4KernelIsKernelAddress sp"

text \<open>
  Parameters of the protocol: \<open>fn\<close> is the function to run with its arguments, \<open>kernel_run\<close> the
  system call (\<open>None\<close> is the probe with a null function, \<open>Some fn\<close> the real call), \<open>install\<close>
  the installation of the system call.  \<open>'s\<close> is the state of the system.
\<close>

definition ps4KernelRunMain ::
  "ptr \<Rightarrow> ('s \<Rightarrow> u32 \<times> 's) \<Rightarrow> (('s \<Rightarrow> u32 \<times> 's) option \<Rightarrow> 's \<Rightarrow> u32 \<times> 's) \<Rightarrow> ('s \<Rightarrow> 's) \<Rightarrow> 's \<Rightarrow> u32 \<times> 's"
where
  "ps4KernelRunMain sp fn kernel_run install s =
     (if ps4KernelIsInKernel sp then fn s
      else let (r, s1) = kernel_run None s in
        if r = - 1 then
          (let s2 = install s1; (r2, s3) = kernel_run None s2 in
           if r2 = - 1 then (- 1, s3) else kernel_run (Some fn) s3)
        else kernel_run (Some fn) s1)"

section \<open>Symbols\<close>

text \<open>The name comparison has no bound.  It stops at the first difference or at the terminator, with
  the two bytes it stopped at.\<close>

partial_function (option) name_match :: "memory \<Rightarrow> ptr \<Rightarrow> ptr \<Rightarrow> nat \<Rightarrow> (nat \<times> u8 \<times> u8) option" where
  "name_match m n name j = do {
     c \<leftarrow> load8 m (n + of_nat j);
     d \<leftarrow> load8 m (name + of_nat j);
     if c = d \<and> c \<noteq> 0 then name_match m n name (Suc j) else Some (j, c, d) }"

partial_function (option) ps4KernelDlSym_loop :: "memory \<Rightarrow> ptr \<Rightarrow> ptr \<Rightarrow> ptr \<Rightarrow> u64 option" where
  "ps4KernelDlSym_loop m strings name symb =
     (if symb + 24 < strings then do {
        st \<leftarrow> ld_st_name m symb;
        (j, c, d) \<leftarrow> name_match m (strings + ucast st) name 0;
        if j > 0 \<and> c = 0 \<and> d = 0 then ld_st_value m symb
        else ps4KernelDlSym_loop m strings name (symb + 24) }
      else Some NULL)"

text \<open>The initialiser of a local array \<open>char *argv[]\<close>.\<close>

fun store_argv :: "memory \<Rightarrow> ptr \<Rightarrow> u64 list \<Rightarrow> memory option" where
  "store_argv m argv [] = Some m"
| "store_argv m argv (w # ws) = do { m1 \<leftarrow> store64 m argv w; store_argv m1 (argv + 8) ws }"

text \<open>In the kernel the lookup runs here; in user mode the call goes through \<open>run_main\<close> with the
  argument vector \<open>{NULL, name, NULL}\<close> at \<open>argv\<close>, and the answer is read back from
  its first slot.\<close>

definition ps4KernelDlSym ::
  "ptr \<Rightarrow> ptr \<Rightarrow> ptr \<Rightarrow> (memory \<Rightarrow> kernel_globals \<Rightarrow> (memory \<times> kernel_globals) option) \<Rightarrow>
     ptr \<Rightarrow> memory \<Rightarrow> kernel_globals \<Rightarrow> (u64 \<times> memory \<times> kernel_globals) option" where
  "ps4KernelDlSym sp buf argv run_main name m g =
     (if \<not> ps4KernelIsInKernel sp then do {
        m1 \<leftarrow> store_argv m argv [NULL, name, NULL];
        (m2, g2) \<leftarrow> run_main m1 g;
        r \<leftarrow> load64 m2 argv;
        Some (r, m2, g2) }
      else do {
        (m1, g1) \<leftarrow> ensure_initialized buf m g;
        r \<leftarrow> ps4KernelDlSym_loop m1 (ps4KernelElfStrings g1) name (ps4KernelElfSymbols g1);
        Some (r, m1, g1) })"

text \<open>The wrapper that runs in kernel mode: it looks up \<open>argv[1]\<close> and stores the answer in
  \<open>argv[0]\<close>; \<open>frame\<close> is where its own call of the lookup would build an argument vector.\<close>

definition ps4KernelDlSymWrapper ::
  "ptr \<Rightarrow> ptr \<Rightarrow> ptr \<Rightarrow> (memory \<Rightarrow> kernel_globals \<Rightarrow> (memory \<times> kernel_globals) option) \<Rightarrow>
     ptr \<Rightarrow> memory \<Rightarrow> kernel_globals \<Rightarrow> (u32 \<times> memory \<times> kernel_globals) option" where
  "ps4KernelDlSymWrapper sp buf frame run_main argv m g = do {
     name \<leftarrow> load64 m (argv + 8);
     (r, m1, g1) \<leftarrow> ps4KernelDlSym sp buf frame run_main name m g;
     m2 \<leftarrow> store64 m1 argv r;
     Some (0, m2, g1) }"

section \<open>Kernel memory\<close>

text \<open>The payload functions run in kernel mode on their argument vector; the callers build the vector
  and hand it to \<open>run_main\<close> with the number of arguments.\<close>

definition ps4KernelExploitPayloadMalloc ::
  "ptr \<Rightarrow> ptr \<Rightarrow> memory \<Rightarrow> kernel_globals \<Rightarrow> (u32 \<times> memory \<times> kernel_globals) option" where
  "ps4KernelExploitPayloadMalloc buf argv m g = do {
     sz \<leftarrow> load64 m (argv + 8);
     (a, m1, g1) \<leftarrow> ps4KernelExecutableMemoryMalloc buf sz m g;
     m2 \<leftarrow> store64 m1 argv a;
     Some (0, m2, g1) }"

definition ps4KernelExploitPayloadFree ::
  "ptr \<Rightarrow> memory \<Rightarrow> kernel_globals \<Rightarrow> (u32 \<times> memory \<times> kernel_globals) option" where
  "ps4KernelExploitPayloadFree argv m g = do {
     a \<leftarrow> load64 m argv;
     Some (0, m, ps4KernelExecutableMemoryFree a g) }"

type_synonym run_main_fn =
  "nat \<Rightarrow> ptr \<Rightarrow> memory \<Rightarrow> kernel_globals \<Rightarrow> (u32 \<times> memory \<times> kernel_globals) option"

definition ps4KernelMalloc ::
  "run_main_fn \<Rightarrow> ptr \<Rightarrow> u64 \<Rightarrow> memory \<Rightarrow> kernel_globals \<Rightarrow> (ptr \<times> memory \<times> kernel_globals) option" where
  "ps4KernelMalloc run_payload argv sz m g = do {
     m1 \<leftarrow> store_argv m argv [NULL, sz, NULL];
     (_, m2, g2) \<leftarrow> run_payload 2 argv m1 g;
     r \<leftarrow> load64 m2 argv;
     Some (r, m2, g2) }"

definition ps4KernelFree ::
  "run_main_fn \<Rightarrow> ptr \<Rightarrow> ptr \<Rightarrow> memory \<Rightarrow> kernel_globals \<Rightarrow> (memory \<times> kernel_globals) option" where
  "ps4KernelFree run_payload argv addr m g = do {
     m1 \<leftarrow> store_argv m argv [addr, NULL];
     (_, m2, g2) \<leftarrow> run_payload 1 argv m1 g;
     Some (m2, g2) }"

section \<open>Properties\<close>

text \<open>An address counts as a kernel address exactly when it is at least \<open>2 ^ 48\<close>, so every
  address the header search looks at does.\<close>

lemma ps4KernelIsKernelAddress_iff:
  "(ps4KernelIsKernelAddress addr \<longleftrightarrow> 2 ^ 48 \<le> unat addr) \<and>
    ps4KernelIsKernelAddress PS4KernelElfSeekAddress"
proof -
  have "(0 < drop_bit 48 a) = (2 ^ 48 \<le> unat a)" for a :: ptr
    by (simp add: word_less_nat_alt drop_bit_eq_div unat_div_distrib div_greater_zero_iff)
  then show ?thesis by (simp add: ps4KernelIsKernelAddress_def)
qed

lemma length_elfMagic: "length elfMagic = 9"
  by (simp add: elfMagic_def)

lemma magic_match_holds:
  "mapped m a (length bs) \<Longrightarrow> magic_match m a bs = Some (holds_bytes m a bs)"
proof (induction bs arbitrary: a)
  case (Cons b bs)
  have "mapped m (a + 1) (length bs)" using Cons.prems by (rule mapped_sub) simp
  moreover obtain c where "load8 m a = Some c"
    using Cons.prems by (force simp: mapped_def load8_def)
  ultimately show ?case using Cons.IH by (simp add: holds_bytes_Cons)
qed simp

abbreviation (input) seek_page :: "nat \<Rightarrow> ptr" where
  "seek_page k \<equiv> PS4KernelElfSeekAddress + of_nat k * PS4KernelElfPageSize"

lemma unat_seek_page: "k \<le> 2048 \<Longrightarrow> unat (seek_page k) = 18446744071562067968 + k * 16384"
  by (simp add: unat_word_ariths unat_of_nat)

lemma ps4KernelElfSeek_loop_find:
  assumes "\<And>k. k < 2048 \<Longrightarrow> mapped m (seek_page k) 9" and "i \<le> 2048"
  shows "ps4KernelElfSeek_loop m (seek_page i) = Some
    (case find (\<lambda>k. holds_bytes m (seek_page k) elfMagic) [i..<2048] of
       Some k \<Rightarrow> seek_page k | None \<Rightarrow> NULL)"
  using assms(2)
proof (induction i rule: inc_induct)
  case base
  then show ?case by (simp add: ps4KernelElfSeek_loop.simps [of m])
next
  case (step i)
  have "seek_page i < PS4KernelElfSeekAddress + PS4KernelElfSeekSize"
    using unat_seek_page [of i] step.hyps by (simp add: word_less_nat_alt)
  moreover have "magic_match m (seek_page i) elfMagic = Some (holds_bytes m (seek_page i) elfMagic)"
    using assms(1) [of i] step.hyps by (intro magic_match_holds) (simp add: length_elfMagic)
  moreover have "[i..<2048] = i # [Suc i..<2048]" using step.hyps by (simp add: upt_conv_Cons)
  moreover have "seek_page i + PS4KernelElfPageSize = seek_page (Suc i)" by (simp add: algebra_simps)
  ultimately show ?case
    using step.IH by (simp only: ps4KernelElfSeek_loop.simps [of m "seek_page i"]) simp
qed

text \<open>When the candidate addresses can be read, the header search returns the static address if
  the nine magic bytes stand there, otherwise the first of the 2048 pages of 16 KiB of its range where
  they stand, and \<open>NULL\<close> when no page has them; it always ends.\<close>

lemma ps4KernelElfSeek_first:
  assumes "\<And>k. k < 2048 \<Longrightarrow> mapped m (seek_page k) 9" and "mapped m PS4KernelElfSeekStaticAddress 9"
  shows "ps4KernelElfSeek m = Some
    (if holds_bytes m PS4KernelElfSeekStaticAddress elfMagic then PS4KernelElfSeekStaticAddress
     else case find (\<lambda>k. holds_bytes m (seek_page k) elfMagic) [0..<2048] of
       Some k \<Rightarrow> seek_page k | None \<Rightarrow> NULL)"
proof -
  have "magic_match m PS4KernelElfSeekStaticAddress elfMagic =
      Some (holds_bytes m PS4KernelElfSeekStaticAddress elfMagic)"
    using assms(2) by (intro magic_match_holds) (simp add: length_elfMagic)
  then show ?thesis
    using ps4KernelElfSeek_loop_find [OF assms(1), of 0] by (simp add: ps4KernelElfSeek_def)
qed

section \<open>The bump allocator\<close>

fun exec_mallocs ::
  "ptr \<Rightarrow> u64 list \<Rightarrow> memory \<Rightarrow> kernel_globals \<Rightarrow> (ptr list \<times> memory \<times> kernel_globals) option" where
  "exec_mallocs buf [] m g = Some ([], m, g)"
| "exec_mallocs buf (sz # szs) m g = do {
     (a, m1, g1) \<leftarrow> ps4KernelExecutableMemoryMalloc buf sz m g;
     (as, m2, g2) \<leftarrow> exec_mallocs buf szs m1 g1;
     Some (a # as, m2, g2) }"

lemma exec_mallocs_addresses:
  assumes "ps4KernelInternalInitialized g"
  shows "\<exists>g'. exec_mallocs buf szs m g =
    Some (map (\<lambda>k. ps4KernelExecutableAddress g + sum_list (take k szs)) [0..<length szs], m, g')"
  using assms
proof (induction szs arbitrary: g)
  case (Cons sz szs)
  let ?g = "g\<lparr>ps4KernelExecutableAddress := ps4KernelExecutableAddress g + sz\<rparr>"
  obtain g' where "exec_mallocs buf szs m ?g =
      Some (map (\<lambda>k. ps4KernelExecutableAddress ?g + sum_list (take k szs)) [0..<length szs], m, g')"
    using Cons.IH [of ?g] Cons.prems by auto
  moreover have "[0..<length (sz # szs)] = 0 # map Suc [0..<length szs]"
    by (simp add: upt_conv_Cons map_Suc_upt del: upt_Suc)
  ultimately show ?case
    using Cons.prems
    by (simp add: ps4KernelExecutableMemoryMalloc_def ensure_initialized_def Let_def add.assoc comp_def)
qed simp

lemma unat_sum_list:
  "sum_list (map unat szs) < address_space \<Longrightarrow> unat (sum_list (szs :: u64 list)) = sum_list (map unat szs)"
  by (induction szs) (simp_all add: unat_word_ariths)

lemma sum_list_take_le: "sum_list (take k xs) \<le> sum_list (xs :: nat list)"
  by (metis append_take_drop_id le_add1 sum_list_append)

lemma sum_take_mono:
  assumes "i < j" and "j < length xs"
  shows "sum_list (take i xs) + xs ! i \<le> sum_list (take j (xs :: nat list))"
proof -
  have "sum_list (take i xs) + xs ! i = sum_list (take (Suc i) xs)"
    using assms by (simp add: take_Suc_conv_app_nth)
  also have "\<dots> = sum_list (take (Suc i) (take j xs))" using assms by (simp add: min_absorb1)
  also have "\<dots> \<le> sum_list (take j xs)" by (rule sum_list_take_le)
  finally show ?thesis .
qed

text \<open>C39 After initialisation, a run of executable allocations returns consecutive blocks: memory
  is not touched, and as long as they do not run over the end of the address space no two of the
  blocks overlap.\<close>

theorem ps4KernelExecutableMemoryMalloc_disjoint:
  assumes "ps4KernelInternalInitialized g"
    and "unat (ps4KernelExecutableAddress g) + sum_list (map unat szs) < address_space"
  shows "\<exists>as g'. exec_mallocs buf szs m g = Some (as, m, g') \<and> length as = length szs \<and>
    (\<forall>j < length szs. \<forall>i < j.
       disjoint_regions (as ! i) (unat (szs ! i)) (as ! j) (unat (szs ! j)))"
proof -
  let ?a = "ps4KernelExecutableAddress g"
  let ?as = "map (\<lambda>k. ?a + sum_list (take k szs)) [0..<length szs]"
  have part: "sum_list (map unat (take k szs)) \<le> sum_list (map unat szs)" for k
    using sum_list_take_le [of k "map unat szs"] by (simp add: take_map)
  have at: "unat (?a + sum_list (take k szs)) = unat ?a + sum_list (map unat (take k szs))" for k
    using part [of k] assms(2) by (simp add: unat_word_ariths unat_sum_list)
  have "disjoint_regions (?as ! i) (unat (szs ! i)) (?as ! j) (unat (szs ! j))"
    if "i < j" "j < length szs" for i j
    using that assms(2) sum_take_mono [of i j "map unat szs"] part [of "Suc j"] part [of "Suc i"]
    by (simp add: disjoint_regions_def at take_map take_Suc_conv_app_nth)
  then show ?thesis using exec_mallocs_addresses [OF assms(1), of buf szs m] by fastforce
qed

section \<open>Running in the kernel\<close>

text \<open>What the protocol relies on: the probe reports -1 exactly when the system call is not installed
  and changes nothing, and an installed system call runs the function.\<close>

definition kernel_run_ok ::
  "('s \<Rightarrow> bool) \<Rightarrow> (('s \<Rightarrow> u32 \<times> 's) option \<Rightarrow> 's \<Rightarrow> u32 \<times> 's) \<Rightarrow> bool" where
  "kernel_run_ok installed kernel_run \<longleftrightarrow>
     (\<forall>s. snd (kernel_run None s) = s \<and> (fst (kernel_run None s) = - 1) = (\<not> installed s)) \<and>
     (\<forall>fn s. installed s \<longrightarrow> kernel_run (Some fn) s = fn s)"

text \<open>A function handed to the run protocol runs exactly once, with its own result: directly when
  already in the kernel, through the installed system call, or after one installation; when the
  installation does not help, it does not run and the result is -1.\<close>

lemma ps4KernelRunMain_runs:
  assumes "kernel_run_ok installed kernel_run"
  shows "ps4KernelRunMain sp fn kernel_run install s =
    (if ps4KernelIsInKernel sp \<or> installed s then fn s
     else if installed (install s) then fn (install s) else (- 1, install s))"
proof -
  have probe: "kernel_run None t = (fst (kernel_run None t), t)" for t
    using assms by (metis kernel_run_ok_def prod.collapse)
  have "(fst (kernel_run None t) = - 1) = (\<not> installed t)"
    and "installed t \<Longrightarrow> kernel_run (Some fn) t = fn t" for t
    using assms by (auto simp: kernel_run_ok_def)
  then show ?thesis
    by (subst ps4KernelRunMain_def, subst probe, subst (2) probe) (simp add: Let_def)
qed

section \<open>Symbol lookup\<close>

lemma name_match_from:
  assumes "holds_bytes m (n + of_nat j) (s @ [0])" and "0 \<notin> set s"
    and "holds_bytes m (name + of_nat j) (t @ [0])" and "0 \<notin> set t"
  shows "\<exists>i c d. name_match m n name j = Some (i, c, d) \<and>
    (c = 0 \<and> d = 0 \<longleftrightarrow> s = t) \<and> (s = t \<longrightarrow> i = j + length s)"
  using assms
proof (induction s arbitrary: j t)
  case Nil
  then show ?case
    by (cases t) (auto simp: name_match.simps [of m n name j] holds_bytes_Cons)
next
  case (Cons x s)
  show ?case
  proof (cases t)
    case Nil
    with Cons.prems show ?thesis
      by (auto simp: name_match.simps [of m n name j] holds_bytes_Cons)
  next
    case t: (Cons y t')
    show ?thesis
    proof (cases "x = y")
      case True
      have "\<exists>i c d. name_match m n name (Suc j) = Some (i, c, d) \<and>
          (c = 0 \<and> d = 0 \<longleftrightarrow> s = t') \<and> (s = t' \<longrightarrow> i = Suc j + length s)"
        using Cons.prems t by (intro Cons.IH) (auto simp: holds_bytes_Cons algebra_simps)
      with True t Cons.prems show ?thesis
        by (auto simp: name_match.simps [of m n name j] holds_bytes_Cons)
    next
      case False
      with t Cons.prems show ?thesis
        by (auto simp: name_match.simps [of m n name j] holds_bytes_Cons)
    qed
  qed
qed

lemma name_match_cstring:
  assumes "cstring_at m n s" and "cstring_at m name t"
  shows "\<exists>i c d. name_match m n name 0 = Some (i, c, d) \<and>
    (i > 0 \<and> c = 0 \<and> d = 0 \<longleftrightarrow> s = t \<and> t \<noteq> [])"
  using name_match_from [of m n 0 s name t] assms by (auto simp: cstring_at_def)

text \<open>A symbol table with \<open>k\<close>-th entry \<open>ss ! k\<close> whose name is \<open>names ! k\<close>, and the
  number of entries in front of the end the loop tests for.\<close>

definition symbol_table_at :: "memory \<Rightarrow> ptr \<Rightarrow> ptr \<Rightarrow> Elf64_Sym list \<Rightarrow> u8 list list \<Rightarrow> bool" where
  "symbol_table_at m symbols strings ss names \<longleftrightarrow> length names = length ss \<and>
     (\<forall>k < length ss. sym_at m (symbols + of_nat (24 * k)) = Some (ss ! k) \<and>
        cstring_at m (strings + ucast (st_name (ss ! k))) (names ! k))"

lemma ps4KernelDlSym_loop_find:
  assumes "symbol_table_at m symbols strings ss names" and "cstring_at m name t"
    and bound: "unat symbols + 24 * length ss < unat strings"
      "unat strings \<le> unat symbols + 24 * Suc (length ss)"
      "unat symbols + 24 * Suc (length ss) < address_space"
    and "i \<le> length ss"
  shows "ps4KernelDlSym_loop m strings name (symbols + of_nat (24 * i)) = Some
    (case find (\<lambda>k. names ! k = t \<and> t \<noteq> []) [i..<length ss] of
       Some k \<Rightarrow> st_value (ss ! k) | None \<Rightarrow> NULL)"
  using assms(6)
proof (induction i rule: inc_induct)
  case base
  have "\<not> symbols + of_nat (24 * length ss) + 24 < strings"
  proof -
    have "unat (symbols + of_nat (24 * length ss) + 24) = unat symbols + 24 * Suc (length ss)"
      using bound(3) by (simp add: unat_word_ariths unat_of_nat)
    then show ?thesis using bound(2) by (simp add: word_less_nat_alt)
  qed
  then show ?case by (simp add: ps4KernelDlSym_loop.simps [of m strings name])
next
  case (step i)
  have un: "unat (symbols + of_nat (24 * i) + 24) = unat symbols + 24 * Suc i"
    using step.hyps bound(1) unat_ptr_less [of strings] by (simp add: unat_word_ariths unat_of_nat)
  then have lt: "symbols + of_nat (24 * i) + 24 < strings"
    using step.hyps bound(1) by (simp add: word_less_nat_alt)
  have at: "sym_at m (symbols + of_nat (24 * i)) = Some (ss ! i)"
    and nm: "cstring_at m (strings + ucast (st_name (ss ! i))) (names ! i)"
    using assms(1) step.hyps by (auto simp: symbol_table_at_def)
  from name_match_cstring [OF nm assms(2)] obtain j c d where
    "name_match m (strings + ucast (st_name (ss ! i))) name 0 = Some (j, c, d)"
    "(j > 0 \<and> c = 0 \<and> d = 0) = (names ! i = t \<and> t \<noteq> [])" by blast
  moreover have "[i..<length ss] = i # [Suc i..<length ss]" using step.hyps by (simp add: upt_conv_Cons)
  moreover have "symbols + of_nat (24 * Suc i) = symbols + of_nat (24 * i) + 24"
    by (simp add: algebra_simps)
  note IH = step.IH [unfolded this]
  ultimately show ?case
    using lt IH sym_atD [OF at]
    by (simp add: ps4KernelDlSym_loop.simps [of m strings name "symbols + of_nat (24 * i)"] del: of_nat_mult)
qed

text \<open>C28 In the kernel, after initialisation, looking a symbol up returns the value of the first entry
  with that name, and \<open>NULL\<close> when there is none or the name is empty; the lookup ends and changes
  nothing.  The entries it sees are those that end strictly before the string table: when the string
  table follows the symbols directly, the last symbol is not among them.\<close>

theorem ps4KernelDlSym_first:
  assumes "ps4KernelIsInKernel sp" and "ps4KernelInternalInitialized g"
    and "symbol_table_at m (ps4KernelElfSymbols g) (ps4KernelElfStrings g) ss names"
    and "cstring_at m name t"
    and "unat (ps4KernelElfSymbols g) + 24 * length ss < unat (ps4KernelElfStrings g)"
    and "unat (ps4KernelElfStrings g) \<le> unat (ps4KernelElfSymbols g) + 24 * Suc (length ss)"
    and "unat (ps4KernelElfSymbols g) + 24 * Suc (length ss) < address_space"
  shows "ps4KernelDlSym sp buf argv run_main name m g = Some
    (case find (\<lambda>k. names ! k = t \<and> t \<noteq> []) [0..<length ss] of
       Some k \<Rightarrow> st_value (ss ! k) | None \<Rightarrow> NULL, m, g)"
  using ps4KernelDlSym_loop_find [OF assms(3-7), of 0] assms(1,2)
  by (simp add: ps4KernelDlSym_def ensure_initialized_def)

lemma store_argv_total:
  "mapped m argv (8 * length ws) \<Longrightarrow> 8 * length ws < address_space \<Longrightarrow>
     \<exists>m'. store_argv m argv ws = Some m' \<and> dom m' = dom m"
proof (induction ws arbitrary: m argv)
  case (Cons w ws)
  have "mapped m (argv + 0) 8" by (rule mapped_sub [OF Cons.prems(1)]) simp
  then obtain m1 where m1: "store64 m argv w = Some m1" using store64_mapped [of m argv w] by auto
  have "mapped m (argv + 8) (8 * length ws)" by (rule mapped_sub [OF Cons.prems(1)]) simp
  then have "mapped m1 (argv + 8) (8 * length ws)" using mapped_cong_dom [OF dom_store64 [OF m1]] by simp
  from Cons.IH [OF this] Cons.prems(2) obtain m2 where "store_argv m1 (argv + 8) ws = Some m2" "dom m2 = dom m1"
    by auto
  with m1 dom_store64 [OF m1] show ?case by simp
qed simp

lemma store_argv_below:
  assumes "store_argv m argv ws = Some m'" and "disjoint_regions a 8 argv (8 * length ws)"
  shows "load64 m' a = load64 m a"
  using assms
proof (induction ws arbitrary: m argv)
  case (Cons w ws)
  from Cons.prems obtain m1 where m1: "store64 m argv w = Some m1" "store_argv m1 (argv + 8) ws = Some m'"
    by (auto simp: Some_bind_conv)
  have d: "disjoint_regions a 8 argv 8" using Cons.prems(2) by (auto simp: disjoint_regions_def)
  show ?case
  proof (cases "ws = []")
    case True
    then show ?thesis using load64_store64_other [OF m1(1) d] m1(2) by simp
  next
    case False
    then have "8 \<le> 8 * length ws" by (cases ws) auto
    then have "unat (argv + 8) = unat argv + 8"
      using Cons.prems(2) by (simp add: disjoint_regions_def unat_word_ariths)
    then have "disjoint_regions a 8 (argv + 8) (8 * length ws)"
      using Cons.prems(2) by (auto simp: disjoint_regions_def)
    with Cons.IH [OF m1(2)] load64_store64_other [OF m1(1) d] show ?thesis by simp
  qed
qed simp

lemma store_argv_second:
  assumes "store_argv m argv (v # w # ws) = Some m'"
    and "unat argv + 8 * length (v # w # ws) \<le> address_space"
  shows "load64 m' (argv + 8) = Some w"
proof -
  from assms(1) obtain m1 m2 where m1: "store64 m argv v = Some m1" "store64 m1 (argv + 8) w = Some m2"
    "store_argv m2 (argv + 8 + 8) ws = Some m'" by (auto simp: Some_bind_conv)
  have u: "unat (argv + 8) = unat argv + 8" using assms(2) by (simp add: unat_word_ariths)
  show ?thesis
  proof (cases "ws = []")
    case True
    then show ?thesis using load64_store64_same [OF m1(2)] m1(3) by simp
  next
    case False
    then have "8 \<le> 8 * length ws" by (cases ws) auto
    then have "unat (argv + 8 + 8) = unat argv + 16"
      using assms(2) u by (subst unat_word_ariths(1)) simp
    then have "disjoint_regions (argv + 8) 8 (argv + 8 + 8) (8 * length ws)"
      using assms(2) u by (auto simp: disjoint_regions_def)
    with store_argv_below [OF m1(3)] load64_store64_same [OF m1(2)] show ?thesis by simp
  qed
qed

text \<open>A lookup from user mode gives the answer of the lookup in kernel mode: the name travels to the
  wrapper in the argument vector and the value comes back in its first slot.\<close>

lemma ps4KernelDlSym_user:
  assumes "\<not> ps4KernelIsInKernel usp" and "unat argv + 24 \<le> address_space"
    and "store_argv m argv [NULL, name, NULL] = Some m1"
    and "ps4KernelDlSym ksp kbuf kframe run name m1 g = Some (r, m2, g2)" and "mapped m2 argv 8"
  shows "\<exists>m3. ps4KernelDlSym usp buf argv
      (\<lambda>m g. map_option snd (ps4KernelDlSymWrapper ksp kbuf kframe run argv m g)) name m g = Some (r, m3, g2) \<and>
    outside m3 argv 8 = outside m2 argv 8"
proof -
  have "load64 m1 (argv + 8) = Some name"
    using store_argv_second [OF assms(3)] assms(2) by simp
  moreover obtain m3 where m3: "store64 m2 argv r = Some m3" using assms(5) store64_mapped by blast
  moreover have "outside m3 argv 8 = outside m2 argv 8"
    by (rule outside_eqI) (simp add: store64_apply [OF m3])
  ultimately show ?thesis
    using assms(1,3,4) load64_store64_same [OF m3]
    by (simp add: ps4KernelDlSym_def [of usp] ps4KernelDlSymWrapper_def)
qed

text \<open>Kernel allocations from user mode pass the size through the argument vector and return the
  block of the bump allocator; freeing is accepted and gives nothing back.\<close>

lemma ps4KernelMalloc_block:
  assumes "unat argv + 24 \<le> address_space" and "mapped m argv 24" and "ps4KernelInternalInitialized g"
  shows "\<exists>m1 m2. ps4KernelMalloc (\<lambda>argc. ps4KernelExploitPayloadMalloc buf) argv sz m g =
      Some (ps4KernelExecutableAddress g, m1,
        g\<lparr>ps4KernelExecutableAddress := ps4KernelExecutableAddress g + sz\<rparr>) \<and>
    ps4KernelFree (\<lambda>argc. ps4KernelExploitPayloadFree) argv a m g = Some (m2, g)"
proof -
  let ?a = "ps4KernelExecutableAddress g"
  obtain m1 where m1: "store_argv m argv [NULL, sz, NULL] = Some m1" and d1: "dom m1 = dom m"
    using store_argv_total [of m argv "[NULL, sz, NULL]"] assms(2) by auto
  have ld: "load64 m1 (argv + 8) = Some sz" using store_argv_second [OF m1] assms(1) by simp
  have "mapped m1 argv 24" using mapped_cong_dom [OF d1] assms(2) by simp
  then have "mapped m1 (argv + 0) 8" by (rule mapped_sub) simp
  then obtain m2 where m2: "store64 m1 argv ?a = Some m2" using store64_mapped [of m1 argv ?a] by auto
  have "mapped m (argv + 0) 16" by (rule mapped_sub [OF assms(2)]) simp
  then obtain m3 where m3: "store_argv m argv [a, NULL] = Some m3" and d3: "dom m3 = dom m"
    using store_argv_total [of m argv "[a, NULL]"] by auto
  have "mapped m3 argv 24" using mapped_cong_dom [OF d3] assms(2) by simp
  then have "mapped m3 (argv + 0) 8" by (rule mapped_sub) simp
  then obtain v where v: "load64 m3 argv = Some v"
    using load_bytes_mapped [of m3 argv 8] by (auto simp: load64_def)
  show ?thesis
    using m1 m2 m3 ld v assms(3) load64_store64_same [OF m2]
    by (simp add: ps4KernelMalloc_def ps4KernelFree_def ps4KernelExploitPayloadMalloc_def
        ps4KernelExploitPayloadFree_def ps4KernelExecutableMemoryFree_def
        ps4KernelExecutableMemoryMalloc_def ensure_initialized_def Let_def)
qed

end
