(* ===== verification/Resolve.thy ===== *)
theory Resolve
  imports Kernel_Services
begin

text \<open>
  Symbol resolution: \<open>source/ps4/internal/resolve.c\<close>, the statuses and the state of
  \<open>include/ps4/resolve.h\<close>, and the machine code of the stubs of
  \<open>include/ps4/internal/stub.h\<close> as the bytes the assembler makes of them.

  The handlers of the client, the system calls, the module loader and the kernel lookup are
  parameters.  A handler gets the state record and may change it and memory.  A result \<open>None\<close> is
  a fault.
\<close>

section \<open>Statuses, state, environment\<close>

datatype PS4ResolveStatus =
    PS4ResolveStatusSuccess
  | PS4ResolveStatusInterceptContinue
  | PS4ResolveStatusInterceptFailure
  | PS4ResolveStatusArgumentError
  | PS4ResolveStatusKernelLoadError
  | PS4ResolveStatusLSMResolveError
  | PS4ResolveStatusModuleLoadError
  | PS4ResolveStatusFunctionResolveError
  | PS4ResolveStatusKernelFunctionResolveError

record PS4ResolveState =
  rs_module :: ptr
  rs_symbol :: ptr
  rs_moduleId :: ptr
  rs_userAddress :: ptr
  rs_kernelAddress :: ptr
  rs_function :: ptr
  rs_isKernel :: bool
  rs_status :: PS4ResolveStatus

type_synonym handler_fn =
  "PS4ResolveState \<Rightarrow> memory \<Rightarrow> PS4ResolveStatus \<times> PS4ResolveState \<times> memory"

text \<open>\<open>None\<close> is the null handler.\<close>

record handlers =
  ps4ResolveErrorHandler :: "handler_fn option"
  ps4ResolvePreHandler :: "handler_fn option"
  ps4ResolvePostHandler :: "handler_fn option"

text \<open>
  The environment: \<open>ps4KernelDlSym\<close>; system call 594 for \<open>libkernel.sprx\<close>, by the value it
  leaves in \<open>k\<close>; system call 591 for \<open>sceKernelLoadStartModule\<close>, by its result and the value
  it leaves in \<open>lsm\<close>; the call through \<open>lsm\<close>; and system call 591 for a symbol and the
  place of its address.
\<close>

record resolve_env =
  env_kernel_dlsym :: "ptr \<Rightarrow> memory \<Rightarrow> (u64 \<times> memory) option"
  env_load_libkernel :: u32
  env_resolve_lsm :: "u32 \<Rightarrow> ptr \<Rightarrow> u64 \<times> ptr"
  env_lsm :: "ptr \<Rightarrow> ptr \<Rightarrow> u32"
  env_dlsym :: "u32 \<Rightarrow> ptr \<Rightarrow> ptr \<Rightarrow> memory \<Rightarrow> (u64 \<times> memory) option"

text \<open>The variables of the run: the state, memory, and the static \<open>lsm\<close>.\<close>

record resolve_run =
  run_state :: PS4ResolveState
  run_mem :: memory
  run_lsm :: ptr

type_synonym resolve_result = "(PS4ResolveStatus \<times> resolve_run) option"

section \<open>Handlers and early returns\<close>

definition ps4ResolveCallHandler ::
  "handler_fn option \<Rightarrow> PS4ResolveStatus \<Rightarrow> resolve_run \<Rightarrow> PS4ResolveStatus \<times> resolve_run" where
  "ps4ResolveCallHandler handler status s =
     (let st = (run_state s)\<lparr>rs_status := status\<rparr> in
      case handler of
        None \<Rightarrow> (status, s\<lparr>run_state := st\<rparr>)
      | Some f \<Rightarrow> (case f st (run_mem s) of (r, st', m') \<Rightarrow>
          (r, s\<lparr>run_state := st', run_mem := m'\<rparr>)))"

text \<open>\<open>if((status = call(handler, ..)) != InterceptContinue) return status;\<close> followed by the rest.\<close>

definition intercept ::
  "handler_fn option \<Rightarrow> PS4ResolveStatus \<Rightarrow> resolve_run \<Rightarrow> (resolve_run \<Rightarrow> resolve_result) \<Rightarrow> resolve_result"
where
  "intercept handler status s rest =
     (case ps4ResolveCallHandler handler status s of (r, s') \<Rightarrow>
        if r \<noteq> PS4ResolveStatusInterceptContinue then Some (r, s') else rest s')"

definition intercept_if ::
  "bool \<Rightarrow> handler_fn option \<Rightarrow> PS4ResolveStatus \<Rightarrow> resolve_run \<Rightarrow> (resolve_run \<Rightarrow> resolve_result) \<Rightarrow>
     resolve_result" where
  "intercept_if c handler status s rest = (if c then intercept handler status s rest else rest s)"

text \<open>\<open>ps4StubType\<close> reads the byte at offset 2 as a signed \<open>char\<close>.\<close>

definition ps4StubType :: "memory \<Rightarrow> ptr \<Rightarrow> u32 option" where
  "ps4StubType m fn = map_option scast (load8 m (fn + 2))"

abbreviation (input) PS4StubTypeFunction :: u32 where "PS4StubTypeFunction \<equiv> 0"
abbreviation (input) PS4StubTypeKernelFunction :: u32 where "PS4StubTypeKernelFunction \<equiv> 1"

section \<open>The resolver\<close>

definition resolve_kernel_symbol ::
  "resolve_env \<Rightarrow> handlers \<Rightarrow> ptr \<Rightarrow> resolve_run \<Rightarrow> resolve_result" where
  "resolve_kernel_symbol env hs function s = do {
     ty \<leftarrow> ps4StubType (run_mem s) function;
     intercept_if (ty = PS4StubTypeFunction) (ps4ResolveErrorHandler hs) PS4ResolveStatusArgumentError s (\<lambda>s.
     intercept_if (rs_symbol (run_state s) = NULL \<or> rs_kernelAddress (run_state s) = NULL)
       (ps4ResolveErrorHandler hs) PS4ResolveStatusArgumentError s (\<lambda>s. do {
     (a, m1) \<leftarrow> env_kernel_dlsym env (rs_symbol (run_state s)) (run_mem s);
     m2 \<leftarrow> store64 m1 (rs_kernelAddress (run_state s)) a;
     b \<leftarrow> load64 m2 (rs_kernelAddress (run_state s));
     intercept_if (b = NULL) (ps4ResolveErrorHandler hs) PS4ResolveStatusKernelFunctionResolveError
       (s\<lparr>run_mem := m2\<rparr>) (\<lambda>s.
     intercept (ps4ResolvePostHandler hs) PS4ResolveStatusInterceptContinue s (\<lambda>s.
       Some (PS4ResolveStatusSuccess, s))) })) }"

text \<open>The load of the module, when its identifier is not known yet.\<close>

definition resolve_lsm ::
  "resolve_env \<Rightarrow> handlers \<Rightarrow> resolve_run \<Rightarrow> (resolve_run \<Rightarrow> resolve_result) \<Rightarrow> resolve_result" where
  "resolve_lsm env hs s rest =
     (if run_lsm s \<noteq> NULL then rest s
      else let k = env_load_libkernel env in
        intercept_if (sint k \<le> 0) (ps4ResolveErrorHandler hs) PS4ResolveStatusKernelLoadError s (\<lambda>s.
        case env_resolve_lsm env k (run_lsm s) of (r, l) \<Rightarrow>
          intercept_if (r \<noteq> 0) (ps4ResolveErrorHandler hs) PS4ResolveStatusLSMResolveError
            (s\<lparr>run_lsm := l\<rparr>) rest))"

definition resolve_module ::
  "resolve_env \<Rightarrow> handlers \<Rightarrow> resolve_run \<Rightarrow> (resolve_run \<Rightarrow> resolve_result) \<Rightarrow> resolve_result" where
  "resolve_module env hs s rest = do {
     i \<leftarrow> load32 (run_mem s) (rs_moduleId (run_state s));
     if sint i \<le> 0 then resolve_lsm env hs s (\<lambda>s. do {
       i \<leftarrow> (if run_lsm s = NULL then None else Some (env_lsm env (run_lsm s) (rs_module (run_state s))));
       m1 \<leftarrow> store32 (run_mem s) (rs_moduleId (run_state s)) i;
       j \<leftarrow> load32 m1 (rs_moduleId (run_state s));
       intercept_if (sint j \<le> 0) (ps4ResolveErrorHandler hs) PS4ResolveStatusModuleLoadError
         (s\<lparr>run_mem := m1\<rparr>) rest })
     else rest s }"

definition resolve_user_symbol ::
  "resolve_env \<Rightarrow> handlers \<Rightarrow> resolve_run \<Rightarrow> resolve_result" where
  "resolve_user_symbol env hs s =
     intercept_if (rs_moduleId (run_state s) = NULL \<or> rs_userAddress (run_state s) = NULL \<or>
         rs_module (run_state s) = NULL \<or> rs_symbol (run_state s) = NULL)
       (ps4ResolveErrorHandler hs) PS4ResolveStatusArgumentError s (\<lambda>s.
     resolve_module env hs s (\<lambda>s. do {
       i \<leftarrow> load32 (run_mem s) (rs_moduleId (run_state s));
       (r, m1) \<leftarrow> env_dlsym env i (rs_symbol (run_state s)) (rs_userAddress (run_state s)) (run_mem s);
       intercept_if (r \<noteq> 0) (ps4ResolveErrorHandler hs) PS4ResolveStatusFunctionResolveError
         (s\<lparr>run_mem := m1\<rparr>) (\<lambda>s.
       intercept (ps4ResolvePostHandler hs) PS4ResolveStatusInterceptContinue s (\<lambda>s.
         Some (PS4ResolveStatusSuccess, s))) }))"

definition ps4ResolveModuleAndSymbolOrKernelSymbol ::
  "resolve_env \<Rightarrow> handlers \<Rightarrow> ptr \<Rightarrow> ptr \<Rightarrow> memory \<Rightarrow>
     ptr \<Rightarrow> ptr \<Rightarrow> ptr \<Rightarrow> ptr \<Rightarrow> ptr \<Rightarrow> ptr \<Rightarrow> resolve_result" where
  "ps4ResolveModuleAndSymbolOrKernelSymbol env hs sp lsm m
     module symb moduleId userAddress kernelAddress function =
     intercept (ps4ResolvePreHandler hs) PS4ResolveStatusInterceptContinue
       \<lparr>run_state = \<lparr>rs_module = module, rs_symbol = symb, rs_moduleId = moduleId,
           rs_userAddress = userAddress, rs_kernelAddress = kernelAddress, rs_function = function,
           rs_isKernel = ps4KernelIsInKernel sp, rs_status = PS4ResolveStatusSuccess\<rparr>,
         run_mem = m, run_lsm = lsm\<rparr>
       (\<lambda>s. if rs_isKernel (run_state s) then resolve_kernel_symbol env hs function s
         else do {
           ty \<leftarrow> ps4StubType (run_mem s) function;
           if ty = PS4StubTypeKernelFunction then resolve_kernel_symbol env hs function s
           else resolve_user_symbol env hs s })"

text \<open>Resolution of a stub from its own machine code: the operands are read from the places they have
  in the stub's instructions.  An early return carries only its status.\<close>

definition ps4Resolve ::
  "resolve_env \<Rightarrow> handlers \<Rightarrow> ptr \<Rightarrow> ptr \<Rightarrow> memory \<Rightarrow> ptr \<Rightarrow> (PS4ResolveStatus \<times> resolve_run option) option" where
  "ps4Resolve env hs sp lsm m f = do {
     let error = Some (PS4ResolveStatusFunctionResolveError, None);
     let go = (\<lambda>module symb moduleId userAddress kernelAddress fn.
       if fn \<noteq> f then error
       else map_option (\<lambda>(r, s). (r, Some s))
         (ps4ResolveModuleAndSymbolOrKernelSymbol env hs sp lsm m
            module symb moduleId userAddress kernelAddress f));
     b0 \<leftarrow> load8 m f;
     if b0 \<noteq> 0xa8 then error else do {
     b1 \<leftarrow> load8 m (f + 1);
     if b1 = 0 then do {
       module \<leftarrow> load64 m (f + 32); symb \<leftarrow> load64 m (f + 42); moduleId \<leftarrow> load64 m (f + 52);
       userAddress \<leftarrow> load64 m (f + 62); fn \<leftarrow> load64 m (f + 72);
       go module symb moduleId userAddress NULL fn }
     else if b1 = 1 then do {
       symb \<leftarrow> load64 m (f + 32); kernelAddress \<leftarrow> load64 m (f + 42); fn \<leftarrow> load64 m (f + 52);
       go NULL symb NULL NULL kernelAddress fn }
     else if b1 = 2 then do {
       module \<leftarrow> load64 m (f + 64); symb \<leftarrow> load64 m (f + 74); moduleId \<leftarrow> load64 m (f + 84);
       userAddress \<leftarrow> load64 m (f + 94); kernelAddress \<leftarrow> load64 m (f + 104); fn \<leftarrow> load64 m (f + 114);
       go module symb moduleId userAddress kernelAddress fn }
     else if b1 = 3 then do {
       symb \<leftarrow> load64 m (f + 56); kernelAddress \<leftarrow> load64 m (f + 66); fn \<leftarrow> load64 m (f + 76);
       go NULL symb NULL NULL kernelAddress fn }
     else if b1 = 4 then Some (PS4ResolveStatusSuccess, None)
     else error }}"

definition ps4ResolveSetErrorHandler :: "handler_fn option \<Rightarrow> handlers \<Rightarrow> handler_fn option \<times> handlers" where
  "ps4ResolveSetErrorHandler h hs = (ps4ResolveErrorHandler hs, hs\<lparr>ps4ResolveErrorHandler := h\<rparr>)"

definition ps4ResolveSetPreHandler :: "handler_fn option \<Rightarrow> handlers \<Rightarrow> handler_fn option \<times> handlers" where
  "ps4ResolveSetPreHandler h hs = (ps4ResolvePreHandler hs, hs\<lparr>ps4ResolvePreHandler := h\<rparr>)"

definition ps4ResolveSetPostHandler :: "handler_fn option \<Rightarrow> handlers \<Rightarrow> handler_fn option \<times> handlers" where
  "ps4ResolveSetPostHandler h hs = (ps4ResolvePostHandler hs, hs\<lparr>ps4ResolvePostHandler := h\<rparr>)"

section \<open>The machine code of the stubs\<close>

text \<open>
  The instructions of the stubs up to the last operand, as x86-64 bytes.  The parameter
  \<open>pushall\<close> is the 32-bit displacement of the call to \<open>ps4Pushall\<close>, \<open>kerncall\<close> that of the
  jump to \<open>ps4Kerncall\<close>, and \<open>rest\<close> the code behind the operands.
\<close>

definition movabs_load :: "ptr \<Rightarrow> u8 list" where
  "movabs_load a = [0x48, 0xa1] @ bytes_of_word 8 a"

definition movabs_rdi :: "u64 \<Rightarrow> u8 list" where "movabs_rdi v = [0x48, 0xbf] @ bytes_of_word 8 v"
definition movabs_rsi :: "u64 \<Rightarrow> u8 list" where "movabs_rsi v = [0x48, 0xbe] @ bytes_of_word 8 v"
definition movabs_rdx :: "u64 \<Rightarrow> u8 list" where "movabs_rdx v = [0x48, 0xba] @ bytes_of_word 8 v"
definition movabs_rcx :: "u64 \<Rightarrow> u8 list" where "movabs_rcx v = [0x48, 0xb9] @ bytes_of_word 8 v"
definition movabs_r8 :: "u64 \<Rightarrow> u8 list" where "movabs_r8 v = [0x49, 0xb8] @ bytes_of_word 8 v"
definition movabs_r9 :: "u64 \<Rightarrow> u8 list" where "movabs_r9 v = [0x49, 0xb9] @ bytes_of_word 8 v"

abbreviation (input) test_al :: "u8 \<Rightarrow> u8 list" where "test_al n \<equiv> [0xa8, n]"
abbreviation (input) mov_rax_r11 :: "u8 list" where "mov_rax_r11 \<equiv> [0x49, 0x89, 0xc3]"
abbreviation (input) mov_rsp_rax :: "u8 list" where "mov_rsp_rax \<equiv> [0x48, 0x89, 0xe0]"
abbreviation (input) shr_48_rax :: "u8 list" where "shr_48_rax \<equiv> [0x48, 0xc1, 0xe8, 0x30]"
abbreviation (input) test_rax :: "u8 list" where "test_rax \<equiv> [0x48, 0x85, 0xc0]"
abbreviation (input) xchg_rax_r11 :: "u8 list" where "xchg_rax_r11 \<equiv> [0x49, 0x93]"
abbreviation (input) test_r11 :: "u8 list" where "test_r11 \<equiv> [0x4d, 0x85, 0xdb]"
abbreviation (input) jz :: "u8 \<Rightarrow> u8 list" where "jz d \<equiv> [0x74, d]"
abbreviation (input) jnz :: "u8 \<Rightarrow> u8 list" where "jnz d \<equiv> [0x75, d]"
abbreviation (input) jmp_r11 :: "u8 list" where "jmp_r11 \<equiv> [0x41, 0xff, 0xe3]"

definition call_rel :: "u32 \<Rightarrow> u8 list" where "call_rel d = 0xe8 # bytes_of_word 4 d"
definition jmp_rel :: "u32 \<Rightarrow> u8 list" where "jmp_rel d = 0xe9 # bytes_of_word 4 d"
definition movq_imm_rax :: "u32 \<Rightarrow> u8 list" where "movq_imm_rax n = [0x48, 0xc7, 0xc0] @ bytes_of_word 4 n"

definition PS4FunctionStub :: "u32 \<Rightarrow> u8 list \<Rightarrow> ptr \<Rightarrow> ptr \<Rightarrow> ptr \<Rightarrow> ptr \<Rightarrow> ptr \<Rightarrow> u8 list" where
  "PS4FunctionStub pushall rest function moduleName functionName moduleHandle functionAddress =
     test_al 0 @ mov_rax_r11 @ movabs_load functionAddress @ xchg_rax_r11 @ test_r11 @ jz 3 @ jmp_r11 @
     call_rel pushall @ movabs_rdi moduleName @ movabs_rsi functionName @ movabs_rdx moduleHandle @
     movabs_rcx functionAddress @ movabs_r9 function @ rest"

definition PS4KernelFunctionStub :: "u32 \<Rightarrow> u8 list \<Rightarrow> ptr \<Rightarrow> ptr \<Rightarrow> ptr \<Rightarrow> u8 list" where
  "PS4KernelFunctionStub pushall rest function functionName functionAddress =
     test_al 1 @ mov_rax_r11 @ movabs_load functionAddress @ xchg_rax_r11 @ test_r11 @ jz 3 @ jmp_r11 @
     call_rel pushall @ movabs_rsi functionName @ movabs_r8 functionAddress @ movabs_r9 function @ rest"

definition PS4FunctionAndKernelFunctionStub ::
  "u32 \<Rightarrow> u8 list \<Rightarrow> ptr \<Rightarrow> ptr \<Rightarrow> ptr \<Rightarrow> ptr \<Rightarrow> ptr \<Rightarrow> ptr \<Rightarrow> u8 list" where
  "PS4FunctionAndKernelFunctionStub pushall rest function moduleName functionName moduleHandle
     userFunctionAddress kernelFunctionAddress =
     test_al 2 @ mov_rax_r11 @ mov_rsp_rax @ shr_48_rax @ test_rax @ jnz 20 @
     movabs_load userFunctionAddress @ xchg_rax_r11 @ test_r11 @ jz 23 @ jmp_r11 @
     movabs_load kernelFunctionAddress @ xchg_rax_r11 @ test_r11 @ jz 3 @ jmp_r11 @
     call_rel pushall @ movabs_rdi moduleName @ movabs_rsi functionName @ movabs_rdx moduleHandle @
     movabs_rcx userFunctionAddress @ movabs_r8 kernelFunctionAddress @ movabs_r9 function @ rest"

definition PS4SyscallAndKernelFunctionStub ::
  "u32 \<Rightarrow> u32 \<Rightarrow> u8 list \<Rightarrow> ptr \<Rightarrow> ptr \<Rightarrow> ptr \<Rightarrow> u32 \<Rightarrow> u8 list" where
  "PS4SyscallAndKernelFunctionStub kerncall pushall rest function functionName functionAddress number =
     test_al 3 @ mov_rax_r11 @ mov_rsp_rax @ shr_48_rax @ test_rax @ jnz 12 @
     movq_imm_rax number @ jmp_rel kerncall @
     movabs_load functionAddress @ xchg_rax_r11 @ test_r11 @ jz 3 @ jmp_r11 @
     call_rel pushall @ movabs_rdi functionName @ movabs_r8 functionAddress @ movabs_r9 function @ rest"

definition PS4SyscallStub :: "u32 \<Rightarrow> u32 \<Rightarrow> u8 list" where
  "PS4SyscallStub kerncall number = test_al 4 @ movq_imm_rax number @ jmp_rel kerncall"

section \<open>The layout of the stubs\<close>

datatype stub =
    FunctionStub (stub_module: ptr) (stub_symbol: ptr) (stub_handle: ptr) (stub_user: ptr)
  | KernelFunctionStub (stub_symbol: ptr) (stub_kernel: ptr)
  | FunctionAndKernelFunctionStub (stub_module: ptr) (stub_symbol: ptr) (stub_handle: ptr)
      (stub_user: ptr) (stub_kernel: ptr)
  | SyscallAndKernelFunctionStub (stub_symbol: ptr) (stub_kernel: ptr) (stub_number: u32)

primrec stub_code :: "u32 \<Rightarrow> u32 \<Rightarrow> u8 list \<Rightarrow> ptr \<Rightarrow> stub \<Rightarrow> u8 list" where
  "stub_code kerncall pushall rest f (FunctionStub mn fn mh ua) =
     PS4FunctionStub pushall rest f mn fn mh ua"
| "stub_code kerncall pushall rest f (KernelFunctionStub fn ka) =
     PS4KernelFunctionStub pushall rest f fn ka"
| "stub_code kerncall pushall rest f (FunctionAndKernelFunctionStub mn fn mh ua ka) =
     PS4FunctionAndKernelFunctionStub pushall rest f mn fn mh ua ka"
| "stub_code kerncall pushall rest f (SyscallAndKernelFunctionStub fn ka number) =
     PS4SyscallAndKernelFunctionStub kerncall pushall rest f fn ka number"

text \<open>The arguments the resolver is meant to get for a stub, absent ones as \<open>NULL\<close>.\<close>

primrec stub_args :: "stub \<Rightarrow> ptr \<times> ptr \<times> ptr \<times> ptr \<times> ptr" where
  "stub_args (FunctionStub mn fn mh ua) = (mn, fn, mh, ua, NULL)"
| "stub_args (KernelFunctionStub fn ka) = (NULL, fn, NULL, NULL, ka)"
| "stub_args (FunctionAndKernelFunctionStub mn fn mh ua ka) = (mn, fn, mh, ua, ka)"
| "stub_args (SyscallAndKernelFunctionStub fn ka number) = (NULL, fn, NULL, NULL, ka)"

lemmas movabs_defs = movabs_load_def movabs_rdi_def movabs_rsi_def movabs_rdx_def movabs_rcx_def
  movabs_r8_def movabs_r9_def

lemmas stub_defs = PS4FunctionStub_def PS4KernelFunctionStub_def PS4FunctionAndKernelFunctionStub_def
  PS4SyscallAndKernelFunctionStub_def movabs_defs call_rel_def jmp_rel_def movq_imm_rax_def

lemma FunctionStub_layout:
  assumes "holds_bytes m f (PS4FunctionStub pushall rest f mn fn mh ua)"
  shows "load8 m f = Some 0xa8 \<and> load8 m (f + 1) = Some 0 \<and> load8 m (f + 2) = Some 0x49 \<and>
    load64 m (f + 32) = Some mn \<and> load64 m (f + 42) = Some fn \<and> load64 m (f + 52) = Some mh \<and>
    load64 m (f + 62) = Some ua \<and> load64 m (f + 72) = Some f"
  using assms by (simp add: stub_defs holds_bytes_append holds_bytes_Cons load64_holds add.assoc)

lemma KernelFunctionStub_layout:
  assumes "holds_bytes m f (PS4KernelFunctionStub pushall rest f fn ka)"
  shows "load8 m f = Some 0xa8 \<and> load8 m (f + 1) = Some 1 \<and> load8 m (f + 2) = Some 0x49 \<and>
    load64 m (f + 32) = Some fn \<and> load64 m (f + 42) = Some ka \<and> load64 m (f + 52) = Some f"
  using assms by (simp add: stub_defs holds_bytes_append holds_bytes_Cons load64_holds add.assoc)

lemma FunctionAndKernelFunctionStub_layout:
  assumes "holds_bytes m f (PS4FunctionAndKernelFunctionStub pushall rest f mn fn mh ua ka)"
  shows "load8 m f = Some 0xa8 \<and> load8 m (f + 1) = Some 2 \<and> load8 m (f + 2) = Some 0x49 \<and>
    load64 m (f + 64) = Some mn \<and> load64 m (f + 74) = Some fn \<and> load64 m (f + 84) = Some mh \<and>
    load64 m (f + 94) = Some ua \<and> load64 m (f + 104) = Some ka \<and> load64 m (f + 114) = Some f"
  using assms by (simp add: stub_defs holds_bytes_append holds_bytes_Cons load64_holds add.assoc)

lemma SyscallAndKernelFunctionStub_layout:
  assumes "holds_bytes m f (PS4SyscallAndKernelFunctionStub kerncall pushall rest f fn ka number)"
  shows "load8 m f = Some 0xa8 \<and> load8 m (f + 1) = Some 3 \<and> load8 m (f + 2) = Some 0x49 \<and>
    load64 m (f + 56) = Some fn \<and> load64 m (f + 66) = Some ka \<and> load64 m (f + 76) = Some f"
  using assms by (simp add: stub_defs holds_bytes_append holds_bytes_Cons load64_holds add.assoc)

lemmas stub_layouts = FunctionStub_layout KernelFunctionStub_layout FunctionAndKernelFunctionStub_layout
  SyscallAndKernelFunctionStub_layout

lemma ps4Resolve_stub_code:
  assumes "holds_bytes m f (stub_code kerncall pushall rest f st)"
  shows "ps4Resolve env hs sp lsm m f = map_option (\<lambda>(r, s). (r, Some s))
    (case stub_args st of (mn, fn, mh, ua, ka) \<Rightarrow>
       ps4ResolveModuleAndSymbolOrKernelSymbol env hs sp lsm m mn fn mh ua ka f)"
proof (cases st)
  case (FunctionStub mn fn mh ua)
  with FunctionStub_layout [of m f pushall rest mn fn mh ua] assms show ?thesis
    by (simp add: ps4Resolve_def Let_def)
next
  case (KernelFunctionStub fn ka)
  with KernelFunctionStub_layout [of m f pushall rest fn ka] assms show ?thesis
    by (simp add: ps4Resolve_def Let_def)
next
  case (FunctionAndKernelFunctionStub mn fn mh ua ka)
  with FunctionAndKernelFunctionStub_layout [of m f pushall rest mn fn mh ua ka] assms show ?thesis
    by (simp add: ps4Resolve_def Let_def)
next
  case (SyscallAndKernelFunctionStub fn ka number)
  with SyscallAndKernelFunctionStub_layout [of m f kerncall pushall rest fn ka number] assms show ?thesis
    by (simp add: ps4Resolve_def Let_def)
qed

lemma ps4StubType_stub:
  assumes "holds_bytes m f (stub_code kerncall pushall rest f st)"
  shows "ps4StubType m f = Some 0x49"
proof -
  have "load8 m (f + 2) = Some 0x49"
    using assms by (cases st) (auto dest!: stub_layouts)
  then show ?thesis by (simp add: ps4StubType_def)
qed

text \<open>C5 The offsets at which \<open>ps4Resolve\<close> reads agree with the code of the stubs: for each of the
  four resolvable stubs it calls the resolver with exactly the operands the stub was built from, the
  absent ones as \<open>NULL\<close>.\<close>

theorem ps4Resolve_layout:
  assumes "holds_bytes m f (stub_code kerncall pushall rest f st)"
  shows "ps4Resolve env hs sp lsm m f = map_option (\<lambda>(r, s). (r, Some s))
    (case stub_args st of (mn, fn, mh, ua, ka) \<Rightarrow>
       ps4ResolveModuleAndSymbolOrKernelSymbol env hs sp lsm m mn fn mh ua ka f)"
  by (rule ps4Resolve_stub_code [OF assms])

section \<open>Resolution without handlers\<close>

definition no_handlers :: handlers where
  "no_handlers = \<lparr>ps4ResolveErrorHandler = None, ps4ResolvePreHandler = None, ps4ResolvePostHandler = None\<rparr>"

lemma intercept_None:
  "intercept None st s rest =
     (if st = PS4ResolveStatusInterceptContinue
      then rest (s\<lparr>run_state := (run_state s)\<lparr>rs_status := st\<rparr>\<rparr>)
      else Some (st, s\<lparr>run_state := (run_state s)\<lparr>rs_status := st\<rparr>\<rparr>))"
  by (simp add: intercept_def ps4ResolveCallHandler_def Let_def)

lemmas no_handler_simps = no_handlers_def intercept_None intercept_if_def

text \<open>C38 The marker byte of a stub is its second byte, but the type test of the resolver reads the
  third, which is the first byte of the next instruction in every stub: the stub type is 0x49 for all
  of them, so the test for a kernel function never succeeds, and a kernel function stub resolved in user
  mode ends in an argument error instead of a kernel lookup.\<close>

theorem ps4Resolve_kernel_stub_in_user_mode:
  assumes "holds_bytes m f (stub_code kerncall pushall rest f (KernelFunctionStub fn ka))"
    and "\<not> ps4KernelIsInKernel sp"
  shows "ps4StubType m f = Some 0x49 \<and>
    (\<exists>s. ps4Resolve env no_handlers sp lsm m f = Some (PS4ResolveStatusArgumentError, Some s) \<and>
       run_mem s = m)"
  using ps4StubType_stub [OF assms(1)] ps4Resolve_stub_code [OF assms(1), of env no_handlers sp lsm] assms(2)
  by (simp add: ps4ResolveModuleAndSymbolOrKernelSymbol_def no_handler_simps resolve_user_symbol_def)

text \<open>In the kernel a stub with a kernel slot is resolved by the kernel lookup: the slot gets the
  address found, and the status is success, or the kernel resolve error when the symbol is not found.\<close>

lemma ps4Resolve_kernel:
  assumes "ps4KernelIsInKernel sp" and "ps4StubType m f = Some ty" and "ty \<noteq> PS4StubTypeFunction"
    and "symb \<noteq> NULL" and "ka \<noteq> NULL" and "env_kernel_dlsym env symb m = Some (a, m1)"
    and "mapped m1 ka 8"
  shows "\<exists>s. ps4ResolveModuleAndSymbolOrKernelSymbol env no_handlers sp lsm m mn symb mh ua ka f =
      Some (if a = NULL then PS4ResolveStatusKernelFunctionResolveError else PS4ResolveStatusSuccess, s) \<and>
    load64 (run_mem s) ka = Some a \<and> outside (run_mem s) ka 8 = outside m1 ka 8"
proof -
  obtain m2 where m2: "store64 m1 ka a = Some m2" using assms(7) store64_mapped by blast
  moreover have "outside m2 ka 8 = outside m1 ka 8"
    by (rule outside_eqI) (simp add: store64_apply [OF m2])
  ultimately show ?thesis
    using assms load64_store64_same [OF m2]
    by (simp add: ps4ResolveModuleAndSymbolOrKernelSymbol_def resolve_kernel_symbol_def no_handler_simps)
qed

lemma load32_store32_same:
  assumes "store32 m a w = Some m'"
  shows "load32 m' a = Some w"
proof -
  have "load_bytes m' a (length (bytes_of_word 4 w)) = Some (bytes_of_word 4 w)"
    using assms by (intro load_store_bytes_same) (simp_all add: store32_def)
  then show ?thesis by (simp add: load32_def word_of_bytes_of_word take_bit_word_eq_self)
qed

lemma store32_mapped: "(\<exists>m'. store32 m a w = Some m') \<longleftrightarrow> mapped m a 4"
  using store_bytes_mapped [of m a "bytes_of_word 4 w"] by (simp add: store32_def)

lemma load32_mapped: "load32 m a = Some w \<Longrightarrow> mapped m a 4"
  using load_bytes_mapped [of m a 4] by (auto simp: load32_def)

text \<open>The last step: the symbol is looked up in a module whose identifier is known.\<close>

definition look_up ::
  "resolve_env \<Rightarrow> u32 \<Rightarrow> ptr \<Rightarrow> ptr \<Rightarrow> memory \<Rightarrow> ptr \<Rightarrow> (PS4ResolveStatus \<times> memory \<times> ptr) option" where
  "look_up env i symb ua m l = map_option (\<lambda>(r, m').
     (if r = 0 then PS4ResolveStatusSuccess else PS4ResolveStatusFunctionResolveError, m', l))
       (env_dlsym env i symb ua m)"

abbreviation (input) outcome :: "resolve_result \<Rightarrow> (PS4ResolveStatus \<times> memory \<times> ptr) option" where
  "outcome \<equiv> map_option (\<lambda>(c, s). (c, run_mem s, run_lsm s))"

text \<open>C37 Resolution in user mode, for every answer of the system: the status, the memory and the pointer
  to the module loader it ends with.  A module that is loaded needs only the symbol lookup.  Otherwise the
  steps are libkernel and the lookup of the loader in it, both only while the loader is not known, then
  the loader and the symbol lookup; the status names the first of them that fails, and the later ones are
  not called.  A failure to load libkernel or to find the loader leaves memory alone, and the pointer as
  the failed call left it; the identifier the loader answers is stored even when it is an error, and
  before the symbol is looked up; a known loader is kept.  The one fault is a lookup of the loader that
  reports success and leaves no pointer.\<close>

theorem ps4Resolve_user:
  assumes "\<not> ps4KernelIsInKernel sp" and "ps4StubType m f = Some ty" and "ty \<noteq> PS4StubTypeKernelFunction"
    and "mh \<noteq> NULL" and "ua \<noteq> NULL" and "mn \<noteq> NULL" and "symb \<noteq> NULL"
    and "load32 m mh = Some i"
    and "k = env_load_libkernel env" and "(q, found) = env_resolve_lsm env k NULL"
    and "l = (if lsm = NULL then found else lsm)" and "j = env_lsm env l mn"
  shows "\<exists>m1. store32 m mh j = Some m1 \<and> load32 m1 mh = Some j \<and>
    outcome (ps4ResolveModuleAndSymbolOrKernelSymbol env no_handlers sp lsm m mn symb mh ua ka f) =
      (if 0 < sint i then look_up env i symb ua m lsm
       else if lsm = NULL \<and> sint k \<le> 0 then Some (PS4ResolveStatusKernelLoadError, m, NULL)
       else if lsm = NULL \<and> q \<noteq> 0 then Some (PS4ResolveStatusLSMResolveError, m, found)
       else if l = NULL then None
       else if sint j \<le> 0 then Some (PS4ResolveStatusModuleLoadError, m1, l)
       else look_up env j symb ua m1 l)"
proof -
  have "mapped m mh 4" using assms(8) by (rule load32_mapped)
  then obtain m1 where m1: "store32 m mh j = Some m1" using store32_mapped by blast
  note slot = load32_store32_same [OF m1]
  have "env_resolve_lsm env k NULL = (q, found)" using assms(10) by simp
  with assms(1-9,11,12) m1 slot show ?thesis
    by (cases "lsm = NULL")
      (auto simp: ps4ResolveModuleAndSymbolOrKernelSymbol_def resolve_user_symbol_def resolve_module_def
        resolve_lsm_def no_handler_simps look_up_def Let_def split: Option.bind_split)
qed

text \<open>Code that does not start with a stub's marker instruction is refused without a call of the
  resolver, and a system call stub needs no resolution.\<close>

lemma ps4Resolve_other_code:
  assumes "load8 m f = Some b0" and "load8 m (f + 1) = Some b1" and "b0 \<noteq> 0xa8 \<or> b1 > 3"
  shows "ps4Resolve env hs sp lsm m f = Some
    (if b0 = 0xa8 \<and> b1 = 4 then PS4ResolveStatusSuccess else PS4ResolveStatusFunctionResolveError, None)"
  using assms by (auto simp: ps4Resolve_def Let_def)

end
