(* ===== verification/Kernel_Patches.thy ===== *)
theory Kernel_Patches
  imports Kernel_Services
begin

text \<open>
  The payloads of \<open>source/ps4/internal/kernelexploitpayload.c\<close> that copy memory and patch code and the
  system call table, with the functions of \<open>source/ps4/kernel.c\<close> that run them.

  Some pages of the kernel are mapped read-only (\<open>ro\<close>).  A store to such a page faults while the bit
  \<open>CR0_WP\<close> of the register \<open>cr0\<close> is set; the payloads clear it around their stores.  \<open>copyin\<close> and
  \<open>copyout\<close> are functions of the kernel, and parameters here.
\<close>

unbundle bit_operations_syntax

record kernel_state =
  km :: memory
  kcr0 :: u64
  kg :: kernel_globals

definition CR0_WP :: u64 where "CR0_WP = 0x00010000"

abbreviation (input) EFAULT :: u32 where "EFAULT \<equiv> 14"

definition ps4KernelCr0Set :: "u64 \<Rightarrow> kernel_state \<Rightarrow> kernel_state" where
  "ps4KernelCr0Set cr0 s = s\<lparr>kcr0 := cr0\<rparr>"

definition ps4KernelCr0Get :: "kernel_state \<Rightarrow> u64" where
  "ps4KernelCr0Get s = kcr0 s"

text \<open>Stores of kernel code.\<close>

definition writable :: "(ptr \<Rightarrow> bool) \<Rightarrow> ptr \<Rightarrow> nat \<Rightarrow> kernel_state \<Rightarrow> bool" where
  "writable ro a n s \<longleftrightarrow> kcr0 s AND CR0_WP = 0 \<or> (\<forall>i \<in> {0..<n}. \<not> ro (a + of_nat i))"

definition kstore :: "(ptr \<Rightarrow> bool) \<Rightarrow> ptr \<Rightarrow> u8 list \<Rightarrow> kernel_state \<Rightarrow> kernel_state option" where
  "kstore ro a bs s =
     (if writable ro a (length bs) s then map_option (\<lambda>m. s\<lparr>km := m\<rparr>) (store_bytes (km s) a bs) else None)"

definition kmemcpy :: "(ptr \<Rightarrow> bool) \<Rightarrow> ptr \<Rightarrow> ptr \<Rightarrow> u64 \<Rightarrow> kernel_state \<Rightarrow> (ptr \<times> kernel_state) option" where
  "kmemcpy ro dest src n s = do {
     bs \<leftarrow> load_bytes (km s) src (unat n);
     s \<leftarrow> kstore ro dest bs s;
     Some (dest, s) }"

type_synonym copy_fn = "ptr \<Rightarrow> ptr \<Rightarrow> u64 \<Rightarrow> kernel_state \<Rightarrow> (u32 \<times> kernel_state) option"

section \<open>Copying\<close>

definition ps4KernelExploitPayloadMemcpy ::
  "(ptr \<Rightarrow> bool) \<Rightarrow> copy_fn \<Rightarrow> copy_fn \<Rightarrow> ptr \<Rightarrow> kernel_state \<Rightarrow> (u32 \<times> kernel_state) option" where
  "ps4KernelExploitPayloadMemcpy ro copyin copyout argv s = do {
     dest \<leftarrow> load64 (km s) argv;
     src \<leftarrow> load64 (km s) (argv + 8);
     sz \<leftarrow> load64 (km s) (argv + 16);
     let destisk = ps4KernelIsKernelAddress dest;
     let srcisk = ps4KernelIsKernelAddress src;
     let s = ps4KernelCr0Set (ps4KernelCr0Get s AND NOT CR0_WP) s;
     (r, s) \<leftarrow>
       (if destisk \<and> srcisk then map_option (map_prod (\<lambda>p. of_bool (p \<noteq> NULL)) id) (kmemcpy ro dest src sz s)
        else if \<not> destisk \<and> srcisk then copyout src dest sz s
        else if destisk \<and> \<not> srcisk then copyin src dest sz s
        else map_option (map_prod (\<lambda>p. of_bool (p \<noteq> NULL)) id) (kmemcpy ro dest src sz s));
     let s = ps4KernelCr0Set (ps4KernelCr0Get s OR CR0_WP) s;
     Some (r, s) }"

text \<open>The callers: an argument vector at \<open>argv\<close>, and a way to run the payload in the kernel.\<close>

type_synonym run_payload = "nat \<Rightarrow> ptr \<Rightarrow> kernel_state \<Rightarrow> (u32 \<times> kernel_state) option"

definition ps4KernelMemcpy :: "run_payload \<Rightarrow> ptr \<Rightarrow> ptr \<Rightarrow> ptr \<Rightarrow> u64 \<Rightarrow> kernel_state \<Rightarrow> kernel_state option" where
  "ps4KernelMemcpy run argv dest src sz s = do {
     m \<leftarrow> store_argv (km s) argv [dest, src, sz, NULL];
     (_, s) \<leftarrow> run 3 argv (s\<lparr>km := m\<rparr>);
     Some s }"

section \<open>Patching functions\<close>

text \<open>The two pieces of code of \<open>asmpayload.s\<close>: \<open>movabs $0, %rax; jmp *%rax\<close> and \<open>mov $1, %rax; ret\<close>.\<close>

definition ps4TrampolinePayload :: "u8 list" where
  "ps4TrampolinePayload = [0x48, 0xb8, 0, 0, 0, 0, 0, 0, 0, 0, 0xff, 0xe0]"

definition ps4TruthFunctionPayload :: "u8 list" where
  "ps4TruthFunctionPayload = [0x48, 0xc7, 0xc0, 1, 0, 0, 0, 0xc3]"

text \<open>\<open>code\<close> is the address of the piece of code.\<close>

definition ps4KernelExploitPayloadHookFunction ::
  "(ptr \<Rightarrow> bool) \<Rightarrow> copy_fn \<Rightarrow> ptr \<Rightarrow> ptr \<Rightarrow> kernel_state \<Rightarrow> (u32 \<times> kernel_state) option" where
  "ps4KernelExploitPayloadHookFunction ro copyin code argv s = do {
     from \<leftarrow> load64 (km s) argv;
     let addr = from + 2;
     to \<leftarrow> load64 (km s) (argv + 8);
     if ps4KernelIsKernelAddress from \<noteq> ps4KernelIsKernelAddress to then Some (- 1, s)
     else do {
       let s = ps4KernelCr0Set (ps4KernelCr0Get s AND NOT CR0_WP) s;
       (r, s) \<leftarrow> copyin code from (of_nat (length ps4TrampolinePayload)) s;
       to \<leftarrow> load64 (km s) (argv + 8);
       s \<leftarrow> kstore ro addr (bytes_of_word 8 to) s;
       let s = ps4KernelCr0Set (ps4KernelCr0Get s OR CR0_WP) s;
       Some (r, s) } }"

definition ps4KernelExploitPayloadPatchToTruthFunction ::
  "copy_fn \<Rightarrow> ptr \<Rightarrow> ptr \<Rightarrow> kernel_state \<Rightarrow> (u32 \<times> kernel_state) option" where
  "ps4KernelExploitPayloadPatchToTruthFunction copyin code argv s = do {
     let s = ps4KernelCr0Set (ps4KernelCr0Get s AND NOT CR0_WP) s;
     fn \<leftarrow> load64 (km s) argv;
     (r, s) \<leftarrow> copyin code fn (of_nat (length ps4TruthFunctionPayload)) s;
     let s = ps4KernelCr0Set (ps4KernelCr0Get s OR CR0_WP) s;
     Some (r, s) }"

definition ps4KernelHookFunction :: "run_payload \<Rightarrow> ptr \<Rightarrow> ptr \<Rightarrow> ptr \<Rightarrow> kernel_state \<Rightarrow> (u32 \<times> kernel_state) option" where
  "ps4KernelHookFunction run argv from to s = do {
     m \<leftarrow> store_argv (km s) argv [from, to, NULL];
     run 2 argv (s\<lparr>km := m\<rparr>) }"

definition ps4KernelPatchToTruthFunction :: "run_payload \<Rightarrow> ptr \<Rightarrow> ptr \<Rightarrow> kernel_state \<Rightarrow> kernel_state option" where
  "ps4KernelPatchToTruthFunction run argv fn s = do {
     m \<leftarrow> store_argv (km s) argv [fn, NULL];
     (_, s) \<leftarrow> run 1 argv (s\<lparr>km := m\<rparr>);
     Some s }"

section \<open>Patching the table of system calls\<close>

record sysent =
  sy_narg :: u32
  sy_call :: ptr
  sy_auevent :: u16
  sy_systrace_args_func :: ptr
  sy_entry :: u32
  sy_return :: u32
  sy_flags :: u32
  sy_thrcnt :: u32

abbreviation (input) sizeof_sysent :: u64 where "sizeof_sysent \<equiv> 48"
abbreviation (input) SY_THR_STATIC :: u32 where "SY_THR_STATIC \<equiv> 1"
abbreviation (input) SYS_ps4_kernel_run :: u64 where "SYS_ps4_kernel_run \<equiv> 172"

text \<open>The lookup of a symbol, on the state of the payloads; \<open>name\<close> is the address of the string, and the other
  arguments are those of the lookup.\<close>

definition kernel_symbol ::
  "ptr \<Rightarrow> ptr \<Rightarrow> ptr \<Rightarrow> (memory \<Rightarrow> kernel_globals \<Rightarrow> (memory \<times> kernel_globals) option) \<Rightarrow> ptr \<Rightarrow>
     kernel_state \<Rightarrow> (ptr \<times> kernel_state) option" where
  "kernel_symbol sp buf frame run_main name s = do {
     (a, m, g) \<leftarrow> ps4KernelDlSym sp buf frame run_main name (km s) (kg s);
     Some (a, s\<lparr>km := m, kg := g\<rparr>) }"

text \<open>\<open>symf\<close> looks \<open>"sysent"\<close> up.\<close>

definition ps4KernelExploitPayloadHookSyscall ::
  "(ptr \<Rightarrow> bool) \<Rightarrow> (kernel_state \<Rightarrow> (ptr \<times> kernel_state) option) \<Rightarrow> ptr \<Rightarrow> kernel_state \<Rightarrow> (u32 \<times> kernel_state) option" where
  "ps4KernelExploitPayloadHookSyscall ro symf argv s = do {
     (sy, s) \<leftarrow> symf s;
     to \<leftarrow> load64 (km s) (argv + 16);
     if \<not> ps4KernelIsKernelAddress to then Some (- 1, s)
     else do {
       number \<leftarrow> load64 (km s) argv;
       let sy = sy + scast (ucast number :: u32) * sizeof_sysent;
       s \<leftarrow> kstore ro sy (replicate (unat sizeof_sysent) 0) s;
       narg \<leftarrow> load64 (km s) (argv + 8);
       s \<leftarrow> kstore ro sy (bytes_of_word 4 (ucast narg :: u32)) s;
       to \<leftarrow> load64 (km s) (argv + 16);
       s \<leftarrow> kstore ro (sy + 8) (bytes_of_word 8 to) s;
       s \<leftarrow> kstore ro (sy + 44) (bytes_of_word 4 SY_THR_STATIC) s;
       Some (0, s) } }"

definition ps4KernelHookSyscall ::
  "run_payload \<Rightarrow> ptr \<Rightarrow> u32 \<Rightarrow> u32 \<Rightarrow> ptr \<Rightarrow> kernel_state \<Rightarrow> (u32 \<times> kernel_state) option" where
  "ps4KernelHookSyscall run argv number argc to s = do {
     m \<leftarrow> store_argv (km s) argv [scast number, scast argc, to, NULL];
     run 2 argv (s\<lparr>km := m\<rparr>) }"

text \<open>The installation of the system call that runs functions: \<open>code\<close> and \<open>sz\<close> are those of
  \<open>ps4CallbackSyscallPayload\<close>.  The answer of \<open>copyin\<close> is not used.\<close>

definition ps4KernelExploitPayloadInstallRunSyscall ::
  "(ptr \<Rightarrow> bool) \<Rightarrow> (kernel_state \<Rightarrow> (ptr \<times> kernel_state) option) \<Rightarrow> copy_fn \<Rightarrow> ptr \<Rightarrow> ptr \<Rightarrow> u32 \<Rightarrow> kernel_state \<Rightarrow>
     (u32 \<times> kernel_state) option" where
  "ps4KernelExploitPayloadInstallRunSyscall ro symf copyin buf code sz s = do {
     (sy, s) \<leftarrow> symf s;
     (addr, m, g) \<leftarrow> ps4KernelExecutableMemoryMalloc buf (scast sz) (km s) (kg s);
     let s = s\<lparr>km := m, kg := g\<rparr>;
     let s = ps4KernelCr0Set (ps4KernelCr0Get s AND NOT CR0_WP) s;
     (_, s) \<leftarrow> copyin code addr (scast sz) s;
     let s = ps4KernelCr0Set (ps4KernelCr0Get s OR CR0_WP) s;
     let sy = sy + SYS_ps4_kernel_run * sizeof_sysent;
     s \<leftarrow> kstore ro sy (replicate (unat sizeof_sysent) 0) s;
     s \<leftarrow> kstore ro sy (bytes_of_word 4 (3 :: u32)) s;
     s \<leftarrow> kstore ro (sy + 8) (bytes_of_word 8 addr) s;
     s \<leftarrow> kstore ro (sy + 44) (bytes_of_word 4 SY_THR_STATIC) s;
     Some (0, s) }"

section \<open>Patched memory\<close>

text \<open>Memory after bytes were stored where all of them fit.\<close>

definition patched :: "memory \<Rightarrow> ptr \<Rightarrow> u8 list \<Rightarrow> memory" where
  "patched m a bs = (\<lambda>x. if in_region a (length bs) x then Some (bs ! unat (x - a)) else m x)"

lemma patched_store:
  assumes "mapped m a (length bs)" and "length bs \<le> address_space"
  shows "store_bytes m a bs = Some (patched m a bs)"
proof -
  obtain m' where "store_bytes m a bs = Some m'" using store_bytes_mapped [of m a bs] assms(1) by auto
  with store_bytes_apply [OF this assms(2)] show ?thesis by (simp add: patched_def fun_eq_iff)
qed

lemma mapped_patched: "mapped m a n \<Longrightarrow> mapped (patched m b bs) a n"
  by (auto simp: mapped_def patched_def)

lemma holds_patched: "length bs \<le> address_space \<Longrightarrow> holds_bytes (patched m a bs) a bs"
  by (simp add: holds_bytes_iff patched_def in_region_offset unat_of_nat)

lemma load_patched_other: "disjoint_regions b n a (length bs) \<Longrightarrow> load_bytes (patched m a bs) b n = load_bytes m b n"
  by (rule load_bytes_cong) (auto simp: patched_def disjoint_regions_def dest: disjoint_regionsD [rotated] )

lemma outside_patched: "n = length bs \<Longrightarrow> outside (patched m a bs) a n = outside m a n"
  by (rule outside_eqI) (simp add: patched_def)

lemma outside_patched_in:
  assumes "unat b + length bs \<le> n" and "n \<le> address_space"
  shows "outside (patched m (a + b) bs) a n = outside m a n"
  using in_region_sub [OF _ assms] by (intro outside_eqI) (auto simp: patched_def)

text \<open>A store into what was stored before.\<close>

lemma patched_sub:
  assumes "off + length cs \<le> length bs" and "length bs < address_space"
  shows "patched (patched m a bs) (a + of_nat off) cs = patched m a (take off bs @ cs @ drop (off + length cs) bs)"
proof
  fix x
  let ?i = "unat (x - a)"
  have "unat (of_nat off :: ptr) = off" using assms by (simp add: unat_of_nat)
  then have "unat (x - a - of_nat off) = (if off \<le> ?i then ?i - off else ?i + address_space - off)"
    by (subst unat_sub_if') (simp add: word_size)
  then have "unat (x - (a + of_nat off)) = (if off \<le> ?i then ?i - off else ?i + address_space - off)"
    by (simp only: diff_diff_eq)
  with assms show "patched (patched m a bs) (a + of_nat off) cs x =
      patched m a (take off bs @ cs @ drop (off + length cs) bs) x"
    by (cases "off \<le> ?i") (auto simp: patched_def in_region_def nth_append)
qed

lemma kstore_patched:
  assumes "writable ro a (length bs) s" and "mapped (km s) a (length bs)" and "length bs \<le> address_space"
  shows "kstore ro a bs s = Some (s\<lparr>km := patched (km s) a bs\<rparr>)"
  using assms by (simp add: kstore_def patched_store)

lemma store_argv_patched:
  assumes "mapped m argv (8 * length ws)" and "8 * length ws \<le> address_space"
  shows "store_argv m argv ws = Some (patched m argv (concat (map (bytes_of_word 8) ws)))"
proof -
  have l: "length (concat (map (bytes_of_word 8) vs)) = 8 * length vs" for vs :: "u64 list" by (induction vs) auto
  have "store_argv m argv ws = store_bytes m argv (concat (map (bytes_of_word 8) ws))"
  proof (induction ws arbitrary: m argv)
    case (Cons w ws)
    have "store_bytes m a (xs @ ys) = do { m1 \<leftarrow> store_bytes m a xs; store_bytes m1 (a + of_nat (length xs)) ys }"
      for m a xs ys by (induction xs arbitrary: m a) (auto simp: algebra_simps split: Option.bind_splits)
    with Cons show ?case by (simp add: store64_def)
  qed simp
  with assms show ?thesis by (simp add: patched_store l)
qed

abbreviation (input) with_argv :: "kernel_state \<Rightarrow> ptr \<Rightarrow> u64 list \<Rightarrow> memory" where
  "with_argv s argv ws \<equiv> patched (km s) argv (concat (map (bytes_of_word 8) ws))"

lemma load_argv_patched:
  assumes "i < length ws" and "8 * length ws \<le> address_space"
  shows "load64 (patched m argv (concat (map (bytes_of_word 8) ws))) (argv + of_nat (8 * i)) = Some (ws ! i)"
proof -
  have l: "length (concat (map (bytes_of_word 8) vs)) = 8 * length vs" for vs :: "u64 list" by (induction vs) auto
  let ?c = "\<lambda>vs. concat (map (bytes_of_word 8) vs)"
  have "?c ws = ?c (take i ws @ ws ! i # drop (Suc i) ws)" using assms(1) by (simp only: id_take_nth_drop [symmetric])
  moreover have "holds_bytes (patched m argv (?c ws)) argv (?c ws)" using assms(2) by (intro holds_patched) (simp add: l)
  ultimately have "holds_bytes (patched m argv (?c ws)) argv (?c (take i ws) @ bytes_of_word 8 (ws ! i) @ ?c (drop (Suc i) ws))"
    by simp
  then show ?thesis using assms(1) by (simp add: holds_bytes_append l load64_holds)
qed

lemma cleared_bits: "(c AND NOT w) AND w = (0 :: 'a::len word)" and restored_bits: "(c AND NOT w) OR w = c OR (w :: 'a::len word)"
  by (rule bit_eqI; auto simp: bit_and_iff bit_or_iff bit_not_iff)+

text \<open>The state between clearing the bit and setting it again.\<close>

definition unprotected :: "kernel_state \<Rightarrow> kernel_state" where
  "unprotected s = s\<lparr>kcr0 := kcr0 s AND NOT CR0_WP\<rparr>"

lemma clear_wp: "ps4KernelCr0Set (ps4KernelCr0Get s AND NOT CR0_WP) s = unprotected s"
  by (simp add: ps4KernelCr0Set_def ps4KernelCr0Get_def unprotected_def)

lemma set_wp:
  "ps4KernelCr0Set (ps4KernelCr0Get (unprotected s\<lparr>km := m\<rparr>) OR CR0_WP) (unprotected s\<lparr>km := m\<rparr>) =
     s\<lparr>km := m, kcr0 := kcr0 s OR CR0_WP\<rparr>"
  by (simp add: ps4KernelCr0Set_def ps4KernelCr0Get_def unprotected_def restored_bits)

lemma writable_unprotected: "writable ro a n (unprotected s\<lparr>km := m\<rparr>)" "writable ro a n (unprotected s)"
  by (simp_all add: writable_def unprotected_def cleared_bits)

lemma unprotected_fields [simp]:
  "km (unprotected s) = km s" "kg (unprotected s) = kg s" "unprotected (s\<lparr>km := m\<rparr>) = unprotected s\<lparr>km := m\<rparr>"
  by (simp_all add: unprotected_def)

lemmas wp_simps = clear_wp set_wp writable_unprotected

section \<open>What the copying functions of the kernel promise\<close>

abbreviation (input) VM_MAXUSER_ADDRESS :: nat where "VM_MAXUSER_ADDRESS \<equiv> 2 ^ 47"

text \<open>The bytes a copy of \<open>n\<close> bytes reads below the user limit; a copy of nothing asks nothing of the address.\<close>

definition user_bytes :: "memory \<Rightarrow> ptr \<Rightarrow> u64 \<Rightarrow> u8 list option" where
  "user_bytes m u n = (if n = 0 \<or> unat u + unat n \<le> VM_MAXUSER_ADDRESS then load_bytes m u (unat n) else None)"

text \<open>From user memory to kernel memory that is there and can be written: zero and the bytes, or \<open>EFAULT\<close> when the user
  memory cannot be read, and then a part may be copied.\<close>

definition copyin_ok :: "(ptr \<Rightarrow> bool) \<Rightarrow> copy_fn \<Rightarrow> bool" where
  "copyin_ok ro copyin \<longleftrightarrow> (\<forall>u k n s. ps4KernelIsKernelAddress k \<and> mapped (km s) k (unat n) \<and> writable ro k (unat n) s \<longrightarrow>
     (case user_bytes (km s) u n of
        Some bs \<Rightarrow> copyin u k n s = Some (0, s\<lparr>km := patched (km s) k bs\<rparr>)
      | None \<Rightarrow> (\<exists>bs. length bs \<le> unat n \<and> copyin u k n s = Some (EFAULT, s\<lparr>km := patched (km s) k bs\<rparr>))))"

definition copyout_ok :: "(ptr \<Rightarrow> bool) \<Rightarrow> copy_fn \<Rightarrow> bool" where
  "copyout_ok ro copyout \<longleftrightarrow> (\<forall>k u n s bs. ps4KernelIsKernelAddress k \<and> load_bytes (km s) k (unat n) = Some bs \<and> writable ro u (unat n) s \<longrightarrow>
     (if user_bytes (km s) u n \<noteq> None then copyout k u n s = Some (0, s\<lparr>km := patched (km s) u bs\<rparr>)
      else (\<exists>bs. length bs \<le> unat n \<and> copyout k u n s = Some (EFAULT, s\<lparr>km := patched (km s) u bs\<rparr>))))"

lemma copyinD:
  assumes "copyin_ok ro ci" and "ps4KernelIsKernelAddress k" and "mapped (km s) k (unat n)" and "writable ro k (unat n) s"
  shows "user_bytes (km s) u n = Some bs \<Longrightarrow> ci u k n s = Some (0, s\<lparr>km := patched (km s) k bs\<rparr>)"
    and "user_bytes (km s) u n = None \<Longrightarrow> \<exists>bs. length bs \<le> unat n \<and> ci u k n s = Some (EFAULT, s\<lparr>km := patched (km s) k bs\<rparr>)"
proof -
  note * = assms(1) [unfolded copyin_ok_def, THEN spec, of u, THEN spec, of k, THEN spec, of n, THEN spec, of s]
  show "user_bytes (km s) u n = Some bs \<Longrightarrow> ci u k n s = Some (0, s\<lparr>km := patched (km s) k bs\<rparr>)"
    and "user_bytes (km s) u n = None \<Longrightarrow> \<exists>bs. length bs \<le> unat n \<and> ci u k n s = Some (EFAULT, s\<lparr>km := patched (km s) k bs\<rparr>)"
    using * assms(2-4) by auto
qed

lemma copyoutD:
  assumes "copyout_ok ro co" and "ps4KernelIsKernelAddress k" and "load_bytes (km s) k (unat n) = Some bs" and "writable ro u (unat n) s"
    and "user_bytes (km s) u n \<noteq> None"
  shows "co k u n s = Some (0, s\<lparr>km := patched (km s) u bs\<rparr>)"
  using assms(2-5) assms(1) [unfolded copyout_ok_def, THEN spec, of k, THEN spec, of u, THEN spec, of n, THEN spec, of s, THEN spec, of bs]
  by simp

section \<open>Properties\<close>

abbreviation (input) in_space :: "ptr \<Rightarrow> u64 \<Rightarrow> bool" where
  "in_space a n \<equiv> ps4KernelIsKernelAddress a \<or> unat a + unat n \<le> VM_MAXUSER_ADDRESS"

lemma payload_memcpy:
  assumes "copyin_ok ro ci" and "copyout_ok ro co" and "load64 m argv = Some dest" and "load64 m (argv + 8) = Some src"
    and "load64 m (argv + 16) = Some n" and "load_bytes m src (unat n) = Some bs" and "mapped m dest (unat n)"
    and "in_space src n" and "in_space dest n"
  shows "ps4KernelExploitPayloadMemcpy ro ci co argv (s\<lparr>km := m\<rparr>) =
    Some (if ps4KernelIsKernelAddress dest = ps4KernelIsKernelAddress src then of_bool (dest \<noteq> NULL) else 0,
      s\<lparr>km := patched m dest bs, kcr0 := kcr0 s OR CR0_WP\<rparr>)"
proof -
  let ?c = "unprotected s\<lparr>km := m\<rparr>"
  have len: "length bs = unat n" "length bs \<le> address_space"
    using assms(6) unat_ptr_less [of n] by (simp_all add: load_bytes_conv)
  have k: "kmemcpy ro dest src n ?c = Some (dest, ?c\<lparr>km := patched m dest bs\<rparr>)"
    using assms(6,7) len kstore_patched [of ro dest bs ?c] by (simp add: kmemcpy_def wp_simps)
  have i: "ci src dest n ?c = Some (0, ?c\<lparr>km := patched m dest bs\<rparr>)"
    if "ps4KernelIsKernelAddress dest" "\<not> ps4KernelIsKernelAddress src"
    using copyinD(1) [OF assms(1) that(1), of ?c n src bs] assms(6,7,8) that by (simp add: wp_simps user_bytes_def)
  have o: "co src dest n ?c = Some (0, ?c\<lparr>km := patched m dest bs\<rparr>)"
    if "\<not> ps4KernelIsKernelAddress dest" "ps4KernelIsKernelAddress src"
    using copyoutD [OF assms(2) that(2), of ?c n bs dest] assms(6,7,9) that load_bytes_mapped [of m dest "unat n"]
    by (auto simp: wp_simps user_bytes_def)
  show ?thesis
    using assms(3-5) k i o by (auto simp: ps4KernelExploitPayloadMemcpy_def wp_simps)
qed


text \<open>C29 Copying through the kernel: in all four combinations of user and kernel memory, when source and target are
  there, the target gets the bytes of the source, on read-only pages too, and nothing else changes
  but the caller's argument vector; the write protection is on afterwards.  The payload itself answers one
  for a copy within a space and zero for a copy between the two.\<close>

theorem ps4KernelMemcpy_copies:
  assumes "copyin_ok ro ci" and "copyout_ok ro co" and "mapped (km s) argv 32"
    and "load_bytes (km s) src (unat n) = Some bs" and "mapped (km s) dest (unat n)" and "in_space src n" and "in_space dest n"
    and "disjoint_regions src (unat n) argv 32" and "disjoint_regions src (unat n) dest (unat n)"
  shows "let run = \<lambda>argc. ps4KernelExploitPayloadMemcpy ro ci co; m = with_argv s argv [dest, src, n, NULL] in
    ps4KernelMemcpy run argv dest src n s = Some (s\<lparr>km := patched m dest bs, kcr0 := kcr0 s OR CR0_WP\<rparr>) \<and>
    load_bytes (patched m dest bs) dest (unat n) = Some bs \<and>
    map_option fst (run 3 argv (s\<lparr>km := m\<rparr>)) =
      Some (if ps4KernelIsKernelAddress dest = ps4KernelIsKernelAddress src then of_bool (dest \<noteq> NULL) else 0)"
proof -
  define m where "m = with_argv s argv [dest, src, n, NULL]"
  have st: "store_argv (km s) argv [dest, src, n, NULL] = Some m"
    unfolding m_def by (rule store_argv_patched) (use assms(3) in simp_all)
  have arg: "load64 m argv = Some dest" "load64 m (argv + 8) = Some src" "load64 m (argv + 16) = Some n"
    using load_argv_patched [of 0 "[dest, src, n, NULL]"] load_argv_patched [of 1 "[dest, src, n, NULL]"]
      load_argv_patched [of 2 "[dest, src, n, NULL]"] by (simp_all add: m_def)
  have src: "load_bytes m src (unat n) = Some bs"
    unfolding m_def using assms(4,8) by (subst load_patched_other) simp_all
  have dest: "mapped m dest (unat n)" unfolding m_def by (rule mapped_patched) (rule assms(5))
  have len: "length bs = unat n" using assms(4) by (simp add: load_bytes_conv)
  then have "holds_bytes (patched m dest bs) dest bs" using unat_ptr_less [of n] by (intro holds_patched) simp
  then show ?thesis
    using payload_memcpy [OF assms(1,2) arg src dest assms(6,7), of s] st len
    unfolding Let_def m_def [symmetric] by (simp add: ps4KernelMemcpy_def holds_bytes_def)
qed

text \<open>Where execution goes from code that loads an address into \<open>rax\<close> and jumps there.\<close>

definition jump_target :: "memory \<Rightarrow> ptr \<Rightarrow> ptr option" where
  "jump_target m a = do {
     bs \<leftarrow> load_bytes m a 12;
     if take 2 bs = [0x48, 0xb8] \<and> drop 10 bs = [0xff, 0xe0] then Some (word_of_bytes (take 8 (drop 2 bs))) else None }"

lemma jump_target_trampoline:
  "jump_target (patched m a ([0x48, 0xb8] @ bytes_of_word 8 to @ [0xff, 0xe0])) a = Some to"
proof -
  let ?bs = "[0x48, 0xb8] @ bytes_of_word 8 to @ [0xff, 0xe0]"
  have "load_bytes (patched m a ?bs) a 12 = Some ?bs"
    using holds_patched [of ?bs m a] by (simp add: holds_bytes_def)
  then show ?thesis by (simp add: jump_target_def word_of_bytes_of_word take_bit_word_eq_self)
qed

text \<open>The payload, as far as \<open>copyin\<close> succeeds or fails.\<close>

lemma payload_hook:
  assumes "load64 m argv = Some from" and "load64 m (argv + 8) = Some to"
    and "ps4KernelIsKernelAddress from = ps4KernelIsKernelAddress to" and "mapped m from 12"
    and "disjoint_regions (argv + 8) 8 from 12" and "length bs \<le> 12"
    and "ci code from 12 (unprotected s\<lparr>km := m\<rparr>) = Some (r, unprotected s\<lparr>km := patched m from bs\<rparr>)"
  shows "ps4KernelExploitPayloadHookFunction ro ci code argv (s\<lparr>km := m\<rparr>) =
    Some (r, s\<lparr>km := patched (patched m from bs) (from + 2) (bytes_of_word 8 to), kcr0 := kcr0 s OR CR0_WP\<rparr>)"
proof -
  have "disjoint_regions (argv + 8) 8 from (length bs)" using assms(5,6) by (auto simp: disjoint_regions_def)
  then have to: "load64 (patched m from bs) (argv + 8) = Some to"
    using assms(2) by (simp add: load64_def load_patched_other)
  have "mapped (patched m from bs) (from + 2) 8" using mapped_patched [OF mapped_sub [OF assms(4), of 2 8]] by simp
  then show ?thesis
    using assms(1-3,7) to kstore_patched [of ro "from + 2" "bytes_of_word 8 to" "unprotected s\<lparr>km := patched m from bs\<rparr>"]
    by (simp add: ps4KernelExploitPayloadHookFunction_def ps4TrampolinePayload_def wp_simps)
qed

text \<open>C30 Hooking a function: a hook across the border of user and kernel memory is refused.  Between kernel addresses, the
  function begins afterwards with a jump to the new one, its other bytes and all other memory
  stay, and the write protection is on.  When the code of the jump cannot be copied from user memory, the
  error is reported, but the address has been stored into the function all the same.\<close>

theorem ps4KernelHookFunction_hooks:
  assumes "copyin_ok ro ci" and "mapped (km s) argv 24" and "mapped (km s) from 12"
    and "disjoint_regions argv 24 from 12" and "disjoint_regions code 12 argv 24"
  shows "let run = \<lambda>argc. ps4KernelExploitPayloadHookFunction ro ci code; m = with_argv s argv [from, to, NULL] in
    (ps4KernelIsKernelAddress from \<noteq> ps4KernelIsKernelAddress to \<longrightarrow>
      ps4KernelHookFunction run argv from to s = Some (- 1, s\<lparr>km := m\<rparr>)) \<and>
    (ps4KernelIsKernelAddress from \<and> ps4KernelIsKernelAddress to \<longrightarrow>
      (\<exists>m'. ps4KernelHookFunction run argv from to s =
          Some (if user_bytes (km s) code 12 = None then EFAULT else 0, s\<lparr>km := m', kcr0 := kcr0 s OR CR0_WP\<rparr>) \<and>
        outside m' from 12 = outside m from 12 \<and> load64 m' (from + 2) = Some to \<and>
        (user_bytes (km s) code 12 = Some ps4TrampolinePayload \<longrightarrow> jump_target m' from = Some to)))"
proof -
  define run where "run = (\<lambda>argc :: nat. ps4KernelExploitPayloadHookFunction ro ci code)"
  define m where "m = with_argv s argv [from, to, NULL]"
  have st: "store_argv (km s) argv [from, to, NULL] = Some m"
    unfolding m_def by (rule store_argv_patched) (use assms(2) in simp_all)
  have arg: "load64 m argv = Some from" "load64 m (argv + 8) = Some to"
    using load_argv_patched [of 0 "[from, to, NULL]"] load_argv_patched [of 1 "[from, to, NULL]"] by (simp_all add: m_def)
  have there: "mapped m from 12" unfolding m_def by (rule mapped_patched) (rule assms(3))
  have code: "user_bytes m code 12 = user_bytes (km s) code 12"
    using assms(5) by (simp add: user_bytes_def m_def load_patched_other)
  have dis: "disjoint_regions (argv + 8) 8 from 12"
    using disjoint_regions_sub [OF assms(4), of 8 8] by simp
  let ?m = "\<lambda>bs. patched (patched m from bs) (from + 2) (bytes_of_word 8 to)"
  have "\<exists>m'. ps4KernelHookFunction run argv from to s =
          Some (if user_bytes (km s) code 12 = None then EFAULT else 0, s\<lparr>km := m', kcr0 := kcr0 s OR CR0_WP\<rparr>) \<and>
        outside m' from 12 = outside m from 12 \<and> load64 m' (from + 2) = Some to \<and>
        (user_bytes (km s) code 12 = Some ps4TrampolinePayload \<longrightarrow> jump_target m' from = Some to)"
    if k: "ps4KernelIsKernelAddress from" "ps4KernelIsKernelAddress to"
  proof -
    let ?r = "if user_bytes (km s) code 12 = None then EFAULT else 0"
    have "\<exists>bs. length bs \<le> 12 \<and> ci code from 12 (unprotected s\<lparr>km := m\<rparr>) = Some (?r, unprotected s\<lparr>km := patched m from bs\<rparr>) \<and>
        (user_bytes (km s) code 12 = Some ps4TrampolinePayload \<longrightarrow> bs = ps4TrampolinePayload)"
    proof (cases "user_bytes (km s) code 12")
      case None
      then show ?thesis using copyinD(2) [OF assms(1) k(1), of "unprotected s\<lparr>km := m\<rparr>" 12 code] there code by (auto simp: wp_simps)
    next
      case (Some b)
      then have "length b = 12" by (auto simp: user_bytes_def load_bytes_conv split: if_splits)
      with Some show ?thesis
        using copyinD(1) [OF assms(1) k(1), of "unprotected s\<lparr>km := m\<rparr>" 12 code b] there code
        by (intro exI [of _ b]) (auto simp: wp_simps)
    qed
    then obtain bs where bs: "length bs \<le> 12"
      "ci code from 12 (unprotected s\<lparr>km := m\<rparr>) = Some (?r, unprotected s\<lparr>km := patched m from bs\<rparr>)"
      "user_bytes (km s) code 12 = Some ps4TrampolinePayload \<longrightarrow> bs = ps4TrampolinePayload" by blast
    have "outside (?m bs) from 12 = outside m from 12"
      using outside_patched_in [of 2 "bytes_of_word 8 to" 12 "patched m from bs" "from"] outside_patched_in [of 0 bs 12 m "from"] bs(1)
      by simp
    moreover have "load64 (?m bs) (from + 2) = Some to" by (simp add: load64_holds holds_patched)
    moreover have "?m ps4TrampolinePayload = patched m from ([0x48, 0xb8] @ bytes_of_word 8 to @ [0xff, 0xe0])"
      using patched_sub [of 2 "bytes_of_word 8 to" ps4TrampolinePayload m "from"] by (simp add: ps4TrampolinePayload_def)
    ultimately show ?thesis
      using payload_hook [of m argv "from" to bs ci code s ?r ro, OF arg _ there dis bs(1,2)] k bs(3) st jump_target_trampoline [of m "from" to]
      by (auto simp: ps4KernelHookFunction_def run_def)
  qed
  moreover have "ps4KernelHookFunction run argv from to s = Some (- 1, s\<lparr>km := m\<rparr>)"
    if "ps4KernelIsKernelAddress from \<noteq> ps4KernelIsKernelAddress to"
    using that st arg by (simp add: ps4KernelHookFunction_def run_def ps4KernelExploitPayloadHookFunction_def)
  ultimately show ?thesis unfolding Let_def m_def [symmetric] run_def [symmetric] by blast
qed


text \<open>Entries of the table of system calls.\<close>

definition sysent_at :: "memory \<Rightarrow> ptr \<Rightarrow> sysent option" where
  "sysent_at m a = do {
     narg \<leftarrow> load32 m a;
     call \<leftarrow> load64 m (a + 8);
     auevent \<leftarrow> load16 m (a + 16);
     func \<leftarrow> load64 m (a + 24);
     entry \<leftarrow> load32 m (a + 32);
     ret \<leftarrow> load32 m (a + 36);
     flags \<leftarrow> load32 m (a + 40);
     thrcnt \<leftarrow> load32 m (a + 44);
     Some \<lparr>sy_narg = narg, sy_call = call, sy_auevent = auevent, sy_systrace_args_func = func, sy_entry = entry,
       sy_return = ret, sy_flags = flags, sy_thrcnt = thrcnt\<rparr> }"

definition static_sysent :: "u32 \<Rightarrow> ptr \<Rightarrow> sysent" where
  "static_sysent narg call = \<lparr>sy_narg = narg, sy_call = call, sy_auevent = 0, sy_systrace_args_func = 0, sy_entry = 0,
     sy_return = 0, sy_flags = 0, sy_thrcnt = SY_THR_STATIC\<rparr>"

definition static_sysent_bytes :: "u32 \<Rightarrow> ptr \<Rightarrow> u8 list" where
  "static_sysent_bytes narg call = bytes_of_word 4 narg @ replicate 4 0 @ bytes_of_word 8 call @ replicate 28 0 @ bytes_of_word 4 SY_THR_STATIC"

lemma length_static_sysent_bytes: "length (static_sysent_bytes narg call) = 48"
  by (simp add: static_sysent_bytes_def)

lemma sysent_at_holds:
  assumes "holds_bytes m a (static_sysent_bytes narg call)"
  shows "sysent_at m a = Some (static_sysent narg call)"
proof -
  have "static_sysent_bytes narg call = bytes_of_word 4 narg @ replicate 4 0 @ bytes_of_word 8 call @ bytes_of_word 2 (0 :: u16) @
      replicate 6 0 @ bytes_of_word 8 (0 :: u64) @ bytes_of_word 4 (0 :: u32) @ bytes_of_word 4 (0 :: u32) @ bytes_of_word 4 (0 :: u32) @
      bytes_of_word 4 SY_THR_STATIC"
    by (simp add: static_sysent_bytes_def numeral_eq_Suc)
  then show ?thesis
    using assms by (simp add: holds_bytes_append sysent_at_def static_sysent_def add.assoc
        load16_holds [symmetric] load32_holds [symmetric] load64_holds [symmetric])
qed

lemma sysent_at_patched: "sysent_at (patched m a (static_sysent_bytes narg call)) a = Some (static_sysent narg call)"
  by (rule sysent_at_holds, rule holds_patched) (simp add: length_static_sysent_bytes)

lemma writable_sub:
  assumes "writable ro a n s" and "off + k \<le> n"
  shows "writable ro (a + of_nat off) k (s\<lparr>km := m\<rparr>)"
proof -
  have "a + of_nat off + of_nat i = a + of_nat (off + i)" for i by simp
  then show ?thesis using assms unfolding writable_def
    by (metis (no_types, lifting) atLeastLessThan_iff kernel_state.select_convs(2) kernel_state.surjective kernel_state.update_convs(1)
        le0 add_less_cancel_left less_le_trans)
qed

lemma kstore_sub:
  assumes "writable ro a (length z) s" and "off + length cs \<le> length z" and "length z < address_space"
  shows "kstore ro (a + of_nat off) cs (s\<lparr>km := patched m a z\<rparr>) =
    Some (s\<lparr>km := patched m a (take off z @ cs @ drop (off + length cs) z)\<rparr>)"
proof -
  have "mapped (patched m a z) a (length z)"
    using holds_patched [of z m a] assms(3) load_bytes_mapped [of "patched m a z"] by (auto simp: holds_bytes_def)
  then have "mapped (patched m a z) (a + of_nat off) (length cs)"
    using assms(2,3) by (rule_tac mapped_sub) (simp_all add: unat_of_nat)
  then show ?thesis
    using kstore_patched [of ro "a + of_nat off" cs "s\<lparr>km := patched m a z\<rparr>"] writable_sub [OF assms(1,2)] assms(2,3)
      patched_sub [OF assms(2,3)] by simp
qed

lemma sysent_stores:
  assumes "writable ro e 48 s"
  shows "mapped m e 48 \<Longrightarrow> kstore ro e (replicate 48 0) (s\<lparr>km := m\<rparr>) = Some (s\<lparr>km := patched m e (replicate 48 0)\<rparr>)"
    and "kstore ro e (bytes_of_word 4 narg) (s\<lparr>km := patched m e (replicate 48 0)\<rparr>) =
      Some (s\<lparr>km := patched m e (bytes_of_word 4 (narg :: u32) @ replicate 44 0)\<rparr>)"
    and "kstore ro (e + 8) (bytes_of_word 8 call) (s\<lparr>km := patched m e (bytes_of_word 4 narg @ replicate 44 0)\<rparr>) =
      Some (s\<lparr>km := patched m e (bytes_of_word 4 narg @ replicate 4 0 @ bytes_of_word 8 call @ replicate 32 0)\<rparr>)"
    and "kstore ro (e + 44) (bytes_of_word 4 SY_THR_STATIC)
        (s\<lparr>km := patched m e (bytes_of_word 4 narg @ replicate 4 0 @ bytes_of_word 8 call @ replicate 32 0)\<rparr>) =
      Some (s\<lparr>km := patched m e (static_sysent_bytes narg call)\<rparr>)"
proof -
  have w: "writable ro e 48 (s\<lparr>km := m\<rparr>)" using assms by (simp add: writable_def)
  show "mapped m e 48 \<Longrightarrow> kstore ro e (replicate 48 0) (s\<lparr>km := m\<rparr>) = Some (s\<lparr>km := patched m e (replicate 48 0)\<rparr>)"
    using kstore_patched [of ro e "replicate 48 0" "s\<lparr>km := m\<rparr>"] w by simp
  show "kstore ro e (bytes_of_word 4 narg) (s\<lparr>km := patched m e (replicate 48 0)\<rparr>) =
      Some (s\<lparr>km := patched m e (bytes_of_word 4 narg @ replicate 44 0)\<rparr>)"
    using kstore_sub [of ro e "replicate 48 0" s 0 "bytes_of_word 4 narg" m] assms by simp
  show "kstore ro (e + 8) (bytes_of_word 8 call) (s\<lparr>km := patched m e (bytes_of_word 4 narg @ replicate 44 0)\<rparr>) =
      Some (s\<lparr>km := patched m e (bytes_of_word 4 narg @ replicate 4 0 @ bytes_of_word 8 call @ replicate 32 0)\<rparr>)"
    using kstore_sub [of ro e "bytes_of_word 4 narg @ replicate 44 0" s 8 "bytes_of_word 8 call" m] assms by simp
  show "kstore ro (e + 44) (bytes_of_word 4 SY_THR_STATIC)
        (s\<lparr>km := patched m e (bytes_of_word 4 narg @ replicate 4 0 @ bytes_of_word 8 call @ replicate 32 0)\<rparr>) =
      Some (s\<lparr>km := patched m e (static_sysent_bytes narg call)\<rparr>)"
    using kstore_sub [of ro e "bytes_of_word 4 narg @ replicate 4 0 @ bytes_of_word 8 call @ replicate 32 0" s 44
        "bytes_of_word 4 SY_THR_STATIC" m] assms by (simp add: static_sysent_bytes_def)
qed

text \<open>A function patched to answer one: its first bytes are the code that does so.\<close>

lemma ps4KernelPatchToTruthFunction_patches:
  assumes "copyin_ok ro ci" and "mapped (km s) argv 16" and "mapped (km s) fn 8" and "ps4KernelIsKernelAddress fn"
    and "disjoint_regions code 8 argv 16" and "user_bytes (km s) code 8 = Some ps4TruthFunctionPayload"
  shows "ps4KernelPatchToTruthFunction (\<lambda>_. ps4KernelExploitPayloadPatchToTruthFunction ci code) argv fn s =
    Some (s\<lparr>km := patched (with_argv s argv [fn, NULL]) fn ps4TruthFunctionPayload, kcr0 := kcr0 s OR CR0_WP\<rparr>)"
proof -
  define m where "m = with_argv s argv [fn, NULL]"
  have st: "store_argv (km s) argv [fn, NULL] = Some m"
    unfolding m_def by (rule store_argv_patched) (use assms(2) in simp_all)
  have arg: "load64 m argv = Some fn" using load_argv_patched [of 0 "[fn, NULL]"] by (simp add: m_def)
  have "mapped m fn 8" unfolding m_def by (rule mapped_patched) (rule assms(3))
  moreover have "user_bytes m code 8 = Some ps4TruthFunctionPayload"
    using assms(5,6) by (auto simp: user_bytes_def m_def load_patched_other split: if_splits)
  ultimately have "ci code fn 8 (unprotected s\<lparr>km := m\<rparr>) = Some (0, unprotected s\<lparr>km := patched m fn ps4TruthFunctionPayload\<rparr>)"
    using copyinD(1) [OF assms(1,4), of "unprotected s\<lparr>km := m\<rparr>" 8 code] by (simp add: wp_simps)
  then show ?thesis
    unfolding m_def [symmetric] using st arg
    by (simp add: ps4KernelPatchToTruthFunction_def ps4KernelExploitPayloadPatchToTruthFunction_def ps4TruthFunctionPayload_def wp_simps)
qed

text \<open>C31 Hooking a system call: a function outside of the kernel is refused.  Otherwise, when the entry can be written, it
  has the new function and number of arguments, counts as static and is zero elsewhere; no other entry
  and no other memory changes.  The number is a signed one, so that it may reach below the table.\<close>

theorem ps4KernelHookSyscall_entry:
  assumes "mapped (km s) argv 32" and "symf (s\<lparr>km := m\<rparr>) = Some (table, s\<lparr>km := m\<rparr>)"
    and "m = with_argv s argv [scast number, scast argc, to, NULL]" and "e = table + scast number * 48"
    and "mapped (km s) e 48" and "writable ro e 48 s" and "disjoint_regions argv 32 e 48"
  shows "ps4KernelHookSyscall (\<lambda>_. ps4KernelExploitPayloadHookSyscall ro symf) argv number argc to s =
      (if ps4KernelIsKernelAddress to then Some (0, s\<lparr>km := patched m e (static_sysent_bytes argc to)\<rparr>) else Some (- 1, s\<lparr>km := m\<rparr>)) \<and>
    sysent_at (patched m e (static_sysent_bytes argc to)) e = Some (static_sysent argc to) \<and>
    outside (patched m e (static_sysent_bytes argc to)) e 48 = outside m e 48"
proof -
  have st: "store_argv (km s) argv [scast number, scast argc, to, NULL] = Some m"
    unfolding assms(3) by (rule store_argv_patched) (use assms(1) in simp_all)
  have arg: "load64 m argv = Some (scast number)" "load64 m (argv + 8) = Some (scast argc)" "load64 m (argv + 16) = Some to"
    unfolding assms(3) using load_argv_patched [of 0 "[scast number, scast argc, to, NULL]"]
      load_argv_patched [of 1 "[scast number, scast argc, to, NULL]"] load_argv_patched [of 2 "[scast number, scast argc, to, NULL]"]
    by simp_all
  have e: "mapped m e 48" unfolding assms(3) by (rule mapped_patched) (rule assms(5))
  have keep: "load64 (patched m e z) (argv + of_nat k) = load64 m (argv + of_nat k)" if "length z = 48" "k + 8 \<le> 32" for z k
    using disjoint_regions_sub [OF assms(7) that(2)] that(1) by (simp add: load64_def load_patched_other)
  have narrow: "(ucast (scast w :: u64) :: u32) = w" for w :: u32 by (rule bit_eqI) (simp add: bit_simps)
  have "ps4KernelHookSyscall (\<lambda>_. ps4KernelExploitPayloadHookSyscall ro symf) argv number argc to s =
      (if ps4KernelIsKernelAddress to then Some (0, s\<lparr>km := patched m e (static_sysent_bytes argc to)\<rparr>) else Some (- 1, s\<lparr>km := m\<rparr>))"
    using st arg assms(2,4) keep [of "replicate 48 0" 8] keep [of "bytes_of_word 4 argc @ replicate 44 0" 16] sysent_stores [OF assms(6)] e
    by (simp add: ps4KernelHookSyscall_def ps4KernelExploitPayloadHookSyscall_def narrow)
  then show ?thesis by (simp add: sysent_at_patched outside_patched length_static_sysent_bytes)
qed


text \<open>The installation of the run system call: its entry has three arguments and points at a block of executable memory with the
  code of the system call.\<close>

lemma ps4KernelExploitPayloadInstallRunSyscall_installs:
  assumes "copyin_ok ro ci" and "symf s = Some (table, s1)" and "ps4KernelInternalInitialized (kg s1)"
    and "addr = ps4KernelExecutableAddress (kg s1)" and "ps4KernelIsKernelAddress addr"
    and "user_bytes (km s1) code (scast sz) = Some bs" and "mapped (km s1) addr (length bs)"
    and "e = table + 172 * 48" and "mapped (km s1) e 48" and "\<forall>i\<in>{0..<48}. \<not> ro (e + of_nat i)" and "disjoint_regions addr (length bs) e 48"
  shows "\<exists>m. ps4KernelExploitPayloadInstallRunSyscall ro symf ci buf code sz s =
      Some (0, s1\<lparr>km := m, kcr0 := kcr0 s1 OR CR0_WP, kg := (kg s1)\<lparr>ps4KernelExecutableAddress := addr + scast sz\<rparr>\<rparr>) \<and>
    sysent_at m e = Some (static_sysent 3 addr) \<and> load_bytes m addr (length bs) = Some bs"
proof -
  define g where "g = (kg s1)\<lparr>ps4KernelExecutableAddress := addr + scast sz\<rparr>"
  define t where "t = s1\<lparr>km := patched (km s1) addr bs, kcr0 := kcr0 s1 OR CR0_WP, kg := g\<rparr>"
  let ?m = "patched (km t) e (static_sysent_bytes 3 addr)"
  have len: "length bs = unat (scast sz :: u64)" using assms(6) by (auto simp: user_bytes_def load_bytes_conv split: if_splits)
  have alloc: "ps4KernelExecutableMemoryMalloc buf (scast sz) (km s1) (kg s1) = Some (addr, km s1, g)"
    using assms(3,4) by (simp add: ps4KernelExecutableMemoryMalloc_def ensure_initialized_def g_def Let_def)
  have copy: "ci code addr (scast sz) (unprotected (s1\<lparr>kg := g\<rparr>)) = Some (0, unprotected (s1\<lparr>kg := g\<rparr>)\<lparr>km := patched (km s1) addr bs\<rparr>)"
    using copyinD(1) [OF assms(1,5), of "unprotected (s1\<lparr>kg := g\<rparr>)" "scast sz" code bs] assms(6,7) len by (simp add: wp_simps)
  have restored: "ps4KernelCr0Set (ps4KernelCr0Get (unprotected (s1\<lparr>kg := g\<rparr>)\<lparr>km := patched (km s1) addr bs\<rparr>) OR CR0_WP)
      (unprotected (s1\<lparr>kg := g\<rparr>)\<lparr>km := patched (km s1) addr bs\<rparr>) = t"
    by (simp add: set_wp t_def)
  have "writable ro e 48 t" using assms(10) by (simp add: writable_def)
  note stores = sysent_stores [OF this, where m = "km t", simplified]
  have "mapped (km t) e 48" using mapped_patched [OF assms(9)] by (simp add: t_def)
  then have "ps4KernelExploitPayloadInstallRunSyscall ro symf ci buf code sz s = Some (0, t\<lparr>km := ?m\<rparr>)"
    using assms(2,8) alloc copy restored stores
    by (simp add: ps4KernelExploitPayloadInstallRunSyscall_def clear_wp Let_def)
  moreover have "load_bytes (km t) addr (length bs) = Some bs"
    using holds_patched [of bs "km s1" addr] len unat_ptr_less [of "scast sz"] by (simp add: t_def holds_bytes_def)
  then have "load_bytes ?m addr (length bs) = Some bs"
    using assms(11) by (simp add: load_patched_other length_static_sysent_bytes)
  ultimately show ?thesis by (intro exI [of _ ?m]) (simp add: t_def g_def sysent_at_patched)
qed

end
