(* ===== verification/Kernel_Sample.thy ===== *)
theory Kernel_Sample
  imports Resolve Kernel_Patches
begin

text \<open>
  Concrete instances of the theorems about the kernel services and the resolver: a kernel image at
  the static address, a symbol table, argument vectors and stubs as bytes in memory.
\<close>

section \<open>Kernel services\<close>

definition kernel_image :: memory where
  "kernel_image = (\<lambda>x. let i = unat (x - 0xffffffff80700000) in
     if i < 9 then Some (elfMagic ! i) else Some 0)"

lemma ps4KernelElfSeek_first_witness: "ps4KernelElfSeek kernel_image = Some 0xffffffff80700000"
proof -
  have "mapped kernel_image a n" for a n by (simp add: mapped_def kernel_image_def Let_def)
  moreover have "holds_bytes kernel_image 0xffffffff80700000 elfMagic"
    by (simp add: holds_bytes_iff length_elfMagic kernel_image_def Let_def unat_of_nat)
  ultimately show ?thesis using ps4KernelElfSeek_first [of kernel_image] by simp
qed

definition sample_globals :: kernel_globals where
  "sample_globals = \<lparr>ps4KernelInternalInitialized = True, ps4KernelElfSymbols = 0x5000,
     ps4KernelElfStrings = 0x5030, ps4KernelExecutableAddress = 0x4000\<rparr>"

theorem ps4KernelExecutableMemoryMalloc_disjoint_witness:
  "\<exists>as g'. exec_mallocs 0 [16, 32] (\<lambda>_. None) sample_globals = Some (as, \<lambda>_. None, g') \<and>
     disjoint_regions (as ! 0) 16 (as ! 1) 32"
  using ps4KernelExecutableMemoryMalloc_disjoint [of sample_globals "[16, 32]" 0 "\<lambda>_. None"]
  by (auto simp: sample_globals_def)

definition flag_run :: "(bool \<Rightarrow> u32 \<times> bool) option \<Rightarrow> bool \<Rightarrow> u32 \<times> bool" where
  "flag_run f s = (case f of None \<Rightarrow> (if s then 0 else - 1, s) | Some fn \<Rightarrow> fn s)"

lemma ps4KernelRunMain_runs_witness:
  "ps4KernelRunMain 0x7fff0000 (\<lambda>s. (5, s)) flag_run (\<lambda>s. True) False = (5, True)"
proof -
  have "kernel_run_ok (\<lambda>s. s) flag_run" by (simp add: kernel_run_ok_def flag_run_def)
  from ps4KernelRunMain_runs [OF this, of "0x7fff0000" "\<lambda>s. (5, s)" "\<lambda>s. True" False] show ?thesis
    by (simp add: ps4KernelIsInKernel_def ps4KernelIsKernelAddress_def)
qed

definition visible_symbol :: Elf64_Sym where
  "visible_symbol = \<lparr>st_name = 1, st_info = 0, st_other = 0, st_shndx = 0, st_value = 0x1234, st_size = 0\<rparr>"

definition symtab_bytes :: "u8 list" where
  "symtab_bytes = sym_bytes visible_symbol @ sym_bytes (visible_symbol\<lparr>st_value := 0x5678\<rparr>) @
     ([0] @ ([0x61, 0x62] @ [0])) @ ([0x61, 0x62] @ [0])"

definition symtab_rom :: memory where "symtab_rom = memory_at 0x5000 symtab_bytes"

lemma symtab_parts:
  "sym_at symtab_rom 0x5000 = Some visible_symbol" "cstring_at symtab_rom 0x5031 [0x61, 0x62]"
  "cstring_at symtab_rom 0x5034 [0x61, 0x62]"
proof -
  have "holds_bytes symtab_rom 0x5000 symtab_bytes"
    unfolding symtab_rom_def by (rule holds_memory_at) (simp add: symtab_bytes_def length_sym_bytes)
  then show "sym_at symtab_rom 0x5000 = Some visible_symbol" "cstring_at symtab_rom 0x5031 [0x61, 0x62]"
    "cstring_at symtab_rom 0x5034 [0x61, 0x62]"
    unfolding symtab_bytes_def holds_bytes_append
    by (simp_all add: sym_at_iff cstring_at_def length_sym_bytes holds_bytes_Cons)
qed

lemma symtab_table: "symbol_table_at symtab_rom 0x5000 0x5030 [visible_symbol] [[0x61, 0x62]]"
  using symtab_parts by (simp add: symbol_table_at_def visible_symbol_def)

theorem ps4KernelDlSym_first_witness:
  "ps4KernelDlSym 0xffffffff00000000 0 0 (\<lambda>m g. None) 0x5034 symtab_rom sample_globals =
     Some (0x1234, symtab_rom, sample_globals)"
  using ps4KernelDlSym_first [OF _ _ _ symtab_parts(3), of "0xffffffff00000000" sample_globals
      "[visible_symbol]" "[[0x61, 0x62]]"] symtab_table
  by (simp add: sample_globals_def ps4KernelIsInKernel_def ps4KernelIsKernelAddress_def visible_symbol_def)

lemma store_argv_outside:
  assumes "store_argv m argv ws = Some m'" and "unat b + 8 * length ws \<le> n" and "n \<le> address_space"
    and "argv = a + b"
  shows "outside m' a n = outside m a n"
  using assms
proof (induction ws arbitrary: m argv b)
  case (Cons w ws)
  from Cons.prems obtain m1 where m1: "store64 m argv w = Some m1" "store_argv m1 (argv + 8) ws = Some m'"
    by (auto simp: Some_bind_conv)
  have one: "outside m1 a n = outside m a n"
    using in_region_sub [of a b 8 _ n] Cons.prems by (intro outside_eqI) (auto simp: store64_apply [OF m1(1)])
  show ?case
  proof (cases "ws = []")
    case False
    then have "8 \<le> 8 * length ws" by (cases ws) auto
    then have "unat (b + 8) = unat b + 8" using Cons.prems(2,3) by (simp add: unat_word_ariths)
    then have "outside m' a n = outside m1 a n"
      using Cons.prems by (intro Cons.IH [OF m1(2), of "b + 8"]) (simp_all add: add.assoc)
    with one show ?thesis by simp
  qed (use m1 one in simp)
qed simp

definition symtab_mem :: memory where
  "symtab_mem = memory_at 0x5000 (symtab_bytes @ replicate 24 0)"

lemma length_symtab_bytes: "length symtab_bytes = 55"
  by (simp add: symtab_bytes_def length_sym_bytes)

lemma symtab_mem_parts: "outside symtab_mem 0x5037 24 = symtab_rom" "mapped symtab_mem 0x5037 24"
  using outside_memory_at [of symtab_bytes "replicate 24 0" "0x5000"]
    mapped_memory_at [of "symtab_bytes @ replicate 24 0" 55 24 "0x5000"]
  by (simp_all add: symtab_mem_def symtab_rom_def length_symtab_bytes)

lemma cstring_at_le: "m \<subseteq>\<^sub>m m' \<Longrightarrow> cstring_at m a s \<Longrightarrow> cstring_at m' a s"
  unfolding cstring_at_def holds_bytes_def by (blast intro: readsD [OF reads_load_bytes])

lemma symbol_table_at_le:
  "m \<subseteq>\<^sub>m m' \<Longrightarrow> symbol_table_at m sy st ss ns \<Longrightarrow> symbol_table_at m' sy st ss ns"
  by (auto simp: symbol_table_at_def intro: readsD [OF reads_sym_at] cstring_at_le)

lemma ps4KernelDlSym_user_witness:
  "\<exists>m3 run. ps4KernelDlSym 0x7fff0000 0 0x5037 run 0x5034 symtab_mem sample_globals =
     Some (0x1234, m3, sample_globals)"
proof -
  obtain m1 where m1: "store_argv symtab_mem 0x5037 [NULL, 0x5034, NULL] = Some m1"
    and dom: "dom m1 = dom symtab_mem"
    using store_argv_total [of symtab_mem "0x5037" "[NULL, 0x5034, NULL]"] symtab_mem_parts(2) by auto
  have "outside m1 0x5037 24 = symtab_rom"
    using store_argv_outside [OF m1, of 0 24] symtab_mem_parts(1) by simp
  then have le: "symtab_rom \<subseteq>\<^sub>m m1" using outside_le [of m1 "0x5037" 24] by simp
  have name: "cstring_at m1 0x5034 [0x61, 0x62]"
    using cstring_at_le [OF le symtab_parts(3)] .
  have "ps4KernelDlSym 0xffffffff00000000 0 0 (\<lambda>m g. None) 0x5034 m1 sample_globals =
      Some (0x1234, m1, sample_globals)"
    using ps4KernelDlSym_loop_find [OF symbol_table_at_le [OF le symtab_table] name, of 0]
    by (simp add: ps4KernelDlSym_def ensure_initialized_def sample_globals_def ps4KernelIsInKernel_def
        ps4KernelIsKernelAddress_def visible_symbol_def)
  moreover have "mapped m1 0x5037 8"
    using mapped_sub [of m1 "0x5037" 24 0 8] mapped_cong_dom [OF dom] symtab_mem_parts(2) by simp
  moreover have "\<not> ps4KernelIsInKernel 0x7fff0000"
    by (simp add: ps4KernelIsInKernel_def ps4KernelIsKernelAddress_def)
  ultimately show ?thesis
    using ps4KernelDlSym_user [OF _ _ m1, of "0x7fff0000"] by fastforce
qed

lemma ps4KernelMalloc_block_witness:
  "\<exists>m1. ps4KernelMalloc (\<lambda>argc. ps4KernelExploitPayloadMalloc 0) 0x5037 16 symtab_mem sample_globals =
     Some (0x4000, m1, sample_globals\<lparr>ps4KernelExecutableAddress := 0x4010\<rparr>)"
  using ps4KernelMalloc_block [OF _ symtab_mem_parts(2), of sample_globals 0 16 0]
  by (auto simp: sample_globals_def)

section \<open>The resolver\<close>

definition stub_memory :: "stub \<Rightarrow> memory" where
  "stub_memory st = memory_at 0x6000 (stub_code 1 2 [0xc3] 0x6000 st)"

lemma length_stub_code: "length (stub_code kerncall pushall rest f st) \<le> 122 + length rest"
  by (cases st) (simp_all add: stub_defs)

lemma stub_memory_holds: "holds_bytes (stub_memory st) 0x6000 (stub_code 1 2 [0xc3] 0x6000 st)"
  unfolding stub_memory_def
  using length_stub_code [of 1 2 "[0xc3]" "0x6000" st] by (intro holds_memory_at) simp

definition sample_env :: resolve_env where
  "sample_env = \<lparr>env_kernel_dlsym = (\<lambda>s m. Some (0xffffffff80001000, m)), env_load_libkernel = 1,
     env_resolve_lsm = (\<lambda>k l. (0, 0x700)), env_lsm = (\<lambda>l n. 7), env_dlsym = (\<lambda>i s a m. Some (0, m))\<rparr>"

theorem ps4Resolve_layout_witness:
  "ps4Resolve sample_env no_handlers 0 0 (stub_memory (FunctionStub 1 2 3 4)) 0x6000 =
     map_option (\<lambda>(r, s). (r, Some s)) (ps4ResolveModuleAndSymbolOrKernelSymbol sample_env no_handlers 0 0
       (stub_memory (FunctionStub 1 2 3 4)) 1 2 3 4 NULL 0x6000)"
  using ps4Resolve_layout [OF stub_memory_holds, of sample_env no_handlers 0 0 "FunctionStub 1 2 3 4"] by simp

theorem ps4Resolve_kernel_stub_in_user_mode_witness:
  "\<exists>s. ps4Resolve sample_env no_handlers 0 0 (stub_memory (KernelFunctionStub 2 5)) 0x6000 =
     Some (PS4ResolveStatusArgumentError, Some s)"
  using ps4Resolve_kernel_stub_in_user_mode [OF stub_memory_holds, of 0 2 5 sample_env 0]
  by (auto simp: ps4KernelIsInKernel_def ps4KernelIsKernelAddress_def)

definition slot_memory :: memory where
  "slot_memory = memory_at 0x6000 ([0xa8, 2, 0x49] @ replicate 13 0)"

lemma slot_memory_parts:
  "ps4StubType slot_memory 0x6000 = Some 0x49" "mapped slot_memory 0x6008 8" "mapped slot_memory 0x6004 4"
  "load32 slot_memory 0x6004 = Some 0" "load8 slot_memory 0x6000 = Some 0xa8"
proof -
  have h: "holds_bytes slot_memory 0x6000 ([0xa8, 2, 0x49] @ replicate 13 0)"
    unfolding slot_memory_def by (rule holds_memory_at) simp
  then show "ps4StubType slot_memory 0x6000 = Some 0x49" "load8 slot_memory 0x6000 = Some 0xa8"
    by (simp_all add: ps4StubType_def holds_bytes_Cons)
  show "load32 slot_memory 0x6004 = Some 0"
    using h by (simp add: load32_holds holds_bytes_Cons numeral_eq_Suc add.assoc)
  show "mapped slot_memory 0x6008 8" "mapped slot_memory 0x6004 4"
    using mapped_memory_at [of "[0xa8, 2, 0x49] @ replicate 13 0" 8 8 "0x6000"]
      mapped_memory_at [of "[0xa8, 2, 0x49] @ replicate 13 0" 4 4 "0x6000"] by (simp_all add: slot_memory_def)
qed

lemma ps4Resolve_kernel_witness:
  "\<exists>s. ps4ResolveModuleAndSymbolOrKernelSymbol sample_env no_handlers 0xffffffff00000000 0 slot_memory
       0 2 0 0 0x6008 0x6000 = Some (PS4ResolveStatusSuccess, s) \<and>
     load64 (run_mem s) 0x6008 = Some 0xffffffff80001000"
  using ps4Resolve_kernel [OF _ slot_memory_parts(1), of "0xffffffff00000000" 2 "0x6008" sample_env
      "0xffffffff80001000" slot_memory 0 0 0 0] slot_memory_parts(2)
  by (auto simp: ps4KernelIsInKernel_def ps4KernelIsKernelAddress_def sample_env_def)

text \<open>A process whose libkernel is not found, one whose libkernel lacks the loader (in both, the pointer stays
  \<open>NULL\<close>), one whose loader does not find the module, and one where every step succeeds.\<close>

definition no_libkernel_env :: resolve_env where
  "no_libkernel_env = sample_env\<lparr>env_load_libkernel := 0, env_resolve_lsm := \<lambda>k l. (2, l)\<rparr>"

definition no_loader_env :: resolve_env where
  "no_loader_env = sample_env\<lparr>env_resolve_lsm := \<lambda>k l. (2, l)\<rparr>"

definition no_module_env :: resolve_env where
  "no_module_env = sample_env\<lparr>env_lsm := \<lambda>l n. - 2\<rparr>"

lemmas user_env_defs = sample_env_def no_libkernel_env_def no_loader_env_def no_module_env_def

theorem ps4Resolve_user_witness:
  "outcome (ps4ResolveModuleAndSymbolOrKernelSymbol no_libkernel_env no_handlers 0 0 slot_memory
       1 2 0x6004 0x6008 0 0x6000) = Some (PS4ResolveStatusKernelLoadError, slot_memory, NULL) \<and>
   outcome (ps4ResolveModuleAndSymbolOrKernelSymbol no_loader_env no_handlers 0 0 slot_memory
       1 2 0x6004 0x6008 0 0x6000) = Some (PS4ResolveStatusLSMResolveError, slot_memory, NULL) \<and>
   (\<exists>m1. load32 m1 0x6004 = Some (- 2) \<and>
     outcome (ps4ResolveModuleAndSymbolOrKernelSymbol no_module_env no_handlers 0 0 slot_memory
       1 2 0x6004 0x6008 0 0x6000) = Some (PS4ResolveStatusModuleLoadError, m1, 0x700)) \<and>
   (\<exists>m1. load32 m1 0x6004 = Some 7 \<and>
     outcome (ps4ResolveModuleAndSymbolOrKernelSymbol sample_env no_handlers 0 0 slot_memory
       1 2 0x6004 0x6008 0 0x6000) = Some (PS4ResolveStatusSuccess, m1, 0x700))"
proof -
  have user: "\<not> ps4KernelIsInKernel 0" by (simp add: ps4KernelIsInKernel_def ps4KernelIsKernelAddress_def)
  note resolved = ps4Resolve_user [OF user slot_memory_parts(1) _ _ _ _ _ slot_memory_parts(4) refl
      prod.collapse refl refl, of "0x6008" 1 2 _ 0 0]
  show ?thesis
    using resolved [of no_libkernel_env] resolved [of no_loader_env]
      resolved [of no_module_env] resolved [of sample_env]
    by (simp add: user_env_defs look_up_def) blast
qed

lemma ps4Resolve_other_code_witness:
  "ps4Resolve sample_env no_handlers 0 0 (memory_at 0x6000 [0x55, 0x48]) 0x6000 =
     Some (PS4ResolveStatusFunctionResolveError, None)"
  using ps4Resolve_other_code [of "memory_at 0x6000 [0x55, 0x48]" "0x6000" "0x55" "0x48"]
  by (simp add: load8_def memory_at_def)


section \<open>Patching the kernel\<close>

text \<open>A memory without holes in which the symbol table lies, and copying functions that keep to their promise.\<close>

definition full_mem :: memory where
  "full_mem = (\<lambda>x. case symtab_rom x of None \<Rightarrow> Some 7 | Some b \<Rightarrow> Some b)"

definition sample_kernel :: kernel_state where
  "sample_kernel = \<lparr>km = full_mem, kcr0 = 0x80010031, kg = sample_globals\<rparr>"

definition sample_copyin :: copy_fn where
  "sample_copyin u k n s = (case user_bytes (km s) u n of
     Some bs \<Rightarrow> Some (0, s\<lparr>km := patched (km s) k bs\<rparr>) | None \<Rightarrow> Some (EFAULT, s\<lparr>km := patched (km s) k []\<rparr>))"

definition sample_copyout :: copy_fn where
  "sample_copyout k u n s = (case load_bytes (km s) k (unat n) of None \<Rightarrow> None | Some bs \<Rightarrow>
     if user_bytes (km s) u n = None then Some (EFAULT, s\<lparr>km := patched (km s) u []\<rparr>) else Some (0, s\<lparr>km := patched (km s) u bs\<rparr>))"

lemma sample_copies_ok: "copyin_ok ro sample_copyin" "copyout_ok ro sample_copyout"
proof -
  show "copyin_ok ro sample_copyin"
    unfolding copyin_ok_def sample_copyin_def by (auto split: option.split intro!: exI [of _ "[]"])
  show "copyout_ok ro sample_copyout"
    unfolding copyout_ok_def sample_copyout_def by (auto intro!: exI [of _ "[]"])
qed

lemma full_mapped: "mapped (km sample_kernel) a n"
  by (simp add: mapped_def sample_kernel_def full_mem_def split: option.split)

lemma full_mem_rom: "symtab_rom \<subseteq>\<^sub>m full_mem"
  by (auto simp: map_le_def full_mem_def)

text \<open>Four bytes are copied from user memory over read-only memory of the kernel.\<close>

theorem ps4KernelMemcpy_copies_witness:
  "\<exists>s bs. ps4KernelMemcpy (\<lambda>_. ps4KernelExploitPayloadMemcpy (\<lambda>_. True) sample_copyin sample_copyout) 0x9000 0xffffffff80000000 0x5030 4
      sample_kernel = Some s \<and>
    load_bytes full_mem 0x5030 4 = Some bs \<and> load_bytes (km s) 0xffffffff80000000 4 = Some bs \<and> bit (kcr0 s) 16"
proof -
  obtain bs where bs: "load_bytes (km sample_kernel) 0x5030 (unat (4 :: u64)) = Some bs"
    using full_mapped [of "0x5030" 4] load_bytes_mapped [of "km sample_kernel" "0x5030" 4] by auto
  have "disjoint_regions 0x5030 (unat (4 :: u64)) 0x9000 32" "disjoint_regions 0x5030 (unat (4 :: u64)) 0xffffffff80000000 (unat (4 :: u64))"
    by (simp_all add: disjoint_regions_def)
  from ps4KernelMemcpy_copies [OF sample_copies_ok full_mapped bs full_mapped _ _ this, of "\<lambda>_. True"] bs show ?thesis
    by (simp add: ps4KernelIsKernelAddress_def Let_def sample_kernel_def bit_simps CR0_WP_def)
qed


text \<open>A function of the kernel is hooked; the code of the jump stands in user memory.\<close>

lemma length_trampoline: "length ps4TrampolinePayload = 12"
  by (simp add: ps4TrampolinePayload_def)

theorem ps4KernelHookFunction_hooks_witness:
  "\<exists>s. ps4KernelHookFunction (\<lambda>_. ps4KernelExploitPayloadHookFunction (\<lambda>_. True) sample_copyin 0xa000) 0x9000
      0xffffffff80001000 0xffffffff80002000 (sample_kernel\<lparr>km := patched full_mem 0xa000 ps4TrampolinePayload\<rparr>) = Some (0, s) \<and>
    jump_target (km s) 0xffffffff80001000 = Some 0xffffffff80002000"
proof -
  let ?s = "sample_kernel\<lparr>km := patched full_mem 0xa000 ps4TrampolinePayload\<rparr>"
  have there: "mapped (km ?s) a n" for a n
    using mapped_patched [OF full_mapped [unfolded sample_kernel_def]] by simp
  have "load_bytes (km ?s) 0xa000 12 = Some ps4TrampolinePayload"
    using holds_patched [of ps4TrampolinePayload full_mem "0xa000"] by (simp add: holds_bytes_def length_trampoline)
  then have code: "user_bytes (km ?s) 0xa000 12 = Some ps4TrampolinePayload" by (simp add: user_bytes_def)
  have "disjoint_regions 0x9000 24 0xffffffff80001000 12" "disjoint_regions 0xa000 12 0x9000 24"
    by (simp_all add: disjoint_regions_def)
  note hook = ps4KernelHookFunction_hooks [OF sample_copies_ok(1) there there this, of "\<lambda>_. True" "0xffffffff80002000"]
  have "ps4KernelIsKernelAddress 0xffffffff80001000" "ps4KernelIsKernelAddress 0xffffffff80002000"
    by (simp_all add: ps4KernelIsKernelAddress_def)
  with hook code show ?thesis by (auto simp: Let_def)
qed

text \<open>The system call with the number two, in a table that the symbol lookup finds.\<close>

abbreviation (input) find_table :: "kernel_state \<Rightarrow> (ptr \<times> kernel_state) option" where
  "find_table \<equiv> kernel_symbol 0xffffffff00000000 0 0 (\<lambda>_ _. None) 0x5034"

lemma find_table:
  assumes "length bs = 32"
  shows "find_table (sample_kernel\<lparr>km := patched full_mem 0x9000 bs\<rparr>) = Some (0x1234, sample_kernel\<lparr>km := patched full_mem 0x9000 bs\<rparr>)"
proof -
  let ?m = "patched full_mem 0x9000 bs"
  have "disjoint_regions 0x5000 55 0x9000 32" by (simp add: disjoint_regions_def)
  then have "\<not> in_region 0x9000 32 x" if "x \<in> dom symtab_rom" for x
    using that by (intro disjoint_regionsD) (auto simp: symtab_rom_def memory_at_def in_region_def Let_def length_symtab_bytes split: if_splits)
  then have le: "symtab_rom \<subseteq>\<^sub>m ?m"
    using full_mem_rom assms by (auto simp: map_le_def patched_def)
  have name: "cstring_at ?m 0x5034 [0x61, 0x62]" using cstring_at_le [OF le symtab_parts(3)] .
  have "ps4KernelDlSym 0xffffffff00000000 0 0 (\<lambda>_ _. None) 0x5034 ?m sample_globals = Some (0x1234, ?m, sample_globals)"
    using ps4KernelDlSym_loop_find [OF symbol_table_at_le [OF le symtab_table] name, of 0]
    by (simp add: ps4KernelDlSym_def ensure_initialized_def sample_globals_def ps4KernelIsInKernel_def
        ps4KernelIsKernelAddress_def visible_symbol_def)
  then show ?thesis by (simp add: kernel_symbol_def sample_kernel_def)
qed

theorem ps4KernelHookSyscall_entry_witness:
  "\<exists>s. ps4KernelHookSyscall (\<lambda>_. ps4KernelExploitPayloadHookSyscall (\<lambda>_. False) find_table) 0x9000 2 3 0xffffffff80002000 sample_kernel =
      Some (0, s) \<and> sysent_at (km s) 0x1294 = Some (static_sysent 3 0xffffffff80002000)"
proof -
  let ?m = "patched (km sample_kernel) 0x9000 (concat (map (bytes_of_word 8) [scast (2 :: u32), scast (3 :: u32), 0xffffffff80002000, NULL]))"
  have "find_table (sample_kernel\<lparr>km := ?m\<rparr>) = Some (0x1234, sample_kernel\<lparr>km := ?m\<rparr>)"
    using find_table [of "concat (map (bytes_of_word 8) [scast (2 :: u32), scast (3 :: u32), 0xffffffff80002000, NULL])"]
    by (simp add: sample_kernel_def)
  note entry = ps4KernelHookSyscall_entry [where symf = find_table and s = sample_kernel and argv = "0x9000" and number = 2 and argc = 3
      and to = "0xffffffff80002000" and ro = "\<lambda>_. False", OF full_mapped this refl refl full_mapped]
  have "disjoint_regions 0x9000 32 (0x1234 + scast (2 :: u32) * 48) 48" by (simp add: disjoint_regions_def)
  then show ?thesis using entry by (simp add: writable_def ps4KernelIsKernelAddress_def)
qed

end
