(* ===== verification/Os_Resources.thy ===== *)
theory Os_Resources
  imports Ps4_Prelude "HOL-Library.Multiset"
begin

text \<open>
  The operating system as the memory components use it: every call is an event with its answer, and a
  trace of events says which resources (heap blocks, file handles, mappings) are held at its
  end.  The locale \<open>resource_owner\<close> is the contract of a component that acquires resources in one call
  and gives them back in another.  It accounts for every resource: a failed acquisition, or a successful
  one followed by its release, leaves what was held before, less the handles the component closed without
  having got them (\<open>foreign\<close>), plus what the system refused to take back (\<open>left\<close> and \<open>stuck\<close>).
\<close>

section \<open>Calls and resources\<close>

datatype os_call =
    Malloc ptr
  | Free ptr
  | ShmOpen "u8 list" u32
  | Fstat u32 "u64 option"
  | Ftruncate u32 u64 u32
  | Mmap ptr u64 u32
  | Munmap ptr u64 u32
  | Close u32
  | ShmUnlink "u8 list" u32
  | JitCreate u64 bool u32
  | JitAlias u32 bool u32

datatype resource = Block ptr | Handle u32 | Mapping ptr u64

abbreviation (input) MAP_FAILED :: ptr where "MAP_FAILED \<equiv> - 1"

text \<open>A failed acquisition (a null block, a negative handle, \<open>MAP_FAILED\<close>) acquires nothing, and a
  \<open>munmap\<close> that does not answer 0 leaves the mapping in place.  \<open>close\<close> takes a handle of the process out of
  the table whatever it answers, and does nothing to a number that is no handle of it.\<close>

fun touch :: "os_call \<Rightarrow> resource multiset \<Rightarrow> resource multiset" where
  "touch (Malloc p) M = (if p = NULL then M else add_mset (Block p) M)"
| "touch (Free p) M = M - {#Block p#}"
| "touch (ShmOpen path h) M = (if sint h < 0 then M else add_mset (Handle h) M)"
| "touch (Fstat h r) M = M"
| "touch (Ftruncate h n r) M = M"
| "touch (Mmap p n h) M = (if p = MAP_FAILED then M else add_mset (Mapping p n) M)"
| "touch (Munmap p n r) M = (if r = 0 then M - {#Mapping p n#} else M)"
| "touch (Close h) M = M - {#Handle h#}"
| "touch (ShmUnlink path r) M = M"
| "touch (JitCreate n ok h) M = (if ok then add_mset (Handle h) M else M)"
| "touch (JitAlias h ok h') M = (if ok then add_mset (Handle h') M else M)"

definition held_after :: "os_call list \<Rightarrow> resource multiset \<Rightarrow> resource multiset" where
  "held_after tr M = fold touch tr M"

lemma held_after_simps [simp]:
  "held_after [] M = M" "held_after (c # tr) M = held_after tr (touch c M)"
  by (simp_all add: held_after_def)

lemma held_after_append [simp]: "held_after (xs @ ys) M = held_after ys (held_after xs M)"
  by (simp add: held_after_def)

section \<open>Whole pages\<close>

text \<open>The two roundings of the memory components.\<close>

definition round_up :: "u64 \<Rightarrow> u64 \<Rightarrow> u64 option" where
  "round_up page n = do { q \<leftarrow> udiv (n - 1) page; Some ((q + 1) * page) }"

definition round_past :: "u64 \<Rightarrow> u64 \<Rightarrow> u64 option" where
  "round_past page n = do { q \<leftarrow> udiv n page; Some ((q + 1) * page) }"

lemma round_past_nat:
  assumes "page \<noteq> 0" and "unat n + unat page < address_space"
  shows "\<exists>z. round_past page n = Some z \<and> unat z = (unat n div unat page + 1) * unat page"
proof -
  let ?q = "unat n div unat page"
  have "?q * unat page \<le> unat n" by (rule div_times_less_eq_dividend)
  moreover have "(?q + 1) * unat page = ?q * unat page + unat page" by (simp only: add_mult_distrib mult_1)
  ultimately have fits: "(?q + 1) * unat page < address_space" using assms(2) by linarith
  have "1 \<le> unat page" using assms(1) by (simp add: unat_gt_0 Suc_le_eq)
  then have "(?q + 1) * 1 \<le> (?q + 1) * unat page" by (rule mult_le_mono2)
  with fits have "unat (n div page + 1) = ?q + 1"
    by (simp add: unat_word_ariths unat_div_distrib)
  with fits have "unat ((n div page + 1) * page) = (?q + 1) * unat page"
    by (subst unat_word_ariths(2)) simp
  then show ?thesis using assms(1) by (simp add: round_past_def udiv_def)
qed

lemma round_up_past: "round_up page n = round_past page (n - 1)"
  by (simp add: round_up_def round_past_def)

lemma round_up_nat:
  assumes "page \<noteq> 0" and "n \<noteq> 0" and "unat n + unat page < address_space"
  shows "\<exists>z. round_up page n = Some z \<and> unat z = ((unat n - 1) div unat page + 1) * unat page"
proof -
  have "unat (n - 1) = unat n - 1" using assms(2) by (simp add: unat_minus_one)
  with round_past_nat [OF assms(1), of "n - 1"] assms(3) show ?thesis by (simp add: round_up_past)
qed

text \<open>Least multiple of \<open>p\<close> that is at least \<open>w\<close>.\<close>

lemma round_up_bounds:
  fixes w p :: nat
  assumes "0 < w" and "0 < p"
  shows "w \<le> ((w - 1) div p + 1) * p" and "((w - 1) div p + 1) * p < w + p"
proof -
  have "p * ((w - 1) div p) + (w - 1) mod p = w - 1" by (rule mult_div_mod_eq)
  moreover have "(w - 1) mod p < p" using assms(2) by simp
  moreover have "((w - 1) div p + 1) * p = p * ((w - 1) div p) + p" by (simp add: algebra_simps)
  ultimately show "w \<le> ((w - 1) div p + 1) * p" and "((w - 1) div p + 1) * p < w + p"
    using assms(1) by linarith+
qed

section \<open>The contract of an owner\<close>

locale resource_owner =
  fixes acquire :: "'env \<Rightarrow> 'h option \<times> os_call list"
    and release :: "'env \<Rightarrow> 'h \<Rightarrow> os_call list"
    and sane :: "'env \<Rightarrow> bool"
    and foreign :: "'env \<Rightarrow> resource multiset"
    and left :: "'env \<Rightarrow> resource multiset"
    and stuck :: "'env \<Rightarrow> 'h \<Rightarrow> resource multiset"
  assumes failed: "sane e \<Longrightarrow> acquire e = (None, tr) \<Longrightarrow> held_after tr M = M - foreign e + left e"
    and released: "sane e \<Longrightarrow> acquire e = (Some h, tr) \<Longrightarrow>
      held_after (release e' h) (held_after tr M) = M - foreign e + stuck e' h"
begin

text \<open>A session acquires and, when that succeeded, releases; \<open>remains\<close> is what it leaves behind.\<close>

definition session :: "'env \<Rightarrow> 'env \<Rightarrow> os_call list" where
  "session e e' = (case acquire e of (None, tr) \<Rightarrow> tr | (Some h, tr) \<Rightarrow> tr @ release e' h)"

definition remains :: "'env \<Rightarrow> 'env \<Rightarrow> resource multiset" where
  "remains e e' = (case fst (acquire e) of None \<Rightarrow> left e | Some h \<Rightarrow> stuck e' h)"

lemma session_accounted: "sane e \<Longrightarrow> held_after (session e e') M = M - foreign e + remains e e'"
  using failed [of e] released [of e]
  by (auto simp: session_def remains_def split: prod.split option.split)

lemma sessions_accounted:
  "(\<And>e e'. (e, e') \<in> set es \<Longrightarrow> sane e \<and> foreign e = {#}) \<Longrightarrow>
     held_after (concat (map (\<lambda>(e, e'). session e e') es)) M = M + sum_list (map (\<lambda>(e, e'). remains e e') es)"
proof (induction es arbitrary: M)
  case (Cons x es)
  obtain e e' where x: "x = (e, e')" by (cases x)
  have "held_after (session e e') M = M + remains e e'"
    using Cons.prems [of e e'] x by (simp add: session_accounted)
  moreover have "held_after (concat (map (\<lambda>(e, e'). session e e') es)) (M + remains e e') =
      M + remains e e' + sum_list (map (\<lambda>(e, e'). remains e e') es)"
    by (rule Cons.IH) (use Cons.prems in auto)
  ultimately show ?case using x by (simp add: ac_simps)
qed simp

end

end
