(* ===== verification/Named_Memory.thy ===== *)
theory Named_Memory
  imports Os_Resources
begin

text \<open>
  Named shared memory, \<open>source/ps4/namedmemory.c\<close>.  The answers of the operating system are a
  record of the environment; each operation returns its result with the trace of its calls.
\<close>

record PS4NamedMemory =
  nm_self :: ptr
  nm_address :: ptr
  nm_size :: u64
  nm_path :: ptr
  nm_name :: "u8 list"

text \<open>The answers: page size, the two allocations, \<open>shm_open\<close>, the size \<open>fstat\<close> finds,
  \<open>ftruncate\<close>, \<open>mmap\<close>, and those of the releasing calls.\<close>

record nm_env =
  nme_page :: u64
  nme_malloc :: ptr
  nme_malloc_path :: ptr
  nme_shm_open :: u32
  nme_fstat :: "u64 option"
  nme_ftruncate :: u32
  nme_mmap :: ptr
  nme_munmap :: u32
  nme_unlink :: u32

definition nm_wanted_size :: "u64 \<Rightarrow> u64 \<Rightarrow> u64 \<Rightarrow> u64 option" where
  "nm_wanted_size page sz fileSize =
     (if sz = 0 \<and> fileSize > 0 then round_up page fileSize
      else if sz = 0 then Some page
      else round_up page sz)"

text \<open>The labels of the error exits, innermost last.\<close>

definition nm_freeandreturn :: "nm_env \<Rightarrow> os_call list" where
  "nm_freeandreturn e = [Free (nme_malloc e)]"

definition nm_freepath :: "nm_env \<Rightarrow> os_call list" where
  "nm_freepath e = Free (nme_malloc_path e) # nm_freeandreturn e"

definition nm_shmopen :: "nm_env \<Rightarrow> u8 list \<Rightarrow> os_call list" where
  "nm_shmopen e name = [Close (nme_shm_open e), ShmUnlink name (nme_unlink e)] @ nm_freepath e"

text \<open>The name kept for the later unlink is cut to 255 bytes; \<open>shm_open\<close> gets all of it.  A zero
  page size traps in the division.\<close>

definition ps4NamedMemoryOpen ::
  "nm_env \<Rightarrow> u8 list \<Rightarrow> u64 \<Rightarrow> (PS4NamedMemory option \<times> os_call list) option" where
  "ps4NamedMemoryOpen e path sz =
     (let name = take 255 path; h = nme_shm_open e;
          t1 = [Malloc (nme_malloc e)]; t2 = t1 @ [Malloc (nme_malloc_path e)];
          t3 = t2 @ [ShmOpen path h]; t4 = t3 @ [Fstat h (nme_fstat e)] in
      if nme_malloc e = NULL then Some (None, t1)
      else if nme_malloc_path e = NULL then Some (None, t2 @ nm_freeandreturn e)
      else if sint h < 0 then Some (None, t3 @ nm_freepath e)
      else
        (let fileSize = (case nme_fstat e of None \<Rightarrow> 0 | Some n \<Rightarrow> n) in do {
          n \<leftarrow> nm_wanted_size (nme_page e) sz fileSize;
          let grow = n > fileSize;
          let t5 = t4 @ (if grow then [Ftruncate h n (nme_ftruncate e)] else []);
          if grow \<and> sint (nme_ftruncate e) < 0 then Some (None, t5 @ nm_shmopen e name)
          else if nme_mmap e = MAP_FAILED then
            Some (None, t5 @ [Mmap MAP_FAILED n h] @ nm_shmopen e name)
          else Some (Some \<lparr>nm_self = nme_malloc e, nm_address = nme_mmap e, nm_size = n,
                nm_path = nme_malloc_path e, nm_name = name\<rparr>,
              t5 @ [Mmap (nme_mmap e) n h, Close h]) }))"

definition ps4NamedMemoryClose :: "nm_env \<Rightarrow> PS4NamedMemory option \<Rightarrow> u32 \<times> os_call list" where
  "ps4NamedMemoryClose e memory =
     (case memory of
        None \<Rightarrow> (- 1, [])
      | Some nm \<Rightarrow> (0 OR nme_munmap e,
          [Munmap (nm_address nm) (nm_size nm) (nme_munmap e), Free (nm_path nm), Free (nm_self nm)]))"

definition ps4NamedMemoryUnlink :: "nm_env \<Rightarrow> PS4NamedMemory option \<Rightarrow> u32 \<times> os_call list" where
  "ps4NamedMemoryUnlink e memory =
     (case memory of
        None \<Rightarrow> (- 1, [])
      | Some nm \<Rightarrow> (case ps4NamedMemoryClose e memory of (r, tr) \<Rightarrow>
          (nme_unlink e OR r, ShmUnlink (nm_name nm) (nme_unlink e) # tr)))"

definition ps4NamedMemoryAddress :: "PS4NamedMemory option \<Rightarrow> ptr" where
  "ps4NamedMemoryAddress memory = (case memory of None \<Rightarrow> NULL | Some nm \<Rightarrow> nm_address nm)"

definition ps4NamedMemorySize :: "PS4NamedMemory option \<Rightarrow> u64" where
  "ps4NamedMemorySize memory = (case memory of None \<Rightarrow> 0 | Some nm \<Rightarrow> nm_size nm)"

section \<open>Resources\<close>

text \<open>The opening call as an owner: environment, name and size together; a trap is a failed
  acquisition with no trace and excluded by a positive page size.\<close>

definition nm_acquire :: "nm_env \<times> u8 list \<times> u64 \<Rightarrow> PS4NamedMemory option \<times> os_call list" where
  "nm_acquire = (\<lambda>(e, path, sz). case ps4NamedMemoryOpen e path sz of None \<Rightarrow> (None, []) | Some r \<Rightarrow> r)"

definition nm_release :: "nm_env \<times> u8 list \<times> u64 \<Rightarrow> PS4NamedMemory \<Rightarrow> os_call list" where
  "nm_release = (\<lambda>(e, path, sz) nm. snd (ps4NamedMemoryClose e (Some nm)))"

definition nm_sane :: "nm_env \<times> u8 list \<times> u64 \<Rightarrow> bool" where
  "nm_sane = (\<lambda>(e, path, sz). nme_page e \<noteq> 0)"

lemma nm_wanted_size_total: "page \<noteq> 0 \<Longrightarrow> \<exists>n. nm_wanted_size page sz f = Some n"
  by (auto simp: nm_wanted_size_def round_up_def udiv_def)

lemmas nm_exit_defs = nm_freeandreturn_def nm_freepath_def nm_shmopen_def

text \<open>The mapping that a refused \<open>munmap\<close> leaves behind a closed memory.\<close>

definition nm_stuck :: "nm_env \<Rightarrow> PS4NamedMemory \<Rightarrow> resource multiset" where
  "nm_stuck e nm = (if nme_munmap e = 0 then {#} else {#Mapping (nm_address nm) (nm_size nm)#})"

lemma nm_acquired:
  assumes "nm_sane (e, path, sz)" and "nm_acquire (e, path, sz) = (r, tr)"
  shows "held_after tr M =
    (case r of None \<Rightarrow> M
     | Some nm \<Rightarrow> M + {#Block (nm_self nm), Block (nm_path nm), Mapping (nm_address nm) (nm_size nm)#})"
proof -
  obtain n where "nm_wanted_size (nme_page e) sz (case nme_fstat e of None \<Rightarrow> 0 | Some n \<Rightarrow> n) = Some n"
    using assms(1) nm_wanted_size_total [of "nme_page e" sz] by (fastforce simp: nm_sane_def)
  then show ?thesis
    using assms(2) by (auto simp: nm_acquire_def ps4NamedMemoryOpen_def Let_def nm_exit_defs split: if_splits)
qed

interpretation named_memory:
  resource_owner nm_acquire nm_release nm_sane "\<lambda>_. {#}" "\<lambda>_. {#}" "\<lambda>(e, _). nm_stuck e"
proof unfold_locales
  fix e tr M
  assume "nm_sane e" and "nm_acquire e = (None, tr)"
  then show "held_after tr M = M - {#} + {#}" using nm_acquired by (cases e) auto
next
  fix e h tr e' M
  assume "nm_sane e" and "nm_acquire e = (Some h, tr)"
  then have "held_after tr M = M + {#Block (nm_self h), Block (nm_path h), Mapping (nm_address h) (nm_size h)#}"
    using nm_acquired by (cases e) fastforce
  then show "held_after (nm_release e' h) (held_after tr M) = M - {#} + (case e' of (e, _) \<Rightarrow> nm_stuck e) h"
    by (auto simp: nm_release_def nm_stuck_def ps4NamedMemoryClose_def split: prod.split)
qed

text \<open>C35 Every resource of a named memory is accounted for.  A failed opening call has given back every
  heap block, handle and mapping it got, on each of its error exits.  A successful one followed by the
  closing call leaves exactly what was held before when the closing call returns 0; any other value means
  that \<open>munmap\<close> refused, and then the mapping of the memory stays, and nothing else, while the record and
  the path that knew its address are freed all the same.\<close>

theorem ps4NamedMemory_balanced:
  assumes "nme_page e \<noteq> 0"
  shows "\<exists>r tr. ps4NamedMemoryOpen e path sz = Some (r, tr) \<and>
    (case r of None \<Rightarrow> held_after tr M = M
     | Some nm \<Rightarrow> (case ps4NamedMemoryClose e' (Some nm) of (status, tr') \<Rightarrow>
         status = nme_munmap e' \<and>
         held_after (tr @ tr') M =
           (if status = 0 then M else M + {#Mapping (nm_address nm) (nm_size nm)#})))"
proof -
  have sane: "nm_sane (e, path, sz)" using assms by (simp add: nm_sane_def)
  obtain n where "nm_wanted_size (nme_page e) sz (case nme_fstat e of None \<Rightarrow> 0 | Some n \<Rightarrow> n) = Some n"
    using assms nm_wanted_size_total by blast
  then obtain r tr where opn: "ps4NamedMemoryOpen e path sz = Some (r, tr)"
    by (cases "ps4NamedMemoryOpen e path sz") (auto simp: ps4NamedMemoryOpen_def Let_def split: if_splits)
  then have a: "nm_acquire (e, path, sz) = (r, tr)" by (simp add: nm_acquire_def)
  show ?thesis
  proof (cases r)
    case None
    then show ?thesis using opn named_memory.failed [OF sane] a by simp
  next
    case (Some nm)
    have "nm_release (e', path, sz) nm = snd (ps4NamedMemoryClose e' (Some nm))"
      by (simp add: nm_release_def)
    then show ?thesis
      using opn Some named_memory.released [OF sane a [unfolded Some], of "(e', path, sz)" M]
      by (auto simp: nm_stuck_def ps4NamedMemoryClose_def)
  qed
qed

text \<open>A named memory of a requested size covers it: its size is the least multiple of the page size
  that is at least the request; without a request it is that of the existing object, or one page.\<close>

lemma ps4NamedMemoryOpen_size:
  assumes "ps4NamedMemoryOpen e path sz = Some (Some nm, tr)" and "nme_page e \<noteq> 0"
    and "want = (if sz \<noteq> 0 then sz else case nme_fstat e of Some n \<Rightarrow> n | None \<Rightarrow> 0)"
    and "unat want + unat (nme_page e) < address_space"
  shows "unat (nme_page e) dvd unat (nm_size nm) \<and> unat want \<le> unat (nm_size nm) \<and>
    unat (nm_size nm) < unat want + unat (nme_page e) + (if want = 0 then 1 else 0) \<and>
    ps4NamedMemoryAddress (Some nm) \<noteq> MAP_FAILED"
proof -
  let ?p = "unat (nme_page e)"
  have p: "0 < ?p" using assms(2) by (simp add: unat_gt_0)
  have n: "nm_wanted_size (nme_page e) sz (case nme_fstat e of None \<Rightarrow> 0 | Some n \<Rightarrow> n) = Some (nm_size nm)"
    and adr: "nm_address nm \<noteq> MAP_FAILED"
    using assms(1) by (auto simp: ps4NamedMemoryOpen_def Let_def Some_bind_conv split: if_splits)
  show ?thesis
  proof (cases "want = 0")
    case True
    then have "nm_size nm = nme_page e"
      using n assms(3) by (auto simp: nm_wanted_size_def split: if_splits option.splits)
    then show ?thesis using True adr by (simp add: ps4NamedMemoryAddress_def)
  next
    case False
    then have "round_up (nme_page e) want = Some (nm_size nm)"
      using n assms(3) by (auto simp: nm_wanted_size_def word_neq_0_conv split: if_splits option.splits)
    with round_up_nat [OF assms(2) False assms(4)]
    have z: "unat (nm_size nm) = ((unat want - 1) div ?p + 1) * ?p" by auto
    have w: "0 < unat want" using False by (simp add: unat_gt_0)
    have "unat want \<le> unat (nm_size nm)" "unat (nm_size nm) < unat want + ?p"
      unfolding z using round_up_bounds [OF w p] by simp_all
    with False adr z show ?thesis by (simp add: ps4NamedMemoryAddress_def)
  qed
qed

definition sample_nm_env :: nm_env where
  "sample_nm_env = \<lparr>nme_page = 16384, nme_malloc = 0x100, nme_malloc_path = 0x200, nme_shm_open = 3,
     nme_fstat = Some 0, nme_ftruncate = 0, nme_mmap = 0x10000, nme_munmap = 0, nme_unlink = 0\<rparr>"

lemma sample_nm_open:
  "\<exists>nm tr. ps4NamedMemoryOpen sample_nm_env [0x2f] 20000 = Some (Some nm, tr) \<and>
     nm_address nm = 0x10000 \<and> nm_size nm = 32768"
  by (simp add: ps4NamedMemoryOpen_def sample_nm_env_def nm_wanted_size_def round_up_def udiv_def Let_def)

lemma sample_nm_full:
  "\<exists>tr. ps4NamedMemoryOpen (sample_nm_env\<lparr>nme_mmap := MAP_FAILED\<rparr>) [0x2f] 20000 = Some (None, tr)"
  by (simp add: ps4NamedMemoryOpen_def sample_nm_env_def nm_wanted_size_def round_up_def udiv_def Let_def)

text \<open>One memory closed twice over: by a system that unmaps it, and by one that refuses.  A third
  opening call fails at \<open>mmap\<close>.\<close>

theorem ps4NamedMemory_balanced_witness:
  "(\<exists>nm tr. ps4NamedMemoryOpen sample_nm_env [0x2f] 20000 = Some (Some nm, tr) \<and>
      held_after (tr @ snd (ps4NamedMemoryClose sample_nm_env (Some nm))) {#} = {#} \<and>
      held_after (tr @ snd (ps4NamedMemoryClose (sample_nm_env\<lparr>nme_munmap := - 1\<rparr>) (Some nm))) {#} =
        {#Mapping 0x10000 32768#}) \<and>
   (\<exists>tr. ps4NamedMemoryOpen (sample_nm_env\<lparr>nme_mmap := MAP_FAILED\<rparr>) [0x2f] 20000 = Some (None, tr) \<and>
      held_after tr {#Handle 3#} = {#Handle 3#})"
proof (intro conjI)
  let ?full = "sample_nm_env\<lparr>nme_mmap := MAP_FAILED\<rparr>"
  show "\<exists>tr. ps4NamedMemoryOpen ?full [0x2f] 20000 = Some (None, tr) \<and> held_after tr {#Handle 3#} = {#Handle 3#}"
    using ps4NamedMemory_balanced [of ?full "[0x2f]" 20000 "{#Handle 3#}" ?full] sample_nm_full
    by (auto simp: sample_nm_env_def)
  obtain nm tr where opn: "ps4NamedMemoryOpen sample_nm_env [0x2f] 20000 = Some (Some nm, tr)"
    and at: "nm_address nm = 0x10000" "nm_size nm = 32768"
    using sample_nm_open by blast
  have "held_after (tr @ snd (ps4NamedMemoryClose e' (Some nm))) {#} =
      (if nme_munmap e' = 0 then {#} else {#Mapping 0x10000 32768#})" for e'
    using ps4NamedMemory_balanced [of sample_nm_env "[0x2f]" 20000 "{#}" e'] opn at
    by (auto simp: sample_nm_env_def split: if_splits prod.splits)
  then show "\<exists>nm tr. ps4NamedMemoryOpen sample_nm_env [0x2f] 20000 = Some (Some nm, tr) \<and>
      held_after (tr @ snd (ps4NamedMemoryClose sample_nm_env (Some nm))) {#} = {#} \<and>
      held_after (tr @ snd (ps4NamedMemoryClose (sample_nm_env\<lparr>nme_munmap := - 1\<rparr>) (Some nm))) {#} =
        {#Mapping 0x10000 32768#}"
    using opn by (auto simp: sample_nm_env_def)
qed

lemma ps4NamedMemoryOpen_size_witness:
  "\<exists>nm tr. ps4NamedMemoryOpen sample_nm_env [0x2f] 20000 = Some (Some nm, tr) \<and>
     16384 dvd unat (nm_size nm) \<and> 20000 \<le> unat (nm_size nm)"
proof -
  obtain nm tr where opn: "ps4NamedMemoryOpen sample_nm_env [0x2f] 20000 = Some (Some nm, tr)"
    using sample_nm_open by blast
  from ps4NamedMemoryOpen_size [OF opn _ refl] opn show ?thesis by (auto simp: sample_nm_env_def)
qed

end
