(* ===== verification/Protected_Memory.thy ===== *)
theory Protected_Memory
  imports Os_Resources
begin

text \<open>
  Memory with a writable and an executable view, \<open>source/ps4/protectedmemory.c\<close>, in the same style as
  the named memory: answers of the system in a record, operations with the trace of their calls.
\<close>

record PS4ProtectedMemory =
  pm_self :: ptr
  pm_writable :: ptr
  pm_executable :: ptr
  pm_size :: u64

text \<open>A call of the just-in-time interface answers with its success and with the value it leaves in the
  handle variable; the code looks only at the variable, which it does not initialise.\<close>

record pm_env =
  pme_page :: u64
  pme_malloc :: ptr
  pme_jit_create :: "bool \<times> u32"
  pme_jit_alias :: "bool \<times> u32"
  pme_mmap_executable :: ptr
  pme_mmap_writable :: ptr
  pme_munmap_executable :: u32
  pme_munmap_writable :: u32

definition pm_freeandreturn :: "pm_env \<Rightarrow> os_call list" where
  "pm_freeandreturn e = [Free (pme_malloc e)]"

definition pm_closee :: "pm_env \<Rightarrow> os_call list" where
  "pm_closee e = Close (snd (pme_jit_create e)) # pm_freeandreturn e"

definition pm_closew :: "pm_env \<Rightarrow> os_call list" where
  "pm_closew e = Close (snd (pme_jit_alias e)) # pm_closee e"

definition pm_munmape :: "pm_env \<Rightarrow> u64 \<Rightarrow> os_call list" where
  "pm_munmape e n = Munmap (pme_mmap_executable e) n (pme_munmap_executable e) # pm_closew e"

definition ps4ProtectedMemoryCreate ::
  "pm_env \<Rightarrow> u64 \<Rightarrow> (PS4ProtectedMemory option \<times> os_call list) option" where
  "ps4ProtectedMemoryCreate e sz =
     (if sz = 0 then Some (None, [])
      else if pme_malloc e = NULL then Some (None, [Malloc NULL])
      else do {
        n \<leftarrow> round_past (pme_page e) sz;
        let (okx, hx) = pme_jit_create e;
        let (okw, hw) = pme_jit_alias e;
        let t1 = [Malloc (pme_malloc e), JitCreate n okx hx];
        let t2 = t1 @ [JitAlias hx okw hw];
        let t3 = t2 @ [Mmap (pme_mmap_executable e) n hx];
        let t4 = t3 @ [Mmap (pme_mmap_writable e) n hw];
        if hx = 0 then Some (None, t1 @ pm_freeandreturn e)
        else if hw = 0 then Some (None, t2 @ pm_closee e)
        else if pme_mmap_executable e = MAP_FAILED then Some (None, t3 @ pm_closew e)
        else if pme_mmap_writable e = MAP_FAILED then Some (None, t4 @ pm_munmape e n)
        else Some (Some \<lparr>pm_self = pme_malloc e, pm_writable = pme_mmap_writable e,
               pm_executable = pme_mmap_executable e, pm_size = n\<rparr>,
             t4 @ [Close hx, Close hw]) })"

definition ps4ProtectedMemoryDestroy :: "pm_env \<Rightarrow> PS4ProtectedMemory option \<Rightarrow> u32 \<times> os_call list" where
  "ps4ProtectedMemoryDestroy e memory =
     (case memory of
        None \<Rightarrow> (- 1, [])
      | Some pm \<Rightarrow> (pme_munmap_writable e OR pme_munmap_executable e,
          [Munmap (pm_writable pm) (pm_size pm) (pme_munmap_writable e),
           Munmap (pm_executable pm) (pm_size pm) (pme_munmap_executable e), Free (pm_self pm)]))"

definition ps4ProtectedMemoryWritableAddress :: "PS4ProtectedMemory option \<Rightarrow> ptr" where
  "ps4ProtectedMemoryWritableAddress memory = (case memory of None \<Rightarrow> NULL | Some pm \<Rightarrow> pm_writable pm)"

definition ps4ProtectedMemoryExecutableAddress :: "PS4ProtectedMemory option \<Rightarrow> ptr" where
  "ps4ProtectedMemoryExecutableAddress memory = (case memory of None \<Rightarrow> NULL | Some pm \<Rightarrow> pm_executable pm)"

definition ps4ProtectedMemorySize :: "PS4ProtectedMemory option \<Rightarrow> u64" where
  "ps4ProtectedMemorySize memory = (case memory of None \<Rightarrow> 0 | Some pm \<Rightarrow> pm_size pm)"

section \<open>Resources\<close>

definition pm_acquire :: "pm_env \<times> u64 \<Rightarrow> PS4ProtectedMemory option \<times> os_call list" where
  "pm_acquire = (\<lambda>(e, sz). case ps4ProtectedMemoryCreate e sz of None \<Rightarrow> (None, []) | Some r \<Rightarrow> r)"

definition pm_release :: "pm_env \<times> u64 \<Rightarrow> PS4ProtectedMemory \<Rightarrow> os_call list" where
  "pm_release = (\<lambda>(e, sz) pm. snd (ps4ProtectedMemoryDestroy e (Some pm)))"

text \<open>The division needs a positive page size; nothing is asked of the just-in-time calls.\<close>

definition pm_sane :: "pm_env \<times> u64 \<Rightarrow> bool" where
  "pm_sane = (\<lambda>(e, sz). pme_page e \<noteq> 0)"

text \<open>Where the calls are reached: the creation for a request and a record, the alias once the first
  handle variable is not 0.\<close>

definition jit_create_reached :: "pm_env \<Rightarrow> u64 \<Rightarrow> bool" where
  "jit_create_reached e sz \<longleftrightarrow> sz \<noteq> 0 \<and> pme_malloc e \<noteq> NULL"

definition jit_alias_reached :: "pm_env \<Rightarrow> u64 \<Rightarrow> bool" where
  "jit_alias_reached e sz \<longleftrightarrow> jit_create_reached e sz \<and> snd (pme_jit_create e) \<noteq> 0"

text \<open>A just-in-time call that fails and leaves another number than 0 in its variable makes the code
  close that number: whatever handle of the process has it is lost.  One that succeeds with the handle
  0 is taken for a failure and its handle stays open.\<close>

definition stray :: "bool \<Rightarrow> bool \<times> u32 \<Rightarrow> resource multiset" where
  "stray reached r = (if reached \<and> \<not> fst r \<and> snd r \<noteq> 0 then {#Handle (snd r)#} else {#})"

definition unseen :: "bool \<Rightarrow> bool \<times> u32 \<Rightarrow> resource multiset" where
  "unseen reached r = (if reached \<and> fst r \<and> snd r = 0 then {#Handle 0#} else {#})"

definition pm_foreign :: "pm_env \<Rightarrow> u64 \<Rightarrow> resource multiset" where
  "pm_foreign e sz =
     stray (jit_create_reached e sz) (pme_jit_create e) + stray (jit_alias_reached e sz) (pme_jit_alias e)"

text \<open>The unmapping of the error exit is reached when only the second mapping fails.\<close>

definition pm_left :: "pm_env \<Rightarrow> u64 \<Rightarrow> resource multiset" where
  "pm_left e sz =
     unseen (jit_create_reached e sz) (pme_jit_create e) + unseen (jit_alias_reached e sz) (pme_jit_alias e) +
     (if jit_alias_reached e sz \<and> snd (pme_jit_alias e) \<noteq> 0 \<and> pme_mmap_executable e \<noteq> MAP_FAILED \<and>
         pme_mmap_writable e = MAP_FAILED \<and> pme_munmap_executable e \<noteq> 0
      then {#Mapping (pme_mmap_executable e) (the (round_past (pme_page e) sz))#} else {#})"

definition pm_stuck :: "pm_env \<Rightarrow> PS4ProtectedMemory \<Rightarrow> resource multiset" where
  "pm_stuck e pm =
     (if pme_munmap_writable e = 0 then {#} else {#Mapping (pm_writable pm) (pm_size pm)#}) +
     (if pme_munmap_executable e = 0 then {#} else {#Mapping (pm_executable pm) (pm_size pm)#})"

lemmas pm_exit_defs = pm_freeandreturn_def pm_closee_def pm_closew_def pm_munmape_def
lemmas pm_account_defs = pm_foreign_def pm_left_def stray_def unseen_def jit_create_reached_def jit_alias_reached_def

lemma ps4ProtectedMemoryCreate_total:
  "pme_page e \<noteq> 0 \<Longrightarrow> \<exists>r tr. ps4ProtectedMemoryCreate e sz = Some (r, tr)"
  by (auto simp: ps4ProtectedMemoryCreate_def round_past_def udiv_def Let_def split: prod.split)

lemma pm_acquire_failed:
  assumes "pm_sane (e, sz)" and "pm_acquire (e, sz) = (None, tr)"
  shows "held_after tr M = M - pm_foreign e sz + pm_left e sz"
proof -
  obtain okx hx okw hw where h: "pme_jit_create e = (okx, hx)" "pme_jit_alias e = (okw, hw)"
    by (cases "pme_jit_create e"; cases "pme_jit_alias e")
  obtain n where n: "round_past (pme_page e) sz = Some n"
    using assms(1) by (auto simp: pm_sane_def round_past_def udiv_def)
  show ?thesis
    using assms(2) n h by (auto simp: pm_acquire_def ps4ProtectedMemoryCreate_def Let_def pm_exit_defs
        pm_account_defs add_mset_commute split: if_splits)
qed

lemma pm_acquire_created:
  assumes "pm_sane (e, sz)" and "pm_acquire (e, sz) = (Some pm, tr)"
  shows "held_after tr M = M - pm_foreign e sz +
    {#Block (pm_self pm), Mapping (pm_executable pm) (pm_size pm), Mapping (pm_writable pm) (pm_size pm)#}"
proof -
  obtain okx hx okw hw where h: "pme_jit_create e = (okx, hx)" "pme_jit_alias e = (okw, hw)"
    by (cases "pme_jit_create e"; cases "pme_jit_alias e")
  obtain n where n: "round_past (pme_page e) sz = Some n"
    using assms(1) by (auto simp: pm_sane_def round_past_def udiv_def)
  show ?thesis
    using assms(2) n h by (auto simp: pm_acquire_def ps4ProtectedMemoryCreate_def Let_def pm_exit_defs
        pm_account_defs add_mset_commute split: if_splits)
qed

interpretation protected_memory:
  resource_owner pm_acquire pm_release pm_sane "\<lambda>(e, sz). pm_foreign e sz" "\<lambda>(e, sz). pm_left e sz"
    "\<lambda>(e, _). pm_stuck e"
proof unfold_locales
  fix e tr M
  assume "pm_sane e" and "pm_acquire e = (None, tr)"
  then show "held_after tr M = M - (case e of (e, sz) \<Rightarrow> pm_foreign e sz) + (case e of (e, sz) \<Rightarrow> pm_left e sz)"
    using pm_acquire_failed by (cases e) simp
next
  fix e h tr e' M
  assume "pm_sane e" and "pm_acquire e = (Some h, tr)"
  then show "held_after (pm_release e' h) (held_after tr M) =
      M - (case e of (e, sz) \<Rightarrow> pm_foreign e sz) + (case e' of (e, _) \<Rightarrow> pm_stuck e) h"
    using pm_acquire_created [of "fst e" "snd e" h tr M]
    by (auto simp: pm_release_def pm_stuck_def ps4ProtectedMemoryDestroy_def add_mset_commute split: prod.splits)
qed

text \<open>C36 Every resource of a protected memory is accounted for, whatever the just-in-time calls leave in
  the handle variables and whatever \<open>munmap\<close> answers.  The creating call gives back all it got, on every
  error exit, up to two exceptions: the handle 0 it was given and took for a failure, and the executable
  view when its unmapping is refused.  A created memory that is destroyed leaves behind exactly the views
  whose unmapping was refused, none when the destroying call returns 0.  The handles of the process stay
  as they were but for the numbers that a failed just-in-time call left in a variable, which the code
  closes.\<close>

theorem ps4ProtectedMemory_balanced:
  assumes "pme_page e \<noteq> 0"
  shows "\<exists>r tr. ps4ProtectedMemoryCreate e sz = Some (r, tr) \<and>
    (case r of None \<Rightarrow> held_after tr M = M - pm_foreign e sz + pm_left e sz
     | Some pm \<Rightarrow> (case ps4ProtectedMemoryDestroy e' (Some pm) of (status, tr') \<Rightarrow>
         held_after (tr @ tr') M = M - pm_foreign e sz + pm_stuck e' pm \<and>
         (status = 0 \<longleftrightarrow> pm_stuck e' pm = {#})))"
proof -
  have sane: "pm_sane (e, sz)" using assms by (simp add: pm_sane_def)
  obtain r tr where opn: "ps4ProtectedMemoryCreate e sz = Some (r, tr)"
    using ps4ProtectedMemoryCreate_total [OF assms(1)] by blast
  then have a: "pm_acquire (e, sz) = (r, tr)" by (simp add: pm_acquire_def)
  show ?thesis
  proof (cases r)
    case None
    then show ?thesis using opn protected_memory.failed [OF sane] a by simp
  next
    case (Some pm)
    have "pm_release (e', sz) pm = snd (ps4ProtectedMemoryDestroy e' (Some pm))"
      by (simp add: pm_release_def)
    moreover have "fst (ps4ProtectedMemoryDestroy e' (Some pm)) = 0 \<longleftrightarrow> pm_stuck e' pm = {#}"
      by (simp add: ps4ProtectedMemoryDestroy_def pm_stuck_def or_eq_0_iff)
    ultimately show ?thesis
      using opn Some protected_memory.released [OF sane a [unfolded Some], of "(e', sz)" M]
      by (simp add: split_beta)
  qed
qed

text \<open>C40 A created memory is page aligned in size and strictly larger than the request: a request of
  whole pages gets one page more than it needs.\<close>

theorem ps4ProtectedMemoryCreate_size:
  assumes "ps4ProtectedMemoryCreate e sz = Some (Some pm, tr)" and "pme_page e \<noteq> 0"
    and "unat sz + unat (pme_page e) < address_space"
  shows "unat (pme_page e) dvd unat (pm_size pm) \<and> unat sz < unat (pm_size pm) \<and>
    unat (pm_size pm) \<le> unat sz + unat (pme_page e) \<and>
    (unat (pme_page e) dvd unat sz \<longrightarrow> unat (pm_size pm) = unat sz + unat (pme_page e))"
proof -
  let ?p = "unat (pme_page e)" and ?s = "unat sz"
  have p: "0 < ?p" using assms(2) by (simp add: unat_gt_0)
  have "round_past (pme_page e) sz = Some (pm_size pm)"
    using assms(1) by (cases "pme_jit_create e"; cases "pme_jit_alias e")
      (auto simp: ps4ProtectedMemoryCreate_def Some_bind_conv Let_def split: if_splits)
  with round_past_nat [OF assms(2,3)] have z: "unat (pm_size pm) = (?s div ?p + 1) * ?p" by auto
  have "?p * (?s div ?p) + ?s mod ?p = ?s" by (rule mult_div_mod_eq)
  moreover have "?s mod ?p < ?p" using p by simp
  moreover have zz: "(?s div ?p + 1) * ?p = ?p * (?s div ?p) + ?p" by (simp add: algebra_simps)
  ultimately have "?s < unat (pm_size pm)" "unat (pm_size pm) \<le> ?s + ?p" unfolding z by linarith+
  then show ?thesis using z zz by auto
qed

definition sample_pm_env :: pm_env where
  "sample_pm_env = \<lparr>pme_page = 16384, pme_malloc = 0x100, pme_jit_create = (True, 5), pme_jit_alias = (True, 6),
     pme_mmap_executable = 0x10000, pme_mmap_writable = 0x20000, pme_munmap_executable = 0,
     pme_munmap_writable = 0\<rparr>"

lemma sample_pm_create:
  "\<exists>pm tr. ps4ProtectedMemoryCreate sample_pm_env 16384 = Some (Some pm, tr) \<and>
     pm_writable pm = 0x20000 \<and> pm_executable pm = 0x10000 \<and> pm_size pm = 32768"
  by (simp add: ps4ProtectedMemoryCreate_def sample_pm_env_def round_past_def udiv_def Let_def)

text \<open>A created memory destroyed by a system that unmaps both views, and by one that refuses the
  executable one; a creation whose second mapping and the unmapping after it fail; and one whose first call
  fails and leaves the number 3 of an open file in the variable.\<close>

definition refusing_pm_env :: pm_env where
  "refusing_pm_env = sample_pm_env\<lparr>pme_munmap_executable := - 1, pme_mmap_writable := MAP_FAILED\<rparr>"

definition garbage_pm_env :: pm_env where
  "garbage_pm_env = sample_pm_env\<lparr>pme_jit_create := (False, 3), pme_jit_alias := (False, 0)\<rparr>"

lemma sample_pm_fails:
  "\<exists>tr. ps4ProtectedMemoryCreate refusing_pm_env 16384 = Some (None, tr)"
  "\<exists>tr. ps4ProtectedMemoryCreate garbage_pm_env 16384 = Some (None, tr)"
  by (simp_all add: ps4ProtectedMemoryCreate_def refusing_pm_env_def garbage_pm_env_def sample_pm_env_def
      round_past_def udiv_def Let_def)

lemmas sample_pm_defs = refusing_pm_env_def garbage_pm_env_def sample_pm_env_def

theorem ps4ProtectedMemory_balanced_witness:
  "(\<exists>pm tr. ps4ProtectedMemoryCreate sample_pm_env 16384 = Some (Some pm, tr) \<and>
      held_after (tr @ snd (ps4ProtectedMemoryDestroy sample_pm_env (Some pm))) {#Handle 3#} = {#Handle 3#} \<and>
      held_after (tr @ snd (ps4ProtectedMemoryDestroy refusing_pm_env (Some pm))) {#Handle 3#} =
        {#Handle 3, Mapping 0x10000 32768#}) \<and>
   (\<exists>tr. ps4ProtectedMemoryCreate refusing_pm_env 16384 = Some (None, tr) \<and>
      held_after tr {#Handle 3#} = {#Handle 3, Mapping 0x10000 32768#}) \<and>
   (\<exists>tr. ps4ProtectedMemoryCreate garbage_pm_env 16384 = Some (None, tr) \<and> held_after tr {#Handle 3#} = {#})"
proof (intro conjI)
  obtain pm tr where opn: "ps4ProtectedMemoryCreate sample_pm_env 16384 = Some (Some pm, tr)"
    and at: "pm_executable pm = 0x10000" "pm_size pm = 32768"
    using sample_pm_create by blast
  have "held_after (tr @ snd (ps4ProtectedMemoryDestroy e' (Some pm))) {#Handle 3#} =
      {#Handle 3#} + pm_stuck e' pm" for e'
    using ps4ProtectedMemory_balanced [of sample_pm_env 16384 "{#Handle 3#}" e'] opn
    by (simp add: sample_pm_env_def pm_account_defs split_beta)
  then show "\<exists>pm tr. ps4ProtectedMemoryCreate sample_pm_env 16384 = Some (Some pm, tr) \<and>
      held_after (tr @ snd (ps4ProtectedMemoryDestroy sample_pm_env (Some pm))) {#Handle 3#} = {#Handle 3#} \<and>
      held_after (tr @ snd (ps4ProtectedMemoryDestroy refusing_pm_env (Some pm))) {#Handle 3#} =
        {#Handle 3, Mapping 0x10000 32768#}"
    using opn at by (auto simp: pm_stuck_def sample_pm_defs)
next
  show "\<exists>tr. ps4ProtectedMemoryCreate refusing_pm_env 16384 = Some (None, tr) \<and>
      held_after tr {#Handle 3#} = {#Handle 3, Mapping 0x10000 32768#}"
    using ps4ProtectedMemory_balanced [of refusing_pm_env 16384 "{#Handle 3#}" refusing_pm_env] sample_pm_fails(1)
    by (auto simp: sample_pm_defs pm_account_defs round_past_def udiv_def)
next
  show "\<exists>tr. ps4ProtectedMemoryCreate garbage_pm_env 16384 = Some (None, tr) \<and> held_after tr {#Handle 3#} = {#}"
    using ps4ProtectedMemory_balanced [of garbage_pm_env 16384 "{#Handle 3#}" garbage_pm_env] sample_pm_fails(2)
    by (auto simp: sample_pm_defs pm_account_defs)
qed

theorem ps4ProtectedMemoryCreate_size_witness:
  "\<exists>pm tr. ps4ProtectedMemoryCreate sample_pm_env 16384 = Some (Some pm, tr) \<and> unat (pm_size pm) = 32768"
proof -
  obtain pm tr where opn: "ps4ProtectedMemoryCreate sample_pm_env 16384 = Some (Some pm, tr)"
    using sample_pm_create by blast
  from ps4ProtectedMemoryCreate_size [OF opn] opn show ?thesis by (auto simp: sample_pm_env_def)
qed

end
