(* ===== verification/Sys_Queue.thy ===== *)
theory Sys_Queue
  imports Ps4_Prelude
begin

text \<open>
  The four intrusive queues of \<open>include/sys/queue.h\<close>.  Elements and heads are pointers; the link
  fields of the elements and the fields of the heads are the functions of a \<open>qheap\<close>.  Where the
  macros store the address of a pointer (\<open>le_prev\<close>, \<open>tqe_prev\<close>, \<open>stqh_last\<close>, \<open>tqh_last\<close>), the heap
  holds a \<open>cell\<close>: the \<open>first\<close> field of a head or the \<open>next\<close> field of an element.  An access through
  \<open>NULL\<close> faults (\<open>None\<close>).  The debugging variants (\<open>QUEUE_MACRO_DEBUG\<close>, \<open>INVARIANTS\<close>) are off,
  as in the library's builds; \<open>Sys_Queue_Loops\<close> has the checks.

  A queue represents a list of elements; every macro refines the list operation of its name and
  leaves queues on other heads and elements alone.
\<close>

section \<open>The heap of links\<close>

datatype cell = FirstOf ptr | NextOf ptr

record qheap =
  q_first :: "ptr \<Rightarrow> ptr"
  q_last :: "ptr \<Rightarrow> cell"
  q_next :: "ptr \<Rightarrow> ptr"
  q_prev :: "ptr \<Rightarrow> cell"

definition rd_first :: "qheap \<Rightarrow> ptr \<Rightarrow> ptr option" where
  "rd_first H h = (if h = NULL then None else Some (q_first H h))"

definition rd_last :: "qheap \<Rightarrow> ptr \<Rightarrow> cell option" where
  "rd_last H h = (if h = NULL then None else Some (q_last H h))"

definition rd_next :: "qheap \<Rightarrow> ptr \<Rightarrow> ptr option" where
  "rd_next H e = (if e = NULL then None else Some (q_next H e))"

definition rd_prev :: "qheap \<Rightarrow> ptr \<Rightarrow> cell option" where
  "rd_prev H e = (if e = NULL then None else Some (q_prev H e))"

definition wr_first :: "ptr \<Rightarrow> ptr \<Rightarrow> qheap \<Rightarrow> qheap option" where
  "wr_first h v H = (if h = NULL then None else Some (H\<lparr>q_first := (q_first H)(h := v)\<rparr>))"

definition wr_last :: "ptr \<Rightarrow> cell \<Rightarrow> qheap \<Rightarrow> qheap option" where
  "wr_last h c H = (if h = NULL then None else Some (H\<lparr>q_last := (q_last H)(h := c)\<rparr>))"

definition wr_next :: "ptr \<Rightarrow> ptr \<Rightarrow> qheap \<Rightarrow> qheap option" where
  "wr_next e v H = (if e = NULL then None else Some (H\<lparr>q_next := (q_next H)(e := v)\<rparr>))"

definition wr_prev :: "ptr \<Rightarrow> cell \<Rightarrow> qheap \<Rightarrow> qheap option" where
  "wr_prev e c H = (if e = NULL then None else Some (H\<lparr>q_prev := (q_prev H)(e := c)\<rparr>))"

text \<open>Access through the address of a pointer, and the second field behind it: a head and an entry of
  the tail queue have the same layout.\<close>

fun rd_cell :: "qheap \<Rightarrow> cell \<Rightarrow> ptr option" where
  "rd_cell H (FirstOf h) = rd_first H h"
| "rd_cell H (NextOf e) = rd_next H e"

fun wr_cell :: "cell \<Rightarrow> ptr \<Rightarrow> qheap \<Rightarrow> qheap option" where
  "wr_cell (FirstOf h) v H = wr_first h v H"
| "wr_cell (NextOf e) v H = wr_next e v H"

fun rd_second :: "qheap \<Rightarrow> cell \<Rightarrow> cell option" where
  "rd_second H (FirstOf h) = rd_last H h"
| "rd_second H (NextOf e) = rd_prev H e"

lemmas link_defs = rd_first_def rd_last_def rd_next_def rd_prev_def
  wr_first_def wr_last_def wr_next_def wr_prev_def

text \<open>The traversal of the \<open>FOREACH\<close> macros, as the elements it visits.\<close>

partial_function (option) foreach_from :: "qheap \<Rightarrow> ptr \<Rightarrow> ptr list option" where
  "foreach_from H v =
     (if v = NULL then Some [] else do {
        n \<leftarrow> rd_next H v;
        vs \<leftarrow> foreach_from H n;
        Some (v # vs) })"

text \<open>The search of the \<open>REMOVE\<close> macros for the element in front of \<open>elm\<close>.\<close>

partial_function (option) find_before :: "qheap \<Rightarrow> ptr \<Rightarrow> ptr \<Rightarrow> ptr option" where
  "find_before H elm curelm = do {
     n \<leftarrow> rd_next H curelm;
     if n \<noteq> elm then find_before H elm n else Some curelm }"

section \<open>Singly-linked lists\<close>

definition SLIST_EMPTY :: "qheap \<Rightarrow> ptr \<Rightarrow> bool option" where
  "SLIST_EMPTY H head = map_option (\<lambda>f. f = NULL) (rd_first H head)"

definition SLIST_FIRST :: "qheap \<Rightarrow> ptr \<Rightarrow> ptr option" where
  "SLIST_FIRST H head = rd_first H head"

definition SLIST_NEXT :: "qheap \<Rightarrow> ptr \<Rightarrow> ptr option" where
  "SLIST_NEXT H elm = rd_next H elm"

definition SLIST_FOREACH :: "qheap \<Rightarrow> ptr \<Rightarrow> ptr list option" where
  "SLIST_FOREACH H head = do { v \<leftarrow> SLIST_FIRST H head; foreach_from H v }"

definition SLIST_INIT :: "ptr \<Rightarrow> qheap \<Rightarrow> qheap option" where
  "SLIST_INIT head H = wr_first head NULL H"

definition SLIST_INSERT_AFTER :: "ptr \<Rightarrow> ptr \<Rightarrow> qheap \<Rightarrow> qheap option" where
  "SLIST_INSERT_AFTER slistelm elm H = do {
     n \<leftarrow> SLIST_NEXT H slistelm;
     H \<leftarrow> wr_next elm n H;
     wr_next slistelm elm H }"

definition SLIST_INSERT_HEAD :: "ptr \<Rightarrow> ptr \<Rightarrow> qheap \<Rightarrow> qheap option" where
  "SLIST_INSERT_HEAD head elm H = do {
     f \<leftarrow> SLIST_FIRST H head;
     H \<leftarrow> wr_next elm f H;
     wr_first head elm H }"

definition SLIST_REMOVE_AFTER :: "ptr \<Rightarrow> qheap \<Rightarrow> qheap option" where
  "SLIST_REMOVE_AFTER elm H = do {
     n \<leftarrow> SLIST_NEXT H elm;
     n2 \<leftarrow> SLIST_NEXT H n;
     wr_next elm n2 H }"

definition SLIST_REMOVE_HEAD :: "ptr \<Rightarrow> qheap \<Rightarrow> qheap option" where
  "SLIST_REMOVE_HEAD head H = do {
     f \<leftarrow> SLIST_FIRST H head;
     n \<leftarrow> SLIST_NEXT H f;
     wr_first head n H }"

definition SLIST_REMOVE :: "ptr \<Rightarrow> ptr \<Rightarrow> qheap \<Rightarrow> qheap option" where
  "SLIST_REMOVE head elm H = do {
     f \<leftarrow> SLIST_FIRST H head;
     if f = elm then SLIST_REMOVE_HEAD head H
     else do { curelm \<leftarrow> find_before H elm f; SLIST_REMOVE_AFTER curelm H } }"

definition SLIST_SWAP :: "ptr \<Rightarrow> ptr \<Rightarrow> qheap \<Rightarrow> qheap option" where
  "SLIST_SWAP head1 head2 H = do {
     swap_first \<leftarrow> SLIST_FIRST H head1;
     f2 \<leftarrow> SLIST_FIRST H head2;
     H \<leftarrow> wr_first head1 f2 H;
     wr_first head2 swap_first H }"

section \<open>Singly-linked tail queues\<close>

definition STAILQ_EMPTY :: "qheap \<Rightarrow> ptr \<Rightarrow> bool option" where
  "STAILQ_EMPTY H head = map_option (\<lambda>f. f = NULL) (rd_first H head)"

definition STAILQ_FIRST :: "qheap \<Rightarrow> ptr \<Rightarrow> ptr option" where
  "STAILQ_FIRST H head = rd_first H head"

definition STAILQ_NEXT :: "qheap \<Rightarrow> ptr \<Rightarrow> ptr option" where
  "STAILQ_NEXT H elm = rd_next H elm"

definition STAILQ_FOREACH :: "qheap \<Rightarrow> ptr \<Rightarrow> ptr list option" where
  "STAILQ_FOREACH H head = do { v \<leftarrow> STAILQ_FIRST H head; foreach_from H v }"

definition STAILQ_INIT :: "ptr \<Rightarrow> qheap \<Rightarrow> qheap option" where
  "STAILQ_INIT head H = do {
     H \<leftarrow> wr_first head NULL H;
     wr_last head (FirstOf head) H }"

definition STAILQ_CONCAT :: "ptr \<Rightarrow> ptr \<Rightarrow> qheap \<Rightarrow> qheap option" where
  "STAILQ_CONCAT head1 head2 H = do {
     e2 \<leftarrow> STAILQ_EMPTY H head2;
     if e2 then Some H else do {
       l1 \<leftarrow> rd_last H head1;
       f2 \<leftarrow> rd_first H head2;
       H \<leftarrow> wr_cell l1 f2 H;
       l2 \<leftarrow> rd_last H head2;
       H \<leftarrow> wr_last head1 l2 H;
       STAILQ_INIT head2 H } }"

definition STAILQ_INSERT_AFTER :: "ptr \<Rightarrow> ptr \<Rightarrow> ptr \<Rightarrow> qheap \<Rightarrow> qheap option" where
  "STAILQ_INSERT_AFTER head tqelm elm H = do {
     n \<leftarrow> STAILQ_NEXT H tqelm;
     H \<leftarrow> wr_next elm n H;
     H \<leftarrow> (if n = NULL then wr_last head (NextOf elm) H else Some H);
     wr_next tqelm elm H }"

definition STAILQ_INSERT_HEAD :: "ptr \<Rightarrow> ptr \<Rightarrow> qheap \<Rightarrow> qheap option" where
  "STAILQ_INSERT_HEAD head elm H = do {
     f \<leftarrow> STAILQ_FIRST H head;
     H \<leftarrow> wr_next elm f H;
     H \<leftarrow> (if f = NULL then wr_last head (NextOf elm) H else Some H);
     wr_first head elm H }"

definition STAILQ_INSERT_TAIL :: "ptr \<Rightarrow> ptr \<Rightarrow> qheap \<Rightarrow> qheap option" where
  "STAILQ_INSERT_TAIL head elm H = do {
     H \<leftarrow> wr_next elm NULL H;
     l \<leftarrow> rd_last H head;
     H \<leftarrow> wr_cell l elm H;
     wr_last head (NextOf elm) H }"

text \<open>The element whose \<open>next\<close> field the head's \<open>last\<close> points to.\<close>

definition STAILQ_LAST :: "qheap \<Rightarrow> ptr \<Rightarrow> ptr option" where
  "STAILQ_LAST H head = do {
     e \<leftarrow> STAILQ_EMPTY H head;
     if e then Some NULL else do {
       l \<leftarrow> rd_last H head;
       (case l of NextOf x \<Rightarrow> Some x | FirstOf h \<Rightarrow> None) } }"

definition STAILQ_REMOVE_AFTER :: "ptr \<Rightarrow> ptr \<Rightarrow> qheap \<Rightarrow> qheap option" where
  "STAILQ_REMOVE_AFTER head elm H = do {
     n \<leftarrow> STAILQ_NEXT H elm;
     n2 \<leftarrow> STAILQ_NEXT H n;
     H \<leftarrow> wr_next elm n2 H;
     if n2 = NULL then wr_last head (NextOf elm) H else Some H }"

definition STAILQ_REMOVE_HEAD :: "ptr \<Rightarrow> qheap \<Rightarrow> qheap option" where
  "STAILQ_REMOVE_HEAD head H = do {
     f \<leftarrow> STAILQ_FIRST H head;
     n \<leftarrow> STAILQ_NEXT H f;
     H \<leftarrow> wr_first head n H;
     if n = NULL then wr_last head (FirstOf head) H else Some H }"

definition STAILQ_REMOVE :: "ptr \<Rightarrow> ptr \<Rightarrow> qheap \<Rightarrow> qheap option" where
  "STAILQ_REMOVE head elm H = do {
     f \<leftarrow> STAILQ_FIRST H head;
     if f = elm then STAILQ_REMOVE_HEAD head H
     else do { curelm \<leftarrow> find_before H elm f; STAILQ_REMOVE_AFTER head curelm H } }"

definition STAILQ_SWAP :: "ptr \<Rightarrow> ptr \<Rightarrow> qheap \<Rightarrow> qheap option" where
  "STAILQ_SWAP head1 head2 H = do {
     swap_first \<leftarrow> STAILQ_FIRST H head1;
     swap_last \<leftarrow> rd_last H head1;
     f2 \<leftarrow> STAILQ_FIRST H head2;
     H \<leftarrow> wr_first head1 f2 H;
     l2 \<leftarrow> rd_last H head2;
     H \<leftarrow> wr_last head1 l2 H;
     H \<leftarrow> wr_first head2 swap_first H;
     H \<leftarrow> wr_last head2 swap_last H;
     e1 \<leftarrow> STAILQ_EMPTY H head1;
     H \<leftarrow> (if e1 then wr_last head1 (FirstOf head1) H else Some H);
     e2 \<leftarrow> STAILQ_EMPTY H head2;
     if e2 then wr_last head2 (FirstOf head2) H else Some H }"

section \<open>Lists\<close>

definition LIST_EMPTY :: "qheap \<Rightarrow> ptr \<Rightarrow> bool option" where
  "LIST_EMPTY H head = map_option (\<lambda>f. f = NULL) (rd_first H head)"

definition LIST_FIRST :: "qheap \<Rightarrow> ptr \<Rightarrow> ptr option" where
  "LIST_FIRST H head = rd_first H head"

definition LIST_NEXT :: "qheap \<Rightarrow> ptr \<Rightarrow> ptr option" where
  "LIST_NEXT H elm = rd_next H elm"

definition LIST_FOREACH :: "qheap \<Rightarrow> ptr \<Rightarrow> ptr list option" where
  "LIST_FOREACH H head = do { v \<leftarrow> LIST_FIRST H head; foreach_from H v }"

definition LIST_INIT :: "ptr \<Rightarrow> qheap \<Rightarrow> qheap option" where
  "LIST_INIT head H = wr_first head NULL H"

definition LIST_INSERT_AFTER :: "ptr \<Rightarrow> ptr \<Rightarrow> qheap \<Rightarrow> qheap option" where
  "LIST_INSERT_AFTER listelm elm H = do {
     n \<leftarrow> LIST_NEXT H listelm;
     H \<leftarrow> wr_next elm n H;
     H \<leftarrow> (if n \<noteq> NULL then do {
             n' \<leftarrow> LIST_NEXT H listelm;
             wr_prev n' (NextOf elm) H } else Some H);
     H \<leftarrow> wr_next listelm elm H;
     wr_prev elm (NextOf listelm) H }"

definition LIST_INSERT_BEFORE :: "ptr \<Rightarrow> ptr \<Rightarrow> qheap \<Rightarrow> qheap option" where
  "LIST_INSERT_BEFORE listelm elm H = do {
     p \<leftarrow> rd_prev H listelm;
     H \<leftarrow> wr_prev elm p H;
     H \<leftarrow> wr_next elm listelm H;
     p' \<leftarrow> rd_prev H listelm;
     H \<leftarrow> wr_cell p' elm H;
     wr_prev listelm (NextOf elm) H }"

definition LIST_INSERT_HEAD :: "ptr \<Rightarrow> ptr \<Rightarrow> qheap \<Rightarrow> qheap option" where
  "LIST_INSERT_HEAD head elm H = do {
     f \<leftarrow> LIST_FIRST H head;
     H \<leftarrow> wr_next elm f H;
     H \<leftarrow> (if f \<noteq> NULL then do {
             f' \<leftarrow> LIST_FIRST H head;
             wr_prev f' (NextOf elm) H } else Some H);
     H \<leftarrow> wr_first head elm H;
     wr_prev elm (FirstOf head) H }"

definition LIST_REMOVE :: "ptr \<Rightarrow> qheap \<Rightarrow> qheap option" where
  "LIST_REMOVE elm H = do {
     n \<leftarrow> LIST_NEXT H elm;
     H \<leftarrow> (if n \<noteq> NULL then do { p \<leftarrow> rd_prev H elm; wr_prev n p H } else Some H);
     p \<leftarrow> rd_prev H elm;
     n' \<leftarrow> LIST_NEXT H elm;
     wr_cell p n' H }"

definition LIST_SWAP :: "ptr \<Rightarrow> ptr \<Rightarrow> qheap \<Rightarrow> qheap option" where
  "LIST_SWAP head1 head2 H = do {
     swap_tmp \<leftarrow> LIST_FIRST H head1;
     f2 \<leftarrow> LIST_FIRST H head2;
     H \<leftarrow> wr_first head1 f2 H;
     H \<leftarrow> wr_first head2 swap_tmp H;
     t1 \<leftarrow> LIST_FIRST H head1;
     H \<leftarrow> (if t1 \<noteq> NULL then wr_prev t1 (FirstOf head1) H else Some H);
     t2 \<leftarrow> LIST_FIRST H head2;
     if t2 \<noteq> NULL then wr_prev t2 (FirstOf head2) H else Some H }"

section \<open>Tail queues\<close>

definition TAILQ_EMPTY :: "qheap \<Rightarrow> ptr \<Rightarrow> bool option" where
  "TAILQ_EMPTY H head = map_option (\<lambda>f. f = NULL) (rd_first H head)"

definition TAILQ_FIRST :: "qheap \<Rightarrow> ptr \<Rightarrow> ptr option" where
  "TAILQ_FIRST H head = rd_first H head"

definition TAILQ_NEXT :: "qheap \<Rightarrow> ptr \<Rightarrow> ptr option" where
  "TAILQ_NEXT H elm = rd_next H elm"

definition TAILQ_LAST :: "qheap \<Rightarrow> ptr \<Rightarrow> ptr option" where
  "TAILQ_LAST H head = do { l \<leftarrow> rd_last H head; c \<leftarrow> rd_second H l; rd_cell H c }"

definition TAILQ_PREV :: "qheap \<Rightarrow> ptr \<Rightarrow> ptr option" where
  "TAILQ_PREV H elm = do { p \<leftarrow> rd_prev H elm; c \<leftarrow> rd_second H p; rd_cell H c }"

definition TAILQ_FOREACH :: "qheap \<Rightarrow> ptr \<Rightarrow> ptr list option" where
  "TAILQ_FOREACH H head = do { v \<leftarrow> TAILQ_FIRST H head; foreach_from H v }"

partial_function (option) foreach_back :: "qheap \<Rightarrow> ptr \<Rightarrow> ptr list option" where
  "foreach_back H v =
     (if v = NULL then Some [] else do {
        n \<leftarrow> TAILQ_PREV H v;
        vs \<leftarrow> foreach_back H n;
        Some (v # vs) })"

definition TAILQ_FOREACH_REVERSE :: "qheap \<Rightarrow> ptr \<Rightarrow> ptr list option" where
  "TAILQ_FOREACH_REVERSE H head = do { v \<leftarrow> TAILQ_LAST H head; foreach_back H v }"

definition TAILQ_INIT :: "ptr \<Rightarrow> qheap \<Rightarrow> qheap option" where
  "TAILQ_INIT head H = do {
     H \<leftarrow> wr_first head NULL H;
     wr_last head (FirstOf head) H }"

definition TAILQ_CONCAT :: "ptr \<Rightarrow> ptr \<Rightarrow> qheap \<Rightarrow> qheap option" where
  "TAILQ_CONCAT head1 head2 H = do {
     e2 \<leftarrow> TAILQ_EMPTY H head2;
     if e2 then Some H else do {
       l1 \<leftarrow> rd_last H head1;
       f2 \<leftarrow> rd_first H head2;
       H \<leftarrow> wr_cell l1 f2 H;
       f2 \<leftarrow> rd_first H head2;
       l1 \<leftarrow> rd_last H head1;
       H \<leftarrow> wr_prev f2 l1 H;
       l2 \<leftarrow> rd_last H head2;
       H \<leftarrow> wr_last head1 l2 H;
       TAILQ_INIT head2 H } }"

definition TAILQ_INSERT_AFTER :: "ptr \<Rightarrow> ptr \<Rightarrow> ptr \<Rightarrow> qheap \<Rightarrow> qheap option" where
  "TAILQ_INSERT_AFTER head listelm elm H = do {
     n \<leftarrow> TAILQ_NEXT H listelm;
     H \<leftarrow> wr_next elm n H;
     H \<leftarrow> (if n \<noteq> NULL then do { n' \<leftarrow> TAILQ_NEXT H elm; wr_prev n' (NextOf elm) H }
           else wr_last head (NextOf elm) H);
     H \<leftarrow> wr_next listelm elm H;
     wr_prev elm (NextOf listelm) H }"

definition TAILQ_INSERT_BEFORE :: "ptr \<Rightarrow> ptr \<Rightarrow> qheap \<Rightarrow> qheap option" where
  "TAILQ_INSERT_BEFORE listelm elm H = do {
     p \<leftarrow> rd_prev H listelm;
     H \<leftarrow> wr_prev elm p H;
     H \<leftarrow> wr_next elm listelm H;
     p' \<leftarrow> rd_prev H listelm;
     H \<leftarrow> wr_cell p' elm H;
     wr_prev listelm (NextOf elm) H }"

definition TAILQ_INSERT_HEAD :: "ptr \<Rightarrow> ptr \<Rightarrow> qheap \<Rightarrow> qheap option" where
  "TAILQ_INSERT_HEAD head elm H = do {
     f \<leftarrow> TAILQ_FIRST H head;
     H \<leftarrow> wr_next elm f H;
     H \<leftarrow> (if f \<noteq> NULL then do { f' \<leftarrow> TAILQ_FIRST H head; wr_prev f' (NextOf elm) H }
           else wr_last head (NextOf elm) H);
     H \<leftarrow> wr_first head elm H;
     wr_prev elm (FirstOf head) H }"

definition TAILQ_INSERT_TAIL :: "ptr \<Rightarrow> ptr \<Rightarrow> qheap \<Rightarrow> qheap option" where
  "TAILQ_INSERT_TAIL head elm H = do {
     H \<leftarrow> wr_next elm NULL H;
     l \<leftarrow> rd_last H head;
     H \<leftarrow> wr_prev elm l H;
     l \<leftarrow> rd_last H head;
     H \<leftarrow> wr_cell l elm H;
     wr_last head (NextOf elm) H }"

definition TAILQ_REMOVE :: "ptr \<Rightarrow> ptr \<Rightarrow> qheap \<Rightarrow> qheap option" where
  "TAILQ_REMOVE head elm H = do {
     n \<leftarrow> TAILQ_NEXT H elm;
     H \<leftarrow> (if n \<noteq> NULL then do { p \<leftarrow> rd_prev H elm; wr_prev n p H }
           else do { p \<leftarrow> rd_prev H elm; wr_last head p H });
     p \<leftarrow> rd_prev H elm;
     n' \<leftarrow> TAILQ_NEXT H elm;
     wr_cell p n' H }"

definition TAILQ_SWAP :: "ptr \<Rightarrow> ptr \<Rightarrow> qheap \<Rightarrow> qheap option" where
  "TAILQ_SWAP head1 head2 H = do {
     swap_first \<leftarrow> rd_first H head1;
     swap_last \<leftarrow> rd_last H head1;
     f2 \<leftarrow> rd_first H head2;
     H \<leftarrow> wr_first head1 f2 H;
     l2 \<leftarrow> rd_last H head2;
     H \<leftarrow> wr_last head1 l2 H;
     H \<leftarrow> wr_first head2 swap_first H;
     H \<leftarrow> wr_last head2 swap_last H;
     t1 \<leftarrow> rd_first H head1;
     H \<leftarrow> (if t1 \<noteq> NULL then wr_prev t1 (FirstOf head1) H else wr_last head1 (FirstOf head1) H);
     t2 \<leftarrow> rd_first H head2;
     if t2 \<noteq> NULL then wr_prev t2 (FirstOf head2) H else wr_last head2 (FirstOf head2) H }"

section \<open>Representation\<close>

text \<open>The elements met from \<open>x\<close> along \<open>next\<close> until \<open>y\<close>; the cells that point at each of them.\<close>

fun chain :: "(ptr \<Rightarrow> ptr) \<Rightarrow> ptr \<Rightarrow> ptr list \<Rightarrow> ptr \<Rightarrow> bool" where
  "chain nx x [] y \<longleftrightarrow> x = y"
| "chain nx x (a # as) y \<longleftrightarrow> x = a \<and> a \<noteq> NULL \<and> chain nx (nx a) as y"

fun backlinks :: "(ptr \<Rightarrow> cell) \<Rightarrow> cell \<Rightarrow> ptr list \<Rightarrow> bool" where
  "backlinks pv c [] \<longleftrightarrow> True"
| "backlinks pv c (a # as) \<longleftrightarrow> pv a = c \<and> backlinks pv (NextOf a) as"

definition tail_cell :: "cell \<Rightarrow> ptr list \<Rightarrow> cell" where
  "tail_cell c as = (if as = [] then c else NextOf (last as))"

definition slist :: "qheap \<Rightarrow> ptr \<Rightarrow> ptr list \<Rightarrow> bool" where
  "slist H h xs \<longleftrightarrow> h \<noteq> NULL \<and> chain (q_next H) (q_first H h) xs NULL"

definition stailq :: "qheap \<Rightarrow> ptr \<Rightarrow> ptr list \<Rightarrow> bool" where
  "stailq H h xs \<longleftrightarrow> slist H h xs \<and> q_last H h = tail_cell (FirstOf h) xs"

definition llist :: "qheap \<Rightarrow> ptr \<Rightarrow> ptr list \<Rightarrow> bool" where
  "llist H h xs \<longleftrightarrow> slist H h xs \<and> backlinks (q_prev H) (FirstOf h) xs"

definition tailq :: "qheap \<Rightarrow> ptr \<Rightarrow> ptr list \<Rightarrow> bool" where
  "tailq H h xs \<longleftrightarrow> llist H h xs \<and> q_last H h = tail_cell (FirstOf h) xs"

text \<open>Only the heads \<open>hs\<close> and the elements \<open>es\<close> may differ.\<close>

definition same_but :: "ptr set \<Rightarrow> ptr set \<Rightarrow> qheap \<Rightarrow> qheap \<Rightarrow> bool" where
  "same_but hs es H H' \<longleftrightarrow>
     (\<forall>h. h \<notin> hs \<longrightarrow> q_first H' h = q_first H h \<and> q_last H' h = q_last H h) \<and>
     (\<forall>e. e \<notin> es \<longrightarrow> q_next H' e = q_next H e \<and> q_prev H' e = q_prev H e)"

lemmas rep_defs = slist_def stailq_def llist_def tailq_def

lemma tail_cell_simps [simp]:
  "tail_cell c [] = c" "tail_cell c (as @ [a]) = NextOf a"
  "tail_cell c (as @ e # bs) = tail_cell (NextOf e) bs" "tail_cell c (a # as) = tail_cell (NextOf a) as"
  by (auto simp: tail_cell_def)

lemma chain_append [simp]:
  "chain nx x (as @ bs) y \<longleftrightarrow> (\<exists>z. chain nx x as z \<and> chain nx z bs y)"
  by (induction as arbitrary: x) auto

lemma backlinks_append [simp]: "backlinks pv c (as @ bs) \<longleftrightarrow> backlinks pv c as \<and> backlinks pv (tail_cell c as) bs"
  by (induction as arbitrary: c) auto

lemma chain_upd [simp]: "a \<notin> set as \<Longrightarrow> chain (nx(a := v)) x as y = chain nx x as y"
  by (induction as arbitrary: x) auto

lemma backlinks_upd [simp]: "a \<notin> set as \<Longrightarrow> backlinks (pv(a := d)) c as = backlinks pv c as"
  by (induction as arbitrary: c) auto

lemma chain_cong: "(\<And>a. a \<in> set as \<Longrightarrow> nx' a = nx a) \<Longrightarrow> chain nx' x as y = chain nx x as y"
  by (induction as arbitrary: x) auto

lemma backlinks_cong: "(\<And>a. a \<in> set as \<Longrightarrow> pv' a = pv a) \<Longrightarrow> backlinks pv' c as = backlinks pv c as"
  by (induction as arbitrary: c) auto

lemma chain_not_NULL: "chain nx x as y \<Longrightarrow> NULL \<notin> set as"
  by (induction as arbitrary: x) auto

lemma chain_fun: "chain nx x as NULL \<Longrightarrow> chain nx x bs NULL \<Longrightarrow> as = bs"
proof (induction as arbitrary: x bs)
  case Nil
  then show ?case by (cases bs) auto
next
  case (Cons a as)
  then show ?case by (cases bs) auto
qed

lemma chain_distinct: "chain nx x as NULL \<Longrightarrow> distinct as"
proof (induction as arbitrary: x)
  case (Cons a as)
  have "a \<notin> set as"
  proof
    assume "a \<in> set as"
    then obtain us vs where as: "as = us @ a # vs" by (meson split_list)
    with Cons.prems have "chain nx (nx a) (us @ a # vs) NULL" "chain nx (nx a) vs NULL" by auto
    then have "us @ a # vs = vs" by (rule chain_fun)
    from arg_cong [OF this, of length] show False by simp
  qed
  with Cons show ?case by auto
qed simp

lemma same_but_refl: "same_but hs es H H"
  by (simp add: same_but_def)

lemma tailq_frame:
  assumes "same_but hs es H H'" and "h \<notin> hs" and "set xs \<inter> es = {}"
  shows "slist H' h xs = slist H h xs" "stailq H' h xs = stailq H h xs"
    "llist H' h xs = llist H h xs" "tailq H' h xs = tailq H h xs"
proof -
  have "chain (q_next H') y xs NULL = chain (q_next H) y xs NULL" for y
    using assms by (intro chain_cong) (auto simp: same_but_def)
  moreover have "backlinks (q_prev H') c xs = backlinks (q_prev H) c xs" for c
    using assms by (intro backlinks_cong) (auto simp: same_but_def)
  ultimately show "slist H' h xs = slist H h xs" "stailq H' h xs = stailq H h xs"
    "llist H' h xs = llist H h xs" "tailq H' h xs = tailq H h xs"
    using assms by (simp_all add: rep_defs same_but_def)
qed

section \<open>Traversal\<close>

lemma foreach_from_chain: "chain (q_next H) x xs NULL \<Longrightarrow> foreach_from H x = Some xs"
  by (induction xs arbitrary: x) (auto simp: foreach_from.simps rd_next_def)

lemma find_before_chain:
  assumes "chain (q_next H) x (as @ [a, e] @ bs) NULL" and "e \<notin> set (as @ [a])"
  shows "find_before H e x = Some a"
  using assms
proof (induction as arbitrary: x)
  case Nil
  then show ?case by (subst find_before.simps) (auto simp: rd_next_def)
next
  case (Cons b as)
  from Cons.prems have "find_before H e (q_next H b) = Some a" by (intro Cons.IH) auto
  moreover have "q_next H b \<noteq> e" using Cons.prems by (cases as) auto
  ultimately show ?case using Cons.prems by (subst find_before.simps) (auto simp: rd_next_def)
qed

text \<open>Writing through the cell at the end of a chain redirects its end.\<close>

lemma wr_tail:
  assumes "chain (q_next H) (q_first H h) as y" and "distinct as" and "h \<noteq> NULL"
  obtains H' where "wr_cell (tail_cell (FirstOf h) as) v H = Some H'"
    and "chain (q_next H') (q_first H' h) as v" and "q_last H' = q_last H" and "q_prev H' = q_prev H"
    and "\<And>e. e \<notin> set as \<Longrightarrow> q_next H' e = q_next H e"
    and "\<And>g. g \<noteq> h \<Longrightarrow> q_first H' g = q_first H g"
proof (cases as rule: rev_cases)
  case Nil
  then show ?thesis
    using assms by (intro that [of "H\<lparr>q_first := (q_first H)(h := v)\<rparr>"]) (auto simp: wr_first_def)
next
  case (snoc bs a)
  then show ?thesis
    using assms by (intro that [of "H\<lparr>q_next := (q_next H)(a := v)\<rparr>"]) (auto simp: wr_next_def)
qed

section \<open>Refinement of the list operations\<close>

text \<open>An operation on the queue at \<open>h\<close> returns, the queue then represents \<open>ys\<close>, and only the head
  and the elements \<open>es\<close> were written.\<close>

definition yields :: "(qheap \<Rightarrow> ptr \<Rightarrow> ptr list \<Rightarrow> bool) \<Rightarrow> ptr \<Rightarrow> ptr set \<Rightarrow> qheap \<Rightarrow> qheap option \<Rightarrow> ptr list \<Rightarrow> bool" where
  "yields rep h es H r ys \<longleftrightarrow> (\<exists>H'. r = Some H' \<and> rep H' h ys \<and> same_but {h} es H H')"

lemmas refine_defs = yields_def rep_defs link_defs same_but_def

lemma chain_head: "chain nx x as NULL \<Longrightarrow> x = NULL \<longleftrightarrow> as = []"
  by (cases as) auto

lemma slist_distinct: "slist H h xs \<Longrightarrow> distinct xs \<and> NULL \<notin> set xs"
  using chain_distinct chain_not_NULL by (auto simp: slist_def)

lemma slist_head: "slist H h xs \<Longrightarrow> q_first H h = NULL \<longleftrightarrow> xs = []"
  using chain_head by (auto simp: slist_def)

subsection \<open>Singly-linked lists\<close>

lemma SLIST_INIT_yields: "h \<noteq> NULL \<Longrightarrow> yields slist h {} H (SLIST_INIT h H) []"
  by (simp add: refine_defs SLIST_INIT_def)

lemma SLIST_INSERT_HEAD_yields:
  assumes "slist H h xs" and "e \<noteq> NULL" and "e \<notin> set xs"
  shows "yields slist h {e} H (SLIST_INSERT_HEAD h e H) (e # xs)"
  using assms by (auto simp: refine_defs SLIST_INSERT_HEAD_def SLIST_FIRST_def)

lemma SLIST_INSERT_AFTER_yields:
  assumes "slist H h (as @ x # bs)" and "e \<noteq> NULL" and "e \<notin> set (as @ x # bs)"
  shows "yields slist h {x, e} H (SLIST_INSERT_AFTER x e H) (as @ x # e # bs)"
  using assms slist_distinct [OF assms(1)]
  by (auto simp: refine_defs SLIST_INSERT_AFTER_def SLIST_NEXT_def)

lemma SLIST_REMOVE_HEAD_yields:
  assumes "slist H h (x # xs)"
  shows "yields slist h {} H (SLIST_REMOVE_HEAD h H) xs"
  using assms by (auto simp: refine_defs SLIST_REMOVE_HEAD_def SLIST_FIRST_def SLIST_NEXT_def)

lemma SLIST_REMOVE_AFTER_yields:
  assumes "slist H h (as @ x # y # bs)"
  shows "yields slist h {x} H (SLIST_REMOVE_AFTER x H) (as @ x # bs)"
  using assms slist_distinct [OF assms(1)]
  by (auto simp: refine_defs SLIST_REMOVE_AFTER_def SLIST_NEXT_def)

lemma slist_find_before:
  assumes "slist H h (as @ a # e # bs)"
  shows "find_before H e (q_first H h) = Some a" and "q_first H h \<noteq> e"
proof -
  show "find_before H e (q_first H h) = Some a"
    using assms slist_distinct [OF assms] by (intro find_before_chain [of _ _ as _ _ bs]) (auto simp: slist_def)
  show "q_first H h \<noteq> e"
    using assms slist_distinct [OF assms] by (cases as) (auto simp: slist_def)
qed

lemma SLIST_REMOVE_yields:
  assumes "slist H h (as @ x # bs)"
  shows "yields slist h (set as) H (SLIST_REMOVE h x H) (as @ bs)"
proof (cases as rule: rev_cases)
  case Nil
  with assms SLIST_REMOVE_HEAD_yields [of H h x bs] show ?thesis
    by (simp add: SLIST_REMOVE_def SLIST_FIRST_def slist_def rd_first_def)
next
  case (snoc as' a)
  with assms have "slist H h (as' @ a # x # bs)" by simp
  from slist_find_before [OF this] SLIST_REMOVE_AFTER_yields [OF this] snoc assms show ?thesis
    by (auto simp: SLIST_REMOVE_def SLIST_FIRST_def slist_def rd_first_def yields_def same_but_def)
qed

subsection \<open>Singly-linked tail queues\<close>

lemma stailq_slist: "stailq H h xs \<Longrightarrow> slist H h xs"
  by (simp add: stailq_def)

lemma STAILQ_INIT_yields: "h \<noteq> NULL \<Longrightarrow> yields stailq h {} H (STAILQ_INIT h H) []"
  by (simp add: refine_defs STAILQ_INIT_def)

lemma STAILQ_INSERT_HEAD_yields:
  assumes "stailq H h xs" and "e \<noteq> NULL" and "e \<notin> set xs"
  shows "yields stailq h {e} H (STAILQ_INSERT_HEAD h e H) (e # xs)"
  using assms slist_head [OF stailq_slist [OF assms(1)]]
  by (cases xs) (auto simp: refine_defs STAILQ_INSERT_HEAD_def STAILQ_FIRST_def)

lemma STAILQ_INSERT_TAIL_yields:
  assumes "stailq H h xs" and "e \<noteq> NULL" and "e \<notin> set xs"
  shows "yields stailq h (insert e (set xs)) H (STAILQ_INSERT_TAIL h e H) (xs @ [e])"
  using assms slist_distinct [OF stailq_slist [OF assms(1)]]
  by (cases xs rule: rev_cases) (auto simp: refine_defs STAILQ_INSERT_TAIL_def)

lemma STAILQ_INSERT_AFTER_yields:
  assumes "stailq H h (as @ x # bs)" and "e \<noteq> NULL" and "e \<notin> set (as @ x # bs)"
  shows "yields stailq h {x, e} H (STAILQ_INSERT_AFTER h x e H) (as @ x # e # bs)"
  using assms slist_distinct [OF stailq_slist [OF assms(1)]]
  by (cases bs) (auto simp: refine_defs STAILQ_INSERT_AFTER_def STAILQ_NEXT_def)

lemma STAILQ_REMOVE_HEAD_yields:
  assumes "stailq H h (x # xs)"
  shows "yields stailq h {} H (STAILQ_REMOVE_HEAD h H) xs"
  using assms
  by (cases xs) (auto simp: refine_defs STAILQ_REMOVE_HEAD_def STAILQ_FIRST_def STAILQ_NEXT_def)

lemma STAILQ_REMOVE_AFTER_yields:
  assumes "stailq H h (as @ x # y # bs)"
  shows "yields stailq h {x} H (STAILQ_REMOVE_AFTER h x H) (as @ x # bs)"
  using assms slist_distinct [OF stailq_slist [OF assms(1)]]
  by (cases bs) (auto simp: refine_defs STAILQ_REMOVE_AFTER_def STAILQ_NEXT_def)

lemma STAILQ_REMOVE_yields:
  assumes "stailq H h (as @ x # bs)"
  shows "yields stailq h (set as) H (STAILQ_REMOVE h x H) (as @ bs)"
proof (cases as rule: rev_cases)
  case Nil
  with assms STAILQ_REMOVE_HEAD_yields [of H h x bs] show ?thesis
    by (simp add: STAILQ_REMOVE_def STAILQ_FIRST_def stailq_def slist_def rd_first_def)
next
  case (snoc as' a)
  with assms have st: "stailq H h (as' @ a # x # bs)" by simp
  from slist_find_before [OF stailq_slist [OF st]] STAILQ_REMOVE_AFTER_yields [OF st] snoc assms
  show ?thesis
    by (auto simp: STAILQ_REMOVE_def STAILQ_FIRST_def rep_defs rd_first_def yields_def same_but_def)
qed

subsection \<open>Lists\<close>

lemma llist_slist: "llist H h xs \<Longrightarrow> slist H h xs"
  by (simp add: llist_def)

lemma LIST_INIT_yields: "h \<noteq> NULL \<Longrightarrow> yields llist h {} H (LIST_INIT h H) []"
  by (simp add: refine_defs LIST_INIT_def)

lemma LIST_INSERT_HEAD_yields:
  assumes "llist H h xs" and "e \<noteq> NULL" and "e \<notin> set xs"
  shows "yields llist h (insert e (set xs)) H (LIST_INSERT_HEAD h e H) (e # xs)"
  using assms slist_distinct [OF llist_slist [OF assms(1)]]
  by (cases xs) (auto simp: refine_defs LIST_INSERT_HEAD_def LIST_FIRST_def)

lemma LIST_INSERT_AFTER_yields:
  assumes "llist H h (as @ x # bs)" and "e \<noteq> NULL" and "e \<notin> set (as @ x # bs)"
  shows "yields llist h (insert e (set (as @ x # bs))) H (LIST_INSERT_AFTER x e H) (as @ x # e # bs)"
  using assms slist_distinct [OF llist_slist [OF assms(1)]]
  by (cases bs) (auto simp: refine_defs LIST_INSERT_AFTER_def LIST_NEXT_def)

lemma LIST_INSERT_BEFORE_yields:
  assumes "llist H h (as @ x # bs)" and "e \<noteq> NULL" and "e \<notin> set (as @ x # bs)"
  shows "yields llist h (insert e (set (as @ x # bs))) H (LIST_INSERT_BEFORE x e H) (as @ e # x # bs)"
  using assms slist_distinct [OF llist_slist [OF assms(1)]]
  by (cases as rule: rev_cases) (auto simp: refine_defs LIST_INSERT_BEFORE_def)

lemma LIST_REMOVE_yields:
  assumes "llist H h (as @ x # bs)"
  shows "yields llist h (set (as @ x # bs)) H (LIST_REMOVE x H) (as @ bs)"
  using assms slist_distinct [OF llist_slist [OF assms(1)]]
  by (cases as rule: rev_cases; cases bs) (auto simp: refine_defs LIST_REMOVE_def LIST_NEXT_def)

subsection \<open>Tail queues\<close>

lemma tailq_slist: "tailq H h xs \<Longrightarrow> slist H h xs"
  by (simp add: tailq_def llist_def)

lemma TAILQ_INIT_yields: "h \<noteq> NULL \<Longrightarrow> yields tailq h {} H (TAILQ_INIT h H) []"
  by (simp add: refine_defs TAILQ_INIT_def)

lemma TAILQ_INSERT_HEAD_yields:
  assumes "tailq H h xs" and "e \<noteq> NULL" and "e \<notin> set xs"
  shows "yields tailq h (insert e (set xs)) H (TAILQ_INSERT_HEAD h e H) (e # xs)"
  using assms slist_distinct [OF tailq_slist [OF assms(1)]]
  by (cases xs) (auto simp: refine_defs TAILQ_INSERT_HEAD_def TAILQ_FIRST_def)

lemma TAILQ_INSERT_TAIL_yields:
  assumes "tailq H h xs" and "e \<noteq> NULL" and "e \<notin> set xs"
  shows "yields tailq h (insert e (set xs)) H (TAILQ_INSERT_TAIL h e H) (xs @ [e])"
  using assms slist_distinct [OF tailq_slist [OF assms(1)]]
  by (cases xs rule: rev_cases) (auto simp: refine_defs TAILQ_INSERT_TAIL_def)

lemma TAILQ_INSERT_AFTER_yields:
  assumes "tailq H h (as @ x # bs)" and "e \<noteq> NULL" and "e \<notin> set (as @ x # bs)"
  shows "yields tailq h (insert e (set (as @ x # bs))) H (TAILQ_INSERT_AFTER h x e H) (as @ x # e # bs)"
  using assms slist_distinct [OF tailq_slist [OF assms(1)]]
  by (cases bs) (auto simp: refine_defs TAILQ_INSERT_AFTER_def TAILQ_NEXT_def)

lemma TAILQ_INSERT_BEFORE_yields:
  assumes "tailq H h (as @ x # bs)" and "e \<noteq> NULL" and "e \<notin> set (as @ x # bs)"
  shows "yields tailq h (insert e (set (as @ x # bs))) H (TAILQ_INSERT_BEFORE x e H) (as @ e # x # bs)"
  using assms slist_distinct [OF tailq_slist [OF assms(1)]]
  by (cases as rule: rev_cases) (auto simp: refine_defs TAILQ_INSERT_BEFORE_def)

lemma TAILQ_REMOVE_yields:
  assumes "tailq H h (as @ x # bs)"
  shows "yields tailq h (set (as @ x # bs)) H (TAILQ_REMOVE h x H) (as @ bs)"
  using assms slist_distinct [OF tailq_slist [OF assms(1)]]
  by (cases as rule: rev_cases; cases bs) (auto simp: refine_defs TAILQ_REMOVE_def TAILQ_NEXT_def)

subsection \<open>Observers\<close>

lemma slist_observers:
  assumes "slist H h xs"
  shows "rd_first H h = Some (case xs of [] \<Rightarrow> NULL | x # _ \<Rightarrow> x)"
    and "foreach_from H (q_first H h) = Some xs"
  using assms foreach_from_chain by (cases xs; auto simp: slist_def rd_first_def)+

lemma slist_FOREACH: "slist H h xs \<Longrightarrow> SLIST_FOREACH H h = Some xs"
  using slist_observers(2) [of H h xs] by (simp add: SLIST_FOREACH_def SLIST_FIRST_def rd_first_def slist_def)

lemma stailq_FOREACH: "stailq H h xs \<Longrightarrow> STAILQ_FOREACH H h = Some xs"
  using slist_observers(2) [of H h xs]
  by (simp add: STAILQ_FOREACH_def STAILQ_FIRST_def rd_first_def slist_def stailq_def)

lemma llist_FOREACH: "llist H h xs \<Longrightarrow> LIST_FOREACH H h = Some xs"
  using slist_observers(2) [of H h xs]
  by (simp add: LIST_FOREACH_def LIST_FIRST_def rd_first_def slist_def llist_def)

lemma tailq_FOREACH: "tailq H h xs \<Longrightarrow> TAILQ_FOREACH H h = Some xs"
  using slist_observers(2) [of H h xs]
  by (simp add: TAILQ_FOREACH_def TAILQ_FIRST_def rd_first_def slist_def llist_def tailq_def)

lemma stailq_LAST: "stailq H h xs \<Longrightarrow> STAILQ_LAST H h = Some (if xs = [] then NULL else last xs)"
  using slist_head [of H h xs] by (cases xs rule: rev_cases) (auto simp: STAILQ_LAST_def STAILQ_EMPTY_def refine_defs)

text \<open>The cell in front of an element of a tail queue, read as a head, leads to the element before it.\<close>

lemma tail_cell_read:
  assumes "chain (q_next H) (q_first H h) as y" and "h \<noteq> NULL"
  shows "rd_cell H (tail_cell (FirstOf h) as) = Some y"
  using assms by (cases as rule: rev_cases) (auto simp: link_defs)

lemma tailq_LAST: "tailq H h xs \<Longrightarrow> TAILQ_LAST H h = Some (if xs = [] then NULL else last xs)"
  by (cases xs rule: rev_cases) (auto simp: TAILQ_LAST_def rep_defs link_defs tail_cell_read)

lemma tailq_PREV:
  assumes "tailq H h (as @ x # bs)"
  shows "TAILQ_PREV H x = Some (if as = [] then NULL else last as)"
proof (cases as rule: rev_cases)
  case Nil
  with assms tail_cell_read [of H h "x # bs" NULL] show ?thesis
    by (auto simp: TAILQ_PREV_def rep_defs link_defs)
next
  case (snoc as' a)
  with assms show ?thesis by (auto simp: TAILQ_PREV_def rep_defs link_defs tail_cell_read)
qed

lemma foreach_back_prefix:
  "tailq H h (as @ bs) \<Longrightarrow> foreach_back H (if as = [] then NULL else last as) = Some (rev as)"
proof (induction as arbitrary: bs rule: rev_induct)
  case Nil
  show ?case by (simp add: foreach_back.simps)
next
  case (snoc a as)
  from snoc.prems have t: "tailq H h (as @ a # bs)" by simp
  from slist_distinct [OF tailq_slist [OF t]] have "a \<noteq> NULL" by auto
  with tailq_PREV [OF t] snoc.IH [OF t] show ?case by (simp add: foreach_back.simps [of H a])
qed

lemma tailq_FOREACH_REVERSE: "tailq H h xs \<Longrightarrow> TAILQ_FOREACH_REVERSE H h = Some (rev xs)"
  using foreach_back_prefix [of H h xs "[]"] by (simp add: TAILQ_FOREACH_REVERSE_def tailq_LAST)

section \<open>Sequences of operations\<close>

text \<open>The operations on one queue, with their meaning on the list it represents: an insertion needs
  a fresh element, the others an element of the list.\<close>

datatype queue_op =
    InsertHead ptr
  | InsertTail ptr
  | InsertAfter ptr ptr
  | InsertBefore ptr ptr
  | RemoveHead
  | RemoveAfter ptr
  | Remove ptr

fun insert_after :: "ptr \<Rightarrow> ptr \<Rightarrow> ptr list \<Rightarrow> ptr list" where
  "insert_after x e [] = []"
| "insert_after x e (a # as) = (if a = x then a # e # as else a # insert_after x e as)"

fun insert_before :: "ptr \<Rightarrow> ptr \<Rightarrow> ptr list \<Rightarrow> ptr list" where
  "insert_before x e [] = []"
| "insert_before x e (a # as) = (if a = x then e # a # as else a # insert_before x e as)"

fun remove_after :: "ptr \<Rightarrow> ptr list \<Rightarrow> ptr list option" where
  "remove_after x (a # b # as) =
     (if a = x then Some (a # as) else map_option ((#) a) (remove_after x (b # as)))"
| "remove_after x as = None"

definition fresh :: "ptr \<Rightarrow> ptr list \<Rightarrow> bool" where
  "fresh e xs \<longleftrightarrow> e \<noteq> NULL \<and> e \<notin> set xs"

fun list_op :: "queue_op \<Rightarrow> ptr list \<Rightarrow> ptr list option" where
  "list_op (InsertHead e) xs = (if fresh e xs then Some (e # xs) else None)"
| "list_op (InsertTail e) xs = (if fresh e xs then Some (xs @ [e]) else None)"
| "list_op (InsertAfter x e) xs = (if fresh e xs \<and> x \<in> set xs then Some (insert_after x e xs) else None)"
| "list_op (InsertBefore x e) xs = (if fresh e xs \<and> x \<in> set xs then Some (insert_before x e xs) else None)"
| "list_op RemoveHead xs = (case xs of [] \<Rightarrow> None | x # xs' \<Rightarrow> Some xs')"
| "list_op (RemoveAfter x) xs = remove_after x xs"
| "list_op (Remove x) xs = (if x \<in> set xs then Some (remove1 x xs) else None)"

fun op_elems :: "queue_op \<Rightarrow> ptr set" where
  "op_elems (InsertHead e) = {e}"
| "op_elems (InsertTail e) = {e}"
| "op_elems (InsertAfter x e) = {e}"
| "op_elems (InsertBefore x e) = {e}"
| "op_elems _ = {}"

fun run_ops :: "('o \<Rightarrow> 's \<Rightarrow> 's option) \<Rightarrow> 'o list \<Rightarrow> 's \<Rightarrow> 's option" where
  "run_ops f [] s = Some s"
| "run_ops f (p # ps) s = do { s \<leftarrow> f p s; run_ops f ps s }"

text \<open>The macro behind each operation; a queue without the operation has \<open>None\<close>.\<close>

fun SLIST_op :: "ptr \<Rightarrow> queue_op \<Rightarrow> (qheap \<Rightarrow> qheap option) option" where
  "SLIST_op h (InsertHead e) = Some (SLIST_INSERT_HEAD h e)"
| "SLIST_op h (InsertAfter x e) = Some (SLIST_INSERT_AFTER x e)"
| "SLIST_op h RemoveHead = Some (SLIST_REMOVE_HEAD h)"
| "SLIST_op h (RemoveAfter x) = Some (SLIST_REMOVE_AFTER x)"
| "SLIST_op h (Remove x) = Some (SLIST_REMOVE h x)"
| "SLIST_op h _ = None"

fun STAILQ_op :: "ptr \<Rightarrow> queue_op \<Rightarrow> (qheap \<Rightarrow> qheap option) option" where
  "STAILQ_op h (InsertHead e) = Some (STAILQ_INSERT_HEAD h e)"
| "STAILQ_op h (InsertTail e) = Some (STAILQ_INSERT_TAIL h e)"
| "STAILQ_op h (InsertAfter x e) = Some (STAILQ_INSERT_AFTER h x e)"
| "STAILQ_op h RemoveHead = Some (STAILQ_REMOVE_HEAD h)"
| "STAILQ_op h (RemoveAfter x) = Some (STAILQ_REMOVE_AFTER h x)"
| "STAILQ_op h (Remove x) = Some (STAILQ_REMOVE h x)"
| "STAILQ_op h _ = None"

fun LIST_op :: "ptr \<Rightarrow> queue_op \<Rightarrow> (qheap \<Rightarrow> qheap option) option" where
  "LIST_op h (InsertHead e) = Some (LIST_INSERT_HEAD h e)"
| "LIST_op h (InsertAfter x e) = Some (LIST_INSERT_AFTER x e)"
| "LIST_op h (InsertBefore x e) = Some (LIST_INSERT_BEFORE x e)"
| "LIST_op h (Remove x) = Some (LIST_REMOVE x)"
| "LIST_op h _ = None"

fun TAILQ_op :: "ptr \<Rightarrow> queue_op \<Rightarrow> (qheap \<Rightarrow> qheap option) option" where
  "TAILQ_op h (InsertHead e) = Some (TAILQ_INSERT_HEAD h e)"
| "TAILQ_op h (InsertTail e) = Some (TAILQ_INSERT_TAIL h e)"
| "TAILQ_op h (InsertAfter x e) = Some (TAILQ_INSERT_AFTER h x e)"
| "TAILQ_op h (InsertBefore x e) = Some (TAILQ_INSERT_BEFORE x e)"
| "TAILQ_op h (Remove x) = Some (TAILQ_REMOVE h x)"
| "TAILQ_op h _ = None"

text \<open>A sequence on queue \<open>h\<close>; an operation the queue does not have stops it.\<close>

definition run_queue :: "(ptr \<Rightarrow> queue_op \<Rightarrow> (qheap \<Rightarrow> qheap option) option) \<Rightarrow> ptr \<Rightarrow> queue_op list \<Rightarrow> qheap \<Rightarrow> qheap option" where
  "run_queue impl h = run_ops (\<lambda>p H. case impl h p of None \<Rightarrow> None | Some f \<Rightarrow> f H)"

lemma list_ops_split [simp]:
  "x \<notin> set as \<Longrightarrow> insert_after x e (as @ x # bs) = as @ x # e # bs"
  "x \<notin> set as \<Longrightarrow> insert_before x e (as @ x # bs) = as @ e # x # bs"
  by (induction as) auto

lemma remove_after_Some:
  "remove_after x xs = Some ys \<Longrightarrow> \<exists>as y bs. xs = as @ x # y # bs \<and> ys = as @ x # bs"
proof (induction x xs arbitrary: ys rule: remove_after.induct)
  case (1 x a b as)
  show ?case
  proof (cases "a = x")
    case True
    with 1 show ?thesis by (intro exI [of _ "[]"]) auto
  next
    case False
    with 1 obtain zs where "remove_after x (b # as) = Some zs" "ys = a # zs" by auto
    with 1(1) [OF False] obtain us y vs where "b # as = us @ x # y # vs" "zs = us @ x # vs" by blast
    with \<open>ys = a # zs\<close> show ?thesis by (intro exI [of _ "a # us"]) auto
  qed
qed simp_all

lemma list_op_elems: "list_op p xs = Some ys \<Longrightarrow> set ys \<subseteq> set xs \<union> op_elems p"
proof (cases p)
  case (InsertAfter x e)
  assume "list_op p xs = Some ys"
  with InsertAfter obtain as bs where "xs = as @ x # bs" "x \<notin> set as" "ys = insert_after x e xs"
    by (auto split: if_splits dest: split_list_first)
  with InsertAfter show ?thesis by auto
next
  case (InsertBefore x e)
  assume "list_op p xs = Some ys"
  with InsertBefore obtain as bs where "xs = as @ x # bs" "x \<notin> set as" "ys = insert_before x e xs"
    by (auto split: if_splits dest: split_list_first)
  with InsertBefore show ?thesis by auto
next
  case (RemoveAfter x)
  assume "list_op p xs = Some ys"
  with RemoveAfter remove_after_Some [of x xs ys] show ?thesis by auto
qed (auto split: if_splits list.splits dest: set_remove1_subset [THEN subsetD])

lemma yields_mono: "yields rep h es H r ys \<Longrightarrow> es \<subseteq> es' \<Longrightarrow> yields rep h es' H r ys"
  by (fastforce simp: yields_def same_but_def)

lemma yields_seq:
  assumes "yields rep h es H r ys" and "\<And>H'. rep H' h ys \<Longrightarrow> yields rep h es' H' (g H') zs"
  shows "yields rep h (es \<union> es') H (do { H' \<leftarrow> r; g H' }) zs"
proof -
  from assms(1) obtain H1 where 1: "r = Some H1" "rep H1 h ys" "same_but {h} es H H1"
    by (auto simp: yields_def)
  with assms(2) obtain H2 where 2: "g H1 = Some H2" "rep H2 h zs" "same_but {h} es' H1 H2"
    by (auto simp: yields_def)
  have "same_but {h} (es \<union> es') H H2" using 1(3) 2(3) by (simp add: same_but_def)
  with 1 2 show ?thesis by (simp add: yields_def)
qed

text \<open>What a queue promises: its operations act on the represented list, the traversal visits that
  list, and work elsewhere does not disturb it.\<close>

locale linked_queue =
  fixes rep :: "qheap \<Rightarrow> ptr \<Rightarrow> ptr list \<Rightarrow> bool"
    and impl :: "ptr \<Rightarrow> queue_op \<Rightarrow> (qheap \<Rightarrow> qheap option) option"
    and init :: "ptr \<Rightarrow> qheap \<Rightarrow> qheap option"
    and visit :: "qheap \<Rightarrow> ptr \<Rightarrow> ptr list option"
  assumes init_yields: "h \<noteq> NULL \<Longrightarrow> yields rep h {} H (init h H) []"
    and op_yields: "rep H h xs \<Longrightarrow> impl h p = Some f \<Longrightarrow> list_op p xs = Some ys \<Longrightarrow>
          yields rep h (set xs \<union> op_elems p) H (f H) ys"
    and visits: "rep H h xs \<Longrightarrow> visit H h = Some xs"
    and undisturbed: "same_but hs es H H' \<Longrightarrow> h \<notin> hs \<Longrightarrow> set xs \<inter> es = {} \<Longrightarrow> rep H' h xs = rep H h xs"
begin

lemma run_yields:
  "rep H h xs \<Longrightarrow> \<forall>p\<in>set ps. impl h p \<noteq> None \<Longrightarrow> run_ops list_op ps xs = Some ys \<Longrightarrow>
    yields rep h (set xs \<union> \<Union> (op_elems ` set ps)) H (run_queue impl h ps H) ys"
proof (induction ps arbitrary: H xs)
  case Nil
  then show ?case by (simp add: yields_def run_queue_def same_but_refl)
next
  case (Cons p ps)
  from Cons.prems obtain f zs where f: "impl h p = Some f" and zs: "list_op p xs = Some zs"
    and rest: "run_ops list_op ps zs = Some ys" by (auto split: bind_splits)
  have "yields rep h (set zs \<union> \<Union> (op_elems ` set ps)) H' (run_queue impl h ps H') ys"
    if "rep H' h zs" for H' using Cons.IH [OF that _ rest] Cons.prems by auto
  from yields_seq [where g = "run_queue impl h ps", OF op_yields [OF Cons.prems(1) f zs] this]
  have "yields rep h (set xs \<union> op_elems p \<union> (set zs \<union> \<Union> (op_elems ` set ps))) H
      (run_queue impl h (p # ps) H) ys"
    using f by (simp add: run_queue_def)
  then show ?case by (rule yields_mono) (use list_op_elems [OF zs] in auto)
qed

lemma run_from_init:
  assumes "h \<noteq> NULL" and "\<forall>p\<in>set ps. impl h p \<noteq> None" and "run_ops list_op ps [] = Some ys"
  shows "yields rep h (\<Union> (op_elems ` set ps)) H (do { H' \<leftarrow> init h H; run_queue impl h ps H' }) ys"
  using yields_seq [where g = "run_queue impl h ps", OF init_yields [OF assms(1)] run_yields [OF _ assms(2,3)]] by simp

lemma run_refines:
  assumes "rep H h xs" and "\<forall>p\<in>set ps. impl h p \<noteq> None" and "run_ops list_op ps xs = Some ys"
  shows "\<exists>H'. run_queue impl h ps H = Some H' \<and> rep H' h ys \<and> visit H' h = Some ys \<and>
    (\<forall>g zs. g \<noteq> h \<and> set zs \<inter> (set xs \<union> \<Union> (op_elems ` set ps)) = {} \<longrightarrow> rep H' g zs = rep H g zs)"
proof -
  from run_yields [OF assms] obtain H' where H': "run_queue impl h ps H = Some H'" "rep H' h ys"
    and same: "same_but {h} (set xs \<union> \<Union> (op_elems ` set ps)) H H'" by (auto simp: yields_def)
  have "rep H' g zs = rep H g zs"
    if "g \<noteq> h" "set zs \<inter> (set xs \<union> \<Union> (op_elems ` set ps)) = {}" for g zs
    using undisturbed [OF same] that by simp
  with H' visits show ?thesis by blast
qed

end

text \<open>An operation the list accepts finds its element: the list splits there.\<close>

lemma list_op_split:
  assumes "list_op p xs = Some ys"
  obtains (head) e where "p = InsertHead e" "fresh e xs" "ys = e # xs"
    | (tail) e where "p = InsertTail e" "fresh e xs" "ys = xs @ [e]"
    | (after) x e as bs where "p = InsertAfter x e" "fresh e xs" "xs = as @ x # bs" "ys = as @ x # e # bs"
    | (before) x e as bs where "p = InsertBefore x e" "fresh e xs" "xs = as @ x # bs" "ys = as @ e # x # bs"
    | (rm_head) x where "p = RemoveHead" "xs = x # ys"
    | (rm_after) x y as bs where "p = RemoveAfter x" "xs = as @ x # y # bs" "ys = as @ x # bs"
    | (rm) x as bs where "p = Remove x" "xs = as @ x # bs" "ys = as @ bs"
proof (cases p)
  case (InsertAfter x e)
  with assms obtain as bs where "xs = as @ x # bs" "x \<notin> set as"
    by (auto split: if_splits dest: split_list_first)
  with assms InsertAfter after show ?thesis by (auto split: if_splits)
next
  case (InsertBefore x e)
  with assms obtain as bs where "xs = as @ x # bs" "x \<notin> set as"
    by (auto split: if_splits dest: split_list_first)
  with assms InsertBefore before show ?thesis by (auto split: if_splits)
next
  case (RemoveAfter x)
  with assms remove_after_Some [of x xs ys] rm_after show ?thesis by auto
next
  case (Remove x)
  with assms obtain as bs where "xs = as @ x # bs" "x \<notin> set as"
    by (auto split: if_splits dest: split_list_first)
  with assms Remove rm show ?thesis by (auto simp: remove1_append split: if_splits)
qed (use assms head tail rm_head in \<open>auto split: if_splits list.splits\<close>)

lemma SLIST_op_yields:
  assumes "slist H h xs" and "SLIST_op h p = Some f" and "list_op p xs = Some ys"
  shows "yields slist h (set xs \<union> op_elems p) H (f H) ys"
  using assms(3) assms(1,2)
  by (cases rule: list_op_split)
    (auto simp: fresh_def
       intro: SLIST_INSERT_HEAD_yields [THEN yields_mono] SLIST_INSERT_AFTER_yields [THEN yields_mono]
         SLIST_REMOVE_HEAD_yields [THEN yields_mono] SLIST_REMOVE_AFTER_yields [THEN yields_mono]
         SLIST_REMOVE_yields [THEN yields_mono])

lemma STAILQ_op_yields:
  assumes "stailq H h xs" and "STAILQ_op h p = Some f" and "list_op p xs = Some ys"
  shows "yields stailq h (set xs \<union> op_elems p) H (f H) ys"
  using assms(3) assms(1,2)
  by (cases rule: list_op_split)
    (auto simp: fresh_def
       intro: STAILQ_INSERT_HEAD_yields [THEN yields_mono] STAILQ_INSERT_AFTER_yields [THEN yields_mono]
         STAILQ_INSERT_TAIL_yields [THEN yields_mono]
         STAILQ_REMOVE_HEAD_yields [THEN yields_mono] STAILQ_REMOVE_AFTER_yields [THEN yields_mono]
         STAILQ_REMOVE_yields [THEN yields_mono])

lemma LIST_op_yields:
  assumes "llist H h xs" and "LIST_op h p = Some f" and "list_op p xs = Some ys"
  shows "yields llist h (set xs \<union> op_elems p) H (f H) ys"
  using assms(3) assms(1,2)
  by (cases rule: list_op_split)
    (auto simp: fresh_def
       intro: LIST_INSERT_HEAD_yields [THEN yields_mono] LIST_INSERT_AFTER_yields [THEN yields_mono]
         LIST_INSERT_BEFORE_yields [THEN yields_mono] LIST_REMOVE_yields [THEN yields_mono])

lemma TAILQ_op_yields:
  assumes "tailq H h xs" and "TAILQ_op h p = Some f" and "list_op p xs = Some ys"
  shows "yields tailq h (set xs \<union> op_elems p) H (f H) ys"
  using assms(3) assms(1,2)
  by (cases rule: list_op_split)
    (auto simp: fresh_def
       intro: TAILQ_INSERT_HEAD_yields [THEN yields_mono] TAILQ_INSERT_AFTER_yields [THEN yields_mono]
         TAILQ_INSERT_TAIL_yields [THEN yields_mono]
         TAILQ_INSERT_BEFORE_yields [THEN yields_mono] TAILQ_REMOVE_yields [THEN yields_mono])

interpretation slist_queue: linked_queue slist SLIST_op SLIST_INIT SLIST_FOREACH
  by unfold_locales (fact SLIST_INIT_yields SLIST_op_yields slist_FOREACH tailq_frame(1))+

interpretation stailq_queue: linked_queue stailq STAILQ_op STAILQ_INIT STAILQ_FOREACH
  by unfold_locales (fact STAILQ_INIT_yields STAILQ_op_yields stailq_FOREACH tailq_frame(2))+

interpretation list_queue: linked_queue llist LIST_op LIST_INIT LIST_FOREACH
  by unfold_locales (fact LIST_INIT_yields LIST_op_yields llist_FOREACH tailq_frame(3))+

interpretation tailq_queue: linked_queue tailq TAILQ_op TAILQ_INIT TAILQ_FOREACH
  by unfold_locales (fact TAILQ_INIT_yields TAILQ_op_yields tailq_FOREACH tailq_frame(4))+

section \<open>Two queues\<close>

text \<open>\<open>pair_yields\<close>: an operation on two heads returns, with the lists of both and nothing else written.\<close>

definition pair_yields :: "(qheap \<Rightarrow> ptr \<Rightarrow> ptr list \<Rightarrow> bool) \<Rightarrow> ptr \<Rightarrow> ptr \<Rightarrow> ptr set \<Rightarrow> qheap \<Rightarrow> qheap option \<Rightarrow> ptr list \<Rightarrow> ptr list \<Rightarrow> bool" where
  "pair_yields rep h1 h2 es H r ys1 ys2 \<longleftrightarrow>
     (\<exists>H'. r = Some H' \<and> rep H' h1 ys1 \<and> rep H' h2 ys2 \<and> same_but {h1, h2} es H H')"

lemma tail_cell_other: "as \<noteq> [] \<Longrightarrow> tail_cell c as = tail_cell d as"
  by (simp add: tail_cell_def)

lemma STAILQ_CONCAT_yields:
  assumes "stailq H h1 xs" and "stailq H h2 ys" and "h1 \<noteq> h2" and "set xs \<inter> set ys = {}"
  shows "pair_yields stailq h1 h2 (set xs) H (STAILQ_CONCAT h1 h2 H) (xs @ ys) []"
  using assms slist_distinct [OF stailq_slist [OF assms(1)]] slist_distinct [OF stailq_slist [OF assms(2)]]
  by (cases xs rule: rev_cases; cases ys)
    (auto simp: pair_yields_def refine_defs STAILQ_CONCAT_def STAILQ_EMPTY_def STAILQ_INIT_def)

lemma TAILQ_CONCAT_yields:
  assumes "tailq H h1 xs" and "tailq H h2 ys" and "h1 \<noteq> h2" and "set xs \<inter> set ys = {}"
  shows "pair_yields tailq h1 h2 (set xs \<union> set ys) H (TAILQ_CONCAT h1 h2 H) (xs @ ys) []"
  using assms slist_distinct [OF tailq_slist [OF assms(1)]] slist_distinct [OF tailq_slist [OF assms(2)]]
  by (cases xs rule: rev_cases; cases ys)
    (auto simp: pair_yields_def refine_defs TAILQ_CONCAT_def TAILQ_EMPTY_def TAILQ_INIT_def)

lemma SLIST_SWAP_yields:
  assumes "slist H h1 xs" and "slist H h2 ys"
  shows "pair_yields slist h1 h2 {} H (SLIST_SWAP h1 h2 H) ys xs"
  using assms by (auto simp: pair_yields_def refine_defs SLIST_SWAP_def SLIST_FIRST_def)

lemma STAILQ_SWAP_yields:
  assumes "stailq H h1 xs" and "stailq H h2 ys" and "h1 \<noteq> h2"
  shows "pair_yields stailq h1 h2 {} H (STAILQ_SWAP h1 h2 H) ys xs"
  using assms
  by (cases xs; cases ys)
    (auto simp: pair_yields_def refine_defs STAILQ_SWAP_def STAILQ_FIRST_def STAILQ_EMPTY_def)

lemma LIST_SWAP_yields:
  assumes "llist H h1 xs" and "llist H h2 ys" and "h1 \<noteq> h2" and "set xs \<inter> set ys = {}"
  shows "pair_yields llist h1 h2 (set xs \<union> set ys) H (LIST_SWAP h1 h2 H) ys xs"
  using assms slist_distinct [OF llist_slist [OF assms(1)]] slist_distinct [OF llist_slist [OF assms(2)]]
  by (cases xs; cases ys) (auto simp: pair_yields_def refine_defs LIST_SWAP_def LIST_FIRST_def)

lemma TAILQ_SWAP_yields:
  assumes "tailq H h1 xs" and "tailq H h2 ys" and "h1 \<noteq> h2" and "set xs \<inter> set ys = {}"
  shows "pair_yields tailq h1 h2 (set xs \<union> set ys) H (TAILQ_SWAP h1 h2 H) ys xs"
  using assms slist_distinct [OF tailq_slist [OF assms(1)]] slist_distinct [OF tailq_slist [OF assms(2)]]
  by (cases xs; cases ys) (auto simp: pair_yields_def refine_defs TAILQ_SWAP_def)

section \<open>Properties\<close>

text \<open>C6 Tail queues refine lists: from a queue that represents \<open>xs\<close>, any sequence of \<open>INSERT_HEAD\<close>,
  \<open>INSERT_TAIL\<close>, \<open>INSERT_AFTER\<close>, \<open>INSERT_BEFORE\<close> and \<open>REMOVE\<close> that makes sense on the list runs without a
  fault, leaves a well-formed queue of the list the operations yield, visited by \<open>TAILQ_FOREACH\<close>
  forwards and by \<open>TAILQ_FOREACH_REVERSE\<close> backwards, and disturbs no queue on other elements.\<close>

theorem TAILQ_refines_list:
  assumes "tailq H h xs" and "\<forall>p\<in>set ps. TAILQ_op h p \<noteq> None" and "run_ops list_op ps xs = Some ys"
  shows "\<exists>H'. run_queue TAILQ_op h ps H = Some H' \<and> tailq H' h ys \<and>
    TAILQ_FOREACH H' h = Some ys \<and> TAILQ_FOREACH_REVERSE H' h = Some (rev ys) \<and>
    (\<forall>g zs. g \<noteq> h \<and> set zs \<inter> (set xs \<union> \<Union> (op_elems ` set ps)) = {} \<longrightarrow> tailq H' g zs = tailq H g zs)"
  using tailq_queue.run_refines [OF assms] tailq_FOREACH_REVERSE by blast

text \<open>Singly-linked tail queues refine lists: any sensible sequence of \<open>INSERT_HEAD\<close>, \<open>INSERT_TAIL\<close>,
  \<open>INSERT_AFTER\<close>, \<open>REMOVE_HEAD\<close>, \<open>REMOVE_AFTER\<close> and \<open>REMOVE\<close> runs without a fault and its search
  terminates; the queue then represents the resulting list, with \<open>STAILQ_LAST\<close> its last element.\<close>

lemma STAILQ_refines_list:
  assumes "stailq H h xs" and "\<forall>p\<in>set ps. STAILQ_op h p \<noteq> None" and "run_ops list_op ps xs = Some ys"
  shows "\<exists>H'. run_queue STAILQ_op h ps H = Some H' \<and> stailq H' h ys \<and>
    STAILQ_FOREACH H' h = Some ys \<and> STAILQ_LAST H' h = Some (if ys = [] then NULL else last ys) \<and>
    (\<forall>g zs. g \<noteq> h \<and> set zs \<inter> (set xs \<union> \<Union> (op_elems ` set ps)) = {} \<longrightarrow> stailq H' g zs = stailq H g zs)"
  using stailq_queue.run_refines [OF assms] stailq_LAST by blast

text \<open>Lists and singly-linked lists refine lists: from freshly initialised heads any sensible
  sequence of the operations each has runs without a fault and leaves the list it yields.\<close>

lemma LIST_SLIST_refine_list:
  assumes "h \<noteq> NULL" and "run_ops list_op ps [] = Some ys"
  shows "((\<forall>p\<in>set ps. LIST_op h p \<noteq> None) \<longrightarrow>
      (\<exists>H'. (do { H \<leftarrow> LIST_INIT h H; run_queue LIST_op h ps H }) = Some H' \<and> llist H' h ys \<and>
        LIST_FOREACH H' h = Some ys)) \<and>
    ((\<forall>p\<in>set ps. SLIST_op h p \<noteq> None) \<longrightarrow>
      (\<exists>H'. (do { H \<leftarrow> SLIST_INIT h H; run_queue SLIST_op h ps H }) = Some H' \<and> slist H' h ys \<and>
        SLIST_FOREACH H' h = Some ys))"
  using list_queue.run_from_init [OF assms(1) _ assms(2), of H]
    slist_queue.run_from_init [OF assms(1) _ assms(2), of H] llist_FOREACH slist_FOREACH
  unfolding yields_def by blast

text \<open>\<open>TAILQ_CONCAT\<close> appends the second queue to the first and empties the second; \<open>TAILQ_SWAP\<close>
  exchanges them, back links and tail pointers included, also when one is empty.\<close>

lemma TAILQ_CONCAT_SWAP:
  assumes "tailq H h1 xs" and "tailq H h2 ys" and "h1 \<noteq> h2" and "set xs \<inter> set ys = {}"
  shows "(\<exists>H'. TAILQ_CONCAT h1 h2 H = Some H' \<and> tailq H' h1 (xs @ ys) \<and> tailq H' h2 [] \<and>
      same_but {h1, h2} (set xs \<union> set ys) H H') \<and>
    (\<exists>H'. TAILQ_SWAP h1 h2 H = Some H' \<and> tailq H' h1 ys \<and> tailq H' h2 xs \<and>
      same_but {h1, h2} (set xs \<union> set ys) H H')"
  using TAILQ_CONCAT_yields [OF assms] TAILQ_SWAP_yields [OF assms] unfolding pair_yields_def by blast

section \<open>Witnesses\<close>

text \<open>Two initialised heads, the second with the elements 8 and 9.\<close>

definition sample_queues :: qheap where
  "sample_queues =
     \<lparr>q_first = (\<lambda>_. NULL)(0x20 := 8), q_last = FirstOf(0x20 := NextOf 9),
      q_next = (\<lambda>_. NULL)(8 := 9), q_prev = (\<lambda>_. FirstOf 0x20)(9 := NextOf 8)\<rparr>"

definition sample_ops :: "queue_op list" where
  "sample_ops = [InsertHead 1, InsertTail 2, InsertAfter 1 3, Remove 1]"

lemmas sample_queue_simps = sample_queues_def sample_ops_def rep_defs fresh_def

theorem TAILQ_refines_list_witness:
  "\<exists>H'. run_queue TAILQ_op 0x10 sample_ops sample_queues = Some H' \<and>
    TAILQ_FOREACH H' 0x10 = Some [3, 2] \<and> TAILQ_FOREACH_REVERSE H' 0x10 = Some [2, 3] \<and>
    tailq H' 0x20 [8, 9]"
proof -
  have "\<exists>H'. run_queue TAILQ_op 0x10 sample_ops sample_queues = Some H' \<and> tailq H' 0x10 [3, 2] \<and>
      TAILQ_FOREACH H' 0x10 = Some [3, 2] \<and> TAILQ_FOREACH_REVERSE H' 0x10 = Some (rev [3, 2]) \<and>
      (\<forall>g zs. g \<noteq> 0x10 \<and> set zs \<inter> (set [] \<union> \<Union> (op_elems ` set sample_ops)) = {} \<longrightarrow>
         tailq H' g zs = tailq sample_queues g zs)"
    by (rule TAILQ_refines_list) (simp_all add: sample_queue_simps)
  then obtain H' where H': "run_queue TAILQ_op 0x10 sample_ops sample_queues = Some H'"
      "TAILQ_FOREACH H' 0x10 = Some [3, 2]" "TAILQ_FOREACH_REVERSE H' 0x10 = Some (rev [3, 2])"
    and others: "\<And>g zs. g \<noteq> 0x10 \<Longrightarrow> set zs \<inter> (set [] \<union> \<Union> (op_elems ` set sample_ops)) = {} \<Longrightarrow>
         tailq H' g zs = tailq sample_queues g zs" by blast
  have "tailq H' 0x20 [8, 9] = tailq sample_queues 0x20 [8, 9]"
    by (rule others) (simp_all add: sample_ops_def)
  also have "tailq sample_queues 0x20 [8, 9]" by (simp add: sample_queue_simps)
  finally show ?thesis using H' by auto
qed

lemma STAILQ_refines_list_witness:
  "\<exists>H'. run_queue STAILQ_op 0x10 sample_ops sample_queues = Some H' \<and>
    STAILQ_FOREACH H' 0x10 = Some [3, 2] \<and> STAILQ_LAST H' 0x10 = Some 2"
  using STAILQ_refines_list [where H = sample_queues and h = "0x10" and xs = "[]" and ps = sample_ops and ys = "[3, 2]"]
  by (auto simp: sample_queue_simps)

lemma LIST_SLIST_refine_list_witness:
  "(\<exists>H'. (do { H \<leftarrow> LIST_INIT 0x10 sample_queues; run_queue LIST_op 0x10 [InsertHead 1, InsertAfter 1 2, Remove 1] H }) = Some H' \<and>
      LIST_FOREACH H' 0x10 = Some [2]) \<and>
   (\<exists>H'. (do { H \<leftarrow> SLIST_INIT 0x10 sample_queues; run_queue SLIST_op 0x10 [InsertHead 1, InsertAfter 1 2, Remove 1] H }) = Some H' \<and>
      SLIST_FOREACH H' 0x10 = Some [2])"
  using LIST_SLIST_refine_list [where h = "0x10" and ps = "[InsertHead 1, InsertAfter 1 2, Remove 1]" and ys = "[2]"
      and H = sample_queues]
  by (auto simp: sample_queue_simps)

lemma TAILQ_CONCAT_SWAP_witness:
  "(\<exists>H'. TAILQ_CONCAT 0x10 0x20 sample_queues = Some H' \<and> tailq H' 0x10 [8, 9] \<and> tailq H' 0x20 []) \<and>
   (\<exists>H'. TAILQ_SWAP 0x10 0x20 sample_queues = Some H' \<and> tailq H' 0x10 [8, 9] \<and> tailq H' 0x20 [])"
proof -
  have "tailq sample_queues 0x10 []" "tailq sample_queues 0x20 [8, 9]"
    by (simp_all add: sample_queue_simps)
  from TAILQ_CONCAT_SWAP [OF this] show ?thesis by auto
qed

end
