(* ===== verification/Sys_Queue_Loops.thy ===== *)
theory Sys_Queue_Loops
  imports Sys_Queue
begin

text \<open>
  The loops of \<open>include/sys/queue.h\<close> whose body may change the queue (\<open>FOREACH_SAFE\<close>,
  \<open>FOREACH_REVERSE_SAFE\<close>), the traversal by previous pointers (\<open>SLIST_FOREACH_PREVPTR\<close>), the
  static initialisers of the heads and the
  consistency checks of the \<open>INVARIANTS\<close> kernels (\<open>QMD_LIST_CHECK_*\<close>, \<open>QMD_TAILQ_CHECK_*\<close>).

  A loop runs a body on a state of the heap and what the body keeps beside it.  The body may take
  the current element out of its queue and give its memory away, so that its links hold anything afterwards, since the
  successor was read before it ran: one locale
  states what the loop needs of a queue, and the five loops interpret it.  The checks of a list
  hold exactly when the list is well formed.
\<close>

section \<open>The loops\<close>

type_synonym 'a loop_state = "qheap \<times> 'a"

text \<open>\<open>for (var = FIRST; var && (tvar = NEXT(var), 1); var = tvar) body\<close>, from the value of \<open>var\<close>.\<close>

partial_function (option) foreach_safe ::
  "(qheap \<Rightarrow> ptr \<Rightarrow> ptr option) \<Rightarrow> (ptr \<Rightarrow> 'a loop_state \<Rightarrow> 'a loop_state option) \<Rightarrow>
   ptr \<Rightarrow> 'a loop_state \<Rightarrow> 'a loop_state option" where
  "foreach_safe nxt body var s =
     (if var = NULL then Some s else do {
        tvar \<leftarrow> nxt (fst s) var;
        s \<leftarrow> body var s;
        foreach_safe nxt body tvar s })"

definition SLIST_FOREACH_SAFE :: "ptr \<Rightarrow> (ptr \<Rightarrow> 'a loop_state \<Rightarrow> 'a loop_state option) \<Rightarrow> 'a loop_state \<Rightarrow> 'a loop_state option" where
  "SLIST_FOREACH_SAFE head body s = do { var \<leftarrow> SLIST_FIRST (fst s) head; foreach_safe SLIST_NEXT body var s }"

definition STAILQ_FOREACH_SAFE :: "ptr \<Rightarrow> (ptr \<Rightarrow> 'a loop_state \<Rightarrow> 'a loop_state option) \<Rightarrow> 'a loop_state \<Rightarrow> 'a loop_state option" where
  "STAILQ_FOREACH_SAFE head body s = do { var \<leftarrow> STAILQ_FIRST (fst s) head; foreach_safe STAILQ_NEXT body var s }"

definition LIST_FOREACH_SAFE :: "ptr \<Rightarrow> (ptr \<Rightarrow> 'a loop_state \<Rightarrow> 'a loop_state option) \<Rightarrow> 'a loop_state \<Rightarrow> 'a loop_state option" where
  "LIST_FOREACH_SAFE head body s = do { var \<leftarrow> LIST_FIRST (fst s) head; foreach_safe LIST_NEXT body var s }"

definition TAILQ_FOREACH_SAFE :: "ptr \<Rightarrow> (ptr \<Rightarrow> 'a loop_state \<Rightarrow> 'a loop_state option) \<Rightarrow> 'a loop_state \<Rightarrow> 'a loop_state option" where
  "TAILQ_FOREACH_SAFE head body s = do { var \<leftarrow> TAILQ_FIRST (fst s) head; foreach_safe TAILQ_NEXT body var s }"

definition TAILQ_FOREACH_REVERSE_SAFE :: "ptr \<Rightarrow> (ptr \<Rightarrow> 'a loop_state \<Rightarrow> 'a loop_state option) \<Rightarrow> 'a loop_state \<Rightarrow> 'a loop_state option" where
  "TAILQ_FOREACH_REVERSE_SAFE head body s = do { var \<leftarrow> TAILQ_LAST (fst s) head; foreach_safe TAILQ_PREV body var s }"

text \<open>The loop over the cells that point at the elements, as the pairs \<open>(var, varp)\<close> it visits.\<close>

partial_function (option) foreach_prevptr :: "qheap \<Rightarrow> cell \<Rightarrow> (ptr \<times> cell) list option" where
  "foreach_prevptr H varp = do {
     var \<leftarrow> rd_cell H varp;
     if var \<noteq> NULL then do {
       vs \<leftarrow> foreach_prevptr H (NextOf var);
       Some ((var, varp) # vs) }
     else Some [] }"

definition SLIST_FOREACH_PREVPTR :: "qheap \<Rightarrow> ptr \<Rightarrow> (ptr \<times> cell) list option" where
  "SLIST_FOREACH_PREVPTR H head = foreach_prevptr H (FirstOf head)"

section \<open>Static initialisers\<close>

text \<open>The fields of a head that is initialised where it is declared.\<close>

definition SLIST_HEAD_INITIALIZER :: "ptr \<Rightarrow> ptr" where
  "SLIST_HEAD_INITIALIZER head = NULL"

definition STAILQ_HEAD_INITIALIZER :: "ptr \<Rightarrow> ptr \<times> cell" where
  "STAILQ_HEAD_INITIALIZER head = (NULL, FirstOf head)"

definition LIST_HEAD_INITIALIZER :: "ptr \<Rightarrow> ptr" where
  "LIST_HEAD_INITIALIZER head = NULL"

definition TAILQ_HEAD_INITIALIZER :: "ptr \<Rightarrow> ptr \<times> cell" where
  "TAILQ_HEAD_INITIALIZER head = (NULL, FirstOf head)"

section \<open>The consistency checks\<close>

text \<open>\<open>Some True\<close>: the check passes; \<open>Some False\<close>: it panics; \<open>None\<close>: it faults.\<close>

definition QMD_LIST_CHECK_HEAD :: "qheap \<Rightarrow> ptr \<Rightarrow> bool option" where
  "QMD_LIST_CHECK_HEAD H head = do {
     f \<leftarrow> LIST_FIRST H head;
     if f \<noteq> NULL then do { p \<leftarrow> rd_prev H f; Some (p = FirstOf head) } else Some True }"

definition QMD_LIST_CHECK_NEXT :: "qheap \<Rightarrow> ptr \<Rightarrow> bool option" where
  "QMD_LIST_CHECK_NEXT H elm = do {
     n \<leftarrow> LIST_NEXT H elm;
     if n \<noteq> NULL then do { p \<leftarrow> rd_prev H n; Some (p = NextOf elm) } else Some True }"

definition QMD_LIST_CHECK_PREV :: "qheap \<Rightarrow> ptr \<Rightarrow> bool option" where
  "QMD_LIST_CHECK_PREV H elm = do { p \<leftarrow> rd_prev H elm; v \<leftarrow> rd_cell H p; Some (v = elm) }"

definition QMD_TAILQ_CHECK_HEAD :: "qheap \<Rightarrow> ptr \<Rightarrow> bool option" where
  "QMD_TAILQ_CHECK_HEAD H head = do {
     e \<leftarrow> TAILQ_EMPTY H head;
     if \<not> e then do { f \<leftarrow> TAILQ_FIRST H head; p \<leftarrow> rd_prev H f; Some (p = FirstOf head) } else Some True }"

definition QMD_TAILQ_CHECK_TAIL :: "qheap \<Rightarrow> ptr \<Rightarrow> bool option" where
  "QMD_TAILQ_CHECK_TAIL H head = do { l \<leftarrow> rd_last H head; v \<leftarrow> rd_cell H l; Some (v = NULL) }"

definition QMD_TAILQ_CHECK_NEXT :: "qheap \<Rightarrow> ptr \<Rightarrow> bool option" where
  "QMD_TAILQ_CHECK_NEXT H elm = do {
     n \<leftarrow> TAILQ_NEXT H elm;
     if n \<noteq> NULL then do { p \<leftarrow> rd_prev H n; Some (p = NextOf elm) } else Some True }"

definition QMD_TAILQ_CHECK_PREV :: "qheap \<Rightarrow> ptr \<Rightarrow> bool option" where
  "QMD_TAILQ_CHECK_PREV H elm = do { p \<leftarrow> rd_prev H elm; v \<leftarrow> rd_cell H p; Some (v = elm) }"

lemmas check_defs = QMD_LIST_CHECK_HEAD_def QMD_LIST_CHECK_NEXT_def QMD_LIST_CHECK_PREV_def
  QMD_TAILQ_CHECK_HEAD_def QMD_TAILQ_CHECK_TAIL_def QMD_TAILQ_CHECK_NEXT_def QMD_TAILQ_CHECK_PREV_def
  LIST_FIRST_def LIST_NEXT_def TAILQ_EMPTY_def TAILQ_FIRST_def TAILQ_NEXT_def

text \<open>A head that holds its initialiser is an empty queue, and \<open>INIT\<close> stores the same.\<close>

lemma HEAD_INITIALIZER_empty:
  assumes "h \<noteq> NULL"
  shows "q_first H h = SLIST_HEAD_INITIALIZER h \<longleftrightarrow> slist H h []"
    and "q_first H h = LIST_HEAD_INITIALIZER h \<longleftrightarrow> llist H h []"
    and "(q_first H h, q_last H h) = STAILQ_HEAD_INITIALIZER h \<longleftrightarrow> stailq H h []"
    and "(q_first H h, q_last H h) = TAILQ_HEAD_INITIALIZER h \<longleftrightarrow> tailq H h []"
    and "TAILQ_INIT h H = (case TAILQ_HEAD_INITIALIZER h of (f, l) \<Rightarrow> do { H \<leftarrow> wr_first h f H; wr_last h l H })"
    and "STAILQ_INIT h H = (case STAILQ_HEAD_INITIALIZER h of (f, l) \<Rightarrow> do { H \<leftarrow> wr_first h f H; wr_last h l H })"
  using assms
  by (auto simp: rep_defs SLIST_HEAD_INITIALIZER_def LIST_HEAD_INITIALIZER_def STAILQ_HEAD_INITIALIZER_def
      TAILQ_HEAD_INITIALIZER_def TAILQ_INIT_def STAILQ_INIT_def)

section \<open>Loops that remove elements\<close>

text \<open>The body: record the element and, when it is unwanted, take it out and free it.  Whoever gets the memory
  of a freed element may write anything to where its links were (\<open>junk\<close>).\<close>

definition freed_links :: "(ptr \<Rightarrow> ptr \<times> cell) \<Rightarrow> ptr \<Rightarrow> qheap \<Rightarrow> qheap" where
  "freed_links junk v H = H\<lparr>q_next := (q_next H)(v := fst (junk v)), q_prev := (q_prev H)(v := snd (junk v))\<rparr>"

definition sweep :: "(ptr \<Rightarrow> qheap \<Rightarrow> qheap option) \<Rightarrow> (ptr \<Rightarrow> ptr \<times> cell) \<Rightarrow> (ptr \<Rightarrow> bool) \<Rightarrow> ptr \<Rightarrow>
    ptr list loop_state \<Rightarrow> ptr list loop_state option" where
  "sweep remove junk unwanted v = (\<lambda>(H, vs). do {
     H \<leftarrow> (if unwanted v then do { H \<leftarrow> remove v H; Some (freed_links junk v H) } else Some H);
     Some (H, vs @ [v]) })"

lemma freed_links_same: "same_but {} {v} H (freed_links junk v H)"
  by (simp add: same_but_def freed_links_def)

definition hd_or_NULL :: "ptr list \<Rightarrow> ptr" where
  "hd_or_NULL xs = (case xs of [] \<Rightarrow> NULL | x # _ \<Rightarrow> x)"

lemma hd_or_NULL_simps [simp]: "hd_or_NULL [] = NULL" "hd_or_NULL (x # xs) = x"
  by (simp_all add: hd_or_NULL_def)

lemma hd_or_NULL_rev: "hd_or_NULL (rev xs) = (if xs = [] then NULL else last xs)"
  by (cases xs rule: rev_cases) auto

locale removal_loop =
  fixes rep :: "qheap \<Rightarrow> ptr \<Rightarrow> ptr list \<Rightarrow> bool"
    and first :: "qheap \<Rightarrow> ptr \<Rightarrow> ptr option"
    and nxt :: "qheap \<Rightarrow> ptr \<Rightarrow> ptr option"
    and remove :: "ptr \<Rightarrow> ptr \<Rightarrow> qheap \<Rightarrow> qheap option"
  assumes first_reads: "rep H h xs \<Longrightarrow> first H h = Some (hd_or_NULL xs)"
    and nxt_reads: "rep H h (as @ x # bs) \<Longrightarrow> nxt H x = Some (hd_or_NULL bs)"
    and elements: "rep H h xs \<Longrightarrow> NULL \<notin> set xs \<and> distinct xs"
    and undisturbed: "same_but {} es H H' \<Longrightarrow> set xs \<inter> es = {} \<Longrightarrow> rep H' h xs = rep H h xs"
    and remove_yields: "rep H h (as @ x # bs) \<Longrightarrow> yields rep h (set (as @ x # bs)) H (remove h x H) (as @ bs)"
begin

lemma sweep_step:
  assumes "rep H h (as @ x # bs)"
  obtains H' where "sweep (remove h) junk P x (H, vs) = Some (H', vs @ [x])"
    and "rep H' h (as @ filter (\<lambda>v. \<not> P v) [x] @ bs)" and "same_but {h} (set (as @ x # bs)) H H'"
proof (cases "P x")
  case True
  from remove_yields [OF assms] obtain H' where "remove h x H = Some H'" "rep H' h (as @ bs)"
    "same_but {h} (set (as @ x # bs)) H H'" by (auto simp: yields_def)
  moreover have "set (as @ bs) \<inter> {x} = {}" using elements [OF assms] by auto
  with \<open>rep H' h (as @ bs)\<close> have "rep (freed_links junk x H') h (as @ bs)"
    using undisturbed [OF freed_links_same] by blast
  moreover have "same_but {h} (set (as @ x # bs)) H (freed_links junk x H')"
    using \<open>same_but {h} (set (as @ x # bs)) H H'\<close> freed_links_same [of x H' junk] by (auto simp: same_but_def)
  ultimately show ?thesis using True that [of "freed_links junk x H'"] by (simp add: sweep_def)
next
  case False
  with assms that show ?thesis by (simp add: sweep_def same_but_refl)
qed

lemma sweep_from:
  "rep H h (as @ bs) \<Longrightarrow>
    \<exists>H'. foreach_safe nxt (sweep (remove h) junk P) (hd_or_NULL bs) (H, vs) = Some (H', vs @ bs) \<and>
      rep H' h (as @ filter (\<lambda>v. \<not> P v) bs) \<and> same_but {h} (set (as @ bs)) H H'"
proof (induction bs arbitrary: as H vs)
  case Nil
  then show ?case by (simp add: foreach_safe.simps same_but_refl)
next
  case (Cons x bs)
  let ?as = "as @ filter (\<lambda>v. \<not> P v) [x]"
  from elements [OF Cons.prems] have "x \<noteq> NULL" by auto
  obtain H1 where H1: "sweep (remove h) junk P x (H, vs) = Some (H1, vs @ [x])" "rep H1 h (?as @ bs)"
    "same_but {h} (set (as @ x # bs)) H H1"
    using sweep_step [OF Cons.prems] by (metis append.assoc)
  from Cons.IH [OF H1(2), of "vs @ [x]"] obtain H2 where
    H2: "foreach_safe nxt (sweep (remove h) junk P) (hd_or_NULL bs) (H1, vs @ [x]) = Some (H2, vs @ x # bs)"
      "rep H2 h (?as @ filter (\<lambda>v. \<not> P v) bs)" "same_but {h} (set (?as @ bs)) H1 H2" by auto
  have "same_but {h} (set (as @ x # bs)) H H2"
    using H1(3) H2(3) by (auto simp: same_but_def split: if_splits)
  with H1(1) H2 \<open>x \<noteq> NULL\<close> nxt_reads [OF Cons.prems] show ?case
    by (subst foreach_safe.simps) (auto split: if_splits)
qed

lemma sweep_all:
  assumes "rep H h xs"
  shows "\<exists>H'. do { var \<leftarrow> first H h; foreach_safe nxt (sweep (remove h) junk P) var (H, []) } = Some (H', xs) \<and>
    rep H' h (filter (\<lambda>v. \<not> P v) xs) \<and> same_but {h} (set xs) H H'"
  using sweep_from [of H h "[]" xs junk P "[]"] first_reads [OF assms] assms by simp

end

lemma slist_NEXT: "slist H h (as @ x # bs) \<Longrightarrow> rd_next H x = Some (hd_or_NULL bs)"
  by (cases bs) (auto simp: slist_def rd_next_def)

lemma slist_FIRST: "slist H h xs \<Longrightarrow> rd_first H h = Some (hd_or_NULL xs)"
  by (simp add: slist_observers hd_or_NULL_def)

lemmas forward_reads = slist_FIRST slist_NEXT SLIST_FIRST_def SLIST_NEXT_def STAILQ_FIRST_def STAILQ_NEXT_def
  LIST_FIRST_def LIST_NEXT_def TAILQ_FIRST_def TAILQ_NEXT_def slist_distinct

lemmas removal_frame = tailq_frame [where hs = "{}", simplified]

interpretation slist_loop: removal_loop slist SLIST_FIRST SLIST_NEXT SLIST_REMOVE
  by unfold_locales (auto simp: forward_reads removal_frame intro: SLIST_REMOVE_yields [THEN yields_mono])

interpretation stailq_loop: removal_loop stailq STAILQ_FIRST STAILQ_NEXT STAILQ_REMOVE
  by unfold_locales (auto simp: forward_reads removal_frame dest: stailq_slist intro: STAILQ_REMOVE_yields [THEN yields_mono])

interpretation list_loop: removal_loop llist LIST_FIRST LIST_NEXT "\<lambda>_. LIST_REMOVE"
  by unfold_locales (auto simp: forward_reads removal_frame dest: llist_slist intro: LIST_REMOVE_yields [THEN yields_mono])

interpretation tailq_loop: removal_loop tailq TAILQ_FIRST TAILQ_NEXT TAILQ_REMOVE
  by unfold_locales (auto simp: forward_reads removal_frame dest: tailq_slist intro: TAILQ_REMOVE_yields [THEN yields_mono])

text \<open>The reverse loop: the queue read from its end.\<close>

lemma TAILQ_REMOVE_yields_rev:
  assumes "tailq H h (rev (as @ x # bs))"
  shows "yields (\<lambda>H h xs. tailq H h (rev xs)) h (set (as @ x # bs)) H (TAILQ_REMOVE h x H) (as @ bs)"
  using TAILQ_REMOVE_yields [of H h "rev bs" x "rev as"] assms by (simp add: yields_def Un_commute)

interpretation reverse_loop: removal_loop "\<lambda>H h xs. tailq H h (rev xs)" TAILQ_LAST TAILQ_PREV TAILQ_REMOVE
proof unfold_locales
  fix H h xs assume t: "tailq H h (rev xs)"
  from tailq_LAST [OF t] hd_or_NULL_rev [of "rev xs"] show "TAILQ_LAST H h = Some (hd_or_NULL xs)" by simp
  from slist_distinct [OF tailq_slist [OF t]] show "NULL \<notin> set xs \<and> distinct xs" by simp
next
  fix es H H' xs h assume "same_but {} es H H'" "set xs \<inter> es = {}"
  then show "tailq H' h (rev xs) = tailq H h (rev xs)" by (intro removal_frame) simp_all
next
  fix H h as x bs assume t: "tailq H h (rev (as @ x # bs))"
  with tailq_PREV [of H h "rev bs" x "rev as"] hd_or_NULL_rev [of "rev bs"]
  show "TAILQ_PREV H x = Some (hd_or_NULL bs)" by simp
  from t show "yields (\<lambda>H h xs. tailq H h (rev xs)) h (set (as @ x # bs)) H (TAILQ_REMOVE h x H) (as @ bs)"
    by (rule TAILQ_REMOVE_yields_rev)
qed

section \<open>Traversal by previous pointers and consistency\<close>

text \<open>The elements of a list that starts behind \<open>c\<close>, each with the cell that points at it.\<close>

fun cells :: "cell \<Rightarrow> ptr list \<Rightarrow> (ptr \<times> cell) list" where
  "cells c [] = []"
| "cells c (a # as) = (a, c) # cells (NextOf a) as"

lemma cells_append [simp]: "cells c (as @ bs) = cells c as @ cells (tail_cell c as) bs"
  by (induction as arbitrary: c) auto

lemma cells_elem: "(x, d) \<in> set (cells c as) \<Longrightarrow> x \<in> set as"
  by (induction as arbitrary: c) auto

lemma foreach_prevptr_chain:
  "rd_cell H c = Some x \<Longrightarrow> chain (q_next H) x xs NULL \<Longrightarrow> foreach_prevptr H c = Some (cells c xs)"
proof (induction xs arbitrary: c x)
  case Nil
  then show ?case by (simp add: foreach_prevptr.simps)
next
  case (Cons a xs)
  then have "foreach_prevptr H (NextOf a) = Some (cells (NextOf a) xs)"
    by (intro Cons.IH [of _ "q_next H a"]) (auto simp: rd_next_def)
  with Cons.prems show ?case by (subst foreach_prevptr.simps) simp
qed

lemma SLIST_FOREACH_PREVPTR_cells:
  "slist H h xs \<Longrightarrow> SLIST_FOREACH_PREVPTR H h = Some (cells (FirstOf h) xs)"
  using foreach_prevptr_chain [of H "FirstOf h" "q_first H h" xs]
  by (simp add: SLIST_FOREACH_PREVPTR_def slist_def rd_first_def)

text \<open>Writing \<open>NEXT(var)\<close> through \<open>varp\<close> removes the element without a search.\<close>

lemma PREVPTR_removes:
  assumes "slist H h (as @ x # bs)" and "SLIST_FOREACH_PREVPTR H h = Some ps" and "(x, varp) \<in> set ps"
  shows "yields slist h (set as) H (do { n \<leftarrow> SLIST_NEXT H x; wr_cell varp n H }) (as @ bs)"
proof -
  note d = slist_distinct [OF assms(1)]
  with assms SLIST_FOREACH_PREVPTR_cells [OF assms(1)] have "varp = tail_cell (FirstOf h) as"
    by (auto dest: cells_elem)
  with assms(1) d show ?thesis
    by (cases as rule: rev_cases) (auto simp: refine_defs SLIST_NEXT_def)
qed

lemma CHECK_NEXT_iff:
  "a \<noteq> NULL \<Longrightarrow> QMD_LIST_CHECK_NEXT H a = Some True \<longleftrightarrow> (q_next H a \<noteq> NULL \<longrightarrow> q_prev H (q_next H a) = NextOf a)"
  by (simp add: QMD_LIST_CHECK_NEXT_def LIST_NEXT_def link_defs)

lemma backlinks_iff:
  "chain (q_next H) x xs NULL \<Longrightarrow>
    backlinks (q_prev H) c xs \<longleftrightarrow> (xs \<noteq> [] \<longrightarrow> q_prev H x = c) \<and> (\<forall>e\<in>set xs. QMD_LIST_CHECK_NEXT H e = Some True)"
proof (induction xs arbitrary: x c)
  case (Cons a xs)
  then have c: "chain (q_next H) (q_next H a) xs NULL" and a: "x = a" "a \<noteq> NULL" by auto
  from Cons.IH [OF c, of "NextOf a"] chain_head [OF c] show ?case
    unfolding a(1) by (simp add: CHECK_NEXT_iff [OF a(2)])
qed simp

text \<open>The head check and the checks along a list are exactly its well-formedness.\<close>

lemma QMD_LIST_CHECK_iff:
  assumes "slist H h xs"
  shows "llist H h xs \<longleftrightarrow> QMD_LIST_CHECK_HEAD H h = Some True \<and> (\<forall>e\<in>set xs. QMD_LIST_CHECK_NEXT H e = Some True)"
  using assms backlinks_iff [of H "q_first H h" xs "FirstOf h"] slist_head [OF assms]
  by (auto simp: llist_def slist_def QMD_LIST_CHECK_HEAD_def LIST_FIRST_def link_defs)

lemma LIST_PREV_passes: "llist H h xs \<Longrightarrow> e \<in> set xs \<Longrightarrow> QMD_LIST_CHECK_PREV H e = Some True"
proof -
  assume l: "llist H h xs" and "e \<in> set xs"
  then obtain as bs where xs: "xs = as @ e # bs" by (meson split_list)
  with l tail_cell_read [of H h as e] show ?thesis
    by (auto simp: rep_defs QMD_LIST_CHECK_PREV_def rd_prev_def)
qed

text \<open>On a well-formed tail queue every check of an \<open>INVARIANTS\<close> kernel passes.\<close>

lemma QMD_TAILQ_CHECK_passes:
  assumes "tailq H h xs"
  shows "QMD_TAILQ_CHECK_HEAD H h = Some True" "QMD_TAILQ_CHECK_TAIL H h = Some True"
    and "e \<in> set xs \<Longrightarrow> QMD_TAILQ_CHECK_NEXT H e = Some True \<and> QMD_TAILQ_CHECK_PREV H e = Some True"
proof -
  from assms have l: "llist H h xs" by (simp add: tailq_def)
  then have c: "QMD_LIST_CHECK_HEAD H h = Some True" "\<And>e. e \<in> set xs \<Longrightarrow> QMD_LIST_CHECK_NEXT H e = Some True"
    using QMD_LIST_CHECK_iff [OF llist_slist [OF l]] by auto
  from c(1) show "QMD_TAILQ_CHECK_HEAD H h = Some True" by (auto simp: check_defs link_defs split: if_splits)
  from assms tail_cell_read [of H h xs NULL] show "QMD_TAILQ_CHECK_TAIL H h = Some True"
    by (auto simp: rep_defs QMD_TAILQ_CHECK_TAIL_def rd_last_def)
  from c(2) LIST_PREV_passes [OF l]
  show "e \<in> set xs \<Longrightarrow> QMD_TAILQ_CHECK_NEXT H e = Some True \<and> QMD_TAILQ_CHECK_PREV H e = Some True"
    by (simp add: check_defs)
qed

section \<open>Properties\<close>

text \<open>C23 Loops that remove and free: over a queue of \<open>xs\<close>, a safe loop whose body takes out the unwanted elements and
  frees them, whatever is then written to where their links were, ends without a fault, runs its body once on each
  element in the order of the queue (the reverse
  loop: in reverse order), and leaves a well-formed queue of the wanted elements in their order; other
  heads and elements are untouched.  A loop that read the successor after the body would follow the overwritten link.\<close>

theorem FOREACH_SAFE_sweeps:
  "(tailq H h xs \<longrightarrow>
     (\<exists>H'. TAILQ_FOREACH_SAFE h (sweep (TAILQ_REMOVE h) junk P) (H, []) = Some (H', xs) \<and>
        tailq H' h (filter (\<lambda>v. \<not> P v) xs) \<and> same_but {h} (set xs) H H') \<and>
     (\<exists>H'. TAILQ_FOREACH_REVERSE_SAFE h (sweep (TAILQ_REMOVE h) junk P) (H, []) = Some (H', rev xs) \<and>
        tailq H' h (filter (\<lambda>v. \<not> P v) xs) \<and> same_but {h} (set xs) H H')) \<and>
   (stailq H h xs \<longrightarrow>
     (\<exists>H'. STAILQ_FOREACH_SAFE h (sweep (STAILQ_REMOVE h) junk P) (H, []) = Some (H', xs) \<and>
        stailq H' h (filter (\<lambda>v. \<not> P v) xs) \<and> same_but {h} (set xs) H H')) \<and>
   (llist H h xs \<longrightarrow>
     (\<exists>H'. LIST_FOREACH_SAFE h (sweep LIST_REMOVE junk P) (H, []) = Some (H', xs) \<and>
        llist H' h (filter (\<lambda>v. \<not> P v) xs) \<and> same_but {h} (set xs) H H')) \<and>
   (slist H h xs \<longrightarrow>
     (\<exists>H'. SLIST_FOREACH_SAFE h (sweep (SLIST_REMOVE h) junk P) (H, []) = Some (H', xs) \<and>
        slist H' h (filter (\<lambda>v. \<not> P v) xs) \<and> same_but {h} (set xs) H H'))"
  using tailq_loop.sweep_all [of H h xs junk P] reverse_loop.sweep_all [of H h "rev xs" junk P]
    stailq_loop.sweep_all [of H h xs junk P] list_loop.sweep_all [of H h xs junk P] slist_loop.sweep_all [of H h xs junk P]
  by (simp add: TAILQ_FOREACH_SAFE_def TAILQ_FOREACH_REVERSE_SAFE_def STAILQ_FOREACH_SAFE_def
      LIST_FOREACH_SAFE_def SLIST_FOREACH_SAFE_def rev_filter)

section \<open>Witness\<close>

theorem FOREACH_SAFE_sweeps_witness:
  "(\<exists>H'. TAILQ_FOREACH_SAFE 0x20 (sweep (TAILQ_REMOVE 0x20) (\<lambda>v. (v, NextOf v)) (\<lambda>v. v = 8)) (sample_queues, []) = Some (H', [8, 9]) \<and>
      tailq H' 0x20 [9]) \<and>
   (\<exists>H'. TAILQ_FOREACH_REVERSE_SAFE 0x20 (sweep (TAILQ_REMOVE 0x20) (\<lambda>v. (v, NextOf v)) (\<lambda>v. v = 8)) (sample_queues, []) = Some (H', [9, 8]) \<and>
      tailq H' 0x20 [9]) \<and>
   (\<exists>H'. STAILQ_FOREACH_SAFE 0x20 (sweep (STAILQ_REMOVE 0x20) (\<lambda>v. (v, NextOf v)) (\<lambda>v. v = 8)) (sample_queues, []) = Some (H', [8, 9]) \<and>
      stailq H' 0x20 [9]) \<and>
   (\<exists>H'. LIST_FOREACH_SAFE 0x20 (sweep LIST_REMOVE (\<lambda>v. (v, NextOf v)) (\<lambda>v. v = 8)) (sample_queues, []) = Some (H', [8, 9]) \<and>
      llist H' 0x20 [9]) \<and>
   (\<exists>H'. SLIST_FOREACH_SAFE 0x20 (sweep (SLIST_REMOVE 0x20) (\<lambda>v. (v, NextOf v)) (\<lambda>v. v = 8)) (sample_queues, []) = Some (H', [8, 9]) \<and>
      slist H' 0x20 [9])"
proof -
  have "tailq sample_queues 0x20 [8, 9]" "stailq sample_queues 0x20 [8, 9]" by (simp_all add: sample_queue_simps)
  then show ?thesis
    using FOREACH_SAFE_sweeps [of sample_queues "0x20" "[8, 9]" "\<lambda>v. (v, NextOf v)" "\<lambda>v. v = 8"]
    by (auto simp: tailq_def llist_def)
qed

end
