(* ===== verification/Atomic_Ops.thy ===== *)
theory Atomic_Ops
  imports Ps4_Prelude
begin

unbundle bit_operations_syntax

text \<open>
  The atomic operations of \<open>include/machine/atomic.h\<close> and the reference counts of
  \<open>include/sys/refcount.h\<close>.  Each operation touches one object in memory; it takes the value of
  that object and returns what the call returns together with the new value.  The inline assembly is
  one instruction each: \<open>or\<close>, \<open>and\<close>, \<open>add\<close>, \<open>sub\<close>, \<open>cmpxchg\<close>, \<open>xadd\<close>, \<open>xchg\<close>, whose effect is written out
  below.  The variants with a barrier have the same effect on the object.

  Shown: each operation is the assignment its comment promises, whatever the registers held, and in
  any order of acquisitions and releases by any number of threads exactly the release that
  takes the count to zero is told so.
\<close>

section \<open>Instructions\<close>

text \<open>\<open>cmpxchg\<close> with the accumulator \<open>acc\<close>: the zero flag, the accumulator and the object afterwards.
  \<open>xadd\<close> and \<open>xchg\<close>: the register and the object afterwards.\<close>

definition cmpxchg :: "'a::len word \<Rightarrow> 'a word \<Rightarrow> 'a word \<Rightarrow> bool \<times> 'a word \<times> 'a word" where
  "cmpxchg acc src obj = (if obj = acc then (True, acc, src) else (False, obj, obj))"

definition xadd :: "'a::len word \<Rightarrow> 'a word \<Rightarrow> 'a word \<times> 'a word" where
  "xadd reg obj = (obj, reg + obj)"

definition xchg :: "'a::len word \<Rightarrow> 'a word \<Rightarrow> 'a word \<times> 'a word" where
  "xchg reg obj = (obj, reg)"

section \<open>Read-modify-write operations\<close>

text \<open>\<open>ATOMIC_ASM\<close> with its instruction \<open>OP\<close> (source first) and the operand \<open>V\<close> it passes.\<close>

definition ATOMIC_ASM :: "('a::len word \<Rightarrow> 'a word \<Rightarrow> 'a word) \<Rightarrow> ('a word \<Rightarrow> 'a word) \<Rightarrow> 'a word \<Rightarrow> 'a word \<Rightarrow> 'a word" where
  "ATOMIC_ASM OP V p v = OP (V v) p"

definition atomic_set_char :: "u8 \<Rightarrow> u8 \<Rightarrow> u8" where
  "atomic_set_char = ATOMIC_ASM (\<lambda>s d. d OR s) (\<lambda>v. v)"
definition atomic_clear_char :: "u8 \<Rightarrow> u8 \<Rightarrow> u8" where
  "atomic_clear_char = ATOMIC_ASM (\<lambda>s d. d AND s) (\<lambda>v. NOT v)"
definition atomic_add_char :: "u8 \<Rightarrow> u8 \<Rightarrow> u8" where
  "atomic_add_char = ATOMIC_ASM (\<lambda>s d. d + s) (\<lambda>v. v)"
definition atomic_subtract_char :: "u8 \<Rightarrow> u8 \<Rightarrow> u8" where
  "atomic_subtract_char = ATOMIC_ASM (\<lambda>s d. d - s) (\<lambda>v. v)"

definition atomic_set_short :: "u16 \<Rightarrow> u16 \<Rightarrow> u16" where
  "atomic_set_short = ATOMIC_ASM (\<lambda>s d. d OR s) (\<lambda>v. v)"
definition atomic_clear_short :: "u16 \<Rightarrow> u16 \<Rightarrow> u16" where
  "atomic_clear_short = ATOMIC_ASM (\<lambda>s d. d AND s) (\<lambda>v. NOT v)"
definition atomic_add_short :: "u16 \<Rightarrow> u16 \<Rightarrow> u16" where
  "atomic_add_short = ATOMIC_ASM (\<lambda>s d. d + s) (\<lambda>v. v)"
definition atomic_subtract_short :: "u16 \<Rightarrow> u16 \<Rightarrow> u16" where
  "atomic_subtract_short = ATOMIC_ASM (\<lambda>s d. d - s) (\<lambda>v. v)"

definition atomic_set_int :: "u32 \<Rightarrow> u32 \<Rightarrow> u32" where
  "atomic_set_int = ATOMIC_ASM (\<lambda>s d. d OR s) (\<lambda>v. v)"
definition atomic_clear_int :: "u32 \<Rightarrow> u32 \<Rightarrow> u32" where
  "atomic_clear_int = ATOMIC_ASM (\<lambda>s d. d AND s) (\<lambda>v. NOT v)"
definition atomic_add_int :: "u32 \<Rightarrow> u32 \<Rightarrow> u32" where
  "atomic_add_int = ATOMIC_ASM (\<lambda>s d. d + s) (\<lambda>v. v)"
definition atomic_subtract_int :: "u32 \<Rightarrow> u32 \<Rightarrow> u32" where
  "atomic_subtract_int = ATOMIC_ASM (\<lambda>s d. d - s) (\<lambda>v. v)"

definition atomic_set_long :: "u64 \<Rightarrow> u64 \<Rightarrow> u64" where
  "atomic_set_long = ATOMIC_ASM (\<lambda>s d. d OR s) (\<lambda>v. v)"
definition atomic_clear_long :: "u64 \<Rightarrow> u64 \<Rightarrow> u64" where
  "atomic_clear_long = ATOMIC_ASM (\<lambda>s d. d AND s) (\<lambda>v. NOT v)"
definition atomic_add_long :: "u64 \<Rightarrow> u64 \<Rightarrow> u64" where
  "atomic_add_long = ATOMIC_ASM (\<lambda>s d. d + s) (\<lambda>v. v)"
definition atomic_subtract_long :: "u64 \<Rightarrow> u64 \<Rightarrow> u64" where
  "atomic_subtract_long = ATOMIC_ASM (\<lambda>s d. d - s) (\<lambda>v. v)"

lemmas atomic_asm_defs = ATOMIC_ASM_def
  atomic_set_char_def atomic_clear_char_def atomic_add_char_def atomic_subtract_char_def
  atomic_set_short_def atomic_clear_short_def atomic_add_short_def atomic_subtract_short_def
  atomic_set_int_def atomic_clear_int_def atomic_add_int_def atomic_subtract_int_def
  atomic_set_long_def atomic_clear_long_def atomic_add_long_def atomic_subtract_long_def

section \<open>Compare and set, fetch and add\<close>

text \<open>\<open>sete\<close> turns the zero flag into the byte that is returned.\<close>

definition sete :: "bool \<Rightarrow> u32" where
  "sete zf = (if zf then 1 else 0)"

definition atomic_cmpset_int :: "u32 \<Rightarrow> u32 \<Rightarrow> u32 \<Rightarrow> u32 \<times> u32" where
  "atomic_cmpset_int dst expect src = (case cmpxchg expect src dst of (zf, _, dst') \<Rightarrow> (sete zf, dst'))"

definition atomic_cmpset_long :: "u64 \<Rightarrow> u64 \<Rightarrow> u64 \<Rightarrow> u32 \<times> u64" where
  "atomic_cmpset_long dst expect src = (case cmpxchg expect src dst of (zf, _, dst') \<Rightarrow> (sete zf, dst'))"

definition atomic_fetchadd_int :: "u32 \<Rightarrow> u32 \<Rightarrow> u32 \<times> u32" where
  "atomic_fetchadd_int p v = xadd v p"

definition atomic_fetchadd_long :: "u64 \<Rightarrow> u64 \<Rightarrow> u64 \<times> u64" where
  "atomic_fetchadd_long p v = xadd v p"

definition atomic_readandclear_int :: "u32 \<Rightarrow> u32 \<times> u32" where
  "atomic_readandclear_int addr = xchg 0 addr"

definition atomic_readandclear_long :: "u64 \<Rightarrow> u64 \<times> u64" where
  "atomic_readandclear_long addr = xchg 0 addr"

section \<open>Loads and stores\<close>

text \<open>The load of \<open>ATOMIC_STORE_LOAD\<close> exchanges the accumulator with itself; \<open>acc\<close> is what it held, which
  the code does not set.\<close>

definition atomic_load_acq :: "'a::len word \<Rightarrow> 'a word \<Rightarrow> 'a word \<times> 'a word" where
  "atomic_load_acq acc p = (case cmpxchg acc acc p of (_, res, p') \<Rightarrow> (res, p'))"

definition atomic_store_rel :: "'a::len word \<Rightarrow> 'a word \<Rightarrow> 'a word" where
  "atomic_store_rel p v = snd (xchg v p)"

lemmas atomic_defs = atomic_asm_defs cmpxchg_def xadd_def xchg_def sete_def
  atomic_cmpset_int_def atomic_cmpset_long_def atomic_fetchadd_int_def atomic_fetchadd_long_def
  atomic_readandclear_int_def atomic_readandclear_long_def atomic_load_acq_def atomic_store_rel_def

lemma atomic_cmpset_long_eq [simp]:
  "atomic_cmpset_long dst expect src = (if dst = expect then (1, src) else (0, dst))"
  by (simp add: atomic_defs)

lemma atomic_cmpset_int_eq [simp]:
  "atomic_cmpset_int dst expect src = (if dst = expect then (1, src) else (0, dst))"
  by (simp add: atomic_defs)

lemma atomic_load_acq_eq [simp]: "atomic_load_acq acc p = (p, p)"
  by (simp add: atomic_defs)

lemma atomic_set_clear_bits:
  "bit (atomic_set_long p v) n \<longleftrightarrow> bit p n \<or> bit v n"
  "bit (atomic_clear_long p v) n \<longleftrightarrow> bit p n \<and> \<not> bit v n"
  by (auto simp: atomic_asm_defs bit_simps dest: bit_imp_le_length)

section \<open>Reference counts\<close>

definition refcount_init :: "u32 \<Rightarrow> u32 \<Rightarrow> u32" where
  "refcount_init count val = val"

definition refcount_acquire :: "u32 \<Rightarrow> u32" where
  "refcount_acquire count = atomic_add_int count 1"

definition refcount_release :: "u32 \<Rightarrow> bool \<times> u32" where
  "refcount_release count = (case atomic_fetchadd_int count (- 1) of (old, count') \<Rightarrow> (old = 1, count'))"

text \<open>Each call is one atomic step, so the calls of any number of threads are a sequence; the answers
  of the releases are collected.\<close>

datatype ref_call = Acquire | Release

fun ref_calls :: "ref_call list \<Rightarrow> u32 \<Rightarrow> bool list \<times> u32" where
  "ref_calls [] count = ([], count)"
| "ref_calls (Acquire # cs) count = ref_calls cs (refcount_acquire count)"
| "ref_calls (Release # cs) count =
     (let (last, count') = refcount_release count; (ls, c) = ref_calls cs count' in (last # ls, c))"

text \<open>The references held after the calls, as a natural number; \<open>None\<close> when a release has no
  reference to give back.\<close>

fun held :: "ref_call list \<Rightarrow> nat \<Rightarrow> nat option" where
  "held [] n = Some n"
| "held (Acquire # cs) n = (if n = 0 then None else held cs (n + 1))"
| "held (Release # cs) n = (if n = 0 then None else held cs (n - 1))"

lemma refcount_acquire_unat:
  "unat count + 1 < 2 ^ 32 \<Longrightarrow> unat (refcount_acquire count) = unat count + 1"
  by (simp add: refcount_acquire_def atomic_asm_defs unat_word_ariths)

lemma refcount_release_unat:
  assumes "count \<noteq> 0"
  shows "fst (refcount_release count) \<longleftrightarrow> unat count = 1" and "unat (snd (refcount_release count)) = unat count - 1"
proof -
  show "fst (refcount_release count) \<longleftrightarrow> unat count = 1"
    by (auto simp: refcount_release_def atomic_defs word_unat_eq_iff)
  have "unat (snd (refcount_release count)) = unat (count - 1)"
    by (simp add: refcount_release_def atomic_defs)
  also have "\<dots> = unat count - 1" using assms by (simp add: unat_minus_one)
  finally show "unat (snd (refcount_release count)) = unat count - 1" .
qed

lemma held_zero: "held cs 0 = Some n \<Longrightarrow> cs = [] \<and> n = 0"
  by (cases cs rule: list.exhaust; cases "hd cs") auto

text \<open>For any sequence of acquisitions and releases that never gives back more references than are
  held and stays below \<open>2 ^ 32\<close>, the counter is the number of references held; a release answers
  true exactly when it gives back the last one, which is at most once and at the end.\<close>

lemma refcount_last_release:
  assumes "held cs (unat count) = Some n" and "unat count + length cs < 2 ^ 32"
  shows "unat (snd (ref_calls cs count)) = n \<and>
    (True \<in> set (fst (ref_calls cs count)) \<longleftrightarrow> n = 0 \<and> cs \<noteq> []) \<and>
    True \<notin> set (butlast (fst (ref_calls cs count)))"
  using assms
proof (induction cs arbitrary: count)
  case Nil
  then show ?case by simp
next
  case (Cons c cs)
  show ?case
  proof (cases c)
    case Acquire
    with Cons.prems have a: "unat (refcount_acquire count) = unat count + 1"
      by (intro refcount_acquire_unat) auto
    with Acquire Cons.prems have "held cs (unat (refcount_acquire count)) = Some n" "unat count \<noteq> 0"
      by (auto split: if_splits)
    with Cons.IH [of "refcount_acquire count"] Cons.prems a Acquire show ?thesis by auto
  next
    case Release
    with Cons.prems have nz: "count \<noteq> 0" by (auto split: if_splits)
    note r = refcount_release_unat [OF nz]
    obtain l c' where lc: "refcount_release count = (l, c')" by (cases "refcount_release count")
    with r have l: "l \<longleftrightarrow> unat count = 1" and c': "unat c' = unat count - 1" by auto
    with Release Cons.prems nz have h: "held cs (unat c') = Some n" by (auto split: if_splits)
    have "unat c' + length cs < 2 ^ 32" using Cons.prems c' by simp
    note ih = Cons.IH [OF h this]
    show ?thesis
    proof (cases l)
      case True
      with l c' h have "cs = []" "n = 0" using held_zero by auto
      with Release lc True c' l show ?thesis by simp
    next
      case False
      from l c' nz False have "unat c' \<noteq> 0" by (auto simp: word_unat_eq_iff)
      then have "n = 0 \<longrightarrow> cs \<noteq> []" using h by auto
      with Release lc ih False show ?thesis by (auto simp: Let_def split: prod.splits)
    qed
  qed
qed

lemma refcount_last_release_witness:
  "fst (ref_calls [Acquire, Release, Release] 1) = [False, True] \<and>
   True \<notin> set (butlast (fst (ref_calls [Acquire, Release, Release] 1)))"
  using refcount_last_release [of "[Acquire, Release, Release]" 1 0]
  by (simp add: Let_def refcount_acquire_def refcount_release_def atomic_defs)

end
