(* ===== verification/Sys_Locks.thy ===== *)
theory Sys_Locks
  imports Atomic_Ops
begin

text \<open>
  The inlined operations of the mutexes (\<open>include/sys/mutex.h\<close>), reader-writer locks
  (\<open>include/sys/rwlock.h\<close>) and shared-exclusive locks (\<open>include/sys/sx.h\<close>).  The state of a lock is its
  word: a thread pointer with flags in the low bits, or a count of sharers.  What an inlined
  operation cannot do with one compare-and-set it leaves to a function of the kernel
  (\<open>_mtx_lock_sleep\<close>, \<open>_sx_xlock_hard\<close>, ...), which is an argument here; the names that start with an
  underscore in C are written with the suffix \<open>_try\<close> or \<open>_fast\<close>.  Lock profiling has no effect on
  the lock.

  Shown: among any number of threads, in any order of attempts, the compare-and-set of each lock
  admits one owner at a time; a shared-exclusive lock never has an owner and sharers together, and its
  word tells which; the recursion of spin mutexes is balanced.
\<close>

unbundle bit_operations_syntax

section \<open>Mutexes\<close>

record mtx =
  mtx_word :: u64
  mtx_recurse :: u32

abbreviation MTX_RECURSED :: u64 where "MTX_RECURSED \<equiv> 1"
abbreviation MTX_CONTESTED :: u64 where "MTX_CONTESTED \<equiv> 2"
abbreviation MTX_UNOWNED :: u64 where "MTX_UNOWNED \<equiv> 4"

definition MTX_FLAGMASK :: u64 where
  "MTX_FLAGMASK = MTX_RECURSED OR MTX_CONTESTED OR MTX_UNOWNED"

definition mtx_obtain_try :: "u64 \<Rightarrow> mtx \<Rightarrow> bool \<times> mtx" where
  "mtx_obtain_try tid mp =
     (case atomic_cmpset_long (mtx_word mp) MTX_UNOWNED tid of (r, w) \<Rightarrow> (r \<noteq> 0, mp\<lparr>mtx_word := w\<rparr>))"

definition mtx_release_try :: "u64 \<Rightarrow> mtx \<Rightarrow> bool \<times> mtx" where
  "mtx_release_try tid mp =
     (case atomic_cmpset_long (mtx_word mp) tid MTX_UNOWNED of (r, w) \<Rightarrow> (r \<noteq> 0, mp\<lparr>mtx_word := w\<rparr>))"

definition mtx_release_quick :: "mtx \<Rightarrow> mtx" where
  "mtx_release_quick mp = mp\<lparr>mtx_word := atomic_store_rel (mtx_word mp) MTX_UNOWNED\<rparr>"

definition mtx_lock_fast :: "(mtx \<Rightarrow> u64 \<Rightarrow> u32 \<Rightarrow> mtx) \<Rightarrow> u64 \<Rightarrow> u32 \<Rightarrow> mtx \<Rightarrow> mtx" where
  "mtx_lock_fast mtx_lock_sleep tid opts mp =
     (let (ok, mp') = mtx_obtain_try tid mp in if \<not> ok then mtx_lock_sleep mp' tid opts else mp')"

definition mtx_unlock_fast :: "(mtx \<Rightarrow> u32 \<Rightarrow> mtx) \<Rightarrow> u64 \<Rightarrow> u32 \<Rightarrow> mtx \<Rightarrow> mtx" where
  "mtx_unlock_fast mtx_unlock_sleep tid opts mp =
     (let (ok, mp') = mtx_release_try tid mp in if \<not> ok then mtx_unlock_sleep mp' opts else mp')"

definition mtx_owned :: "u64 \<Rightarrow> mtx \<Rightarrow> bool" where
  "mtx_owned curthread m \<longleftrightarrow> mtx_word m AND NOT MTX_FLAGMASK = curthread"

definition mtx_recursed :: "mtx \<Rightarrow> bool" where
  "mtx_recursed m \<longleftrightarrow> mtx_recurse m \<noteq> 0"

text \<open>Spin mutexes, in the variant for several processors; \<open>spinlock_enter\<close> and \<open>spinlock_exit\<close> act on
  the state \<open>c\<close> of the processor.\<close>

definition mtx_lock_spin_fast ::
  "('c \<Rightarrow> 'c) \<Rightarrow> (mtx \<Rightarrow> u64 \<Rightarrow> u32 \<Rightarrow> mtx) \<Rightarrow> u64 \<Rightarrow> u32 \<Rightarrow> mtx \<times> 'c \<Rightarrow> mtx \<times> 'c" where
  "mtx_lock_spin_fast spinlock_enter mtx_lock_spin tid opts = (\<lambda>(mp, c).
     let c = spinlock_enter c; (ok, mp') = mtx_obtain_try tid mp in
     if \<not> ok then
       (if mtx_word mp' = tid then mp'\<lparr>mtx_recurse := mtx_recurse mp' + 1\<rparr>
        else mtx_lock_spin mp' tid opts, c)
     else (mp', c))"

definition mtx_unlock_spin_fast :: "('c \<Rightarrow> 'c) \<Rightarrow> mtx \<times> 'c \<Rightarrow> mtx \<times> 'c" where
  "mtx_unlock_spin_fast spinlock_exit = (\<lambda>(mp, c).
     (if mtx_recursed mp then mp\<lparr>mtx_recurse := mtx_recurse mp - 1\<rparr> else mtx_release_quick mp,
      spinlock_exit c))"

section \<open>Reader-writer locks\<close>

record rwlock =
  rw_word :: u64
  rw_recurse :: u32

abbreviation RW_LOCK_READ :: u64 where "RW_LOCK_READ \<equiv> 1"
abbreviation RW_LOCK_READ_WAITERS :: u64 where "RW_LOCK_READ_WAITERS \<equiv> 2"
abbreviation RW_LOCK_WRITE_WAITERS :: u64 where "RW_LOCK_WRITE_WAITERS \<equiv> 4"
abbreviation RW_LOCK_WRITE_SPINNER :: u64 where "RW_LOCK_WRITE_SPINNER \<equiv> 8"

definition RW_LOCK_FLAGMASK :: u64 where
  "RW_LOCK_FLAGMASK =
     RW_LOCK_READ OR RW_LOCK_READ_WAITERS OR RW_LOCK_WRITE_WAITERS OR RW_LOCK_WRITE_SPINNER"

definition RW_OWNER :: "u64 \<Rightarrow> u64" where
  "RW_OWNER x = x AND NOT RW_LOCK_FLAGMASK"

definition RW_READERS :: "u64 \<Rightarrow> u64" where
  "RW_READERS x = drop_bit 4 (RW_OWNER x)"

definition RW_READERS_LOCK :: "u64 \<Rightarrow> u64" where
  "RW_READERS_LOCK x = push_bit 4 x OR RW_LOCK_READ"

definition RW_UNLOCKED :: u64 where
  "RW_UNLOCKED = RW_READERS_LOCK 0"

definition rw_write_lock_try :: "u64 \<Rightarrow> rwlock \<Rightarrow> bool \<times> rwlock" where
  "rw_write_lock_try tid rw =
     (case atomic_cmpset_long (rw_word rw) RW_UNLOCKED tid of (r, w) \<Rightarrow> (r \<noteq> 0, rw\<lparr>rw_word := w\<rparr>))"

definition rw_write_unlock_try :: "u64 \<Rightarrow> rwlock \<Rightarrow> bool \<times> rwlock" where
  "rw_write_unlock_try tid rw =
     (case atomic_cmpset_long (rw_word rw) tid RW_UNLOCKED of (r, w) \<Rightarrow> (r \<noteq> 0, rw\<lparr>rw_word := w\<rparr>))"

definition rw_wlock_fast :: "(rwlock \<Rightarrow> u64 \<Rightarrow> rwlock) \<Rightarrow> u64 \<Rightarrow> rwlock \<Rightarrow> rwlock" where
  "rw_wlock_fast rw_wlock_hard tid rw =
     (let (ok, rw') = rw_write_lock_try tid rw in if \<not> ok then rw_wlock_hard rw' tid else rw')"

definition rw_wunlock_fast :: "(rwlock \<Rightarrow> u64 \<Rightarrow> rwlock) \<Rightarrow> u64 \<Rightarrow> rwlock \<Rightarrow> rwlock" where
  "rw_wunlock_fast rw_wunlock_hard tid rw =
     (if rw_recurse rw \<noteq> 0 then rw\<lparr>rw_recurse := rw_recurse rw - 1\<rparr>
      else let (ok, rw') = rw_write_unlock_try tid rw in if \<not> ok then rw_wunlock_hard rw' tid else rw')"

definition rw_unlock :: "(rwlock \<Rightarrow> bool) \<Rightarrow> (rwlock \<Rightarrow> u64 \<Rightarrow> rwlock) \<Rightarrow> (rwlock \<Rightarrow> rwlock) \<Rightarrow> u64 \<Rightarrow> rwlock \<Rightarrow> rwlock" where
  "rw_unlock rw_wowned rw_wunlock_hard rw_runlock tid rw =
     (if rw_wowned rw then rw_wunlock_fast rw_wunlock_hard tid rw else rw_runlock rw)"

section \<open>Shared-exclusive locks\<close>

record sx =
  sx_word :: u64

abbreviation SX_LOCK_SHARED :: u64 where "SX_LOCK_SHARED \<equiv> 1"
abbreviation SX_LOCK_SHARED_WAITERS :: u64 where "SX_LOCK_SHARED_WAITERS \<equiv> 2"
abbreviation SX_LOCK_EXCLUSIVE_WAITERS :: u64 where "SX_LOCK_EXCLUSIVE_WAITERS \<equiv> 4"
abbreviation SX_LOCK_RECURSED :: u64 where "SX_LOCK_RECURSED \<equiv> 8"

definition SX_LOCK_FLAGMASK :: u64 where
  "SX_LOCK_FLAGMASK =
     SX_LOCK_SHARED OR SX_LOCK_SHARED_WAITERS OR SX_LOCK_EXCLUSIVE_WAITERS OR SX_LOCK_RECURSED"

definition SX_OWNER :: "u64 \<Rightarrow> u64" where
  "SX_OWNER x = x AND NOT SX_LOCK_FLAGMASK"

definition SX_SHARERS :: "u64 \<Rightarrow> u64" where
  "SX_SHARERS x = drop_bit 4 (SX_OWNER x)"

definition SX_SHARERS_LOCK :: "u64 \<Rightarrow> u64" where
  "SX_SHARERS_LOCK x = push_bit 4 x OR SX_LOCK_SHARED"

definition SX_ONE_SHARER :: u64 where
  "SX_ONE_SHARER = push_bit 4 1"

definition SX_LOCK_UNLOCKED :: u64 where
  "SX_LOCK_UNLOCKED = SX_SHARERS_LOCK 0"

definition SX_LOCK_DESTROYED :: u64 where
  "SX_LOCK_DESTROYED = SX_LOCK_SHARED_WAITERS OR SX_LOCK_EXCLUSIVE_WAITERS"

text \<open>The part of each operation up to the call of its harder variant; \<open>x\<close> is the word that the
  shared operations read beforehand.\<close>

definition sx_xlock_try :: "u64 \<Rightarrow> sx \<Rightarrow> bool \<times> sx" where
  "sx_xlock_try tid sx =
     (case atomic_cmpset_long (sx_word sx) SX_LOCK_UNLOCKED tid of (r, w) \<Rightarrow> (r \<noteq> 0, sx\<lparr>sx_word := w\<rparr>))"

definition sx_xunlock_try :: "u64 \<Rightarrow> sx \<Rightarrow> bool \<times> sx" where
  "sx_xunlock_try tid sx =
     (case atomic_cmpset_long (sx_word sx) tid SX_LOCK_UNLOCKED of (r, w) \<Rightarrow> (r \<noteq> 0, sx\<lparr>sx_word := w\<rparr>))"

definition sx_slock_try :: "u64 \<Rightarrow> sx \<Rightarrow> bool \<times> sx" where
  "sx_slock_try x sx =
     (if x AND SX_LOCK_SHARED = 0 then (False, sx)
      else case atomic_cmpset_long (sx_word sx) x (x + SX_ONE_SHARER) of (r, w) \<Rightarrow> (r \<noteq> 0, sx\<lparr>sx_word := w\<rparr>))"

definition sx_sunlock_try :: "u64 \<Rightarrow> sx \<Rightarrow> bool \<times> sx" where
  "sx_sunlock_try x sx =
     (if x = (SX_SHARERS_LOCK 1 OR SX_LOCK_EXCLUSIVE_WAITERS) then (False, sx)
      else case atomic_cmpset_long (sx_word sx) x (x - SX_ONE_SHARER) of (r, w) \<Rightarrow> (r \<noteq> 0, sx\<lparr>sx_word := w\<rparr>))"

definition sx_xlock_fast :: "(sx \<Rightarrow> u64 \<Rightarrow> u32 \<Rightarrow> u32 \<times> sx) \<Rightarrow> u64 \<Rightarrow> u32 \<Rightarrow> sx \<Rightarrow> u32 \<times> sx" where
  "sx_xlock_fast sx_xlock_hard td opts sx =
     (let (ok, sx') = sx_xlock_try td sx in if \<not> ok then sx_xlock_hard sx' td opts else (0, sx'))"

definition sx_xunlock_fast :: "(sx \<Rightarrow> u64 \<Rightarrow> sx) \<Rightarrow> u64 \<Rightarrow> sx \<Rightarrow> sx" where
  "sx_xunlock_fast sx_xunlock_hard td sx =
     (let (ok, sx') = sx_xunlock_try td sx in if \<not> ok then sx_xunlock_hard sx' td else sx')"

definition sx_slock_fast :: "(sx \<Rightarrow> u32 \<Rightarrow> u32 \<times> sx) \<Rightarrow> u32 \<Rightarrow> sx \<Rightarrow> u32 \<times> sx" where
  "sx_slock_fast sx_slock_hard opts sx =
     (let x = sx_word sx; (ok, sx') = sx_slock_try x sx in
      if \<not> ok then sx_slock_hard sx' opts else (0, sx'))"

definition sx_sunlock_fast :: "(sx \<Rightarrow> sx) \<Rightarrow> sx \<Rightarrow> sx" where
  "sx_sunlock_fast sx_sunlock_hard sx =
     (let x = sx_word sx; (ok, sx') = sx_sunlock_try x sx in if \<not> ok then sx_sunlock_hard sx' else sx')"

definition sx_xholder :: "sx \<Rightarrow> ptr" where
  "sx_xholder sx = (if sx_word sx AND SX_LOCK_SHARED \<noteq> 0 then NULL else SX_OWNER (sx_word sx))"

definition sx_xlocked :: "u64 \<Rightarrow> sx \<Rightarrow> bool" where
  "sx_xlocked curthread sx \<longleftrightarrow> sx_word sx AND NOT (SX_LOCK_FLAGMASK AND NOT SX_LOCK_SHARED) = curthread"

definition sx_unlock :: "(sx \<Rightarrow> u64 \<Rightarrow> sx) \<Rightarrow> (sx \<Rightarrow> sx) \<Rightarrow> u64 \<Rightarrow> sx \<Rightarrow> sx" where
  "sx_unlock sx_xunlock_hard sx_sunlock_hard curthread sx =
     (if sx_xlocked curthread sx then sx_xunlock_fast sx_xunlock_hard curthread sx
      else sx_sunlock_fast sx_sunlock_hard sx)"

section \<open>One owner at a time\<close>

text \<open>A thread pointer is not null and leaves the four low bits to the flags.\<close>

definition thread_ptr :: "u64 \<Rightarrow> bool" where
  "thread_ptr t \<longleftrightarrow> t \<noteq> 0 \<and> t AND 15 = 0"

lemma thread_ptr_bits: "thread_ptr t \<Longrightarrow> n < 4 \<Longrightarrow> \<not> bit t n"
proof -
  assume t: "thread_ptr t" and n: "n < 4"
  have "mask 4 = (15 :: u64)" by (simp add: mask_eq_exp_minus_1)
  with t have z: "t AND mask 4 = 0" by (simp only: thread_ptr_def)
  have "bit (t AND mask 4) n \<longleftrightarrow> bit t n \<and> n < 4"
    using n by (auto simp: bit_and_iff bit_mask_iff)
  with z n show "\<not> bit t n" by simp
qed

lemma thread_ptr_even: "thread_ptr t \<Longrightarrow> even t"
  using thread_ptr_bits [of t 0] by (simp add: bit_0)

lemma thread_ptr_not_4: "thread_ptr t \<Longrightarrow> t \<noteq> 4"
  by (auto simp: thread_ptr_def)

text \<open>Attempts of threads on one lock in the order in which their atomic steps happen, with the
  threads that were admitted; only a thread that was admitted tries to unlock.\<close>

datatype attempt = TryLock u64 | TryUnlock u64

fun attempts :: "(u64 \<Rightarrow> 'l \<Rightarrow> bool \<times> 'l) \<Rightarrow> (u64 \<Rightarrow> 'l \<Rightarrow> bool \<times> 'l) \<Rightarrow> attempt list \<Rightarrow> 'l \<times> u64 set \<Rightarrow> 'l \<times> u64 set" where
  "attempts acq rel [] s = s"
| "attempts acq rel (TryLock t # as) (l, H) =
     (let (ok, l') = acq t l in attempts acq rel as (l', if ok then insert t H else H))"
| "attempts acq rel (TryUnlock t # as) (l, H) =
     (if t \<in> H then let (ok, l') = rel t l in attempts acq rel as (l', if ok then H - {t} else H)
      else attempts acq rel as (l, H))"

fun attempt_thread :: "attempt \<Rightarrow> u64" where
  "attempt_thread (TryLock t) = t"
| "attempt_thread (TryUnlock t) = t"

locale owner_lock =
  fixes word :: "'l \<Rightarrow> u64" and free :: u64
    and acq :: "u64 \<Rightarrow> 'l \<Rightarrow> bool \<times> 'l" and rel :: "u64 \<Rightarrow> 'l \<Rightarrow> bool \<times> 'l"
  assumes free_not_thread: "\<not> thread_ptr free"
    and acq_free: "word l = free \<Longrightarrow> fst (acq t l) \<and> word (snd (acq t l)) = t"
    and acq_taken: "word l \<noteq> free \<Longrightarrow> \<not> fst (acq t l) \<and> word (snd (acq t l)) = word l"
    and rel_owner: "word l = t \<Longrightarrow> fst (rel t l) \<and> word (snd (rel t l)) = free"
begin

definition one_owner :: "'l \<times> u64 set \<Rightarrow> bool" where
  "one_owner s \<longleftrightarrow> (word (fst s) = free \<and> snd s = {}) \<or>
     (thread_ptr (word (fst s)) \<and> snd s = {word (fst s)})"

lemma attempts_one_owner:
  "one_owner s \<Longrightarrow> \<forall>a\<in>set as. thread_ptr (attempt_thread a) \<Longrightarrow> one_owner (attempts acq rel as s)"
proof (induction as arbitrary: s)
  case Nil
  then show ?case by simp
next
  case (Cons a as)
  obtain l H where s: "s = (l, H)" by (cases s)
  show ?case
  proof (cases a)
    case (TryLock t)
    obtain ok l' where al: "acq t l = (ok, l')" by (cases "acq t l")
    have "one_owner (l', if ok then insert t H else H)"
      using acq_free [of l t] acq_taken [of l t] Cons.prems al s TryLock free_not_thread
      by (cases "word l = free") (auto simp: one_owner_def)
    with Cons.IH Cons.prems s al TryLock show ?thesis by auto
  next
    case (TryUnlock t)
    show ?thesis
    proof (cases "t \<in> H")
      case True
      obtain ok l' where rl: "rel t l = (ok, l')" by (cases "rel t l")
      from True Cons.prems s have "word l = t" "H = {t}" by (auto simp: one_owner_def)
      with rel_owner [of l t] rl have "one_owner (l', if ok then H - {t} else H)"
        by (simp add: one_owner_def)
      with Cons.IH Cons.prems s rl True TryUnlock show ?thesis by auto
    next
      case False
      with Cons s TryUnlock show ?thesis by auto
    qed
  qed
qed

lemma free_one_owner:
  assumes "word l = free" and "\<forall>a\<in>set as. thread_ptr (attempt_thread a)"
    and "attempts acq rel as (l, {}) = (l', H)"
  shows "word l' = free \<and> H = {} \<or> thread_ptr (word l') \<and> H = {word l'}"
  using attempts_one_owner [of "(l, {})" as] assms by (auto simp: one_owner_def)

end

interpretation mtx_owner: owner_lock mtx_word MTX_UNOWNED mtx_obtain_try mtx_release_try
  by unfold_locales
    (auto simp: mtx_obtain_try_def mtx_release_try_def dest: thread_ptr_not_4)

interpretation rw_owner: owner_lock rw_word RW_UNLOCKED rw_write_lock_try rw_write_unlock_try
  by unfold_locales
    (auto simp: rw_write_lock_try_def rw_write_unlock_try_def RW_UNLOCKED_def RW_READERS_LOCK_def
      dest: thread_ptr_even)

interpretation sx_owner: owner_lock sx_word SX_LOCK_UNLOCKED sx_xlock_try sx_xunlock_try
  by unfold_locales
    (auto simp: sx_xlock_try_def sx_xunlock_try_def SX_LOCK_UNLOCKED_def SX_SHARERS_LOCK_def
      dest: thread_ptr_even)

text \<open>C14 Mutual exclusion: whatever the order in which threads try to lock and to unlock, a mutex, a
  write lock and an exclusive lock that start free have at every moment at most one thread that was
  admitted and has not left; the word then is that thread's pointer, and the free value when
  there is none.\<close>

theorem locks_mutual_exclusion:
  assumes "\<forall>a\<in>set as. thread_ptr (attempt_thread a)"
  shows "(mtx_word m = MTX_UNOWNED \<and> attempts mtx_obtain_try mtx_release_try as (m, {}) = (m', Hm) \<longrightarrow>
      mtx_word m' = MTX_UNOWNED \<and> Hm = {} \<or> thread_ptr (mtx_word m') \<and> Hm = {mtx_word m'}) \<and>
    (rw_word w = RW_UNLOCKED \<and> attempts rw_write_lock_try rw_write_unlock_try as (w, {}) = (w', Hw) \<longrightarrow>
      rw_word w' = RW_UNLOCKED \<and> Hw = {} \<or> thread_ptr (rw_word w') \<and> Hw = {rw_word w'}) \<and>
    (sx_word x = SX_LOCK_UNLOCKED \<and> attempts sx_xlock_try sx_xunlock_try as (x, {}) = (x', Hx) \<longrightarrow>
      sx_word x' = SX_LOCK_UNLOCKED \<and> Hx = {} \<or> thread_ptr (sx_word x') \<and> Hx = {sx_word x'})"
proof (intro conjI impI; elim conjE)
  show "mtx_word m' = MTX_UNOWNED \<and> Hm = {} \<or> thread_ptr (mtx_word m') \<and> Hm = {mtx_word m'}"
    if "mtx_word m = MTX_UNOWNED" "attempts mtx_obtain_try mtx_release_try as (m, {}) = (m', Hm)"
    by (rule mtx_owner.free_one_owner [OF that(1) assms that(2)])
  show "rw_word w' = RW_UNLOCKED \<and> Hw = {} \<or> thread_ptr (rw_word w') \<and> Hw = {rw_word w'}"
    if "rw_word w = RW_UNLOCKED" "attempts rw_write_lock_try rw_write_unlock_try as (w, {}) = (w', Hw)"
    by (rule rw_owner.free_one_owner [OF that(1) assms that(2)])
  show "sx_word x' = SX_LOCK_UNLOCKED \<and> Hx = {} \<or> thread_ptr (sx_word x') \<and> Hx = {sx_word x'}"
    if "sx_word x = SX_LOCK_UNLOCKED" "attempts sx_xlock_try sx_xunlock_try as (x, {}) = (x', Hx)"
    by (rule sx_owner.free_one_owner [OF that(1) assms that(2)])
qed

section \<open>Sharers and owners\<close>

text \<open>The steps on one shared-exclusive lock.  A shared step carries the word its thread read, at any
  earlier time; it may therefore be stale.  \<open>XUnlock\<close> is for the owner, \<open>SUnlock\<close> for a sharer.  The state
  is the lock, its owner and the number of its sharers.\<close>

datatype sx_event = XLock u64 | XUnlock u64 | SLock u64 | SUnlock u64

fun sx_event_step :: "sx_event \<Rightarrow> sx \<times> u64 option \<times> nat \<Rightarrow> sx \<times> u64 option \<times> nat" where
  "sx_event_step (XLock t) (l, owner, n) =
     (let (ok, l') = sx_xlock_try t l in (l', if ok then Some t else owner, n))"
| "sx_event_step (XUnlock t) (l, owner, n) =
     (if owner = Some t then let (ok, l') = sx_xunlock_try t l in (l', if ok then None else owner, n)
      else (l, owner, n))"
| "sx_event_step (SLock x) (l, owner, n) =
     (let (ok, l') = sx_slock_try x l in (l', owner, if ok then n + 1 else n))"
| "sx_event_step (SUnlock x) (l, owner, n) =
     (if 0 < n then let (ok, l') = sx_sunlock_try x l in (l', owner, if ok then n - 1 else n)
      else (l, owner, n))"

fun sx_event_ok :: "sx_event \<Rightarrow> bool" where
  "sx_event_ok (XLock t) = thread_ptr t"
| "sx_event_ok _ = True"

definition sx_count_word :: "nat \<Rightarrow> u64" where
  "sx_count_word n = of_nat (16 * n + 1)"

definition sx_inv :: "sx \<times> u64 option \<times> nat \<Rightarrow> bool" where
  "sx_inv s \<longleftrightarrow> (case s of (l, owner, n) \<Rightarrow>
     (case owner of None \<Rightarrow> sx_word l = sx_count_word n
      | Some t \<Rightarrow> thread_ptr t \<and> sx_word l = t \<and> n = 0))"

lemma SX_SHARERS_LOCK_0: "SX_LOCK_UNLOCKED = sx_count_word 0"
  by (simp add: SX_LOCK_UNLOCKED_def SX_SHARERS_LOCK_def sx_count_word_def)

lemma SX_ONE_SHARER_eq: "SX_ONE_SHARER = 16"
  by (simp add: SX_ONE_SHARER_def)

lemma unat_sx_count_word: "n < 2 ^ 60 \<Longrightarrow> unat (sx_count_word n) = 16 * n + 1"
proof -
  assume "n < 2 ^ 60"
  then have "16 * n + 1 < 2 ^ 64" by simp
  then show ?thesis by (simp only: sx_count_word_def unat_of_nat) simp
qed

lemma sx_count_word_step: "sx_count_word n + 16 = sx_count_word (n + 1)"
  "0 < n \<Longrightarrow> sx_count_word n - 16 = sx_count_word (n - 1)"
  by (cases n; simp add: sx_count_word_def algebra_simps)+

lemma sx_count_word_inj: "n < 2 ^ 60 \<Longrightarrow> k < 2 ^ 60 \<Longrightarrow> sx_count_word n = sx_count_word k \<longleftrightarrow> n = k"
  using unat_sx_count_word by (metis add_right_cancel mult_cancel1 zero_neq_numeral)

lemma sx_count_word_not_thread: "\<not> thread_ptr (sx_count_word n)"
  using thread_ptr_even [of "sx_count_word n"] by (auto simp: sx_count_word_def)

lemma thread_ptr_shared: "thread_ptr t \<Longrightarrow> t AND 1 = 0"
  using thread_ptr_even [of t] by (simp add: and_one_eq even_iff_mod_2_eq_zero)

lemma sx_event_inv:
  assumes "sx_inv (l, owner, n)" and "sx_event_ok e" and "n + 1 < 2 ^ 60"
    and "sx_event_step e (l, owner, n) = (l', owner', n')"
  shows "sx_inv (l', owner', n') \<and> n' \<le> n + 1"
proof (cases e)
  case (XLock t)
  with assms show ?thesis
    using sx_count_word_inj [of n 0] sx_count_word_not_thread [of 0]
    by (auto simp: sx_inv_def sx_xlock_try_def SX_SHARERS_LOCK_0 split: if_splits option.splits)
next
  case (XUnlock t)
  with assms show ?thesis
    by (auto simp: sx_inv_def sx_xunlock_try_def SX_SHARERS_LOCK_0 split: if_splits)
next
  case (SLock x)
  with assms show ?thesis
    using thread_ptr_shared
    by (auto simp: sx_inv_def sx_slock_try_def SX_ONE_SHARER_eq sx_count_word_step split: if_splits option.splits)
next
  case (SUnlock x)
  with assms show ?thesis
    by (auto simp: sx_inv_def sx_sunlock_try_def SX_ONE_SHARER_eq sx_count_word_step split: if_splits option.splits)
qed

lemma sx_events_inv:
  "sx_inv s \<Longrightarrow> \<forall>e\<in>set es. sx_event_ok e \<Longrightarrow> snd (snd s) + length es < 2 ^ 60 \<Longrightarrow>
    sx_inv (fold sx_event_step es s) \<and> snd (snd (fold sx_event_step es s)) \<le> snd (snd s) + length es"
proof (induction es arbitrary: s)
  case (Cons e es)
  obtain l owner n where s: "s = (l, owner, n)" by (cases s)
  obtain l' owner' n' where s': "sx_event_step e s = (l', owner', n')" by (cases "sx_event_step e s")
  have "sx_inv (l', owner', n') \<and> n' \<le> n + 1"
    using Cons.prems s s' by (intro sx_event_inv [of l owner n e]) auto
  with Cons.IH [of "(l', owner', n')"] Cons.prems s s' show ?case by auto
qed simp

lemma sx_decode:
  assumes "sx_inv (l, owner, n)" and "n < 2 ^ 60"
  shows "sx_xholder l = (case owner of None \<Rightarrow> NULL | Some t \<Rightarrow> t)"
    and "owner = None \<Longrightarrow> unat (SX_SHARERS (sx_word l)) = n"
proof -
  have fm: "SX_LOCK_FLAGMASK = mask 4" by (simp add: SX_LOCK_FLAGMASK_def mask_eq_exp_minus_1)
  have own: "SX_OWNER t = t" if "thread_ptr t" for t
    using thread_ptr_bits [OF that] unfolding SX_OWNER_def fm
    by (intro bit_word_eqI) (auto simp: bit_simps)
  have "sx_count_word n AND 1 \<noteq> 0"
    by (simp add: sx_count_word_def and_one_eq odd_iff_mod_2_eq_one [symmetric])
  then show "sx_xholder l = (case owner of None \<Rightarrow> NULL | Some t \<Rightarrow> t)"
    using assms own thread_ptr_shared by (auto simp: sx_inv_def sx_xholder_def split: option.splits)
  assume "owner = None"
  then have w: "unat (sx_word l) = 16 * n + 1" using assms by (simp add: sx_inv_def unat_sx_count_word)
  have "SX_SHARERS x = drop_bit 4 x" for x
    unfolding SX_SHARERS_def SX_OWNER_def fm
    by (intro bit_word_eqI) (auto simp: bit_simps dest: bit_imp_le_length)
  then have "unat (SX_SHARERS (sx_word l)) = unat (sx_word l) div 2 ^ 4"
    by (simp add: drop_bit_eq_div unat_div)
  with w show "unat (SX_SHARERS (sx_word l)) = n" by simp
qed

text \<open>C13 A shared-exclusive lock keeps owners and sharers apart: from the unlocked state, in any order
  of fewer than \<open>2 ^ 60\<close> attempts to lock and unlock in either mode, shared ones with a
  possibly outdated view of the word, there is an owner only while there are no sharers;
  \<open>sx_xholder\<close> is the owner and \<open>SX_SHARERS\<close> the number of sharers.\<close>

theorem sx_exclusion:
  assumes "sx_word l = SX_LOCK_UNLOCKED" and "\<forall>e\<in>set es. sx_event_ok e" and "length es < 2 ^ 60"
    and "fold sx_event_step es (l, None, 0) = (l', owner, n)"
  shows "(owner \<noteq> None \<longrightarrow> n = 0) \<and> sx_xholder l' = (case owner of None \<Rightarrow> NULL | Some t \<Rightarrow> t) \<and>
    (owner = None \<longrightarrow> unat (SX_SHARERS (sx_word l')) = n)"
proof -
  have "sx_inv (l, None, 0)" using assms(1) by (simp add: sx_inv_def SX_SHARERS_LOCK_0)
  from sx_events_inv [OF this assms(2)] assms(3,4) have inv: "sx_inv (l', owner, n)" and n: "n < 2 ^ 60"
    by auto
  from inv have "owner \<noteq> None \<longrightarrow> n = 0" by (auto simp: sx_inv_def)
  with sx_decode [OF inv n] show ?thesis by blast
qed

section \<open>Recursion of spin mutexes\<close>

text \<open>A thread that holds a spin mutex may lock it again; each further lock is counted, and only the
  unlock that matches the first lock frees the mutex.\<close>

lemma spin_relock:
  assumes "tid \<noteq> MTX_UNOWNED" and "mtx_word mp = tid"
  shows "mtx_lock_spin_fast enter hard tid opts (mp, c) = (mp\<lparr>mtx_recurse := mtx_recurse mp + 1\<rparr>, enter c)"
  using assms by (simp add: mtx_lock_spin_fast_def mtx_obtain_try_def)

lemma spin_nested:
  assumes "tid \<noteq> MTX_UNOWNED" and "mtx_word mp = tid" and "unat (mtx_recurse mp) + n < 2 ^ 32"
  shows "(mtx_lock_spin_fast enter hard tid opts ^^ n) (mp, c) =
      (mp\<lparr>mtx_recurse := mtx_recurse mp + of_nat n\<rparr>, (enter ^^ n) c)"
  using assms
proof (induction n)
  case (Suc n)
  then show ?case by (simp add: spin_relock algebra_simps)
qed simp

lemma spin_unnested:
  assumes "unat (mtx_recurse mp) = n"
  shows "(mtx_unlock_spin_fast leave ^^ n) (mp, c) = (mp\<lparr>mtx_recurse := 0\<rparr>, (leave ^^ n) c)"
  using assms
proof (induction n arbitrary: mp c)
  case 0
  then show ?case by (simp add: unat_eq_0)
next
  case (Suc n)
  then have nz: "mtx_recurse mp \<noteq> 0" by auto
  then have "unat (mtx_recurse mp - 1) = n" using Suc.prems by (simp add: unat_minus_one)
  with Suc.IH [of "mp\<lparr>mtx_recurse := mtx_recurse mp - 1\<rparr>" "leave c"] nz show ?case
    by (simp add: funpow_swap1 mtx_unlock_spin_fast_def mtx_recursed_def del: funpow.simps)
      (simp add: funpow_Suc_right mtx_recursed_def mtx_unlock_spin_fast_def del: funpow.simps)
qed

section \<open>The whole lock operation\<close>

text \<open>What the slow paths of a mutex promise: one returns when the thread has the mutex, the other when
  it has given it up.  A thread that does not recurse then always has the mutex between the
  two operations.\<close>

definition mtx_slow_ok :: "(mtx \<Rightarrow> u64 \<Rightarrow> u32 \<Rightarrow> mtx) \<Rightarrow> (mtx \<Rightarrow> u32 \<Rightarrow> mtx) \<Rightarrow> u64 \<Rightarrow> bool" where
  "mtx_slow_ok lock_sleep unlock_sleep tid \<longleftrightarrow>
     (\<forall>m. \<not> mtx_owned tid m \<and> \<not> mtx_recursed m \<longrightarrow>
        mtx_owned tid (lock_sleep m tid 0) \<and> \<not> mtx_recursed (lock_sleep m tid 0)) \<and>
     (\<forall>m. mtx_owned tid m \<and> \<not> mtx_recursed m \<longrightarrow>
        \<not> mtx_owned tid (unlock_sleep m 0) \<and> \<not> mtx_recursed (unlock_sleep m 0))"

lemma mtx_word_owned: "thread_ptr tid \<Longrightarrow> mtx_word m = tid \<Longrightarrow> mtx_owned tid m"
proof -
  assume t: "thread_ptr tid" and w: "mtx_word m = tid"
  have m: "MTX_FLAGMASK = mask 3" by (simp add: MTX_FLAGMASK_def mask_eq_exp_minus_1)
  have "tid AND NOT MTX_FLAGMASK = tid"
    unfolding m using thread_ptr_bits [OF t] by (intro bit_eqI) (auto simp: bit_and_iff bit_not_iff bit_mask_iff)
  with w show ?thesis by (simp add: mtx_owned_def)
qed

lemma mtx_free_not_owned: "thread_ptr tid \<Longrightarrow> mtx_word m = MTX_UNOWNED \<Longrightarrow> \<not> mtx_owned tid m"
  by (auto simp: mtx_owned_def MTX_FLAGMASK_def thread_ptr_def)

lemma mtx_fast_owned:
  assumes "thread_ptr tid" and "mtx_slow_ok ls us tid" and "\<not> mtx_recursed m"
  shows "\<not> mtx_owned tid m \<Longrightarrow> mtx_owned tid (mtx_lock_fast ls tid 0 m) \<and>
      \<not> mtx_recursed (mtx_lock_fast ls tid 0 m)"
    and "mtx_owned tid m \<Longrightarrow> \<not> mtx_owned tid (mtx_unlock_fast us tid 0 m) \<and>
      \<not> mtx_recursed (mtx_unlock_fast us tid 0 m)"
  using assms mtx_word_owned [OF assms(1)] mtx_free_not_owned [OF assms(1)]
  by (auto simp: mtx_lock_fast_def mtx_unlock_fast_def mtx_obtain_try_def mtx_release_try_def
      mtx_slow_ok_def mtx_recursed_def atomic_cmpset_long_def)

section \<open>Witnesses\<close>

theorem locks_mutual_exclusion_witness:
  "snd (attempts mtx_obtain_try mtx_release_try [TryLock 0x10, TryLock 0x20] (\<lparr>mtx_word = 4, mtx_recurse = 0\<rparr>, {})) = {0x10}"
proof -
  obtain m' H where r: "attempts mtx_obtain_try mtx_release_try [TryLock 0x10, TryLock 0x20]
      (\<lparr>mtx_word = 4, mtx_recurse = 0\<rparr>, {}) = (m', H)"
    by (cases "attempts mtx_obtain_try mtx_release_try [TryLock 0x10, TryLock 0x20]
      (\<lparr>mtx_word = 4, mtx_recurse = 0\<rparr>, {})")
  have "\<forall>a\<in>set [TryLock 0x10, TryLock 0x20]. thread_ptr (attempt_thread a)"
    by (simp add: thread_ptr_def)
  from locks_mutual_exclusion [OF this, of "\<lparr>mtx_word = 4, mtx_recurse = 0\<rparr>" m' H] r
  show ?thesis by (auto simp: mtx_obtain_try_def)
qed

theorem sx_exclusion_witness:
  "sx_xholder (fst (fold sx_event_step [SLock 1, XLock 0x10, SUnlock 0x11, XLock 0x20] (\<lparr>sx_word = 1\<rparr>, None, 0))) = 0x20"
proof -
  have r: "fold sx_event_step [SLock 1, XLock 0x10, SUnlock 0x11, XLock 0x20] (\<lparr>sx_word = 1\<rparr>, None, 0)
      = (\<lparr>sx_word = 0x20\<rparr>, Some 0x20, 0)"
    by (simp add: sx_xlock_try_def sx_slock_try_def sx_sunlock_try_def SX_LOCK_UNLOCKED_def
        SX_SHARERS_LOCK_def SX_ONE_SHARER_def)
  from sx_exclusion [OF _ _ _ r] show ?thesis
    using r by (simp add: SX_LOCK_UNLOCKED_def SX_SHARERS_LOCK_def thread_ptr_def)
qed

end
