(* ===== verification/Buf_Ring.thy ===== *)
theory Buf_Ring
  imports Atomic_Ops
begin

unbundle bit_operations_syntax

text \<open>
  The lock-free ring of \<open>include/sys/buf_ring.h\<close>.  Its operations are step functions, one step per
  access to a shared field, so that the operations of several threads interleave the way the
  processor lets them (\<open>atomic_cmpset_int\<close> is one step; the barriers order what the steps
  already order).  A call that runs alone is the iteration of its steps; a wait that never ends
  has no result (\<open>None\<close>).  The debugging checks (\<open>DEBUG_BUFRING\<close>) are off and the prefetches have no
  effect on the state.

  Shown: run alone, the operations are those of a bounded queue; with one producer and one consumer,
  interleaved step by step, what comes out is what went in, in order; with several
  producers an element can be lost.
\<close>

section \<open>State\<close>

record buf_ring =
  br_prod_head :: u32
  br_prod_tail :: u32
  br_prod_size :: u32
  br_prod_mask :: u32
  br_drops :: u64
  br_prod_bufs :: u64
  br_prod_bytes :: u64
  br_cons_head :: u32
  br_cons_tail :: u32
  br_cons_size :: u32
  br_cons_mask :: u32
  br_ring :: "u32 \<Rightarrow> ptr"

abbreviation ENOBUFS :: u32 where "ENOBUFS \<equiv> 55"

section \<open>Enqueue\<close>

text \<open>The program points of \<open>buf_ring_enqueue_bytes\<close>, with the local variables alive there.\<close>

datatype enq_pc =
    EnqHead
  | EnqTail u32
  | EnqCas u32 u32
  | EnqStore u32 u32
  | EnqWait u32 u32
  | EnqBufs u32 u32
  | EnqBytes u32 u32
  | EnqPublish u32 u32
  | EnqRet u32

fun enq_step :: "ptr \<Rightarrow> u32 \<Rightarrow> enq_pc \<Rightarrow> buf_ring \<Rightarrow> enq_pc \<times> buf_ring" where
  "enq_step buf nbytes EnqHead br = (EnqTail (br_prod_head br), br)"
| "enq_step buf nbytes (EnqTail prod_head) br =
     (let cons_tail = br_cons_tail br;
          prod_next = (prod_head + 1) AND br_prod_mask br
      in if prod_next = cons_tail then (EnqRet ENOBUFS, br) else (EnqCas prod_head prod_next, br))"
| "enq_step buf nbytes (EnqCas prod_head prod_next) br =
     (let (success, h) = atomic_cmpset_int (br_prod_head br) prod_head prod_next
      in (if success = 0 then EnqHead else EnqStore prod_head prod_next, br\<lparr>br_prod_head := h\<rparr>))"
| "enq_step buf nbytes (EnqStore prod_head prod_next) br =
     (EnqWait prod_head prod_next, br\<lparr>br_ring := (br_ring br)(prod_head := buf)\<rparr>)"
| "enq_step buf nbytes (EnqWait prod_head prod_next) br =
     (if br_prod_tail br \<noteq> prod_head then (EnqWait prod_head prod_next, br)
      else (EnqBufs prod_head prod_next, br))"
| "enq_step buf nbytes (EnqBufs prod_head prod_next) br =
     (EnqBytes prod_head prod_next, br\<lparr>br_prod_bufs := br_prod_bufs br + 1\<rparr>)"
| "enq_step buf nbytes (EnqBytes prod_head prod_next) br =
     (EnqPublish prod_head prod_next, br\<lparr>br_prod_bytes := br_prod_bytes br + scast nbytes\<rparr>)"
| "enq_step buf nbytes (EnqPublish prod_head prod_next) br =
     (EnqRet 0, br\<lparr>br_prod_tail := prod_next\<rparr>)"
| "enq_step buf nbytes (EnqRet r) br = (EnqRet r, br)"

partial_function (option) enq_run :: "ptr \<Rightarrow> u32 \<Rightarrow> enq_pc \<Rightarrow> buf_ring \<Rightarrow> (u32 \<times> buf_ring) option" where
  "enq_run buf nbytes pc br =
     (case pc of EnqRet r \<Rightarrow> Some (r, br)
      | _ \<Rightarrow> (case enq_step buf nbytes pc br of (pc', br') \<Rightarrow> enq_run buf nbytes pc' br'))"

definition buf_ring_enqueue_bytes :: "buf_ring \<Rightarrow> ptr \<Rightarrow> u32 \<Rightarrow> (u32 \<times> buf_ring) option" where
  "buf_ring_enqueue_bytes br buf nbytes = enq_run buf nbytes EnqHead br"

definition buf_ring_enqueue :: "buf_ring \<Rightarrow> ptr \<Rightarrow> (u32 \<times> buf_ring) option" where
  "buf_ring_enqueue br buf = buf_ring_enqueue_bytes br buf 0"

section \<open>Dequeue\<close>

text \<open>The program points of \<open>buf_ring_dequeue_mc\<close> and of \<open>buf_ring_dequeue_sc\<close>.\<close>

datatype deq_pc =
    McHead
  | McTail u32
  | McCas u32 u32
  | McRead u32 u32
  | McWait u32 u32 ptr
  | McPublish u32 ptr
  | ScHead
  | ScTail u32
  | ScMove u32 u32
  | ScRead u32 u32
  | ScPublish u32 ptr
  | DeqRet ptr

fun deq_step :: "deq_pc \<Rightarrow> buf_ring \<Rightarrow> deq_pc \<times> buf_ring" where
  "deq_step McHead br = (McTail (br_cons_head br), br)"
| "deq_step (McTail cons_head) br =
     (let prod_tail = br_prod_tail br;
          cons_next = (cons_head + 1) AND br_cons_mask br
      in if cons_head = prod_tail then (DeqRet NULL, br) else (McCas cons_head cons_next, br))"
| "deq_step (McCas cons_head cons_next) br =
     (let (success, h) = atomic_cmpset_int (br_cons_head br) cons_head cons_next
      in (if success = 0 then McHead else McRead cons_head cons_next, br\<lparr>br_cons_head := h\<rparr>))"
| "deq_step (McRead cons_head cons_next) br =
     (McWait cons_head cons_next (br_ring br cons_head), br)"
| "deq_step (McWait cons_head cons_next buf) br =
     (if br_cons_tail br \<noteq> cons_head then (McWait cons_head cons_next buf, br)
      else (McPublish cons_next buf, br))"
| "deq_step (McPublish cons_next buf) br = (DeqRet buf, br\<lparr>br_cons_tail := cons_next\<rparr>)"
| "deq_step ScHead br = (ScTail (br_cons_head br), br)"
| "deq_step (ScTail cons_head) br =
     (let prod_tail = br_prod_tail br;
          cons_next = (cons_head + 1) AND br_cons_mask br
      in if cons_head = prod_tail then (DeqRet NULL, br) else (ScMove cons_head cons_next, br))"
| "deq_step (ScMove cons_head cons_next) br =
     (ScRead cons_head cons_next, br\<lparr>br_cons_head := cons_next\<rparr>)"
| "deq_step (ScRead cons_head cons_next) br = (ScPublish cons_next (br_ring br cons_head), br)"
| "deq_step (ScPublish cons_next buf) br = (DeqRet buf, br\<lparr>br_cons_tail := cons_next\<rparr>)"
| "deq_step (DeqRet buf) br = (DeqRet buf, br)"

partial_function (option) deq_run :: "deq_pc \<Rightarrow> buf_ring \<Rightarrow> (ptr \<times> buf_ring) option" where
  "deq_run pc br =
     (case pc of DeqRet r \<Rightarrow> Some (r, br)
      | _ \<Rightarrow> (case deq_step pc br of (pc', br') \<Rightarrow> deq_run pc' br'))"

definition buf_ring_dequeue_mc :: "buf_ring \<Rightarrow> (ptr \<times> buf_ring) option" where
  "buf_ring_dequeue_mc br = deq_run McHead br"

definition buf_ring_dequeue_sc :: "buf_ring \<Rightarrow> (ptr \<times> buf_ring) option" where
  "buf_ring_dequeue_sc br = deq_run ScHead br"

section \<open>Observers\<close>

definition buf_ring_peek :: "buf_ring \<Rightarrow> ptr" where
  "buf_ring_peek br =
     (if br_cons_head br = br_prod_tail br then NULL else br_ring br (br_cons_head br))"

definition buf_ring_full :: "buf_ring \<Rightarrow> bool" where
  "buf_ring_full br \<longleftrightarrow> (br_prod_head br + 1) AND br_prod_mask br = br_cons_tail br"

definition buf_ring_empty :: "buf_ring \<Rightarrow> bool" where
  "buf_ring_empty br \<longleftrightarrow> br_cons_head br = br_prod_tail br"

definition buf_ring_count :: "buf_ring \<Rightarrow> u32" where
  "buf_ring_count br = (br_prod_size br + br_prod_tail br - br_cons_tail br) AND br_prod_mask br"

section \<open>Slots\<close>

text \<open>The slot of the \<open>i\<close>-th element ever enqueued in a ring of \<open>2 ^ b\<close> slots.\<close>

definition slot :: "nat \<Rightarrow> nat \<Rightarrow> u32" where
  "slot b i = of_nat (i mod 2 ^ b)"

definition ring_shape :: "nat \<Rightarrow> buf_ring \<Rightarrow> bool" where
  "ring_shape b br \<longleftrightarrow> b < 32 \<and> br_prod_mask br = mask b \<and> br_cons_mask br = mask b \<and>
     br_prod_size br = of_nat (2 ^ b) \<and> br_cons_size br = of_nat (2 ^ b)"

lemma and_mask_unat: "unat ((w::u32) AND mask b) = unat w mod 2 ^ b"
proof -
  have "unat (w AND mask b) = unat (take_bit b w)" by (simp add: take_bit_eq_mask)
  also have "\<dots> = take_bit b (unat w)" by (rule unsigned_take_bit_eq)
  finally show ?thesis by (simp add: take_bit_eq_mod)
qed

lemma unat_slot: "b < 32 \<Longrightarrow> unat (slot b i) = i mod 2 ^ b"
proof -
  assume "b < 32"
  then have "(2::nat) ^ b < 2 ^ 32" by (intro power_strict_increasing) auto
  moreover have "i mod 2 ^ b < 2 ^ b" by simp
  ultimately have "i mod 2 ^ b < 2 ^ 32" by linarith
  then show ?thesis by (simp add: slot_def unat_of_nat)
qed

lemma slot_eq_iff: "b < 32 \<Longrightarrow> slot b i = slot b j \<longleftrightarrow> i mod 2 ^ b = j mod 2 ^ b"
  using unat_slot by (metis word_unat_eq_iff)

lemma slot_Suc:
  assumes "b < 32"
  shows "(slot b i + 1) AND mask b = slot b (Suc i)"
proof (rule word_unat_eq_iff [THEN iffD2])
  have "(2::nat) ^ b dvd 2 ^ 32" using assms by (intro le_imp_power_dvd) auto
  then have "unat ((slot b i + 1) AND mask b) = (i mod 2 ^ b + 1) mod 2 ^ b"
    using assms by (simp add: and_mask_unat unat_word_ariths unat_slot mod_mod_cancel)
  then show "unat ((slot b i + 1) AND mask b) = unat (slot b (Suc i))"
    using assms by (simp add: unat_slot mod_Suc_eq)
qed

text \<open>Two positions less than a ring apart share a slot only when they are the same.\<close>

lemma slot_near:
  assumes "b < 32" and "i \<le> j" and "j < i + 2 ^ b"
  shows "slot b i = slot b j \<longleftrightarrow> i = j"
proof -
  have "i mod 2 ^ b = j mod 2 ^ b \<longleftrightarrow> 2 ^ b dvd j - i"
    using assms(2) by (metis mod_eq_dvd_iff_nat)
  also have "\<dots> \<longleftrightarrow> i = j" using assms(2,3) by (auto dest: dvd_imp_le)
  finally show ?thesis using assms(1) by (simp add: slot_eq_iff)
qed

lemma slot_full:
  assumes "b < 32" and "k \<le> n" and "n < k + 2 ^ b"
  shows "slot b (Suc n) = slot b k \<longleftrightarrow> Suc n = k + 2 ^ b"
proof (cases "Suc n = k + 2 ^ b")
  case True
  then show ?thesis using assms(1) by (simp add: slot_eq_iff)
next
  case False
  with assms have "slot b k = slot b (Suc n) \<longleftrightarrow> k = Suc n" by (intro slot_near) auto
  with assms False show ?thesis by auto
qed

section \<open>Calls that run alone\<close>

text \<open>A ring at rest that holds \<open>xs\<close>.  One slot always stays free.\<close>

definition ring_at :: "nat \<Rightarrow> buf_ring \<Rightarrow> nat \<Rightarrow> ptr list \<Rightarrow> bool" where
  "ring_at b br k xs \<longleftrightarrow> ring_shape b br \<and> length xs < 2 ^ b \<and>
     br_prod_head br = slot b (k + length xs) \<and> br_prod_tail br = slot b (k + length xs) \<and>
     br_cons_head br = slot b k \<and> br_cons_tail br = slot b k \<and>
     (\<forall>i < length xs. br_ring br (slot b (k + i)) = xs ! i)"

definition ring_queue :: "nat \<Rightarrow> buf_ring \<Rightarrow> ptr list \<Rightarrow> bool" where
  "ring_queue b br xs \<longleftrightarrow> (\<exists>k. ring_at b br k xs)"

lemma ring_atD:
  assumes "ring_at b br k xs"
  shows "b < 32" and "length xs < 2 ^ b"
    and "br_prod_mask br = mask b" and "br_cons_mask br = mask b" and "br_prod_size br = of_nat (2 ^ b)"
    and "br_prod_head br = slot b (k + length xs)" and "br_prod_tail br = slot b (k + length xs)"
    and "br_cons_head br = slot b k" and "br_cons_tail br = slot b k"
    and "\<And>i. i < length xs \<Longrightarrow> br_ring br (slot b (k + i)) = xs ! i"
  using assms by (auto simp: ring_at_def ring_shape_def)

lemma enqueue_steps:
  assumes "br_prod_tail br = br_prod_head br"
  shows "buf_ring_enqueue_bytes br buf nbytes = Some
    (let prod_next = (br_prod_head br + 1) AND br_prod_mask br in
     if prod_next = br_cons_tail br then (ENOBUFS, br)
     else (0, br\<lparr>br_prod_head := prod_next, br_prod_tail := prod_next,
       br_prod_bufs := br_prod_bufs br + 1, br_prod_bytes := br_prod_bytes br + scast nbytes,
       br_ring := (br_ring br)(br_prod_head br := buf)\<rparr>))"
  using assms by (simp add: buf_ring_enqueue_bytes_def enq_run.simps Let_def)

lemma dequeue_mc_steps:
  assumes "br_cons_tail br = br_cons_head br"
  shows "buf_ring_dequeue_mc br = Some
    (let cons_next = (br_cons_head br + 1) AND br_cons_mask br in
     if br_cons_head br = br_prod_tail br then (NULL, br)
     else (br_ring br (br_cons_head br), br\<lparr>br_cons_head := cons_next, br_cons_tail := cons_next\<rparr>))"
  using assms by (simp add: buf_ring_dequeue_mc_def deq_run.simps Let_def)

lemma dequeue_sc_steps:
  "buf_ring_dequeue_sc br = Some
    (let cons_next = (br_cons_head br + 1) AND br_cons_mask br in
     if br_cons_head br = br_prod_tail br then (NULL, br)
     else (br_ring br (br_cons_head br), br\<lparr>br_cons_head := cons_next, br_cons_tail := cons_next\<rparr>))"
  by (simp add: buf_ring_dequeue_sc_def deq_run.simps Let_def)

lemma ring_at_full:
  assumes "ring_at b br k xs"
  shows "(br_prod_head br + 1) AND br_prod_mask br = slot b (Suc (k + length xs))"
    and "slot b (Suc (k + length xs)) = br_cons_tail br \<longleftrightarrow> Suc (length xs) = 2 ^ b"
  using ring_atD [OF assms] slot_full [of b k "k + length xs"] by (simp_all add: slot_Suc)

lemma ring_at_enqueue:
  assumes "ring_at b br k xs" and "length xs + 1 < 2 ^ b"
  shows "\<exists>br'. buf_ring_enqueue_bytes br buf nbytes = Some (0, br') \<and> ring_at b br' k (xs @ [buf])"
proof -
  note k = ring_atD [OF assms(1)] and full = ring_at_full [OF assms(1)]
  have other: "slot b (k + i) \<noteq> slot b (k + length xs)" if "i < length xs" for i
    using slot_near [of b "k + i" "k + length xs"] k(1,2) that by simp
  let ?br' = "br\<lparr>br_prod_head := slot b (Suc (k + length xs)), br_prod_tail := slot b (Suc (k + length xs)),
     br_prod_bufs := br_prod_bufs br + 1, br_prod_bytes := br_prod_bytes br + scast nbytes,
     br_ring := (br_ring br)(br_prod_head br := buf)\<rparr>"
  have "buf_ring_enqueue_bytes br buf nbytes = Some (0, ?br')"
    using full assms(2) k(6,7) by (simp add: enqueue_steps Let_def)
  moreover have "ring_at b ?br' k (xs @ [buf])"
    using assms k(6) other by (auto simp: ring_at_def ring_shape_def nth_append less_Suc_eq)
  ultimately show ?thesis by blast
qed

lemma ring_queue_enqueue:
  assumes "ring_queue b br xs"
  shows "\<exists>r br'. buf_ring_enqueue_bytes br buf nbytes = Some (r, br') \<and>
    (if length xs + 1 < 2 ^ b then r = 0 \<and> ring_queue b br' (xs @ [buf])
     else r = ENOBUFS \<and> br' = br)"
proof -
  from assms obtain k where at: "ring_at b br k xs" by (auto simp: ring_queue_def)
  show ?thesis
  proof (cases "length xs + 1 < 2 ^ b")
    case True
    with ring_at_enqueue [OF at, of buf nbytes] show ?thesis by (auto simp: ring_queue_def)
  next
    case False
    then have "Suc (length xs) = 2 ^ b" using ring_atD(2) [OF at] by simp
    with ring_at_full [OF at] ring_atD(6,7) [OF at] False show ?thesis by (simp add: enqueue_steps Let_def)
  qed
qed

lemma ring_at_dequeue:
  assumes at: "ring_at b br k (y # ys)"
  shows "\<exists>br'. buf_ring_dequeue_sc br = Some (y, br') \<and> ring_at b br' (Suc k) ys"
proof -
  note k = ring_atD [OF at]
  have "slot b k \<noteq> slot b (k + length (y # ys))" using slot_near [of b k "k + length (y # ys)"] k by simp
  moreover have "br_ring br (slot b k) = y" using k(10) [of 0] by simp
  moreover have "(slot b k + 1) AND mask b = slot b (Suc k)" using k(1) by (rule slot_Suc)
  moreover have "ring_at b (br\<lparr>br_cons_head := slot b (Suc k), br_cons_tail := slot b (Suc k)\<rparr>) (Suc k) ys"
    using at k(10) [of "Suc _"] by (auto simp: ring_at_def ring_shape_def)
  ultimately show ?thesis using k by (auto simp: dequeue_sc_steps Let_def)
qed

lemma ring_queue_dequeue:
  assumes "ring_queue b br xs"
  shows "buf_ring_dequeue_mc br = buf_ring_dequeue_sc br"
    and "xs = [] \<Longrightarrow> buf_ring_dequeue_sc br = Some (NULL, br)"
    and "xs = y # ys \<Longrightarrow> \<exists>br'. buf_ring_dequeue_sc br = Some (y, br') \<and> ring_queue b br' ys"
proof -
  from assms obtain k where at: "ring_at b br k xs" by (auto simp: ring_queue_def)
  note k = ring_atD [OF at]
  show "buf_ring_dequeue_mc br = buf_ring_dequeue_sc br"
    using k by (simp add: dequeue_mc_steps dequeue_sc_steps)
  show "xs = [] \<Longrightarrow> buf_ring_dequeue_sc br = Some (NULL, br)"
    using k by (simp add: dequeue_sc_steps)
  show "xs = y # ys \<Longrightarrow> \<exists>br'. buf_ring_dequeue_sc br = Some (y, br') \<and> ring_queue b br' ys"
    using at ring_at_dequeue [of b br k y ys] by (auto simp: ring_queue_def)
qed

lemma ring_distance:
  assumes "n < (m::nat)"
  shows "(m + (k + n) mod m - k mod m) mod m = n"
proof (cases "k mod m + n < m")
  case True
  then have "(k + n) mod m = k mod m + n" using assms by (simp flip: mod_add_left_eq [of k m n])
  with assms show ?thesis by simp
next
  case False
  define c where "c = k mod m"
  have c: "c < m" using assms by (simp add: c_def)
  have "(k + n) mod m = (c + n) mod m" by (simp add: c_def mod_add_left_eq)
  also have "\<dots> = c + n - m" using False assms c by (simp add: c_def [symmetric] le_mod_geq)
  finally have "m + (k + n) mod m - k mod m = n" using False c by (simp add: c_def [symmetric])
  with assms show ?thesis by simp
qed

lemma ring_queue_observers:
  assumes "ring_queue b br xs"
  shows "buf_ring_peek br = (case xs of [] \<Rightarrow> NULL | x # _ \<Rightarrow> x)"
    and "buf_ring_empty br \<longleftrightarrow> xs = []" and "buf_ring_full br \<longleftrightarrow> length xs + 1 = 2 ^ b"
    and "unat (buf_ring_count br) = length xs"
proof -
  from assms obtain k where at: "ring_at b br k xs" by (auto simp: ring_queue_def)
  note k = ring_atD [OF at]
  have near: "slot b k = slot b (k + length xs) \<longleftrightarrow> xs = []"
    using slot_near [of b k "k + length xs"] k by simp
  show "buf_ring_peek br = (case xs of [] \<Rightarrow> NULL | x # _ \<Rightarrow> x)"
    using near k(10) [of 0] k by (auto simp: buf_ring_peek_def split: list.splits)
  show "buf_ring_empty br \<longleftrightarrow> xs = []" using near k by (simp add: buf_ring_empty_def)
  show "buf_ring_full br \<longleftrightarrow> length xs + 1 = 2 ^ b"
    using slot_full [of b k "k + length xs"] k by (simp add: buf_ring_full_def slot_Suc)
  let ?S = "(2::nat) ^ b"
  let ?p = "(k + length xs) mod ?S" and ?c = "k mod ?S"
  have "?S \<le> 2 ^ 31" using k(1) by (intro power_increasing) auto
  then have S: "?S \<le> 2147483648" by simp
  have pc: "?p < ?S" "?c < ?S" by simp_all
  have size: "unat (of_nat ?S :: u32) = ?S" using S by (simp add: unat_of_nat del: of_nat_power)
  have "?S + ?p < 4294967296" using S pc by linarith
  then have "unat (of_nat ?S + slot b (k + length xs) :: u32) = ?S + ?p"
    using size k(1) by (simp add: unat_word_ariths unat_slot del: of_nat_power)
  moreover from this have "slot b k \<le> of_nat ?S + slot b (k + length xs)"
    using less_imp_le [OF pc(2)] k(1) by (simp add: word_le_nat_alt unat_slot trans_le_add1 del: of_nat_power)
  ultimately have "unat (of_nat ?S + slot b (k + length xs) - slot b k :: u32) = ?S + ?p - ?c"
    using k(1) by (simp add: unat_sub unat_slot del: of_nat_power)
  then show "unat (buf_ring_count br) = length xs"
    using k ring_distance [OF k(2)] by (simp add: buf_ring_count_def and_mask_unat del: of_nat_power)
qed

section \<open>One producer, one consumer\<close>

text \<open>The ring, what the producer is enqueueing and where it stands, where the consumer stands, and
  two histories: the elements published by \<open>EnqPublish\<close> and the elements a dequeue returned.\<close>

record spsc =
  sp_ring :: buf_ring
  sp_arg :: "ptr \<times> u32"
  sp_enq :: enq_pc
  sp_deq :: deq_pc
  sp_in :: "ptr list"
  sp_out :: "ptr list"

fun published :: "enq_pc \<Rightarrow> ptr \<Rightarrow> ptr list" where
  "published (EnqPublish h n) buf = [buf]"
| "published _ buf = []"

fun returned :: "deq_pc \<Rightarrow> ptr list" where
  "returned (McPublish n buf) = [buf]"
| "returned (ScPublish n buf) = [buf]"
| "returned _ = []"

text \<open>Each side takes its next step at any time; a side that has returned may call again, the
  consumer either of the two dequeues.\<close>

inductive spsc_step :: "spsc \<Rightarrow> spsc \<Rightarrow> bool" where
  enq_call: "sp_enq s = EnqRet r \<Longrightarrow> spsc_step s (s\<lparr>sp_arg := (buf, nbytes), sp_enq := EnqHead\<rparr>)"
| enq: "enq_step (fst (sp_arg s)) (snd (sp_arg s)) (sp_enq s) (sp_ring s) = (pc, br) \<Longrightarrow>
    spsc_step s (s\<lparr>sp_enq := pc, sp_ring := br, sp_in := sp_in s @ published (sp_enq s) (fst (sp_arg s))\<rparr>)"
| deq_call: "sp_deq s = DeqRet r \<Longrightarrow> pc = McHead \<or> pc = ScHead \<Longrightarrow> spsc_step s (s\<lparr>sp_deq := pc\<rparr>)"
| deq: "deq_step (sp_deq s) (sp_ring s) = (pc, br) \<Longrightarrow>
    spsc_step s (s\<lparr>sp_deq := pc, sp_ring := br, sp_out := sp_out s @ returned (sp_deq s)\<rparr>)"

definition spsc_start :: "nat \<Rightarrow> spsc \<Rightarrow> bool" where
  "spsc_start b s \<longleftrightarrow> ring_at b (sp_ring s) 0 [] \<and> sp_enq s = EnqRet 0 \<and> sp_deq s = DeqRet NULL \<and>
     sp_in s = [] \<and> sp_out s = []"

inductive spsc_reachable :: "nat \<Rightarrow> spsc \<Rightarrow> bool" for b where
  start: "spsc_start b s \<Longrightarrow> spsc_reachable b s"
| step: "spsc_reachable b s \<Longrightarrow> spsc_step s s' \<Longrightarrow> spsc_reachable b s'"

text \<open>Where the producer and the consumer stand with respect to the numbers \<open>n\<close> and \<open>k\<close> of elements
  published and returned so far.\<close>

definition enq_claimed :: "nat \<Rightarrow> nat \<Rightarrow> nat \<Rightarrow> u32 \<Rightarrow> u32 \<Rightarrow> buf_ring \<Rightarrow> bool" where
  "enq_claimed b n k h x br \<longleftrightarrow>
     br_prod_head br = slot b (Suc n) \<and> h = slot b n \<and> x = slot b (Suc n) \<and> Suc n < k + 2 ^ b"

definition deq_claimed :: "nat \<Rightarrow> nat \<Rightarrow> nat \<Rightarrow> u32 \<Rightarrow> u32 \<Rightarrow> buf_ring \<Rightarrow> bool" where
  "deq_claimed b n k c x br \<longleftrightarrow>
     br_cons_head br = slot b (Suc k) \<and> c = slot b k \<and> x = slot b (Suc k) \<and> k < n"

fun enq_ok :: "nat \<Rightarrow> nat \<Rightarrow> nat \<Rightarrow> ptr \<Rightarrow> enq_pc \<Rightarrow> buf_ring \<Rightarrow> bool" where
  "enq_ok b n k buf EnqHead br \<longleftrightarrow> br_prod_head br = slot b n"
| "enq_ok b n k buf (EnqTail h) br \<longleftrightarrow> br_prod_head br = slot b n \<and> h = slot b n"
| "enq_ok b n k buf (EnqCas h x) br \<longleftrightarrow>
     br_prod_head br = slot b n \<and> h = slot b n \<and> x = slot b (Suc n) \<and> Suc n < k + 2 ^ b"
| "enq_ok b n k buf (EnqStore h x) br \<longleftrightarrow> enq_claimed b n k h x br"
| "enq_ok b n k buf (EnqWait h x) br \<longleftrightarrow> enq_claimed b n k h x br \<and> br_ring br (slot b n) = buf"
| "enq_ok b n k buf (EnqBufs h x) br \<longleftrightarrow> enq_claimed b n k h x br \<and> br_ring br (slot b n) = buf"
| "enq_ok b n k buf (EnqBytes h x) br \<longleftrightarrow> enq_claimed b n k h x br \<and> br_ring br (slot b n) = buf"
| "enq_ok b n k buf (EnqPublish h x) br \<longleftrightarrow> enq_claimed b n k h x br \<and> br_ring br (slot b n) = buf"
| "enq_ok b n k buf (EnqRet r) br \<longleftrightarrow> br_prod_head br = slot b n"

fun deq_ok :: "nat \<Rightarrow> ptr list \<Rightarrow> nat \<Rightarrow> deq_pc \<Rightarrow> buf_ring \<Rightarrow> bool" where
  "deq_ok b xs k McHead br \<longleftrightarrow> br_cons_head br = slot b k"
| "deq_ok b xs k (McTail c) br \<longleftrightarrow> br_cons_head br = slot b k \<and> c = slot b k"
| "deq_ok b xs k (McCas c x) br \<longleftrightarrow>
     br_cons_head br = slot b k \<and> c = slot b k \<and> x = slot b (Suc k) \<and> k < length xs"
| "deq_ok b xs k (McRead c x) br \<longleftrightarrow> deq_claimed b (length xs) k c x br"
| "deq_ok b xs k (McWait c x buf) br \<longleftrightarrow> deq_claimed b (length xs) k c x br \<and> buf = xs ! k"
| "deq_ok b xs k (McPublish x buf) br \<longleftrightarrow> deq_claimed b (length xs) k (slot b k) x br \<and> buf = xs ! k"
| "deq_ok b xs k ScHead br \<longleftrightarrow> br_cons_head br = slot b k"
| "deq_ok b xs k (ScTail c) br \<longleftrightarrow> br_cons_head br = slot b k \<and> c = slot b k"
| "deq_ok b xs k (ScMove c x) br \<longleftrightarrow>
     br_cons_head br = slot b k \<and> c = slot b k \<and> x = slot b (Suc k) \<and> k < length xs"
| "deq_ok b xs k (ScRead c x) br \<longleftrightarrow> deq_claimed b (length xs) k c x br"
| "deq_ok b xs k (ScPublish x buf) br \<longleftrightarrow> deq_claimed b (length xs) k (slot b k) x br \<and> buf = xs ! k"
| "deq_ok b xs k (DeqRet r) br \<longleftrightarrow> br_cons_head br = slot b k"

lemmas claimed_defs = enq_claimed_def deq_claimed_def

definition shared_ok :: "nat \<Rightarrow> ptr list \<Rightarrow> nat \<Rightarrow> buf_ring \<Rightarrow> bool" where
  "shared_ok b xs k br \<longleftrightarrow> ring_shape b br \<and> k \<le> length xs \<and> length xs < k + 2 ^ b \<and>
     br_prod_tail br = slot b (length xs) \<and> br_cons_tail br = slot b k \<and>
     (\<forall>i. k \<le> i \<and> i < length xs \<longrightarrow> br_ring br (slot b i) = xs ! i)"

definition spsc_inv :: "nat \<Rightarrow> spsc \<Rightarrow> bool" where
  "spsc_inv b s \<longleftrightarrow>
     shared_ok b (sp_in s) (length (sp_out s)) (sp_ring s) \<and>
     enq_ok b (length (sp_in s)) (length (sp_out s)) (fst (sp_arg s)) (sp_enq s) (sp_ring s) \<and>
     deq_ok b (sp_in s) (length (sp_out s)) (sp_deq s) (sp_ring s) \<and>
     sp_out s = take (length (sp_out s)) (sp_in s)"

lemma enq_step_cons [simp]:
  "enq_step buf nb pc br = (pc', br') \<Longrightarrow> br_cons_head br' = br_cons_head br \<and> br_cons_tail br' = br_cons_tail br"
  by (cases pc) (auto simp: Let_def split: if_splits)

lemma deq_step_prod [simp]:
  "deq_step pc br = (pc', br') \<Longrightarrow> br_prod_head br' = br_prod_head br \<and>
     br_prod_tail br' = br_prod_tail br \<and> br_ring br' = br_ring br"
  by (cases pc) (auto simp: Let_def split: if_splits)

lemma enq_step_shape:
  "enq_step buf nb pc br = (pc', br') \<Longrightarrow> ring_shape b br' = ring_shape b br"
  by (cases pc) (auto simp: Let_def ring_shape_def split: if_splits)

lemma deq_step_shape: "deq_step pc br = (pc', br') \<Longrightarrow> ring_shape b br' = ring_shape b br"
  by (cases pc) (auto simp: Let_def ring_shape_def split: if_splits)

text \<open>A step of one side keeps what the other side relies on.\<close>

lemma deq_ok_enq:
  assumes "deq_ok b xs k pc br" and "br_cons_head br' = br_cons_head br"
  shows "deq_ok b (xs @ ys) k pc br'"
  using assms by (cases pc) (auto simp: claimed_defs nth_append)

lemma enq_ok_deq:
  assumes "enq_ok b n k buf pc br" and "br_prod_head br' = br_prod_head br" and "br_ring br' = br_ring br"
    and "k \<le> k'"
  shows "enq_ok b n k' buf pc br'"
  using assms by (cases pc) (auto simp: claimed_defs)

lemma enq_keeps:
  assumes step: "enq_step buf nb pc br = (pc', br')"
    and sh: "shared_ok b xs k br" and en: "enq_ok b (length xs) k buf pc br"
  shows "shared_ok b (xs @ published pc buf) k br' \<and>
    enq_ok b (length (xs @ published pc buf)) k buf pc' br'"
proof -
  have b: "b < 32" and m: "br_prod_mask br = mask b" using sh by (auto simp: shared_ok_def ring_shape_def)
  have near: "slot b i \<noteq> slot b (length xs)" if "k \<le> i" "i < length xs" for i
    using slot_near [of b i "length xs"] sh b that by (auto simp: shared_ok_def)
  have full: "slot b (Suc (length xs)) = slot b k \<longleftrightarrow> Suc (length xs) = k + 2 ^ b"
    using slot_full [of b k "length xs"] sh b by (simp add: shared_ok_def)
  show ?thesis
    using step sh en b m near full
    by (cases pc)
      (auto simp: shared_ok_def ring_shape_def claimed_defs Let_def slot_Suc nth_append less_Suc_eq split: if_splits)
qed

lemma deq_keeps:
  assumes step: "deq_step pc br = (pc', br')"
    and sh: "shared_ok b xs k br" and dq: "deq_ok b xs k pc br"
  shows "shared_ok b xs (k + length (returned pc)) br' \<and> deq_ok b xs (k + length (returned pc)) pc' br' \<and>
    (\<forall>x \<in> set (returned pc). x = xs ! k \<and> k < length xs)"
proof -
  have b: "b < 32" and m: "br_cons_mask br = mask b" using sh by (auto simp: shared_ok_def ring_shape_def)
  have near: "slot b k = slot b (length xs) \<longleftrightarrow> k = length xs"
    using slot_near [of b k "length xs"] sh b by (auto simp: shared_ok_def)
  show ?thesis
    using step sh dq b m near
    by (cases pc)
      (auto simp: shared_ok_def ring_shape_def claimed_defs Let_def slot_Suc split: if_splits)
qed

lemma spsc_inv_start: "spsc_start b s \<Longrightarrow> spsc_inv b s"
  by (auto simp: spsc_start_def ring_at_def spsc_inv_def shared_ok_def)

lemma spsc_inv_step:
  assumes "spsc_step s s'" and "spsc_inv b s"
  shows "spsc_inv b s'"
  using assms
proof (induction rule: spsc_step.induct)
  case (enq_call s r buf nbytes)
  then show ?case by (auto simp: spsc_inv_def)
next
  case (enq s pc br)
  have "br_cons_head br = br_cons_head (sp_ring s)" using enq_step_cons [OF enq.hyps] by simp
  moreover have "length (sp_out s) \<le> length (sp_in s)"
    using enq.prems by (simp add: spsc_inv_def shared_ok_def)
  ultimately show ?case using enq enq_keeps [OF enq.hyps] by (auto simp: spsc_inv_def intro: deq_ok_enq)
next
  case (deq_call s r pc)
  then show ?case by (auto simp: spsc_inv_def)
next
  case (deq s pc br)
  let ?k = "length (sp_out s)"
  from deq have sh: "shared_ok b (sp_in s) ?k (sp_ring s)" and dq: "deq_ok b (sp_in s) ?k (sp_deq s) (sp_ring s)"
    and en: "enq_ok b (length (sp_in s)) ?k (fst (sp_arg s)) (sp_enq s) (sp_ring s)"
    and out: "sp_out s = take ?k (sp_in s)" by (simp_all add: spsc_inv_def)
  note keeps = deq_keeps [OF deq.hyps sh dq]
  have "enq_ok b (length (sp_in s)) (?k + length (returned (sp_deq s))) (fst (sp_arg s)) (sp_enq s) br"
    using enq_ok_deq [OF en] deq_step_prod [OF deq.hyps] by simp
  moreover have "sp_out s @ returned (sp_deq s) = take (?k + length (returned (sp_deq s))) (sp_in s)"
    using keeps out by (cases "sp_deq s") (auto simp: take_Suc_conv_app_nth)
  moreover have "?k + length (returned (sp_deq s)) \<le> length (sp_in s)"
    using keeps by (simp add: shared_ok_def)
  ultimately show ?case using keeps by (simp add: spsc_inv_def min_absorb2)
qed

lemma spsc_reachable_inv: "spsc_reachable b s \<Longrightarrow> spsc_inv b s"
  by (induction rule: spsc_reachable.induct) (auto intro: spsc_inv_start spsc_inv_step)

text \<open>Steps a call still takes at most.\<close>

fun enq_rank :: "enq_pc \<Rightarrow> nat" where
  "enq_rank EnqHead = 8" | "enq_rank (EnqTail _) = 7" | "enq_rank (EnqCas _ _) = 6"
| "enq_rank (EnqStore _ _) = 5" | "enq_rank (EnqWait _ _) = 4" | "enq_rank (EnqBufs _ _) = 3"
| "enq_rank (EnqBytes _ _) = 2" | "enq_rank (EnqPublish _ _) = 1" | "enq_rank (EnqRet _) = 0"

fun deq_rank :: "deq_pc \<Rightarrow> nat" where
  "deq_rank McHead = 6" | "deq_rank (McTail _) = 5" | "deq_rank (McCas _ _) = 4"
| "deq_rank (McRead _ _) = 3" | "deq_rank (McWait _ _ _) = 2" | "deq_rank (McPublish _ _) = 1"
| "deq_rank ScHead = 5" | "deq_rank (ScTail _) = 4" | "deq_rank (ScMove _ _) = 3"
| "deq_rank (ScRead _ _) = 2" | "deq_rank (ScPublish _ _) = 1" | "deq_rank (DeqRet _) = 0"

section \<open>Properties\<close>

text \<open>With one producer and one consumer, interleaved at every access to a shared field and with
  either dequeue, the ring is a bounded first-in first-out queue: what the dequeues returned is a
  prefix of what the enqueues published, in order, and the elements between them, fewer than
  the ring has slots, are still in their slots.\<close>

lemma buf_ring_fifo:
  assumes "spsc_reachable b s"
  shows "sp_out s = take (length (sp_out s)) (sp_in s) \<and>
    length (sp_out s) \<le> length (sp_in s) \<and> length (sp_in s) < length (sp_out s) + 2 ^ b \<and>
    (\<forall>i. length (sp_out s) \<le> i \<and> i < length (sp_in s) \<longrightarrow> br_ring (sp_ring s) (slot b i) = sp_in s ! i)"
  using spsc_reachable_inv [OF assms] by (auto simp: spsc_inv_def shared_ok_def)

text \<open>With one producer and one consumer no call waits for the other side: in every reachable state
  each step of a call in progress brings it nearer to its return, so an enqueue returns after at
  most 8 steps of its own and a dequeue after at most 6.\<close>

lemma buf_ring_wait_free:
  assumes "spsc_reachable b s"
  shows "((\<nexists>r. sp_enq s = EnqRet r) \<longrightarrow>
      enq_rank (fst (enq_step (fst (sp_arg s)) (snd (sp_arg s)) (sp_enq s) (sp_ring s))) < enq_rank (sp_enq s)) \<and>
    ((\<nexists>r. sp_deq s = DeqRet r) \<longrightarrow>
      deq_rank (fst (deq_step (sp_deq s) (sp_ring s))) < deq_rank (sp_deq s)) \<and>
    enq_rank (sp_enq s) \<le> 8 \<and> deq_rank (sp_deq s) \<le> 6"
proof (intro conjI impI)
  note inv = spsc_reachable_inv [OF assms, unfolded spsc_inv_def shared_ok_def]
  show "enq_rank (fst (enq_step (fst (sp_arg s)) (snd (sp_arg s)) (sp_enq s) (sp_ring s))) < enq_rank (sp_enq s)"
    if "\<nexists>r. sp_enq s = EnqRet r" using inv that by (cases "sp_enq s") (auto simp: Let_def claimed_defs)
  show "deq_rank (fst (deq_step (sp_deq s) (sp_ring s))) < deq_rank (sp_deq s)"
    if "\<nexists>r. sp_deq s = DeqRet r" using inv that by (cases "sp_deq s") (auto simp: Let_def claimed_defs)
  show "enq_rank (sp_enq s) \<le> 8" by (cases "sp_enq s") auto
  show "deq_rank (sp_deq s) \<le> 6" by (cases "sp_deq s") auto
qed

text \<open>A call that runs alone on a ring of \<open>2 ^ b\<close> slots holding \<open>xs\<close> returns: an enqueue appends while
  fewer than \<open>2 ^ b - 1\<close> elements are held and else answers \<open>ENOBUFS\<close> with the ring unchanged; both
  dequeues agree, return the first element or \<open>NULL\<close>; peek, empty, full and count tell the
  first element, emptiness, fullness and the number of elements.\<close>

lemma buf_ring_alone:
  assumes "ring_queue b br xs"
  shows "(\<exists>r br'. buf_ring_enqueue_bytes br buf nbytes = Some (r, br') \<and>
      (if length xs + 1 < 2 ^ b then r = 0 \<and> ring_queue b br' (xs @ [buf]) else r = ENOBUFS \<and> br' = br)) \<and>
    buf_ring_dequeue_mc br = buf_ring_dequeue_sc br \<and>
    (case xs of [] \<Rightarrow> buf_ring_dequeue_sc br = Some (NULL, br)
     | y # ys \<Rightarrow> (\<exists>br'. buf_ring_dequeue_sc br = Some (y, br') \<and> ring_queue b br' ys)) \<and>
    buf_ring_peek br = (case xs of [] \<Rightarrow> NULL | x # _ \<Rightarrow> x) \<and>
    (buf_ring_empty br \<longleftrightarrow> xs = []) \<and> (buf_ring_full br \<longleftrightarrow> length xs + 1 = 2 ^ b) \<and>
    unat (buf_ring_count br) = length xs"
  using ring_queue_enqueue [OF assms] ring_queue_dequeue [OF assms] ring_queue_observers [OF assms]
  by (auto split: list.splits)

section \<open>Several producers\<close>

definition ring4 :: buf_ring where
  "ring4 = \<lparr>br_prod_head = 0, br_prod_tail = 0, br_prod_size = 4, br_prod_mask = 3,
     br_drops = 0, br_prod_bufs = 0, br_prod_bytes = 0,
     br_cons_head = 0, br_cons_tail = 0, br_cons_size = 4, br_cons_mask = 3, br_ring = (\<lambda>_. NULL)\<rparr>"

text \<open>Enqueue calls that run one after the other and are all accepted.\<close>

fun enqueue_all :: "ptr list \<Rightarrow> buf_ring \<Rightarrow> buf_ring option" where
  "enqueue_all [] br = Some br"
| "enqueue_all (p # ps) br = do { (r, br) \<leftarrow> buf_ring_enqueue br p; if r = 0 then enqueue_all ps br else None }"

lemma enqueue_all_at:
  "ring_at b br k xs \<Longrightarrow> length xs + length ps < 2 ^ b \<Longrightarrow> \<exists>br'. enqueue_all ps br = Some br' \<and> ring_at b br' k (xs @ ps)"
proof (induction ps arbitrary: br xs)
  case (Cons p ps)
  from ring_at_enqueue [OF Cons.prems(1), of p 0] Cons.prems(2) obtain br1 where
    1: "buf_ring_enqueue br p = Some (0, br1)" "ring_at b br1 k (xs @ [p])" by (auto simp: buf_ring_enqueue_def)
  from Cons.IH [OF 1(2)] Cons.prems(2) 1(1) show ?case by auto
qed simp

text \<open>A producer that stopped before its compare-and-set, with the head \<open>slot b k\<close> in hand, goes on in a ring that is full with the
  head there again.\<close>

lemma overtaken_enqueue:
  assumes "ring_at b br (Suc k) xs" and "Suc (length xs) = 2 ^ b"
  shows "\<exists>br'. enq_run buf nbytes (EnqCas (slot b k) (slot b (Suc k))) br = Some (0, br') \<and> ring_at b br' (Suc k) []"
proof -
  note k = ring_atD [OF assms(1)]
  have "slot b (Suc k + length xs) = slot b (k + 2 ^ b)" using assms(2) by (simp flip: assms(2))
  also have "\<dots> = slot b k" using k(1) by (simp add: slot_eq_iff)
  finally have h: "br_prod_head br = slot b k" "br_prod_tail br = slot b k" using k(6,7) by simp_all
  have "enq_run buf nbytes (EnqCas (slot b k) (slot b (Suc k))) br =
      Some (0, br\<lparr>br_prod_head := slot b (Suc k), br_prod_tail := slot b (Suc k), br_prod_bufs := br_prod_bufs br + 1,
        br_prod_bytes := br_prod_bytes br + scast nbytes, br_ring := (br_ring br)(slot b k := buf)\<rparr>)"
    using h by (simp add: enq_run.simps Let_def)
  with assms(1) show ?thesis by (auto simp: ring_at_def ring_shape_def)
qed

text \<open>C25 With two producers an enqueue that is overtaken overruns the ring, although the code is meant to be
  safe for several producers.  In an empty ring of any size \<open>2 ^ b\<close> above one, at any position: a producer reads the
  head and finds room; other calls then enqueue any \<open>2 ^ b - 1\<close> elements, dequeue the first and enqueue one more, all of them
  successfully, so that the ring is full and the head is back; the compare-and-set of the first producer still succeeds, its call
  returns 0, and the ring is then empty: its own element and the \<open>2 ^ b - 1\<close> queued ones are lost.\<close>

theorem buf_ring_overrun:
  assumes "ring_queue b br []" and "0 < b" and "length ps + 1 = 2 ^ b"
  shows "\<exists>h n br1 br2 br3 br4.
    enq_step buf nbytes EnqHead br = (EnqTail h, br) \<and> enq_step buf nbytes (EnqTail h) br = (EnqCas h n, br) \<and>
    enqueue_all ps br = Some br1 \<and> buf_ring_dequeue_mc br1 = Some (hd ps, br2) \<and> enqueue_all [q] br2 = Some br3 \<and>
    ring_queue b br3 (tl ps @ [q]) \<and>
    enq_run buf nbytes (EnqCas h n) br3 = Some (0, br4) \<and> ring_queue b br4 []"
proof -
  from assms(1) obtain k where at: "ring_at b br k []" by (auto simp: ring_queue_def)
  have one: "Suc 0 < 2 ^ b" using one_less_power [of "2 :: nat" b] assms(2) by simp
  then have "slot b (Suc k) \<noteq> br_cons_tail br" using ring_at_full(2) [OF at] by simp
  then have 0: "enq_step buf nbytes EnqHead br = (EnqTail (slot b k), br)"
    "enq_step buf nbytes (EnqTail (slot b k)) br = (EnqCas (slot b k) (slot b (Suc k)), br)"
    using ring_atD(6) [OF at] ring_at_full(1) [OF at] by (simp_all add: Let_def)
  obtain p ps' where ps: "ps = p # ps'" using assms(3) one by (cases ps) auto
  from enqueue_all_at [OF at, of ps] assms(3) obtain br1 where
    1: "enqueue_all ps br = Some br1" "ring_at b br1 k (p # ps')" by (auto simp: ps)
  from ring_at_dequeue [OF 1(2)] obtain br2 where 2: "buf_ring_dequeue_sc br1 = Some (p, br2)" "ring_at b br2 (Suc k) ps'"
    by blast
  have "buf_ring_dequeue_mc br1 = Some (p, br2)"
    using 2(1) ring_queue_dequeue(1) [of b br1 "p # ps'"] 1(2) by (auto simp: ring_queue_def)
  moreover from enqueue_all_at [OF 2(2), of "[q]"] assms(3) obtain br3 where
    3: "enqueue_all [q] br2 = Some br3" "ring_at b br3 (Suc k) (ps' @ [q])" by (auto simp: ps)
  moreover from overtaken_enqueue [OF 3(2)] assms(3) obtain br4 where
    "enq_run buf nbytes (EnqCas (slot b k) (slot b (Suc k))) br3 = Some (0, br4)" "ring_at b br4 (Suc k) []" by (auto simp: ps)
  ultimately show ?thesis using 0 1(1) unfolding ring_queue_def ps list.sel by blast
qed

section \<open>Witnesses\<close>

definition spsc4 :: "ptr \<Rightarrow> enq_pc \<Rightarrow> spsc" where
  "spsc4 buf pc = \<lparr>sp_ring = ring4, sp_arg = (buf, 0), sp_enq = pc, sp_deq = DeqRet NULL, sp_in = [], sp_out = []\<rparr>"

lemma ring4_at: "ring_at 2 ring4 0 []"
  by (simp add: ring_at_def ring_shape_def ring4_def slot_def mask_eq_exp_minus_1)

definition enq_move :: "spsc \<Rightarrow> spsc" where
  "enq_move s = (let (pc, br) = enq_step (fst (sp_arg s)) (snd (sp_arg s)) (sp_enq s) (sp_ring s) in
     s\<lparr>sp_enq := pc, sp_ring := br, sp_in := sp_in s @ published (sp_enq s) (fst (sp_arg s))\<rparr>)"

definition deq_move :: "spsc \<Rightarrow> spsc" where
  "deq_move s = (let (pc, br) = deq_step (sp_deq s) (sp_ring s) in
     s\<lparr>sp_deq := pc, sp_ring := br, sp_out := sp_out s @ returned (sp_deq s)\<rparr>)"

lemma moves_reachable:
  assumes "spsc_reachable b s"
  shows "spsc_reachable b (enq_move s)" and "spsc_reachable b (deq_move s)"
  using assms by (auto intro!: spsc_reachable.step [OF assms] spsc_step.enq spsc_step.deq
      simp: enq_move_def deq_move_def Let_def split: prod.splits)

lemma moves_funpow_reachable:
  assumes "spsc_reachable b s"
  shows "spsc_reachable b ((enq_move ^^ n) s)" and "spsc_reachable b ((deq_move ^^ n) s)"
  using assms by (induction n) (auto intro: moves_reachable)

lemma spsc4_reachable: "spsc_reachable 2 (spsc4 7 EnqHead)"
proof (rule spsc_reachable.step)
  show "spsc_reachable 2 (spsc4 0 (EnqRet 0))"
    by (rule spsc_reachable.start) (simp add: spsc_start_def spsc4_def ring4_at)
  show "spsc_step (spsc4 0 (EnqRet 0)) (spsc4 7 EnqHead)"
    using spsc_step.enq_call [of "spsc4 0 (EnqRet 0)" 0 7 0] by (simp add: spsc4_def)
qed

text \<open>The producer enqueues 7 and the consumer dequeues it.\<close>

definition spsc4_passed :: spsc where
  "spsc4_passed = (deq_move ^^ 6) ((enq_move ^^ 8) (spsc4 7 EnqHead)\<lparr>sp_deq := McHead\<rparr>)"

lemma spsc4_passed_reachable: "spsc_reachable 2 spsc4_passed"
  unfolding spsc4_passed_def
proof (rule moves_funpow_reachable(2), rule spsc_reachable.step)
  show "spsc_reachable 2 ((enq_move ^^ 8) (spsc4 7 EnqHead))"
    by (rule moves_funpow_reachable(1)) (rule spsc4_reachable)
  have "sp_deq ((enq_move ^^ n) (spsc4 7 EnqHead)) = DeqRet NULL" for n
    by (induction n) (simp_all add: spsc4_def enq_move_def Let_def split: prod.splits)
  then show "spsc_step ((enq_move ^^ 8) (spsc4 7 EnqHead)) ((enq_move ^^ 8) (spsc4 7 EnqHead)\<lparr>sp_deq := McHead\<rparr>)"
    by (rule spsc_step.deq_call) simp
qed

lemma spsc4_passed_simps: "sp_in spsc4_passed = [7]" "sp_out spsc4_passed = [7]"
  by (simp_all add: spsc4_passed_def spsc4_def ring4_def enq_move_def deq_move_def Let_def numeral_eq_Suc)

lemma buf_ring_fifo_witness:
  "sp_in spsc4_passed = [7] \<and> sp_out spsc4_passed = take 1 (sp_in spsc4_passed)"
  using buf_ring_fifo [OF spsc4_passed_reachable] spsc4_passed_simps by simp

lemma buf_ring_wait_free_witness:
  "enq_rank (fst (enq_step 7 0 EnqHead ring4)) < enq_rank EnqHead"
  using buf_ring_wait_free [OF spsc4_reachable] by (simp add: spsc4_def)

lemma buf_ring_alone_witness:
  "\<exists>br'. buf_ring_enqueue_bytes ring4 5 100 = Some (0, br') \<and> ring_queue 2 br' [5]"
proof -
  have "ring_queue 2 ring4 []" using ring4_at by (auto simp: ring_queue_def)
  from buf_ring_alone [OF this, of 5 100] show ?thesis by auto
qed

theorem buf_ring_overrun_witness:
  "\<exists>h n br1 br2 br3 br4.
    enq_step 9 0 EnqHead ring4 = (EnqTail h, ring4) \<and> enq_step 9 0 (EnqTail h) ring4 = (EnqCas h n, ring4) \<and>
    enqueue_all [1, 2, 3] ring4 = Some br1 \<and> buf_ring_dequeue_mc br1 = Some (1, br2) \<and> enqueue_all [4] br2 = Some br3 \<and>
    ring_queue 2 br3 [2, 3, 4] \<and> enq_run 9 0 (EnqCas h n) br3 = Some (0, br4) \<and> ring_queue 2 br4 []"
proof -
  have "ring_queue 2 ring4 []" using ring4_at by (auto simp: ring_queue_def)
  from buf_ring_overrun [OF this, of "[1, 2, 3]" 9 0 4] show ?thesis by simp
qed

end
