(* ===== verification/Mbufs.thy ===== *)
theory Mbufs
  imports Sys_Queue
begin

unbundle bit_operations_syntax

text \<open>
  Network buffers, \<open>include/sys/mbuf.h\<close>: allocation, release, clusters, the space before and
  after the data, the fields packed in the flags, packet tags.  An mbuf is 256 bytes at its address:
  the header (40 bytes), then the packet header (48 bytes, with \<open>M_PKTHDR\<close>) and the internal data.  The bytes of
  the data are not modelled, only where they are.  The zone allocator and the functions
  of the kernel the inlined code calls are fields of \<open>mb_fns\<close>; calls of the zone allocator are recorded.  A panic and
  an access through a pointer that is no mbuf are \<open>None\<close>.

  Shown: the space before the data, the data and the space behind it fill the data area, and prepending
  takes from the first part; alignment; allocation with a cluster gives everything back when
  it fails; sizes, types and zones of clusters agree; packed fields are independent; tags form a list.
\<close>

section \<open>Structures\<close>

record mbuf =
  m_next :: ptr
  m_nextpkt :: ptr
  m_data :: ptr
  m_len :: u32
  m_flags :: u32
  m_type :: u16
  m_pkthdr_len :: u32
  ext_buf :: ptr
  ext_free :: ptr
  ext_arg1 :: ptr
  ext_arg2 :: ptr
  ext_size :: u32
  ref_cnt :: ptr
  ext_type :: u32

type_synonym mheap = "ptr \<Rightarrow> mbuf option"

abbreviation MSIZE :: u32 where "MSIZE \<equiv> 256"
abbreviation MLEN :: u64 where "MLEN \<equiv> 216"
abbreviation MHLEN :: u64 where "MHLEN \<equiv> 168"
abbreviation MCLBYTES :: u32 where "MCLBYTES \<equiv> 2048"
abbreviation MJUMPAGESIZE :: u32 where "MJUMPAGESIZE \<equiv> 4096"
abbreviation MJUM9BYTES :: u32 where "MJUM9BYTES \<equiv> 9216"
abbreviation MJUM16BYTES :: u32 where "MJUM16BYTES \<equiv> 16384"

abbreviation M_EXT :: u32 where "M_EXT \<equiv> 1"
abbreviation M_PKTHDR :: u32 where "M_PKTHDR \<equiv> 2"
abbreviation M_RDONLY :: u32 where "M_RDONLY \<equiv> 8"
abbreviation M_MCAST :: u32 where "M_MCAST \<equiv> 0x400"
abbreviation M_NOFREE :: u32 where "M_NOFREE \<equiv> 0x40000"
abbreviation M_HASHTYPEBITS :: u32 where "M_HASHTYPEBITS \<equiv> 0x0F000000"
abbreviation M_FIB :: u32 where "M_FIB \<equiv> 0xF0000000"
abbreviation M_NOWAIT :: u32 where "M_NOWAIT \<equiv> 1"

abbreviation EXT_CLUSTER :: u32 where "EXT_CLUSTER \<equiv> 1"
abbreviation EXT_JUMBOP :: u32 where "EXT_JUMBOP \<equiv> 3"
abbreviation EXT_JUMBO9 :: u32 where "EXT_JUMBO9 \<equiv> 4"
abbreviation EXT_JUMBO16 :: u32 where "EXT_JUMBO16 \<equiv> 5"
abbreviation EXT_MBUF :: u32 where "EXT_MBUF \<equiv> 7"

text \<open>Addresses inside the mbuf at \<open>m\<close>.\<close>

definition m_dat :: "ptr \<Rightarrow> ptr" where
  "m_dat m = m + 40"

definition m_pktdat :: "ptr \<Rightarrow> ptr" where
  "m_pktdat m = m + 88"

definition m_tags :: "ptr \<Rightarrow> ptr" where
  "m_tags m = m + 80"

section \<open>Allocation\<close>

datatype uma_zone = zone_mbuf | zone_clust | zone_pack | zone_jumbop | zone_jumbo9 | zone_jumbo16

datatype zone_arg = mb_args u32 u16 | to_mbuf ptr

datatype zone_call = ZAlloc uma_zone zone_arg ptr | ZFree uma_zone ptr

record mb_state =
  mb_heap :: mheap
  mb_refs :: "ptr \<Rightarrow> u32"
  mb_calls :: "zone_call list"

record mb_fns =
  fn_zalloc :: "uma_zone \<Rightarrow> zone_arg \<Rightarrow> u32 \<Rightarrow> mb_state \<Rightarrow> ptr \<times> mb_state"
  fn_zfree :: "uma_zone \<Rightarrow> ptr \<Rightarrow> mb_state \<Rightarrow> mb_state"
  fn_mb_free_ext :: "ptr \<Rightarrow> mb_state \<Rightarrow> mb_state"
  fn_pkthdr_init :: "ptr \<Rightarrow> u32 \<Rightarrow> mb_state \<Rightarrow> u32 \<times> mb_state"
  fn_bzero :: "ptr \<Rightarrow> u64 \<Rightarrow> mb_state \<Rightarrow> mb_state"
  fn_zone_drain :: "uma_zone \<Rightarrow> mb_state \<Rightarrow> mb_state"
  fn_find_refcnt :: "uma_zone \<Rightarrow> ptr \<Rightarrow> ptr"
  fn_m_prepend :: "ptr \<Rightarrow> u32 \<Rightarrow> u32 \<Rightarrow> mb_state \<Rightarrow> ptr \<times> mb_state"

definition uma_zalloc_arg :: "mb_fns \<Rightarrow> uma_zone \<Rightarrow> zone_arg \<Rightarrow> u32 \<Rightarrow> mb_state \<Rightarrow> ptr \<times> mb_state" where
  "uma_zalloc_arg k z a how s =
     (case fn_zalloc k z a how s of (p, t) \<Rightarrow> (p, t\<lparr>mb_calls := mb_calls s @ [ZAlloc z a p]\<rparr>))"

definition uma_zfree :: "mb_fns \<Rightarrow> uma_zone \<Rightarrow> ptr \<Rightarrow> mb_state \<Rightarrow> mb_state" where
  "uma_zfree k z p s = (fn_zfree k z p s)\<lparr>mb_calls := mb_calls s @ [ZFree z p]\<rparr>"

definition upd_mbuf :: "ptr \<Rightarrow> (mbuf \<Rightarrow> mbuf) \<Rightarrow> mb_state \<Rightarrow> mb_state option" where
  "upd_mbuf m f s = map_option (\<lambda>b. s\<lparr>mb_heap := (mb_heap s)(m \<mapsto> f b)\<rparr>) (mb_heap s m)"

definition m_gettype :: "u32 \<Rightarrow> u32 option" where
  "m_gettype sz =
     (if sz = MSIZE then Some EXT_MBUF
      else if sz = MCLBYTES then Some EXT_CLUSTER
      else if sz = MJUMPAGESIZE then Some EXT_JUMBOP
      else if sz = MJUM9BYTES then Some EXT_JUMBO9
      else if sz = MJUM16BYTES then Some EXT_JUMBO16
      else None)"

definition m_getzone :: "u32 \<Rightarrow> uma_zone option" where
  "m_getzone sz =
     (if sz = MSIZE then Some zone_mbuf
      else if sz = MCLBYTES then Some zone_clust
      else if sz = MJUMPAGESIZE then Some zone_jumbop
      else if sz = MJUM9BYTES then Some zone_jumbo9
      else if sz = MJUM16BYTES then Some zone_jumbo16
      else None)"

definition m_init :: "mb_fns \<Rightarrow> ptr \<Rightarrow> u32 \<Rightarrow> u16 \<Rightarrow> u32 \<Rightarrow> mb_state \<Rightarrow> (u32 \<times> mb_state) option" where
  "m_init k m how type flags s = do {
     s \<leftarrow> upd_mbuf m (\<lambda>b. b\<lparr>m_next := NULL, m_nextpkt := NULL, m_data := m_dat m, m_len := 0,
            m_flags := flags, m_type := type\<rparr>) s;
     if flags AND M_PKTHDR \<noteq> 0 then Some (fn_pkthdr_init k m how s) else Some (0, s) }"

definition m_get :: "mb_fns \<Rightarrow> u32 \<Rightarrow> u16 \<Rightarrow> mb_state \<Rightarrow> ptr \<times> mb_state" where
  "m_get k how type s = uma_zalloc_arg k zone_mbuf (mb_args 0 type) how s"

definition m_getclr :: "mb_fns \<Rightarrow> u32 \<Rightarrow> u16 \<Rightarrow> mb_state \<Rightarrow> (ptr \<times> mb_state) option" where
  "m_getclr k how type s =
     (let (m, s) = uma_zalloc_arg k zone_mbuf (mb_args 0 type) how s
      in if m \<noteq> NULL then do { b \<leftarrow> mb_heap s m; Some (m, fn_bzero k (m_data b) MLEN s) } else Some (m, s))"

definition m_gethdr :: "mb_fns \<Rightarrow> u32 \<Rightarrow> u16 \<Rightarrow> mb_state \<Rightarrow> ptr \<times> mb_state" where
  "m_gethdr k how type s = uma_zalloc_arg k zone_mbuf (mb_args M_PKTHDR type) how s"

definition m_getcl :: "mb_fns \<Rightarrow> u32 \<Rightarrow> u16 \<Rightarrow> u32 \<Rightarrow> mb_state \<Rightarrow> ptr \<times> mb_state" where
  "m_getcl k how type flags s = uma_zalloc_arg k zone_pack (mb_args flags type) how s"

definition m_getjcl :: "mb_fns \<Rightarrow> u32 \<Rightarrow> u16 \<Rightarrow> u32 \<Rightarrow> u32 \<Rightarrow> mb_state \<Rightarrow> (ptr \<times> mb_state) option" where
  "m_getjcl k how type flags sz s =
     (if sz = MCLBYTES then Some (m_getcl k how type flags s)
      else (let (m, s) = uma_zalloc_arg k zone_mbuf (mb_args flags type) how s in
        if m = NULL then Some (NULL, s)
        else do {
          zone \<leftarrow> m_getzone sz;
          let (n, s) = uma_zalloc_arg k zone (to_mbuf m) how s;
          if n = NULL then Some (NULL, uma_zfree k zone_mbuf m s) else Some (m, s) }))"

definition m_free :: "mb_fns \<Rightarrow> ptr \<Rightarrow> mb_state \<Rightarrow> (ptr \<times> mb_state) option" where
  "m_free k m s = do {
     b \<leftarrow> mb_heap s m;
     let n = m_next b;
     Some (n, if m_flags b AND M_EXT \<noteq> 0 then fn_mb_free_ext k m s
              else if m_flags b AND M_NOFREE = 0 then uma_zfree k zone_mbuf m s else s) }"

definition m_clget :: "mb_fns \<Rightarrow> ptr \<Rightarrow> u32 \<Rightarrow> mb_state \<Rightarrow> mb_state option" where
  "m_clget k m how s = do {
     s \<leftarrow> upd_mbuf m (\<lambda>b. b\<lparr>ext_buf := NULL\<rparr>) s;
     let s = snd (uma_zalloc_arg k zone_clust (to_mbuf m) how s);
     b \<leftarrow> mb_heap s m;
     Some (if how AND M_NOWAIT \<noteq> 0 \<and> ext_buf b = NULL
           then snd (uma_zalloc_arg k zone_clust (to_mbuf m) how (fn_zone_drain k zone_pack s)) else s) }"

definition m_cljget :: "mb_fns \<Rightarrow> ptr \<Rightarrow> u32 \<Rightarrow> u32 \<Rightarrow> mb_state \<Rightarrow> (ptr \<times> mb_state) option" where
  "m_cljget k m how sz s = do {
     s \<leftarrow> (if m \<noteq> NULL then upd_mbuf m (\<lambda>b. b\<lparr>ext_buf := NULL\<rparr>) s else Some s);
     zone \<leftarrow> m_getzone sz;
     Some (uma_zalloc_arg k zone (to_mbuf m) how s) }"

definition cluster_of_type :: "u32 \<Rightarrow> (u32 \<times> uma_zone) option" where
  "cluster_of_type type =
     (if type = EXT_CLUSTER then Some (MCLBYTES, zone_clust)
      else if type = EXT_JUMBOP then Some (MJUMPAGESIZE, zone_jumbop)
      else if type = EXT_JUMBO9 then Some (MJUM9BYTES, zone_jumbo9)
      else if type = EXT_JUMBO16 then Some (MJUM16BYTES, zone_jumbo16)
      else None)"

definition m_cljset :: "mb_fns \<Rightarrow> ptr \<Rightarrow> ptr \<Rightarrow> u32 \<Rightarrow> mb_state \<Rightarrow> mb_state option" where
  "m_cljset k m cl type s = do {
     (sz, zone) \<leftarrow> cluster_of_type type;
     upd_mbuf m (\<lambda>b. b\<lparr>m_data := cl, ext_buf := cl, ext_free := NULL, ext_arg1 := NULL, ext_arg2 := NULL,
       ext_size := sz, ext_type := type, ref_cnt := fn_find_refcnt k zone cl, m_flags := m_flags b OR M_EXT\<rparr>) s }"

definition m_chtype :: "ptr \<Rightarrow> u16 \<Rightarrow> mb_state \<Rightarrow> mb_state option" where
  "m_chtype m new_type s = upd_mbuf m (\<lambda>b. b\<lparr>m_type := new_type\<rparr>) s"

partial_function (option) m_last :: "mb_state \<Rightarrow> ptr \<Rightarrow> ptr option" where
  "m_last s m = do {
     b \<leftarrow> mb_heap s m;
     if m_next b \<noteq> NULL then m_last s (m_next b) else Some m }"

section \<open>Space\<close>

definition M_WRITABLE :: "mb_state \<Rightarrow> mbuf \<Rightarrow> bool" where
  "M_WRITABLE s b \<longleftrightarrow> m_flags b AND M_RDONLY = 0 \<and> (m_flags b AND M_EXT = 0 \<or> mb_refs s (ref_cnt b) = 1)"

definition M_ALIGN :: "mbuf \<Rightarrow> u32 \<Rightarrow> mbuf" where
  "M_ALIGN b len = b\<lparr>m_data := m_data b + ((MLEN - scast len) AND NOT 7)\<rparr>"

definition MH_ALIGN :: "mbuf \<Rightarrow> u32 \<Rightarrow> mbuf" where
  "MH_ALIGN b len = b\<lparr>m_data := m_data b + ((MHLEN - scast len) AND NOT 7)\<rparr>"

definition M_LEADINGSPACE :: "mb_state \<Rightarrow> ptr \<Rightarrow> mbuf \<Rightarrow> u64" where
  "M_LEADINGSPACE s m b =
     (if m_flags b AND M_EXT \<noteq> 0 then (if M_WRITABLE s b then m_data b - ext_buf b else 0)
      else if m_flags b AND M_PKTHDR \<noteq> 0 then m_data b - m_pktdat m
      else m_data b - m_dat m)"

definition M_TRAILINGSPACE :: "mb_state \<Rightarrow> ptr \<Rightarrow> mbuf \<Rightarrow> u64" where
  "M_TRAILINGSPACE s m b =
     (if m_flags b AND M_EXT \<noteq> 0
      then (if M_WRITABLE s b then ext_buf b + ucast (ext_size b) - (m_data b + scast (m_len b)) else 0)
      else m_dat m + MLEN - (m_data b + scast (m_len b)))"

definition M_PREPEND :: "mb_fns \<Rightarrow> ptr \<Rightarrow> u32 \<Rightarrow> u32 \<Rightarrow> mb_state \<Rightarrow> (ptr \<times> mb_state) option" where
  "M_PREPEND k m plen how s = do {
     b \<leftarrow> mb_heap s m;
     (mm, s) \<leftarrow> (if sint (M_LEADINGSPACE s m b) \<ge> sint plen
       then do { s \<leftarrow> upd_mbuf m (\<lambda>b. b\<lparr>m_data := m_data b - scast plen, m_len := m_len b + plen\<rparr>) s; Some (m, s) }
       else Some (fn_m_prepend k m plen how s));
     if mm = NULL then Some (mm, s)
     else do {
       b \<leftarrow> mb_heap s mm;
       if m_flags b AND M_PKTHDR \<noteq> 0
       then do { s \<leftarrow> upd_mbuf mm (\<lambda>b. b\<lparr>m_pkthdr_len := m_pkthdr_len b + plen\<rparr>) s; Some (mm, s) }
       else Some (mm, s) } }"

section \<open>Fields in the flags\<close>

definition M_HASHTYPE_CLEAR :: "mbuf \<Rightarrow> mbuf" where
  "M_HASHTYPE_CLEAR b = b\<lparr>m_flags := m_flags b AND NOT M_HASHTYPEBITS\<rparr>"

definition M_HASHTYPE_GET :: "mbuf \<Rightarrow> u32" where
  "M_HASHTYPE_GET b = drop_bit 24 (m_flags b AND M_HASHTYPEBITS)"

definition M_HASHTYPE_SET :: "mbuf \<Rightarrow> u32 \<Rightarrow> mbuf" where
  "M_HASHTYPE_SET b v =
     (let b = b\<lparr>m_flags := m_flags b AND NOT M_HASHTYPEBITS\<rparr> in b\<lparr>m_flags := m_flags b OR push_bit 24 v\<rparr>)"

definition M_HASHTYPE_TEST :: "mbuf \<Rightarrow> u32 \<Rightarrow> bool" where
  "M_HASHTYPE_TEST b v \<longleftrightarrow> M_HASHTYPE_GET b = v"

definition M_GETFIB :: "mbuf \<Rightarrow> u32" where
  "M_GETFIB b = drop_bit 28 (m_flags b AND M_FIB) AND 0x0F"

definition M_SETFIB :: "mbuf \<Rightarrow> u32 \<Rightarrow> mbuf" where
  "M_SETFIB b fib =
     (let b = b\<lparr>m_flags := m_flags b AND NOT M_FIB\<rparr> in b\<lparr>m_flags := m_flags b OR (push_bit 28 fib AND M_FIB)\<rparr>)"

section \<open>Packet tags\<close>

record m_tag =
  m_tag_id :: u16
  m_tag_len :: u16
  m_tag_cookie :: u32

definition m_tag_init :: "ptr \<Rightarrow> qheap \<Rightarrow> qheap option" where
  "m_tag_init m H = SLIST_INIT (m_tags m) H"

definition m_tag_setup :: "m_tag \<Rightarrow> u32 \<Rightarrow> u32 \<Rightarrow> u32 \<Rightarrow> m_tag" where
  "m_tag_setup t cookie type len = t\<lparr>m_tag_id := ucast type, m_tag_len := ucast len, m_tag_cookie := cookie\<rparr>"

definition m_tag_first :: "qheap \<Rightarrow> ptr \<Rightarrow> ptr option" where
  "m_tag_first H m = SLIST_FIRST H (m_tags m)"

definition m_tag_next :: "qheap \<Rightarrow> ptr \<Rightarrow> ptr option" where
  "m_tag_next H t = SLIST_NEXT H t"

definition m_tag_prepend :: "ptr \<Rightarrow> ptr \<Rightarrow> qheap \<Rightarrow> qheap option" where
  "m_tag_prepend m t H = SLIST_INSERT_HEAD (m_tags m) t H"

definition m_tag_unlink :: "ptr \<Rightarrow> ptr \<Rightarrow> qheap \<Rightarrow> qheap option" where
  "m_tag_unlink m t H = SLIST_REMOVE (m_tags m) t H"

definition m_tag_find ::
  "(ptr \<Rightarrow> u32 \<Rightarrow> u32 \<Rightarrow> ptr \<Rightarrow> ptr option) \<Rightarrow> qheap \<Rightarrow> ptr \<Rightarrow> u32 \<Rightarrow> ptr \<Rightarrow> ptr option" where
  "m_tag_find m_tag_locate H m type start = do {
     e \<leftarrow> SLIST_EMPTY H (m_tags m);
     if e then Some NULL else m_tag_locate m 0 type start }"

section \<open>The data area\<close>

definition data_base :: "ptr \<Rightarrow> mbuf \<Rightarrow> ptr" where
  "data_base m b = (if m_flags b AND M_EXT \<noteq> 0 then ext_buf b
     else if m_flags b AND M_PKTHDR \<noteq> 0 then m_pktdat m else m_dat m)"

definition data_size :: "mbuf \<Rightarrow> nat" where
  "data_size b = (if m_flags b AND M_EXT \<noteq> 0 then unat (ext_size b)
     else if m_flags b AND M_PKTHDR \<noteq> 0 then 168 else 216)"

text \<open>The data of the mbuf lie in its data area, which is smaller than 2 GiB.\<close>

definition mb_ok :: "ptr \<Rightarrow> mbuf \<Rightarrow> bool" where
  "mb_ok m b \<longleftrightarrow> unat (m_data b - data_base m b) + unat (m_len b) \<le> data_size b \<and> data_size b < 2 ^ 31"

definition own_data :: "mb_state \<Rightarrow> mbuf \<Rightarrow> bool" where
  "own_data s b \<longleftrightarrow> m_flags b AND M_EXT \<noteq> 0 \<longrightarrow> M_WRITABLE s b"

lemma data_area_same [simp]:
  "data_base m (b\<lparr>m_data := x, m_len := y, m_pkthdr_len := z\<rparr>) = data_base m b"
  "data_size (b\<lparr>m_data := x, m_len := y, m_pkthdr_len := z\<rparr>) = data_size b"
  by (simp_all add: data_base_def data_size_def)

lemma scast_len: "unat (x :: u32) < 2 ^ 31 \<Longrightarrow> (scast x :: u64) = of_nat (unat x)"
  using scast_small [of x] by simp

lemma M_LEADINGSPACE_eq: "own_data s b \<Longrightarrow> M_LEADINGSPACE s m b = m_data b - data_base m b"
  by (auto simp: M_LEADINGSPACE_def data_base_def own_data_def)

lemma M_TRAILINGSPACE_eq:
  "own_data s b \<Longrightarrow> M_TRAILINGSPACE s m b = data_base m b + of_nat (data_size b) - (m_data b + scast (m_len b))"
  by (auto simp: M_TRAILINGSPACE_def data_base_def data_size_def own_data_def m_dat_def m_pktdat_def unat_ucast_u32)

lemma unat_of_nat_small: "n < 2 ^ 64 \<Longrightarrow> unat (of_nat n :: u64) = n"
  by (simp add: unat_of_nat)

lemma unat_plus_small: "unat (x :: u64) + n < 2 ^ 64 \<Longrightarrow> unat (x + of_nat n) = unat x + n"
  by (simp add: unat_word_ariths unat_of_nat)

lemma mb_ok_trailing:
  assumes "mb_ok m b" "own_data s b"
  shows "unat (M_TRAILINGSPACE s m b) = data_size b - unat (m_data b - data_base m b) - unat (m_len b)"
proof -
  let ?off = "m_data b - data_base m b"
  have len: "unat (m_len b) < 2 ^ 31" and le: "unat ?off + unat (m_len b) \<le> data_size b"
    and n: "data_size b < 2 ^ 31" using assms(1) by (auto simp: mb_ok_def)
  have "M_TRAILINGSPACE s m b = of_nat (data_size b) - (?off + of_nat (unat (m_len b)))"
    unfolding M_TRAILINGSPACE_eq [OF assms(2)] scast_len [OF len] by simp
  also have "\<dots> = of_nat (data_size b) - of_nat (unat ?off + unat (m_len b))" by simp
  also have "\<dots> = of_nat (data_size b - (unat ?off + unat (m_len b)))" using le by (simp only: of_nat_diff)
  finally show ?thesis using n by (simp add: unat_of_nat)
qed

text \<open>Moving the start of the data back by what is free in front of it.\<close>

lemma mb_ok_prepend:
  assumes "mb_ok m b" "unat plen \<le> unat (m_data b - data_base m b)" "unat plen < 2 ^ 31"
  shows "mb_ok m (b\<lparr>m_data := m_data b - scast plen, m_len := m_len b + plen, m_pkthdr_len := l\<rparr>)"
    and "unat (m_len b + plen) = unat (m_len b) + unat plen"
proof -
  let ?off = "m_data b - data_base m b"
  have le: "unat ?off + unat (m_len b) \<le> data_size b" and n: "data_size b < 2 ^ 31"
    using assms(1) by (auto simp: mb_ok_def)
  have "unat (m_len b) + unat plen < 2 ^ 32" using le n assms(2,3) by simp
  then show len: "unat (m_len b + plen) = unat (m_len b) + unat plen" by (simp add: unat_word_ariths)
  have "m_data b - scast plen - data_base m b = of_nat (unat ?off) - of_nat (unat plen)"
    unfolding scast_len [OF assms(3)] by simp
  also have "\<dots> = of_nat (unat ?off - unat plen)" using assms(2) by (simp only: of_nat_diff)
  finally have "unat (m_data b - scast plen - data_base m b) = unat ?off - unat plen"
    using le n by (simp add: unat_of_nat)
  then show "mb_ok m (b\<lparr>m_data := m_data b - scast plen, m_len := m_len b + plen, m_pkthdr_len := l\<rparr>)"
    using le n assms(2) len by (simp add: mb_ok_def)
qed

lemma and_not_plus_and: "((x :: u64) AND NOT y) + (x AND y) = x"
proof -
  have "(x AND NOT y) + (x AND y) = (x AND NOT y) OR (x AND y)"
    by (rule disjunctive_add) (simp add: bit_and_iff bit_not_iff)
  also have "\<dots> = x" by (rule bit_eqI) (auto simp: bit_or_iff bit_and_iff bit_not_iff dest: bit_imp_le_length)
  finally show ?thesis .
qed

lemma unat_align: "unat ((x :: u64) AND NOT 7) = unat x - unat x mod 8"
proof -
  have "x AND 7 = take_bit 3 x" by (simp add: take_bit_eq_mask mask_eq_exp_minus_1)
  then have m: "unat (x AND 7) = unat x mod 8" by (simp add: take_bit_eq_mod unat_mod)
  have "(x AND NOT 7) + (x AND 7) = x" by (rule and_not_plus_and)
  then have "x AND NOT 7 = x - (x AND 7)" by (simp add: eq_diff_eq)
  then show ?thesis using m by (simp add: unat_sub word_le_nat_alt)
qed

definition m_aligned :: "u64 \<Rightarrow> u32 \<Rightarrow> nat" where
  "m_aligned area len = unat ((area - scast len) AND NOT 7)"

lemma m_aligned_bounds:
  assumes "unat len \<le> unat area" "unat area < 2 ^ 31"
  shows "8 dvd m_aligned area len" and "m_aligned area len + unat len \<le> unat area"
    and "unat area < m_aligned area len + unat len + 8"
proof -
  have len: "unat len < 2 ^ 31" using assms by linarith
  have "unat (area - of_nat (unat len)) = unat area - unat len"
    using assms by (simp add: unat_sub word_le_nat_alt unat_ucast_u32)
  then have d: "m_aligned area len = (unat area - unat len) - (unat area - unat len) mod 8"
    unfolding m_aligned_def scast_len [OF len] unat_align by simp
  show "8 dvd m_aligned area len" unfolding d by (rule dvd_minus_mod)
  have "(unat area - unat len) mod 8 \<le> unat area - unat len" "(unat area - unat len) mod 8 < 8"
    by (rule mod_less_eq_dividend) simp
  then show "m_aligned area len + unat len \<le> unat area" "unat area < m_aligned area len + unat len + 8"
    unfolding d using assms by linarith+
qed

section \<open>Allocation is balanced\<close>

text \<open>The mbufs a sequence of calls of the zone allocator has given out and not taken back.  A
  cluster belongs to the mbuf it was allocated for.\<close>

fun mbufs_held :: "zone_call list \<Rightarrow> ptr list" where
  "mbufs_held [] = []"
| "mbufs_held (ZAlloc z (mb_args f t) p # cs) = (if p = NULL then mbufs_held cs
     else if ZFree zone_mbuf p \<in> set cs then mbufs_held cs else p # mbufs_held cs)"
| "mbufs_held (ZAlloc z (to_mbuf m) p # cs) = mbufs_held cs"
| "mbufs_held (ZFree z p # cs) = mbufs_held cs"

lemma zalloc_calls: "uma_zalloc_arg k z a how s = (p, t) \<Longrightarrow> mb_calls t = mb_calls s @ [ZAlloc z a p]"
  by (auto simp: uma_zalloc_arg_def split: prod.splits)

lemma zfree_calls: "mb_calls (uma_zfree k z p s) = mb_calls s @ [ZFree z p]"
  by (simp add: uma_zfree_def)

lemma cluster_agree:
  "m_gettype n = Some t \<Longrightarrow> t \<noteq> EXT_MBUF \<Longrightarrow> \<exists>z. m_getzone n = Some z \<and> cluster_of_type t = Some (n, z)"
  by (auto simp: m_gettype_def m_getzone_def cluster_of_type_def split: if_splits)

section \<open>Fields are independent\<close>

lemma field_bits:
  "bit (M_HASHTYPEBITS :: u32) n \<longleftrightarrow> 24 \<le> n \<and> n < 28" "bit (M_FIB :: u32) n \<longleftrightarrow> 28 \<le> n \<and> n < 32"
proof -
  have h: "M_HASHTYPEBITS = (push_bit 24 (mask 4) :: u32)" and f: "M_FIB = (push_bit 28 (mask 4) :: u32)"
    by (simp_all add: mask_eq_exp_minus_1 push_bit_eq_mult)
  show "bit (M_HASHTYPEBITS :: u32) n \<longleftrightarrow> 24 \<le> n \<and> n < 28"
    by (simp only: h bit_push_bit_iff bit_mask_iff) auto
  show "bit (M_FIB :: u32) n \<longleftrightarrow> 28 \<le> n \<and> n < 32"
    by (simp only: f bit_push_bit_iff bit_mask_iff) auto
qed

lemma clear_bits:
  "(\<And>i. bit (M :: u32) i \<longleftrightarrow> P i) \<Longrightarrow> n < 32 \<Longrightarrow> bit (x AND NOT M) n \<longleftrightarrow> bit x n \<and> \<not> P n"
  by (simp add: bit_and_iff bit_not_iff)

lemma hashtype_bits:
  assumes "n < 32"
  shows "bit (m_flags (M_HASHTYPE_SET b v)) n \<longleftrightarrow>
      bit (m_flags b) n \<and> \<not> (24 \<le> n \<and> n < 28) \<or> 24 \<le> n \<and> bit v (n - 24)"
    and "bit (M_HASHTYPE_GET b) n \<longleftrightarrow> n < 4 \<and> bit (m_flags b) (n + 24)"
proof -
  have e: "m_flags (M_HASHTYPE_SET b v) = (m_flags b AND NOT M_HASHTYPEBITS) OR push_bit 24 v"
    by (simp add: M_HASHTYPE_SET_def Let_def)
  show "bit (m_flags (M_HASHTYPE_SET b v)) n \<longleftrightarrow>
      bit (m_flags b) n \<and> \<not> (24 \<le> n \<and> n < 28) \<or> 24 \<le> n \<and> bit v (n - 24)"
    using assms by (simp only: e bit_or_iff clear_bits [OF field_bits(1)] bit_push_bit_iff) auto
  show "bit (M_HASHTYPE_GET b) n \<longleftrightarrow> n < 4 \<and> bit (m_flags b) (n + 24)"
    using assms by (simp only: M_HASHTYPE_GET_def bit_drop_bit_eq o_def bit_and_iff field_bits(1)) (auto simp: add.commute)
qed

lemma fib_bits:
  assumes "n < 32"
  shows "bit (m_flags (M_SETFIB b v)) n \<longleftrightarrow>
      bit (m_flags b) n \<and> n < 28 \<or> 28 \<le> n \<and> bit v (n - 28)"
    and "bit (M_GETFIB b) n \<longleftrightarrow> n < 4 \<and> bit (m_flags b) (n + 28)"
proof -
  have e: "m_flags (M_SETFIB b v) = (m_flags b AND NOT M_FIB) OR (push_bit 28 v AND M_FIB)"
    by (simp add: M_SETFIB_def Let_def)
  show "bit (m_flags (M_SETFIB b v)) n \<longleftrightarrow> bit (m_flags b) n \<and> n < 28 \<or> 28 \<le> n \<and> bit v (n - 28)"
    using assms
    by (simp only: e bit_or_iff clear_bits [OF field_bits(2)], simp only: bit_and_iff bit_push_bit_iff field_bits(2)) auto
  have "(0x0F :: u32) = mask 4" by (simp add: mask_eq_exp_minus_1)
  then have "M_GETFIB b = take_bit 4 (drop_bit 28 (m_flags b AND M_FIB))" by (simp add: M_GETFIB_def take_bit_eq_mask)
  then show "bit (M_GETFIB b) n \<longleftrightarrow> n < 4 \<and> bit (m_flags b) (n + 28)"
    using assms by (simp only: bit_take_bit_iff bit_drop_bit_eq o_def bit_and_iff field_bits(2)) (auto simp: add.commute)
qed

lemma small_bits: "unat (v :: u32) < 16 \<Longrightarrow> bit v n \<Longrightarrow> n < 4"
proof -
  assume "unat v < 16" "bit v n"
  then have "take_bit 4 v = v" by (simp add: word_unat_eq_iff take_bit_eq_mod unat_mod)
  then show "n < 4" using \<open>bit v n\<close> by (metis bit_take_bit_iff)
qed

section \<open>Chains and tags\<close>

fun mbuf_chain :: "mheap \<Rightarrow> ptr \<Rightarrow> ptr list \<Rightarrow> bool" where
  "mbuf_chain h p [] \<longleftrightarrow> False"
| "mbuf_chain h p [x] \<longleftrightarrow> p = x \<and> (\<exists>b. h x = Some b \<and> m_next b = NULL)"
| "mbuf_chain h p (x # xs) \<longleftrightarrow> p = x \<and> (\<exists>b. h x = Some b \<and> m_next b \<noteq> NULL \<and> mbuf_chain h (m_next b) xs)"

text \<open>On a chain the walk to its end returns, and \<open>m_free\<close> hands out the rest of the chain.\<close>

lemma m_last_chain: "mbuf_chain (mb_heap s) p xs \<Longrightarrow> m_last s p = Some (last xs)"
  by (induction "mb_heap s" p xs rule: mbuf_chain.induct) (auto simp: m_last.simps)

lemma m_free_chain:
  assumes "mbuf_chain (mb_heap s) p (x # xs)"
  shows "\<exists>n s'. m_free k p s = Some (n, s') \<and> (if xs = [] then n = NULL else mbuf_chain (mb_heap s) n xs)"
  using assms by (cases xs) (auto simp: m_free_def Let_def)

lemma m_tag_list:
  assumes "slist H (m_tags m) ts"
  shows "m_tag_first H m = Some (case ts of [] \<Rightarrow> NULL | t # _ \<Rightarrow> t)"
    and "t \<noteq> NULL \<Longrightarrow> t \<notin> set ts \<Longrightarrow> yields slist (m_tags m) {t} H (m_tag_prepend m t H) (t # ts)"
    and "ts = as @ t # bs \<Longrightarrow> yields slist (m_tags m) (set as) H (m_tag_unlink m t H) (as @ bs)"
    and "m_tag_find loc H m ty st = (if ts = [] then Some NULL else loc m 0 ty st)"
proof -
  show first: "m_tag_first H m = Some (case ts of [] \<Rightarrow> NULL | t # _ \<Rightarrow> t)"
    using slist_observers(1) [OF assms] by (simp add: m_tag_first_def SLIST_FIRST_def)
  show "t \<noteq> NULL \<Longrightarrow> t \<notin> set ts \<Longrightarrow> yields slist (m_tags m) {t} H (m_tag_prepend m t H) (t # ts)"
    unfolding m_tag_prepend_def using assms by (rule SLIST_INSERT_HEAD_yields)
  show "ts = as @ t # bs \<Longrightarrow> yields slist (m_tags m) (set as) H (m_tag_unlink m t H) (as @ bs)"
    unfolding m_tag_unlink_def using assms by (intro SLIST_REMOVE_yields) simp
  have "rd_first H (m_tags m) = Some (q_first H (m_tags m))" "q_first H (m_tags m) = NULL \<longleftrightarrow> ts = []"
    using assms chain_head [of "q_next H" "q_first H (m_tags m)" ts] by (simp_all add: slist_def rd_first_def)
  then show "m_tag_find loc H m ty st = (if ts = [] then Some NULL else loc m 0 ty st)"
    by (simp add: m_tag_find_def SLIST_EMPTY_def)
qed

text \<open>Aligning the data of a fresh mbuf leaves room for the object behind it, at a multiple of 8 bytes, with
  less than 8 bytes to spare.\<close>

lemma M_ALIGN_room:
  assumes "m_data b = m_dat m" "unat len \<le> 216"
  shows "m_data (M_ALIGN b len) = m_dat m + of_nat (m_aligned MLEN len)" and "8 dvd m_aligned MLEN len"
    and "m_aligned MLEN len + unat len \<le> 216" and "216 < m_aligned MLEN len + unat len + 8"
  using assms m_aligned_bounds [of len MLEN] by (simp_all add: M_ALIGN_def m_aligned_def)

lemma MH_ALIGN_room:
  assumes "m_data b = m_pktdat m" "unat len \<le> 168"
  shows "m_data (MH_ALIGN b len) = m_pktdat m + of_nat (m_aligned MHLEN len)" and "8 dvd m_aligned MHLEN len"
    and "m_aligned MHLEN len + unat len \<le> 168" and "168 < m_aligned MHLEN len + unat len + 8"
  using assms m_aligned_bounds [of len MHLEN] by (simp_all add: MH_ALIGN_def m_aligned_def)

section \<open>Claims\<close>

text \<open>In an mbuf whose data lie in its data area (internal, behind a packet header, or an owned cluster) the space
  before the data, the data and the space behind them fill the area.  \<open>M_PREPEND\<close> of at most the
  space in front returns the same mbuf with the data grown at the front, in place, the packet length adjusted, and
  nothing else changed; more than that is left to \<open>m_prepend\<close>.\<close>

lemma mbuf_space:
  assumes "mb_heap s m = Some b" "m \<noteq> NULL" "mb_ok m b" "own_data s b" "unat plen < 2 ^ 31"
  shows "unat (M_LEADINGSPACE s m b) + unat (m_len b) + unat (M_TRAILINGSPACE s m b) = data_size b \<and>
    (if unat plen \<le> unat (M_LEADINGSPACE s m b)
     then \<exists>b'. M_PREPEND k m plen how s = Some (m, s\<lparr>mb_heap := (mb_heap s)(m \<mapsto> b')\<rparr>) \<and> mb_ok m b' \<and>
       m_data b' = m_data b - scast plen \<and> unat (m_len b') = unat (m_len b) + unat plen \<and>
       m_pkthdr_len b' = (if m_flags b AND M_PKTHDR \<noteq> 0 then m_pkthdr_len b + plen else m_pkthdr_len b)
     else fst (fn_m_prepend k m plen how s) = NULL \<longrightarrow> M_PREPEND k m plen how s = Some (fn_m_prepend k m plen how s))"
proof -
  let ?lead = "m_data b - data_base m b"
  have le: "unat ?lead + unat (m_len b) \<le> data_size b" "data_size b < 2 ^ 31" using assms(3) by (auto simp: mb_ok_def)
  have lead: "M_LEADINGSPACE s m b = ?lead" using assms(4) by (rule M_LEADINGSPACE_eq)
  have "unat ?lead < 2 ^ 63" using le by simp
  then have "sint ?lead = int (unat ?lead)" by (rule sint_small)
  moreover have "sint plen = int (unat plen)" using assms(5) by (rule sint_small32)
  ultimately have cmp: "sint ?lead \<ge> sint plen \<longleftrightarrow> unat plen \<le> unat ?lead" by (simp only: of_nat_le_iff)
  show ?thesis
  proof (intro conjI)
    show "unat (M_LEADINGSPACE s m b) + unat (m_len b) + unat (M_TRAILINGSPACE s m b) = data_size b"
      unfolding lead mb_ok_trailing [OF assms(3,4)] using le by simp
    let ?l = "if m_flags b AND M_PKTHDR \<noteq> 0 then m_pkthdr_len b + plen else m_pkthdr_len b"
    let ?b' = "b\<lparr>m_data := m_data b - scast plen, m_len := m_len b + plen, m_pkthdr_len := ?l\<rparr>"
    show "if unat plen \<le> unat (M_LEADINGSPACE s m b)
     then \<exists>b'. M_PREPEND k m plen how s = Some (m, s\<lparr>mb_heap := (mb_heap s)(m \<mapsto> b')\<rparr>) \<and> mb_ok m b' \<and>
       m_data b' = m_data b - scast plen \<and> unat (m_len b') = unat (m_len b) + unat plen \<and>
       m_pkthdr_len b' = (if m_flags b AND M_PKTHDR \<noteq> 0 then m_pkthdr_len b + plen else m_pkthdr_len b)
     else fst (fn_m_prepend k m plen how s) = NULL \<longrightarrow> M_PREPEND k m plen how s = Some (fn_m_prepend k m plen how s)"
    proof (cases "unat plen \<le> unat ?lead")
      case True
      note ok = mb_ok_prepend [OF assms(3) True assms(5)]
      have "M_PREPEND k m plen how s = Some (m, s\<lparr>mb_heap := (mb_heap s)(m \<mapsto> ?b')\<rparr>)"
        using True cmp assms(1,2) by (simp add: M_PREPEND_def lead upd_mbuf_def)
      then show ?thesis using True ok(1) [of ?l] ok(2) unfolding lead by auto
    next
      case False
      then show ?thesis using cmp assms(1,2) by (simp add: M_PREPEND_def lead split: prod.splits)
    qed
  qed
qed

text \<open>Allocating an mbuf with a jumbo cluster is all or nothing: whatever the zone allocator answers, a
  call of \<open>m_getjcl\<close> that returns \<open>NULL\<close> holds no mbuf, one that returns an mbuf holds
  that one, with a cluster of the requested size attached to it; the call panics only for a size
  that no zone has.\<close>

lemma m_getjcl_balanced:
  assumes "m_getzone sz = Some z" "sz \<noteq> MSIZE"
  shows "\<exists>m s' cs. m_getjcl k how type flags sz s = Some (m, s') \<and> mb_calls s' = mb_calls s @ cs \<and>
    mbufs_held cs = (if m = NULL then [] else [m]) \<and>
    (m \<noteq> NULL \<longrightarrow> (if sz = MCLBYTES then cs = [ZAlloc zone_pack (mb_args flags type) m]
       else \<exists>n. n \<noteq> NULL \<and> cs = [ZAlloc zone_mbuf (mb_args flags type) m, ZAlloc z (to_mbuf m) n]))"
proof (cases "sz = MCLBYTES")
  case True
  obtain m s' where a: "uma_zalloc_arg k zone_pack (mb_args flags type) how s = (m, s')" by fastforce
  with True zalloc_calls [OF a] show ?thesis by (simp add: m_getjcl_def m_getcl_def)
next
  case False
  obtain m s1 where a: "uma_zalloc_arg k zone_mbuf (mb_args flags type) how s = (m, s1)" by fastforce
  obtain n s2 where n: "uma_zalloc_arg k z (to_mbuf m) how s1 = (n, s2)" by fastforce
  note calls = zalloc_calls [OF a] zalloc_calls [OF n] zfree_calls
  show ?thesis
  proof (cases "m = NULL \<or> n = NULL")
    case True
    then show ?thesis using False assms(1) a n calls by (auto simp: m_getjcl_def)
  next
    case False
    then have "m_getjcl k how type flags sz s = Some (m, s2)"
      using \<open>sz \<noteq> MCLBYTES\<close> assms(1) a n by (simp add: m_getjcl_def)
    with False show ?thesis using calls \<open>sz \<noteq> MCLBYTES\<close>
      by (intro exI [of _ m] exI [of _ s2] exI [of _ "[ZAlloc zone_mbuf (mb_args flags type) m, ZAlloc z (to_mbuf m) n]"]) auto
  qed
qed

lemma word32_eqI: "(\<And>n. n < 32 \<Longrightarrow> bit (x :: u32) n = bit y n) \<Longrightarrow> x = y"
  by (rule bit_word_eqI) simp

text \<open>The fields kept in the flags word and in the cluster description are read back as they
  were set, and independently: the hash type, the routing table number, the flags below them; and a
  cluster attached with the type that belongs to a size has that size, its zone's reference
  count, and data starting at the cluster.\<close>

lemma mbuf_fields_roundtrip:
  assumes "unat v < 16" and "m_gettype sz = Some t" "t \<noteq> EXT_MBUF" "mb_heap s m = Some b"
  shows "M_HASHTYPE_GET (M_HASHTYPE_SET b v) = v \<and> M_HASHTYPE_TEST (M_HASHTYPE_SET b v) v \<and>
    M_GETFIB (M_SETFIB b f) = f AND 15 \<and>
    M_GETFIB (M_HASHTYPE_SET b v) = M_GETFIB b \<and> M_HASHTYPE_GET (M_SETFIB b f) = M_HASHTYPE_GET b \<and>
    (\<forall>n < 24. bit (m_flags (M_HASHTYPE_SET b v)) n = bit (m_flags b) n \<and> bit (m_flags (M_SETFIB b f)) n = bit (m_flags b) n) \<and>
    (\<exists>z b' s'. m_getzone sz = Some z \<and> m_cljset k m cl t s = Some s' \<and> mb_heap s' m = Some b' \<and>
       ext_size b' = sz \<and> ext_type b' = t \<and> ref_cnt b' = fn_find_refcnt k z cl \<and> m_data b' = cl \<and> data_base m b' = cl \<and>
       data_size b' = unat sz)"
proof -
  note v = small_bits [OF assms(1)]
  have m15: "(15 :: u32) = mask 4" by (simp add: mask_eq_exp_minus_1)
  have get: "M_HASHTYPE_GET (M_HASHTYPE_SET b v) = v"
  proof (rule word32_eqI)
    fix n assume "n < (32 :: nat)"
    then show "bit (M_HASHTYPE_GET (M_HASHTYPE_SET b v)) n = bit v n"
      by (cases "n < 4") (auto simp: hashtype_bits dest: v)
  qed
  moreover have "M_GETFIB (M_SETFIB b f) = f AND 15"
    unfolding m15 by (rule word32_eqI) (auto simp: fib_bits bit_and_iff bit_mask_iff)
  moreover have "M_GETFIB (M_HASHTYPE_SET b v) = M_GETFIB b"
    by (rule word32_eqI) (auto simp: fib_bits hashtype_bits dest: v)
  moreover have "M_HASHTYPE_GET (M_SETFIB b f) = M_HASHTYPE_GET b"
    by (rule word32_eqI) (auto simp: fib_bits hashtype_bits)
  moreover have "\<forall>n < 24. bit (m_flags (M_HASHTYPE_SET b v)) n = bit (m_flags b) n \<and>
      bit (m_flags (M_SETFIB b f)) n = bit (m_flags b) n"
    by (simp add: hashtype_bits fib_bits)
  moreover obtain z where z: "m_getzone sz = Some z" "cluster_of_type t = Some (sz, z)"
    using cluster_agree [OF assms(2,3)] by blast
  moreover have ext: "(w OR M_EXT) AND M_EXT \<noteq> 0" for w :: u32
  proof -
    have "bit ((w OR M_EXT) AND M_EXT) 0" by (simp add: bit_and_iff bit_or_iff)
    then show ?thesis by (metis bit_0_eq bot_apply bot_bool_def)
  qed
  moreover have "\<exists>z b' s'. m_getzone sz = Some z \<and> m_cljset k m cl t s = Some s' \<and> mb_heap s' m = Some b' \<and>
      ext_size b' = sz \<and> ext_type b' = t \<and> ref_cnt b' = fn_find_refcnt k z cl \<and> m_data b' = cl \<and> data_base m b' = cl \<and>
      data_size b' = unat sz"
    using z assms(4) ext [of "m_flags b"] by (simp add: m_cljset_def upd_mbuf_def data_base_def data_size_def)
  ultimately show ?thesis unfolding M_HASHTYPE_TEST_def by blast
qed

section \<open>Witnesses\<close>

definition mbuf_sample :: mbuf where
  "mbuf_sample = \<lparr>m_next = 0, m_nextpkt = 0, m_data = 0x10a8, m_len = 60, m_flags = 2, m_type = 1, m_pkthdr_len = 60,
     ext_buf = 0, ext_free = 0, ext_arg1 = 0, ext_arg2 = 0, ext_size = 0, ref_cnt = 0, ext_type = 0\<rparr>"

definition mbufs_sample :: mb_state where
  "mbufs_sample = \<lparr>mb_heap = (\<lambda>p. if p = 0x1000 then Some mbuf_sample else None), mb_refs = (\<lambda>p. 0), mb_calls = []\<rparr>"

definition mb_fns_sample :: mb_fns where
  "mb_fns_sample = \<lparr>fn_zalloc = (\<lambda>z a how s. (if z = zone_mbuf then 0x2000 else 0, s)), fn_zfree = (\<lambda>z p s. s),
     fn_mb_free_ext = (\<lambda>p s. s), fn_pkthdr_init = (\<lambda>p how s. (0, s)), fn_bzero = (\<lambda>p n s. s),
     fn_zone_drain = (\<lambda>z s. s), fn_find_refcnt = (\<lambda>z p. p), fn_m_prepend = (\<lambda>p n how s. (0, s))\<rparr>"

lemma mbuf_space_witness:
  "\<exists>b'. M_PREPEND mb_fns_sample 0x1000 14 1 mbufs_sample =
     Some (0x1000, mbufs_sample\<lparr>mb_heap := (mb_heap mbufs_sample)(0x1000 \<mapsto> b')\<rparr>) \<and> unat (m_len b') = 74"
proof -
  have b: "mb_heap mbufs_sample 0x1000 = Some mbuf_sample" by (simp add: mbufs_sample_def)
  have ok: "mb_ok 0x1000 mbuf_sample" "own_data mbufs_sample mbuf_sample"
    by (simp_all add: mb_ok_def own_data_def data_base_def data_size_def mbuf_sample_def m_pktdat_def)
  have lead: "M_LEADINGSPACE mbufs_sample 0x1000 mbuf_sample = 80"
    by (simp add: M_LEADINGSPACE_def mbuf_sample_def m_pktdat_def)
  have "m_len mbuf_sample = 60" by (simp add: mbuf_sample_def)
  then show ?thesis
    using mbuf_space [OF b _ ok, of 14 mb_fns_sample 1] by (simp add: lead) blast
qed

lemma m_getjcl_balanced_witness:
  "\<exists>m s' cs. m_getjcl mb_fns_sample 1 1 2 MJUM9BYTES mbufs_sample = Some (m, s') \<and>
     mb_calls s' = mb_calls mbufs_sample @ cs \<and> mbufs_held cs = (if m = NULL then [] else [m])"
proof -
  have "m_getzone MJUM9BYTES = Some zone_jumbo9" by (simp add: m_getzone_def)
  then show ?thesis using m_getjcl_balanced [of MJUM9BYTES zone_jumbo9 mb_fns_sample 1 1 2 mbufs_sample] by auto
qed

lemma mbuf_fields_roundtrip_witness:
  "M_HASHTYPE_GET (M_HASHTYPE_SET mbuf_sample 2) = 2 \<and> M_GETFIB (M_SETFIB mbuf_sample 3) = 3"
proof -
  have "m_gettype MCLBYTES = Some EXT_CLUSTER" "mb_heap mbufs_sample 0x1000 = Some mbuf_sample"
    by (simp_all add: m_gettype_def mbufs_sample_def)
  then show ?thesis using mbuf_fields_roundtrip [of 2 MCLBYTES EXT_CLUSTER mbufs_sample "0x1000" mbuf_sample 3] by simp
qed

end
