(* ===== verification/Net_Queues.thy ===== *)
theory Net_Queues
  imports Sys_Locks Buf_Ring Mbufs
begin

unbundle bit_operations_syntax

text \<open>
  The packet queues of a network interface (\<open>include/net/if_var.h\<close> with \<open>struct ifaltq\<close> of
  \<open>include/altq/if_altq.h\<close>): the locked queue, the driver's queue behind it, the hand-off, and the
  queue over a lock-free ring (\<open>drbr_*\<close>).  Packets are mbufs linked through \<open>m_nextpkt\<close> in a heap; a packet
  that is not in the heap must not be touched (\<open>None\<close>).  The macros whose C names start with an
  underscore have the suffix \<open>_raw\<close>.  What the macros call and the repository only declares is a
  field of \<open>net_fns\<close>: \<open>m_freem\<close> (contract \<open>freem_chain\<close>: it touches the \<open>m_next\<close> chain of its packet only), the slow paths of the mutex, the functions of an alternate queueing
  discipline, \<open>if_start\<close>.  The calls of \<open>m_freem\<close> are recorded in order.

  Shown, for queues without an alternate discipline and a token-bucket regulator (\<open>plain\<close>): the locked queue and the ring
  queue both are bounded queues that take packets from the caller,
  give them back in order and free what they refuse; the driver's queue keeps the order; purging frees
  every packet once and touches none after that.
\<close>

section \<open>Packets and queues\<close>

record packets =
  pk_heap :: mheap
  pk_freed :: "ptr list"

definition rd_nextpkt :: "packets \<Rightarrow> ptr \<Rightarrow> ptr option" where
  "rd_nextpkt s m = map_option m_nextpkt (pk_heap s m)"

definition wr_nextpkt :: "ptr \<Rightarrow> ptr \<Rightarrow> packets \<Rightarrow> packets option" where
  "wr_nextpkt m v s =
     map_option (\<lambda>b. s\<lparr>pk_heap := (pk_heap s)(m \<mapsto> b\<lparr>m_nextpkt := v\<rparr>)\<rparr>) (pk_heap s m)"

record ifqueue =
  ifq_head :: ptr
  ifq_tail :: ptr
  ifq_len :: u32
  ifq_maxlen :: u32
  ifq_drops :: u32
  ifq_mtx :: mtx

record ifaltq = ifqueue +
  ifq_drv_head :: ptr
  ifq_drv_tail :: ptr
  ifq_drv_len :: u32
  ifq_drv_maxlen :: u32
  altq_flags :: u32
  altq_tbr :: ptr

record ifnet =
  if_snd :: ifaltq
  if_obytes :: u64
  if_omcasts :: u64
  if_drv_flags :: u32

abbreviation ALTQF_READY :: u32 where "ALTQF_READY \<equiv> 1"
abbreviation ALTQF_ENABLED :: u32 where "ALTQF_ENABLED \<equiv> 2"
abbreviation ALTDQ_REMOVE :: u32 where "ALTDQ_REMOVE \<equiv> 1"
abbreviation ALTDQ_POLL :: u32 where "ALTDQ_POLL \<equiv> 2"
abbreviation ALTRQ_PURGE :: u32 where "ALTRQ_PURGE \<equiv> 1"
abbreviation IFF_DRV_OACTIVE :: u32 where "IFF_DRV_OACTIVE \<equiv> 0x400"

record net_fns =
  curthread :: u64
  fn_mtx_lock_sleep :: "mtx \<Rightarrow> u64 \<Rightarrow> u32 \<Rightarrow> mtx"
  fn_mtx_unlock_sleep :: "mtx \<Rightarrow> u32 \<Rightarrow> mtx"
  fn_m_freem :: "ptr \<Rightarrow> mheap \<Rightarrow> mheap"
  fn_altq_enqueue :: "ifaltq \<Rightarrow> ptr \<Rightarrow> packets \<Rightarrow> (u32 \<times> ifaltq \<times> packets) option"
  fn_altq_dequeue :: "ifaltq \<Rightarrow> u32 \<Rightarrow> packets \<Rightarrow> (ptr \<times> ifaltq \<times> packets) option"
  fn_altq_request :: "ifaltq \<Rightarrow> u32 \<Rightarrow> packets \<Rightarrow> (ifaltq \<times> packets) option"
  fn_tbr_dequeue :: "ifaltq \<Rightarrow> u32 \<Rightarrow> packets \<Rightarrow> (ptr \<times> ifaltq \<times> packets) option"
  fn_if_start :: "ifnet \<Rightarrow> packets \<Rightarrow> (ifnet \<times> packets) option"

definition m_freem :: "net_fns \<Rightarrow> ptr \<Rightarrow> packets \<Rightarrow> packets" where
  "m_freem k m s = s\<lparr>pk_heap := fn_m_freem k m (pk_heap s), pk_freed := pk_freed s @ [m]\<rparr>"

section \<open>The plain queue\<close>

definition IF_LOCK :: "net_fns \<Rightarrow> 'a ifqueue_scheme \<Rightarrow> 'a ifqueue_scheme" where
  "IF_LOCK k ifq = ifq\<lparr>ifq_mtx := mtx_lock_fast (fn_mtx_lock_sleep k) (curthread k) 0 (ifq_mtx ifq)\<rparr>"

definition IF_UNLOCK :: "net_fns \<Rightarrow> 'a ifqueue_scheme \<Rightarrow> 'a ifqueue_scheme" where
  "IF_UNLOCK k ifq = ifq\<lparr>ifq_mtx := mtx_unlock_fast (fn_mtx_unlock_sleep k) (curthread k) 0 (ifq_mtx ifq)\<rparr>"

definition IF_QFULL_raw :: "'a ifqueue_scheme \<Rightarrow> bool" where
  "IF_QFULL_raw ifq \<longleftrightarrow> sint (ifq_len ifq) \<ge> sint (ifq_maxlen ifq)"

definition IF_DROP_raw :: "'a ifqueue_scheme \<Rightarrow> 'a ifqueue_scheme" where
  "IF_DROP_raw ifq = ifq\<lparr>ifq_drops := ifq_drops ifq + 1\<rparr>"

definition IF_QLEN_raw :: "'a ifqueue_scheme \<Rightarrow> u32" where
  "IF_QLEN_raw ifq = ifq_len ifq"

definition IF_ENQUEUE_raw ::
  "'a ifqueue_scheme \<Rightarrow> ptr \<Rightarrow> packets \<Rightarrow> ('a ifqueue_scheme \<times> packets) option" where
  "IF_ENQUEUE_raw ifq m s = do {
     s \<leftarrow> wr_nextpkt m NULL s;
     (ifq, s) \<leftarrow> (if ifq_tail ifq = NULL then Some (ifq\<lparr>ifq_head := m\<rparr>, s)
                else do { s \<leftarrow> wr_nextpkt (ifq_tail ifq) m s; Some (ifq, s) });
     Some (ifq\<lparr>ifq_tail := m, ifq_len := ifq_len ifq + 1\<rparr>, s) }"

definition IF_ENQUEUE ::
  "net_fns \<Rightarrow> 'a ifqueue_scheme \<Rightarrow> ptr \<Rightarrow> packets \<Rightarrow> ('a ifqueue_scheme \<times> packets) option" where
  "IF_ENQUEUE k ifq m s = do {
     (ifq, s) \<leftarrow> IF_ENQUEUE_raw (IF_LOCK k ifq) m s;
     Some (IF_UNLOCK k ifq, s) }"

definition IF_PREPEND_raw ::
  "'a ifqueue_scheme \<Rightarrow> ptr \<Rightarrow> packets \<Rightarrow> ('a ifqueue_scheme \<times> packets) option" where
  "IF_PREPEND_raw ifq m s = do {
     s \<leftarrow> wr_nextpkt m (ifq_head ifq) s;
     let ifq = (if ifq_tail ifq = NULL then ifq\<lparr>ifq_tail := m\<rparr> else ifq);
     Some (ifq\<lparr>ifq_head := m, ifq_len := ifq_len ifq + 1\<rparr>, s) }"

definition IF_PREPEND ::
  "net_fns \<Rightarrow> 'a ifqueue_scheme \<Rightarrow> ptr \<Rightarrow> packets \<Rightarrow> ('a ifqueue_scheme \<times> packets) option" where
  "IF_PREPEND k ifq m s = do {
     (ifq, s) \<leftarrow> IF_PREPEND_raw (IF_LOCK k ifq) m s;
     Some (IF_UNLOCK k ifq, s) }"

definition IF_DEQUEUE_raw ::
  "'a ifqueue_scheme \<Rightarrow> packets \<Rightarrow> (ptr \<times> 'a ifqueue_scheme \<times> packets) option" where
  "IF_DEQUEUE_raw ifq s =
     (let m = ifq_head ifq in
      if m \<noteq> NULL then do {
        n \<leftarrow> rd_nextpkt s m;
        let ifq = ifq\<lparr>ifq_head := n\<rparr>;
        let ifq = (if n = NULL then ifq\<lparr>ifq_tail := NULL\<rparr> else ifq);
        s \<leftarrow> wr_nextpkt m NULL s;
        Some (m, ifq\<lparr>ifq_len := ifq_len ifq - 1\<rparr>, s) }
      else Some (m, ifq, s))"

definition IF_DEQUEUE ::
  "net_fns \<Rightarrow> 'a ifqueue_scheme \<Rightarrow> packets \<Rightarrow> (ptr \<times> 'a ifqueue_scheme \<times> packets) option" where
  "IF_DEQUEUE k ifq s = do {
     (m, ifq, s) \<leftarrow> IF_DEQUEUE_raw (IF_LOCK k ifq) s;
     Some (m, IF_UNLOCK k ifq, s) }"

definition IF_POLL_raw :: "'a ifqueue_scheme \<Rightarrow> ptr" where
  "IF_POLL_raw ifq = ifq_head ifq"

partial_function (option) IF_DRAIN_raw ::
  "net_fns \<Rightarrow> 'a ifqueue_scheme \<Rightarrow> packets \<Rightarrow> ('a ifqueue_scheme \<times> packets) option" where
  "IF_DRAIN_raw k ifq s = do {
     (m, ifq, s) \<leftarrow> IF_DEQUEUE_raw ifq s;
     if m = NULL then Some (ifq, s) else IF_DRAIN_raw k ifq (m_freem k m s) }"

definition IF_DRAIN ::
  "net_fns \<Rightarrow> 'a ifqueue_scheme \<Rightarrow> packets \<Rightarrow> ('a ifqueue_scheme \<times> packets) option" where
  "IF_DRAIN k ifq s = do {
     (ifq, s) \<leftarrow> IF_DRAIN_raw k (IF_LOCK k ifq) s;
     Some (IF_UNLOCK k ifq, s) }"

section \<open>The output queue\<close>

definition ALTQ_IS_ENABLED :: "ifaltq \<Rightarrow> bool" where
  "ALTQ_IS_ENABLED ifq \<longleftrightarrow> altq_flags ifq AND ALTQF_ENABLED \<noteq> 0"

definition TBR_IS_ENABLED :: "ifaltq \<Rightarrow> bool" where
  "TBR_IS_ENABLED ifq \<longleftrightarrow> altq_tbr ifq \<noteq> NULL"

definition IFQ_ENQUEUE :: "net_fns \<Rightarrow> ifaltq \<Rightarrow> ptr \<Rightarrow> packets \<Rightarrow> (u32 \<times> ifaltq \<times> packets) option" where
  "IFQ_ENQUEUE k ifq m s = do {
     let ifq = IF_LOCK k ifq;
     (err, ifq, s) \<leftarrow>
       (if ALTQ_IS_ENABLED ifq then fn_altq_enqueue k ifq m s
        else if IF_QFULL_raw ifq then Some (ENOBUFS, ifq, m_freem k m s)
        else do { (ifq, s) \<leftarrow> IF_ENQUEUE_raw ifq m s; Some (0, ifq, s) });
     let ifq = (if err \<noteq> 0 then ifq\<lparr>ifq_drops := ifq_drops ifq + 1\<rparr> else ifq);
     Some (err, IF_UNLOCK k ifq, s) }"

definition IFQ_DEQUEUE_NOLOCK :: "net_fns \<Rightarrow> ifaltq \<Rightarrow> packets \<Rightarrow> (ptr \<times> ifaltq \<times> packets) option" where
  "IFQ_DEQUEUE_NOLOCK k ifq s =
     (if TBR_IS_ENABLED ifq then fn_tbr_dequeue k ifq ALTDQ_REMOVE s
      else if ALTQ_IS_ENABLED ifq then fn_altq_dequeue k ifq ALTDQ_REMOVE s
      else IF_DEQUEUE_raw ifq s)"

definition IFQ_DEQUEUE :: "net_fns \<Rightarrow> ifaltq \<Rightarrow> packets \<Rightarrow> (ptr \<times> ifaltq \<times> packets) option" where
  "IFQ_DEQUEUE k ifq s = do {
     (m, ifq, s) \<leftarrow> IFQ_DEQUEUE_NOLOCK k (IF_LOCK k ifq) s;
     Some (m, IF_UNLOCK k ifq, s) }"

definition IFQ_POLL_NOLOCK :: "net_fns \<Rightarrow> ifaltq \<Rightarrow> packets \<Rightarrow> (ptr \<times> ifaltq \<times> packets) option" where
  "IFQ_POLL_NOLOCK k ifq s =
     (if TBR_IS_ENABLED ifq then fn_tbr_dequeue k ifq ALTDQ_POLL s
      else if ALTQ_IS_ENABLED ifq then fn_altq_dequeue k ifq ALTDQ_POLL s
      else Some (IF_POLL_raw ifq, ifq, s))"

definition IFQ_POLL :: "net_fns \<Rightarrow> ifaltq \<Rightarrow> packets \<Rightarrow> (ptr \<times> ifaltq \<times> packets) option" where
  "IFQ_POLL k ifq s = do {
     (m, ifq, s) \<leftarrow> IFQ_POLL_NOLOCK k (IF_LOCK k ifq) s;
     Some (m, IF_UNLOCK k ifq, s) }"

definition IFQ_PURGE_NOLOCK :: "net_fns \<Rightarrow> ifaltq \<Rightarrow> packets \<Rightarrow> (ifaltq \<times> packets) option" where
  "IFQ_PURGE_NOLOCK k ifq s =
     (if ALTQ_IS_ENABLED ifq then fn_altq_request k ifq ALTRQ_PURGE s else IF_DRAIN_raw k ifq s)"

definition IFQ_PURGE :: "net_fns \<Rightarrow> ifaltq \<Rightarrow> packets \<Rightarrow> (ifaltq \<times> packets) option" where
  "IFQ_PURGE k ifq s = do {
     (ifq, s) \<leftarrow> IFQ_PURGE_NOLOCK k (IF_LOCK k ifq) s;
     Some (IF_UNLOCK k ifq, s) }"

definition IFQ_SET_READY :: "ifaltq \<Rightarrow> ifaltq" where
  "IFQ_SET_READY ifq = ifq\<lparr>altq_flags := altq_flags ifq OR ALTQF_READY\<rparr>"

definition IFQ_IS_EMPTY :: "ifaltq \<Rightarrow> bool" where
  "IFQ_IS_EMPTY ifq \<longleftrightarrow> ifq_len ifq = 0"

definition IFQ_HANDOFF_ADJ :: "net_fns \<Rightarrow> ifnet \<Rightarrow> ptr \<Rightarrow> u32 \<Rightarrow> packets \<Rightarrow> (u32 \<times> ifnet \<times> packets) option" where
  "IFQ_HANDOFF_ADJ k ifp m adj s = do {
     b \<leftarrow> pk_heap s m;
     let len = m_pkthdr_len b;
     let mflags = (ucast (m_flags b) :: u16);
     (err, ifq, s) \<leftarrow> IFQ_ENQUEUE k (if_snd ifp) m s;
     let ifp = ifp\<lparr>if_snd := ifq\<rparr>;
     if err = 0 then do {
       let ifp = ifp\<lparr>if_obytes := if_obytes ifp + scast (len + adj)\<rparr>;
       let ifp = (if scast mflags AND M_MCAST \<noteq> 0 then ifp\<lparr>if_omcasts := if_omcasts ifp + 1\<rparr> else ifp);
       (ifp, s) \<leftarrow> (if if_drv_flags ifp AND IFF_DRV_OACTIVE = 0 then fn_if_start k ifp s else Some (ifp, s));
       Some (err, ifp, s) }
     else Some (err, ifp, s) }"

section \<open>The queue of the driver\<close>

partial_function (option) drv_refill :: "net_fns \<Rightarrow> ifaltq \<Rightarrow> packets \<Rightarrow> (ifaltq \<times> packets) option" where
  "drv_refill k ifq s =
     (if sint (ifq_drv_len ifq) < sint (ifq_drv_maxlen ifq) then do {
        (m0, ifq, s) \<leftarrow> IFQ_DEQUEUE_NOLOCK k ifq s;
        if m0 = NULL then Some (ifq, s)
        else do {
          s \<leftarrow> wr_nextpkt m0 NULL s;
          (ifq, s) \<leftarrow> (if ifq_drv_tail ifq = NULL then Some (ifq\<lparr>ifq_drv_head := m0\<rparr>, s)
                     else do { s \<leftarrow> wr_nextpkt (ifq_drv_tail ifq) m0 s; Some (ifq, s) });
          drv_refill k (ifq\<lparr>ifq_drv_tail := m0, ifq_drv_len := ifq_drv_len ifq + 1\<rparr>) s } }
      else Some (ifq, s))"

definition IFQ_DRV_DEQUEUE :: "net_fns \<Rightarrow> ifaltq \<Rightarrow> packets \<Rightarrow> (ptr \<times> ifaltq \<times> packets) option" where
  "IFQ_DRV_DEQUEUE k ifq s =
     (let m = ifq_drv_head ifq in
      if m \<noteq> NULL then do {
        n \<leftarrow> rd_nextpkt s m;
        let ifq = ifq\<lparr>ifq_drv_head := n\<rparr>;
        let ifq = (if n = NULL then ifq\<lparr>ifq_drv_tail := NULL\<rparr> else ifq);
        s \<leftarrow> wr_nextpkt m NULL s;
        Some (m, ifq\<lparr>ifq_drv_len := ifq_drv_len ifq - 1\<rparr>, s) }
      else do {
        (m, ifq, s) \<leftarrow> IFQ_DEQUEUE_NOLOCK k (IF_LOCK k ifq) s;
        (ifq, s) \<leftarrow> drv_refill k ifq s;
        Some (m, IF_UNLOCK k ifq, s) })"

definition IFQ_DRV_PREPEND :: "ifaltq \<Rightarrow> ptr \<Rightarrow> packets \<Rightarrow> (ifaltq \<times> packets) option" where
  "IFQ_DRV_PREPEND ifq m s = do {
     s \<leftarrow> wr_nextpkt m (ifq_drv_head ifq) s;
     let ifq = (if ifq_drv_tail ifq = NULL then ifq\<lparr>ifq_drv_tail := m\<rparr> else ifq);
     Some (ifq\<lparr>ifq_drv_head := m, ifq_drv_len := ifq_drv_len ifq + 1\<rparr>, s) }"

definition IFQ_DRV_IS_EMPTY :: "ifaltq \<Rightarrow> bool" where
  "IFQ_DRV_IS_EMPTY ifq \<longleftrightarrow> ifq_drv_len ifq = 0 \<and> ifq_len ifq = 0"

partial_function (option) drv_free_all :: "net_fns \<Rightarrow> ptr \<Rightarrow> packets \<Rightarrow> packets option" where
  "drv_free_all k m s =
     (if m \<noteq> NULL then do {
        n \<leftarrow> rd_nextpkt s m;
        drv_free_all k n (m_freem k m s) }
      else Some s)"

definition IFQ_DRV_PURGE :: "net_fns \<Rightarrow> ifaltq \<Rightarrow> packets \<Rightarrow> (ifaltq \<times> packets) option" where
  "IFQ_DRV_PURGE k ifq s = do {
     s \<leftarrow> drv_free_all k (ifq_drv_head ifq) s;
     IFQ_PURGE k (ifq\<lparr>ifq_drv_head := NULL, ifq_drv_tail := NULL, ifq_drv_len := 0\<rparr>) s }"

section \<open>Queues over a ring\<close>

text \<open>\<open>ALTQ\<close> is the build option: with it, an interface whose queue has a discipline enabled
  leaves the ring alone.\<close>

definition drbr_stats_update :: "ifnet \<Rightarrow> u32 \<Rightarrow> u32 \<Rightarrow> ifnet" where
  "drbr_stats_update ifp len mflags =
     (let ifp = ifp\<lparr>if_obytes := if_obytes ifp + scast len\<rparr>
      in if mflags AND M_MCAST \<noteq> 0 then ifp\<lparr>if_omcasts := if_omcasts ifp + 1\<rparr> else ifp)"

definition drbr_enqueue ::
  "bool \<Rightarrow> net_fns \<Rightarrow> ifnet \<Rightarrow> buf_ring \<Rightarrow> ptr \<Rightarrow> packets \<Rightarrow> (u32 \<times> ifnet \<times> buf_ring \<times> packets) option" where
  "drbr_enqueue ALTQ k ifp br m s = do {
     b \<leftarrow> pk_heap s m;
     let len = m_pkthdr_len b;
     let mflags = m_flags b;
     if ALTQ \<and> ALTQ_IS_ENABLED (if_snd ifp) then do {
       (err, ifq, s) \<leftarrow> IFQ_ENQUEUE k (if_snd ifp) m s;
       Some (err, ifp\<lparr>if_snd := ifq\<rparr>, br, s) }
     else do {
       (err, br) \<leftarrow> buf_ring_enqueue_bytes br m len;
       if err = ENOBUFS then Some (err, ifp, br\<lparr>br_drops := br_drops br + 1\<rparr>, m_freem k m s)
       else Some (err, drbr_stats_update ifp len mflags, br, s) } }"

partial_function (option) drbr_flush_ring :: "net_fns \<Rightarrow> buf_ring \<Rightarrow> packets \<Rightarrow> (buf_ring \<times> packets) option" where
  "drbr_flush_ring k br s = do {
     (m, br) \<leftarrow> buf_ring_dequeue_sc br;
     if m \<noteq> NULL then drbr_flush_ring k br (m_freem k m s) else Some (br, s) }"

definition drbr_flush ::
  "bool \<Rightarrow> net_fns \<Rightarrow> ifnet option \<Rightarrow> buf_ring \<Rightarrow> packets \<Rightarrow> (ifnet option \<times> buf_ring \<times> packets) option" where
  "drbr_flush ALTQ k ifp br s = do {
     (ifp, s) \<leftarrow> (case ifp of
         Some i \<Rightarrow> if ALTQ \<and> ALTQ_IS_ENABLED (if_snd i)
           then do { (ifq, s) \<leftarrow> IFQ_PURGE k (if_snd i) s; Some (Some (i\<lparr>if_snd := ifq\<rparr>), s) }
           else Some (Some i, s)
       | None \<Rightarrow> Some (None, s));
     (br, s) \<leftarrow> drbr_flush_ring k br s;
     Some (ifp, br, s) }"

definition drbr_free :: "bool \<Rightarrow> (buf_ring \<Rightarrow> 'r) \<Rightarrow> net_fns \<Rightarrow> buf_ring \<Rightarrow> packets \<Rightarrow> ('r \<times> packets) option" where
  "drbr_free ALTQ buf_ring_free k br s = do {
     (ifp, br, s) \<leftarrow> drbr_flush ALTQ k None br s;
     Some (buf_ring_free br, s) }"

definition drbr_dequeue ::
  "bool \<Rightarrow> net_fns \<Rightarrow> ifnet \<Rightarrow> buf_ring \<Rightarrow> packets \<Rightarrow> (ptr \<times> ifnet \<times> buf_ring \<times> packets) option" where
  "drbr_dequeue ALTQ k ifp br s =
     (if ALTQ \<and> ALTQ_IS_ENABLED (if_snd ifp) then do {
        (m, ifq, s) \<leftarrow> IFQ_DEQUEUE k (if_snd ifp) s;
        Some (m, ifp\<lparr>if_snd := ifq\<rparr>, br, s) }
      else do { (m, br) \<leftarrow> buf_ring_dequeue_sc br; Some (m, ifp, br, s) })"

text \<open>\<open>func m\<close> is the result of the caller's function at the packet and its argument.\<close>

definition drbr_dequeue_cond ::
  "bool \<Rightarrow> net_fns \<Rightarrow> ifnet \<Rightarrow> buf_ring \<Rightarrow> (ptr \<Rightarrow> u32) \<Rightarrow> packets \<Rightarrow>
   (ptr \<times> ifnet \<times> buf_ring \<times> packets) option" where
  "drbr_dequeue_cond ALTQ k ifp br func s =
     (if ALTQ \<and> ALTQ_IS_ENABLED (if_snd ifp) then do {
        (m, ifq, s) \<leftarrow> IFQ_POLL_NOLOCK k (IF_LOCK k (if_snd ifp)) s;
        if m \<noteq> NULL \<and> func m = 0 then Some (NULL, ifp\<lparr>if_snd := IF_UNLOCK k ifq\<rparr>, br, s)
        else do {
          (m, ifq, s) \<leftarrow> IFQ_DEQUEUE_NOLOCK k ifq s;
          Some (m, ifp\<lparr>if_snd := IF_UNLOCK k ifq\<rparr>, br, s) } }
      else
        (let m = buf_ring_peek br in
         if m = NULL \<or> func m = 0 then Some (NULL, ifp, br, s)
         else do { (m, br) \<leftarrow> buf_ring_dequeue_sc br; Some (m, ifp, br, s) }))"

definition drbr_empty :: "bool \<Rightarrow> ifnet \<Rightarrow> buf_ring \<Rightarrow> bool" where
  "drbr_empty ALTQ ifp br \<longleftrightarrow>
     (if ALTQ \<and> ALTQ_IS_ENABLED (if_snd ifp) then IFQ_IS_EMPTY (if_snd ifp) else buf_ring_empty br)"

definition drbr_needs_enqueue :: "bool \<Rightarrow> ifnet \<Rightarrow> buf_ring \<Rightarrow> bool" where
  "drbr_needs_enqueue ALTQ ifp br \<longleftrightarrow>
     (if ALTQ \<and> ALTQ_IS_ENABLED (if_snd ifp) then True else \<not> buf_ring_empty br)"

definition drbr_inuse :: "bool \<Rightarrow> ifnet \<Rightarrow> buf_ring \<Rightarrow> u32" where
  "drbr_inuse ALTQ ifp br =
     (if ALTQ \<and> ALTQ_IS_ENABLED (if_snd ifp) then ifq_len (if_snd ifp) else buf_ring_count br)"

section \<open>Linked packets\<close>

fun pkt_list :: "mheap \<Rightarrow> ptr \<Rightarrow> ptr list \<Rightarrow> bool" where
  "pkt_list h p [] \<longleftrightarrow> p = NULL"
| "pkt_list h p (x # xs) \<longleftrightarrow> p = x \<and> x \<noteq> NULL \<and> (\<exists>b. h x = Some b \<and> pkt_list h (m_nextpkt b) xs)"

text \<open>A queue given by its head, tail and length fields.  The length is an \<open>int\<close>, so there are at most
  \<open>2 ^ 31 - 1\<close> packets.\<close>

definition pkt_queue :: "mheap \<Rightarrow> ptr \<Rightarrow> ptr \<Rightarrow> u32 \<Rightarrow> ptr list \<Rightarrow> bool" where
  "pkt_queue h hd_p tl_p len xs \<longleftrightarrow> pkt_list h hd_p xs \<and> distinct xs \<and>
     tl_p = (if xs = [] then NULL else last xs) \<and> len = of_nat (length xs) \<and> length xs < 2 ^ 31"

lemma pkt_list_frame: "x \<notin> set xs \<Longrightarrow> pkt_list (h(x := b)) p xs = pkt_list h p xs"
  by (induction xs arbitrary: p) auto

lemma pkt_list_cong: "(\<And>x. x \<in> set xs \<Longrightarrow> h x = h' x) \<Longrightarrow> pkt_list h p xs = pkt_list h' p xs"
  by (induction xs arbitrary: p) auto

lemma pkt_list_mem: "pkt_list h p xs \<Longrightarrow> x \<in> set xs \<Longrightarrow> x \<noteq> NULL \<and> h x \<noteq> None"
  by (induction xs arbitrary: p) auto

lemma pkt_list_snoc:
  assumes "pkt_list h p xs" "xs \<noteq> []" "distinct xs" "h (last xs) = Some c" "m \<notin> set xs" "m \<noteq> NULL" "h m = Some b"
  shows "pkt_list (h(m \<mapsto> b\<lparr>m_nextpkt := NULL\<rparr>, last xs \<mapsto> c\<lparr>m_nextpkt := m\<rparr>)) p (xs @ [m])"
  using assms
proof (induction xs arbitrary: p)
  case (Cons x xs)
  then obtain bx where bx: "h x = Some bx" "pkt_list h (m_nextpkt bx) xs" by auto
  show ?case
  proof (cases xs)
    case Nil
    with Cons.prems show ?thesis by auto
  next
    case (Cons y ys)
    define h' where "h' = h(m \<mapsto> b\<lparr>m_nextpkt := NULL\<rparr>, last xs \<mapsto> c\<lparr>m_nextpkt := m\<rparr>)"
    have "xs \<noteq> []" using Cons by simp
    then have "pkt_list h' (m_nextpkt bx) (xs @ [m])"
      unfolding h'_def using Cons.prems bx by (intro Cons.IH) auto
    moreover have "h' x = Some bx" using Cons.prems bx \<open>xs \<noteq> []\<close> by (auto simp: h'_def)
    ultimately have "pkt_list h' p ((x # xs) @ [m])" using Cons.prems(1) by auto
    then show ?thesis using \<open>xs \<noteq> []\<close> unfolding h'_def by (metis last_ConsR)
  qed
qed simp

lemma pkt_queue_nonempty:
  assumes "pkt_queue h p q len (x # xs)"
  shows "p = x \<and> x \<noteq> NULL \<and> x \<notin> set xs \<and> q \<noteq> NULL \<and> (\<exists>b. h x = Some b \<and>
      pkt_queue h (m_nextpkt b) (if m_nextpkt b = NULL then NULL else q) (len - 1) xs)"
proof -
  from assms obtain b where b: "p = x" "x \<noteq> NULL" "h x = Some b" "pkt_list h (m_nextpkt b) xs"
    by (auto simp: pkt_queue_def)
  from assms have "q \<noteq> NULL" using pkt_list_mem [of h p "x # xs" "last (x # xs)"]
    unfolding pkt_queue_def by (metis last_in_set list.discI)
  moreover have "m_nextpkt b = NULL \<longleftrightarrow> xs = []" using b(4) by (cases xs) auto
  ultimately show ?thesis using assms b by (auto simp: pkt_queue_def)
qed

lemma pkt_queue_empty: "pkt_queue h p q len [] \<longleftrightarrow> p = NULL \<and> q = NULL \<and> len = 0"
  by (simp add: pkt_queue_def)

lemma pkt_queue_tail: "pkt_queue h p q len xs \<Longrightarrow> q = NULL \<longleftrightarrow> xs = []"
  using pkt_list_mem [of h p xs "last xs"] by (auto simp: pkt_queue_def)

lemma pkt_queue_cong:
  "(\<And>x. x \<in> set xs \<Longrightarrow> h x = h' x) \<Longrightarrow> pkt_queue h p q len xs = pkt_queue h' p q len xs"
  unfolding pkt_queue_def using pkt_list_cong [of xs h h'] by metis

lemma pkt_queue_snoc:
  assumes "pkt_queue h p q len xs" "m \<notin> set xs" "m \<noteq> NULL" "h m = Some b" "length xs + 1 < 2 ^ 31"
  shows "xs = [] \<Longrightarrow> pkt_queue (h(m \<mapsto> b\<lparr>m_nextpkt := NULL\<rparr>)) m m (len + 1) [m]"
    and "xs \<noteq> [] \<Longrightarrow> h q = Some c \<Longrightarrow>
      pkt_queue (h(m \<mapsto> b\<lparr>m_nextpkt := NULL\<rparr>, q \<mapsto> c\<lparr>m_nextpkt := m\<rparr>)) p m (len + 1) (xs @ [m])"
  using assms pkt_list_snoc [of h p xs c m b] by (auto simp: pkt_queue_def)

lemma pkt_queue_cons:
  assumes "pkt_queue h p q len xs" "m \<notin> set xs" "m \<noteq> NULL" "h m = Some b" "length xs + 1 < 2 ^ 31"
  shows "pkt_queue (h(m \<mapsto> b\<lparr>m_nextpkt := p\<rparr>)) m (if q = NULL then m else q) (len + 1) (m # xs)"
  using assms pkt_queue_tail [OF assms(1)] by (auto simp: pkt_queue_def pkt_list_frame)

section \<open>What the operations keep\<close>

text \<open>The mbufs of a packet are its \<open>m_next\<close> chain.  Packets are apart when each is a (finite) chain and no two share an
  mbuf.  \<open>m_freem\<close> frees the chain of the packet it is given: it leaves alone every mbuf that is not in that chain, and
  nothing is assumed of what it does with those that are.\<close>

definition pkt_mbufs :: "mheap \<Rightarrow> ptr \<Rightarrow> ptr set" where
  "pkt_mbufs h p = \<Union> {set ys |ys. mbuf_chain h p ys}"

definition packets_apart :: "mheap \<Rightarrow> ptr set \<Rightarrow> bool" where
  "packets_apart h P \<longleftrightarrow> (\<forall>p \<in> P. \<exists>ys. mbuf_chain h p ys) \<and>
     (\<forall>p \<in> P. \<forall>q \<in> P. p \<noteq> q \<longrightarrow> pkt_mbufs h p \<inter> pkt_mbufs h q = {})"

definition freem_chain :: "net_fns \<Rightarrow> bool" where
  "freem_chain k \<longleftrightarrow> (\<forall>m h ys x. mbuf_chain h m ys \<and> x \<notin> set ys \<longrightarrow> fn_m_freem k m h x = h x)"

definition same_rest :: "'a ifqueue_scheme \<Rightarrow> 'a ifqueue_scheme \<Rightarrow> bool" where
  "same_rest q q' \<longleftrightarrow> q' = q\<lparr>ifq_head := ifq_head q', ifq_tail := ifq_tail q', ifq_len := ifq_len q'\<rparr>"

definition pk_frame :: "ptr set \<Rightarrow> packets \<Rightarrow> packets \<Rightarrow> bool" where
  "pk_frame X s s' \<longleftrightarrow> pk_freed s' = pk_freed s \<and> (\<forall>x. x \<notin> X \<longrightarrow> pk_heap s' x = pk_heap s x) \<and>
     (\<forall>x. pk_heap s' x = None \<longleftrightarrow> pk_heap s x = None) \<and>
     (\<forall>x. map_option m_next (pk_heap s' x) = map_option m_next (pk_heap s x))"

definition ifq_holds :: "packets \<Rightarrow> 'a ifqueue_scheme \<Rightarrow> ptr list \<Rightarrow> bool" where
  "ifq_holds s q xs \<longleftrightarrow> pkt_queue (pk_heap s) (ifq_head q) (ifq_tail q) (ifq_len q) xs"

definition drv_holds :: "packets \<Rightarrow> ifaltq \<Rightarrow> ptr list \<Rightarrow> bool" where
  "drv_holds s q xs \<longleftrightarrow> pkt_queue (pk_heap s) (ifq_drv_head q) (ifq_drv_tail q) (ifq_drv_len q) xs"

lemma sint_len: "n < 2 ^ 31 \<Longrightarrow> sint (of_nat n :: u32) = int n"
  by (simp add: signed_of_nat signed_take_bit_int_eq_self)

lemma same_rest_trans: "same_rest p q \<Longrightarrow> same_rest q r \<Longrightarrow> same_rest p r"
  unfolding same_rest_def by (cases p, cases q, cases r) simp

lemma same_rest_refl [simp]: "same_rest q q"
  by (simp add: same_rest_def)

lemma same_rest_queue:
  assumes "same_rest q q'"
  shows "ifq_mtx q' = ifq_mtx q" and "ifq_maxlen q' = ifq_maxlen q" and "ifq_drops q' = ifq_drops q"
  using arg_cong [OF assms [unfolded same_rest_def], of ifq_mtx] arg_cong [OF assms [unfolded same_rest_def], of ifq_maxlen]
    arg_cong [OF assms [unfolded same_rest_def], of ifq_drops]
  by simp_all

lemma same_rest_altq:
  assumes "same_rest q (q' :: ifaltq)"
  shows "altq_flags q' = altq_flags q" and "altq_tbr q' = altq_tbr q" and "ifq_drv_maxlen q' = ifq_drv_maxlen q"
    and "drv_holds s q' xs = drv_holds s q xs"
  using arg_cong [OF assms [unfolded same_rest_def], of altq_flags] arg_cong [OF assms [unfolded same_rest_def], of altq_tbr]
    arg_cong [OF assms [unfolded same_rest_def], of ifq_drv_maxlen] arg_cong [OF assms [unfolded same_rest_def], of ifq_drv_head]
    arg_cong [OF assms [unfolded same_rest_def], of ifq_drv_tail] arg_cong [OF assms [unfolded same_rest_def], of ifq_drv_len]
  by (simp_all add: drv_holds_def)

lemma IF_ENQUEUE_raw_ok:
  assumes "ifq_holds s q xs" "m \<notin> set xs" "m \<noteq> NULL" "pk_heap s m \<noteq> None" "length xs + 1 < 2 ^ 31"
  shows "\<exists>q' s'. IF_ENQUEUE_raw q m s = Some (q', s') \<and> ifq_holds s' q' (xs @ [m]) \<and>
    pk_frame (set (xs @ [m])) s s' \<and> same_rest q q'"
proof -
  from assms(4) obtain b where b: "pk_heap s m = Some b" by auto
  note q = assms(1) [unfolded ifq_holds_def]
  note snoc = pkt_queue_snoc [OF q assms(2,3) b assms(5)]
  show ?thesis
  proof (cases "xs = []")
    case True
    then have "ifq_tail q = NULL" using pkt_queue_tail [OF q] by simp
    then show ?thesis using snoc(1) True b
      by (simp add: IF_ENQUEUE_raw_def wr_nextpkt_def ifq_holds_def pk_frame_def same_rest_def)
  next
    case False
    then have t: "ifq_tail q \<noteq> NULL" "ifq_tail q = last xs" using pkt_queue_tail [OF q] q by (auto simp: pkt_queue_def)
    moreover from False q t(2) obtain c where c: "pk_heap s (ifq_tail q) = Some c"
      using pkt_list_mem [of "pk_heap s" "ifq_head q" xs "last xs"] by (auto simp: pkt_queue_def)
    moreover have "ifq_tail q \<noteq> m" using False t(2) assms(2) by auto
    moreover have "ifq_tail q \<in> set xs" using False t(2) by simp
    ultimately show ?thesis using snoc(2) [OF False c] b
      by (auto simp: IF_ENQUEUE_raw_def wr_nextpkt_def ifq_holds_def pk_frame_def same_rest_def)
  qed
qed

lemma IF_PREPEND_raw_ok:
  assumes "ifq_holds s q xs" "m \<notin> set xs" "m \<noteq> NULL" "pk_heap s m \<noteq> None" "length xs + 1 < 2 ^ 31"
  shows "\<exists>q' s'. IF_PREPEND_raw q m s = Some (q', s') \<and> ifq_holds s' q' (m # xs) \<and>
    pk_frame {m} s s' \<and> same_rest q q'"
proof -
  from assms(4) obtain b where b: "pk_heap s m = Some b" by auto
  show ?thesis using pkt_queue_cons [OF assms(1) [unfolded ifq_holds_def] assms(2,3) b assms(5)] b
    by (auto simp: IF_PREPEND_raw_def wr_nextpkt_def ifq_holds_def pk_frame_def same_rest_def Let_def)
qed

lemma IF_DEQUEUE_raw_empty: "ifq_holds s q [] \<Longrightarrow> IF_DEQUEUE_raw q s = Some (NULL, q, s)"
  by (simp add: ifq_holds_def pkt_queue_empty IF_DEQUEUE_raw_def)

lemma IF_DEQUEUE_raw_cons:
  assumes "ifq_holds s q (x # xs)"
  shows "\<exists>q' s'. IF_DEQUEUE_raw q s = Some (x, q', s') \<and> ifq_holds s' q' xs \<and> pk_frame {x} s s' \<and> same_rest q q'"
proof -
  note x = pkt_queue_nonempty [OF assms [unfolded ifq_holds_def]]
  then obtain b where b: "pk_heap s x = Some b"
    "pkt_queue (pk_heap s) (m_nextpkt b) (if m_nextpkt b = NULL then NULL else ifq_tail q) (ifq_len q - 1) xs" by auto
  let ?s = "s\<lparr>pk_heap := (pk_heap s)(x \<mapsto> b\<lparr>m_nextpkt := NULL\<rparr>)\<rparr>"
  let ?q = "(if m_nextpkt b = NULL then q\<lparr>ifq_head := m_nextpkt b, ifq_tail := NULL\<rparr> else q\<lparr>ifq_head := m_nextpkt b\<rparr>)"
  have "IF_DEQUEUE_raw q s = Some (x, ?q\<lparr>ifq_len := ifq_len ?q - 1\<rparr>, ?s)"
    using x b(1) by (simp add: IF_DEQUEUE_raw_def rd_nextpkt_def wr_nextpkt_def Let_def)
  moreover have "pkt_queue (pk_heap ?s) (m_nextpkt b) (if m_nextpkt b = NULL then NULL else ifq_tail q) (ifq_len q - 1) xs"
    using b(2) x by (subst pkt_queue_cong [where h' = "pk_heap s"]) auto
  ultimately show ?thesis using b(1)
    by (cases "m_nextpkt b = NULL") (simp_all add: ifq_holds_def pk_frame_def same_rest_def)
qed

text \<open>Chains depend on \<open>m_next\<close> only, so queueing a packet keeps the chains of all packets; freeing one packet keeps the
  chains and the contents of the others.\<close>

lemma mbuf_chain_cong:
  "mbuf_chain h p ys \<Longrightarrow> \<forall>x \<in> set ys. map_option m_next (h x) = map_option m_next (h' x) \<Longrightarrow> mbuf_chain h' p ys"
  by (induction h p ys rule: mbuf_chain.induct) (auto simp: option.map_sel map_option_case split: option.splits)

lemma mbuf_chain_step:
  "mbuf_chain h p (x # xs) \<longleftrightarrow> p = x \<and> (\<exists>b. h x = Some b \<and> (if xs = [] then m_next b = NULL else m_next b \<noteq> NULL \<and> mbuf_chain h (m_next b) xs))"
  by (cases xs) auto

lemma mbuf_chain_unique: "mbuf_chain h p ys \<Longrightarrow> mbuf_chain h p zs \<Longrightarrow> ys = zs"
proof (induction ys arbitrary: p zs)
  case (Cons x ys)
  from Cons.prems(2) obtain y zs' where z: "zs = y # zs'" by (cases zs) simp_all
  note c = Cons.prems [unfolded z mbuf_chain_step]
  from c(1) obtain b where b: "p = x" "h x = Some b"
    "if ys = [] then m_next b = NULL else m_next b \<noteq> NULL \<and> mbuf_chain h (m_next b) ys" by blast
  from c(2) b(1,2) have z': "y = x"
    "if zs' = [] then m_next b = NULL else m_next b \<noteq> NULL \<and> mbuf_chain h (m_next b) zs'" by simp_all
  show ?case
  proof (cases "ys = []")
    case True
    with b(3) z' z show ?thesis by (cases "zs' = []") simp_all
  next
    case False
    with b(3) z'(2) have "mbuf_chain h (m_next b) ys" "mbuf_chain h (m_next b) zs'" by (cases "zs' = []"; simp)+
    with Cons.IH z z'(1) show ?thesis by simp
  qed
qed simp

lemma pkt_mbufs_chain: "mbuf_chain h p ys \<Longrightarrow> pkt_mbufs h p = set ys"
proof -
  assume y: "mbuf_chain h p ys"
  then have "mbuf_chain h p zs \<longleftrightarrow> zs = ys" for zs using mbuf_chain_unique [OF y] by (metis y)
  then show ?thesis by (simp add: pkt_mbufs_def)
qed

lemma mbuf_chain_head: "mbuf_chain h p ys \<Longrightarrow> p \<in> set ys \<and> h p \<noteq> None"
  by (cases "(h, p, ys)" rule: mbuf_chain.cases) auto

lemma apart_mem: "packets_apart h P \<Longrightarrow> p \<in> P \<Longrightarrow> p \<in> pkt_mbufs h p \<and> h p \<noteq> None"
  unfolding packets_apart_def using mbuf_chain_head pkt_mbufs_chain by blast

lemma apart_subset: "packets_apart h P \<Longrightarrow> Q \<subseteq> P \<Longrightarrow> packets_apart h Q"
  unfolding packets_apart_def by blast

lemma apart_agree:
  assumes "packets_apart h P" "\<And>p x. p \<in> P \<Longrightarrow> x \<in> pkt_mbufs h p \<Longrightarrow> map_option m_next (h' x) = map_option m_next (h x)"
  shows "packets_apart h' P" and "p \<in> P \<Longrightarrow> pkt_mbufs h' p = pkt_mbufs h p"
proof -
  have c: "\<exists>ys. mbuf_chain h' p ys \<and> set ys = pkt_mbufs h p" if p: "p \<in> P" for p
  proof -
    from assms(1) p obtain ys where y: "mbuf_chain h p ys" by (auto simp: packets_apart_def)
    then have "mbuf_chain h' p ys" using assms(2) [OF p] pkt_mbufs_chain [OF y] by (intro mbuf_chain_cong [OF y]) auto
    with pkt_mbufs_chain [OF y] show ?thesis by auto
  qed
  then show m: "pkt_mbufs h' p = pkt_mbufs h p" if "p \<in> P" for p using that pkt_mbufs_chain by metis
  show "packets_apart h' P" using assms(1) m c unfolding packets_apart_def by (metis (no_types, lifting))
qed

lemma apart_frame:
  assumes "packets_apart (pk_heap s) P" "pk_frame X s s'"
  shows "packets_apart (pk_heap s') P"
  using apart_agree(1) [OF assms(1), of "pk_heap s'"] assms(2) by (auto simp: pk_frame_def)

lemma mbufs_frame: "packets_apart (pk_heap s) P \<Longrightarrow> pk_frame X s s' \<Longrightarrow> p \<in> P \<Longrightarrow> pkt_mbufs (pk_heap s') p = pkt_mbufs (pk_heap s) p"
  using apart_agree(2) [of "pk_heap s" P "pk_heap s'"] by (auto simp: pk_frame_def)

lemma freed_other:
  assumes "freem_chain k" "packets_apart (pk_heap s) P" "x \<in> P" "y \<notin> pkt_mbufs (pk_heap s) x"
  shows "pk_heap (m_freem k x s) y = pk_heap s y"
proof -
  from assms(2,3) obtain ys where "mbuf_chain (pk_heap s) x ys" by (auto simp: packets_apart_def)
  with assms(1,4) show ?thesis using pkt_mbufs_chain by (fastforce simp: m_freem_def freem_chain_def)
qed

lemma freed_rest:
  assumes "freem_chain k" "packets_apart (pk_heap s) P" "x \<in> P"
  shows "packets_apart (pk_heap (m_freem k x s)) (P - {x})"
    and "p \<in> P - {x} \<Longrightarrow> pkt_mbufs (pk_heap (m_freem k x s)) p = pkt_mbufs (pk_heap s) p"
    and "p \<in> P - {x} \<Longrightarrow> pk_heap (m_freem k x s) p = pk_heap s p"
proof -
  have a: "packets_apart (pk_heap s) (P - {x})" using assms(2) by (rule apart_subset) auto
  have o: "pk_heap (m_freem k x s) y = pk_heap s y" if "p \<in> P - {x}" "y \<in> pkt_mbufs (pk_heap s) p" for p y
    using that assms(2,3) by (intro freed_other [OF assms]) (auto simp: packets_apart_def)
  then show "packets_apart (pk_heap (m_freem k x s)) (P - {x})" using apart_agree(1) [OF a] by metis
  show "p \<in> P - {x} \<Longrightarrow> pkt_mbufs (pk_heap (m_freem k x s)) p = pkt_mbufs (pk_heap s) p"
    using o apart_agree(2) [OF a] by metis
  show "p \<in> P - {x} \<Longrightarrow> pk_heap (m_freem k x s) p = pk_heap s p" using o apart_mem [OF a] by blast
qed

lemma freed_queue:
  assumes "freem_chain k" "packets_apart (pk_heap s) P" "x \<in> P" "set xs \<subseteq> P - {x}"
  shows "pkt_queue (pk_heap (m_freem k x s)) p q len xs = pkt_queue (pk_heap s) p q len xs"
  using freed_rest(3) [OF assms(1-3)] assms(4) by (intro pkt_queue_cong) blast

text \<open>What freeing the packets of a list does to the heap and the record of the calls.\<close>

definition frees :: "ptr list \<Rightarrow> packets \<Rightarrow> packets \<Rightarrow> bool" where
  "frees xs s s' \<longleftrightarrow> pk_freed s' = pk_freed s @ xs \<and>
     (\<forall>y. y \<notin> (\<Union>x \<in> set xs. pkt_mbufs (pk_heap s) x) \<longrightarrow> pk_heap s' y = pk_heap s y)"

lemma frees_Nil [simp]: "frees [] s s"
  by (simp add: frees_def)

lemma frees_Cons:
  assumes "freem_chain k" "packets_apart (pk_heap s) (set (x # xs))" "x \<notin> set xs" "frees xs (m_freem k x s) s'"
  shows "frees (x # xs) s s'"
proof -
  have m: "pkt_mbufs (pk_heap (m_freem k x s)) y = pkt_mbufs (pk_heap s) y" if "y \<in> set xs" for y
    using that assms(3) by (intro freed_rest(2) [OF assms(1,2)]) auto
  have f: "pk_freed s' = pk_freed s @ x # xs" using assms(4) by (simp add: frees_def m_freem_def)
  have "pk_heap s' y = pk_heap s y" if y: "y \<notin> (\<Union>z \<in> set (x # xs). pkt_mbufs (pk_heap s) z)" for y
    using assms(4) y m freed_other [OF assms(1,2), of x y] by (simp add: frees_def)
  with f show ?thesis unfolding frees_def by blast
qed

lemma frees_frame:
  assumes "packets_apart (pk_heap s) (set (x # xs))" "pk_frame {x} s s1" "frees (x # xs) s1 s'"
  shows "frees (x # xs) s s'"
proof -
  have m: "pkt_mbufs (pk_heap s1) y = pkt_mbufs (pk_heap s) y" if "y \<in> set (x # xs)" for y
    using mbufs_frame [OF assms(1,2) that] .
  have x: "x \<in> pkt_mbufs (pk_heap s) x" using apart_mem [OF assms(1)] by simp
  have "pk_heap s' y = pk_heap s y" if y: "y \<notin> (\<Union>z \<in> set (x # xs). pkt_mbufs (pk_heap s) z)" for y
  proof -
    have "pk_heap s' y = pk_heap s1 y" using assms(3) y m unfolding frees_def by simp
    also have "\<dots> = pk_heap s y" using assms(2) y x by (auto simp: pk_frame_def)
    finally show ?thesis .
  qed
  moreover have "pk_freed s' = pk_freed s @ x # xs" using assms(2,3) by (simp add: frees_def pk_frame_def)
  ultimately show ?thesis unfolding frees_def by blast
qed

lemma frees_rest:
  assumes "packets_apart (pk_heap s) (set xs \<union> P)" "set xs \<inter> P = {}" "frees xs s s'"
  shows "packets_apart (pk_heap s') P" and "p \<in> P \<Longrightarrow> pk_heap s' p = pk_heap s p"
    and "p \<in> P \<Longrightarrow> pkt_mbufs (pk_heap s') p = pkt_mbufs (pk_heap s) p"
proof -
  have a: "packets_apart (pk_heap s) P" using assms(1) by (rule apart_subset) auto
  have o: "pk_heap s' y = pk_heap s y" if p: "p \<in> P" and y: "y \<in> pkt_mbufs (pk_heap s) p" for p y
  proof -
    have "y \<notin> pkt_mbufs (pk_heap s) x" if "x \<in> set xs" for x
    proof -
      have "x \<noteq> p" using that p assms(2) by auto
      with that p assms(1) have "pkt_mbufs (pk_heap s) x \<inter> pkt_mbufs (pk_heap s) p = {}"
        unfolding packets_apart_def by blast
      then show ?thesis using y by blast
    qed
    with assms(3) show ?thesis by (simp add: frees_def)
  qed
  then show "packets_apart (pk_heap s') P" using apart_agree(1) [OF a] by metis
  show "p \<in> P \<Longrightarrow> pk_heap s' p = pk_heap s p" using o apart_mem [OF a] by blast
  show "p \<in> P \<Longrightarrow> pkt_mbufs (pk_heap s') p = pkt_mbufs (pk_heap s) p" using o apart_agree(2) [OF a] by metis
qed

lemma frees_append:
  assumes "packets_apart (pk_heap s) (set xs \<union> set ys)" "set xs \<inter> set ys = {}" "frees xs s s1" "frees ys s1 s'"
  shows "frees (xs @ ys) s s'"
proof -
  note m = frees_rest(3) [OF assms(1-3)]
  have "pk_heap s' y = pk_heap s y" if y: "y \<notin> (\<Union>z \<in> set (xs @ ys). pkt_mbufs (pk_heap s) z)" for y
    using assms(3,4) y m by (simp add: frees_def)
  moreover have "pk_freed s' = pk_freed s @ xs @ ys" using assms(3,4) by (simp add: frees_def)
  ultimately show ?thesis unfolding frees_def by blast
qed

lemma IF_DRAIN_raw_ok:
  assumes "freem_chain k"
  shows "ifq_holds s q xs \<Longrightarrow> packets_apart (pk_heap s) (set xs) \<Longrightarrow>
    \<exists>q' s'. IF_DRAIN_raw k q s = Some (q', s') \<and> ifq_holds s' q' [] \<and> frees xs s s' \<and> same_rest q q'"
proof (induction xs arbitrary: q s)
  case Nil
  then show ?case by (subst IF_DRAIN_raw.simps) (simp add: IF_DEQUEUE_raw_empty)
next
  case (Cons x xs)
  from IF_DEQUEUE_raw_cons [OF Cons.prems(1)] obtain q1 s1 where 1: "IF_DEQUEUE_raw q s = Some (x, q1, s1)"
    "ifq_holds s1 q1 xs" "pk_frame {x} s s1" "same_rest q q1" by blast
  have x: "x \<noteq> NULL" "x \<notin> set xs" using pkt_queue_nonempty Cons.prems(1) unfolding ifq_holds_def by blast+
  have a: "packets_apart (pk_heap s1) (set (x # xs))" using Cons.prems(2) 1(3) by (rule apart_frame)
  have "ifq_holds (m_freem k x s1) q1 xs" using 1(2) freed_queue [OF assms a, of x xs] x(2) by (auto simp: ifq_holds_def)
  moreover have "packets_apart (pk_heap (m_freem k x s1)) (set xs)" using freed_rest(1) [OF assms a, of x] x(2) by simp
  ultimately obtain q' s' where 2: "IF_DRAIN_raw k q1 (m_freem k x s1) = Some (q', s')"
    "ifq_holds s' q' []" "frees xs (m_freem k x s1) s'" "same_rest q1 q'" using Cons.IH by blast
  have "IF_DRAIN_raw k q s = Some (q', s')"
    using 1(1) 2(1) x by (subst IF_DRAIN_raw.simps) simp
  moreover have "frees (x # xs) s s'"
    by (rule frees_frame [OF Cons.prems(2) 1(3)]) (rule frees_Cons [OF assms a x(2) 2(3)])
  moreover have "same_rest q q'" using 1(4) 2(4) by (rule same_rest_trans)
  ultimately show ?case using 2(2) by blast
qed

text \<open>The same for the queue of the driver: its packets are freed in order, and none is read after
  it has been freed.\<close>

lemma drv_free_all_ok:
  assumes "freem_chain k"
  shows "pkt_list (pk_heap s) p xs \<Longrightarrow> distinct xs \<Longrightarrow> packets_apart (pk_heap s) (set xs) \<Longrightarrow>
    \<exists>s'. drv_free_all k p s = Some s' \<and> frees xs s s'"
proof (induction xs arbitrary: p s)
  case Nil
  then show ?case by (subst drv_free_all.simps) simp
next
  case (Cons x xs)
  then obtain b where b: "p = x" "x \<noteq> NULL" "pk_heap s x = Some b" "pkt_list (pk_heap s) (m_nextpkt b) xs" by auto
  have x: "x \<notin> set xs" "distinct xs" using Cons.prems(2) by auto
  note r = freed_rest [OF assms Cons.prems(3), of x, simplified]
  have "pkt_list (pk_heap (m_freem k x s)) (m_nextpkt b) xs"
    using b(4) x(1) by (subst pkt_list_cong [where h' = "pk_heap s"]) (auto intro!: r(3))
  moreover have "packets_apart (pk_heap (m_freem k x s)) (set xs)" using r(1) x(1) by simp
  ultimately obtain s' where 1: "drv_free_all k (m_nextpkt b) (m_freem k x s) = Some s'"
    "frees xs (m_freem k x s) s'" using Cons.IH x(2) by blast
  have "frees (x # xs) s s'" using assms Cons.prems(3) x(1) 1(2) by (rule frees_Cons)
  then show ?case using b 1(1) by (subst drv_free_all.simps) (simp add: rd_nextpkt_def)
qed

section \<open>The lock of a queue\<close>

definition unlocked :: "'a ifqueue_scheme \<Rightarrow> bool" where
  "unlocked q \<longleftrightarrow> mtx_word (ifq_mtx q) = MTX_UNOWNED"

lemma IF_LOCK_free: "unlocked q \<Longrightarrow> IF_LOCK k q = q\<lparr>ifq_mtx := (ifq_mtx q)\<lparr>mtx_word := curthread k\<rparr>\<rparr>"
  by (simp add: unlocked_def IF_LOCK_def mtx_lock_fast_def mtx_obtain_try_def atomic_cmpset_long_def cmpxchg_def sete_def)

lemma IF_UNLOCK_own:
  "mtx_word (ifq_mtx q) = curthread k \<Longrightarrow> IF_UNLOCK k q = q\<lparr>ifq_mtx := (ifq_mtx q)\<lparr>mtx_word := MTX_UNOWNED\<rparr>\<rparr>"
  by (simp add: IF_UNLOCK_def mtx_unlock_fast_def mtx_release_try_def atomic_cmpset_long_def cmpxchg_def sete_def)

lemma locked_section:
  assumes "unlocked q" and "same_rest (IF_LOCK k q) q'"
  shows "unlocked (IF_UNLOCK k q')" and "same_rest q (IF_UNLOCK k q')"
    and "ifq_holds s (IF_UNLOCK k q') xs \<longleftrightarrow> ifq_holds s q' xs"
proof -
  from assms have "ifq_mtx q' = (ifq_mtx q)\<lparr>mtx_word := curthread k\<rparr>"
    using same_rest_queue(1) by (fastforce simp: IF_LOCK_free)
  then have u: "IF_UNLOCK k q' = q'\<lparr>ifq_mtx := ifq_mtx q\<rparr>"
    using assms(1) by (simp add: IF_UNLOCK_own unlocked_def)
  show "unlocked (IF_UNLOCK k q')" using assms(1) by (simp add: u unlocked_def)
  show "same_rest q (IF_UNLOCK k q')" using assms unfolding u same_rest_def IF_LOCK_free [OF assms(1)]
    by (cases q, cases q') simp
  show "ifq_holds s (IF_UNLOCK k q') xs \<longleftrightarrow> ifq_holds s q' xs" by (simp add: u ifq_holds_def)
qed

lemma locked_holds: "ifq_holds s (IF_LOCK k q) xs \<longleftrightarrow> ifq_holds s q xs"
  by (simp add: ifq_holds_def IF_LOCK_def)

section \<open>Bounded queues of packets\<close>

text \<open>
  The contract of a queue of packets, over the set \<open>F\<close> of packets the caller has, the packets \<open>xs\<close> in
  the queue and the packets \<open>G\<close> freed so far: a packet is taken from the caller, and either appended or,
  when there are \<open>cap\<close> packets, freed with an error.
\<close>

datatype fifo_op = Enqueue ptr | Dequeue

datatype fifo_out = Status u32 | Packet ptr

type_synonym fifo = "ptr set \<times> ptr list \<times> ptr list"

fun fifo_spec :: "nat \<Rightarrow> fifo_op \<Rightarrow> fifo \<Rightarrow> (fifo_out \<times> fifo) option" where
  "fifo_spec cap (Enqueue m) (F, xs, G) =
     (if m \<notin> F then None
      else if length xs < cap then Some (Status 0, F - {m}, xs @ [m], G)
      else Some (Status ENOBUFS, F - {m}, xs, G @ [m]))"
| "fifo_spec cap Dequeue (F, [], G) = Some (Packet NULL, F, [], G)"
| "fifo_spec cap Dequeue (F, x # xs, G) = Some (Packet x, insert x F, xs, G)"

fun run_ops :: "('op \<Rightarrow> 's \<Rightarrow> ('out \<times> 's) option) \<Rightarrow> 'op list \<Rightarrow> 's \<Rightarrow> ('out list \<times> 's) option" where
  "run_ops f [] s = Some ([], s)"
| "run_ops f (x # xs) s = do { (y, s) \<leftarrow> f x s; (ys, s) \<leftarrow> run_ops f xs s; Some (y # ys, s) }"

fun fifo_impl :: "('s \<Rightarrow> ptr \<Rightarrow> (u32 \<times> 's) option) \<Rightarrow> ('s \<Rightarrow> (ptr \<times> 's) option) \<Rightarrow> fifo_op \<Rightarrow> 's \<Rightarrow> (fifo_out \<times> 's) option" where
  "fifo_impl enq deq (Enqueue m) s = map_option (\<lambda>(r, s). (Status r, s)) (enq s m)"
| "fifo_impl enq deq Dequeue s = map_option (\<lambda>(m, s). (Packet m, s)) (deq s)"

locale bounded_fifo =
  fixes rep :: "'s \<Rightarrow> fifo \<Rightarrow> bool"
    and cap :: nat
    and enq :: "'s \<Rightarrow> ptr \<Rightarrow> (u32 \<times> 's) option"
    and deq :: "'s \<Rightarrow> (ptr \<times> 's) option"
  assumes enq_room: "rep s (F, xs, G) \<Longrightarrow> m \<in> F \<Longrightarrow> length xs < cap \<Longrightarrow>
      \<exists>s'. enq s m = Some (0, s') \<and> rep s' (F - {m}, xs @ [m], G)"
    and enq_full: "rep s (F, xs, G) \<Longrightarrow> m \<in> F \<Longrightarrow> \<not> length xs < cap \<Longrightarrow>
      \<exists>s'. enq s m = Some (ENOBUFS, s') \<and> rep s' (F - {m}, xs, G @ [m])"
    and deq_empty: "rep s (F, [], G) \<Longrightarrow> \<exists>s'. deq s = Some (NULL, s') \<and> rep s' (F, [], G)"
    and deq_first: "rep s (F, x # xs, G) \<Longrightarrow> \<exists>s'. deq s = Some (x, s') \<and> rep s' (insert x F, xs, G)"
begin

lemma step:
  assumes "rep s q" and "fifo_spec cap x q = Some (y, q')"
  shows "\<exists>s'. fifo_impl enq deq x s = Some (y, s') \<and> rep s' q'"
proof -
  obtain F xs G where q: "q = (F, xs, G)" by (cases q)
  show ?thesis
  proof (cases x)
    case (Enqueue m)
    then show ?thesis using assms enq_room [of s F xs G m] enq_full [of s F xs G m]
      by (cases "length xs < cap") (auto simp: q split: if_splits)
  next
    case Dequeue
    then show ?thesis using assms deq_empty [of s F G] deq_first [of s F "hd xs" "tl xs" G]
      by (cases xs) (auto simp: q)
  qed
qed

lemma run:
  assumes "rep s q" and "run_ops (fifo_spec cap) ops q = Some (ys, q')"
  shows "\<exists>s'. run_ops (fifo_impl enq deq) ops s = Some (ys, s') \<and> rep s' q'"
  using assms
proof (induction ops arbitrary: s q ys)
  case (Cons x ops)
  from Cons.prems(2) obtain y q1 zs where 1: "fifo_spec cap x q = Some (y, q1)"
    "run_ops (fifo_spec cap) ops q1 = Some (zs, q')" "ys = y # zs"
    by (auto split: Option.bind_splits)
  from step [OF Cons.prems(1) 1(1)] obtain s1 where "fifo_impl enq deq x s = Some (y, s1)" "rep s1 q1" by blast
  with Cons.IH [OF _ 1(2)] 1(3) show ?case by fastforce
qed simp

end

section \<open>The output queue is a bounded queue\<close>

definition caller_has :: "packets \<Rightarrow> ptr list \<Rightarrow> ptr set \<Rightarrow> bool" where
  "caller_has s xs F \<longleftrightarrow> (\<forall>m \<in> F. m \<noteq> NULL \<and> m \<notin> set xs) \<and> packets_apart (pk_heap s) (F \<union> set xs)"

text \<open>The caller gives a packet away, to the queue or to be freed.\<close>

lemma caller_gives: "caller_has s xs F \<Longrightarrow> m \<in> F \<Longrightarrow> caller_has s (xs @ [m]) (F - {m})"
proof -
  assume a: "caller_has s xs F" "m \<in> F"
  then have "F - {m} \<union> set (xs @ [m]) = F \<union> set xs" by auto
  moreover have "\<forall>x \<in> F - {m}. x \<noteq> NULL \<and> x \<notin> set (xs @ [m])" using a by (simp add: caller_has_def)
  ultimately show ?thesis using a unfolding caller_has_def by metis
qed

lemma caller_freed:
  assumes "freem_chain k" "caller_has s xs F" "m \<in> F"
  shows "caller_has (m_freem k m s) xs (F - {m})"
    and "x \<in> set xs \<Longrightarrow> pk_heap (m_freem k m s) x = pk_heap s x"
proof -
  from assms have a: "packets_apart (pk_heap s) (F \<union> set xs)" and m: "m \<in> F \<union> set xs" "m \<notin> set xs"
    by (auto simp: caller_has_def)
  note r = freed_rest [OF assms(1) a m(1)]
  have "F \<union> set xs - {m} = F - {m} \<union> set xs" using m(2) by auto
  with r(1) assms(2) show "caller_has (m_freem k m s) xs (F - {m})" by (simp add: caller_has_def)
  show "x \<in> set xs \<Longrightarrow> pk_heap (m_freem k m s) x = pk_heap s x" using r(3) m(2) by auto
qed

definition plain :: "ifaltq \<Rightarrow> bool" where
  "plain q \<longleftrightarrow> unlocked q \<and> \<not> ALTQ_IS_ENABLED q \<and> \<not> TBR_IS_ENABLED q"

fun ifq_rep :: "nat \<Rightarrow> net_fns \<times> ifaltq \<times> packets \<Rightarrow> fifo \<Rightarrow> bool" where
  "ifq_rep cap (k, q, s) (F, xs, G) \<longleftrightarrow> freem_chain k \<and> plain q \<and> sint (ifq_maxlen q) = int cap \<and>
     ifq_holds s q xs \<and> caller_has s xs F \<and> pk_freed s = G"

fun ifq_enq :: "net_fns \<times> ifaltq \<times> packets \<Rightarrow> ptr \<Rightarrow> (u32 \<times> net_fns \<times> ifaltq \<times> packets) option" where
  "ifq_enq (k, q, s) m = map_option (\<lambda>(r, q, s). (r, k, q, s)) (IFQ_ENQUEUE k q m s)"

fun ifq_deq :: "net_fns \<times> ifaltq \<times> packets \<Rightarrow> (ptr \<times> net_fns \<times> ifaltq \<times> packets) option" where
  "ifq_deq (k, q, s) = map_option (\<lambda>(m, q, s). (m, k, q, s)) (IFQ_DEQUEUE k q s)"

lemma plain_same: "plain q \<Longrightarrow> same_rest q q' \<Longrightarrow> plain q'"
  using same_rest_queue(1) [of q q'] same_rest_altq(1,2) [of q q']
  by (simp add: plain_def unlocked_def ALTQ_IS_ENABLED_def TBR_IS_ENABLED_def)

lemma plain_locked: "ALTQ_IS_ENABLED (IF_LOCK k q) \<longleftrightarrow> ALTQ_IS_ENABLED q"
    "TBR_IS_ENABLED (IF_LOCK k q) \<longleftrightarrow> TBR_IS_ENABLED q" "IF_QFULL_raw (IF_LOCK k q) \<longleftrightarrow> IF_QFULL_raw q"
  by (simp_all add: ALTQ_IS_ENABLED_def TBR_IS_ENABLED_def IF_QFULL_raw_def IF_LOCK_def)

lemma IF_QFULL_iff:
  assumes "ifq_holds s q xs" "sint (ifq_maxlen q) = int cap"
  shows "IF_QFULL_raw q \<longleftrightarrow> \<not> length xs < cap"
  using assms sint_len [of "length xs"] by (auto simp: IF_QFULL_raw_def ifq_holds_def pkt_queue_def)

lemma cap_bound: "sint (w :: u32) = int cap \<Longrightarrow> cap < 2 ^ 31"
  using sint_lt [of w] by simp

lemma IFQ_ENQUEUE_room:
  assumes "ifq_rep cap (k, q, s) (F, xs, G)" "m \<in> F" "length xs < cap"
  shows "\<exists>q' s'. IFQ_ENQUEUE k q m s = Some (0, q', s') \<and> ifq_rep cap (k, q', s') (F - {m}, xs @ [m], G)"
proof -
  from assms have r: "freem_chain k" "plain q" "sint (ifq_maxlen q) = int cap" "ifq_holds s q xs" "pk_freed s = G"
    and m: "m \<noteq> NULL" "m \<notin> set xs" and F: "caller_has s xs F"
    by (auto simp: caller_has_def)
  have "pk_heap s m \<noteq> None" using F assms(2) apart_mem by (auto simp: caller_has_def)
  note m = m this
  have "length xs + 1 < 2 ^ 31" using assms(3) cap_bound [OF r(3)] by simp
  from IF_ENQUEUE_raw_ok [OF _ m(2,1,3) this, of "IF_LOCK k q"] r(4) obtain q1 s1
    where 1: "IF_ENQUEUE_raw (IF_LOCK k q) m s = Some (q1, s1)" "ifq_holds s1 q1 (xs @ [m])"
      "pk_frame (set (xs @ [m])) s s1" "same_rest (IF_LOCK k q) q1" by (auto simp: locked_holds)
  have u: "unlocked q" using r(2) by (simp add: plain_def)
  note sec = locked_section [OF u 1(4)]
  have "IFQ_ENQUEUE k q m s = Some (0, IF_UNLOCK k q1, s1)"
    using r(2) 1(1) IF_QFULL_iff [OF r(4,3)] assms(3) by (simp add: IFQ_ENQUEUE_def plain_def plain_locked Let_def)
  moreover have "caller_has s1 (xs @ [m]) (F - {m})"
    using caller_gives [OF F assms(2)] apart_frame [OF _ 1(3)] by (simp add: caller_has_def)
  moreover have "pk_freed s1 = G" using 1(3) r(5) by (simp add: pk_frame_def)
  ultimately show ?thesis
    using r(1,3) sec(3) 1(2) plain_same [OF r(2) sec(2)] same_rest_queue(2) [OF sec(2)] by simp
qed

lemma IFQ_ENQUEUE_full:
  assumes "ifq_rep cap (k, q, s) (F, xs, G)" "m \<in> F" "\<not> length xs < cap"
  shows "\<exists>q' s'. IFQ_ENQUEUE k q m s = Some (ENOBUFS, q', s') \<and> ifq_rep cap (k, q', s') (F - {m}, xs, G @ [m]) \<and>
    ifq_drops q' = ifq_drops q + 1"
proof -
  from assms have r: "freem_chain k" "plain q" "sint (ifq_maxlen q) = int cap" "ifq_holds s q xs" "pk_freed s = G"
    and m: "m \<notin> set xs" and F: "caller_has s xs F" by (auto simp: caller_has_def)
  have u: "unlocked q" using r(2) by (simp add: plain_def)
  let ?q = "q\<lparr>ifq_drops := ifq_drops q + 1\<rparr>"
  have "IFQ_ENQUEUE k q m s = Some (ENOBUFS, ?q, m_freem k m s)"
    using r(2) IF_QFULL_iff [OF r(4,3)] assms(3) u
    by (simp add: IFQ_ENQUEUE_def plain_def plain_locked Let_def) (simp add: IF_LOCK_free IF_UNLOCK_own unlocked_def)
  moreover have "ifq_holds (m_freem k m s) ?q xs" using r(4) caller_freed(2) [OF r(1) F assms(2)]
    by (simp add: ifq_holds_def pkt_queue_cong [of xs "pk_heap (m_freem k m s)"])
  moreover have "caller_has (m_freem k m s) xs (F - {m})" using r(1) F assms(2) by (rule caller_freed)
  moreover have "plain ?q" using r(2) by (simp add: plain_def unlocked_def ALTQ_IS_ENABLED_def TBR_IS_ENABLED_def)
  ultimately show ?thesis using r by (simp add: m_freem_def)
qed

lemma IFQ_DEQUEUE_NOLOCK_plain:
  "\<not> ALTQ_IS_ENABLED q \<Longrightarrow> \<not> TBR_IS_ENABLED q \<Longrightarrow> IFQ_DEQUEUE_NOLOCK k q s = IF_DEQUEUE_raw q s"
  by (simp add: IFQ_DEQUEUE_NOLOCK_def)

lemma IFQ_DEQUEUE_empty:
  assumes "ifq_rep cap (k, q, s) (F, [], G)"
  shows "\<exists>q' s'. IFQ_DEQUEUE k q s = Some (NULL, q', s') \<and> ifq_rep cap (k, q', s') (F, [], G)"
proof -
  from assms have r: "plain q" "ifq_holds s q []" by auto
  have u: "unlocked q" using r(1) by (simp add: plain_def)
  have "IFQ_DEQUEUE k q s = Some (NULL, IF_UNLOCK k (IF_LOCK k q), s)"
    using r IF_DEQUEUE_raw_empty [of s "IF_LOCK k q"]
    by (simp add: IFQ_DEQUEUE_def plain_def plain_locked IFQ_DEQUEUE_NOLOCK_plain locked_holds)
  moreover have "IF_UNLOCK k (IF_LOCK k q) = q" using u by (simp add: IF_LOCK_free IF_UNLOCK_own unlocked_def)
  ultimately show ?thesis using assms by simp
qed

lemma IFQ_DEQUEUE_first:
  assumes "ifq_rep cap (k, q, s) (F, x # xs, G)"
  shows "\<exists>q' s'. IFQ_DEQUEUE k q s = Some (x, q', s') \<and> ifq_rep cap (k, q', s') (insert x F, xs, G)"
proof -
  from assms have r: "freem_chain k" "plain q" "sint (ifq_maxlen q) = int cap" "ifq_holds s q (x # xs)" "pk_freed s = G"
    and F: "caller_has s (x # xs) F" by auto
  from IF_DEQUEUE_raw_cons [of s "IF_LOCK k q" x xs] r(4) obtain q1 s1
    where 1: "IF_DEQUEUE_raw (IF_LOCK k q) s = Some (x, q1, s1)" "ifq_holds s1 q1 xs"
      "pk_frame {x} s s1" "same_rest (IF_LOCK k q) q1" by (auto simp: locked_holds)
  have u: "unlocked q" using r(2) by (simp add: plain_def)
  note sec = locked_section [OF u 1(4)]
  have "IFQ_DEQUEUE k q s = Some (x, IF_UNLOCK k q1, s1)"
    using r(2) 1(1) by (simp add: IFQ_DEQUEUE_def plain_def plain_locked IFQ_DEQUEUE_NOLOCK_plain)
  moreover have "x \<noteq> NULL" "x \<notin> set xs" "pk_heap s x \<noteq> None"
    using pkt_queue_nonempty [OF r(4) [unfolded ifq_holds_def]] by auto
  then have "caller_has s1 xs (insert x F)" using F apart_frame [OF _ 1(3)] by (auto simp: caller_has_def)
  moreover have "pk_freed s1 = G" using 1(3) r(5) by (simp add: pk_frame_def)
  ultimately show ?thesis
    using r(1,3) sec(3) 1(2) plain_same [OF r(2) sec(2)] same_rest_queue(2) [OF sec(2)] by simp
qed

interpretation ifq_fifo: bounded_fifo "ifq_rep cap" cap ifq_enq ifq_deq for cap
proof
  fix s F xs G m assume "ifq_rep cap s (F, xs, G)" "m \<in> F" "length xs < cap"
  then show "\<exists>s'. ifq_enq s m = Some (0, s') \<and> ifq_rep cap s' (F - {m}, xs @ [m], G)"
    using IFQ_ENQUEUE_room by (cases s) fastforce
next
  fix s F xs G m assume "ifq_rep cap s (F, xs, G)" "m \<in> F" "\<not> length xs < cap"
  then show "\<exists>s'. ifq_enq s m = Some (ENOBUFS, s') \<and> ifq_rep cap s' (F - {m}, xs, G @ [m])"
    using IFQ_ENQUEUE_full by (cases s) fastforce
next
  fix s F G assume "ifq_rep cap s (F, [], G)"
  then show "\<exists>s'. ifq_deq s = Some (NULL, s') \<and> ifq_rep cap s' (F, [], G)"
    using IFQ_DEQUEUE_empty by (cases s) fastforce
next
  fix s F x xs G assume "ifq_rep cap s (F, x # xs, G)"
  then show "\<exists>s'. ifq_deq s = Some (x, s') \<and> ifq_rep cap s' (insert x F, xs, G)"
    using IFQ_DEQUEUE_first by (cases s) fastforce
qed

section \<open>The ring is a bounded queue\<close>

text \<open>Without alternate queueing; the state of the interface is kept beside the ring.\<close>

type_synonym drbr_state = "net_fns \<times> ifnet \<times> buf_ring \<times> packets"

fun drbr_rep :: "nat \<Rightarrow> drbr_state \<Rightarrow> fifo \<Rightarrow> bool" where
  "drbr_rep b (k, ifp, br, s) (F, xs, G) \<longleftrightarrow> freem_chain k \<and> ring_queue b br xs \<and>
     (\<forall>x \<in> set xs. x \<noteq> NULL) \<and> distinct xs \<and> caller_has s xs F \<and> pk_freed s = G"

fun drbr_enq :: "drbr_state \<Rightarrow> ptr \<Rightarrow> (u32 \<times> drbr_state) option" where
  "drbr_enq (k, ifp, br, s) m = map_option (\<lambda>(r, ifp, br, s). (r, k, ifp, br, s)) (drbr_enqueue False k ifp br m s)"

fun drbr_deq :: "drbr_state \<Rightarrow> (ptr \<times> drbr_state) option" where
  "drbr_deq (k, ifp, br, s) = map_option (\<lambda>(m, ifp, br, s). (m, k, ifp, br, s)) (drbr_dequeue False k ifp br s)"

lemma ring_queue_drops: "ring_queue b (br\<lparr>br_drops := d\<rparr>) xs = ring_queue b br xs"
  by (simp add: ring_queue_def ring_at_def ring_shape_def)

lemma drbr_enqueue_room:
  assumes "drbr_rep b (k, ifp, br, s) (F, xs, G)" "m \<in> F" "length xs < 2 ^ b - 1"
  shows "\<exists>s'. drbr_enq (k, ifp, br, s) m = Some (0, s') \<and> drbr_rep b s' (F - {m}, xs @ [m], G)"
proof -
  from assms have F: "caller_has s xs F" and q: "ring_queue b br xs" by auto
  with assms(2) obtain p where m: "m \<noteq> NULL" "m \<notin> set xs" "pk_heap s m = Some p"
    using apart_mem [of "pk_heap s" "F \<union> set xs" m] by (auto simp: caller_has_def)
  have "caller_has s (xs @ [m]) (F - {m})" using F assms(2) by (rule caller_gives)
  moreover have nn: "\<forall>x \<in> set (xs @ [m]). x \<noteq> NULL" "distinct (xs @ [m])" using assms(1) m by auto
  moreover have "length xs + 1 < 2 ^ b" using assms(3) by simp
  with ring_queue_enqueue [OF q, of m "m_pkthdr_len p"] obtain br'
    where "buf_ring_enqueue_bytes br m (m_pkthdr_len p) = Some (0, br')" "ring_queue b br' (xs @ [m])" by auto
  ultimately show ?thesis using assms(1) m(3) by (simp add: drbr_enqueue_def)
qed

lemma drbr_enqueue_full:
  assumes "drbr_rep b (k, ifp, br, s) (F, xs, G)" "m \<in> F" "\<not> length xs < 2 ^ b - 1"
  shows "\<exists>s'. drbr_enq (k, ifp, br, s) m = Some (ENOBUFS, s') \<and> drbr_rep b s' (F - {m}, xs, G @ [m])"
proof -
  from assms have F: "caller_has s xs F" and q: "ring_queue b br xs" and k: "freem_chain k" by auto
  with assms(2) obtain p where m: "pk_heap s m = Some p"
    using apart_mem [of "pk_heap s" "F \<union> set xs" m] by (auto simp: caller_has_def)
  have "\<not> length xs + 1 < 2 ^ b" using assms(3) by simp
  with ring_queue_enqueue [OF q, of m "m_pkthdr_len p"]
  have e: "buf_ring_enqueue_bytes br m (m_pkthdr_len p) = Some (ENOBUFS, br)" by auto
  have "caller_has (m_freem k m s) xs (F - {m})" using k F assms(2) by (rule caller_freed)
  moreover have "pk_freed (m_freem k m s) = G @ [m]" using assms(1) by (simp add: m_freem_def)
  ultimately show ?thesis using assms(1) m e by (auto simp: drbr_enqueue_def ring_queue_drops)
qed

interpretation drbr_fifo: bounded_fifo "drbr_rep b" "2 ^ b - 1" drbr_enq drbr_deq for b
proof
  fix s F xs G m assume a: "drbr_rep b s (F, xs, G)" "m \<in> F" "length xs < 2 ^ b - 1"
  then show "\<exists>s'. drbr_enq s m = Some (0, s') \<and> drbr_rep b s' (F - {m}, xs @ [m], G)"
    using drbr_enqueue_room by (cases s) blast
next
  fix s F xs G m assume a: "drbr_rep b s (F, xs, G)" "m \<in> F" "\<not> length xs < 2 ^ b - 1"
  then show "\<exists>s'. drbr_enq s m = Some (ENOBUFS, s') \<and> drbr_rep b s' (F - {m}, xs, G @ [m])"
    using drbr_enqueue_full by (cases s) blast
next
  fix s F G assume "drbr_rep b s (F, [], G)"
  then show "\<exists>s'. drbr_deq s = Some (NULL, s') \<and> drbr_rep b s' (F, [], G)"
    using ring_queue_dequeue(2) by (cases s) (auto simp: drbr_dequeue_def)
next
  fix s F x xs G assume a: "drbr_rep b s (F, x # xs, G)"
  obtain k ifp br p where s: "s = (k, ifp, br, p)" by (cases s)
  from a have "ring_queue b br (x # xs)" by (simp add: s)
  from ring_queue_dequeue(3) [OF this refl] obtain br' where
    "buf_ring_dequeue_sc br = Some (x, br')" "ring_queue b br' xs" by blast
  with a show "\<exists>s'. drbr_deq s = Some (x, s') \<and> drbr_rep b s' (insert x F, xs, G)"
    by (auto simp: s drbr_dequeue_def caller_has_def)
qed

section \<open>The queue of the driver keeps the order\<close>

definition both_queues :: "packets \<Rightarrow> ifaltq \<Rightarrow> ptr list \<Rightarrow> ptr list \<Rightarrow> bool" where
  "both_queues s q ds xs \<longleftrightarrow> drv_holds s q ds \<and> ifq_holds s q xs \<and> set ds \<inter> set xs = {}"

lemma drv_append_ok:
  assumes "drv_holds s q ds" "m \<notin> set ds" "m \<noteq> NULL" "pk_heap s m \<noteq> None" "length ds + 1 < 2 ^ 31"
  shows "\<exists>q' s'. do { s \<leftarrow> wr_nextpkt m NULL s;
       if ifq_drv_tail q = NULL then Some (q\<lparr>ifq_drv_head := m\<rparr>, s)
       else do { s \<leftarrow> wr_nextpkt (ifq_drv_tail q) m s; Some (q, s) } } = Some (q', s') \<and>
    drv_holds s' (q'\<lparr>ifq_drv_tail := m, ifq_drv_len := ifq_drv_len q' + 1\<rparr>) (ds @ [m]) \<and>
    pk_frame (set (ds @ [m])) s s' \<and> (q' = q \<or> q' = q\<lparr>ifq_drv_head := m\<rparr>)"
proof -
  from assms(4) obtain b where b: "pk_heap s m = Some b" by auto
  note q = assms(1) [unfolded drv_holds_def]
  note snoc = pkt_queue_snoc [OF q assms(2,3) b assms(5)]
  show ?thesis
  proof (cases "ds = []")
    case True
    then have "ifq_drv_tail q = NULL" using pkt_queue_tail [OF q] by simp
    then show ?thesis using snoc(1) True b by (simp add: wr_nextpkt_def drv_holds_def pk_frame_def)
  next
    case False
    then have t: "ifq_drv_tail q \<noteq> NULL" "ifq_drv_tail q = last ds" using pkt_queue_tail [OF q] q by (auto simp: pkt_queue_def)
    moreover from False q t(2) obtain c where c: "pk_heap s (ifq_drv_tail q) = Some c"
      using pkt_list_mem [of "pk_heap s" "ifq_drv_head q" ds "last ds"] by (auto simp: pkt_queue_def)
    moreover have "ifq_drv_tail q \<noteq> m" using False t(2) assms(2) by auto
    moreover have "ifq_drv_tail q \<in> set ds" using False t(2) by simp
    ultimately show ?thesis using snoc(2) [OF False c] b
      by (auto simp: wr_nextpkt_def drv_holds_def pk_frame_def)
  qed
qed

text \<open>Moving packets to the driver moves a prefix, and stops.\<close>

definition keeps :: "ifaltq \<Rightarrow> ifaltq \<Rightarrow> bool" where
  "keeps q q' \<longleftrightarrow> ifq_mtx q' = ifq_mtx q \<and> ifq_drv_maxlen q' = ifq_drv_maxlen q \<and> altq_flags q' = altq_flags q \<and>
     altq_tbr q' = altq_tbr q \<and> ifq_maxlen q' = ifq_maxlen q \<and> ifq_drops q' = ifq_drops q"

lemma keeps_same_rest: "same_rest q q' \<Longrightarrow> keeps q q'"
  using same_rest_queue [of q q'] same_rest_altq [of q q'] by (simp add: keeps_def)

lemma drv_refill_ok:
  assumes "both_queues s q ds xs" "\<not> ALTQ_IS_ENABLED q" "\<not> TBR_IS_ENABLED q" "sint (ifq_drv_maxlen q) = int cap"
  shows "\<exists>q' s'. drv_refill k q s = Some (q', s') \<and>
    both_queues s' q' (ds @ take (cap - length ds) xs) (drop (cap - length ds) xs) \<and>
    pk_frame (set ds \<union> set xs) s s' \<and> keeps q q'"
  using assms
proof (induction xs arbitrary: ds q s)
  case Nil
  note h = Nil.prems
  have "IF_DEQUEUE_raw q s = Some (NULL, q, s)"
    using h(1) by (intro IF_DEQUEUE_raw_empty) (simp add: both_queues_def)
  then have "drv_refill k q s = Some (q, s)"
    using h by (subst drv_refill.simps) (simp add: IFQ_DEQUEUE_NOLOCK_plain)
  with h show ?case by (simp add: pk_frame_def keeps_def)
next
  case (Cons x xs)
  note h = Cons.prems
  from h(1) have d: "drv_holds s q ds" "ifq_holds s q (x # xs)" "x \<notin> set ds" "set ds \<inter> set xs = {}"
    by (auto simp: both_queues_def)
  then have len: "sint (ifq_drv_len q) = int (length ds)"
    using sint_len [of "length ds"] by (simp add: drv_holds_def pkt_queue_def)
  show ?case
  proof (cases "length ds < cap")
    case False
    with len h(4) have "drv_refill k q s = Some (q, s)" by (subst drv_refill.simps) simp
    with False h(1) show ?thesis by (simp add: pk_frame_def keeps_def)
  next
    case True
    from IF_DEQUEUE_raw_cons [OF d(2)] obtain q1 s1 where 1: "IF_DEQUEUE_raw q s = Some (x, q1, s1)"
      "ifq_holds s1 q1 xs" "pk_frame {x} s s1" "same_rest q q1" by blast
    have x: "x \<noteq> NULL" "x \<notin> set xs" "pk_heap s1 x \<noteq> None"
      using pkt_queue_nonempty [OF d(2) [unfolded ifq_holds_def]] 1(3) by (auto simp: pk_frame_def)
    have "drv_holds s1 q ds"
      unfolding drv_holds_def using d(1,3) 1(3)
      by (subst pkt_queue_cong [where h' = "pk_heap s"]) (auto simp: pk_frame_def drv_holds_def)
    then have dq: "drv_holds s1 q1 ds" by (simp add: same_rest_altq(4) [OF 1(4)])
    have "length ds + 1 < 2 ^ 31" using True cap_bound [OF h(4)] by simp
    from drv_append_ok [OF dq d(3) x(1,3) this] obtain q2 s2 where
      2: "do { s \<leftarrow> wr_nextpkt x NULL s1;
         if ifq_drv_tail q1 = NULL then Some (q1\<lparr>ifq_drv_head := x\<rparr>, s)
         else do { s \<leftarrow> wr_nextpkt (ifq_drv_tail q1) x s; Some (q1, s) } } = Some (q2, s2)"
      "drv_holds s2 (q2\<lparr>ifq_drv_tail := x, ifq_drv_len := ifq_drv_len q2 + 1\<rparr>) (ds @ [x])"
      "pk_frame (set (ds @ [x])) s1 s2" "q2 = q1 \<or> q2 = q1\<lparr>ifq_drv_head := x\<rparr>" by blast
    define q3 where "q3 = q2\<lparr>ifq_drv_tail := x, ifq_drv_len := ifq_drv_len q2 + 1\<rparr>"
    have k3: "keeps q q3" using keeps_same_rest [OF 1(4)] 2(4) by (auto simp: keeps_def q3_def)
    have "ifq_holds s2 q3 xs"
      using 1(2) 2(3,4) x(2) d(4) unfolding ifq_holds_def q3_def
      by (subst pkt_queue_cong [where h' = "pk_heap s1"]) (auto simp: pk_frame_def)
    then have "both_queues s2 q3 (ds @ [x]) xs" using 2(2) x(2) d(4) by (auto simp: both_queues_def q3_def)
    from Cons.IH [OF this] k3 h(2-4) obtain q' s' where 3: "drv_refill k q3 s2 = Some (q', s')"
      "both_queues s' q' ((ds @ [x]) @ take (cap - length (ds @ [x])) xs) (drop (cap - length (ds @ [x])) xs)"
      "pk_frame (set (ds @ [x]) \<union> set xs) s2 s'" "keeps q3 q'"
      by (auto simp: keeps_def ALTQ_IS_ENABLED_def TBR_IS_ENABLED_def)
    have c: "cap - length ds = Suc (cap - length (ds @ [x]))" using True by simp
    have "drv_refill k q s = Some (q', s')"
      using True h(2-4) len 1(1) x(1) 2(1) 3(1)
      by (subst drv_refill.simps) (auto simp: IFQ_DEQUEUE_NOLOCK_plain q3_def split: Option.bind_splits if_splits)
    moreover have "pk_frame (set ds \<union> set (x # xs)) s s'"
      using 1(3) 2(3) 3(3) by (auto simp: pk_frame_def)
    moreover have "keeps q q'" using k3 3(4) by (simp add: keeps_def)
    ultimately show ?thesis using 3(2) unfolding c by auto
  qed
qed

text \<open>Taking from the driver's queue.\<close>

lemma IFQ_DRV_DEQUEUE_own:
  assumes "both_queues s q (x # ds) xs"
  shows "\<exists>q' s'. IFQ_DRV_DEQUEUE k q s = Some (x, q', s') \<and> both_queues s' q' ds xs \<and> pk_frame {x} s s' \<and> keeps q q'"
proof -
  from assms have d: "drv_holds s q (x # ds)" "ifq_holds s q xs" "x \<notin> set xs" "set ds \<inter> set xs = {}"
    by (auto simp: both_queues_def)
  note x = pkt_queue_nonempty [OF d(1) [unfolded drv_holds_def]]
  then obtain b where b: "pk_heap s x = Some b" "pkt_queue (pk_heap s) (m_nextpkt b)
      (if m_nextpkt b = NULL then NULL else ifq_drv_tail q) (ifq_drv_len q - 1) ds" by auto
  let ?s = "s\<lparr>pk_heap := (pk_heap s)(x \<mapsto> b\<lparr>m_nextpkt := NULL\<rparr>)\<rparr>"
  let ?q = "(if m_nextpkt b = NULL then q\<lparr>ifq_drv_head := m_nextpkt b, ifq_drv_tail := NULL\<rparr>
    else q\<lparr>ifq_drv_head := m_nextpkt b\<rparr>)"
  have "IFQ_DRV_DEQUEUE k q s = Some (x, ?q\<lparr>ifq_drv_len := ifq_drv_len ?q - 1\<rparr>, ?s)"
    using x b(1) by (simp add: IFQ_DRV_DEQUEUE_def rd_nextpkt_def wr_nextpkt_def Let_def)
  moreover have "pkt_queue (pk_heap ?s) (m_nextpkt b) (if m_nextpkt b = NULL then NULL else ifq_drv_tail q) (ifq_drv_len q - 1) ds"
    using b(2) x by (subst pkt_queue_cong [where h' = "pk_heap s"]) auto
  moreover have "pkt_queue (pk_heap ?s) (ifq_head q) (ifq_tail q) (ifq_len q) xs"
    using d(2,3) unfolding ifq_holds_def by (subst pkt_queue_cong [where h' = "pk_heap s"]) auto
  ultimately show ?thesis using b(1) d(4)
    by (cases "m_nextpkt b = NULL")
      (simp_all add: both_queues_def drv_holds_def ifq_holds_def pk_frame_def keeps_def)
qed

lemma both_queues_locked: "both_queues s (IF_LOCK k q) ds xs \<longleftrightarrow> both_queues s q ds xs"
  by (simp add: both_queues_def drv_holds_def ifq_holds_def IF_LOCK_def)

lemma both_queues_unlocked: "both_queues s (IF_UNLOCK k q) ds xs \<longleftrightarrow> both_queues s q ds xs"
  by (simp add: both_queues_def drv_holds_def ifq_holds_def IF_UNLOCK_def)

lemma keeps_locked: "unlocked q \<Longrightarrow> keeps (IF_LOCK k q) q' \<Longrightarrow> keeps q (IF_UNLOCK k q')"
  by (simp add: keeps_def IF_LOCK_free IF_UNLOCK_own unlocked_def)

lemma plain_keeps: "plain q \<Longrightarrow> keeps q q' \<Longrightarrow> plain q'"
  by (simp add: plain_def keeps_def unlocked_def ALTQ_IS_ENABLED_def TBR_IS_ENABLED_def)

lemma IFQ_DRV_DEQUEUE_refill:
  assumes "both_queues s q [] xs" "plain q" "sint (ifq_drv_maxlen q) = int cap"
  shows "\<exists>q' s'. IFQ_DRV_DEQUEUE k q s = Some (if xs = [] then NULL else hd xs, q', s') \<and>
    both_queues s' q' (take cap (tl xs)) (drop cap (tl xs)) \<and> pk_frame (set xs) s s' \<and> keeps q q'"
proof -
  let ?q = "IF_LOCK k q"
  have p: "\<not> ALTQ_IS_ENABLED ?q" "\<not> TBR_IS_ENABLED ?q" and u: "unlocked q"
    using assms(2) by (simp_all add: plain_def plain_locked)
  have q: "both_queues s ?q [] xs" using assms(1) by (simp add: both_queues_locked)
  have "\<exists>q1 s1. IF_DEQUEUE_raw ?q s = Some (if xs = [] then NULL else hd xs, q1, s1) \<and>
      both_queues s1 q1 [] (tl xs) \<and> pk_frame (set xs) s s1 \<and> same_rest ?q q1"
  proof (cases xs)
    case Nil
    then show ?thesis using q IF_DEQUEUE_raw_empty [of s ?q] by (auto simp: both_queues_def pk_frame_def)
  next
    case (Cons x ys)
    then have "ifq_holds s ?q (x # ys)" using q by (simp add: both_queues_def)
    from IF_DEQUEUE_raw_cons [OF this] obtain q1 s1 where "IF_DEQUEUE_raw ?q s = Some (x, q1, s1)" "ifq_holds s1 q1 ys"
      "pk_frame {x} s s1" "same_rest ?q q1" by blast
    moreover have "drv_holds s1 q1 []" unfolding same_rest_altq(4) [OF calculation(4)]
      using q by (simp add: both_queues_def drv_holds_def pkt_queue_empty)
    ultimately show ?thesis using Cons by (auto simp: both_queues_def pk_frame_def)
  qed
  then obtain q1 s1 where 1: "IF_DEQUEUE_raw ?q s = Some (if xs = [] then NULL else hd xs, q1, s1)"
    "both_queues s1 q1 [] (tl xs)" "pk_frame (set xs) s s1" "same_rest ?q q1" by blast
  have k1: "keeps ?q q1" using 1(4) by (rule keeps_same_rest)
  then have "\<not> ALTQ_IS_ENABLED q1" "\<not> TBR_IS_ENABLED q1" "sint (ifq_drv_maxlen q1) = int cap"
    using p assms(3) by (simp_all add: keeps_def ALTQ_IS_ENABLED_def TBR_IS_ENABLED_def IF_LOCK_def)
  from drv_refill_ok [OF 1(2) this, of k] obtain q2 s2 where 2: "drv_refill k q1 s1 = Some (q2, s2)"
    "both_queues s2 q2 (take cap (tl xs)) (drop cap (tl xs))" "pk_frame (set (tl xs)) s1 s2" "keeps q1 q2" by auto
  have "ifq_drv_head q = NULL" using assms(1) by (simp add: both_queues_def drv_holds_def pkt_queue_empty)
  then have "IFQ_DRV_DEQUEUE k q s = Some (if xs = [] then NULL else hd xs, IF_UNLOCK k q2, s2)"
    using 1(1) 2(1) p by (simp add: IFQ_DRV_DEQUEUE_def IFQ_DEQUEUE_NOLOCK_plain)
  moreover have "pk_frame (set xs) s s2" using 1(3) 2(3) by (cases xs) (auto simp: pk_frame_def)
  moreover have "keeps q (IF_UNLOCK k q2)" using u k1 2(4) by (intro keeps_locked) (simp_all add: keeps_def)
  ultimately show ?thesis using 2(2) by (auto simp: both_queues_unlocked)
qed

lemma IFQ_PURGE_ok:
  assumes "freem_chain k" "plain q" "ifq_holds s q xs" "packets_apart (pk_heap s) (set xs)"
  shows "\<exists>q' s'. IFQ_PURGE k q s = Some (q', s') \<and> ifq_holds s' q' [] \<and> frees xs s s' \<and> same_rest q q'"
proof -
  have u: "unlocked q" using assms(2) by (simp add: plain_def)
  from IF_DRAIN_raw_ok [OF assms(1), of s "IF_LOCK k q" xs] assms(3) obtain q1 s1 where
    1: "IF_DRAIN_raw k (IF_LOCK k q) s = Some (q1, s1)" "ifq_holds s1 q1 []" "frees xs s s1" "same_rest (IF_LOCK k q) q1"
    using assms(4) by (auto simp: locked_holds)
  have "IFQ_PURGE k q s = Some (IF_UNLOCK k q1, s1)"
    using 1(1) assms(2) by (simp add: IFQ_PURGE_def IFQ_PURGE_NOLOCK_def plain_def plain_locked)
  with 1 locked_section [OF u 1(4)] show ?thesis by blast
qed

lemma drbr_flush_ring_ok:
  assumes "freem_chain k"
  shows "ring_queue b br xs \<Longrightarrow> \<forall>x \<in> set xs. x \<noteq> NULL \<Longrightarrow> distinct xs \<Longrightarrow> packets_apart (pk_heap s) (set xs) \<Longrightarrow>
    \<exists>br' s'. drbr_flush_ring k br s = Some (br', s') \<and> ring_queue b br' [] \<and> frees xs s s'"
proof (induction xs arbitrary: br s)
  case Nil
  then show ?case using ring_queue_dequeue(2) [OF Nil(1)] by (subst drbr_flush_ring.simps) simp
next
  case (Cons x xs)
  from ring_queue_dequeue(3) [OF Cons.prems(1) refl] obtain br1 where
    1: "buf_ring_dequeue_sc br = Some (x, br1)" "ring_queue b br1 xs" by blast
  have "packets_apart (pk_heap (m_freem k x s)) (set xs)"
    using freed_rest(1) [OF assms Cons.prems(4), of x] Cons.prems(3) by simp
  with Cons.IH [OF 1(2), of "m_freem k x s"] Cons.prems(2,3) obtain br' s' where
    2: "drbr_flush_ring k br1 (m_freem k x s) = Some (br', s')" "ring_queue b br' []" "frees xs (m_freem k x s) s'" by auto
  have "frees (x # xs) s s'" using assms Cons.prems(4) _ 2(3) by (rule frees_Cons) (use Cons.prems(3) in simp)
  then show ?case using 1(1) 2(1,2) Cons.prems(2) by (subst drbr_flush_ring.simps) simp
qed

section \<open>Claims\<close>

text \<open>C9 The output queue of an interface without an alternate queueing discipline and without a token-bucket
  regulator (\<open>IFQ_ENQUEUE\<close>, \<open>IFQ_DEQUEUE\<close>) is a bounded first-in first-out queue.  Packets are \<open>m_next\<close> chains of mbufs,
  no two of which share an mbuf, and \<open>m_freem\<close> touches the chain of the packet it is given and no other mbuf.  For any
  sequence of calls in which the caller enqueues only packets it has, every call returns (no packet outside the heap is touched), the results
  are those of the abstract queue with \<open>ifq_maxlen\<close> places, refused packets are given to \<open>m_freem\<close> once, and the
  links, tail and length represent the abstract queue afterwards, with the mutex free and the chains of all other packets intact.\<close>

theorem IFQ_refines_fifo:
  assumes "ifq_rep cap (k, ifq, s) (F, xs, G)"
    and "run_ops (fifo_spec cap) ops (F, xs, G) = Some (outs, q')"
  shows "\<exists>s'. run_ops (fifo_impl ifq_enq ifq_deq) ops (k, ifq, s) = Some (outs, s') \<and> ifq_rep cap s' q'"
  using assms by (rule ifq_fifo.run)

text \<open>C10 The queue over a ring (\<open>drbr_enqueue\<close>, \<open>drbr_dequeue\<close> on a ring of \<open>2 ^ b\<close> slots, a kernel without alternate
  queueing) meets the same contract with \<open>2 ^ b - 1\<close> places, over packets that are disjoint chains of mbufs: the same
  abstract queue describes both, so a driver can use either.\<close>

theorem drbr_refines_fifo:
  assumes "drbr_rep b (k, ifp, br, s) (F, xs, G)"
    and "run_ops (fifo_spec (2 ^ b - 1)) ops (F, xs, G) = Some (outs, q')"
  shows "\<exists>s'. run_ops (fifo_impl drbr_enq drbr_deq) ops (k, ifp, br, s) = Some (outs, s') \<and> drbr_rep b s' q'"
  using assms by (rule drbr_fifo.run)

text \<open>\<open>IFQ_DRV_DEQUEUE\<close> returns and keeps the order over both queues: with \<open>ds\<close> in the driver's queue and \<open>xs\<close>
  in the shared one it gives the first packet of \<open>ds @ xs\<close> (or \<open>NULL\<close>), the rest stays in order, an empty driver's
  queue is refilled with up to \<open>ifq_drv_maxlen\<close> packets, and the shared queue is locked only for that.\<close>

lemma IFQ_DRV_DEQUEUE_order:
  assumes "both_queues s q ds xs" "plain q" "sint (ifq_drv_maxlen q) = int cap"
  shows "\<exists>m q' s' ds' xs'. IFQ_DRV_DEQUEUE k q s = Some (m, q', s') \<and> both_queues s' q' ds' xs' \<and> plain q' \<and>
    (if ds @ xs = [] then m = NULL \<and> ds' @ xs' = [] else m # ds' @ xs' = ds @ xs) \<and>
    (if ds \<noteq> [] then xs' = xs else length ds' = min cap (length xs - 1)) \<and>
    pk_freed s' = pk_freed s"
proof (cases ds)
  case Nil
  with assms(1) have "both_queues s q [] xs" by simp
  from IFQ_DRV_DEQUEUE_refill [OF this assms(2,3)] obtain q' s' where
    r: "IFQ_DRV_DEQUEUE k q s = Some (if xs = [] then NULL else hd xs, q', s')"
    "both_queues s' q' (take cap (tl xs)) (drop cap (tl xs))" "pk_frame (set xs) s s'" "keeps q q'" by blast
  show ?thesis
    by (rule exI [of _ "if xs = [] then NULL else hd xs"], rule exI [of _ q'], rule exI [of _ s'],
        rule exI [of _ "take cap (tl xs)"], rule exI [of _ "drop cap (tl xs)"])
      (use r Nil plain_keeps [OF assms(2) r(4)] in \<open>auto simp: pk_frame_def min.commute\<close>)
next
  case (Cons x es)
  with assms(1) have "both_queues s q (x # es) xs" by simp
  from IFQ_DRV_DEQUEUE_own [OF this] obtain q' s' where r: "IFQ_DRV_DEQUEUE k q s = Some (x, q', s')"
    "both_queues s' q' es xs" "pk_frame {x} s s'" "keeps q q'" by blast
  show ?thesis
    by (rule exI [of _ x], rule exI [of _ q'], rule exI [of _ s'], rule exI [of _ es], rule exI [of _ xs])
      (use r Cons plain_keeps [OF assms(2) r(4)] in \<open>auto simp: pk_frame_def\<close>)
qed

text \<open>Purging returns, frees every packet of the driver's queue and then of the shared queue exactly once and in
  order (\<open>IFQ_DRV_PURGE\<close>), respectively of the ring (\<open>drbr_flush\<close>), reads no packet after it was freed, touches no mbuf of another packet
  and leaves empty queues.\<close>

lemma purge_frees_all:
  assumes "freem_chain k" "both_queues s q ds xs" "plain q" "packets_apart (pk_heap s) (set ds \<union> set xs)"
    and "ring_queue b br ys" "\<forall>y \<in> set ys. y \<noteq> NULL" "distinct ys" "packets_apart (pk_heap s) (set ys)"
  shows "(\<exists>q' s'. IFQ_DRV_PURGE k q s = Some (q', s') \<and> both_queues s' q' [] [] \<and> plain q' \<and> frees (ds @ xs) s s') \<and>
    (\<exists>br' s'. drbr_flush False k ifp br s = Some (ifp, br', s') \<and> ring_queue b br' [] \<and> frees ys s s')"
proof
  from assms(2) have d: "pkt_list (pk_heap s) (ifq_drv_head q) ds" "distinct ds" "ifq_holds s q xs" "set ds \<inter> set xs = {}"
    by (auto simp: both_queues_def drv_holds_def pkt_queue_def)
  have "packets_apart (pk_heap s) (set ds)" using assms(4) by (rule apart_subset) auto
  from drv_free_all_ok [OF assms(1) d(1,2) this] obtain s1 where 1: "drv_free_all k (ifq_drv_head q) s = Some s1"
    "frees ds s s1" by blast
  note r = frees_rest [OF assms(4) d(4) 1(2)]
  let ?q = "q\<lparr>ifq_drv_head := NULL, ifq_drv_tail := NULL, ifq_drv_len := 0\<rparr>"
  have "plain ?q" using assms(3) by (simp add: plain_def unlocked_def ALTQ_IS_ENABLED_def TBR_IS_ENABLED_def)
  moreover have "ifq_holds s1 ?q xs" using d(3) r(2) unfolding ifq_holds_def
    by (subst pkt_queue_cong [where h' = "pk_heap s"]) auto
  ultimately obtain q' s' where 2: "IFQ_PURGE k ?q s1 = Some (q', s')" "ifq_holds s' q' []"
    "frees xs s1 s'" "same_rest ?q q'"
    using IFQ_PURGE_ok [OF assms(1) _ _ r(1)] by blast
  have "drv_holds s' q' []" unfolding same_rest_altq(4) [OF 2(4)] by (simp add: drv_holds_def pkt_queue_empty)
  with 1(1) 2 plain_same [OF \<open>plain ?q\<close> 2(4)] frees_append [OF assms(4) d(4) 1(2) 2(3)]
  show "\<exists>q' s'. IFQ_DRV_PURGE k q s = Some (q', s') \<and> both_queues s' q' [] [] \<and> plain q' \<and> frees (ds @ xs) s s'"
    by (auto simp: IFQ_DRV_PURGE_def both_queues_def)
  show "\<exists>br' s'. drbr_flush False k ifp br s = Some (ifp, br', s') \<and> ring_queue b br' [] \<and> frees ys s s'"
    using drbr_flush_ring_ok [OF assms(1,5-8)] by (cases ifp) (auto simp: drbr_flush_def)
qed

section \<open>Witnesses\<close>

text \<open>A heap of mbufs and an \<open>m_freem\<close> that removes the chain of the packet (of at most eight mbufs).\<close>

fun chain_walk :: "nat \<Rightarrow> mheap \<Rightarrow> ptr \<Rightarrow> ptr list" where
  "chain_walk 0 h p = []"
| "chain_walk (Suc n) h p = (if p = NULL then [] else case h p of None \<Rightarrow> [] | Some b \<Rightarrow> p # chain_walk n h (m_next b))"

definition net_sample :: net_fns where
  "net_sample = \<lparr>curthread = 0x1000, fn_mtx_lock_sleep = (\<lambda>m t f. m), fn_mtx_unlock_sleep = (\<lambda>m f. m),
     fn_m_freem = (\<lambda>m h x. if x \<in> set (chain_walk 8 h m) then None else h x), fn_altq_enqueue = (\<lambda>q m s. None), fn_altq_dequeue = (\<lambda>q f s. None),
     fn_altq_request = (\<lambda>q f s. None), fn_tbr_dequeue = (\<lambda>q f s. None), fn_if_start = (\<lambda>i s. Some (i, s))\<rparr>"

definition packets_sample :: packets where
  "packets_sample = \<lparr>pk_heap = (\<lambda>p. if p = 16 then Some (mbuf_sample\<lparr>m_next := 80, m_nextpkt := 32\<rparr>)
     else if p = 32 \<or> p = 48 \<or> p = 80 then Some mbuf_sample else None), pk_freed = []\<rparr>"

definition queue_sample :: "ptr \<Rightarrow> ptr \<Rightarrow> u32 \<Rightarrow> ifaltq" where
  "queue_sample p t n = \<lparr>ifq_head = p, ifq_tail = t, ifq_len = n, ifq_maxlen = 1, ifq_drops = 0,
     ifq_mtx = \<lparr>mtx_word = 4, mtx_recurse = 0\<rparr>, ifq_drv_head = 0, ifq_drv_tail = 0, ifq_drv_len = 0, ifq_drv_maxlen = 5,
     altq_flags = 1, altq_tbr = 0\<rparr>"

lemma chain_walk_subset: "mbuf_chain h p ys \<Longrightarrow> set (chain_walk n h p) \<subseteq> set ys"
proof (induction n arbitrary: p ys)
  case (Suc n)
  show ?case
  proof (cases "(h, p, ys)" rule: mbuf_chain.cases)
    case (2 h' p' x)
    then show ?thesis using Suc.prems by (cases n) auto
  next
    case (3 h' p' x y zs)
    with Suc.prems obtain b where b: "p = x" "h x = Some b" "mbuf_chain h (m_next b) (y # zs)" by auto
    with Suc.IH [OF b(3)] 3 show ?thesis by auto
  qed (use Suc.prems in auto)
qed simp

lemma net_sample_frees: "freem_chain net_sample"
  using chain_walk_subset by (fastforce simp: freem_chain_def net_sample_def)

text \<open>Three packets, the first of them of two mbufs.\<close>

lemma packets_sample_apart: "packets_apart (pk_heap packets_sample) {16, 32, 48}"
proof -
  let ?h = "pk_heap packets_sample"
  have c: "mbuf_chain ?h 16 [16, 80]" "mbuf_chain ?h 32 [32]" "mbuf_chain ?h 48 [48]"
    by (simp_all add: packets_sample_def mbuf_sample_def)
  have "pkt_mbufs ?h 16 = {16, 80}" "pkt_mbufs ?h 32 = {32}" "pkt_mbufs ?h 48 = {48}"
    using c [THEN pkt_mbufs_chain] by simp_all
  then show ?thesis using c unfolding packets_apart_def by (auto intro: c)
qed

lemma queue_sample_plain: "plain (queue_sample p t n)"
  by (simp add: plain_def queue_sample_def unlocked_def ALTQ_IS_ENABLED_def TBR_IS_ENABLED_def)

lemma queue_sample_two: "both_queues packets_sample (queue_sample 16 32 2) [] [16, 32]"
  by (simp add: both_queues_def drv_holds_def ifq_holds_def pkt_queue_def queue_sample_def packets_sample_def mbuf_sample_def)

theorem IFQ_refines_fifo_witness:
  "\<exists>s'. run_ops (fifo_impl ifq_enq ifq_deq) [Enqueue 16, Enqueue 32, Dequeue, Dequeue]
     (net_sample, queue_sample 0 0 0, packets_sample) = Some ([Status 0, Status ENOBUFS, Packet 16, Packet NULL], s') \<and>
     ifq_rep 1 s' ({16, 48}, [], [32])"
proof -
  have "ifq_holds packets_sample (queue_sample 0 0 0) []" "sint (ifq_maxlen (queue_sample 0 0 0)) = int 1"
    by (simp_all add: ifq_holds_def pkt_queue_empty queue_sample_def)
  moreover have "caller_has packets_sample [] {16, 32, 48}" "pk_freed packets_sample = []"
    using packets_sample_apart by (simp_all add: caller_has_def) (simp add: packets_sample_def)
  ultimately have r: "ifq_rep 1 (net_sample, queue_sample 0 0 0, packets_sample) ({16, 32, 48}, [], [])"
    using net_sample_frees queue_sample_plain by simp
  have "{16, 32, 48} - {16, 32} = {48 :: ptr}" by auto
  then have "run_ops (fifo_spec 1) [Enqueue 16, Enqueue 32, Dequeue, Dequeue] ({16, 32, 48}, [], []) =
    Some ([Status 0, Status ENOBUFS, Packet 16, Packet NULL], {16, 48}, [], [32])"
    by (simp add: insert_Diff_if insert_commute)
  with IFQ_refines_fifo [OF r] show ?thesis by blast
qed

theorem drbr_refines_fifo_witness:
  "\<exists>s'. run_ops (fifo_impl drbr_enq drbr_deq) [Enqueue 16, Dequeue] (net_sample,
     \<lparr>if_snd = queue_sample 0 0 0, if_obytes = 0, if_omcasts = 0, if_drv_flags = 0\<rparr>, ring4, packets_sample) =
     Some ([Status 0, Packet 16], s') \<and> drbr_rep 2 s' ({16, 48}, [], [])"
proof -
  let ?i = "\<lparr>if_snd = queue_sample 0 0 0, if_obytes = 0, if_omcasts = 0, if_drv_flags = 0\<rparr>"
  have "ring_queue 2 ring4 []" using ring4_at by (auto simp: ring_queue_def)
  then have r: "drbr_rep 2 (net_sample, ?i, ring4, packets_sample) ({16, 48}, [], [])"
    using net_sample_frees apart_subset [OF packets_sample_apart, of "{16, 48}"]
    by (simp add: caller_has_def) (simp add: packets_sample_def)
  have "run_ops (fifo_spec (2 ^ 2 - 1)) [Enqueue 16, Dequeue] ({16, 48}, [], []) =
    Some ([Status 0, Packet 16], {16, 48}, [], [])" by (simp add: insert_Diff_if)
  with drbr_refines_fifo [OF r] show ?thesis by blast
qed

lemma IFQ_DRV_DEQUEUE_order_witness:
  "\<exists>m q' s' ds' xs'. IFQ_DRV_DEQUEUE net_sample (queue_sample 16 32 2) packets_sample = Some (m, q', s') \<and>
     both_queues s' q' ds' xs' \<and> m # ds' @ xs' = [16, 32] \<and> length ds' = 1"
proof -
  have "sint (ifq_drv_maxlen (queue_sample 16 32 2)) = int 5" by (simp add: queue_sample_def)
  from IFQ_DRV_DEQUEUE_order [OF queue_sample_two queue_sample_plain this, of net_sample]
  show ?thesis by simp blast
qed

lemma purge_frees_all_witness:
  "\<exists>q' s'. IFQ_DRV_PURGE net_sample (queue_sample 16 32 2) packets_sample = Some (q', s') \<and>
     both_queues s' q' [] [] \<and> pk_freed s' = [16, 32]"
proof -
  have "ring_queue 2 ring4 []" using ring4_at by (auto simp: ring_queue_def)
  moreover have "packets_apart (pk_heap packets_sample) (set [] \<union> set [16, 32])"
    by (rule apart_subset [OF packets_sample_apart]) auto
  ultimately show ?thesis
    using purge_frees_all [OF net_sample_frees queue_sample_two queue_sample_plain, of 2 ring4 "[]" None]
    by (auto simp: frees_def packets_apart_def) (auto simp: packets_sample_def)
qed

end
