(* ===== verification/Bit_Sets.thy ===== *)
theory Bit_Sets
  imports Atomic_Ops
begin

unbundle bit_operations_syntax

text \<open>
  The bit sets of the headers: processor sets (\<open>include/sys/cpuset.h\<close>, \<open>_cpuset.h\<close>), signal sets
  (\<open>include/sys/signalvar.h\<close>, \<open>_sigset.h\<close>) and descriptor sets (\<open>include/sys/select.h\<close>).  Each is an array
  of words; the loops over the words and the early exits are written out, and an access behind the
  array faults (\<open>None\<close>).  Every operation is proved to be the operation on the set of numbers the
  words stand for.
\<close>

section \<open>Arrays of words\<close>

text \<open>\<open>for (i = 0; i < n; i++) d[i] = f(i, d[i])\<close>, and the index at which
  \<open>for (i = 0; i < n; i++) if (P(i)) break;\<close> stops.\<close>

definition for_words :: "nat \<Rightarrow> (nat \<Rightarrow> 'a \<Rightarrow> 'a) \<Rightarrow> 'a list \<Rightarrow> 'a list" where
  "for_words n f d = fold (\<lambda>i d. d[i := f i (d ! i)]) [0..<n] d"

fun scan_words :: "nat \<Rightarrow> (nat \<Rightarrow> bool) \<Rightarrow> nat \<Rightarrow> nat" where
  "scan_words 0 P i = i"
| "scan_words (Suc k) P i = (if P i then i else scan_words k P (Suc i))"

definition word_at :: "'a list \<Rightarrow> nat \<Rightarrow> 'a option" where
  "word_at ws i = (if i < length ws then Some (ws ! i) else None)"

definition upd_word :: "nat \<Rightarrow> ('a \<Rightarrow> 'a) \<Rightarrow> 'a list \<Rightarrow> 'a list option" where
  "upd_word i f ws = (if i < length ws then Some (ws[i := f (ws ! i)]) else None)"

text \<open>The numbers in an array of words.\<close>

definition elems :: "'a::len word list \<Rightarrow> nat set" where
  "elems ws = {n. n div LENGTH('a) < length ws \<and> bit (ws ! (n div LENGTH('a))) (n mod LENGTH('a))}"

lemma for_words_nth:
  assumes "n \<le> length d"
  shows "length (for_words n f d) = length d \<and>
    (\<forall>i < length d. for_words n f d ! i = (if i < n then f i (d ! i) else d ! i))"
  using assms by (induction n) (auto simp: for_words_def nth_list_update less_Suc_eq)

lemma for_words_eq: "n = length d \<Longrightarrow> for_words n f d = map (\<lambda>i. f i (d ! i)) [0..<n]"
  using for_words_nth [of n d f] by (intro nth_equalityI) auto

lemma scan_words_le: "scan_words k P i \<le> i + k"
  by (induction k P i rule: scan_words.induct) auto

lemma scan_words_all: "scan_words k P i = i + k \<longleftrightarrow> (\<forall>j. i \<le> j \<and> j < i + k \<longrightarrow> \<not> P j)"
proof (induction k P i rule: scan_words.induct)
  case (2 k P i)
  show ?case
  proof (cases "P i")
    case False
    have "(\<forall>j. Suc i \<le> j \<and> j < Suc i + k \<longrightarrow> \<not> P j) \<longleftrightarrow> (\<forall>j. i \<le> j \<and> j < i + Suc k \<longrightarrow> \<not> P j)"
      using False by (metis Suc_leI add_Suc_right add_Suc le_neq_implies_less Suc_le_lessD less_imp_le)
    with 2 False show ?thesis by simp
  qed auto
qed auto

lemma scan_words_0: "scan_words n P 0 = n \<longleftrightarrow> (\<forall>j < n. \<not> P j)"
  using scan_words_all [of n P 0] by simp

lemma mem_elems: "n \<in> elems (ws :: 'a::len word list) \<longleftrightarrow>
    n div LENGTH('a) < length ws \<and> bit (ws ! (n div LENGTH('a))) (n mod LENGTH('a))"
  by (simp add: elems_def)

lemma elems_less: "n \<in> elems (ws :: 'a::len word list) \<Longrightarrow> n < LENGTH('a) * length ws"
  by (simp add: mem_elems div_less_iff_less_mult mult.commute)

lemma elems_nth: "i < length ws \<Longrightarrow> k < LENGTH('a) \<Longrightarrow> LENGTH('a) * i + k \<in> elems (ws :: 'a::len word list) \<longleftrightarrow> bit (ws ! i) k"
  by (simp add: mem_elems)

lemma word_eq_bits: "(\<And>k. k < LENGTH('a) \<Longrightarrow> bit (v :: 'a::len word) k = bit w k) \<Longrightarrow> v = w"
  by (rule bit_word_eqI) simp

lemma elems_inject:
  assumes "length xs = length (ys :: 'a::len word list)" and "elems xs = elems ys"
  shows "xs = ys"
proof (rule nth_equalityI)
  fix i assume "i < length xs"
  then show "xs ! i = ys ! i" using assms elems_nth [of i xs] elems_nth [of i ys]
    by (intro word_eq_bits) auto
qed (rule assms)

lemma elems_subset_iff:
  assumes "length xs = length (ys :: 'a::len word list)"
  shows "elems xs \<subseteq> elems ys \<longleftrightarrow> (\<forall>i < length xs. xs ! i AND ys ! i = xs ! i)"
proof
  assume sub: "elems xs \<subseteq> elems ys"
  show "\<forall>i < length xs. xs ! i AND ys ! i = xs ! i"
  proof (intro allI impI word_eq_bits)
    fix i k assume "i < length xs" "k < LENGTH('a)"
    then show "bit (xs ! i AND ys ! i) k = bit (xs ! i) k"
      using sub assms elems_nth [of i xs k] elems_nth [of i ys k] by (auto simp: bit_and_iff)
  qed
next
  assume "\<forall>i < length xs. xs ! i AND ys ! i = xs ! i"
  then show "elems xs \<subseteq> elems ys" using assms by (auto simp: mem_elems) (metis bit_and_iff)
qed

lemma elems_disjoint_iff:
  assumes "length xs = length (ys :: 'a::len word list)"
  shows "elems xs \<inter> elems ys = {} \<longleftrightarrow> (\<forall>i < length xs. xs ! i AND ys ! i = 0)"
proof
  assume dis: "elems xs \<inter> elems ys = {}"
  show "\<forall>i < length xs. xs ! i AND ys ! i = 0"
  proof (intro allI impI word_eq_bits)
    fix i k assume "i < length xs" "k < LENGTH('a)"
    then show "bit (xs ! i AND ys ! i) k = bit (0 :: 'a word) k"
      using dis assms elems_nth [of i xs k] elems_nth [of i ys k] by (auto simp: bit_and_iff)
  qed
next
  assume "\<forall>i < length xs. xs ! i AND ys ! i = 0"
  then show "elems xs \<inter> elems ys = {}" using assms by (auto simp: mem_elems) (metis bit_0_eq bot_apply bot_bool_def bit_and_iff)
qed

lemma elems_zero_iff: "elems (ws :: 'a::len word list) = {} \<longleftrightarrow> (\<forall>i < length ws. ws ! i = 0)"
  using elems_disjoint_iff [of ws ws] by simp

lemma elems_map:
  assumes "\<And>i k. i < n \<Longrightarrow> k < LENGTH('a) \<Longrightarrow> bit (f i) k \<longleftrightarrow> P (LENGTH('a) * i + k)"
  shows "elems (map f [0..<n] :: 'a::len word list) = {m. m < LENGTH('a) * n \<and> P m}"
proof -
  have "m div LENGTH('a) < n \<longleftrightarrow> m < LENGTH('a) * n" for m
    by (simp add: div_less_iff_less_mult mult.commute)
  moreover have "bit (f (m div LENGTH('a))) (m mod LENGTH('a)) \<longleftrightarrow> P m" if "m div LENGTH('a) < n" for m
    using assms [OF that, of "m mod LENGTH('a)"] by simp
  ultimately show ?thesis by (auto simp: elems_def)
qed

lemma elems_upd:
  assumes "n div LENGTH('a) < length ws"
  shows "elems (ws[n div LENGTH('a) := ws ! (n div LENGTH('a)) OR push_bit (n mod LENGTH('a)) 1]) =
      insert n (elems (ws :: 'a::len word list))"
    and "elems (ws[n div LENGTH('a) := ws ! (n div LENGTH('a)) AND NOT (push_bit (n mod LENGTH('a)) 1)]) =
      elems ws - {n}"
proof -
  have same: "m div LENGTH('a) = n div LENGTH('a) \<Longrightarrow> m mod LENGTH('a) = n mod LENGTH('a) \<Longrightarrow> m = n" for m
    by (metis div_mult_mod_eq)
  have one: "bit (2 ^ (n mod LENGTH('a)) :: 'a word) k \<longleftrightarrow> k = n mod LENGTH('a)" for k
    by (auto simp: bit_exp_iff)
  show "elems (ws[n div LENGTH('a) := ws ! (n div LENGTH('a)) OR push_bit (n mod LENGTH('a)) 1]) =
      insert n (elems ws)"
    using assms same by (auto simp: mem_elems nth_list_update bit_or_iff one split: if_splits)
  show "elems (ws[n div LENGTH('a) := ws ! (n div LENGTH('a)) AND NOT (push_bit (n mod LENGTH('a)) 1)]) =
      elems ws - {n}"
    using assms same by (auto simp: mem_elems nth_list_update bit_and_iff bit_not_iff one split: if_splits)
qed

section \<open>Processor sets\<close>

record cpuset_t =
  cpu_bits :: "u64 list"

text \<open>The array of a set has \<open>_NCPUWORDS\<close> words, and the loops go over that many.  The number is a matter of the build: the kernel
  has \<open>CPU_SETSIZE\<close> = \<open>MAXCPU\<close>, 64 or on a uniprocessor 1, which is one word; a program of user mode has 128, which is
  two words.\<close>

abbreviation NCPUWORDS :: "cpuset_t \<Rightarrow> nat" where "NCPUWORDS p \<equiv> length (cpu_bits p)"

definition cpuset_mask :: "nat \<Rightarrow> u64" where
  "cpuset_mask n = push_bit (n mod 64) 1"

definition CPU_CLR :: "nat \<Rightarrow> cpuset_t \<Rightarrow> cpuset_t option" where
  "CPU_CLR n p = map_option (\<lambda>b. p\<lparr>cpu_bits := b\<rparr>) (upd_word (n div 64) (\<lambda>w. w AND NOT (cpuset_mask n)) (cpu_bits p))"

definition CPU_COPY :: "cpuset_t \<Rightarrow> cpuset_t \<Rightarrow> cpuset_t" where
  "CPU_COPY f t = f"

definition CPU_ISSET :: "nat \<Rightarrow> cpuset_t \<Rightarrow> bool option" where
  "CPU_ISSET n p = map_option (\<lambda>w. w AND cpuset_mask n \<noteq> 0) (word_at (cpu_bits p) (n div 64))"

definition CPU_SET :: "nat \<Rightarrow> cpuset_t \<Rightarrow> cpuset_t option" where
  "CPU_SET n p = map_option (\<lambda>b. p\<lparr>cpu_bits := b\<rparr>) (upd_word (n div 64) (\<lambda>w. w OR cpuset_mask n) (cpu_bits p))"

definition CPU_ZERO :: "cpuset_t \<Rightarrow> cpuset_t" where
  "CPU_ZERO p = p\<lparr>cpu_bits := for_words (NCPUWORDS p) (\<lambda>i w. 0) (cpu_bits p)\<rparr>"

definition CPU_FILL :: "cpuset_t \<Rightarrow> cpuset_t" where
  "CPU_FILL p = p\<lparr>cpu_bits := for_words (NCPUWORDS p) (\<lambda>i w. - 1) (cpu_bits p)\<rparr>"

definition CPU_SETOF :: "nat \<Rightarrow> cpuset_t \<Rightarrow> cpuset_t option" where
  "CPU_SETOF n p = (let p = CPU_ZERO p in
     map_option (\<lambda>b. p\<lparr>cpu_bits := b\<rparr>) (upd_word (n div 64) (\<lambda>w. cpuset_mask n) (cpu_bits p)))"

definition CPU_EMPTY :: "cpuset_t \<Rightarrow> bool" where
  "CPU_EMPTY p \<longleftrightarrow> scan_words (NCPUWORDS p) (\<lambda>i. cpu_bits p ! i \<noteq> 0) 0 = NCPUWORDS p"

definition CPU_ISFULLSET :: "cpuset_t \<Rightarrow> bool" where
  "CPU_ISFULLSET p \<longleftrightarrow> scan_words (NCPUWORDS p) (\<lambda>i. cpu_bits p ! i \<noteq> - 1) 0 = NCPUWORDS p"

definition CPU_SUBSET :: "cpuset_t \<Rightarrow> cpuset_t \<Rightarrow> bool" where
  "CPU_SUBSET p c \<longleftrightarrow>
     scan_words (NCPUWORDS p) (\<lambda>i. cpu_bits c ! i AND cpu_bits p ! i \<noteq> cpu_bits c ! i) 0 = NCPUWORDS p"

definition CPU_OVERLAP :: "cpuset_t \<Rightarrow> cpuset_t \<Rightarrow> bool" where
  "CPU_OVERLAP p c \<longleftrightarrow> scan_words (NCPUWORDS p) (\<lambda>i. cpu_bits c ! i AND cpu_bits p ! i \<noteq> 0) 0 \<noteq> NCPUWORDS p"

definition CPU_CMP :: "cpuset_t \<Rightarrow> cpuset_t \<Rightarrow> bool" where
  "CPU_CMP p c \<longleftrightarrow> scan_words (NCPUWORDS p) (\<lambda>i. cpu_bits c ! i \<noteq> cpu_bits p ! i) 0 \<noteq> NCPUWORDS p"

definition CPU_OR :: "cpuset_t \<Rightarrow> cpuset_t \<Rightarrow> cpuset_t" where
  "CPU_OR d s = d\<lparr>cpu_bits := for_words (NCPUWORDS d) (\<lambda>i w. w OR cpu_bits s ! i) (cpu_bits d)\<rparr>"

definition CPU_AND :: "cpuset_t \<Rightarrow> cpuset_t \<Rightarrow> cpuset_t" where
  "CPU_AND d s = d\<lparr>cpu_bits := for_words (NCPUWORDS d) (\<lambda>i w. w AND cpu_bits s ! i) (cpu_bits d)\<rparr>"

definition CPU_NAND :: "cpuset_t \<Rightarrow> cpuset_t \<Rightarrow> cpuset_t" where
  "CPU_NAND d s = d\<lparr>cpu_bits := for_words (NCPUWORDS d) (\<lambda>i w. w AND NOT (cpu_bits s ! i)) (cpu_bits d)\<rparr>"

definition CPU_CLR_ATOMIC :: "nat \<Rightarrow> cpuset_t \<Rightarrow> cpuset_t option" where
  "CPU_CLR_ATOMIC n p = map_option (\<lambda>b. p\<lparr>cpu_bits := b\<rparr>)
     (upd_word (n div 64) (\<lambda>w. atomic_clear_long w (cpuset_mask n)) (cpu_bits p))"

definition CPU_SET_ATOMIC :: "nat \<Rightarrow> cpuset_t \<Rightarrow> cpuset_t option" where
  "CPU_SET_ATOMIC n p = map_option (\<lambda>b. p\<lparr>cpu_bits := b\<rparr>)
     (upd_word (n div 64) (\<lambda>w. atomic_set_long w (cpuset_mask n)) (cpu_bits p))"

definition CPU_OR_ATOMIC :: "cpuset_t \<Rightarrow> cpuset_t \<Rightarrow> cpuset_t" where
  "CPU_OR_ATOMIC d s = d\<lparr>cpu_bits := for_words (NCPUWORDS d) (\<lambda>i w. atomic_set_long w (cpu_bits s ! i)) (cpu_bits d)\<rparr>"

definition CPU_COPY_STORE_REL :: "cpuset_t \<Rightarrow> cpuset_t \<Rightarrow> cpuset_t" where
  "CPU_COPY_STORE_REL f t = t\<lparr>cpu_bits := for_words (NCPUWORDS t) (\<lambda>i w. atomic_store_rel w (cpu_bits f ! i)) (cpu_bits t)\<rparr>"

section \<open>Signal sets\<close>

record sigset_t =
  sig_bits :: "u32 list"

abbreviation SIG_WORDS :: nat where "SIG_WORDS \<equiv> 4"
abbreviation SIGKILL :: nat where "SIGKILL \<equiv> 9"
abbreviation SIGSTOP :: nat where "SIGSTOP \<equiv> 17"
abbreviation SIGTSTP :: nat where "SIGTSTP \<equiv> 18"
abbreviation SIGCONT :: nat where "SIGCONT \<equiv> 19"
abbreviation SIGTTIN :: nat where "SIGTTIN \<equiv> 21"
abbreviation SIGTTOU :: nat where "SIGTTOU \<equiv> 22"

text \<open>Signal numbers start at 1; 0 is not a signal and would index before the array.\<close>

definition SIG_IDX :: "nat \<Rightarrow> nat option" where
  "SIG_IDX s = (if s = 0 then None else Some (s - 1))"

definition SIG_VALID :: "nat \<Rightarrow> bool" where
  "SIG_VALID s \<longleftrightarrow> s \<le> 128 \<and> s > 0"

definition SIG_BIT :: "nat \<Rightarrow> u32" where
  "SIG_BIT i = push_bit (i mod 32) 1"

definition SIGADDSET :: "nat \<Rightarrow> sigset_t \<Rightarrow> sigset_t option" where
  "SIGADDSET signo sset = do { i \<leftarrow> SIG_IDX signo;
     map_option (\<lambda>b. sset\<lparr>sig_bits := b\<rparr>) (upd_word (i div 32) (\<lambda>w. w OR SIG_BIT i) (sig_bits sset)) }"

definition SIGDELSET :: "nat \<Rightarrow> sigset_t \<Rightarrow> sigset_t option" where
  "SIGDELSET signo sset = do { i \<leftarrow> SIG_IDX signo;
     map_option (\<lambda>b. sset\<lparr>sig_bits := b\<rparr>) (upd_word (i div 32) (\<lambda>w. w AND NOT (SIG_BIT i)) (sig_bits sset)) }"

definition SIGEMPTYSET :: "sigset_t \<Rightarrow> sigset_t" where
  "SIGEMPTYSET sset = sset\<lparr>sig_bits := for_words SIG_WORDS (\<lambda>i w. 0) (sig_bits sset)\<rparr>"

definition SIGFILLSET :: "sigset_t \<Rightarrow> sigset_t" where
  "SIGFILLSET sset = sset\<lparr>sig_bits := for_words SIG_WORDS (\<lambda>i w. NOT 0) (sig_bits sset)\<rparr>"

definition SIGISMEMBER :: "sigset_t \<Rightarrow> nat \<Rightarrow> u32 option" where
  "SIGISMEMBER sset signo = do { i \<leftarrow> SIG_IDX signo;
     map_option (\<lambda>w. w AND SIG_BIT i) (word_at (sig_bits sset) (i div 32)) }"

text \<open>A loop that returns 0 at the first word with \<open>P\<close>, else 1.\<close>

definition none_of_words :: "nat \<Rightarrow> (nat \<Rightarrow> bool) \<Rightarrow> bool" where
  "none_of_words n P \<longleftrightarrow> scan_words n P 0 = n"

definition sigisempty :: "sigset_t \<Rightarrow> bool" where
  "sigisempty sset \<longleftrightarrow> none_of_words SIG_WORDS (\<lambda>i. sig_bits sset ! i \<noteq> 0)"

definition sigseteq :: "sigset_t \<Rightarrow> sigset_t \<Rightarrow> bool" where
  "sigseteq set1 set2 \<longleftrightarrow> none_of_words SIG_WORDS (\<lambda>i. sig_bits set1 ! i \<noteq> sig_bits set2 ! i)"

definition sigsetmasked :: "sigset_t \<Rightarrow> sigset_t \<Rightarrow> bool" where
  "sigsetmasked sset msk \<longleftrightarrow> none_of_words SIG_WORDS (\<lambda>i. sig_bits sset ! i AND NOT (sig_bits msk ! i) \<noteq> 0)"

definition SIGSETOR :: "sigset_t \<Rightarrow> sigset_t \<Rightarrow> sigset_t" where
  "SIGSETOR set1 set2 = set1\<lparr>sig_bits := for_words SIG_WORDS (\<lambda>i w. w OR sig_bits set2 ! i) (sig_bits set1)\<rparr>"

definition SIGSETAND :: "sigset_t \<Rightarrow> sigset_t \<Rightarrow> sigset_t" where
  "SIGSETAND set1 set2 = set1\<lparr>sig_bits := for_words SIG_WORDS (\<lambda>i w. w AND sig_bits set2 ! i) (sig_bits set1)\<rparr>"

definition SIGSETNAND :: "sigset_t \<Rightarrow> sigset_t \<Rightarrow> sigset_t" where
  "SIGSETNAND set1 set2 = set1\<lparr>sig_bits := for_words SIG_WORDS (\<lambda>i w. w AND NOT (sig_bits set2 ! i)) (sig_bits set1)\<rparr>"

definition SIG_CANTMASK :: "sigset_t \<Rightarrow> sigset_t option" where
  "SIG_CANTMASK sset = do { sset \<leftarrow> SIGDELSET SIGKILL sset; SIGDELSET SIGSTOP sset }"

definition SIG_STOPSIGMASK :: "sigset_t \<Rightarrow> sigset_t option" where
  "SIG_STOPSIGMASK sset = do { sset \<leftarrow> SIGDELSET SIGSTOP sset; sset \<leftarrow> SIGDELSET SIGTSTP sset;
     sset \<leftarrow> SIGDELSET SIGTTIN sset; SIGDELSET SIGTTOU sset }"

definition SIG_CONTSIGMASK :: "sigset_t \<Rightarrow> sigset_t option" where
  "SIG_CONTSIGMASK sset = SIGDELSET SIGCONT sset"

text \<open>The pending signals of a thread and its process against the mask of the thread.\<close>

definition SIGPENDING :: "sigset_t \<Rightarrow> sigset_t \<Rightarrow> sigset_t \<Rightarrow> bool" where
  "SIGPENDING td_siglist p_siglist td_sigmask \<longleftrightarrow>
     (\<not> sigisempty td_siglist \<and> \<not> sigsetmasked td_siglist td_sigmask) \<or>
     (\<not> sigisempty p_siglist \<and> \<not> sigsetmasked p_siglist td_sigmask)"

section \<open>Descriptor sets\<close>

record fd_set =
  fds_bits :: "u64 list"

definition fdset_mask :: "nat \<Rightarrow> u64" where
  "fdset_mask n = push_bit (n mod 64) 1"

definition FD_CLR :: "nat \<Rightarrow> fd_set \<Rightarrow> fd_set option" where
  "FD_CLR n p = map_option (\<lambda>b. p\<lparr>fds_bits := b\<rparr>) (upd_word (n div 64) (\<lambda>w. w AND NOT (fdset_mask n)) (fds_bits p))"

definition FD_COPY :: "fd_set \<Rightarrow> fd_set \<Rightarrow> fd_set" where
  "FD_COPY f t = f"

definition FD_ISSET :: "nat \<Rightarrow> fd_set \<Rightarrow> bool option" where
  "FD_ISSET n p = map_option (\<lambda>w. w AND fdset_mask n \<noteq> 0) (word_at (fds_bits p) (n div 64))"

definition FD_SET :: "nat \<Rightarrow> fd_set \<Rightarrow> fd_set option" where
  "FD_SET n p = map_option (\<lambda>b. p\<lparr>fds_bits := b\<rparr>) (upd_word (n div 64) (\<lambda>w. w OR fdset_mask n) (fds_bits p))"

text \<open>\<open>while (_n > 0) _p->__fds_bits[--_n] = 0\<close>\<close>

fun zero_down :: "nat \<Rightarrow> u64 list \<Rightarrow> u64 list" where
  "zero_down 0 b = b"
| "zero_down (Suc n) b = zero_down n (b[n := 0])"

definition FD_ZERO :: "fd_set \<Rightarrow> fd_set" where
  "FD_ZERO p = p\<lparr>fds_bits := zero_down 16 (fds_bits p)\<rparr>"

section \<open>Refinement\<close>

text \<open>A set of \<open>k\<close> words.\<close>

definition cpu_ok :: "nat \<Rightarrow> cpuset_t \<Rightarrow> bool" where
  "cpu_ok k p \<longleftrightarrow> NCPUWORDS p = k"

definition cpus :: "cpuset_t \<Rightarrow> nat set" where
  "cpus p = elems (cpu_bits p)"

definition sig_ok :: "sigset_t \<Rightarrow> bool" where
  "sig_ok s \<longleftrightarrow> length (sig_bits s) = SIG_WORDS"

definition signals :: "sigset_t \<Rightarrow> nat set" where
  "signals s = Suc ` elems (sig_bits s)"

definition fd_ok :: "fd_set \<Rightarrow> bool" where
  "fd_ok p \<longleftrightarrow> length (fds_bits p) = 16"

definition fds :: "fd_set \<Rightarrow> nat set" where
  "fds p = elems (fds_bits p)"

lemma elems_upd_word:
  assumes "m = LENGTH('a::len)" and "length ws = k" and "n < m * k"
  shows "\<exists>ws'. upd_word (n div m) (\<lambda>w. w OR push_bit (n mod m) 1) (ws :: 'a word list) = Some ws' \<and>
      length ws' = k \<and> elems ws' = insert n (elems ws)"
    and "\<exists>ws'. upd_word (n div m) (\<lambda>w. w AND NOT (push_bit (n mod m) 1)) ws = Some ws' \<and>
      length ws' = k \<and> elems ws' = elems ws - {n}"
    and "map_option (\<lambda>w. w AND push_bit (n mod m) 1 \<noteq> 0) (word_at ws (n div m)) = Some (n \<in> elems ws)"
proof -
  have lt: "n div LENGTH('a) < length ws"
    using assms by (simp add: div_less_iff_less_mult mult.commute)
  show "\<exists>ws'. upd_word (n div m) (\<lambda>w. w OR push_bit (n mod m) 1) ws = Some ws' \<and>
      length ws' = k \<and> elems ws' = insert n (elems ws)"
    using lt assms elems_upd(1) [OF lt] by (simp add: upd_word_def)
  show "\<exists>ws'. upd_word (n div m) (\<lambda>w. w AND NOT (push_bit (n mod m) 1)) ws = Some ws' \<and>
      length ws' = k \<and> elems ws' = elems ws - {n}"
    using lt assms elems_upd(2) [OF lt] by (simp add: upd_word_def)
  have "(w :: 'a word) AND push_bit (n mod m) 1 \<noteq> 0 \<longleftrightarrow> bit w (n mod m)" for w
    by (simp add: bit_iff_and_push_bit_not_eq_0)
  then show "map_option (\<lambda>w. w AND push_bit (n mod m) 1 \<noteq> 0) (word_at ws (n div m)) = Some (n \<in> elems ws)"
    using lt assms(1) by (simp add: word_at_def mem_elems)
qed

lemma elems_for_words:
  assumes "length ws = n" and "length vs = n"
  shows "elems (for_words n (\<lambda>i w. 0) ws :: 'a::len word list) = {}"
    and "elems (for_words n (\<lambda>i w. - 1) ws) = {..< LENGTH('a) * n}"
    and "elems (for_words n (\<lambda>i w. w OR vs ! i) ws) = elems ws \<union> elems vs"
    and "elems (for_words n (\<lambda>i w. w AND vs ! i) ws) = elems ws \<inter> elems vs"
    and "elems (for_words n (\<lambda>i w. w AND NOT (vs ! i)) ws) = elems ws - elems vs"
    and "for_words n (\<lambda>i w. vs ! i) ws = vs"
proof -
  have n: "n = length ws" using assms by simp
  show "elems (for_words n (\<lambda>i w. 0) ws) = {}"
    by (subst for_words_eq [OF n]) (simp add: elems_zero_iff)
  show "elems (for_words n (\<lambda>i w. - 1) ws) = {..< LENGTH('a) * n}"
    by (subst for_words_eq [OF n], subst elems_map [where P = "\<lambda>_. True"]) auto
  show "elems (for_words n (\<lambda>i w. w OR vs ! i) ws) = elems ws \<union> elems vs"
    using assms elems_less [of _ ws] elems_less [of _ vs]
    by (subst for_words_eq [OF n], subst elems_map [where P = "\<lambda>m. m \<in> elems ws \<union> elems vs"])
      (auto simp: elems_nth bit_or_iff)
  show "elems (for_words n (\<lambda>i w. w AND vs ! i) ws) = elems ws \<inter> elems vs"
    using assms elems_less [of _ ws]
    by (subst for_words_eq [OF n], subst elems_map [where P = "\<lambda>m. m \<in> elems ws \<inter> elems vs"])
      (auto simp: elems_nth bit_and_iff)
  show "elems (for_words n (\<lambda>i w. w AND NOT (vs ! i)) ws) = elems ws - elems vs"
    using assms elems_less [of _ ws]
    by (subst for_words_eq [OF n], subst elems_map [where P = "\<lambda>m. m \<in> elems ws - elems vs"])
      (auto simp: elems_nth bit_and_iff bit_not_iff)
  show "for_words n (\<lambda>i w. vs ! i) ws = vs"
    using assms by (subst for_words_eq [OF n]) (auto intro: nth_equalityI)
qed

lemma length_for_words: "length ws = n \<Longrightarrow> length (for_words n f ws) = n"
  using for_words_nth [of n ws f] by simp

lemma elems_full_iff: "length ws = n \<Longrightarrow> elems (ws :: 'a::len word list) = {..< LENGTH('a) * n} \<longleftrightarrow> (\<forall>i < n. ws ! i = - 1)"
proof -
  assume n: "length ws = n"
  have full: "elems (for_words n (\<lambda>i w. - 1) ws) = {..< LENGTH('a) * n}" using n by (rule elems_for_words(2) [OF _ n])
  have "for_words n (\<lambda>i w. - 1) ws = replicate n (- 1)"
    using n by (subst for_words_eq) (auto intro: nth_equalityI)
  with full have rep: "elems (replicate n (- 1) :: 'a word list) = {..< LENGTH('a) * n}" by simp
  have "elems ws = {..< LENGTH('a) * n} \<longleftrightarrow> ws = replicate n (- 1)"
  proof
    assume "elems ws = {..< LENGTH('a) * n}"
    then have "elems ws = elems (replicate n (- 1) :: 'a word list)" by (simp only: rep)
    then show "ws = replicate n (- 1)" by (intro elems_inject) (simp_all add: n)
  next
    assume "ws = replicate n (- 1)"
    then show "elems ws = {..< LENGTH('a) * n}" by (simp only: rep)
  qed
  also have "\<dots> \<longleftrightarrow> (\<forall>i < n. ws ! i = - 1)" using n by (auto simp: list_eq_iff_nth_eq)
  finally show ?thesis .
qed

lemmas cpu_defs = cpu_ok_def cpus_def cpuset_mask_def

text \<open>Single elements: the contract of the three sets.\<close>

datatype set_op = Put nat | Drop nat

fun set_op_on :: "set_op \<Rightarrow> nat set \<Rightarrow> nat set" where
  "set_op_on (Put n) S = insert n S"
| "set_op_on (Drop n) S = S - {n}"

fun set_op_arg :: "set_op \<Rightarrow> nat" where
  "set_op_arg (Put n) = n"
| "set_op_arg (Drop n) = n"

fun set_ops :: "(nat \<Rightarrow> 's \<Rightarrow> 's option) \<Rightarrow> (nat \<Rightarrow> 's \<Rightarrow> 's option) \<Rightarrow> set_op list \<Rightarrow> 's \<Rightarrow> 's option" where
  "set_ops add del [] s = Some s"
| "set_ops add del (Put n # ps) s = do { s \<leftarrow> add n s; set_ops add del ps s }"
| "set_ops add del (Drop n # ps) s = do { s \<leftarrow> del n s; set_ops add del ps s }"

locale bit_set =
  fixes ok :: "'s \<Rightarrow> bool" and abs :: "'s \<Rightarrow> nat set" and valid :: "nat \<Rightarrow> bool"
    and add :: "nat \<Rightarrow> 's \<Rightarrow> 's option" and del :: "nat \<Rightarrow> 's \<Rightarrow> 's option" and isin :: "'s \<Rightarrow> nat \<Rightarrow> bool option"
  assumes add_abs: "ok s \<Longrightarrow> valid n \<Longrightarrow> \<exists>s'. add n s = Some s' \<and> ok s' \<and> abs s' = insert n (abs s)"
    and del_abs: "ok s \<Longrightarrow> valid n \<Longrightarrow> \<exists>s'. del n s = Some s' \<and> ok s' \<and> abs s' = abs s - {n}"
    and isin_abs: "ok s \<Longrightarrow> valid n \<Longrightarrow> isin s n = Some (n \<in> abs s)"
begin

lemma ops_abs:
  "ok s \<Longrightarrow> \<forall>p\<in>set ps. valid (set_op_arg p) \<Longrightarrow>
    \<exists>s'. set_ops add del ps s = Some s' \<and> ok s' \<and> abs s' = fold set_op_on ps (abs s) \<and>
      (\<forall>n. valid n \<longrightarrow> isin s' n = Some (n \<in> fold set_op_on ps (abs s)))"
proof (induction ps arbitrary: s)
  case Nil
  then show ?case by (simp add: isin_abs)
next
  case (Cons p ps)
  show ?case
  proof (cases p)
    case (Put n)
    with Cons.prems add_abs [of s n] obtain s1 where "add n s = Some s1" "ok s1" "abs s1 = insert n (abs s)" by auto
    with Cons.IH [of s1] Cons.prems Put show ?thesis by auto
  next
    case (Drop n)
    with Cons.prems del_abs [of s n] obtain s1 where "del n s = Some s1" "ok s1" "abs s1 = abs s - {n}" by auto
    with Cons.IH [of s1] Cons.prems Drop show ?thesis by auto
  qed
qed

end

interpretation cpu_bit_set: bit_set "cpu_ok k" cpus "\<lambda>n. n < 64 * k" CPU_SET CPU_CLR "\<lambda>p n. CPU_ISSET n p" for k
proof
  fix s n assume s: "cpu_ok k s" and n: "n < 64 * k"
  then have l: "length (cpu_bits s) = k" by (simp add: cpu_ok_def)
  note e = elems_upd_word [of 64, OF _ l, of n]
  show "\<exists>s'. CPU_SET n s = Some s' \<and> cpu_ok k s' \<and> cpus s' = insert n (cpus s)"
    using e(1) n by (auto simp: CPU_SET_def cpu_defs)
  show "\<exists>s'. CPU_CLR n s = Some s' \<and> cpu_ok k s' \<and> cpus s' = cpus s - {n}"
    using e(2) n by (auto simp: CPU_CLR_def cpu_defs)
  show "CPU_ISSET n s = Some (n \<in> cpus s)"
    using e(3) n by (simp add: CPU_ISSET_def cpu_defs)
qed

interpretation fd_bit_set: bit_set fd_ok fds "\<lambda>n. n < 1024" FD_SET FD_CLR "\<lambda>p n. FD_ISSET n p"
proof
  fix s n assume s: "fd_ok s" and n: "n < (1024 :: nat)"
  then have l: "length (fds_bits s) = 16" by (simp add: fd_ok_def)
  note e = elems_upd_word [of 64, OF _ l, of n]
  show "\<exists>s'. FD_SET n s = Some s' \<and> fd_ok s' \<and> fds s' = insert n (fds s)"
    using e(1) n by (auto simp: FD_SET_def fd_ok_def fds_def fdset_mask_def)
  show "\<exists>s'. FD_CLR n s = Some s' \<and> fd_ok s' \<and> fds s' = fds s - {n}"
    using e(2) n by (auto simp: FD_CLR_def fd_ok_def fds_def fdset_mask_def)
  show "FD_ISSET n s = Some (n \<in> fds s)"
    using e(3) n by (simp add: FD_ISSET_def fds_def fdset_mask_def)
qed

interpretation sig_bit_set: bit_set sig_ok signals SIG_VALID SIGADDSET SIGDELSET
    "\<lambda>s n. map_option (\<lambda>w. w \<noteq> 0) (SIGISMEMBER s n)"
proof
  fix s n assume s: "sig_ok s" and "SIG_VALID n"
  then obtain i where n: "n = Suc i" and i: "i < 128" by (cases n) (auto simp: SIG_VALID_def)
  from s have l: "length (sig_bits s) = 4" by (simp add: sig_ok_def)
  note e = elems_upd_word [of 32, OF _ l, of i]
  have ins: "Suc ` insert i S = insert n (Suc ` S)" "Suc ` (S - {i}) = Suc ` S - {n}" for S
    using n by auto
  show "\<exists>s'. SIGADDSET n s = Some s' \<and> sig_ok s' \<and> signals s' = insert n (signals s)"
    using e(1) i ins n by (auto simp: SIGADDSET_def SIG_IDX_def SIG_BIT_def sig_ok_def signals_def)
  show "\<exists>s'. SIGDELSET n s = Some s' \<and> sig_ok s' \<and> signals s' = signals s - {n}"
    using e(2) i ins n by (auto simp: SIGDELSET_def SIG_IDX_def SIG_BIT_def sig_ok_def signals_def)
  show "map_option (\<lambda>w. w \<noteq> 0) (SIGISMEMBER s n) = Some (n \<in> signals s)"
    using e(3) i n by (auto simp: SIGISMEMBER_def SIG_IDX_def SIG_BIT_def signals_def option.map_comp comp_def)
qed

section \<open>Properties\<close>

lemma cpu_lengths:
  assumes "cpu_ok k p" and "cpu_ok k q"
  shows "length (cpu_bits p) = k" "length (cpu_bits q) = k" "length (cpu_bits q) = length (cpu_bits p)"
  using assms by (simp_all add: cpu_ok_def)

lemma CPU_updates:
  assumes "cpu_ok k p" and "cpu_ok k q"
  shows "cpu_ok k (CPU_ZERO p) \<and> cpus (CPU_ZERO p) = {}"
    and "cpu_ok k (CPU_FILL p) \<and> cpus (CPU_FILL p) = {..<64 * k}"
    and "cpu_ok k (CPU_OR p q) \<and> cpus (CPU_OR p q) = cpus p \<union> cpus q"
    and "cpu_ok k (CPU_AND p q) \<and> cpus (CPU_AND p q) = cpus p \<inter> cpus q"
    and "cpu_ok k (CPU_NAND p q) \<and> cpus (CPU_NAND p q) = cpus p - cpus q"
    and "CPU_OR_ATOMIC p q = CPU_OR p q" and "cpus (CPU_COPY_STORE_REL p q) = cpus p"
  using elems_for_words [OF cpu_lengths(1,2) [OF assms]] elems_for_words(6) [OF cpu_lengths(2,1) [OF assms]]
    length_for_words [OF cpu_lengths(1) [OF assms]] cpu_lengths(1,2) [OF assms]
  by (simp_all add: cpu_ok_def cpus_def CPU_ZERO_def CPU_FILL_def CPU_OR_def CPU_AND_def CPU_NAND_def
      CPU_OR_ATOMIC_def CPU_COPY_STORE_REL_def atomic_asm_defs atomic_store_rel_def xchg_def)

lemma CPU_tests:
  assumes "cpu_ok k p" and "cpu_ok k q"
  shows "CPU_EMPTY p \<longleftrightarrow> cpus p = {}" and "CPU_ISFULLSET p \<longleftrightarrow> cpus p = {..<64 * k}"
    and "CPU_SUBSET p q \<longleftrightarrow> cpus q \<subseteq> cpus p" and "CPU_OVERLAP p q \<longleftrightarrow> cpus q \<inter> cpus p \<noteq> {}"
    and "CPU_CMP p q \<longleftrightarrow> cpus p \<noteq> cpus q"
proof -
  note l = cpu_lengths [OF assms]
  show "CPU_EMPTY p \<longleftrightarrow> cpus p = {}"
    using l by (simp add: CPU_EMPTY_def scan_words_0 cpus_def elems_zero_iff)
  show "CPU_ISFULLSET p \<longleftrightarrow> cpus p = {..<64 * k}"
    using elems_full_iff [OF l(1)] l(1) by (simp add: CPU_ISFULLSET_def scan_words_0 cpus_def)
  show "CPU_SUBSET p q \<longleftrightarrow> cpus q \<subseteq> cpus p"
    using elems_subset_iff [OF l(3)] l by (simp add: CPU_SUBSET_def scan_words_0 cpus_def)
  show "CPU_OVERLAP p q \<longleftrightarrow> cpus q \<inter> cpus p \<noteq> {}"
    using elems_disjoint_iff [OF l(3)] l by (simp add: CPU_OVERLAP_def scan_words_0 cpus_def)
  have "cpu_bits p = cpu_bits q \<longleftrightarrow> cpus p = cpus q"
    using elems_inject [OF l(3) [symmetric]] by (auto simp: cpus_def)
  then show "CPU_CMP p q \<longleftrightarrow> cpus p \<noteq> cpus q"
    using l by (auto simp: CPU_CMP_def scan_words_0 list_eq_iff_nth_eq)
qed

lemma CPU_SETOF_cpus:
  assumes "cpu_ok k p" and "n < 64 * k"
  shows "\<exists>p'. CPU_SETOF n p = Some p' \<and> cpu_ok k p' \<and> cpus p' = {n}"
proof -
  let ?z = "CPU_ZERO p"
  have z: "cpu_ok k ?z" "cpus ?z = {}" using CPU_updates(1) [OF assms(1,1)] by auto
  then have "n div 64 < length (cpu_bits ?z)" using assms(2) by (simp add: cpu_ok_def div_less_iff_less_mult mult.commute)
  moreover from this have "cpu_bits ?z ! (n div 64) = 0"
    using z by (simp add: cpus_def elems_zero_iff)
  ultimately have "upd_word (n div 64) (\<lambda>w. cpuset_mask n) (cpu_bits ?z) =
      upd_word (n div 64) (\<lambda>w. w OR cpuset_mask n) (cpu_bits ?z)" by (simp add: upd_word_def)
  then have "CPU_SETOF n p = CPU_SET n ?z" by (simp add: CPU_SETOF_def CPU_SET_def Let_def)
  with cpu_bit_set.add_abs [OF z(1) assms(2)] z(2) show ?thesis by simp
qed

text \<open>Processor sets are sets of numbers below 64 times the number of words: every operation on two well-formed sets, on
  whole sets or on one processor, atomic or not, is the set operation of its name and keeps the
  sets well formed; the tests with early exit decide emptiness, fullness, inclusion, overlap and
  difference.\<close>

lemma cpuset_refines_sets:
  assumes "cpu_ok k p" and "cpu_ok k q" and "n < 64 * k"
  shows "(\<exists>p'. CPU_SET n p = Some p' \<and> cpu_ok k p' \<and> cpus p' = insert n (cpus p)) \<and>
    (\<exists>p'. CPU_CLR n p = Some p' \<and> cpu_ok k p' \<and> cpus p' = cpus p - {n}) \<and>
    (\<exists>p'. CPU_SETOF n p = Some p' \<and> cpu_ok k p' \<and> cpus p' = {n}) \<and>
    CPU_ISSET n p = Some (n \<in> cpus p) \<and> CPU_SET_ATOMIC n p = CPU_SET n p \<and> CPU_CLR_ATOMIC n p = CPU_CLR n p \<and>
    cpus (CPU_ZERO p) = {} \<and> cpus (CPU_FILL p) = {..<64 * k} \<and>
    cpus (CPU_OR p q) = cpus p \<union> cpus q \<and> cpus (CPU_AND p q) = cpus p \<inter> cpus q \<and>
    cpus (CPU_NAND p q) = cpus p - cpus q \<and>
    (CPU_EMPTY p \<longleftrightarrow> cpus p = {}) \<and> (CPU_ISFULLSET p \<longleftrightarrow> cpus p = {..<64 * k}) \<and>
    (CPU_SUBSET p q \<longleftrightarrow> cpus q \<subseteq> cpus p) \<and> (CPU_OVERLAP p q \<longleftrightarrow> cpus q \<inter> cpus p \<noteq> {}) \<and>
    (CPU_CMP p q \<longleftrightarrow> cpus p \<noteq> cpus q)"
  using cpu_bit_set.add_abs [OF assms(1,3)] cpu_bit_set.del_abs [OF assms(1,3)]
    cpu_bit_set.isin_abs [OF assms(1,3)] CPU_SETOF_cpus [OF assms(1,3)]
    CPU_updates [OF assms(1,2)] CPU_tests [OF assms(1,2)]
  by (simp add: CPU_SET_ATOMIC_def CPU_CLR_ATOMIC_def CPU_SET_def CPU_CLR_def atomic_asm_defs)

lemma sig_tests:
  assumes "sig_ok s" and "sig_ok t"
  shows "sigisempty s \<longleftrightarrow> signals s = {}" and "sigseteq s t \<longleftrightarrow> signals s = signals t"
    and "sigsetmasked s t \<longleftrightarrow> signals s \<subseteq> signals t"
proof -
  have l: "length (sig_bits s) = 4" "length (sig_bits t) = 4" using assms by (simp_all add: sig_ok_def)
  then have eq: "length (sig_bits s) = length (sig_bits t)" by simp
  show "sigisempty s \<longleftrightarrow> signals s = {}"
    using l by (simp add: sigisempty_def none_of_words_def scan_words_0 signals_def elems_zero_iff)
  have "sig_bits s = sig_bits t \<longleftrightarrow> signals s = signals t"
    using elems_inject [OF eq] by (auto simp: signals_def inj_image_eq_iff)
  then show "sigseteq s t \<longleftrightarrow> signals s = signals t"
    using l by (auto simp: sigseteq_def none_of_words_def scan_words_0 list_eq_iff_nth_eq)
  have "(a :: u32) AND NOT b = 0 \<longleftrightarrow> a AND b = a" for a b
    by (auto simp: bit_eq_iff bit_and_iff bit_not_iff dest: bit_imp_le_length)
  then show "sigsetmasked s t \<longleftrightarrow> signals s \<subseteq> signals t"
    using l elems_subset_iff [OF eq]
    by (simp add: sigsetmasked_def none_of_words_def scan_words_0 signals_def inj_image_subset_iff)
qed

lemma sig_updates:
  assumes "sig_ok s" and "sig_ok t"
  shows "sig_ok (SIGEMPTYSET s) \<and> signals (SIGEMPTYSET s) = {}"
    and "sig_ok (SIGFILLSET s) \<and> signals (SIGFILLSET s) = {1..128}"
    and "sig_ok (SIGSETOR s t) \<and> signals (SIGSETOR s t) = signals s \<union> signals t"
    and "sig_ok (SIGSETAND s t) \<and> signals (SIGSETAND s t) = signals s \<inter> signals t"
    and "sig_ok (SIGSETNAND s t) \<and> signals (SIGSETNAND s t) = signals s - signals t"
proof -
  have l: "length (sig_bits s) = 4" "length (sig_bits t) = 4" using assms by (simp_all add: sig_ok_def)
  have "Suc ` {..<128} = {1..128}" by (simp add: image_Suc_lessThan)
  then show "sig_ok (SIGEMPTYSET s) \<and> signals (SIGEMPTYSET s) = {}"
    and "sig_ok (SIGFILLSET s) \<and> signals (SIGFILLSET s) = {1..128}"
    and "sig_ok (SIGSETOR s t) \<and> signals (SIGSETOR s t) = signals s \<union> signals t"
    and "sig_ok (SIGSETAND s t) \<and> signals (SIGSETAND s t) = signals s \<inter> signals t"
    and "sig_ok (SIGSETNAND s t) \<and> signals (SIGSETNAND s t) = signals s - signals t"
    using elems_for_words [OF l] length_for_words [OF l(1)]
    by (simp_all add: sig_ok_def signals_def SIGEMPTYSET_def SIGFILLSET_def SIGSETOR_def SIGSETAND_def
        SIGSETNAND_def image_Un image_Int image_set_diff)
qed

lemma SIGPENDING_iff:
  assumes "sig_ok td" and "sig_ok pr" and "sig_ok m"
  shows "SIGPENDING td pr m \<longleftrightarrow> (signals td \<union> signals pr) - signals m \<noteq> {}"
  using sig_tests(1,3) [OF assms(1,3)] sig_tests(1,3) [OF assms(2,3)] by (auto simp: SIGPENDING_def)

lemma set_ops_fun:
  "set_ops add del [] = Some" "set_ops add del (Drop n # ps) = (\<lambda>s. Option.bind (del n s) (set_ops add del ps))"
  by (simp_all add: fun_eq_iff)

lemma SIGDELSET_seq:
  assumes "sig_ok s" and "\<forall>n\<in>set ns. SIG_VALID n"
  shows "\<exists>s'. set_ops SIGADDSET SIGDELSET (map Drop ns) s = Some s' \<and> sig_ok s' \<and> signals s' = signals s - set ns"
proof -
  have "fold set_op_on (map Drop ns) S = S - set ns" for S by (induction ns arbitrary: S) auto
  with sig_bit_set.ops_abs [OF assms(1), of "map Drop ns"] assms(2) show ?thesis by auto
qed

lemma SIG_masks:
  assumes "sig_ok s"
  shows "\<exists>s'. SIG_CANTMASK s = Some s' \<and> sig_ok s' \<and> signals s' = signals s - {SIGKILL, SIGSTOP}"
    and "\<exists>s'. SIG_STOPSIGMASK s = Some s' \<and> sig_ok s' \<and> signals s' = signals s - {SIGSTOP, SIGTSTP, SIGTTIN, SIGTTOU}"
    and "\<exists>s'. SIG_CONTSIGMASK s = Some s' \<and> sig_ok s' \<and> signals s' = signals s - {SIGCONT}"
  using SIGDELSET_seq [OF assms, of "[SIGKILL, SIGSTOP]"]
    SIGDELSET_seq [OF assms, of "[SIGSTOP, SIGTSTP, SIGTTIN, SIGTTOU]"] SIGDELSET_seq [OF assms, of "[SIGCONT]"]
  by (simp_all add: SIG_CANTMASK_def SIG_STOPSIGMASK_def SIG_CONTSIGMASK_def SIG_VALID_def set_ops_fun)

text \<open>Signal sets are sets of the numbers 1 to 128: any sequence of additions and deletions of
  valid signals ends in the set it yields, with \<open>SIGISMEMBER\<close> its membership; union, intersection and
  difference are those of sets; \<open>sigsetmasked\<close> is inclusion; the mask that cannot block \<open>SIGKILL\<close> and
  \<open>SIGSTOP\<close> lacks exactly them; and \<open>SIGPENDING\<close> holds exactly when some pending signal of the thread or
  the process is not masked.\<close>

lemma sigset_refines_sets:
  assumes "sig_ok s" and "sig_ok t" and "sig_ok m" and "\<forall>p\<in>set ps. SIG_VALID (set_op_arg p)"
  shows "(\<exists>s'. set_ops SIGADDSET SIGDELSET ps s = Some s' \<and> sig_ok s' \<and> signals s' = fold set_op_on ps (signals s) \<and>
      (\<forall>n. SIG_VALID n \<longrightarrow> map_option (\<lambda>w. w \<noteq> 0) (SIGISMEMBER s' n) = Some (n \<in> fold set_op_on ps (signals s)))) \<and>
    signals (SIGEMPTYSET s) = {} \<and> signals (SIGFILLSET s) = {1..128} \<and>
    signals (SIGSETOR s t) = signals s \<union> signals t \<and> signals (SIGSETAND s t) = signals s \<inter> signals t \<and>
    signals (SIGSETNAND s t) = signals s - signals t \<and>
    (sigisempty s \<longleftrightarrow> signals s = {}) \<and> (sigseteq s t \<longleftrightarrow> signals s = signals t) \<and>
    (sigsetmasked s t \<longleftrightarrow> signals s \<subseteq> signals t) \<and>
    (\<exists>s'. SIG_CANTMASK s = Some s' \<and> signals s' = signals s - {SIGKILL, SIGSTOP}) \<and>
    (SIGPENDING s t m \<longleftrightarrow> (signals s \<union> signals t) - signals m \<noteq> {})"
proof (intro conjI)
  show "\<exists>s'. set_ops SIGADDSET SIGDELSET ps s = Some s' \<and> sig_ok s' \<and> signals s' = fold set_op_on ps (signals s) \<and>
      (\<forall>n. SIG_VALID n \<longrightarrow> map_option (\<lambda>w. w \<noteq> 0) (SIGISMEMBER s' n) = Some (n \<in> fold set_op_on ps (signals s)))"
    by (rule sig_bit_set.ops_abs [OF assms(1,4)])
  show "\<exists>s'. SIG_CANTMASK s = Some s' \<and> signals s' = signals s - {SIGKILL, SIGSTOP}"
    using SIG_masks(1) [OF assms(1)] by blast
qed (simp_all add: sig_updates [OF assms(1,2)] sig_tests [OF assms(1,2)] SIGPENDING_iff [OF assms(1,2,3)])

lemma zero_down_nth: "length (zero_down n b) = length b \<and> (\<forall>i < length b. zero_down n b ! i = (if i < n then 0 else b ! i))"
  by (induction n b rule: zero_down.induct) (auto simp: nth_list_update less_Suc_eq)

lemma FD_ZERO_fds: "fd_ok p \<Longrightarrow> fd_ok (FD_ZERO p) \<and> fds (FD_ZERO p) = {}"
  using zero_down_nth [of 16 "fds_bits p"] by (simp add: fd_ok_def FD_ZERO_def fds_def elems_zero_iff)

text \<open>Descriptor sets: after \<open>FD_ZERO\<close> any sequence of \<open>FD_SET\<close> and \<open>FD_CLR\<close> on descriptors below 1024
  stays inside the array and leaves exactly the descriptors set and not cleared since, which
  \<open>FD_ISSET\<close> tells.\<close>

lemma fd_set_refines_sets:
  assumes "fd_ok p" and "\<forall>q\<in>set ps. set_op_arg q < 1024"
  shows "\<exists>p'. set_ops FD_SET FD_CLR ps (FD_ZERO p) = Some p' \<and> fd_ok p' \<and>
    (\<forall>n < 1024. FD_ISSET n p' = Some (n \<in> fold set_op_on ps {}))"
  using fd_bit_set.ops_abs [OF _ assms(2), of "FD_ZERO p"] FD_ZERO_fds [OF assms(1)] by auto

section \<open>Witnesses\<close>

lemma cpuset_refines_sets_witness:
  "(CPU_SUBSET \<lparr>cpu_bits = [5, 1]\<rparr> \<lparr>cpu_bits = [4, 1]\<rparr> \<longleftrightarrow> cpus \<lparr>cpu_bits = [4, 1]\<rparr> \<subseteq> cpus \<lparr>cpu_bits = [5, 1]\<rparr>) \<and>
    CPU_ISSET 64 \<lparr>cpu_bits = [5, 1]\<rparr> = Some (64 \<in> cpus \<lparr>cpu_bits = [5, 1]\<rparr>)"
  using cpuset_refines_sets [of 2 "\<lparr>cpu_bits = [5, 1]\<rparr>" "\<lparr>cpu_bits = [4, 1]\<rparr>" 64] by (simp add: cpu_ok_def)

lemma sigset_refines_sets_witness:
  "\<exists>s'. set_ops SIGADDSET SIGDELSET [Put 9, Put 128, Drop 9] \<lparr>sig_bits = [0, 0, 0, 0]\<rparr> = Some s' \<and> signals s' = {128}"
proof -
  have e: "signals \<lparr>sig_bits = [0, 0, 0, 0]\<rparr> = {}"
    by (simp add: signals_def elems_zero_iff nth_Cons split: nat.splits)
  show ?thesis
    using sigset_refines_sets [of "\<lparr>sig_bits = [0, 0, 0, 0]\<rparr>" "\<lparr>sig_bits = [0, 0, 0, 0]\<rparr>"
        "\<lparr>sig_bits = [0, 0, 0, 0]\<rparr>" "[Put 9, Put 128, Drop 9]"] e
    by (auto simp: sig_ok_def SIG_VALID_def)
qed

lemma fd_set_refines_sets_witness:
  "\<exists>p'. set_ops FD_SET FD_CLR [Put 3, Put 1023, Drop 3] (FD_ZERO \<lparr>fds_bits = replicate 16 7\<rparr>) = Some p' \<and>
    FD_ISSET 1023 p' = Some True \<and> FD_ISSET 3 p' = Some False"
  using fd_set_refines_sets [of "\<lparr>fds_bits = replicate 16 7\<rparr>" "[Put 3, Put 1023, Drop 3]"]
  by (auto simp: fd_ok_def)

end
