(* ===== verification/Sys_Time.thy ===== *)
theory Sys_Time
  imports Ps4_Prelude
begin

unbundle bit_operations_syntax

text \<open>
  The time arithmetic of \<open>include/sys/time.h\<close>: binary times (seconds and a 64-bit fraction), their
  conversion to and from \<open>timespec\<close> and \<open>timeval\<close>, and the addition and subtraction macros.  Seconds,
  nanoseconds and microseconds are 64-bit words that wrap around; the tests for a negative part
  read them as signed.

  Shown: addition, subtraction and multiplication of binary times are exact in 128 bits; a time
  with nanoseconds goes through a binary time with a loss of at most one nanosecond and never rounds
  up; the macros keep times normalised and are exact.
\<close>

section \<open>Binary times\<close>

record bintime =
  bt_sec :: u64
  bt_frac :: u64

definition bintime_addx :: "u64 \<Rightarrow> bintime \<Rightarrow> bintime" where
  "bintime_addx x bt =
     (let u = bt_frac bt;
          bt = bt\<lparr>bt_frac := bt_frac bt + x\<rparr>
      in if u > bt_frac bt then bt\<lparr>bt_sec := bt_sec bt + 1\<rparr> else bt)"

definition bintime_add :: "bintime \<Rightarrow> bintime \<Rightarrow> bintime" where
  "bintime_add bt bt2 =
     (let u = bt_frac bt;
          bt = bt\<lparr>bt_frac := bt_frac bt + bt_frac bt2\<rparr>;
          bt = (if u > bt_frac bt then bt\<lparr>bt_sec := bt_sec bt + 1\<rparr> else bt)
      in bt\<lparr>bt_sec := bt_sec bt + bt_sec bt2\<rparr>)"

definition bintime_sub :: "bintime \<Rightarrow> bintime \<Rightarrow> bintime" where
  "bintime_sub bt bt2 =
     (let u = bt_frac bt;
          bt = bt\<lparr>bt_frac := bt_frac bt - bt_frac bt2\<rparr>;
          bt = (if u < bt_frac bt then bt\<lparr>bt_sec := bt_sec bt - 1\<rparr> else bt)
      in bt\<lparr>bt_sec := bt_sec bt - bt_sec bt2\<rparr>)"

definition bintime_mul :: "bintime \<Rightarrow> u32 \<Rightarrow> bintime" where
  "bintime_mul bt x =
     (let p1 = (bt_frac bt AND 0xffffffff) * ucast x;
          p2 = drop_bit 32 (bt_frac bt) * ucast x + drop_bit 32 p1;
          bt = bt\<lparr>bt_sec := bt_sec bt * ucast x\<rparr>;
          bt = bt\<lparr>bt_sec := bt_sec bt + drop_bit 32 p2\<rparr>
      in bt\<lparr>bt_frac := push_bit 32 p2 OR (p1 AND 0xffffffff)\<rparr>)"

definition bintime_clear :: "bintime \<Rightarrow> bintime" where
  "bintime_clear a = a\<lparr>bt_frac := 0, bt_sec := 0\<rparr>"

definition bintime_isset :: "bintime \<Rightarrow> bool" where
  "bintime_isset a \<longleftrightarrow> bt_sec a \<noteq> 0 \<or> bt_frac a \<noteq> 0"

text \<open>\<open>cmp\<close> is a comparison operator; the seconds are compared as signed, the fractions as unsigned
  numbers.\<close>

definition bintime_cmp :: "bintime \<Rightarrow> bintime \<Rightarrow> (int \<Rightarrow> int \<Rightarrow> bool) \<Rightarrow> bool" where
  "bintime_cmp a b cmp =
     (if bt_sec a = bt_sec b then cmp (uint (bt_frac a)) (uint (bt_frac b))
      else cmp (sint (bt_sec a)) (sint (bt_sec b)))"

section \<open>Conversions\<close>

record timespec =
  ts_sec :: u64
  ts_nsec :: u64

record timeval =
  tv_sec :: u64
  tv_usec :: u64

definition bintime2timespec :: "bintime \<Rightarrow> timespec" where
  "bintime2timespec bt = \<lparr>ts_sec = bt_sec bt,
     ts_nsec = drop_bit 32 (1000000000 * ucast (ucast (drop_bit 32 (bt_frac bt)) :: u32))\<rparr>"

definition timespec2bintime :: "timespec \<Rightarrow> bintime" where
  "timespec2bintime ts = \<lparr>bt_sec = ts_sec ts, bt_frac = ts_nsec ts * 18446744073\<rparr>"

definition bintime2timeval :: "bintime \<Rightarrow> timeval" where
  "bintime2timeval bt = \<lparr>tv_sec = bt_sec bt,
     tv_usec = drop_bit 32 (1000000 * ucast (ucast (drop_bit 32 (bt_frac bt)) :: u32))\<rparr>"

definition timeval2bintime :: "timeval \<Rightarrow> bintime" where
  "timeval2bintime tv = \<lparr>bt_sec = tv_sec tv, bt_frac = tv_usec tv * 18446744073709\<rparr>"

section \<open>Macros on times\<close>

definition timespecclear :: "timespec \<Rightarrow> timespec" where
  "timespecclear tvp = tvp\<lparr>ts_nsec := 0, ts_sec := 0\<rparr>"

definition timespecisset :: "timespec \<Rightarrow> bool" where
  "timespecisset tvp \<longleftrightarrow> ts_sec tvp \<noteq> 0 \<or> ts_nsec tvp \<noteq> 0"

definition timespeccmp :: "timespec \<Rightarrow> timespec \<Rightarrow> (int \<Rightarrow> int \<Rightarrow> bool) \<Rightarrow> bool" where
  "timespeccmp tvp uvp cmp =
     (if ts_sec tvp = ts_sec uvp then cmp (sint (ts_nsec tvp)) (sint (ts_nsec uvp))
      else cmp (sint (ts_sec tvp)) (sint (ts_sec uvp)))"

definition timespecadd :: "timespec \<Rightarrow> timespec \<Rightarrow> timespec" where
  "timespecadd vvp uvp =
     (let vvp = vvp\<lparr>ts_sec := ts_sec vvp + ts_sec uvp\<rparr>;
          vvp = vvp\<lparr>ts_nsec := ts_nsec vvp + ts_nsec uvp\<rparr>
      in if sint (ts_nsec vvp) \<ge> 1000000000
         then vvp\<lparr>ts_sec := ts_sec vvp + 1, ts_nsec := ts_nsec vvp - 1000000000\<rparr> else vvp)"

definition timespecsub :: "timespec \<Rightarrow> timespec \<Rightarrow> timespec" where
  "timespecsub vvp uvp =
     (let vvp = vvp\<lparr>ts_sec := ts_sec vvp - ts_sec uvp\<rparr>;
          vvp = vvp\<lparr>ts_nsec := ts_nsec vvp - ts_nsec uvp\<rparr>
      in if sint (ts_nsec vvp) < 0
         then vvp\<lparr>ts_sec := ts_sec vvp - 1, ts_nsec := ts_nsec vvp + 1000000000\<rparr> else vvp)"

text \<open>The kernel's names for the first three are the same macros.\<close>

definition timevalclear :: "timeval \<Rightarrow> timeval" where
  "timevalclear tvp = tvp\<lparr>tv_usec := 0, tv_sec := 0\<rparr>"

definition timevalisset :: "timeval \<Rightarrow> bool" where
  "timevalisset tvp \<longleftrightarrow> tv_sec tvp \<noteq> 0 \<or> tv_usec tvp \<noteq> 0"

definition timevalcmp :: "timeval \<Rightarrow> timeval \<Rightarrow> (int \<Rightarrow> int \<Rightarrow> bool) \<Rightarrow> bool" where
  "timevalcmp tvp uvp cmp =
     (if tv_sec tvp = tv_sec uvp then cmp (sint (tv_usec tvp)) (sint (tv_usec uvp))
      else cmp (sint (tv_sec tvp)) (sint (tv_sec uvp)))"

definition timerclear :: "timeval \<Rightarrow> timeval" where
  "timerclear tvp = tvp\<lparr>tv_usec := 0, tv_sec := 0\<rparr>"

definition timerisset :: "timeval \<Rightarrow> bool" where
  "timerisset tvp \<longleftrightarrow> tv_sec tvp \<noteq> 0 \<or> tv_usec tvp \<noteq> 0"

definition timercmp :: "timeval \<Rightarrow> timeval \<Rightarrow> (int \<Rightarrow> int \<Rightarrow> bool) \<Rightarrow> bool" where
  "timercmp tvp uvp cmp =
     (if tv_sec tvp = tv_sec uvp then cmp (sint (tv_usec tvp)) (sint (tv_usec uvp))
      else cmp (sint (tv_sec tvp)) (sint (tv_sec uvp)))"

definition timeradd :: "timeval \<Rightarrow> timeval \<Rightarrow> timeval" where
  "timeradd tvp uvp =
     (let vvp = \<lparr>tv_sec = tv_sec tvp + tv_sec uvp, tv_usec = tv_usec tvp + tv_usec uvp\<rparr>
      in if sint (tv_usec vvp) \<ge> 1000000
         then vvp\<lparr>tv_sec := tv_sec vvp + 1, tv_usec := tv_usec vvp - 1000000\<rparr> else vvp)"

definition timersub :: "timeval \<Rightarrow> timeval \<Rightarrow> timeval" where
  "timersub tvp uvp =
     (let vvp = \<lparr>tv_sec = tv_sec tvp - tv_sec uvp, tv_usec = tv_usec tvp - tv_usec uvp\<rparr>
      in if sint (tv_usec vvp) < 0
         then vvp\<lparr>tv_sec := tv_sec vvp - 1, tv_usec := tv_usec vvp + 1000000\<rparr> else vvp)"

section \<open>Exactness of binary times\<close>

text \<open>A binary time in units of \<open>2 ^ -64\<close> seconds.\<close>

definition bt_value :: "bintime \<Rightarrow> nat" where
  "bt_value bt = unat (bt_sec bt) * 2 ^ 64 + unat (bt_frac bt)"

lemma u32_less: "unat (x :: u32) < 2 ^ 32"
  using unsigned_less [of x] by simp

lemma digits_mod: "r < m \<Longrightarrow> (s * m + r) mod (m * m) = (s mod m) * m + (r :: nat)"
  by (simp add: mod_mult2_eq)

lemma two_words: "(2::nat) ^ 128 = 2 ^ 64 * 2 ^ 64"
  by (simp flip: power_add)

lemma bt_value_less: "bt_value bt < 2 ^ 128"
proof -
  have "unat (bt_sec bt) \<le> 2 ^ 64 - 1" using unat_ptr_less [of "bt_sec bt"] by simp
  then have "unat (bt_sec bt) * 2 ^ 64 \<le> (2 ^ 64 - 1) * 2 ^ 64" by (rule mult_right_mono) simp
  moreover have "unat (bt_frac bt) < 2 ^ 64" using unat_ptr_less [of "bt_frac bt"] by simp
  ultimately show ?thesis by (simp add: bt_value_def)
qed

lemma carry:
  fixes x y :: u64
  shows "x > x + y \<longleftrightarrow> 2 ^ 64 \<le> unat x + unat y"
    and "unat x + unat y = (if x > x + y then 1 else 0) * 2 ^ 64 + unat (x + y)"
proof -
  have m: "unat (x + y) = (unat x + unat y) mod 2 ^ 64" by (simp add: unat_word_ariths)
  have lt: "unat x < 2 ^ 64" "unat y < 2 ^ 64" using unat_ptr_less [of x] unat_ptr_less [of y] by simp_all
  show c: "x > x + y \<longleftrightarrow> 2 ^ 64 \<le> unat x + unat y"
    using m lt by (cases "2 ^ 64 \<le> unat x + unat y") (simp_all add: word_less_nat_alt le_mod_geq)
  show "unat x + unat y = (if x > x + y then 1 else 0) * 2 ^ 64 + unat (x + y)"
    unfolding c using m lt by (simp add: le_mod_geq)
qed

lemma bt_value_carried:
  assumes "unat x + unat y = c * 2 ^ 64 + unat (z :: u64)"
  shows "unat (of_nat (unat a + unat b + c) :: u64) * 2 ^ 64 + unat z =
    (unat (a :: u64) * 2 ^ 64 + unat (x :: u64) + (unat (b :: u64) * 2 ^ 64 + unat (y :: u64))) mod 2 ^ 128"
proof -
  have "unat a * 2 ^ 64 + unat x + (unat b * 2 ^ 64 + unat y) = (unat a + unat b + c) * 2 ^ 64 + unat z"
    using assms by (simp add: algebra_simps)
  moreover have "unat z < 2 ^ 64" using unat_ptr_less [of z] by simp
  moreover have "unat (of_nat n :: u64) = n mod 2 ^ 64" for n by (simp add: unat_of_nat)
  ultimately show ?thesis unfolding two_words by (simp only: digits_mod)
qed

lemma bintime_add_value: "bt_value (bintime_add a b) = (bt_value a + bt_value b) mod 2 ^ 128"
proof -
  let ?c = "if bt_frac a > bt_frac a + bt_frac b then 1 else 0 :: nat"
  have sec: "bt_sec (bintime_add a b) = of_nat (unat (bt_sec a) + unat (bt_sec b) + ?c)"
    and frac: "bt_frac (bintime_add a b) = bt_frac a + bt_frac b"
    by (simp_all add: bintime_add_def Let_def)
  show ?thesis unfolding bt_value_def sec frac
    by (rule bt_value_carried [OF carry(2)])
qed

lemma bintime_addx_value: "bt_value (bintime_addx x a) = (bt_value a + unat x) mod 2 ^ 128"
proof -
  have "bintime_addx x a = bintime_add a \<lparr>bt_sec = 0, bt_frac = x\<rparr>"
    by (simp add: bintime_addx_def bintime_add_def Let_def)
  then have "bt_value (bintime_addx x a) = (bt_value a + bt_value \<lparr>bt_sec = 0, bt_frac = x\<rparr>) mod 2 ^ 128"
    by (simp only: bintime_add_value)
  then show ?thesis by (simp add: bt_value_def)
qed

lemma bintime_add_sub: "bintime_add (bintime_sub a b) b = a"
  by (cases a) (simp add: bintime_add_def bintime_sub_def Let_def)

text \<open>The product of a 64-bit and a 32-bit number, computed in two halves.\<close>

lemma low_half: "unat ((w :: u64) AND 0xffffffff) = unat w mod 2 ^ 32"
proof -
  have mask: "0xffffffff = (mask 32 :: u64)" by (simp add: mask_eq_exp_minus_1)
  show ?thesis unfolding mask by (simp add: take_bit_eq_mod unat_mod flip: take_bit_eq_mask)
qed

lemma high_half: "unat (drop_bit 32 (w :: u64)) = unat w div 2 ^ 32"
  by (simp add: drop_bit_eq_div unat_div)

lemma join_halves: "unat (push_bit 32 p OR (q AND 0xffffffff) :: u64) = (unat p mod 2 ^ 32) * 2 ^ 32 + unat q mod 2 ^ 32"
proof -
  have mask: "0xffffffff = (mask 32 :: u64)" by (simp add: mask_eq_exp_minus_1)
  have disj: "push_bit 32 p OR (q AND 0xffffffff) = push_bit 32 p + (q AND 0xffffffff)"
    unfolding mask by (rule disjunctive_add [symmetric]) (auto simp: bit_simps)
  have "unat (push_bit 32 p) = (unat p * 2 ^ 32) mod (2 ^ 32 * 2 ^ 32)"
    by (simp add: push_bit_eq_mult unat_word_ariths)
  then have sh: "unat (push_bit 32 p) = (unat p mod 2 ^ 32) * 2 ^ 32" by (simp only: mult_mod_left)
  have "unat p mod 2 ^ 32 < 2 ^ 32" "unat q mod 2 ^ 32 < 2 ^ 32" by simp_all
  then have "(unat p mod 2 ^ 32) * 2 ^ 32 + unat q mod 2 ^ 32 < 2 ^ 64" by simp
  then show ?thesis unfolding disj by (simp add: unat_word_ariths sh low_half del: push_bit_of_nat)
qed

lemma product_halves:
  fixes f :: u64 and x :: u32
  defines "p1 \<equiv> (f AND 0xffffffff) * ucast x"
  defines "p2 \<equiv> drop_bit 32 f * ucast x + drop_bit 32 p1"
  shows "unat f * unat x = (unat p2 div 2 ^ 32) * 2 ^ 64 + unat (push_bit 32 p2 OR (p1 AND 0xffffffff))"
proof -
  define M where "M = (2::nat) ^ 32"
  define h l where "h = unat f div M" and "l = unat f mod M"
  have MM: "M * M = 2 ^ 64" and M: "0 < M" by (simp_all add: M_def)
  have x: "unat x < M" using u32_less [of x] by (simp add: M_def)
  have hl: "h < M" "l < M" "unat f = h * M + l"
    using unat_ptr_less [of f] by (simp_all add: h_def l_def M_def less_mult_imp_div_less)
  have lx: "l * unat x < M * M" using hl(2) x by (intro mult_strict_mono) auto
  then have u1: "unat p1 = l * unat x"
    using MM by (simp add: p1_def unat_word_ariths low_half unat_ucast_u32 l_def M_def)
  have "h * unat x \<le> (M - 1) * (M - 1)" using hl(1) x by (intro mult_le_mono) auto
  moreover have "l * unat x div M < M" using lx by (rule less_mult_imp_div_less)
  moreover have "(M - 1) * (M - 1) + M \<le> M * M" using M by (cases M) auto
  ultimately have bound: "h * unat x + l * unat x div M < M * M" by linarith
  have "unat p2 = (h * unat x + l * unat x div M) mod (M * M)"
    unfolding MM by (simp add: p2_def unat_word_ariths high_half unat_ucast_u32 u1 h_def M_def mod_add_left_eq)
  with bound have u2: "unat p2 = h * unat x + l * unat x div M" by simp
  have digits: "a * (M * M) + (b * M + c) = (a * M + b) * M + c" for a b c by (simp add: algebra_simps)
  have "(unat p2 div M) * (M * M) + ((unat p2 mod M) * M + unat p1 mod M) =
      (unat p2 div M * M + unat p2 mod M) * M + unat p1 mod M"
    by (rule digits)
  also have "\<dots> = h * unat x * M + (unat p1 div M * M + unat p1 mod M)"
    by (simp add: u1 u2 algebra_simps)
  also have "\<dots> = (h * M + l) * unat x" unfolding div_mult_mod_eq u1 by (simp add: algebra_simps)
  finally show ?thesis using MM hl(3) by (simp add: join_halves M_def)
qed

lemma bintime_mul_value: "bt_value (bintime_mul bt x) = (bt_value bt * unat x) mod 2 ^ 128"
proof -
  define p1 where "p1 = (bt_frac bt AND 0xffffffff) * ucast x"
  define p2 where "p2 = drop_bit 32 (bt_frac bt) * ucast x + drop_bit 32 p1"
  let ?frac = "push_bit 32 p2 OR (p1 AND 0xffffffff)"
  let ?s = "unat (bt_sec bt) * unat x + unat p2 div 2 ^ 32"
  have sec: "unat (bt_sec bt * ucast x + drop_bit 32 p2) = ?s mod 2 ^ 64"
    by (simp add: unat_word_ariths high_half unat_ucast_u32 mod_add_left_eq)
  have "bt_value (bintime_mul bt x) = (?s mod 2 ^ 64) * 2 ^ 64 + unat ?frac"
    unfolding bt_value_def sec [symmetric] by (simp add: bintime_mul_def Let_def p1_def p2_def)
  also have "\<dots> = (?s * 2 ^ 64 + unat ?frac) mod 2 ^ 128"
    unfolding two_words by (rule digits_mod [symmetric]) (use unat_ptr_less [of ?frac] in simp)
  also have "?s * 2 ^ 64 + unat ?frac = bt_value bt * unat x"
    using product_halves [of "bt_frac bt" x]
    unfolding p1_def [symmetric] p2_def [symmetric] bt_value_def by (simp add: algebra_simps)
  finally show ?thesis .
qed

section \<open>Conversions and normalised times\<close>

definition ts_normal :: "timespec \<Rightarrow> bool" where
  "ts_normal ts \<longleftrightarrow> unat (ts_nsec ts) < 1000000000"

definition tv_normal :: "timeval \<Rightarrow> bool" where
  "tv_normal tv \<longleftrightarrow> unat (tv_usec tv) < 1000000"

lemma bintime_units:
  fixes f :: u64 and N :: u64
  assumes "unat N < 2 ^ 32"
  shows "unat (drop_bit 32 (N * ucast (ucast (drop_bit 32 f) :: u32))) = unat N * (unat f div 2 ^ 32) div 2 ^ 32"
proof -
  have "unat f div 2 ^ 32 < 2 ^ 32" using unat_ptr_less [of f] by (simp add: less_mult_imp_div_less)
  then have "unat (ucast (ucast (drop_bit 32 f) :: u32) :: u64) = unat f div 2 ^ 32"
    by (simp add: unat_ucast_u32 unsigned_ucast_eq take_bit_eq_mod unat_mod high_half)
  moreover have "unat N * (unat f div 2 ^ 32) < 2 ^ 32 * 2 ^ 32"
    using assms \<open>unat f div 2 ^ 32 < 2 ^ 32\<close> by (intro mult_strict_mono) auto
  ultimately show ?thesis by (simp add: high_half unat_word_ariths)
qed

text \<open>The two conversions one after the other, on the part below a second.\<close>

lemma units_roundtrip:
  fixes n u c :: nat
  assumes "n < u" and "u * c \<le> 2 ^ 64" and "2 ^ 64 \<le> u * c + u" and "u \<le> 1000000000"
  shows "u * (n * c div 2 ^ 32) div 2 ^ 32 \<le> n" and "n \<le> u * (n * c div 2 ^ 32) div 2 ^ 32 + 1"
proof -
  define T where "T = n * c div 2 ^ 32"
  define R where "R = u * T div 2 ^ 32"
  have T: "T * 2 ^ 32 \<le> n * c" "n * c < T * 2 ^ 32 + 2 ^ 32"
    unfolding T_def using div_times_less_eq_dividend [of "n * c" "2 ^ 32"] dividend_less_div_times [of "2 ^ 32" "n * c"]
    by simp_all
  have R: "R * 2 ^ 32 \<le> u * T" "u * T < R * 2 ^ 32 + 2 ^ 32"
    unfolding R_def using div_times_less_eq_dividend [of "u * T" "2 ^ 32"] dividend_less_div_times [of "2 ^ 32" "u * T"]
    by simp_all
  have "u * (T * 2 ^ 32) \<le> u * (n * c)" using T(1) by (rule mult_left_mono) simp
  also have "\<dots> = n * (u * c)" by (simp add: algebra_simps)
  also have "\<dots> \<le> n * 2 ^ 64" using assms(2) by (rule mult_left_mono) simp
  finally have up: "u * T \<le> n * 2 ^ 32" by (simp add: algebra_simps)
  then have "R * 2 ^ 32 \<le> n * 2 ^ 32" using R(1) by linarith
  then show "u * (n * c div 2 ^ 32) div 2 ^ 32 \<le> n" by (simp add: R_def T_def)
  have "n * 2 ^ 64 \<le> n * (u * c + u)" using assms(3) by (rule mult_left_mono) simp
  also have "\<dots> = u * (n * c) + n * u" by (simp add: algebra_simps)
  also have "\<dots> \<le> u * (T * 2 ^ 32 + 2 ^ 32) + n * u"
    using T(2) by (intro add_right_mono mult_left_mono) auto
  finally have low: "n * 2 ^ 64 \<le> u * T * 2 ^ 32 + u * 2 ^ 32 + n * u" by (simp add: algebra_simps)
  have "n * u \<le> u * u" using assms(1) by (intro mult_right_mono) auto
  also have "\<dots> \<le> 1000000000 * 1000000000" using assms(4) by (intro mult_mono) auto
  finally have "u * 2 ^ 32 + n * u \<le> 2 ^ 63" using assms(4) by simp
  with low have "n * 2 ^ 64 \<le> u * T * 2 ^ 32 + 2 ^ 63" by linarith
  with R(2) have "n * 2 ^ 64 < (R * 2 ^ 32 + 2 ^ 32) * 2 ^ 32 + 2 ^ 63" by simp
  then have "n < R + 2" by simp
  then show "n \<le> u * (n * c div 2 ^ 32) div 2 ^ 32 + 1" by (simp add: R_def T_def)
qed

lemma nsec_roundtrip:
  fixes n :: nat
  assumes "n < 1000000000"
  shows "1000000000 * (n * 18446744073 div 2 ^ 32) div 2 ^ 32 \<le> n"
    and "n \<le> 1000000000 * (n * 18446744073 div 2 ^ 32) div 2 ^ 32 + 1"
  using units_roundtrip [of n 1000000000 18446744073] assms by simp_all

lemma usec_roundtrip:
  fixes n :: nat
  assumes "n < 1000000"
  shows "1000000 * (n * 18446744073709 div 2 ^ 32) div 2 ^ 32 \<le> n"
    and "n \<le> 1000000 * (n * 18446744073709 div 2 ^ 32) div 2 ^ 32 + 1"
  using units_roundtrip [of n 1000000 18446744073709] assms by simp_all

text \<open>A time in its unit below a second, as an integer.\<close>

definition ts_value :: "timespec \<Rightarrow> int" where
  "ts_value ts = sint (ts_sec ts) * 1000000000 + sint (ts_nsec ts)"

definition tv_value :: "timeval \<Rightarrow> int" where
  "tv_value tv = sint (tv_sec tv) * 1000000 + sint (tv_usec tv)"

lemma sint_exact:
  fixes a b :: u64
  shows "- (2 ^ 63) \<le> sint a + sint b \<Longrightarrow> sint a + sint b < 2 ^ 63 \<Longrightarrow> sint (a + b) = sint a + sint b"
    and "- (2 ^ 63) \<le> sint a - sint b \<Longrightarrow> sint a - sint b < 2 ^ 63 \<Longrightarrow> sint (a - b) = sint a - sint b"
  by (simp_all add: sint_word_ariths signed_take_bit_int_eq_self)

lemma sint_nonneg_unat: "0 \<le> sint (x :: u64) \<Longrightarrow> unat x < 2 ^ 63"
proof (rule ccontr)
  assume "0 \<le> sint x" and "\<not> unat x < 2 ^ 63"
  then have "int (2 ^ 63) \<le> int (unat x)" by (simp only: of_nat_le_iff not_less)
  then have "2 ^ 63 \<le> uint x" by simp
  then have "uint x div 2 ^ 63 = 1" using uint_lt2p [of x] by (simp add: div_pos_geq)
  moreover have "\<not> bit (uint x) 63" using \<open>0 \<le> sint x\<close> by (simp add: sint_uint)
  ultimately show False by (simp add: bit_iff_odd)
qed

lemma unit_range: "n \<le> 2 ^ 63 \<Longrightarrow> unat (x :: u64) < n \<longleftrightarrow> 0 \<le> sint x \<and> sint x < int n"
proof
  assume "n \<le> 2 ^ 63" "unat x < n"
  then have "sint x = int (unat x)" by (intro sint_small) simp
  with \<open>unat x < n\<close> show "0 \<le> sint x \<and> sint x < int n" by (simp only: of_nat_less_iff) simp
next
  assume "0 \<le> sint x \<and> sint x < int n"
  moreover from this have "sint x = int (unat x)" by (intro sint_small sint_nonneg_unat) simp
  ultimately show "unat x < n" by (simp only: of_nat_less_iff)
qed

text \<open>The carry of the addition macros and the borrow of the subtraction macros, for a unit \<open>u\<close>.\<close>

lemma unit_carry:
  fixes s t m n U :: u64
  assumes U: "sint U = u" "0 < u" "u \<le> 2 ^ 32"
    and norm: "0 \<le> sint m" "sint m < u" "0 \<le> sint n" "sint n < u"
    and sec: "\<bar>sint s\<bar> < 2 ^ 62" "\<bar>sint t\<bar> < 2 ^ 62"
  shows "if sint (m + n) \<ge> u
    then sint (s + t + 1) * u + sint (m + n - U) = (sint s * u + sint m) + (sint t * u + sint n) \<and>
      0 \<le> sint (m + n - U) \<and> sint (m + n - U) < u
    else sint (s + t) * u + sint (m + n) = (sint s * u + sint m) + (sint t * u + sint n) \<and>
      0 \<le> sint (m + n) \<and> sint (m + n) < u"
proof -
  have mn: "sint (m + n) = sint m + sint n" by (rule sint_exact) (use norm U in simp_all)
  have mnU: "sint (m + n - U) = sint m + sint n - u"
    using sint_exact(2) [of "m + n" U] mn norm U by simp
  have st: "sint (s + t) = sint s + sint t" by (rule sint_exact) (use sec in simp_all)
  have st1: "sint (s + t + 1) = sint s + sint t + 1"
    using sint_exact(1) [of "s + t" 1] st sec by simp
  show ?thesis unfolding mn mnU st st1 using norm U by (auto simp: algebra_simps)
qed

lemma unit_borrow:
  fixes s t m n U :: u64
  assumes U: "sint U = u" "0 < u" "u \<le> 2 ^ 32"
    and norm: "0 \<le> sint m" "sint m < u" "0 \<le> sint n" "sint n < u"
    and sec: "\<bar>sint s\<bar> < 2 ^ 62" "\<bar>sint t\<bar> < 2 ^ 62"
  shows "if sint (m - n) < 0
    then sint (s - t - 1) * u + sint (m - n + U) = (sint s * u + sint m) - (sint t * u + sint n) \<and>
      0 \<le> sint (m - n + U) \<and> sint (m - n + U) < u
    else sint (s - t) * u + sint (m - n) = (sint s * u + sint m) - (sint t * u + sint n) \<and>
      0 \<le> sint (m - n) \<and> sint (m - n) < u"
proof -
  have mn: "sint (m - n) = sint m - sint n" by (rule sint_exact) (use norm U in simp_all)
  have mnU: "sint (m - n + U) = sint m - sint n + u"
    using sint_exact(1) [of "m - n" U] mn norm U by simp
  have st: "sint (s - t) = sint s - sint t" by (rule sint_exact) (use sec in simp_all)
  have st1: "sint (s - t - 1) = sint s - sint t - 1"
    using sint_exact(2) [of "s - t" 1] st sec by simp
  show ?thesis unfolding mn mnU st st1 using norm U by (auto simp: algebra_simps)
qed

section \<open>Claims\<close>

text \<open>Binary time arithmetic is exact.  In units of \<open>2 ^ -64\<close> seconds, \<open>bintime_add\<close>,
  \<open>bintime_addx\<close> and \<open>bintime_mul\<close> give the sum and the product modulo \<open>2 ^ 128\<close>, the carry from the
  fraction into the seconds included, and \<open>bintime_sub\<close> undoes \<open>bintime_add\<close>.  The product in two 32-bit halves
  loses nothing.\<close>

lemma bintime_exact:
  "bt_value (bintime_add a b) = (bt_value a + bt_value b) mod 2 ^ 128 \<and>
   bt_value (bintime_addx x a) = (bt_value a + unat x) mod 2 ^ 128 \<and>
   bt_value (bintime_mul a k) = (bt_value a * unat k) mod 2 ^ 128 \<and>
   bintime_add (bintime_sub a b) b = a \<and> bintime_sub (bintime_add a b) b = a"
proof (intro conjI)
  show "bintime_sub (bintime_add a b) b = a"
    by (cases a) (simp add: bintime_add_def bintime_sub_def Let_def)
qed (rule bintime_add_value bintime_addx_value bintime_mul_value bintime_add_sub)+

lemma ts_normal_range: "ts_normal ts \<longleftrightarrow> 0 \<le> sint (ts_nsec ts) \<and> sint (ts_nsec ts) < 1000000000"
  unfolding ts_normal_def using unit_range [of 1000000000 "ts_nsec ts"] by simp

lemma tv_normal_range: "tv_normal tv \<longleftrightarrow> 0 \<le> sint (tv_usec tv) \<and> sint (tv_usec tv) < 1000000"
  unfolding tv_normal_def using unit_range [of 1000000 "tv_usec tv"] by simp

lemma timespec_through_bintime:
  assumes "ts_normal ts"
  shows "unat (ts_nsec (bintime2timespec (timespec2bintime ts))) =
    1000000000 * (unat (ts_nsec ts) * 18446744073 div 2 ^ 32) div 2 ^ 32"
proof -
  have "unat (ts_nsec ts) * 18446744073 < 2 ^ 64" using assms by (simp add: ts_normal_def)
  then have "unat (ts_nsec ts * 18446744073) = unat (ts_nsec ts) * 18446744073" by (simp add: unat_word_ariths)
  then show ?thesis
    using bintime_units [of 1000000000 "ts_nsec ts * 18446744073"]
    by (simp add: bintime2timespec_def timespec2bintime_def)
qed

lemma timeval_through_bintime:
  assumes "tv_normal tv"
  shows "unat (tv_usec (bintime2timeval (timeval2bintime tv))) =
    1000000 * (unat (tv_usec tv) * 18446744073709 div 2 ^ 32) div 2 ^ 32"
proof -
  have "unat (tv_usec tv) * 18446744073709 < 2 ^ 64" using assms by (simp add: tv_normal_def)
  then have "unat (tv_usec tv * 18446744073709) = unat (tv_usec tv) * 18446744073709" by (simp add: unat_word_ariths)
  then show ?thesis
    using bintime_units [of 1000000 "tv_usec tv * 18446744073709"]
    by (simp add: bintime2timeval_def timeval2bintime_def)
qed

text \<open>Converting a normalised time to a binary time and back keeps the seconds and loses at most
  one nanosecond (one microsecond), and never rounds up; the time that comes back is normalised.\<close>

lemma time_through_bintime:
  assumes "ts_normal ts" and "tv_normal tv"
  shows "ts_sec (bintime2timespec (timespec2bintime ts)) = ts_sec ts \<and>
    unat (ts_nsec (bintime2timespec (timespec2bintime ts))) \<le> unat (ts_nsec ts) \<and>
    unat (ts_nsec ts) \<le> unat (ts_nsec (bintime2timespec (timespec2bintime ts))) + 1 \<and>
    tv_sec (bintime2timeval (timeval2bintime tv)) = tv_sec tv \<and>
    unat (tv_usec (bintime2timeval (timeval2bintime tv))) \<le> unat (tv_usec tv) \<and>
    unat (tv_usec tv) \<le> unat (tv_usec (bintime2timeval (timeval2bintime tv))) + 1 \<and>
    ts_normal (bintime2timespec (timespec2bintime ts)) \<and> tv_normal (bintime2timeval (timeval2bintime tv))"
proof -
  have ns: "unat (ts_nsec ts) < 1000000000" and us: "unat (tv_usec tv) < 1000000"
    using assms by (simp_all add: ts_normal_def tv_normal_def)
  note ts = nsec_roundtrip [OF ns, folded timespec_through_bintime [OF assms(1)]]
  note tv = usec_roundtrip [OF us, folded timeval_through_bintime [OF assms(2)]]
  have "ts_normal (bintime2timespec (timespec2bintime ts))" "tv_normal (bintime2timeval (timeval2bintime tv))"
    unfolding ts_normal_def tv_normal_def using ts(1) ns tv(1) us by linarith+
  moreover have "ts_sec (bintime2timespec (timespec2bintime ts)) = ts_sec ts"
    "tv_sec (bintime2timeval (timeval2bintime tv)) = tv_sec tv"
    by (simp_all add: bintime2timespec_def timespec2bintime_def bintime2timeval_def timeval2bintime_def)
  ultimately show ?thesis using ts tv by blast
qed

lemma time_through_bintime_witness:
  "unat (ts_nsec (bintime2timespec (timespec2bintime \<lparr>ts_sec = 7, ts_nsec = 999999999\<rparr>))) \<le> 999999999 \<and>
   999999999 \<le> unat (ts_nsec (bintime2timespec (timespec2bintime \<lparr>ts_sec = 7, ts_nsec = 999999999\<rparr>))) + 1"
  using time_through_bintime [of "\<lparr>ts_sec = 7, ts_nsec = 999999999\<rparr>" "\<lparr>tv_sec = 7, tv_usec = 999999\<rparr>"]
  by (simp add: ts_normal_def tv_normal_def)

lemma timespecadd_exact:
  assumes "ts_normal a" "ts_normal b" "\<bar>sint (ts_sec a)\<bar> < 2 ^ 62" "\<bar>sint (ts_sec b)\<bar> < 2 ^ 62"
  shows "ts_normal (timespecadd a b) \<and> ts_value (timespecadd a b) = ts_value a + ts_value b"
  using unit_carry [of 1000000000 1000000000 "ts_nsec a" "ts_nsec b" "ts_sec a" "ts_sec b"] assms
  unfolding ts_normal_range ts_value_def timespecadd_def Let_def by simp

lemma timespecsub_exact:
  assumes "ts_normal a" "ts_normal b" "\<bar>sint (ts_sec a)\<bar> < 2 ^ 62" "\<bar>sint (ts_sec b)\<bar> < 2 ^ 62"
  shows "ts_normal (timespecsub a b) \<and> ts_value (timespecsub a b) = ts_value a - ts_value b"
  using unit_borrow [of 1000000000 1000000000 "ts_nsec a" "ts_nsec b" "ts_sec a" "ts_sec b"] assms
  unfolding ts_normal_range ts_value_def timespecsub_def Let_def by simp

lemma timeradd_exact:
  assumes "tv_normal a" "tv_normal b" "\<bar>sint (tv_sec a)\<bar> < 2 ^ 62" "\<bar>sint (tv_sec b)\<bar> < 2 ^ 62"
  shows "tv_normal (timeradd a b) \<and> tv_value (timeradd a b) = tv_value a + tv_value b"
  using unit_carry [of 1000000 1000000 "tv_usec a" "tv_usec b" "tv_sec a" "tv_sec b"] assms
  unfolding tv_normal_range tv_value_def timeradd_def Let_def by simp

lemma timersub_exact:
  assumes "tv_normal a" "tv_normal b" "\<bar>sint (tv_sec a)\<bar> < 2 ^ 62" "\<bar>sint (tv_sec b)\<bar> < 2 ^ 62"
  shows "tv_normal (timersub a b) \<and> tv_value (timersub a b) = tv_value a - tv_value b"
  using unit_borrow [of 1000000 1000000 "tv_usec a" "tv_usec b" "tv_sec a" "tv_sec b"] assms
  unfolding tv_normal_range tv_value_def timersub_def Let_def by simp

text \<open>The comparison macros order normalised times by their value.\<close>

lemma unit_order:
  fixes s t m n u :: int
  assumes "0 \<le> m" "m < u" "0 \<le> n" "n < u" "s \<noteq> t"
  shows "s * u + m < t * u + n \<longleftrightarrow> s < t"
proof (cases "s < t")
  case True
  then have "(s + 1) * u \<le> t * u" using assms by (intro mult_right_mono) auto
  with True show ?thesis using assms by (simp add: algebra_simps)
next
  case False
  then have "(t + 1) * u \<le> s * u" using assms by (intro mult_right_mono) auto
  with False show ?thesis using assms by (simp add: algebra_simps)
qed

lemma timespeccmp_value:
  assumes "ts_normal a" "ts_normal b"
  shows "timespeccmp a b (<) \<longleftrightarrow> ts_value a < ts_value b"
  using assms unit_order [of "sint (ts_nsec a)" 1000000000 "sint (ts_nsec b)" "sint (ts_sec a)" "sint (ts_sec b)"]
  by (cases "sint (ts_sec a) = sint (ts_sec b)") (auto simp: timespeccmp_def ts_value_def ts_normal_range dest: signed_word_eqI)

lemma timeval_timer: "timevalclear = timerclear" "timevalisset = timerisset" "timevalcmp = timercmp"
  by (intro ext, simp add: timevalclear_def timerclear_def timevalisset_def timerisset_def timevalcmp_def timercmp_def)+

lemma timer_cleared: "timerisset t \<longleftrightarrow> timerclear t \<noteq> t" "\<not> timerisset (timerclear t)"
  by (cases t; auto simp: timerisset_def timerclear_def)+

lemma timercmp_value:
  assumes "tv_normal a" "tv_normal b"
  shows "timercmp a b (<) \<longleftrightarrow> tv_value a < tv_value b"
  using assms unit_order [of "sint (tv_usec a)" 1000000 "sint (tv_usec b)" "sint (tv_sec a)" "sint (tv_sec b)"]
  by (cases "sint (tv_sec a) = sint (tv_sec b)") (auto simp: timercmp_def tv_value_def tv_normal_range dest: signed_word_eqI)

text \<open>On normalised times whose seconds are below \<open>2 ^ 62\<close> in magnitude, \<open>timespecadd\<close>, \<open>timespecsub\<close>,
  \<open>timeradd\<close> and \<open>timersub\<close> give normalised times that are exactly the sum and the difference, and the
  comparison macros order times by their value.\<close>

lemma time_arithmetic:
  assumes "ts_normal a" "ts_normal b" "\<bar>sint (ts_sec a)\<bar> < 2 ^ 62" "\<bar>sint (ts_sec b)\<bar> < 2 ^ 62"
    and "tv_normal p" "tv_normal q" "\<bar>sint (tv_sec p)\<bar> < 2 ^ 62" "\<bar>sint (tv_sec q)\<bar> < 2 ^ 62"
  shows "ts_normal (timespecadd a b) \<and> ts_value (timespecadd a b) = ts_value a + ts_value b \<and>
    ts_normal (timespecsub a b) \<and> ts_value (timespecsub a b) = ts_value a - ts_value b \<and>
    tv_normal (timeradd p q) \<and> tv_value (timeradd p q) = tv_value p + tv_value q \<and>
    tv_normal (timersub p q) \<and> tv_value (timersub p q) = tv_value p - tv_value q \<and>
    (timespeccmp a b (<) \<longleftrightarrow> ts_value a < ts_value b) \<and> (timercmp p q (<) \<longleftrightarrow> tv_value p < tv_value q)"
  using timespecadd_exact [OF assms(1-4)] timespecsub_exact [OF assms(1-4)]
    timeradd_exact [OF assms(5-8)] timersub_exact [OF assms(5-8)]
    timespeccmp_value [OF assms(1,2)] timercmp_value [OF assms(5,6)]
  by blast

lemma time_arithmetic_witness:
  "ts_value (timespecadd \<lparr>ts_sec = 1, ts_nsec = 600000000\<rparr> \<lparr>ts_sec = 2, ts_nsec = 700000000\<rparr>) = 4300000000 \<and>
   tv_value (timersub \<lparr>tv_sec = 1, tv_usec = 5\<rparr> \<lparr>tv_sec = 3, tv_usec = 6\<rparr>) = -2000001"
  using time_arithmetic [of "\<lparr>ts_sec = 1, ts_nsec = 600000000\<rparr>" "\<lparr>ts_sec = 2, ts_nsec = 700000000\<rparr>"
      "\<lparr>tv_sec = 1, tv_usec = 5\<rparr>" "\<lparr>tv_sec = 3, tv_usec = 6\<rparr>"]
  by (simp add: ts_normal_def tv_normal_def ts_value_def tv_value_def)

end
