(* ===== verification/Kern_Lib.thy ===== *)
theory Kern_Lib
  imports Ps4_Prelude
begin

unbundle bit_operations_syntax

text \<open>
  Byte order (\<open>include/machine/endian.h\<close>) and the small library of the kernel
  (\<open>include/sys/libkern.h\<close>): minimum, maximum, absolute value, the table-driven CRC-32.  The table
  \<open>crc32_tab\<close> is only declared there and is an argument.

  Shown: the byte swaps for constants are the \<open>bswap\<close> instruction, reverse the bytes and undo
  themselves; the table-driven CRC is the bit-by-bit CRC when the table is the CRC-32 table;
  minimum, maximum and absolute value at their widths, the one overflow included.
\<close>

section \<open>Byte order\<close>

definition bswap64_const :: "u64 \<Rightarrow> u64" where
  "bswap64_const x = drop_bit 56 x OR (drop_bit 40 x AND push_bit 8 0xff) OR (drop_bit 24 x AND push_bit 16 0xff) OR
     (drop_bit 8 x AND push_bit 24 0xff) OR (push_bit 8 x AND push_bit 32 0xff) OR (push_bit 24 x AND push_bit 40 0xff) OR
     (push_bit 40 x AND push_bit 48 0xff) OR push_bit 56 x"

definition bswap32_const :: "u32 \<Rightarrow> u32" where
  "bswap32_const x = drop_bit 24 x OR drop_bit 8 (x AND push_bit 16 0xff) OR push_bit 8 (x AND push_bit 8 0xff) OR push_bit 24 x"

text \<open>The operand is promoted to \<open>int\<close> before it is shifted, and the result is cut to 16 bits.\<close>

definition bswap16_const :: "u16 \<Rightarrow> u16" where
  "bswap16_const x = ucast (push_bit 8 (ucast x :: u32) OR drop_bit 8 (ucast x :: u32))"

text \<open>The \<open>bswap\<close> instruction reverses the bytes of its operand.\<close>

definition bswap64_var :: "u64 \<Rightarrow> u64" where
  "bswap64_var x = word_of_bytes (rev (bytes_of_word 8 x))"

definition bswap32_var :: "u32 \<Rightarrow> u32" where
  "bswap32_var x = word_of_bytes (rev (bytes_of_word 4 x))"

definition bswap16_var :: "u16 \<Rightarrow> u16" where
  "bswap16_var x = bswap16_const x"

text \<open>\<open>constant\<close> is what \<open>__builtin_constant_p\<close> says of the argument.\<close>

definition bswap64 :: "bool \<Rightarrow> u64 \<Rightarrow> u64" where
  "bswap64 constant x = (if constant then bswap64_const x else bswap64_var x)"

definition bswap32 :: "bool \<Rightarrow> u32 \<Rightarrow> u32" where
  "bswap32 constant x = (if constant then bswap32_const x else bswap32_var x)"

definition bswap16 :: "bool \<Rightarrow> u16 \<Rightarrow> u16" where
  "bswap16 constant x = (if constant then bswap16_const x else bswap16_var x)"

section \<open>Minimum, maximum, absolute value\<close>

definition imax :: "u32 \<Rightarrow> u32 \<Rightarrow> u32" where "imax a b = (if sint a > sint b then a else b)"
definition imin :: "u32 \<Rightarrow> u32 \<Rightarrow> u32" where "imin a b = (if sint a < sint b then a else b)"
definition lmax :: "u64 \<Rightarrow> u64 \<Rightarrow> u64" where "lmax a b = (if sint a > sint b then a else b)"
definition lmin :: "u64 \<Rightarrow> u64 \<Rightarrow> u64" where "lmin a b = (if sint a < sint b then a else b)"
definition kmax :: "u32 \<Rightarrow> u32 \<Rightarrow> u32" where "kmax a b = (if a > b then a else b)"
definition kmin :: "u32 \<Rightarrow> u32 \<Rightarrow> u32" where "kmin a b = (if a < b then a else b)"
definition qmax :: "u64 \<Rightarrow> u64 \<Rightarrow> u64" where "qmax a b = (if sint a > sint b then a else b)"
definition qmin :: "u64 \<Rightarrow> u64 \<Rightarrow> u64" where "qmin a b = (if sint a < sint b then a else b)"
definition ulmax :: "u64 \<Rightarrow> u64 \<Rightarrow> u64" where "ulmax a b = (if a > b then a else b)"
definition ulmin :: "u64 \<Rightarrow> u64 \<Rightarrow> u64" where "ulmin a b = (if a < b then a else b)"
definition omax :: "u64 \<Rightarrow> u64 \<Rightarrow> u64" where "omax a b = (if sint a > sint b then a else b)"
definition omin :: "u64 \<Rightarrow> u64 \<Rightarrow> u64" where "omin a b = (if sint a < sint b then a else b)"
definition kabs :: "u32 \<Rightarrow> u32" where "kabs a = (if sint a < 0 then - a else a)"
definition labs :: "u64 \<Rightarrow> u64" where "labs a = (if sint a < 0 then - a else a)"
definition qabs :: "u64 \<Rightarrow> u64" where "qabs a = (if sint a < 0 then - a else a)"

section \<open>CRC-32\<close>

function crc32_raw :: "(nat \<Rightarrow> u32) \<Rightarrow> memory \<Rightarrow> ptr \<Rightarrow> u64 \<Rightarrow> u32 \<Rightarrow> u32 option" where
  "crc32_raw crc32_tab m p n crc =
     (if n = 0 then Some crc else do {
        c \<leftarrow> load8 m p;
        crc32_raw crc32_tab m (p + 1) (n - 1)
          (crc32_tab (unat ((crc XOR ucast c) AND 0xFF)) XOR drop_bit 8 crc) })"
  by auto
termination
  by (relation "measure (\<lambda>(t, m, p, n, c). unat n)") (auto simp: measure_unat)

definition crc32 :: "(nat \<Rightarrow> u32) \<Rightarrow> memory \<Rightarrow> ptr \<Rightarrow> u64 \<Rightarrow> u32 option" where
  "crc32 crc32_tab m buf n = map_option (\<lambda>crc. crc XOR NOT 0) (crc32_raw crc32_tab m buf n (NOT 0))"

section \<open>Byte swaps reverse bytes\<close>

lemma bit_rev_bytes:
  assumes "LENGTH('a::len) = 8 * k" "n < 8 * k"
  shows "bit (word_of_bytes (rev (bytes_of_word k (x :: 'a word))) :: 'a word) n \<longleftrightarrow> bit x (8 * (k - 1 - n div 8) + n mod 8)"
proof -
  have d: "n div 8 < k" using assms(2) by (simp add: less_mult_imp_div_less)
  then have "rev (bytes_of_word k x) ! (n div 8) = bytes_of_word k x ! (k - 1 - n div 8)" by (simp add: rev_nth)
  also have "\<dots> = ucast (drop_bit (8 * (k - 1 - n div 8)) x)" using d by (intro nth_bytes_of_word) simp
  finally show ?thesis using assms
    by (simp add: bit_word_of_bytes bit_ucast_iff bit_drop_bit_eq)
qed

lemma byte_mask64: "bit (push_bit k 0xff :: u64) n \<longleftrightarrow> k \<le> n \<and> n < k + 8 \<and> n < 64"
proof -
  have "(0xff :: u64) = mask 8" by (simp add: mask_eq_exp_minus_1)
  then show ?thesis by (simp only: bit_push_bit_iff bit_mask_iff) auto
qed

lemma byte_mask32: "bit (push_bit k 0xff :: u32) n \<longleftrightarrow> k \<le> n \<and> n < k + 8 \<and> n < 32"
proof -
  have "(0xff :: u32) = mask 8" by (simp add: mask_eq_exp_minus_1)
  then show ?thesis by (simp only: bit_push_bit_iff bit_mask_iff) auto
qed

lemma bswap64_bits:
  assumes "n < 64"
  shows "bit (bswap64_const x) n \<longleftrightarrow> bit x (8 * (7 - n div 8) + n mod 8)"
proof -
  define q r where "q = n div 8" and "r = n mod 8"
  have n: "n = 8 * q + r" "r < 8" by (simp_all add: q_def r_def)
  have "q < 8" using assms by (simp add: q_def less_mult_imp_div_less)
  then have q: "q \<in> {0, 1, 2, 3, 4, 5, 6, 7}" by auto
  have "bit (bswap64_const x) (8 * q + r) \<longleftrightarrow> bit x (8 * (7 - q) + r)"
    unfolding bswap64_const_def bit_or_iff bit_and_iff byte_mask64
    using q n(2) by (elim insertE emptyE) (auto simp: bit_push_bit_iff bit_drop_bit_eq dest: bit_imp_le_length)
  then show ?thesis by (simp add: n(1) [symmetric] q_def r_def)
qed

lemma bswap32_bits:
  assumes "n < 32"
  shows "bit (bswap32_const x) n \<longleftrightarrow> bit x (8 * (3 - n div 8) + n mod 8)"
proof -
  define q r where "q = n div 8" and "r = n mod 8"
  have n: "n = 8 * q + r" "r < 8" by (simp_all add: q_def r_def)
  have "q < 4" using assms by (simp add: q_def less_mult_imp_div_less)
  then have q: "q \<in> {0, 1, 2, 3}" by auto
  have up: "bit (push_bit 8 (x AND push_bit 8 0xff)) i \<longleftrightarrow> 16 \<le> i \<and> i < 24 \<and> bit x (i - 8)" for i
    by (simp only: bit_push_bit_iff [of 8 "x AND _"] bit_and_iff byte_mask32) auto
  have "bit (bswap32_const x) (8 * q + r) \<longleftrightarrow> bit x (8 * (3 - q) + r)"
    unfolding bswap32_const_def bit_or_iff bit_drop_bit_eq o_def up byte_mask32 bit_and_iff
    using q n(2) by (elim insertE emptyE) (auto simp: bit_push_bit_iff dest: bit_imp_le_length)
  then show ?thesis by (simp add: n(1) [symmetric] q_def r_def)
qed

lemma bswap16_bits:
  assumes "n < 16"
  shows "bit (bswap16_const x) n \<longleftrightarrow> bit x (8 * (1 - n div 8) + n mod 8)"
proof -
  define q r where "q = n div 8" and "r = n mod 8"
  have n: "n = 8 * q + r" "r < 8" by (simp_all add: q_def r_def)
  have "q < 2" using assms by (simp add: q_def less_mult_imp_div_less)
  then have q: "q \<in> {0, 1}" by auto
  have "bit (bswap16_const x) (8 * q + r) \<longleftrightarrow> bit x (8 * (1 - q) + r)"
    unfolding bswap16_const_def
    using q n(2) by (elim insertE emptyE)
      (auto simp: bit_ucast_iff bit_or_iff bit_push_bit_iff bit_drop_bit_eq dest: bit_imp_le_length)
  then show ?thesis by (simp add: n(1) [symmetric] q_def r_def)
qed

lemma bytes_rev_twice:
  assumes "LENGTH('a::len) = 8 * k"
  shows "word_of_bytes (rev (bytes_of_word k (word_of_bytes (rev (bytes_of_word k x)) :: 'a word))) = (x :: 'a word)"
proof -
  have "bytes_of_word k (word_of_bytes (rev (bytes_of_word k x)) :: 'a word) = rev (bytes_of_word k x)"
    using bytes_of_word_of_bytes [of "rev (bytes_of_word k x)", where 'a = 'a] assms by simp
  moreover have "take_bit (8 * k) x = x" by (metis assms take_bit_length_eq)
  ultimately show ?thesis by (simp add: word_of_bytes_of_word)
qed

section \<open>The bit-by-bit CRC\<close>

definition crc_step :: "u32 \<Rightarrow> u32" where
  "crc_step c = drop_bit 1 c XOR (if bit c 0 then 0xEDB88320 else 0)"

definition crc_byte :: "u32 \<Rightarrow> u8 \<Rightarrow> u32" where
  "crc_byte crc c = (crc_step ^^ 8) (crc XOR ucast c)"

definition crc_table :: "(nat \<Rightarrow> u32) \<Rightarrow> bool" where
  "crc_table crc32_tab \<longleftrightarrow> (\<forall>i < 256. crc32_tab i = (crc_step ^^ 8) (of_nat i))"

lemma crc_step_xor: "crc_step (x XOR y) = crc_step x XOR crc_step y"
  by (simp add: crc_step_def drop_bit_xor bit_xor_iff ac_simps)

lemma crc_steps_xor: "(crc_step ^^ k) (x XOR y) = (crc_step ^^ k) x XOR (crc_step ^^ k) y"
  by (induction k) (simp_all add: crc_step_xor)

lemma crc_steps_low: "(\<And>i. i < k \<Longrightarrow> \<not> bit c i) \<Longrightarrow> (crc_step ^^ k) c = drop_bit k c"
proof (induction k)
  case (Suc k)
  then have "(crc_step ^^ k) c = drop_bit k c" by simp
  moreover have "\<not> bit (drop_bit k c) 0" using Suc.prems [of k] by (simp add: bit_drop_bit_eq)
  then have "crc_step (drop_bit k c) = drop_bit (Suc k) c" by (simp add: crc_step_def drop_bit_drop_bit)
  ultimately show ?case by simp
qed simp

lemma crc_table_byte:
  assumes "crc_table crc32_tab"
  shows "crc32_tab (unat ((crc XOR ucast c) AND 0xFF)) XOR drop_bit 8 crc = crc_byte crc c"
proof -
  let ?x = "crc XOR ucast (c :: u8)"
  have m: "(0xFF :: u32) = mask 8" by (simp add: mask_eq_exp_minus_1)
  have split: "?x = (?x AND mask 8) XOR (?x AND NOT (mask 8))"
    by (rule bit_eqI) (auto simp: bit_xor_iff bit_and_iff bit_not_iff)
  have "(crc_step ^^ 8) (?x AND NOT (mask 8)) = drop_bit 8 (?x AND NOT (mask 8))"
    by (rule crc_steps_low) (simp add: bit_and_iff bit_not_iff bit_mask_iff)
  also have "\<dots> = drop_bit 8 crc"
    by (rule bit_eqI) (auto simp: bit_drop_bit_eq bit_and_iff bit_not_iff bit_mask_iff bit_xor_iff bit_ucast_iff
        dest: bit_imp_le_length)
  finally have high: "(crc_step ^^ 8) (?x AND NOT (mask 8)) = drop_bit 8 crc" .
  have "unat (?x AND mask 8) < 256" by (simp add: take_bit_eq_mod unat_mod flip: take_bit_eq_mask)
  then have low: "crc32_tab (unat (?x AND mask 8)) = (crc_step ^^ 8) (?x AND mask 8)"
    using assms by (simp add: crc_table_def)
  have "crc_byte crc c = (crc_step ^^ 8) ((?x AND mask 8) XOR (?x AND NOT (mask 8)))"
    unfolding crc_byte_def by (subst split) (rule refl)
  then show ?thesis unfolding m crc_steps_xor high low by simp
qed

lemma crc32_raw_bytes:
  assumes "crc_table crc32_tab"
  shows "holds_bytes m p bs \<Longrightarrow> length bs < 2 ^ 64 \<Longrightarrow>
    crc32_raw crc32_tab m p (of_nat (length bs)) crc = Some (foldl crc_byte crc bs)"
proof (induction bs arbitrary: p crc)
  case Nil
  then show ?case by simp
next
  case (Cons b bs)
  have "unat (of_nat (length (b # bs)) :: u64) = length (b # bs)"
    using Cons.prems(2) by (subst unat_of_nat) simp
  then have "(of_nat (length (b # bs)) :: u64) \<noteq> 0" by (metis length_0_conv list.discI unat_0)
  then show ?case using Cons.IH [of "p + 1"] Cons.prems
    by (subst crc32_raw.simps) (simp add: holds_bytes_Cons crc_table_byte [OF assms] load8_def)
qed

section \<open>Minimum, maximum and absolute value as integers\<close>

lemma minmax_values:
  "sint (imax i j) = max (sint i) (sint j)" "sint (imin i j) = min (sint i) (sint j)"
  "sint (lmax a b) = max (sint a) (sint b)" "sint (lmin a b) = min (sint a) (sint b)"
  "unat (kmax i j) = max (unat i) (unat j)" "unat (kmin i j) = min (unat i) (unat j)"
  "sint (qmax a b) = max (sint a) (sint b)" "sint (qmin a b) = min (sint a) (sint b)"
  "unat (ulmax a b) = max (unat a) (unat b)" "unat (ulmin a b) = min (unat a) (unat b)"
  "sint (omax a b) = max (sint a) (sint b)" "sint (omin a b) = min (sint a) (sint b)"
  by (simp_all add: imax_def imin_def lmax_def lmin_def kmax_def kmin_def qmax_def qmin_def ulmax_def ulmin_def
      omax_def omin_def word_less_nat_alt)

text \<open>The absolute value of the least number is that number again.\<close>

lemma kabs_value: "sint i \<noteq> - (2 ^ 31) \<Longrightarrow> sint (kabs i) = \<bar>sint i\<bar>"
  using sint_lt [of i] sint_ge [of i] by (simp add: kabs_def sint_word_ariths signed_take_bit_int_eq_self)

lemma labs_value: "sint a \<noteq> - (2 ^ 63) \<Longrightarrow> sint (labs a) = \<bar>sint a\<bar>" "qabs a = labs a"
  using sint_lt [of a] sint_ge [of a] by (simp_all add: labs_def qabs_def sint_word_ariths signed_take_bit_int_eq_self)

lemma kabs_least: "kabs (- (2 ^ 31)) = - (2 ^ 31)"
  by (simp add: kabs_def)

section \<open>Claims\<close>

text \<open>The table-driven CRC-32 over a buffer is the bit-by-bit CRC with the reflected polynomial
  \<open>0xEDB88320\<close>, started at all ones and complemented at the end, whenever the table holds the
  remainders of the 256 bytes; the loop ends for every size.\<close>

lemma crc32_bitwise:
  assumes "crc_table crc32_tab" "holds_bytes m buf bs" "length bs < 2 ^ 64"
  shows "crc32 crc32_tab m buf (of_nat (length bs)) = Some (NOT (foldl crc_byte (NOT 0) bs))"
  using crc32_raw_bytes [OF assms, of "NOT 0"] by (simp add: crc32_def)

text \<open>The byte swaps that the compiler evaluates for constants agree with the instruction used
  otherwise, reverse the order of the bytes, and applied twice give the argument back, at 16, 32 and 64 bits.\<close>

lemma bswap_equivalence:
  "bswap64 c x = word_of_bytes (rev (bytes_of_word 8 x)) \<and> bswap64 c (bswap64 d x) = x \<and>
   bswap32 c y = word_of_bytes (rev (bytes_of_word 4 y)) \<and> bswap32 c (bswap32 d y) = y \<and>
   bswap16 c z = word_of_bytes (rev (bytes_of_word 2 z)) \<and> bswap16 c (bswap16 d z) = z"
proof -
  have "bswap64_const x = bswap64_var x" for x
    unfolding bswap64_var_def by (rule bit_word_eqI) (simp add: bswap64_bits bit_rev_bytes [where k = 8])
  then have b64: "bswap64 c x = word_of_bytes (rev (bytes_of_word 8 x))" for c x by (simp add: bswap64_def bswap64_var_def)
  have "bswap32_const x = bswap32_var x" for x
    unfolding bswap32_var_def by (rule bit_word_eqI) (simp add: bswap32_bits bit_rev_bytes [where k = 4])
  then have b32: "bswap32 c x = word_of_bytes (rev (bytes_of_word 4 x))" for c x by (simp add: bswap32_def bswap32_var_def)
  have "bswap16_const x = word_of_bytes (rev (bytes_of_word 2 x))" for x
    by (rule bit_word_eqI) (simp add: bswap16_bits bit_rev_bytes [where k = 2])
  then have b16: "bswap16 c x = word_of_bytes (rev (bytes_of_word 2 x))" for c x by (simp add: bswap16_def bswap16_var_def)
  show ?thesis unfolding b64 b32 b16 by (simp add: bytes_rev_twice)
qed

section \<open>Witnesses\<close>

text \<open>The CRC-32 of a zero byte.\<close>

lemma crc32_bitwise_witness:
  "crc32 (\<lambda>i. (crc_step ^^ 8) (of_nat i)) (\<lambda>p. if p = 0x1000 then Some 0 else None) 0x1000 1 = Some 0xD202EF8D"
proof -
  have "crc_table (\<lambda>i. (crc_step ^^ 8) (of_nat i))" by (simp add: crc_table_def)
  moreover have "holds_bytes (\<lambda>p. if p = 0x1000 then Some 0 else None) 0x1000 [0]"
    by (simp add: holds_bytes_iff)
  ultimately have "crc32 (\<lambda>i. (crc_step ^^ 8) (of_nat i)) (\<lambda>p. if p = 0x1000 then Some 0 else None) 0x1000 (of_nat (length [0 :: u8])) =
      Some (NOT (foldl crc_byte (NOT 0) [0]))"
    by (rule crc32_bitwise) simp
  moreover have "NOT (foldl crc_byte (NOT 0) [0]) = 0xD202EF8D" by code_simp
  ultimately show ?thesis by simp
qed

end
