(* ===== verification/Ring_Multi.thy ===== *)
theory Ring_Multi
  imports Buf_Ring
begin

text \<open>
  The ring of \<open>include/sys/buf_ring.h\<close> under any number of producers and consumers: every thread
  runs \<open>buf_ring_enqueue_bytes\<close> or \<open>buf_ring_dequeue_mc\<close> one access to a shared field at a time.  The
  compare-and-set cannot tell a head that did not move from one that went around the ring
  (\<open>buf_ring_overrun\<close>), so the runs considered here are those in which no thread is overtaken: when
  a compare-and-set finds the head it read, the head has not moved since.  In all of them the
  ring is a bounded first-in first-out queue.

  Auxiliary fields record what happened and do not influence a step: the number of elements claimed
  when a thread last read its head (its ticket), the elements claimed, published and returned.
\<close>

declare enq_step_cons [simp del] deq_step_prod [simp del]

section \<open>Threads and steps\<close>

record mpmc =
  mp_ring :: buf_ring
  mp_arg :: "nat \<Rightarrow> ptr \<times> u32"
  mp_enq :: "nat \<Rightarrow> enq_pc"
  mp_deq :: "nat \<Rightarrow> deq_pc"
  mp_ptick :: "nat \<Rightarrow> nat"
  mp_ctick :: "nat \<Rightarrow> nat"
  mp_claimed :: "ptr list"
  mp_in :: "ptr list"
  mp_taken :: nat
  mp_out :: "ptr list"

datatype ring_thread = Producer nat | Consumer nat

fun claimed_by :: "enq_pc \<Rightarrow> enq_pc \<Rightarrow> ptr \<Rightarrow> ptr list" where
  "claimed_by (EnqCas h n) (EnqStore h' n') buf = [buf]"
| "claimed_by _ _ buf = []"

fun taken_by :: "deq_pc \<Rightarrow> deq_pc \<Rightarrow> nat" where
  "taken_by (McCas h n) (McRead h' n') = 1"
| "taken_by _ _ = 0"

text \<open>A thread has moved: its new program point, the ring, and what the move adds to the record.\<close>

definition enq_moved :: "nat \<Rightarrow> enq_pc \<Rightarrow> buf_ring \<Rightarrow> mpmc \<Rightarrow> mpmc" where
  "enq_moved i pc br s =
      s\<lparr>mp_enq := (mp_enq s)(i := pc), mp_ring := br,
         mp_ptick := (mp_ptick s)(i := if mp_enq s i = EnqHead then length (mp_claimed s) else mp_ptick s i),
         mp_claimed := mp_claimed s @ claimed_by (mp_enq s i) pc (fst (mp_arg s i)),
         mp_in := mp_in s @ published (mp_enq s i) (fst (mp_arg s i))\<rparr>"

definition deq_moved :: "nat \<Rightarrow> deq_pc \<Rightarrow> buf_ring \<Rightarrow> mpmc \<Rightarrow> mpmc" where
  "deq_moved i pc br s =
      s\<lparr>mp_deq := (mp_deq s)(i := pc), mp_ring := br,
         mp_ctick := (mp_ctick s)(i := if mp_deq s i = McHead then mp_taken s else mp_ctick s i),
         mp_taken := mp_taken s + taken_by (mp_deq s i) pc,
         mp_out := mp_out s @ returned (mp_deq s i)\<rparr>"

inductive mpmc_step :: "ring_thread \<Rightarrow> mpmc \<Rightarrow> mpmc \<Rightarrow> bool" where
  enq_call: "mp_enq s i = EnqRet r \<Longrightarrow>
    mpmc_step (Producer i) s (s\<lparr>mp_arg := (mp_arg s)(i := (buf, nbytes)), mp_enq := (mp_enq s)(i := EnqHead)\<rparr>)"
| enq: "enq_step (fst (mp_arg s i)) (snd (mp_arg s i)) (mp_enq s i) (mp_ring s) = (pc, br) \<Longrightarrow>
    mpmc_step (Producer i) s (enq_moved i pc br s)"
| deq_call: "mp_deq s i = DeqRet r \<Longrightarrow> mpmc_step (Consumer i) s (s\<lparr>mp_deq := (mp_deq s)(i := McHead)\<rparr>)"
| deq: "deq_step (mp_deq s i) (mp_ring s) = (pc, br) \<Longrightarrow>
    mpmc_step (Consumer i) s (deq_moved i pc br s)"

text \<open>The head is the one the thread read, but it went around the ring since.\<close>

fun overtaken :: "ring_thread \<Rightarrow> mpmc \<Rightarrow> bool" where
  "overtaken (Producer i) s \<longleftrightarrow>
     (case mp_enq s i of EnqCas h n \<Rightarrow> br_prod_head (mp_ring s) = h \<and> length (mp_claimed s) \<noteq> mp_ptick s i
      | _ \<Rightarrow> False)"
| "overtaken (Consumer i) s \<longleftrightarrow>
     (case mp_deq s i of McCas h n \<Rightarrow> br_cons_head (mp_ring s) = h \<and> mp_taken s \<noteq> mp_ctick s i
      | _ \<Rightarrow> False)"

definition mpmc_start :: "nat \<Rightarrow> mpmc \<Rightarrow> bool" where
  "mpmc_start b s \<longleftrightarrow> ring_at b (mp_ring s) 0 [] \<and> (\<forall>i. mp_enq s i = EnqRet 0 \<and> mp_deq s i = DeqRet NULL) \<and>
     mp_claimed s = [] \<and> mp_in s = [] \<and> mp_taken s = 0 \<and> mp_out s = []"

inductive mpmc_reachable :: "nat \<Rightarrow> mpmc \<Rightarrow> bool" for b where
  start: "mpmc_start b s \<Longrightarrow> mpmc_reachable b s"
| step: "mpmc_reachable b s \<Longrightarrow> \<not> overtaken t s \<Longrightarrow> mpmc_step t s s' \<Longrightarrow> mpmc_reachable b s'"

section \<open>The invariant\<close>

text \<open>The shared fields, for the elements \<open>xs\<close> claimed, of which \<open>p\<close> are published, \<open>c\<close> taken and
  \<open>d\<close> returned.\<close>

definition ring_window :: "nat \<Rightarrow> ptr list \<Rightarrow> nat \<Rightarrow> nat \<Rightarrow> nat \<Rightarrow> buf_ring \<Rightarrow> bool" where
  "ring_window b xs p c d br \<longleftrightarrow> ring_shape b br \<and> d \<le> c \<and> c \<le> p \<and> p \<le> length xs \<and> length xs < d + 2 ^ b \<and>
     br_prod_head br = slot b (length xs) \<and> br_prod_tail br = slot b p \<and>
     br_cons_head br = slot b c \<and> br_cons_tail br = slot b d \<and>
     (\<forall>k. d \<le> k \<and> k < p \<longrightarrow> br_ring br (slot b k) = xs ! k)"

text \<open>What a producer with ticket \<open>g\<close> and a consumer with ticket \<open>g\<close> know at each point.\<close>

definition claim_held :: "nat \<Rightarrow> ptr list \<Rightarrow> nat \<Rightarrow> nat \<Rightarrow> ptr \<Rightarrow> u32 \<Rightarrow> u32 \<Rightarrow> bool" where
  "claim_held b xs p g buf h n \<longleftrightarrow> h = slot b g \<and> n = slot b (Suc g) \<and> p \<le> g \<and> g < length xs \<and> xs ! g = buf"

fun enq_at :: "nat \<Rightarrow> ptr list \<Rightarrow> nat \<Rightarrow> nat \<Rightarrow> nat \<Rightarrow> ptr \<Rightarrow> (u32 \<Rightarrow> ptr) \<Rightarrow> enq_pc \<Rightarrow> bool" where
  "enq_at b xs p d g buf r EnqHead \<longleftrightarrow> True"
| "enq_at b xs p d g buf r (EnqTail h) \<longleftrightarrow> h = slot b g \<and> g \<le> length xs"
| "enq_at b xs p d g buf r (EnqCas h n) \<longleftrightarrow> h = slot b g \<and> n = slot b (Suc g) \<and> Suc g < d + 2 ^ b"
| "enq_at b xs p d g buf r (EnqStore h n) \<longleftrightarrow> claim_held b xs p g buf h n"
| "enq_at b xs p d g buf r (EnqWait h n) \<longleftrightarrow> claim_held b xs p g buf h n \<and> r h = buf"
| "enq_at b xs p d g buf r (EnqBufs h n) \<longleftrightarrow> claim_held b xs p g buf h n \<and> r h = buf \<and> g = p"
| "enq_at b xs p d g buf r (EnqBytes h n) \<longleftrightarrow> claim_held b xs p g buf h n \<and> r h = buf \<and> g = p"
| "enq_at b xs p d g buf r (EnqPublish h n) \<longleftrightarrow> claim_held b xs p g buf h n \<and> r h = buf \<and> g = p"
| "enq_at b xs p d g buf r (EnqRet v) \<longleftrightarrow> True"

fun deq_at :: "nat \<Rightarrow> ptr list \<Rightarrow> nat \<Rightarrow> nat \<Rightarrow> nat \<Rightarrow> nat \<Rightarrow> deq_pc \<Rightarrow> bool" where
  "deq_at b xs p c d g McHead \<longleftrightarrow> True"
| "deq_at b xs p c d g (McTail h) \<longleftrightarrow> h = slot b g \<and> g \<le> c"
| "deq_at b xs p c d g (McCas h n) \<longleftrightarrow> h = slot b g \<and> n = slot b (Suc g) \<and> g < p"
| "deq_at b xs p c d g (McRead h n) \<longleftrightarrow> h = slot b g \<and> n = slot b (Suc g) \<and> d \<le> g \<and> g < c"
| "deq_at b xs p c d g (McWait h n buf) \<longleftrightarrow>
     h = slot b g \<and> n = slot b (Suc g) \<and> d \<le> g \<and> g < c \<and> buf = xs ! g"
| "deq_at b xs p c d g (McPublish n buf) \<longleftrightarrow> n = slot b (Suc g) \<and> g = d \<and> d < c \<and> buf = xs ! g"
| "deq_at b xs p c d g (DeqRet v) \<longleftrightarrow> True"
| "deq_at b xs p c d g _ \<longleftrightarrow> False"

text \<open>The threads between their compare-and-set and their return hold different tickets, one for every
  element in progress.\<close>

fun enq_holds :: "enq_pc \<Rightarrow> bool" where
  "enq_holds (EnqStore h n) = True" | "enq_holds (EnqWait h n) = True" | "enq_holds (EnqBufs h n) = True"
| "enq_holds (EnqBytes h n) = True" | "enq_holds (EnqPublish h n) = True" | "enq_holds _ = False"

fun deq_holds :: "deq_pc \<Rightarrow> bool" where
  "deq_holds (McRead h n) = True" | "deq_holds (McWait h n buf) = True" | "deq_holds (McPublish n buf) = True"
| "deq_holds _ = False"

definition tickets_differ :: "(nat \<Rightarrow> bool) \<Rightarrow> (nat \<Rightarrow> nat) \<Rightarrow> bool" where
  "tickets_differ holds tick \<longleftrightarrow> (\<forall>i j. holds i \<and> holds j \<and> tick i = tick j \<longrightarrow> i = j)"

definition tickets_cover :: "(nat \<Rightarrow> bool) \<Rightarrow> (nat \<Rightarrow> nat) \<Rightarrow> nat \<Rightarrow> nat \<Rightarrow> bool" where
  "tickets_cover holds tick lo hi \<longleftrightarrow> (\<forall>g. lo \<le> g \<and> g < hi \<longrightarrow> (\<exists>i. holds i \<and> tick i = g))"

definition ring_inv :: "nat \<Rightarrow> buf_ring \<Rightarrow> (nat \<Rightarrow> ptr \<times> u32) \<Rightarrow> (nat \<Rightarrow> enq_pc) \<Rightarrow> (nat \<Rightarrow> deq_pc) \<Rightarrow>
    (nat \<Rightarrow> nat) \<Rightarrow> (nat \<Rightarrow> nat) \<Rightarrow> ptr list \<Rightarrow> ptr list \<Rightarrow> nat \<Rightarrow> ptr list \<Rightarrow> bool" where
  "ring_inv b br arg enq deq pt ct xs ins c outs \<longleftrightarrow>
     ring_window b xs (length ins) c (length outs) br \<and>
     ins = take (length ins) xs \<and> outs = take (length outs) xs \<and>
     (\<forall>i. enq_at b xs (length ins) (length outs) (pt i) (fst (arg i)) (br_ring br) (enq i)) \<and>
     (\<forall>i. deq_at b xs (length ins) c (length outs) (ct i) (deq i)) \<and>
     tickets_differ (\<lambda>i. enq_holds (enq i)) pt \<and> tickets_differ (\<lambda>i. deq_holds (deq i)) ct \<and>
     tickets_cover (\<lambda>i. enq_holds (enq i)) pt (length ins) (length xs) \<and>
     tickets_cover (\<lambda>i. deq_holds (deq i)) ct (length outs) c"

definition mpmc_inv :: "nat \<Rightarrow> mpmc \<Rightarrow> bool" where
  "mpmc_inv b s \<longleftrightarrow> ring_inv b (mp_ring s) (mp_arg s) (mp_enq s) (mp_deq s) (mp_ptick s) (mp_ctick s)
     (mp_claimed s) (mp_in s) (mp_taken s) (mp_out s)"

lemma enq_at_held:
  "enq_holds pc \<Longrightarrow> enq_at b xs p d g buf r pc \<Longrightarrow> p \<le> g \<and> g < length xs"
  by (cases pc) (auto simp: claim_held_def)

lemma deq_at_held: "deq_holds pc \<Longrightarrow> deq_at b xs p c d g pc \<Longrightarrow> d \<le> g \<and> g < c"
  by (cases pc) auto

lemma window_shape: "ring_window b xs p c d br \<Longrightarrow> b < 32 \<and> br_prod_mask br = mask b \<and> br_cons_mask br = mask b"
  by (simp add: ring_window_def ring_shape_def)

lemma window_slots:
  assumes "ring_window b xs p c d br" and "d \<le> i" and "i \<le> length xs" and "d \<le> j" and "j \<le> length xs"
  shows "slot b i = slot b j \<longleftrightarrow> i = j"
  using slot_near [of b i j] slot_near [of b j i] assms
  by (cases "i \<le> j") (auto simp: ring_window_def ring_shape_def)

lemma window_full:
  assumes "ring_window b xs p c d br" and "g \<le> length xs" and "slot b (Suc g) \<noteq> slot b d"
  shows "Suc g < d + 2 ^ b"
proof -
  have "Suc g \<noteq> d + 2 ^ b" using assms(3) window_shape [OF assms(1)] by (auto simp: slot_eq_iff)
  with assms(1,2) show ?thesis by (auto simp: ring_window_def)
qed

subsection \<open>Steps of a producer\<close>

lemma enq_own:
  assumes step: "enq_step buf nb pc br = (pc', br')"
    and w: "ring_window b xs p c d br" and at: "enq_at b xs p d g buf (br_ring br) pc"
    and fresh: "\<forall>n. pc = EnqCas (br_prod_head br) n \<longrightarrow> length xs = g"
  shows "ring_window b (xs @ claimed_by pc pc' buf) (p + length (published pc buf)) c d br'"
    and "enq_at b (xs @ claimed_by pc pc' buf) (p + length (published pc buf)) d
      (if pc = EnqHead then length xs else g) buf (br_ring br') pc'"
proof -
  note b = window_shape [OF w]
  note nums = w [unfolded ring_window_def]
  have wait: "slot b p = slot b g \<longleftrightarrow> p = g" if "p \<le> g" "g < length xs"
    using window_slots [OF w, of p g] nums that by auto
  have other: "slot b k = slot b g \<longleftrightarrow> k = g" if "d \<le> k" "k < p" "p \<le> g" "g < length xs" for k
    using window_slots [OF w, of k g] nums that by auto
  have full: "slot b (Suc g) \<noteq> slot b d \<Longrightarrow> g \<le> length xs \<Longrightarrow> Suc g < d + 2 ^ b"
    using window_full [OF w] by blast
  show "ring_window b (xs @ claimed_by pc pc' buf) (p + length (published pc buf)) c d br'"
    using step at nums b fresh wait other
    by (cases pc) (auto simp: ring_window_def ring_shape_def claim_held_def Let_def nth_append less_Suc_eq split: if_splits)
  show "enq_at b (xs @ claimed_by pc pc' buf) (p + length (published pc buf)) d
      (if pc = EnqHead then length xs else g) buf (br_ring br') pc'"
    using step at nums b fresh wait full
    by (cases pc) (auto simp: claim_held_def Let_def slot_Suc nth_append split: if_splits)
qed

lemma enq_other:
  assumes step: "enq_step buf nb pc br = (pc', br')"
    and w: "ring_window b xs p c d br" and own: "enq_at b xs p d g buf (br_ring br) pc"
    and at: "enq_at b xs p d g' buf' (br_ring br) q"
    and differ: "enq_holds pc \<Longrightarrow> enq_holds q \<Longrightarrow> g \<noteq> g'"
  shows "enq_at b (xs @ claimed_by pc pc' buf) (p + length (published pc buf)) d g' buf' (br_ring br') q"
proof -
  note nums = w [unfolded ring_window_def]
  have keep: "br_ring br' (slot b g') = br_ring br (slot b g')" if "enq_holds q"
  proof (cases "\<exists>h n. pc = EnqStore h n")
    case True
    then have "enq_holds pc" by auto
    with differ that enq_at_held [OF that at] enq_at_held [OF _ own] window_slots [OF w, of g g'] nums
    have "slot b g \<noteq> slot b g'" by auto
    with True step own show ?thesis by (auto simp: claim_held_def)
  next
    case False
    with step show ?thesis by (cases pc) (auto simp: Let_def split: if_splits)
  qed
  have past: "p + length (published pc buf) \<le> g'" if "enq_holds q"
    using enq_at_held [OF that at] differ own that by (cases pc) (auto simp: claim_held_def)
  have first: "published pc buf = []" if "g' = p" "enq_holds q"
    using past [OF that(2)] that(1) by (cases pc) auto
  show ?thesis
    using at keep past first by (cases q) (auto simp: claim_held_def nth_append)
qed

lemma enq_deq_at:
  "deq_at b xs p c d g pc \<Longrightarrow> c \<le> length xs \<Longrightarrow> deq_at b (xs @ ys) (p + m) c d g pc"
  by (cases pc) (auto simp: nth_append)

subsection \<open>Steps of a consumer\<close>

lemma deq_own:
  assumes step: "deq_step pc br = (pc', br')"
    and w: "ring_window b xs p c d br" and at: "deq_at b xs p c d g pc"
    and fresh: "\<forall>n. pc = McCas (br_cons_head br) n \<longrightarrow> c = g"
  shows "ring_window b xs p (c + taken_by pc pc') (d + length (returned pc)) br'"
    and "deq_at b xs p (c + taken_by pc pc') (d + length (returned pc)) (if pc = McHead then c else g) pc'"
    and "\<forall>x\<in>set (returned pc). x = xs ! d \<and> d < length xs"
proof -
  note b = window_shape [OF w]
  note nums = w [unfolded ring_window_def]
  have wait: "slot b d = slot b g \<longleftrightarrow> d = g" if "d \<le> g" "g < c"
    using window_slots [OF w, of d g] nums that by auto
  have room: "g < p" if "slot b g \<noteq> slot b p" "g \<le> c"
    using nums that by (cases "g = p") auto
  show "ring_window b xs p (c + taken_by pc pc') (d + length (returned pc)) br'"
    using step at nums b fresh
    by (cases pc) (auto simp: ring_window_def ring_shape_def Let_def split: if_splits)
  show "deq_at b xs p (c + taken_by pc pc') (d + length (returned pc)) (if pc = McHead then c else g) pc'"
    using step at nums b fresh wait room
    by (cases pc) (auto simp: Let_def slot_Suc split: if_splits)
  show "\<forall>x\<in>set (returned pc). x = xs ! d \<and> d < length xs"
    using at nums by (cases pc) auto
qed

lemma deq_other:
  assumes own: "deq_at b xs p c d g pc" and at: "deq_at b xs p c d g' q"
    and differ: "deq_holds pc \<Longrightarrow> deq_holds q \<Longrightarrow> g \<noteq> g'"
  shows "deq_at b xs p (c + m) (d + length (returned pc)) g' q"
proof -
  have past: "d + length (returned pc) \<le> g'" if "deq_holds q"
    using deq_at_held [OF that at] differ own that by (cases pc) auto
  have first: "returned pc = []" if "g' = d" "deq_holds q"
    using past [OF that(2)] that(1) by (cases pc) auto
  show ?thesis using at past first by (cases q) auto
qed

lemma deq_enq_at: "enq_at b xs p d g buf r pc \<Longrightarrow> enq_at b xs p (d + m) g buf r pc"
  by (cases pc) auto

subsection \<open>Tickets\<close>

text \<open>One thread moves on: it may get the next ticket \<open>hi\<close>, or give up the oldest one \<open>lo\<close>.\<close>

definition ticket_move :: "bool \<Rightarrow> nat \<Rightarrow> nat \<Rightarrow> nat \<Rightarrow> bool \<Rightarrow> nat \<Rightarrow> nat \<Rightarrow> nat \<Rightarrow> bool" where
  "ticket_move h g lo hi h' g' lo' hi' \<longleftrightarrow>
     (if h' then lo' = lo \<and> (if h then g' = g \<and> hi' = hi else g' = hi \<and> hi' = Suc hi)
      else hi' = hi \<and> (if h then g = lo \<and> lo' = Suc lo else lo' = lo))"

lemma tickets_step:
  assumes differ: "tickets_differ holds tick" and cover: "tickets_cover holds tick lo hi"
    and held: "\<And>j. holds j \<Longrightarrow> lo \<le> tick j \<and> tick j < hi"
    and step: "ticket_move (holds i) (tick i) lo hi h' g' lo' hi'"
  shows "tickets_differ (holds(i := h')) (tick(i := g')) \<and> tickets_cover (holds(i := h')) (tick(i := g')) lo' hi'"
proof
  have "tick j \<noteq> g'" if "h'" "holds j" "j \<noteq> i" for j
  proof (cases "holds i")
    case True
    with that differ have "tick j \<noteq> tick i" unfolding tickets_differ_def by blast
    with step True that show ?thesis by (simp add: ticket_move_def)
  next
    case False
    with step held [OF that(2)] that show ?thesis by (simp add: ticket_move_def)
  qed
  with differ show "tickets_differ (holds(i := h')) (tick(i := g'))"
    unfolding tickets_differ_def by (metis fun_upd_apply)
  show "tickets_cover (holds(i := h')) (tick(i := g')) lo' hi'"
    unfolding tickets_cover_def
  proof (intro allI impI)
    fix g assume g: "lo' \<le> g \<and> g < hi'"
    show "\<exists>j. (holds(i := h')) j \<and> (tick(i := g')) j = g"
    proof (cases "h' \<and> g' = g")
      case True
      then show ?thesis by (intro exI [of _ i]) simp
    next
      case False
      with g step have "lo \<le> g \<and> g < hi \<and> (holds i \<longrightarrow> tick i \<noteq> g)"
        by (auto simp: ticket_move_def split: if_splits)
      with cover obtain j where "holds j" "tick j = g" "j \<noteq> i" by (auto simp: tickets_cover_def)
      then show ?thesis by (intro exI [of _ j]) simp
    qed
  qed
qed

lemma enq_holds_step:
  assumes "enq_step buf nb pc br = (pc', br')"
  shows "enq_holds pc' \<and> \<not> enq_holds pc \<Longrightarrow> claimed_by pc pc' buf = [buf] \<and> published pc buf = [] \<and>
        (\<exists>n. pc = EnqCas (br_prod_head br) n)"
    and "enq_holds pc' \<and> enq_holds pc \<Longrightarrow> claimed_by pc pc' buf = [] \<and> published pc buf = [] \<and> pc \<noteq> EnqHead"
    and "\<not> enq_holds pc' \<and> enq_holds pc \<Longrightarrow> claimed_by pc pc' buf = [] \<and> published pc buf = [buf] \<and> (\<exists>h n. pc = EnqPublish h n)"
    and "\<not> enq_holds pc' \<and> \<not> enq_holds pc \<Longrightarrow> claimed_by pc pc' buf = [] \<and> published pc buf = []"
  using assms by (cases pc; auto simp: Let_def split: if_splits)+

lemma deq_holds_step:
  assumes "deq_step pc br = (pc', br')" and "deq_at b xs p c d g pc"
  shows "deq_holds pc' \<and> \<not> deq_holds pc \<Longrightarrow> taken_by pc pc' = 1 \<and> returned pc = [] \<and> (\<exists>n. pc = McCas (br_cons_head br) n)"
    and "deq_holds pc' \<and> deq_holds pc \<Longrightarrow> taken_by pc pc' = 0 \<and> returned pc = [] \<and> pc \<noteq> McHead"
    and "\<not> deq_holds pc' \<and> deq_holds pc \<Longrightarrow> taken_by pc pc' = 0 \<and> length (returned pc) = 1 \<and> (\<exists>n x. pc = McPublish n x)"
    and "\<not> deq_holds pc' \<and> \<not> deq_holds pc \<Longrightarrow> taken_by pc pc' = 0 \<and> returned pc = []"
  using assms by (cases pc; auto simp: Let_def split: if_splits)+

section \<open>Preservation\<close>

lemma upd_comp: "(\<lambda>j. f ((g(i := x)) j)) = (\<lambda>j. f (g j))(i := f x)"
  by auto

lemma mpmc_inv_start: "mpmc_start b s \<Longrightarrow> mpmc_inv b s"
  by (simp add: mpmc_start_def ring_at_def mpmc_inv_def ring_inv_def ring_window_def tickets_differ_def tickets_cover_def)

lemma mpmc_inv_enq:
  assumes inv: "mpmc_inv b s" and fresh: "\<not> overtaken (Producer i) s"
    and step: "enq_step (fst (mp_arg s i)) (snd (mp_arg s i)) (mp_enq s i) (mp_ring s) = (pc, br)"
  shows "mpmc_inv b (enq_moved i pc br s)"
proof -
  let ?xs = "mp_claimed s" and ?p = "length (mp_in s)" and ?d = "length (mp_out s)"
  let ?buf = "fst (mp_arg s i)" and ?pc = "mp_enq s i"
  let ?g = "if ?pc = EnqHead then length ?xs else mp_ptick s i"
  note I = inv [unfolded mpmc_inv_def ring_inv_def]
  have w: "ring_window b ?xs ?p (mp_taken s) ?d (mp_ring s)"
    and at: "\<And>j. enq_at b ?xs ?p ?d (mp_ptick s j) (fst (mp_arg s j)) (br_ring (mp_ring s)) (mp_enq s j)"
    and differ: "tickets_differ (\<lambda>j. enq_holds (mp_enq s j)) (mp_ptick s)"
    and cover: "tickets_cover (\<lambda>j. enq_holds (mp_enq s j)) (mp_ptick s) ?p (length ?xs)" using I by auto
  note nums = w [unfolded ring_window_def]
  have f: "\<forall>n. ?pc = EnqCas (br_prod_head (mp_ring s)) n \<longrightarrow> length ?xs = mp_ptick s i" using fresh by auto
  note own = enq_own [OF step w at f]
  note holds = enq_holds_step [OF step]
  have others: "enq_at b (?xs @ claimed_by ?pc pc ?buf) (?p + length (published ?pc ?buf)) ?d
      (mp_ptick s j) (fst (mp_arg s j)) (br_ring br) (mp_enq s j)" if "j \<noteq> i" for j
    using enq_other [OF step w at at] differ that by (auto simp: tickets_differ_def)
  have move: "ticket_move (enq_holds ?pc) (mp_ptick s i) ?p (length ?xs) (enq_holds pc) ?g
      (?p + length (published ?pc ?buf)) (length ?xs + length (claimed_by ?pc pc ?buf))"
    unfolding ticket_move_def using holds f at [of i]
    by (cases "enq_holds pc"; cases "enq_holds ?pc") (auto simp: claim_held_def)
  have tickets: "tickets_differ ((\<lambda>j. enq_holds (mp_enq s j))(i := enq_holds pc)) ((mp_ptick s)(i := ?g)) \<and>
    tickets_cover ((\<lambda>j. enq_holds (mp_enq s j))(i := enq_holds pc)) ((mp_ptick s)(i := ?g))
      (?p + length (published ?pc ?buf)) (length ?xs + length (claimed_by ?pc pc ?buf))"
    by (rule tickets_step [OF differ cover enq_at_held [OF _ at] move])
  have published: "mp_in s @ published ?pc ?buf = take (?p + length (published ?pc ?buf)) (?xs @ claimed_by ?pc pc ?buf)"
    using I at [of i] nums by (cases ?pc) (auto simp: claim_held_def take_Suc_conv_app_nth)
  have deq: "deq_at b (?xs @ claimed_by ?pc pc ?buf) (?p + length (published ?pc ?buf)) (mp_taken s) ?d
      (mp_ctick s j) (mp_deq s j)" for j using I nums by (intro enq_deq_at) auto
  have out: "mp_out s = take ?d (?xs @ claimed_by ?pc pc ?buf)" using I nums by simp
  have all: "enq_at b (?xs @ claimed_by ?pc pc ?buf) (?p + length (published ?pc ?buf)) ?d
      (((mp_ptick s)(i := ?g)) j) (fst (mp_arg s j)) (br_ring br) (((mp_enq s)(i := pc)) j)" for j
    using own(2) others [of j] by (cases "j = i") simp_all
  have "ring_inv b br (mp_arg s) ((mp_enq s)(i := pc)) (mp_deq s) ((mp_ptick s)(i := ?g)) (mp_ctick s)
      (?xs @ claimed_by ?pc pc ?buf) (mp_in s @ published ?pc ?buf) (mp_taken s) (mp_out s)"
    unfolding ring_inv_def upd_comp length_append
    using own(1) all tickets published I out deq by blast
  then show ?thesis by (simp add: mpmc_inv_def enq_moved_def)
qed

lemma mpmc_inv_deq:
  assumes inv: "mpmc_inv b s" and fresh: "\<not> overtaken (Consumer i) s"
    and step: "deq_step (mp_deq s i) (mp_ring s) = (pc, br)"
  shows "mpmc_inv b (deq_moved i pc br s)"
proof -
  let ?xs = "mp_claimed s" and ?p = "length (mp_in s)" and ?c = "mp_taken s" and ?d = "length (mp_out s)"
  let ?pc = "mp_deq s i"
  let ?g = "if ?pc = McHead then ?c else mp_ctick s i"
  note I = inv [unfolded mpmc_inv_def ring_inv_def]
  have w: "ring_window b ?xs ?p ?c ?d (mp_ring s)"
    and at: "\<And>j. deq_at b ?xs ?p ?c ?d (mp_ctick s j) (mp_deq s j)"
    and differ: "tickets_differ (\<lambda>j. deq_holds (mp_deq s j)) (mp_ctick s)"
    and cover: "tickets_cover (\<lambda>j. deq_holds (mp_deq s j)) (mp_ctick s) ?d ?c" using I by auto
  note nums = w [unfolded ring_window_def]
  have f: "\<forall>n. ?pc = McCas (br_cons_head (mp_ring s)) n \<longrightarrow> ?c = mp_ctick s i" using fresh by auto
  note own = deq_own [OF step w at f]
  note holds = deq_holds_step [OF step at]
  have others: "deq_at b ?xs ?p (?c + taken_by ?pc pc) (?d + length (returned ?pc)) (mp_ctick s j) (mp_deq s j)"
    if "j \<noteq> i" for j
    using differ that by (intro deq_other [OF at at]) (auto simp: tickets_differ_def)
  have move: "ticket_move (deq_holds ?pc) (mp_ctick s i) ?d ?c (deq_holds pc) ?g
      (?d + length (returned ?pc)) (?c + taken_by ?pc pc)"
    unfolding ticket_move_def using holds f at [of i]
    by (cases "deq_holds pc"; cases "deq_holds ?pc") auto
  have tickets: "tickets_differ ((\<lambda>j. deq_holds (mp_deq s j))(i := deq_holds pc)) ((mp_ctick s)(i := ?g)) \<and>
    tickets_cover ((\<lambda>j. deq_holds (mp_deq s j))(i := deq_holds pc)) ((mp_ctick s)(i := ?g))
      (?d + length (returned ?pc)) (?c + taken_by ?pc pc)"
    by (rule tickets_step [OF differ cover deq_at_held [OF _ at] move])
  have returned: "mp_out s @ returned ?pc = take (?d + length (returned ?pc)) ?xs"
    using I own(3) nums by (cases ?pc) (auto simp: take_Suc_conv_app_nth)
  have enq: "enq_at b ?xs ?p (?d + length (returned ?pc)) (mp_ptick s j) (fst (mp_arg s j)) (br_ring br) (mp_enq s j)" for j
    using I deq_enq_at deq_step_prod [OF step] by simp
  have all: "deq_at b ?xs ?p (?c + taken_by ?pc pc) (?d + length (returned ?pc))
      (((mp_ctick s)(i := ?g)) j) (((mp_deq s)(i := pc)) j)" for j
    using own(2) others [of j] by (cases "j = i") simp_all
  have "ring_inv b br (mp_arg s) (mp_enq s) ((mp_deq s)(i := pc)) (mp_ptick s) ((mp_ctick s)(i := ?g))
      ?xs (mp_in s) (?c + taken_by ?pc pc) (mp_out s @ returned ?pc)"
    unfolding ring_inv_def upd_comp length_append
    using own(1) all tickets returned enq I by blast
  then show ?thesis by (simp add: mpmc_inv_def deq_moved_def)
qed

lemma mpmc_inv_step: "mpmc_step t s s' \<Longrightarrow> \<not> overtaken t s \<Longrightarrow> mpmc_inv b s \<Longrightarrow> mpmc_inv b s'"
proof (induction rule: mpmc_step.induct)
  case (enq_call s i r buf nbytes)
  have "(\<lambda>j. enq_holds (((mp_enq s)(i := EnqHead)) j)) = (\<lambda>j. enq_holds (mp_enq s j))"
    using enq_call by auto
  with enq_call show ?case by (auto simp: mpmc_inv_def ring_inv_def)
next
  case (enq s i pc br)
  then show ?case by (intro mpmc_inv_enq)
next
  case (deq_call s i r)
  have "(\<lambda>j. deq_holds (((mp_deq s)(i := McHead)) j)) = (\<lambda>j. deq_holds (mp_deq s j))"
    using deq_call by auto
  with deq_call show ?case by (auto simp: mpmc_inv_def ring_inv_def)
next
  case (deq s i pc br)
  then show ?case by (intro mpmc_inv_deq)
qed

lemma mpmc_reachable_inv: "mpmc_reachable b s \<Longrightarrow> mpmc_inv b s"
  by (induction rule: mpmc_reachable.induct) (auto intro: mpmc_inv_start mpmc_inv_step)

section \<open>Progress\<close>

lemma oldest_producer:
  assumes inv: "mpmc_inv b s" and "enq_holds (mp_enq s i)"
  obtains j where "enq_holds (mp_enq s j)" and "mp_ptick s j = length (mp_in s)" and "mp_ptick s j \<le> mp_ptick s i"
proof -
  note I = inv [unfolded mpmc_inv_def ring_inv_def]
  from I have at: "enq_at b (mp_claimed s) (length (mp_in s)) (length (mp_out s)) (mp_ptick s i)
      (fst (mp_arg s i)) (br_ring (mp_ring s)) (mp_enq s i)" by blast
  with I enq_at_held [OF assms(2) at] obtain j where "enq_holds (mp_enq s j)" "mp_ptick s j = length (mp_in s)" unfolding tickets_cover_def by auto
  with that enq_at_held [OF assms(2) at] show ?thesis by auto
qed

lemma oldest_consumer:
  assumes inv: "mpmc_inv b s" and "deq_holds (mp_deq s i)"
  obtains j where "deq_holds (mp_deq s j)" and "mp_ctick s j = length (mp_out s)" and "mp_ctick s j \<le> mp_ctick s i"
proof -
  note I = inv [unfolded mpmc_inv_def ring_inv_def]
  from I have at: "deq_at b (mp_claimed s) (length (mp_in s)) (mp_taken s) (length (mp_out s)) (mp_ctick s i)
      (mp_deq s i)" by blast
  with I deq_at_held [OF assms(2) at] obtain j where "deq_holds (mp_deq s j)" "mp_ctick s j = length (mp_out s)" unfolding tickets_cover_def by auto
  with that deq_at_held [OF assms(2) at] show ?thesis by auto
qed

lemma enq_oldest_moves:
  assumes "ring_window b xs p c d br" and "enq_at b xs p d p buf (br_ring br) pc" and "enq_holds pc"
  shows "enq_rank (fst (enq_step buf nb pc br)) < enq_rank pc"
  using assms by (cases pc) (auto simp: ring_window_def claim_held_def)

lemma deq_oldest_moves:
  assumes "ring_window b xs p c d br" and "deq_at b xs p c d d pc" and "deq_holds pc"
  shows "deq_rank (fst (deq_step pc br)) < deq_rank pc"
  using assms by (cases pc) (auto simp: ring_window_def)

section \<open>Properties\<close>

text \<open>C7 With any number of producers and consumers interleaved at every access to a shared field, as
  long as none is overtaken, the ring is a bounded first-in first-out queue: the elements returned
  are a prefix of those published, these of those claimed, in order; fewer than the ring has
  slots lie between; and the published elements not yet taken are in their slots.\<close>

theorem mpmc_fifo:
  assumes "mpmc_reachable b s"
  shows "mp_in s = take (length (mp_in s)) (mp_claimed s) \<and> mp_out s = take (length (mp_out s)) (mp_in s) \<and>
    length (mp_out s) \<le> mp_taken s \<and> mp_taken s \<le> length (mp_in s) \<and>
    length (mp_claimed s) < length (mp_out s) + 2 ^ b \<and>
    (\<forall>k. mp_taken s \<le> k \<and> k < length (mp_in s) \<longrightarrow> br_ring (mp_ring s) (slot b k) = mp_in s ! k)"
proof -
  note I = mpmc_reachable_inv [OF assms, unfolded mpmc_inv_def ring_inv_def]
  then have "ring_window b (mp_claimed s) (length (mp_in s)) (mp_taken s) (length (mp_out s)) (mp_ring s)" by simp
  note nums = this [unfolded ring_window_def]
  have ins: "mp_in s = take (length (mp_in s)) (mp_claimed s)" and "mp_out s = take (length (mp_out s)) (mp_claimed s)"
    using I by auto
  then have out: "mp_out s = take (length (mp_out s)) (mp_in s)"
    using nums by (metis le_trans min.absorb1 take_take)
  have "br_ring (mp_ring s) (slot b k) = mp_in s ! k" if "mp_taken s \<le> k" "k < length (mp_in s)" for k
    using nums that ins by (metis le_trans nth_take)
  with ins out nums show ?thesis by blast
qed

text \<open>C8 No deadlock: when a producer waits for the producers before it, or a consumer for the consumers
  before it, some thread that holds an older ticket can move, and its step brings it nearer to
  its return.\<close>

theorem mpmc_no_deadlock:
  assumes "mpmc_reachable b s"
  shows "(mp_enq s i = EnqWait h n \<longrightarrow>
      (\<exists>j. mp_ptick s j \<le> mp_ptick s i \<and> enq_holds (mp_enq s j) \<and>
        enq_rank (fst (enq_step (fst (mp_arg s j)) (snd (mp_arg s j)) (mp_enq s j) (mp_ring s))) < enq_rank (mp_enq s j))) \<and>
    (mp_deq s i = McWait h n x \<longrightarrow>
      (\<exists>j. mp_ctick s j \<le> mp_ctick s i \<and> deq_holds (mp_deq s j) \<and>
        deq_rank (fst (deq_step (mp_deq s j) (mp_ring s))) < deq_rank (mp_deq s j)))"
proof (intro conjI impI)
  note inv = mpmc_reachable_inv [OF assms]
  note I = inv [unfolded mpmc_inv_def ring_inv_def]
  show "\<exists>j. mp_ptick s j \<le> mp_ptick s i \<and> enq_holds (mp_enq s j) \<and>
      enq_rank (fst (enq_step (fst (mp_arg s j)) (snd (mp_arg s j)) (mp_enq s j) (mp_ring s))) < enq_rank (mp_enq s j)"
    if "mp_enq s i = EnqWait h n"
  proof -
    have "enq_holds (mp_enq s i)" using that by simp
    then obtain j where j: "enq_holds (mp_enq s j)" "mp_ptick s j = length (mp_in s)" "mp_ptick s j \<le> mp_ptick s i"
      by (rule oldest_producer [OF inv])
    have "enq_at b (mp_claimed s) (length (mp_in s)) (length (mp_out s)) (length (mp_in s))
        (fst (mp_arg s j)) (br_ring (mp_ring s)) (mp_enq s j)" using I j(2) by metis
    with I j show ?thesis using enq_oldest_moves by blast
  qed
  show "\<exists>j. mp_ctick s j \<le> mp_ctick s i \<and> deq_holds (mp_deq s j) \<and>
      deq_rank (fst (deq_step (mp_deq s j) (mp_ring s))) < deq_rank (mp_deq s j)"
    if "mp_deq s i = McWait h n x"
  proof -
    have "deq_holds (mp_deq s i)" using that by simp
    then obtain j where j: "deq_holds (mp_deq s j)" "mp_ctick s j = length (mp_out s)" "mp_ctick s j \<le> mp_ctick s i"
      by (rule oldest_consumer [OF inv])
    have "deq_at b (mp_claimed s) (length (mp_in s)) (mp_taken s) (length (mp_out s)) (length (mp_out s))
        (mp_deq s j)" using I j(2) by metis
    with I j show ?thesis using deq_oldest_moves by blast
  qed
qed

section \<open>Witnesses\<close>

text \<open>Threads take turns as a schedule says; a thread that has returned calls again, a producer with the
  argument of its turn.\<close>

fun mpmc_move :: "ring_thread \<times> ptr \<Rightarrow> mpmc \<Rightarrow> mpmc" where
  "mpmc_move (Producer i, buf) s =
     (case mp_enq s i of
        EnqRet r \<Rightarrow> s\<lparr>mp_arg := (mp_arg s)(i := (buf, 0)), mp_enq := (mp_enq s)(i := EnqHead)\<rparr>
      | _ \<Rightarrow> (case enq_step (fst (mp_arg s i)) (snd (mp_arg s i)) (mp_enq s i) (mp_ring s) of
          (pc, br) \<Rightarrow> enq_moved i pc br s))"
| "mpmc_move (Consumer i, buf) s =
     (case mp_deq s i of
        DeqRet r \<Rightarrow> s\<lparr>mp_deq := (mp_deq s)(i := McHead)\<rparr>
      | _ \<Rightarrow> (case deq_step (mp_deq s i) (mp_ring s) of (pc, br) \<Rightarrow> deq_moved i pc br s))"

fun mpmc_run :: "(ring_thread \<times> ptr) list \<Rightarrow> mpmc \<Rightarrow> mpmc option" where
  "mpmc_run [] s = Some s"
| "mpmc_run (t # ts) s = (if overtaken (fst t) s then None else mpmc_run ts (mpmc_move t s))"

lemma mpmc_move_step: "mpmc_step (fst t) s (mpmc_move t s)"
proof (cases t)
  case (Pair th buf)
  show ?thesis
  proof (cases th)
    case (Producer i)
    obtain pc br where "enq_step (fst (mp_arg s i)) (snd (mp_arg s i)) (mp_enq s i) (mp_ring s) = (pc, br)" by fastforce
    from this mpmc_step.enq [OF this] show ?thesis
      using Pair Producer by (auto split: enq_pc.split intro: mpmc_step.enq_call)
  next
    case (Consumer i)
    obtain pc br where "deq_step (mp_deq s i) (mp_ring s) = (pc, br)" by fastforce
    from this mpmc_step.deq [OF this] show ?thesis
      using Pair Consumer by (auto split: deq_pc.split intro: mpmc_step.deq_call)
  qed
qed

lemma mpmc_run_reachable: "mpmc_reachable b s \<Longrightarrow> mpmc_run ts s = Some s' \<Longrightarrow> mpmc_reachable b s'"
  by (induction ts arbitrary: s) (auto intro: mpmc_reachable.step mpmc_move_step split: if_splits)

definition mpmc4 :: mpmc where
  "mpmc4 = \<lparr>mp_ring = ring4, mp_arg = (\<lambda>_. (NULL, 0)), mp_enq = (\<lambda>_. EnqRet 0), mp_deq = (\<lambda>_. DeqRet NULL),
     mp_ptick = (\<lambda>_. 0), mp_ctick = (\<lambda>_. 0), mp_claimed = [], mp_in = [], mp_taken = 0, mp_out = []\<rparr>"

lemma mpmc4_reachable: "mpmc_reachable 2 mpmc4"
  by (rule mpmc_reachable.start) (simp add: mpmc_start_def mpmc4_def ring4_at)

text \<open>Producer 0 claims the first slot; producer 1 claims and fills the second and has to wait.\<close>

definition two_producers :: "(ring_thread \<times> ptr) list" where
  "two_producers = replicate 4 (Producer 0, 7) @ replicate 5 (Producer 1, 8)"

definition mpmc4_waiting :: mpmc where
  "mpmc4_waiting = the (mpmc_run two_producers mpmc4)"

text \<open>Both finish, and a consumer takes an element.\<close>

definition mpmc4_passed :: mpmc where
  "mpmc4_passed = the (mpmc_run (two_producers @ replicate 5 (Producer 0, 7) @ replicate 4 (Producer 1, 8) @
     replicate 7 (Consumer 0, 0)) mpmc4)"

lemma two_producers_run:
  "mpmc_run two_producers mpmc4 = Some mpmc4_waiting" "mp_enq mpmc4_waiting 1 = EnqWait 1 2"
  "mp_ptick mpmc4_waiting 1 = 1"
  by (simp_all add: mpmc4_waiting_def two_producers_def mpmc4_def ring4_def enq_moved_def Let_def numeral_eq_Suc)

lemma mpmc4_passed_run:
  "mpmc_run (two_producers @ replicate 5 (Producer 0, 7) @ replicate 4 (Producer 1, 8) @ replicate 7 (Consumer 0, 0)) mpmc4
     = Some mpmc4_passed" "mp_in mpmc4_passed = [7, 8]" "mp_out mpmc4_passed = [7]"
  by (simp_all add: mpmc4_passed_def two_producers_def mpmc4_def ring4_def enq_moved_def deq_moved_def Let_def numeral_eq_Suc)

theorem mpmc_fifo_witness: "mp_in mpmc4_passed = [7, 8] \<and> mp_out mpmc4_passed = take 1 (mp_in mpmc4_passed)"
proof -
  have "mp_out mpmc4_passed = take (length (mp_out mpmc4_passed)) (mp_in mpmc4_passed)"
    using mpmc_fifo [OF mpmc_run_reachable [OF mpmc4_reachable mpmc4_passed_run(1)]] by blast
  with mpmc4_passed_run(2,3) show ?thesis by simp
qed

theorem mpmc_no_deadlock_witness:
  "\<exists>j. mp_ptick mpmc4_waiting j \<le> 1 \<and> enq_holds (mp_enq mpmc4_waiting j)"
  using mpmc_no_deadlock [OF mpmc_run_reachable [OF mpmc4_reachable two_producers_run(1)], of 1 1 2] two_producers_run
  by auto

end
