(* ===== verification/Control_Messages.thy ===== *)
theory Control_Messages
  imports Ps4_Prelude
begin

unbundle bit_operations_syntax

text \<open>
  The ancillary data of a socket message: the macros of \<open>include/sys/socket.h\<close> that build and walk a
  buffer of control messages, with the alignment macro of \<open>include/x86/_align.h\<close>.  The buffer is memory;
  a header is read from it at the address a macro returned.  The loop over the messages, which
  every receiver writes (\<open>CMSG_FIRSTHDR\<close>, then \<open>CMSG_NXTHDR\<close> until \<open>NULL\<close>), is \<open>cmsg_walk\<close>.

  Shown: a buffer laid out with \<open>CMSG_LEN\<close> and \<open>CMSG_SPACE\<close> is read back message by message; for any
  contents of the buffer no macro leads outside it, and the walk fails to end exactly when a message it reaches
  claims the length zero.
\<close>

section \<open>The macros\<close>

definition ALIGN_reg :: "u64 \<Rightarrow> u64" where
  "ALIGN_reg p = (p + 7) AND NOT 7"

record msghdr =
  msg_name :: ptr
  msg_namelen :: u32
  msg_iov :: ptr
  msg_iovlen :: u32
  msg_control :: ptr
  msg_controllen :: u32
  msg_flags :: u32

record cmsghdr =
  cmsg_len :: u32
  cmsg_level :: u32
  cmsg_type :: u32

definition sizeof_cmsghdr :: u64 where
  "sizeof_cmsghdr = 12"

definition load_cmsghdr :: "memory \<Rightarrow> ptr \<Rightarrow> cmsghdr option" where
  "load_cmsghdr m a = do {
     len \<leftarrow> load32 m a; level \<leftarrow> load32 m (a + 4); type \<leftarrow> load32 m (a + 8);
     Some \<lparr>cmsg_len = len, cmsg_level = level, cmsg_type = type\<rparr> }"

definition CMSG_DATA :: "ptr \<Rightarrow> ptr" where
  "CMSG_DATA cmsg = cmsg + ALIGN_reg sizeof_cmsghdr"

definition CMSG_FIRSTHDR :: "msghdr \<Rightarrow> ptr" where
  "CMSG_FIRSTHDR mhdr = (if ucast (msg_controllen mhdr) \<ge> sizeof_cmsghdr then msg_control mhdr else NULL)"

definition CMSG_NXTHDR :: "memory \<Rightarrow> msghdr \<Rightarrow> ptr \<Rightarrow> ptr option" where
  "CMSG_NXTHDR m mhdr cmsg =
     (if cmsg = NULL then Some (CMSG_FIRSTHDR mhdr)
      else do {
        len \<leftarrow> load32 m cmsg;
        Some (if cmsg + ALIGN_reg (ucast len) + ALIGN_reg sizeof_cmsghdr >
                 msg_control mhdr + ucast (msg_controllen mhdr)
              then NULL else cmsg + ALIGN_reg (ucast len)) })"

definition CMSG_SPACE :: "u64 \<Rightarrow> u64" where
  "CMSG_SPACE l = ALIGN_reg sizeof_cmsghdr + ALIGN_reg l"

definition CMSG_LEN :: "u64 \<Rightarrow> u64" where
  "CMSG_LEN l = ALIGN_reg sizeof_cmsghdr + l"

definition CMSG_ALIGN :: "u64 \<Rightarrow> u64" where
  "CMSG_ALIGN n = ALIGN_reg n"

text \<open>The size of a credential message with \<open>ngrps\<close> groups: \<open>sizeof(struct sockcred)\<close> has room for one.\<close>

definition SOCKCREDSIZE :: "u64 \<Rightarrow> u64" where
  "SOCKCREDSIZE ngrps = 24 + 4 * (ngrps - 1)"

section \<open>A receiver\<close>

partial_function (option) cmsg_walk :: "memory \<Rightarrow> msghdr \<Rightarrow> ptr \<Rightarrow> ptr list option" where
  "cmsg_walk m mhdr cmsg =
     (if cmsg = NULL then Some [] else do {
        n \<leftarrow> CMSG_NXTHDR m mhdr cmsg;
        cs \<leftarrow> cmsg_walk m mhdr n;
        Some (cmsg # cs) })"

text \<open>The level, the type and the bytes of the message at \<open>a\<close>.\<close>

type_synonym message = "u32 \<times> u32 \<times> u8 list"

definition cmsg_read :: "memory \<Rightarrow> ptr \<Rightarrow> message option" where
  "cmsg_read m a = do {
     h \<leftarrow> load_cmsghdr m a;
     d \<leftarrow> load_bytes m (CMSG_DATA a) (unat (cmsg_len h) - unat (CMSG_LEN 0));
     Some (cmsg_level h, cmsg_type h, d) }"

definition cmsg_receive :: "memory \<Rightarrow> msghdr \<Rightarrow> message list option" where
  "cmsg_receive m mhdr = do {
     as \<leftarrow> cmsg_walk m mhdr (CMSG_FIRSTHDR mhdr);
     those (map (cmsg_read m) as) }"

section \<open>Alignment\<close>

definition align8 :: "nat \<Rightarrow> nat" where
  "align8 n = (n + 7) div 8 * 8"

lemma align8_bounds: "n \<le> align8 n" "align8 n < n + 8" "align8 (16 + n) = 16 + align8 n" "align8 n = 0 \<longleftrightarrow> n = 0"
  by (simp_all add: align8_def) arith+

lemma unat_ALIGN_reg: "unat p + 7 < 2 ^ 64 \<Longrightarrow> unat (ALIGN_reg p) = align8 (unat p)"
proof -
  assume p: "unat p + 7 < 2 ^ 64"
  have "(NOT 7 :: u64) = NOT (mask 3)" by (simp add: mask_eq_exp_minus_1)
  then have "unat (ALIGN_reg p) = unat (p + 7) div 8 * 8" by (simp only: ALIGN_reg_def unat_and_not_mask) simp
  moreover have "unat (p + 7) = unat p + 7" using p by (subst unat_add_lem [THEN iffD1]) simp_all
  ultimately show ?thesis by (simp add: align8_def)
qed

lemma ALIGN_sizeof [simp]: "ALIGN_reg sizeof_cmsghdr = 16"
  by (simp add: ALIGN_reg_def sizeof_cmsghdr_def)

lemma CMSG_LEN_0 [simp]: "CMSG_LEN 0 = 16"
  by (simp add: CMSG_LEN_def)

section \<open>The walk\<close>

text \<open>A buffer of user memory: it starts at an address other than \<open>NULL\<close> and ends well below the top
  of the address space.\<close>

definition control_end :: "msghdr \<Rightarrow> nat" where
  "control_end mhdr = unat (msg_control mhdr) + unat (msg_controllen mhdr)"

definition user_buffer :: "msghdr \<Rightarrow> bool" where
  "user_buffer mhdr \<longleftrightarrow> msg_control mhdr \<noteq> NULL \<and> control_end mhdr + 2 ^ 33 \<le> 2 ^ 64"

lemma NXTHDR_eq:
  assumes "user_buffer mhdr" and "c \<noteq> NULL" and "unat c \<le> control_end mhdr" and "load32 m c = Some len"
  shows "unat (c + ALIGN_reg (ucast len)) = unat c + align8 (unat len)"
    and "CMSG_NXTHDR m mhdr c = Some
      (if unat c + align8 (unat len) + 16 > control_end mhdr then NULL else c + ALIGN_reg (ucast len))"
proof -
  have len: "unat len < 4294967296" using unsigned_less [of len] by simp
  have e: "control_end mhdr \<le> 18446744065119617024" using assms(1) by (simp add: user_buffer_def)
  have al: "unat (ALIGN_reg (ucast len)) = align8 (unat len)"
    using len by (subst unat_ALIGN_reg) (simp_all add: unat_ucast_u32)
  have a8: "align8 (unat len) < unat len + 8" by (rule align8_bounds(2))
  show add: "unat (c + ALIGN_reg (ucast len)) = unat c + align8 (unat len)"
    using len e a8 assms(3) al by (subst unat_add_small) simp_all
  have "unat (c + ALIGN_reg (ucast len) + 16) = unat c + align8 (unat len) + 16"
    using len e a8 assms(3) add by (subst unat_add_small) simp_all
  moreover have "unat (msg_control mhdr + ucast (msg_controllen mhdr)) = control_end mhdr"
    using e by (subst unat_add_small) (simp_all add: control_end_def unat_ucast_u32)
  ultimately show "CMSG_NXTHDR m mhdr c = Some
      (if unat c + align8 (unat len) + 16 > control_end mhdr then NULL else c + ALIGN_reg (ucast len))"
    using assms(2,4) by (simp add: CMSG_NXTHDR_def word_less_nat_alt)
qed

lemma NXTHDR_inside:
  assumes "user_buffer mhdr" and "c \<noteq> NULL" and "unat c \<le> control_end mhdr"
    and "CMSG_NXTHDR m mhdr c = Some n" and "n \<noteq> NULL"
  obtains len where "load32 m c = Some len" and "unat n = unat c + align8 (unat len)" and "unat n + 16 \<le> control_end mhdr"
proof -
  from assms(2,4) obtain len where len: "load32 m c = Some len"
    by (auto simp: CMSG_NXTHDR_def split: bind_splits)
  with NXTHDR_eq [OF assms(1-3) len] assms(4,5) that show ?thesis by (auto split: if_splits)
qed

lemma FIRSTHDR_inside:
  assumes "CMSG_FIRSTHDR mhdr \<noteq> NULL"
  shows "CMSG_FIRSTHDR mhdr = msg_control mhdr" and "unat (msg_control mhdr) + 12 \<le> control_end mhdr"
  using assms by (auto simp: CMSG_FIRSTHDR_def sizeof_cmsghdr_def control_end_def word_le_nat_alt unat_ucast_u32 split: if_splits)

text \<open>The headers a receiver reaches.  They lie whole inside the buffer whatever it contains.\<close>

inductive cmsg_reached :: "memory \<Rightarrow> msghdr \<Rightarrow> ptr \<Rightarrow> bool" for m mhdr where
  first: "CMSG_FIRSTHDR mhdr \<noteq> NULL \<Longrightarrow> cmsg_reached m mhdr (CMSG_FIRSTHDR mhdr)"
| follows: "cmsg_reached m mhdr c \<Longrightarrow> CMSG_NXTHDR m mhdr c = Some n \<Longrightarrow> n \<noteq> NULL \<Longrightarrow> cmsg_reached m mhdr n"

definition cmsg_inside :: "msghdr \<Rightarrow> ptr \<Rightarrow> bool" where
  "cmsg_inside mhdr c \<longleftrightarrow> c \<noteq> NULL \<and> unat (msg_control mhdr) \<le> unat c \<and> unat c + 12 \<le> control_end mhdr"

definition buffer_mapped :: "memory \<Rightarrow> msghdr \<Rightarrow> bool" where
  "buffer_mapped m mhdr \<longleftrightarrow> mapped m (msg_control mhdr) (unat (msg_controllen mhdr))"

lemma reached_inside:
  assumes "user_buffer mhdr"
  shows "cmsg_reached m mhdr c \<Longrightarrow> cmsg_inside mhdr c"
proof (induction rule: cmsg_reached.induct)
  case first
  then show ?case using FIRSTHDR_inside [of mhdr] by (simp add: cmsg_inside_def)
next
  case (follows c n)
  then have c: "unat c \<le> control_end mhdr" "c \<noteq> NULL" by (simp_all add: cmsg_inside_def)
  show ?case
    by (rule NXTHDR_inside [OF assms c(2,1) follows.hyps(2,3)]) (use follows.IH follows.hyps(3) in \<open>simp_all add: cmsg_inside_def\<close>)
qed

lemma inside_load:
  assumes "buffer_mapped m mhdr" "cmsg_inside mhdr c"
  shows "\<exists>len. load32 m c = Some len"
proof -
  from assms(2) have le: "unat (msg_control mhdr) \<le> unat c" "unat c + 12 \<le> control_end mhdr"
    by (simp_all add: cmsg_inside_def)
  define d where "d = unat c - unat (msg_control mhdr)"
  have "unat c = unat (msg_control mhdr) + d" using le(1) by (simp add: d_def)
  then have "of_nat (unat c) = (of_nat (unat (msg_control mhdr) + d) :: u64)" by (rule arg_cong)
  then have c: "c = msg_control mhdr + of_nat d" by (simp only: of_nat_add of_nat_unat ucast_id)
  have "d + 4 \<le> unat (msg_controllen mhdr)" using le by (simp add: d_def control_end_def)
  then have lt: "d + i \<in> {0..<unat (msg_controllen mhdr)}" if "i < 4" for i using that by simp
  have "m (c + of_nat i) \<noteq> None" if "i < 4" for i
    using bspec [OF assms(1) [unfolded buffer_mapped_def mapped_def] lt [OF that]] by (simp add: c add.assoc)
  then have "mapped m c 4" unfolding mapped_def by simp
  then show ?thesis unfolding load32_def using load_bytes_mapped [of m c 4] by auto
qed

text \<open>From a reached header whose successors all have a length other than zero the walk ends; it lists headers
  inside the buffer, one behind the other.\<close>

lemma walk_ends:
  assumes "user_buffer mhdr" "buffer_mapped m mhdr"
    and nonzero: "\<And>c. cmsg_reached m mhdr c \<Longrightarrow> unat c + 16 \<le> control_end mhdr \<Longrightarrow> load32 m c \<noteq> Some 0"
  shows "cmsg_reached m mhdr c \<Longrightarrow> \<exists>cs. cmsg_walk m mhdr c = Some (c # cs) \<and> sorted_wrt (<) (c # cs) \<and>
    (\<forall>a \<in> set cs. cmsg_reached m mhdr a)"
proof (induction "control_end mhdr - unat c" arbitrary: c rule: less_induct)
  case less
  then have ins: "cmsg_inside mhdr c" using reached_inside [OF assms(1)] by blast
  then have c: "c \<noteq> NULL" "unat c \<le> control_end mhdr" by (simp_all add: cmsg_inside_def)
  from inside_load [OF assms(2) ins] obtain len where len: "load32 m c = Some len" by blast
  note nx = NXTHDR_eq [OF assms(1) c len]
  show ?case
  proof (cases "unat c + align8 (unat len) + 16 > control_end mhdr")
    case True
    with nx c show ?thesis by (subst cmsg_walk.simps) (simp add: cmsg_walk.simps [of _ _ NULL])
  next
    case False
    define n where "n = c + ALIGN_reg (ucast len)"
    have n: "unat n = unat c + align8 (unat len)" "CMSG_NXTHDR m mhdr c = Some n"
      using nx False by (simp_all add: n_def)
    have "len \<noteq> 0" using nonzero [OF less.prems] len False by auto
    then have pos: "0 < align8 (unat len)" using align8_bounds(4) [of "unat len"] by (metis gr0I unat_eq_zero)
    then have "n \<noteq> NULL" using n(1) by auto
    with less.prems n(2) have r: "cmsg_reached m mhdr n" by (rule cmsg_reached.follows)
    have "control_end mhdr - unat n < control_end mhdr - unat c" using n(1) pos False by simp
    from less.hyps [OF this r] obtain cs where cs: "cmsg_walk m mhdr n = Some (n # cs)" "sorted_wrt (<) (n # cs)"
      "\<forall>a \<in> set cs. cmsg_reached m mhdr a" by blast
    have "cmsg_walk m mhdr c = Some (c # n # cs)" using cs(1) n(2) c(1) by (subst cmsg_walk.simps) simp
    moreover have "c < n" using n(1) pos by (simp add: word_less_nat_alt)
    ultimately show ?thesis using cs(2,3) r by (intro exI [of _ "n # cs"]) auto
  qed
qed

text \<open>A message of length zero is its own successor.\<close>

lemma walk_diverges:
  assumes "user_buffer mhdr" and "c \<noteq> NULL" and "unat c + 16 \<le> control_end mhdr" and "load32 m c = Some 0"
  shows "cmsg_walk m mhdr c = None"
proof -
  have "CMSG_NXTHDR m mhdr c = Some c"
    using NXTHDR_eq(2) [OF assms(1,2) _ assms(4)] assms(3) by (simp add: align8_def ALIGN_reg_def)
  then have "cmsg_walk m mhdr c = do { cs \<leftarrow> cmsg_walk m mhdr c; Some (c # cs) }"
    using assms(2) by (subst cmsg_walk.simps) simp
  then show ?thesis by (cases "cmsg_walk m mhdr c") auto
qed

text \<open>A walk that returns lists every header behind its start, so when the walk from a reached header does not
  return, the whole walk does not.\<close>

lemma walk_Cons:
  "c \<noteq> NULL \<Longrightarrow> cmsg_walk m mhdr c = Some as \<longleftrightarrow>
    (\<exists>n bs. CMSG_NXTHDR m mhdr c = Some n \<and> cmsg_walk m mhdr n = Some bs \<and> as = c # bs)"
  by (subst cmsg_walk.simps) (auto simp: Some_bind_conv)

lemma walk_NULL: "cmsg_walk m mhdr NULL = Some []"
  by (simp add: cmsg_walk.simps)

lemma walk_suffix:
  "cmsg_walk m mhdr a = Some as \<Longrightarrow> c \<in> set as \<Longrightarrow>
    c \<noteq> NULL \<and> (\<exists>bs. cmsg_walk m mhdr c = Some (c # bs) \<and> set bs \<subseteq> set as)"
proof (induction as arbitrary: a)
  case (Cons x as)
  then have a: "a \<noteq> NULL" by (auto simp: walk_NULL)
  from Cons.prems(1) obtain n where n: "cmsg_walk m mhdr n = Some as" "x = a" by (auto simp: walk_Cons [OF a])
  show ?case
  proof (cases "c = a")
    case True
    with Cons.prems(1) a n(2) show ?thesis by auto
  next
    case False
    with Cons.prems(2) n(2) have "c \<in> set as" by simp
    with Cons.IH [OF n(1)] show ?thesis by auto
  qed
qed simp

lemma walk_lists_reached:
  assumes "cmsg_walk m mhdr (CMSG_FIRSTHDR mhdr) = Some as"
  shows "cmsg_reached m mhdr c \<Longrightarrow> c \<in> set as"
proof (induction rule: cmsg_reached.induct)
  case first
  with assms show ?case by (auto simp: walk_Cons)
next
  case (follows c n)
  from walk_suffix [OF assms follows.IH] obtain bs where bs: "c \<noteq> NULL" "cmsg_walk m mhdr c = Some (c # bs)" "set bs \<subseteq> set as"
    by blast
  then have "cmsg_walk m mhdr n = Some bs" using follows.hyps(2) by (auto simp: walk_Cons [OF bs(1)])
  then have "n \<in> set bs" by (auto simp: walk_Cons [OF follows.hyps(3)])
  with bs(3) show ?case by blast
qed

section \<open>Messages laid out with the macros\<close>

text \<open>The messages \<open>cs\<close> one behind the other from \<open>a\<close> on; the padding may hold anything.\<close>

definition message_space :: "message \<Rightarrow> nat" where
  "message_space c = 16 + align8 (length (snd (snd c)))"

fun messages_at :: "memory \<Rightarrow> ptr \<Rightarrow> message list \<Rightarrow> bool" where
  "messages_at m a [] \<longleftrightarrow> True"
| "messages_at m a ((level, type, d) # cs) \<longleftrightarrow>
     load32 m a = Some (ucast (CMSG_LEN (of_nat (length d)))) \<and>
     load32 m (a + 4) = Some level \<and> load32 m (a + 8) = Some type \<and>
     load_bytes m (CMSG_DATA a) (length d) = Some d \<and>
     messages_at m (a + CMSG_SPACE (of_nat (length d))) cs"

lemma message_numbers:
  assumes "length d + 16 < 2 ^ 32"
  shows "unat (ucast (CMSG_LEN (of_nat (length d))) :: u32) = 16 + length d"
    and "unat (CMSG_SPACE (of_nat (length d))) = 16 + align8 (length d)"
    and "ALIGN_reg (ucast (ucast (CMSG_LEN (of_nat (length d))) :: u32)) = CMSG_SPACE (of_nat (length d))"
proof -
  have d: "unat (of_nat (length d) :: u64) = length d" using assms by (simp add: unat_of_nat)
  have l: "unat (CMSG_LEN (of_nat (length d))) = 16 + length d"
    using assms d by (simp only: CMSG_LEN_def ALIGN_sizeof, subst unat_add_small) simp_all
  then show u: "unat (ucast (CMSG_LEN (of_nat (length d))) :: u32) = 16 + length d"
    using assms by (simp add: unsigned_ucast_eq take_bit_nat_eq_self)
  have "align8 (length d) < length d + 8" by (rule align8_bounds(2))
  moreover have al: "unat (ALIGN_reg (of_nat (length d))) = align8 (length d)"
    using assms d by (subst unat_ALIGN_reg) simp_all
  ultimately show sp: "unat (CMSG_SPACE (of_nat (length d))) = 16 + align8 (length d)"
    using assms by (simp only: CMSG_SPACE_def ALIGN_sizeof, subst unat_add_small) simp_all
  show "ALIGN_reg (ucast (ucast (CMSG_LEN (of_nat (length d))) :: u32)) = CMSG_SPACE (of_nat (length d))"
    unfolding word_unat_eq_iff using assms u sp
    by (subst unat_ALIGN_reg) (simp_all add: unat_ucast_u32 align8_bounds)
qed

lemma walk_messages:
  assumes "user_buffer mhdr"
  shows "messages_at m a cs \<Longrightarrow> cs \<noteq> [] \<Longrightarrow> a \<noteq> NULL \<Longrightarrow>
    unat a + sum_list (map message_space cs) = control_end mhdr \<Longrightarrow>
    \<forall>c\<in>set cs. length (snd (snd c)) + 16 < 2 ^ 32 \<Longrightarrow>
    \<exists>as. cmsg_walk m mhdr a = Some as \<and> those (map (cmsg_read m) as) = Some cs"
proof (induction cs arbitrary: a)
  case (Cons c cs)
  obtain level type d where c: "c = (level, type, d)" by (cases c)
  have d: "length d + 16 < 2 ^ 32" using Cons.prems(5) c by simp
  note num = message_numbers [OF d]
  let ?n = "a + CMSG_SPACE (of_nat (length d))"
  have ld: "load32 m a = Some (ucast (CMSG_LEN (of_nat (length d))))" using Cons.prems(1) c by simp
  have sp: "unat a + 16 + align8 (length d) + sum_list (map message_space cs) = control_end mhdr"
    using Cons.prems(4) c by (simp add: message_space_def [of "(level, type, d)"])
  note nx = NXTHDR_eq [OF assms Cons.prems(3) _ ld]
  have n: "unat ?n = unat a + 16 + align8 (length d)"
    and next_eq: "CMSG_NXTHDR m mhdr a = Some (if cs = [] then NULL else ?n)"
    using nx sp num align8_bounds(3) [of "length d"]
    by (cases cs; auto simp: message_space_def)+
  have read: "cmsg_read m a = Some c"
    using Cons.prems(1) c num(1) by (simp add: cmsg_read_def load_cmsghdr_def)
  show ?case
  proof (cases "cs = []")
    case True
    have "cmsg_walk m mhdr a = Some [a]"
      using next_eq True Cons.prems(3) by (subst cmsg_walk.simps) (simp add: cmsg_walk.simps [of _ _ NULL])
    with read True show ?thesis by simp
  next
    case False
    have "?n \<noteq> NULL" using n by (metis add_is_0 unat_0 zero_neq_numeral)
    then obtain as where as: "cmsg_walk m mhdr ?n = Some as" "those (map (cmsg_read m) as) = Some cs"
      using Cons.IH [of ?n] Cons.prems c False n sp by auto
    have "cmsg_walk m mhdr a = Some (a # as)"
      using next_eq False as(1) Cons.prems(3) by (subst cmsg_walk.simps) simp
    with read as(2) show ?thesis by simp
  qed
qed simp

section \<open>Properties\<close>

text \<open>C11 Control messages are read back: when the messages \<open>cs\<close> are laid out with \<open>CMSG_LEN\<close> as the length
  of each and \<open>CMSG_SPACE\<close> as its room, and fill the buffer, a receiver that starts at
  \<open>CMSG_FIRSTHDR\<close>, goes on with \<open>CMSG_NXTHDR\<close> and takes the bytes at \<open>CMSG_DATA\<close> gets exactly \<open>cs\<close>; the padding
  may hold anything, and no message is one of the cases.\<close>

theorem cmsg_receive_roundtrip:
  assumes "user_buffer mhdr" and "messages_at m (msg_control mhdr) cs"
    and "unat (msg_controllen mhdr) = sum_list (map message_space cs)"
    and "\<forall>c\<in>set cs. length (snd (snd c)) + 16 < 2 ^ 32"
  shows "cmsg_receive m mhdr = Some cs"
proof (cases "cs = []")
  case True
  with assms(3) have "CMSG_FIRSTHDR mhdr = NULL"
    by (simp add: CMSG_FIRSTHDR_def sizeof_cmsghdr_def unat_eq_0)
  with True show ?thesis by (simp add: cmsg_receive_def cmsg_walk.simps)
next
  case False
  then obtain c cs' where "cs = c # cs'" by (cases cs) auto
  with assms(3) have "12 \<le> unat (msg_controllen mhdr)" by (simp add: message_space_def [of c])
  then have "CMSG_FIRSTHDR mhdr = msg_control mhdr"
    by (simp add: CMSG_FIRSTHDR_def sizeof_cmsghdr_def word_le_nat_alt unat_ucast_u32)
  moreover obtain as where "cmsg_walk m mhdr (msg_control mhdr) = Some as" "those (map (cmsg_read m) as) = Some cs"
    using walk_messages [OF assms(1,2) False] assms by (auto simp: user_buffer_def control_end_def)
  ultimately show ?thesis by (simp add: cmsg_receive_def)
qed

text \<open>C12 Walking the control messages of a mapped buffer of user memory, whatever it contains: every header a
  receiver reaches lies whole inside the buffer; the walk fails to end exactly when some header it reaches, with room
  for one more aligned header behind its start, claims the length zero; and when it ends it has visited exactly the reached
  headers, each once, at increasing addresses.  Nothing is required of payload and padding.\<close>

theorem cmsg_walk_safe:
  assumes "user_buffer mhdr" and "buffer_mapped m mhdr"
  shows "(\<forall>c. cmsg_reached m mhdr c \<longrightarrow> cmsg_inside mhdr c) \<and>
    (cmsg_walk m mhdr (CMSG_FIRSTHDR mhdr) = None \<longleftrightarrow>
      (\<exists>c. cmsg_reached m mhdr c \<and> unat c + 16 \<le> control_end mhdr \<and> load32 m c = Some 0)) \<and>
    (\<forall>as. cmsg_walk m mhdr (CMSG_FIRSTHDR mhdr) = Some as \<longrightarrow>
      sorted_wrt (<) as \<and> set as = {c. cmsg_reached m mhdr c})"
proof -
  have inside: "\<forall>c. cmsg_reached m mhdr c \<longrightarrow> cmsg_inside mhdr c" using reached_inside [OF assms(1)] by blast
  have stuck: "cmsg_walk m mhdr (CMSG_FIRSTHDR mhdr) = None"
    if c: "cmsg_reached m mhdr c" "unat c + 16 \<le> control_end mhdr" "load32 m c = Some 0" for c
  proof (rule ccontr)
    assume "cmsg_walk m mhdr (CMSG_FIRSTHDR mhdr) \<noteq> None"
    then obtain as where as: "cmsg_walk m mhdr (CMSG_FIRSTHDR mhdr) = Some as" by blast
    from walk_suffix [OF as walk_lists_reached [OF as c(1)]] walk_diverges [OF assms(1) _ c(2,3)] show False by auto
  qed
  have ends: "\<exists>as. cmsg_walk m mhdr (CMSG_FIRSTHDR mhdr) = Some as \<and> sorted_wrt (<) as \<and> (\<forall>a \<in> set as. cmsg_reached m mhdr a)"
    if nz: "\<And>c. cmsg_reached m mhdr c \<Longrightarrow> unat c + 16 \<le> control_end mhdr \<Longrightarrow> load32 m c \<noteq> Some 0"
  proof (cases "CMSG_FIRSTHDR mhdr = NULL")
    case False
    then have r: "cmsg_reached m mhdr (CMSG_FIRSTHDR mhdr)" by (rule cmsg_reached.first)
    from walk_ends [OF assms nz r] r show ?thesis by auto
  qed (simp add: walk_NULL)
  show ?thesis
  proof (intro conjI allI impI iffI)
    show "cmsg_inside mhdr c" if "cmsg_reached m mhdr c" for c using that inside by blast
    show "\<exists>c. cmsg_reached m mhdr c \<and> unat c + 16 \<le> control_end mhdr \<and> load32 m c = Some 0"
      if "cmsg_walk m mhdr (CMSG_FIRSTHDR mhdr) = None" using that ends by fastforce
    show "cmsg_walk m mhdr (CMSG_FIRSTHDR mhdr) = None"
      if "\<exists>c. cmsg_reached m mhdr c \<and> unat c + 16 \<le> control_end mhdr \<and> load32 m c = Some 0" using that stuck by blast
    fix as assume as: "cmsg_walk m mhdr (CMSG_FIRSTHDR mhdr) = Some as"
    with stuck have "\<And>c. cmsg_reached m mhdr c \<Longrightarrow> unat c + 16 \<le> control_end mhdr \<Longrightarrow> load32 m c \<noteq> Some 0" by fastforce
    with ends as have "sorted_wrt (<) as" "\<forall>a \<in> set as. cmsg_reached m mhdr a" by fastforce+
    with walk_lists_reached [OF as] show "sorted_wrt (<) as" "set as = {c. cmsg_reached m mhdr c}" by auto
  qed
qed

section \<open>Witnesses\<close>

text \<open>Two messages of four and of one byte; the padding is not zero.\<close>

definition sample_control :: "u8 list" where
  "sample_control = [20, 0, 0, 0, 255, 255, 0, 0, 1, 0, 0, 0, 7, 7, 7, 7, 1, 2, 3, 4, 7, 7, 7, 7,
     17, 0, 0, 0, 255, 255, 0, 0, 2, 0, 0, 0, 7, 7, 7, 7, 9, 7, 7, 7, 7, 7, 7, 7]"

definition sample_msghdr :: msghdr where
  "sample_msghdr = \<lparr>msg_name = 0, msg_namelen = 0, msg_iov = 0, msg_iovlen = 0, msg_control = 0x1000,
     msg_controllen = 48, msg_flags = 0\<rparr>"

definition sample_messages :: "message list" where
  "sample_messages = [(0xffff, 1, [1, 2, 3, 4]), (0xffff, 2, [9])]"

definition sample_buffer :: memory where
  "sample_buffer = memory_at 0x1000 sample_control"

lemma sample_user_buffer: "user_buffer sample_msghdr"
  by (simp add: user_buffer_def control_end_def sample_msghdr_def)

theorem cmsg_receive_roundtrip_witness: "cmsg_receive sample_buffer sample_msghdr = Some sample_messages"
proof (rule cmsg_receive_roundtrip [OF sample_user_buffer])
  show "messages_at sample_buffer (msg_control sample_msghdr) sample_messages" by code_simp
qed (simp_all add: sample_messages_def sample_msghdr_def message_space_def align8_def)

text \<open>The buffer above is walked in two steps.  With a second message of length zero, behind a first one whose payload is a zero
  descriptor, the walk does not end.\<close>

definition sample_stuck :: memory where
  "sample_stuck = memory_at 0x1000 [20, 0, 0, 0, 255, 255, 0, 0, 1, 0, 0, 0, 7, 7, 7, 7, 0, 0, 0, 0, 7, 7, 7, 7,
     0, 0, 0, 0, 255, 255, 0, 0, 2, 0, 0, 0, 7, 7, 7, 7, 9, 7, 7, 7, 7, 7, 7, 7]"

lemma sample_buffer_mapped: "buffer_mapped sample_buffer sample_msghdr" "buffer_mapped sample_stuck sample_msghdr"
  by code_simp+

lemma sample_reached:
  "CMSG_FIRSTHDR sample_msghdr = 0x1000" "CMSG_NXTHDR sample_buffer sample_msghdr 0x1000 = Some 0x1018"
  "CMSG_NXTHDR sample_buffer sample_msghdr 0x1018 = Some NULL" "CMSG_NXTHDR sample_stuck sample_msghdr 0x1000 = Some 0x1018"
  "load32 sample_stuck 0x1018 = Some 0" "control_end sample_msghdr = 0x1030"
  by code_simp+

theorem cmsg_walk_safe_witness:
  "cmsg_walk sample_buffer sample_msghdr 0x1000 = Some [0x1000, 0x1018] \<and>
   {c. cmsg_reached sample_buffer sample_msghdr c} = {0x1000, 0x1018} \<and>
   cmsg_walk sample_stuck sample_msghdr 0x1000 = None"
proof (intro conjI)
  show w: "cmsg_walk sample_buffer sample_msghdr 0x1000 = Some [0x1000, 0x1018]"
    by (simp add: walk_Cons walk_NULL sample_reached)
  from cmsg_walk_safe [OF sample_user_buffer sample_buffer_mapped(1)] w
  show "{c. cmsg_reached sample_buffer sample_msghdr c} = {0x1000, 0x1018}" by (auto simp: sample_reached)
  have "cmsg_reached sample_stuck sample_msghdr 0x1000"
    using cmsg_reached.first [of sample_msghdr sample_stuck] by (simp add: sample_reached)
  from cmsg_reached.follows [OF this sample_reached(4)] have "cmsg_reached sample_stuck sample_msghdr 0x1018" by simp
  with cmsg_walk_safe [OF sample_user_buffer sample_buffer_mapped(2)] show "cmsg_walk sample_stuck sample_msghdr 0x1000 = None"
    by (auto simp: sample_reached intro!: exI [of _ "0x1018 :: ptr"])
qed

end
