(* ===== verification/Event_Handlers.thy ===== *)
theory Event_Handlers
  imports Sys_Queue Sys_Locks "HOL-Library.Sublist"
begin

text \<open>
  The invocation of the handlers of an event: the structures and macros of
  \<open>include/sys/eventhandler.h\<close>.  A list of handlers is a tail queue of entries under a mutex.
  \<open>_EVENTHANDLER_INVOKE\<close> is called with the mutex held; it counts itself in \<open>el_runcount\<close>, releases the mutex
  around every handler, and the last of the running invocations removes the entries that were
  marked dead meanwhile.  The assertions are those of a kernel with \<open>INVARIANTS\<close>: one that fails has no result.

  What is not in the header is an argument, a field of \<open>evh_ext\<close>: the slow paths of the mutex,
  the functions of the kernel's event handler module, and a handler.  Everything that happens while
  the mutex is released, by the handler or by other threads, is the result of the handler.  \<open>evh_env\<close>
  says what the macro relies on there: entries may be added and marked dead, none is taken
  out while an invocation is running.

  Shown: an invocation returns, with the mutex released, although the list may grow under it;
  it runs the handlers in the order of the list, each once, none that was dead when it
  began, and all that are still alive when it ends; a nested invocation never removes entries
  and is itself something a handler may do.
\<close>

unbundle bit_operations_syntax

section \<open>The structures\<close>

record eventhandler_entry =
  ee_priority :: u32
  ee_arg :: ptr
  eh_func :: ptr

abbreviation (input) EHE_DEAD_PRIORITY :: u32 where "EHE_DEAD_PRIORITY \<equiv> - 1"
abbreviation (input) EHL_INITTED :: u32 where "EHL_INITTED \<equiv> 1"

record eventhandler_list =
  el_name :: ptr
  el_flags :: u32
  el_runcount :: u32
  el_lock :: mtx

text \<open>The entries and lists by address; the links of both, \<open>ee_link\<close> and \<open>el_entries\<close>, are in the heap
  of the queues, the head \<open>el_entries\<close> at the address of its list.  \<open>evh_world\<close> is what the handlers act on.\<close>

record 'w evh =
  evh_links :: qheap
  evh_entries :: "ptr \<Rightarrow> eventhandler_entry option"
  evh_lists :: "ptr \<Rightarrow> eventhandler_list option"
  evh_world :: 'w

record 'w evh_ext =
  mtx_lock_sleep :: "mtx \<Rightarrow> u64 \<Rightarrow> u32 \<Rightarrow> mtx"
  mtx_unlock_sleep :: "mtx \<Rightarrow> u32 \<Rightarrow> mtx"
  handler :: "ptr \<Rightarrow> ptr \<Rightarrow> 'w evh \<Rightarrow> 'w evh"
  eventhandler_prune_list :: "ptr \<Rightarrow> 'w evh \<Rightarrow> 'w evh"
  eventhandler_find_list :: "string \<Rightarrow> 'w evh \<Rightarrow> ptr \<times> 'w evh"
  eventhandler_register :: "ptr \<Rightarrow> string \<Rightarrow> ptr \<Rightarrow> ptr \<Rightarrow> u32 \<Rightarrow> 'w evh \<Rightarrow> ptr \<times> 'w evh"
  eventhandler_deregister :: "ptr \<Rightarrow> ptr \<Rightarrow> 'w evh \<Rightarrow> 'w evh"

section \<open>The macros\<close>

definition KASSERT :: "bool \<Rightarrow> unit option" where
  "KASSERT c = (if c then Some () else None)"

definition with_list :: "ptr \<Rightarrow> (eventhandler_list \<Rightarrow> eventhandler_list) \<Rightarrow> 'w evh \<Rightarrow> 'w evh option" where
  "with_list p f s = map_option (\<lambda>l. s\<lparr>evh_lists := (evh_lists s)(p \<mapsto> f l)\<rparr>) (evh_lists s p)"

definition EHL_LOCK :: "'w evh_ext \<Rightarrow> u64 \<Rightarrow> ptr \<Rightarrow> 'w evh \<Rightarrow> 'w evh option" where
  "EHL_LOCK X curthread p = with_list p (\<lambda>l. l\<lparr>el_lock := mtx_lock_fast (mtx_lock_sleep X) curthread 0 (el_lock l)\<rparr>)"

definition EHL_UNLOCK :: "'w evh_ext \<Rightarrow> u64 \<Rightarrow> ptr \<Rightarrow> 'w evh \<Rightarrow> 'w evh option" where
  "EHL_UNLOCK X curthread p = with_list p (\<lambda>l. l\<lparr>el_lock := mtx_unlock_fast (mtx_unlock_sleep X) curthread 0 (el_lock l)\<rparr>)"

definition EHL_LOCK_ASSERT :: "u64 \<Rightarrow> ptr \<Rightarrow> 'w evh \<Rightarrow> unit option" where
  "EHL_LOCK_ASSERT curthread p s = do { l \<leftarrow> evh_lists s p; KASSERT (mtx_owned curthread (el_lock l)) }"

text \<open>The body of the loop for the entry \<open>ep\<close>, with the entries whose handler ran.\<close>

definition evh_visit :: "'w evh_ext \<Rightarrow> u64 \<Rightarrow> ptr \<Rightarrow> ptr \<Rightarrow> 'w evh \<Rightarrow> (ptr list \<times> 'w evh) option" where
  "evh_visit X curthread list ep s = do {
     e \<leftarrow> evh_entries s ep;
     if ee_priority e \<noteq> EHE_DEAD_PRIORITY then do {
       s \<leftarrow> EHL_UNLOCK X curthread list s;
       t \<leftarrow> evh_entries s ep;
       s \<leftarrow> EHL_LOCK X curthread list (handler X (eh_func t) (ee_arg t) s);
       Some ([ep], s) }
     else Some ([], s) }"

partial_function (option) evh_loop :: "'w evh_ext \<Rightarrow> u64 \<Rightarrow> ptr \<Rightarrow> ptr \<Rightarrow> 'w evh \<Rightarrow> (ptr list \<times> 'w evh) option" where
  "evh_loop X curthread list ep s =
     (if ep = NULL then Some ([], s) else do {
        (run, s) \<leftarrow> evh_visit X curthread list ep s;
        ep' \<leftarrow> TAILQ_NEXT (evh_links s) ep;
        (runs, s) \<leftarrow> evh_loop X curthread list ep' s;
        Some (run @ runs, s) })"

definition EVENTHANDLER_INVOKE_list :: "'w evh_ext \<Rightarrow> u64 \<Rightarrow> ptr \<Rightarrow> 'w evh \<Rightarrow> (ptr list \<times> 'w evh) option" where
  "EVENTHANDLER_INVOKE_list X curthread list s = do {
     l \<leftarrow> evh_lists s list;
     KASSERT (el_flags l AND EHL_INITTED \<noteq> 0);
     EHL_LOCK_ASSERT curthread list s;
     s \<leftarrow> with_list list (\<lambda>l. l\<lparr>el_runcount := el_runcount l + 1\<rparr>) s;
     l \<leftarrow> evh_lists s list;
     KASSERT (el_runcount l > 0);
     ep \<leftarrow> TAILQ_FIRST (evh_links s) list;
     (runs, s) \<leftarrow> evh_loop X curthread list ep s;
     l \<leftarrow> evh_lists s list;
     KASSERT (el_runcount l > 0);
     s \<leftarrow> with_list list (\<lambda>l. l\<lparr>el_runcount := el_runcount l - 1\<rparr>) s;
     l \<leftarrow> evh_lists s list;
     s \<leftarrow> EHL_UNLOCK X curthread list (if el_runcount l = 0 then eventhandler_prune_list X list s else s);
     Some (runs, s) }"

definition EVENTHANDLER_INVOKE :: "'w evh_ext \<Rightarrow> u64 \<Rightarrow> string \<Rightarrow> 'w evh \<Rightarrow> (ptr list \<times> 'w evh) option" where
  "EVENTHANDLER_INVOKE X curthread name s =
     (case eventhandler_find_list X name s of (el, s) \<Rightarrow>
        if el \<noteq> NULL then EVENTHANDLER_INVOKE_list X curthread el s else Some ([], s))"

definition EVENTHANDLER_REGISTER :: "'w evh_ext \<Rightarrow> string \<Rightarrow> ptr \<Rightarrow> ptr \<Rightarrow> u32 \<Rightarrow> 'w evh \<Rightarrow> ptr \<times> 'w evh" where
  "EVENTHANDLER_REGISTER X name func arg priority = eventhandler_register X NULL name func arg priority"

definition EVENTHANDLER_DEREGISTER :: "'w evh_ext \<Rightarrow> string \<Rightarrow> ptr \<Rightarrow> 'w evh \<Rightarrow> 'w evh" where
  "EVENTHANDLER_DEREGISTER X name tag s =
     (case eventhandler_find_list X name s of (el, s) \<Rightarrow>
        if el \<noteq> NULL then eventhandler_deregister X el tag s else s)"

section \<open>What the macro relies on\<close>

text \<open>The list at \<open>p\<close> consists of the entries \<open>xs\<close>, all from the finite set \<open>E\<close>; at least \<open>k\<close> invocations are running.\<close>

definition evh_ok :: "ptr \<Rightarrow> ptr set \<Rightarrow> nat \<Rightarrow> ptr list \<Rightarrow> 'w evh \<Rightarrow> bool" where
  "evh_ok p E k xs s \<longleftrightarrow> tailq (evh_links s) p xs \<and> set xs \<subseteq> E \<and> (\<forall>x\<in>set xs. evh_entries s x \<noteq> None) \<and>
     (\<exists>l. evh_lists s p = Some l \<and> el_flags l AND EHL_INITTED \<noteq> 0 \<and> k \<le> unat (el_runcount l) \<and>
       \<not> mtx_recursed (el_lock l))"

definition evh_locked :: "u64 \<Rightarrow> ptr \<Rightarrow> 'w evh \<Rightarrow> bool" where
  "evh_locked tid p s \<longleftrightarrow> (\<exists>l. evh_lists s p = Some l \<and> mtx_owned tid (el_lock l))"

definition evh_live :: "'w evh \<Rightarrow> ptr \<Rightarrow> bool" where
  "evh_live s x \<longleftrightarrow> (\<exists>e. evh_entries s x = Some e \<and> ee_priority e \<noteq> EHE_DEAD_PRIORITY)"

text \<open>From \<open>s\<close> to \<open>s'\<close> the list may grow, inside \<open>E\<close>, and entries may die; the count of running invocations
  stays at least \<open>k\<close>, and the mutex is not held by \<open>tid\<close> before and after.\<close>

definition evh_env :: "u64 \<Rightarrow> ptr \<Rightarrow> ptr set \<Rightarrow> nat \<Rightarrow> 'w evh \<Rightarrow> 'w evh \<Rightarrow> bool" where
  "evh_env tid p E k s s' \<longleftrightarrow> (\<forall>xs. evh_ok p E k xs s \<and> \<not> evh_locked tid p s \<longrightarrow>
     (\<exists>ys. evh_ok p E k ys s' \<and> \<not> evh_locked tid p s' \<and> subseq xs ys \<and>
       (\<forall>x\<in>set xs. evh_live s' x \<longrightarrow> evh_live s x)))"

text \<open>Pruning leaves the structure of the list itself, with its mutex, alone.\<close>

definition prune_ok :: "'w evh_ext \<Rightarrow> ptr \<Rightarrow> bool" where
  "prune_ok X p \<longleftrightarrow> (\<forall>s. evh_lists (eventhandler_prune_list X p s) p = evh_lists s p)"

section \<open>Locking\<close>

lemma KASSERT_True: "c \<Longrightarrow> KASSERT c = Some ()"
  by (simp add: KASSERT_def)

lemma EHL_UNLOCK_ok:
  assumes "thread_ptr tid" and "mtx_slow_ok (mtx_lock_sleep X) (mtx_unlock_sleep X) tid" and "evh_ok p E k xs s" and "evh_locked tid p s"
  obtains s' where "EHL_UNLOCK X tid p s = Some s'" and "evh_ok p E k xs s'" and "\<not> evh_locked tid p s'"
    and "evh_entries s' = evh_entries s"
proof -
  from assms(3,4) obtain l where l: "evh_lists s p = Some l" "mtx_owned tid (el_lock l)" "\<not> mtx_recursed (el_lock l)"
    by (auto simp: evh_ok_def evh_locked_def)
  from mtx_fast_owned(2) [OF assms(1,2) l(3,2)] assms(3) l
  show ?thesis
    by (intro that [of "s\<lparr>evh_lists := (evh_lists s)(p \<mapsto> l\<lparr>el_lock := mtx_unlock_fast (mtx_unlock_sleep X) tid 0 (el_lock l)\<rparr>)\<rparr>"])
      (auto simp: EHL_UNLOCK_def with_list_def evh_ok_def evh_locked_def)
qed

lemma EHL_LOCK_ok:
  assumes "thread_ptr tid" and "mtx_slow_ok (mtx_lock_sleep X) (mtx_unlock_sleep X) tid" and "evh_ok p E k xs s" and "\<not> evh_locked tid p s"
  obtains s' where "EHL_LOCK X tid p s = Some s'" and "evh_ok p E k xs s'" and "evh_locked tid p s'"
    and "evh_entries s' = evh_entries s"
proof -
  from assms(3,4) obtain l where l: "evh_lists s p = Some l" "\<not> mtx_owned tid (el_lock l)" "\<not> mtx_recursed (el_lock l)"
    by (auto simp: evh_ok_def evh_locked_def)
  from mtx_fast_owned(1) [OF assms(1,2) l(3,2)] assms(3) l
  show ?thesis
    by (intro that [of "s\<lparr>evh_lists := (evh_lists s)(p \<mapsto> l\<lparr>el_lock := mtx_lock_fast (mtx_lock_sleep X) tid 0 (el_lock l)\<rparr>)\<rparr>"])
      (auto simp: EHL_LOCK_def with_list_def evh_ok_def evh_locked_def)
qed

section \<open>The loop\<close>

lemma evh_live_cong: "evh_entries s' = evh_entries s \<Longrightarrow> evh_live s' = evh_live s"
  by (auto simp: evh_live_def fun_eq_iff)

lemma evh_ok_length: "evh_ok p E k xs s \<Longrightarrow> finite E \<Longrightarrow> length xs \<le> card E"
  using slist_distinct [OF tailq_slist] card_mono [of E "set xs"]
  by (fastforce simp: evh_ok_def distinct_card)

lemma tailq_NEXT_split:
  "tailq H h (as @ x # bs) \<Longrightarrow> TAILQ_NEXT H x = Some (case bs of [] \<Rightarrow> NULL | b # _ \<Rightarrow> b)"
  by (cases bs) (auto simp: TAILQ_NEXT_def rep_defs link_defs)

lemma subseq_subset: "subseq xs ys \<Longrightarrow> set xs \<subseteq> set ys"
  by (auto elim: list_emb_set)

lemma subseq_distinct: "subseq xs ys \<Longrightarrow> distinct ys \<Longrightarrow> distinct xs"
  by (induction rule: list_emb.induct) (auto dest: subseq_subset)

text \<open>What one visit does to the list.\<close>

lemma evh_visit_ok:
  assumes "thread_ptr tid" and "mtx_slow_ok (mtx_lock_sleep X) (mtx_unlock_sleep X) tid" and env: "\<And>f a s. evh_env tid p E k s (handler X f a s)"
    and s: "evh_ok p E k xs s" "evh_locked tid p s" and x: "x \<in> set xs"
  obtains run s' ys where "evh_visit X tid p x s = Some (run, s')" and "run = (if evh_live s x then [x] else [])"
    and "evh_ok p E k ys s'" and "evh_locked tid p s'" and "subseq xs ys"
    and "\<forall>y\<in>set xs. evh_live s' y \<longrightarrow> evh_live s y"
proof -
  from s(1) x obtain e where e: "evh_entries s x = Some e" by (auto simp: evh_ok_def)
  show ?thesis
  proof (cases "evh_live s x")
    case True
    obtain s1 where s1: "EHL_UNLOCK X tid p s = Some s1" "evh_ok p E k xs s1" "\<not> evh_locked tid p s1"
      "evh_entries s1 = evh_entries s" using EHL_UNLOCK_ok [OF assms(1,2) s] by blast
    let ?s2 = "handler X (eh_func e) (ee_arg e) s1"
    from env s1 obtain ys where s2: "evh_ok p E k ys ?s2" "\<not> evh_locked tid p ?s2" "subseq xs ys"
        "\<forall>y\<in>set xs. evh_live ?s2 y \<longrightarrow> evh_live s1 y"
      unfolding evh_env_def by blast
    obtain s3 where s3: "EHL_LOCK X tid p ?s2 = Some s3" "evh_ok p E k ys s3" "evh_locked tid p s3"
        "evh_entries s3 = evh_entries ?s2"
      using EHL_LOCK_ok [OF assms(1,2) s2(1,2)] by blast
    from True e s1 s2 s3 show ?thesis
      by (intro that [of "[x]" s3 ys])
        (auto simp: evh_visit_def evh_live_def evh_live_cong [OF s3(4)] evh_live_cong [OF s1(4)])
  next
    case False
    with e s show ?thesis by (intro that [of "[]" s xs]) (auto simp: evh_visit_def evh_live_def)
  qed
qed

lemma evh_loop_ok:
  assumes "thread_ptr tid" and "mtx_slow_ok (mtx_lock_sleep X) (mtx_unlock_sleep X) tid" and env: "\<And>f a s. evh_env tid p E k s (handler X f a s)" and "finite E"
  shows "evh_ok p E k (pre @ rest) s \<Longrightarrow> evh_locked tid p s \<Longrightarrow>
    \<exists>runs s' ys zs. evh_loop X tid p (case rest of [] \<Rightarrow> NULL | b # _ \<Rightarrow> b) s = Some (runs, s') \<and>
      evh_ok p E k (ys @ zs) s' \<and> evh_locked tid p s' \<and> subseq (pre @ rest) (ys @ zs) \<and>
      subseq pre ys \<and> subseq runs zs \<and>
      (\<forall>x\<in>set rest. evh_live s' x \<longrightarrow> x \<in> set runs) \<and>
      (\<forall>x\<in>set (pre @ rest). (x \<in> set runs \<or> evh_live s' x) \<longrightarrow> evh_live s x)"
proof (induction "card E - length pre" arbitrary: pre rest s rule: less_induct)
  case less
  show ?case
  proof (cases rest)
    case Nil
    with less.prems show ?thesis by (intro exI [of _ "[]"] exI [of _ s] exI [of _ pre]) (simp add: evh_loop.simps)
  next
    case (Cons x suf)
    have x: "x \<noteq> NULL" using less.prems(1) slist_distinct [OF tailq_slist] by (fastforce simp: evh_ok_def Cons)
    obtain run s1 xs where v: "evh_visit X tid p x s = Some (run, s1)" "run = (if evh_live s x then [x] else [])"
        "evh_ok p E k xs s1" "evh_locked tid p s1" "subseq (pre @ x # suf) xs"
        "\<forall>y\<in>set (pre @ x # suf). evh_live s1 y \<longrightarrow> evh_live s y"
      using evh_visit_ok [OF assms(1-3) less.prems, of x] Cons by auto
    from list_emb_appendD [OF v(5)] obtain as bs where ab: "xs = as @ bs" "subseq pre as" "subseq (x # suf) bs" by blast
    from list_emb_ConsD [OF ab(3)] obtain cs suf' where c: "bs = cs @ x # suf'" "subseq suf suf'" by auto
    define pre' where "pre' = as @ cs"
    have xs: "xs = (pre' @ [x]) @ suf'" and pre: "subseq pre pre'"
      using ab c by (auto simp: pre'_def intro: subseq_order.trans)
    have nx: "TAILQ_NEXT (evh_links s1) x = Some (case suf' of [] \<Rightarrow> NULL | b # _ \<Rightarrow> b)"
      using v(3) tailq_NEXT_split [of _ p pre' x suf'] by (simp add: evh_ok_def xs)
    have "card E - length (pre' @ [x]) < card E - length pre"
      using list_emb_length [OF pre] evh_ok_length [OF v(3) assms(4)] by (simp add: xs)
    from less.hyps [OF this v(3,4) [unfolded xs]] obtain runs s' ys zs where ih:
        "evh_loop X tid p (case suf' of [] \<Rightarrow> NULL | b # _ \<Rightarrow> b) s1 = Some (runs, s')"
        "evh_ok p E k (ys @ zs) s'" "evh_locked tid p s'" "subseq xs (ys @ zs)" "subseq (pre' @ [x]) ys" "subseq runs zs"
        "\<forall>y\<in>set suf'. evh_live s' y \<longrightarrow> y \<in> set runs"
        "\<forall>y\<in>set xs. (y \<in> set runs \<or> evh_live s' y) \<longrightarrow> evh_live s1 y"
      unfolding xs by blast
    from list_emb_appendD [OF ih(5)] obtain a b where y: "ys = a @ b" "subseq pre' a" "subseq [x] b" by blast
    have loop: "evh_loop X tid p x s = Some (run @ runs, s')"
      using x v(1) nx ih(1) by (subst evh_loop.simps) simp
    have sub: "set (pre @ x # suf) \<subseteq> set xs" by (rule subseq_subset) (rule v(5))
    have "subseq (run @ runs) (b @ zs)"
      using y(3) ih(6) v(2) by (intro list_emb_append_mono) auto
    moreover have "subseq pre a" using pre y(2) by (rule subseq_order.trans)
    moreover have "subseq (pre @ rest) (ys @ zs)" using v(5) ih(4) Cons by (auto intro: subseq_order.trans)
    moreover have "\<forall>y\<in>set rest. evh_live s' y \<longrightarrow> y \<in> set (run @ runs)"
      using ih(7,8) v(2,6) sub Cons subseq_subset [OF c(2)] by auto
    moreover have "\<forall>y\<in>set (pre @ rest). (y \<in> set (run @ runs) \<or> evh_live s' y) \<longrightarrow> evh_live s y"
      using ih(8) v(2,6) sub Cons by (auto split: if_splits)
    ultimately show ?thesis
      using loop ih(2,3) y(1) Cons by (intro exI [of _ "run @ runs"] exI [of _ s'] exI [of _ a] exI [of _ "b @ zs"]) simp
  qed
qed

text \<open>An invocation counts itself in before the loop, and out behind it.\<close>

lemma evh_enter_ok:
  assumes "evh_ok p E k xs s" and "evh_locked tid p s" and "el_runcount (the (evh_lists s p)) \<noteq> - 1"
  obtains l s0 where "evh_lists s p = Some l" and "el_flags l AND EHL_INITTED \<noteq> 0" and "mtx_owned tid (el_lock l)"
    and "with_list p (\<lambda>l. l\<lparr>el_runcount := el_runcount l + 1\<rparr>) s = Some s0"
    and "evh_lists s0 p = Some (l\<lparr>el_runcount := el_runcount l + 1\<rparr>)" and "el_runcount l + 1 > 0"
    and "evh_ok p E (k + 1) xs s0" and "evh_locked tid p s0" and "evh_live s0 = evh_live s"
    and "TAILQ_FIRST (evh_links s0) p = Some (case xs of [] \<Rightarrow> NULL | b # _ \<Rightarrow> b)"
proof -
  from assms(1,2) obtain l where l: "evh_lists s p = Some l" "el_flags l AND EHL_INITTED \<noteq> 0" "k \<le> unat (el_runcount l)"
      "\<not> mtx_recursed (el_lock l)" "mtx_owned tid (el_lock l)"
    by (auto simp: evh_ok_def evh_locked_def)
  have nz: "el_runcount l + 1 \<noteq> 0" using assms(3) l(1) by (simp add: eq_neg_iff_add_eq_0)
  then have rc: "unat (el_runcount l + 1) = unat (el_runcount l) + 1"
    using unatSuc [of "el_runcount l"] by (simp add: add.commute)
  show ?thesis
  proof (rule that [of l "s\<lparr>evh_lists := (evh_lists s)(p \<mapsto> l\<lparr>el_runcount := el_runcount l + 1\<rparr>)\<rparr>"])
    show "TAILQ_FIRST (evh_links (s\<lparr>evh_lists := (evh_lists s)(p \<mapsto> l\<lparr>el_runcount := el_runcount l + 1\<rparr>)\<rparr>)) p =
        Some (case xs of [] \<Rightarrow> NULL | b # _ \<Rightarrow> b)"
      using assms(1) by (cases xs) (auto simp: evh_ok_def TAILQ_FIRST_def rep_defs link_defs)
  qed (use assms(1) l rc nz in \<open>auto simp: with_list_def evh_ok_def evh_locked_def word_gt_0 intro!: evh_live_cong\<close>)
qed

lemma evh_leave_ok:
  assumes "thread_ptr tid" and "mtx_slow_ok (mtx_lock_sleep X) (mtx_unlock_sleep X) tid" and "prune_ok X p"
    and "evh_ok p E (k + 1) ys s2" and "evh_locked tid p s2"
  obtains l s1 s' where "evh_lists s2 p = Some l" and "el_runcount l > 0"
    and "with_list p (\<lambda>l. l\<lparr>el_runcount := el_runcount l - 1\<rparr>) s2 = Some s1"
    and "evh_lists s1 p = Some (l\<lparr>el_runcount := el_runcount l - 1\<rparr>)"
    and "evh_ok p E k ys s1" and "evh_locked tid p s1" and "evh_live s1 = evh_live s2"
    and "EHL_UNLOCK X tid p (if el_runcount l - 1 = 0 then eventhandler_prune_list X p s1 else s1) = Some s'"
    and "\<not> evh_locked tid p s'" and "0 < k \<longrightarrow> evh_ok p E k ys s' \<and> evh_live s' = evh_live s2"
proof -
  from assms(4,5) obtain l where l: "evh_lists s2 p = Some l" "el_flags l AND EHL_INITTED \<noteq> 0"
      "k + 1 \<le> unat (el_runcount l)" "\<not> mtx_recursed (el_lock l)" "mtx_owned tid (el_lock l)"
    by (auto simp: evh_ok_def evh_locked_def)
  then have nz: "el_runcount l \<noteq> 0" by auto
  then have rc: "unat (el_runcount l - 1) = unat (el_runcount l) - 1" by (simp add: unat_minus_one)
  define s1 where "s1 = s2\<lparr>evh_lists := (evh_lists s2)(p \<mapsto> l\<lparr>el_runcount := el_runcount l - 1\<rparr>)\<rparr>"
  have s1: "evh_ok p E k ys s1" "evh_locked tid p s1" and live: "evh_live s1 = evh_live s2"
    using assms(4) l rc by (auto simp: evh_ok_def evh_locked_def s1_def intro!: evh_live_cong)
  let ?s3 = "if el_runcount l - 1 = 0 then eventhandler_prune_list X p s1 else s1"
  have "evh_lists ?s3 p = evh_lists s1 p" using assms(3) by (simp add: prune_ok_def)
  then obtain s' where s': "EHL_UNLOCK X tid p ?s3 = Some s'" "\<not> evh_locked tid p s'"
    using mtx_fast_owned(2) [OF assms(1,2) l(4,5)]
    by (auto simp: EHL_UNLOCK_def with_list_def evh_locked_def s1_def)
  have "evh_ok p E k ys s' \<and> evh_live s' = evh_live s2" if "0 < k"
  proof -
    have "el_runcount l - 1 \<noteq> 0" using that l(3) rc by auto
    with s'(1) have "EHL_UNLOCK X tid p s1 = Some s'" by simp
    moreover obtain s'' where "EHL_UNLOCK X tid p s1 = Some s''" "evh_ok p E k ys s''" "evh_entries s'' = evh_entries s1"
      using EHL_UNLOCK_ok [OF assms(1,2) s1] by blast
    ultimately show ?thesis using live evh_live_cong [of s' s1] by simp
  qed
  with l(1) nz s1 live s' show ?thesis
    by (intro that [of l s1 s']) (auto simp: word_gt_0 with_list_def s1_def)
qed

lemma EVENTHANDLER_INVOKE_list_ok:
  assumes "thread_ptr tid" and "mtx_slow_ok (mtx_lock_sleep X) (mtx_unlock_sleep X) tid" and "prune_ok X p"
    and "\<forall>f a s. evh_env tid p E (k + 1) s (handler X f a s)" and "finite E"
    and "evh_ok p E k xs s" and "evh_locked tid p s" and "el_runcount (the (evh_lists s p)) \<noteq> - 1"
  shows "\<exists>runs s1 ys s'. EVENTHANDLER_INVOKE_list X tid p s = Some (runs, s') \<and>
    evh_ok p E k ys s1 \<and> evh_locked tid p s1 \<and> subseq xs ys \<and> subseq runs ys \<and> distinct runs \<and>
    {x \<in> set xs. evh_live s1 x} \<subseteq> set runs \<and> set runs \<inter> set xs \<subseteq> {x. evh_live s x} \<and>
    EHL_UNLOCK X tid p (if el_runcount (the (evh_lists s1 p)) = 0 then eventhandler_prune_list X p s1 else s1) = Some s' \<and>
    \<not> evh_locked tid p s' \<and> (0 < k \<longrightarrow> evh_ok p E k ys s' \<and> (\<forall>x\<in>set xs. evh_live s' x \<longrightarrow> evh_live s x))"
proof -
  from evh_enter_ok [OF assms(6-8)] obtain l s0 where
    enter: "evh_lists s p = Some l" "el_flags l AND EHL_INITTED \<noteq> 0" "mtx_owned tid (el_lock l)"
      "with_list p (\<lambda>l. l\<lparr>el_runcount := el_runcount l + 1\<rparr>) s = Some s0"
      "evh_lists s0 p = Some (l\<lparr>el_runcount := el_runcount l + 1\<rparr>)" "el_runcount l + 1 > 0"
    and s0: "evh_ok p E (k + 1) xs s0" "evh_locked tid p s0" "evh_live s0 = evh_live s"
    and first: "TAILQ_FIRST (evh_links s0) p = Some (case xs of [] \<Rightarrow> NULL | b # _ \<Rightarrow> b)" .
  from evh_loop_ok [OF assms(1,2) assms(4) [rule_format] assms(5), of "[]" xs] s0(1,2)
  obtain runs s2 ys zs where loop: "evh_loop X tid p (case xs of [] \<Rightarrow> NULL | b # _ \<Rightarrow> b) s0 = Some (runs, s2)"
      "subseq xs (ys @ zs)" "subseq runs zs" "\<forall>x\<in>set xs. evh_live s2 x \<longrightarrow> x \<in> set runs"
      "\<forall>x\<in>set xs. (x \<in> set runs \<or> evh_live s2 x) \<longrightarrow> evh_live s0 x"
    and s2: "evh_ok p E (k + 1) (ys @ zs) s2" "evh_locked tid p s2"
    by (simp only: append_Nil) blast
  from evh_leave_ok [OF assms(1-3) s2] obtain l2 s1 s' where
    leave: "evh_lists s2 p = Some l2" "el_runcount l2 > 0"
      "with_list p (\<lambda>l. l\<lparr>el_runcount := el_runcount l - 1\<rparr>) s2 = Some s1"
      "evh_lists s1 p = Some (l2\<lparr>el_runcount := el_runcount l2 - 1\<rparr>)"
    and s1: "evh_ok p E k (ys @ zs) s1" "evh_locked tid p s1" "evh_live s1 = evh_live s2"
    and s': "EHL_UNLOCK X tid p (if el_runcount l2 - 1 = 0 then eventhandler_prune_list X p s1 else s1) = Some s'"
      "\<not> evh_locked tid p s'" "0 < k \<longrightarrow> evh_ok p E k (ys @ zs) s' \<and> evh_live s' = evh_live s2" .
  have "EVENTHANDLER_INVOKE_list X tid p s = Some (runs, s')"
    using s'(1) by (auto simp: EVENTHANDLER_INVOKE_list_def EHL_LOCK_ASSERT_def enter first loop(1) leave KASSERT_True)
  moreover have runs: "subseq runs (ys @ zs)" using loop(3) by (rule list_emb_append2)
  moreover have "distinct runs"
  proof (rule subseq_distinct [OF runs])
    show "distinct (ys @ zs)" using s2(1) slist_distinct [OF tailq_slist] unfolding evh_ok_def by blast
  qed
  ultimately show ?thesis
    using s0(3) s1 s' loop leave(4)
    by (intro exI [of _ runs] exI [of _ s1] exI [of _ "ys @ zs"] exI [of _ s']) auto
qed

section \<open>Properties\<close>

text \<open>C20 Running the handlers of an event: when the mutex of the list is held and the kernel keeps to \<open>evh_env\<close>
  while it is released, an invocation returns, although the list may grow under it, and no
  assertion fails.  \<open>s1\<close> is the state after the last handler: the list \<open>ys\<close> has all entries that it had
  before; the handlers \<open>runs\<close> ran in the order of the list, each once; among them are all
  entries of the first list that are still alive, and none that was dead at first.  Only an invocation
  that is not nested in another can prune the list, and the mutex is released at the end.\<close>

theorem EVENTHANDLER_INVOKE_runs:
  assumes "thread_ptr tid" and "mtx_slow_ok (mtx_lock_sleep X) (mtx_unlock_sleep X) tid" and "prune_ok X p"
    and "\<forall>f a s. evh_env tid p E (k + 1) s (handler X f a s)" and "finite E"
    and "evh_ok p E k xs s" and "evh_locked tid p s" and "el_runcount (the (evh_lists s p)) \<noteq> - 1"
  shows "\<exists>runs s1 ys s'. EVENTHANDLER_INVOKE_list X tid p s = Some (runs, s') \<and>
    evh_ok p E k ys s1 \<and> evh_locked tid p s1 \<and> subseq xs ys \<and> subseq runs ys \<and> distinct runs \<and>
    {x \<in> set xs. evh_live s1 x} \<subseteq> set runs \<and> set runs \<inter> set xs \<subseteq> {x. evh_live s x} \<and>
    EHL_UNLOCK X tid p (if el_runcount (the (evh_lists s1 p)) = 0 then eventhandler_prune_list X p s1 else s1) = Some s' \<and>
    \<not> evh_locked tid p s' \<and> (0 < k \<longrightarrow> evh_ok p E k ys s' \<and> (\<forall>x\<in>set xs. evh_live s' x \<longrightarrow> evh_live s x))"
  using assms by (rule EVENTHANDLER_INVOKE_list_ok)

text \<open>What a handler may do includes invoking the same event again: when every handler keeps to \<open>evh_env\<close> at
  one level, a lookup-free invocation from inside a handler keeps to it one level above.\<close>

lemma nested_invocation_env:
  assumes "thread_ptr tid" and "mtx_slow_ok (mtx_lock_sleep X) (mtx_unlock_sleep X) tid" and "prune_ok X p"
    and "\<forall>f a s. evh_env tid p E (k + 1) s (handler X f a s)" and "finite E" and "0 < k"
    and "el_runcount (the (evh_lists s p)) \<noteq> - 1"
    and "do { s \<leftarrow> EHL_LOCK X tid p s; EVENTHANDLER_INVOKE_list X tid p s } = Some (runs, s')"
  shows "evh_env tid p E k s s'"
  unfolding evh_env_def
proof (intro allI impI; elim conjE)
  fix xs
  assume ok: "evh_ok p E k xs s" and free: "\<not> evh_locked tid p s"
  obtain s1 where s1: "EHL_LOCK X tid p s = Some s1" "evh_ok p E k xs s1" "evh_locked tid p s1" "evh_entries s1 = evh_entries s"
    by (rule EHL_LOCK_ok [OF assms(1,2) ok free])
  have "el_runcount (the (evh_lists s1 p)) \<noteq> - 1"
    using s1(1) assms(7) by (auto simp: EHL_LOCK_def with_list_def)
  from EVENTHANDLER_INVOKE_list_ok [OF assms(1-5) s1(2,3) this] s1(1) assms(6,8)
  show "\<exists>ys. evh_ok p E k ys s' \<and> \<not> evh_locked tid p s' \<and> subseq xs ys \<and> (\<forall>x\<in>set xs. evh_live s' x \<longrightarrow> evh_live s x)"
    using evh_live_cong [OF s1(4)] by auto
qed

section \<open>Witnesses\<close>

text \<open>Three entries, the second dead; the handler of the first kills the third.  Every call is
  written down.\<close>

definition sample_evh_ext :: "ptr list evh_ext" where
  "sample_evh_ext = \<lparr>mtx_lock_sleep = \<lambda>m tid opts. \<lparr>mtx_word = tid, mtx_recurse = 0\<rparr>,
     mtx_unlock_sleep = \<lambda>m opts. \<lparr>mtx_word = MTX_UNOWNED, mtx_recurse = 0\<rparr>,
     handler = \<lambda>f a s. s\<lparr>evh_world := f # evh_world s,
       evh_entries := if f = 0xA1 then (evh_entries s)(0x30 := map_option (ee_priority_update (\<lambda>_. - 1)) (evh_entries s 0x30))
         else evh_entries s\<rparr>,
     eventhandler_prune_list = \<lambda>p s. s\<lparr>evh_world := p # evh_world s\<rparr>,
     eventhandler_find_list = \<lambda>name s. (0x1000, s),
     eventhandler_register = \<lambda>l name f a prio s. (NULL, s),
     eventhandler_deregister = \<lambda>l tag s. s\<rparr>"

definition sample_evh :: "ptr list evh" where
  "sample_evh = \<lparr>evh_links = \<lparr>q_first = (\<lambda>_. 0x10), q_last = (\<lambda>_. NextOf 0x30),
       q_next = (\<lambda>_. NULL)(0x10 := 0x20, 0x20 := 0x30), q_prev = (\<lambda>_. FirstOf 0x1000)(0x20 := NextOf 0x10, 0x30 := NextOf 0x20)\<rparr>,
     evh_entries = [0x10 \<mapsto> \<lparr>ee_priority = 0, ee_arg = 1, eh_func = 0xA1\<rparr>,
       0x20 \<mapsto> \<lparr>ee_priority = - 1, ee_arg = 2, eh_func = 0xA2\<rparr>, 0x30 \<mapsto> \<lparr>ee_priority = 10000, ee_arg = 3, eh_func = 0xA3\<rparr>],
     evh_lists = [0x1000 \<mapsto> \<lparr>el_name = 0x500, el_flags = 1, el_runcount = 0, el_lock = \<lparr>mtx_word = 0x40, mtx_recurse = 0\<rparr>\<rparr>],
     evh_world = []\<rparr>"

lemma sample_evh_env: "evh_env tid p E k s (handler sample_evh_ext f a s)"
  by (auto simp: evh_env_def sample_evh_ext_def evh_ok_def evh_locked_def evh_live_def split: if_splits)

lemma sample_evh_slow: "thread_ptr tid \<Longrightarrow> mtx_slow_ok (mtx_lock_sleep sample_evh_ext) (mtx_unlock_sleep sample_evh_ext) tid" "prune_ok sample_evh_ext p"
  using mtx_word_owned mtx_free_not_owned
  by (auto simp: mtx_slow_ok_def prune_ok_def sample_evh_ext_def mtx_recursed_def)

lemma sample_evh_ok: "evh_ok 0x1000 {0x10, 0x20, 0x30} 0 [0x10, 0x20, 0x30] sample_evh" "evh_locked 0x40 0x1000 sample_evh"
  by (auto simp: evh_ok_def evh_locked_def sample_evh_def rep_defs tail_cell_def mtx_recursed_def mtx_owned_def MTX_FLAGMASK_def)

theorem EVENTHANDLER_INVOKE_runs_witness:
  "\<exists>runs (s1 :: ptr list evh) ys s'. EVENTHANDLER_INVOKE_list sample_evh_ext 0x40 0x1000 sample_evh = Some (runs, s') \<and>
     subseq [0x10, 0x20, 0x30] ys \<and> subseq runs ys \<and> distinct runs \<and>
     {x \<in> set [0x10, 0x20, 0x30]. evh_live s1 x} \<subseteq> set runs \<and> 0x20 \<notin> set runs \<and> \<not> evh_locked 0x40 0x1000 s'"
proof -
  have t: "thread_ptr 0x40" by (simp add: thread_ptr_def)
  have rc: "el_runcount (the (evh_lists sample_evh 0x1000)) \<noteq> - 1" by (simp add: sample_evh_def)
  have dead: "\<not> evh_live sample_evh 0x20" by (simp add: evh_live_def sample_evh_def)
  have "finite {0x10, 0x20, 0x30 :: ptr}" by simp
  note runs = EVENTHANDLER_INVOKE_runs [OF t sample_evh_slow(1) [OF t] sample_evh_slow(2) _ this sample_evh_ok rc]
  have "\<forall>f a s. evh_env 0x40 0x1000 {0x10, 0x20, 0x30} (0 + 1) s (handler sample_evh_ext f a s)"
    by (intro allI) (rule sample_evh_env)
  from runs [OF this] obtain runs ys s' and s1 :: "ptr list evh" where
    "EVENTHANDLER_INVOKE_list sample_evh_ext 0x40 0x1000 sample_evh = Some (runs, s')" "subseq [0x10, 0x20, 0x30] ys"
    "subseq runs ys" "distinct runs" "{x \<in> set [0x10, 0x20, 0x30]. evh_live s1 x} \<subseteq> set runs"
    and in_runs: "set runs \<inter> set [0x10, 0x20, 0x30] \<subseteq> {x. evh_live sample_evh x}" and "\<not> evh_locked 0x40 0x1000 s'"
    by blast
  moreover have "0x20 \<notin> set runs" using in_runs dead by auto
  ultimately show ?thesis by blast
qed

end
