(* ===== verification/Thread_State.thy ===== *)
theory Thread_State
  imports Sys_Locks
begin

text \<open>
  The macros of \<open>include/sys/proc.h\<close> on the scheduling state of a thread, its private flags, and the count
  that holds a process in memory.

  A thread is inhibited for any number of reasons at once; \<open>TD_SET_INHIB\<close> adds one and
  \<open>TD_CLR_INHIB\<close> removes one and makes the thread runnable when it was the last.  The scheduler's own
  moves are steps whose guard is the state that the scheduler tests first.  Shown: a thread is
  inhibited exactly as long as a reason is left, and runs only without one.  For a process: the hold
  count is the number of holders, a held process is in memory, and the exiting process is woken
  exactly when the last hold is released.  Panics of failed assertions have no result.
\<close>

unbundle bit_operations_syntax

section \<open>The state of a thread\<close>

datatype tds = TDS_INACTIVE | TDS_INHIBITED | TDS_CAN_RUN | TDS_RUNQ | TDS_RUNNING

record thread =
  td_flags :: u32
  td_inhibitors :: u32
  td_pflags :: u32
  td_wchan :: ptr
  td_state :: tds

abbreviation (input) TDI_SUSPENDED :: u32 where "TDI_SUSPENDED \<equiv> 0x0001"
abbreviation (input) TDI_SLEEPING :: u32 where "TDI_SLEEPING \<equiv> 0x0002"
abbreviation (input) TDI_SWAPPED :: u32 where "TDI_SWAPPED \<equiv> 0x0004"
abbreviation (input) TDI_LOCK :: u32 where "TDI_LOCK \<equiv> 0x0008"
abbreviation (input) TDI_IWAIT :: u32 where "TDI_IWAIT \<equiv> 0x0010"
abbreviation (input) TDF_IDLETD :: u32 where "TDF_IDLETD \<equiv> 0x00000020"
abbreviation (input) TDF_CANSWAP :: u32 where "TDF_CANSWAP \<equiv> 0x00000040"
abbreviation (input) TDF_UPIBLOCKED :: u32 where "TDF_UPIBLOCKED \<equiv> 0x00004000"
abbreviation (input) TDP_NOSLEEPING :: u32 where "TDP_NOSLEEPING \<equiv> 0x00000100"

definition TD_IS_SLEEPING :: "thread \<Rightarrow> bool" where
  "TD_IS_SLEEPING td \<longleftrightarrow> td_inhibitors td AND TDI_SLEEPING \<noteq> 0"

definition TD_ON_SLEEPQ :: "thread \<Rightarrow> bool" where
  "TD_ON_SLEEPQ td \<longleftrightarrow> td_wchan td \<noteq> NULL"

definition TD_IS_SUSPENDED :: "thread \<Rightarrow> bool" where
  "TD_IS_SUSPENDED td \<longleftrightarrow> td_inhibitors td AND TDI_SUSPENDED \<noteq> 0"

definition TD_IS_SWAPPED :: "thread \<Rightarrow> bool" where
  "TD_IS_SWAPPED td \<longleftrightarrow> td_inhibitors td AND TDI_SWAPPED \<noteq> 0"

definition TD_ON_LOCK :: "thread \<Rightarrow> bool" where
  "TD_ON_LOCK td \<longleftrightarrow> td_inhibitors td AND TDI_LOCK \<noteq> 0"

definition TD_AWAITING_INTR :: "thread \<Rightarrow> bool" where
  "TD_AWAITING_INTR td \<longleftrightarrow> td_inhibitors td AND TDI_IWAIT \<noteq> 0"

definition TD_IS_RUNNING :: "thread \<Rightarrow> bool" where
  "TD_IS_RUNNING td \<longleftrightarrow> td_state td = TDS_RUNNING"

definition TD_ON_RUNQ :: "thread \<Rightarrow> bool" where
  "TD_ON_RUNQ td \<longleftrightarrow> td_state td = TDS_RUNQ"

definition TD_CAN_RUN :: "thread \<Rightarrow> bool" where
  "TD_CAN_RUN td \<longleftrightarrow> td_state td = TDS_CAN_RUN"

definition TD_IS_INHIBITED :: "thread \<Rightarrow> bool" where
  "TD_IS_INHIBITED td \<longleftrightarrow> td_state td = TDS_INHIBITED"

definition TD_ON_UPILOCK :: "thread \<Rightarrow> bool" where
  "TD_ON_UPILOCK td \<longleftrightarrow> td_flags td AND TDF_UPIBLOCKED \<noteq> 0"

definition TD_IS_IDLETHREAD :: "thread \<Rightarrow> bool" where
  "TD_IS_IDLETHREAD td \<longleftrightarrow> td_flags td AND TDF_IDLETD \<noteq> 0"

definition thread_safetoswapout :: "thread \<Rightarrow> bool" where
  "thread_safetoswapout td \<longleftrightarrow> td_flags td AND TDF_CANSWAP \<noteq> 0"

definition TD_SET_INHIB :: "u32 \<Rightarrow> thread \<Rightarrow> thread" where
  "TD_SET_INHIB inhib td = td\<lparr>td_state := TDS_INHIBITED, td_inhibitors := td_inhibitors td OR inhib\<rparr>"

definition TD_CLR_INHIB :: "u32 \<Rightarrow> thread \<Rightarrow> thread" where
  "TD_CLR_INHIB inhib td =
     (if td_inhibitors td AND inhib \<noteq> 0 then
        let td' = td\<lparr>td_inhibitors := td_inhibitors td AND NOT inhib\<rparr> in
        if td_inhibitors td' = 0 then td'\<lparr>td_state := TDS_CAN_RUN\<rparr> else td'
      else td)"

definition TD_SET_SLEEPING :: "thread \<Rightarrow> thread" where "TD_SET_SLEEPING = TD_SET_INHIB TDI_SLEEPING"
definition TD_SET_SWAPPED :: "thread \<Rightarrow> thread" where "TD_SET_SWAPPED = TD_SET_INHIB TDI_SWAPPED"
definition TD_SET_LOCK :: "thread \<Rightarrow> thread" where "TD_SET_LOCK = TD_SET_INHIB TDI_LOCK"
definition TD_SET_SUSPENDED :: "thread \<Rightarrow> thread" where "TD_SET_SUSPENDED = TD_SET_INHIB TDI_SUSPENDED"
definition TD_SET_IWAIT :: "thread \<Rightarrow> thread" where "TD_SET_IWAIT = TD_SET_INHIB TDI_IWAIT"

definition TD_CLR_SLEEPING :: "thread \<Rightarrow> thread" where "TD_CLR_SLEEPING = TD_CLR_INHIB TDI_SLEEPING"
definition TD_CLR_SWAPPED :: "thread \<Rightarrow> thread" where "TD_CLR_SWAPPED = TD_CLR_INHIB TDI_SWAPPED"
definition TD_CLR_LOCK :: "thread \<Rightarrow> thread" where "TD_CLR_LOCK = TD_CLR_INHIB TDI_LOCK"
definition TD_CLR_SUSPENDED :: "thread \<Rightarrow> thread" where "TD_CLR_SUSPENDED = TD_CLR_INHIB TDI_SUSPENDED"
definition TD_CLR_IWAIT :: "thread \<Rightarrow> thread" where "TD_CLR_IWAIT = TD_CLR_INHIB TDI_IWAIT"

definition TD_SET_RUNNING :: "thread \<Rightarrow> thread" where "TD_SET_RUNNING td = td\<lparr>td_state := TDS_RUNNING\<rparr>"
definition TD_SET_RUNQ :: "thread \<Rightarrow> thread" where "TD_SET_RUNQ td = td\<lparr>td_state := TDS_RUNQ\<rparr>"
definition TD_SET_CAN_RUN :: "thread \<Rightarrow> thread" where "TD_SET_CAN_RUN td = td\<lparr>td_state := TDS_CAN_RUN\<rparr>"

section \<open>Private flags\<close>

definition THREAD_NO_SLEEPING :: "thread \<Rightarrow> thread option" where
  "THREAD_NO_SLEEPING td =
     (if td_pflags td AND TDP_NOSLEEPING \<noteq> 0 then None else Some (td\<lparr>td_pflags := td_pflags td OR TDP_NOSLEEPING\<rparr>))"

definition THREAD_SLEEPING_OK :: "thread \<Rightarrow> thread option" where
  "THREAD_SLEEPING_OK td =
     (if td_pflags td AND TDP_NOSLEEPING = 0 then None else Some (td\<lparr>td_pflags := td_pflags td AND NOT TDP_NOSLEEPING\<rparr>))"

definition curthread_pflags_set :: "u32 \<Rightarrow> thread \<Rightarrow> u32 \<times> thread" where
  "curthread_pflags_set flags td =
     (let save = NOT flags OR (td_pflags td AND flags) in (save, td\<lparr>td_pflags := td_pflags td OR flags\<rparr>))"

definition curthread_pflags_restore :: "u32 \<Rightarrow> thread \<Rightarrow> thread" where
  "curthread_pflags_restore save td = td\<lparr>td_pflags := td_pflags td AND save\<rparr>"

section \<open>The hold count of a process\<close>

abbreviation (input) P_WEXIT :: u32 where "P_WEXIT \<equiv> 0x02000"
abbreviation (input) P_INMEM :: u32 where "P_INMEM \<equiv> 0x10000000"

record proc =
  p_flag :: u32
  p_mtx :: mtx
  p_lock :: u32
  p_stops :: u32

text \<open>The functions of the kernel that the macros call act on the process and the rest \<open>'w\<close> of the kernel.\<close>

record 'w proc_ext =
  px_lock_sleep :: "mtx \<Rightarrow> u64 \<Rightarrow> u32 \<Rightarrow> mtx"
  px_unlock_sleep :: "mtx \<Rightarrow> u32 \<Rightarrow> mtx"
  faultin :: "proc \<times> 'w \<Rightarrow> proc \<times> 'w"
  wakeup :: "proc \<times> 'w \<Rightarrow> proc \<times> 'w"
  stopevent :: "u32 \<Rightarrow> u32 \<Rightarrow> proc \<times> 'w \<Rightarrow> proc \<times> 'w"

definition PROC_LOCK :: "'w proc_ext \<Rightarrow> u64 \<Rightarrow> proc \<times> 'w \<Rightarrow> proc \<times> 'w" where
  "PROC_LOCK X curthread = (\<lambda>(p, w). (p\<lparr>p_mtx := mtx_lock_fast (px_lock_sleep X) curthread 0 (p_mtx p)\<rparr>, w))"

definition PROC_UNLOCK :: "'w proc_ext \<Rightarrow> u64 \<Rightarrow> proc \<times> 'w \<Rightarrow> proc \<times> 'w" where
  "PROC_UNLOCK X curthread = (\<lambda>(p, w). (p\<lparr>p_mtx := mtx_unlock_fast (px_unlock_sleep X) curthread 0 (p_mtx p)\<rparr>, w))"

definition PROC_LOCKED :: "u64 \<Rightarrow> proc \<Rightarrow> bool" where
  "PROC_LOCKED curthread p \<longleftrightarrow> mtx_owned curthread (p_mtx p)"

text \<open>\<open>self\<close> tells whether the process is \<open>curproc\<close>.\<close>

definition PHOLD_locked :: "'w proc_ext \<Rightarrow> u64 \<Rightarrow> bool \<Rightarrow> proc \<times> 'w \<Rightarrow> (proc \<times> 'w) option" where
  "PHOLD_locked X curthread self = (\<lambda>(p, w).
     if \<not> PROC_LOCKED curthread p then None
     else if p_flag p AND P_WEXIT \<noteq> 0 \<and> \<not> self then None
     else let p = p\<lparr>p_lock := p_lock p + 1\<rparr> in
       Some (if p_flag p AND P_INMEM = 0 then faultin X (p, w) else (p, w)))"

definition PHOLD :: "'w proc_ext \<Rightarrow> u64 \<Rightarrow> bool \<Rightarrow> proc \<times> 'w \<Rightarrow> (proc \<times> 'w) option" where
  "PHOLD X curthread self s = map_option (PROC_UNLOCK X curthread) (PHOLD_locked X curthread self (PROC_LOCK X curthread s))"

definition PRELE_locked :: "'w proc_ext \<Rightarrow> u64 \<Rightarrow> proc \<times> 'w \<Rightarrow> (proc \<times> 'w) option" where
  "PRELE_locked X curthread = (\<lambda>(p, w).
     if \<not> PROC_LOCKED curthread p then None
     else let p = p\<lparr>p_lock := p_lock p - 1\<rparr> in
       Some (if p_flag p AND P_WEXIT \<noteq> 0 \<and> p_lock p = 0 then wakeup X (p, w) else (p, w)))"

definition PRELE :: "'w proc_ext \<Rightarrow> u64 \<Rightarrow> proc \<times> 'w \<Rightarrow> (proc \<times> 'w) option" where
  "PRELE X curthread s = map_option (PROC_UNLOCK X curthread) (PRELE_locked X curthread (PROC_LOCK X curthread s))"

definition STOPEVENT :: "'w proc_ext \<Rightarrow> u64 \<Rightarrow> u32 \<Rightarrow> u32 \<Rightarrow> proc \<times> 'w \<Rightarrow> proc \<times> 'w" where
  "STOPEVENT X curthread e v s =
     (if p_stops (fst s) AND e \<noteq> 0 then PROC_UNLOCK X curthread (stopevent X e v (PROC_LOCK X curthread s)) else s)"

definition STOPEVENT_locked :: "'w proc_ext \<Rightarrow> u64 \<Rightarrow> u32 \<Rightarrow> u32 \<Rightarrow> proc \<times> 'w \<Rightarrow> (proc \<times> 'w) option" where
  "STOPEVENT_locked X curthread e v s =
     (if \<not> PROC_LOCKED curthread (fst s) then None
      else Some (if p_stops (fst s) AND e \<noteq> 0 then stopevent X e v s else s))"

section \<open>Masks\<close>

lemma or_and_same: "((x :: u32) OR m) AND m = m" "m AND (x OR m) = m"
  by (rule bit_eqI; auto simp: bit_and_iff bit_or_iff)+

lemma disjoint_bits: "(x :: u32) AND m = 0 \<Longrightarrow> bit x n \<Longrightarrow> \<not> bit m n"
  by (metis bit_and_iff bit_0_eq bot_apply bot_bool_def)

lemma or_and_not: "(x :: u32) AND m = 0 \<Longrightarrow> (x OR m) AND NOT m = x" "x AND m = 0 \<Longrightarrow> x AND NOT m = x"
  by (rule bit_eqI; use disjoint_bits in \<open>auto simp: bit_and_iff bit_or_iff bit_not_iff\<close>)+

lemma mask_other: "(m :: u32) AND k = 0 \<Longrightarrow> (x AND NOT m) AND k = x AND k" "m AND k = 0 \<Longrightarrow> (x OR m) AND k = x AND k"
  by (rule bit_eqI; use disjoint_bits in \<open>auto simp: bit_and_iff bit_or_iff bit_not_iff\<close>)+

lemma and_not_same: "((x :: u32) AND NOT m) AND m = 0"
  by (rule bit_eqI) (auto simp: bit_and_iff bit_not_iff)

section \<open>Inhibition\<close>

text \<open>The steps of a thread: a reason is set on a thread that is in use, a reason is
  cleared, and the scheduler moves a thread between runnable, queued and running.\<close>

inductive td_step :: "thread \<Rightarrow> thread \<Rightarrow> bool" where
  set_inhib: "inhib \<noteq> 0 \<Longrightarrow> td_state td \<noteq> TDS_INACTIVE \<Longrightarrow> td_step td (TD_SET_INHIB inhib td)"
| clr_inhib: "td_step td (TD_CLR_INHIB inhib td)"
| set_runq: "TD_CAN_RUN td \<or> TD_IS_RUNNING td \<Longrightarrow> td_step td (TD_SET_RUNQ td)"
| set_running: "TD_CAN_RUN td \<or> TD_ON_RUNQ td \<Longrightarrow> td_step td (TD_SET_RUNNING td)"
| set_can_run: "TD_IS_RUNNING td \<or> TD_ON_RUNQ td \<Longrightarrow> td_step td (TD_SET_CAN_RUN td)"

definition td_wf :: "thread \<Rightarrow> bool" where
  "td_wf td \<longleftrightarrow> (TD_IS_INHIBITED td \<longleftrightarrow> td_inhibitors td \<noteq> 0)"

lemmas td_state_defs = TD_CAN_RUN_def TD_IS_RUNNING_def TD_ON_RUNQ_def TD_IS_INHIBITED_def

lemma or_nonzero: "(b :: u32) \<noteq> 0 \<Longrightarrow> a OR b \<noteq> 0"
  by (metis or_eq_0_iff)

lemma td_wf_ops:
  "inhib \<noteq> 0 \<Longrightarrow> td_wf (TD_SET_INHIB inhib td)"
  "td_wf td \<Longrightarrow> td_wf (TD_CLR_INHIB inhib td)"
  by (auto simp: td_wf_def TD_SET_INHIB_def TD_CLR_INHIB_def td_state_defs or_nonzero Let_def)

lemma td_wf_sched:
  assumes "td_wf td" and "\<not> TD_IS_INHIBITED td"
  shows "td_wf (TD_SET_RUNQ td)" and "td_wf (TD_SET_RUNNING td)" and "td_wf (TD_SET_CAN_RUN td)"
  using assms by (simp_all add: td_wf_def TD_SET_RUNQ_def TD_SET_RUNNING_def TD_SET_CAN_RUN_def td_state_defs)

lemma td_step_wf: "td_step td td' \<Longrightarrow> td_wf td \<Longrightarrow> td_wf td'"
  by (induction rule: td_step.induct) (auto intro!: td_wf_ops td_wf_sched simp: td_state_defs)

lemma td_steps_wf: "td_step\<^sup>*\<^sup>* td td' \<Longrightarrow> td_wf td \<Longrightarrow> td_wf td'"
  by (induction rule: rtranclp_induct) (auto intro: td_step_wf)

text \<open>The reasons for which a thread is inhibited, as a set.\<close>

definition td_reasons :: "thread \<Rightarrow> nat set" where
  "td_reasons td = {n. bit (td_inhibitors td) n}"

lemma td_reasons_empty: "td_reasons td = {} \<longleftrightarrow> td_inhibitors td = 0"
  unfolding td_reasons_def by (metis (mono_tags) bit_0_eq bit_word_eqI bot_apply bot_bool_def empty_Collect_eq)

lemma td_reasons_ops:
  "td_reasons (TD_SET_INHIB inhib td) = td_reasons td \<union> {n. bit inhib n}"
  "td_reasons (TD_CLR_INHIB inhib td) = td_reasons td - {n. bit inhib n}"
proof -
  show "td_reasons (TD_SET_INHIB inhib td) = td_reasons td \<union> {n. bit inhib n}"
    by (auto simp: td_reasons_def TD_SET_INHIB_def bit_or_iff)
  have "td_inhibitors (TD_CLR_INHIB inhib td) = td_inhibitors td AND NOT inhib"
  proof (cases "td_inhibitors td AND inhib = 0")
    case True
    then have "td_inhibitors td AND NOT inhib = td_inhibitors td" by (rule or_and_not(2))
    with True show ?thesis by (simp add: TD_CLR_INHIB_def)
  qed (simp add: TD_CLR_INHIB_def Let_def)
  then show "td_reasons (TD_CLR_INHIB inhib td) = td_reasons td - {n. bit inhib n}"
    by (auto simp: td_reasons_def bit_and_iff bit_not_iff dest: bit_imp_le_length)
qed

lemma td_released:
  assumes "td_step td td'" and "td_wf td" and "TD_IS_INHIBITED td" and "\<not> TD_IS_INHIBITED td'"
  obtains inhib where "td' = TD_CLR_INHIB inhib td" and "TD_CAN_RUN td'" and "td_reasons td \<subseteq> {n. bit inhib n}"
  using assms
proof (cases rule: td_step.cases)
  case (clr_inhib inhib)
  have wf: "td_wf td'" by (rule td_step_wf [OF assms(1,2)])
  with assms(4) have "td_inhibitors td' = 0" by (simp add: td_wf_def)
  then have "td_reasons td \<subseteq> {n. bit inhib n}"
    using td_reasons_ops(2) [of inhib td] td_reasons_empty [of td'] clr_inhib by auto
  moreover have "TD_CAN_RUN td'"
    using clr_inhib assms(3,4) by (auto simp: TD_CLR_INHIB_def td_state_defs Let_def split: if_splits)
  ultimately show ?thesis using clr_inhib that by blast
qed (auto simp: TD_SET_INHIB_def td_state_defs)

text \<open>Inhibition of threads: on every sequence of steps from a consistent state, a thread is in the state
  \<open>TDS_INHIBITED\<close> exactly as long as one of the reasons set is not yet cleared; a running or queued
  thread is neither asleep, suspended, swapped out, blocked on a lock nor waiting for an interrupt; and the
  step that ends the inhibition is the \<open>TD_CLR_INHIB\<close> of the last reasons, which leaves the thread runnable.\<close>

lemma thread_inhibition:
  assumes "td_wf td0" and "td_step\<^sup>*\<^sup>* td0 td"
  shows "(TD_IS_INHIBITED td \<longleftrightarrow> td_reasons td \<noteq> {}) \<and>
    (TD_IS_RUNNING td \<or> TD_ON_RUNQ td \<longrightarrow>
      \<not> (TD_IS_SLEEPING td \<or> TD_IS_SUSPENDED td \<or> TD_IS_SWAPPED td \<or> TD_ON_LOCK td \<or> TD_AWAITING_INTR td)) \<and>
    (\<forall>td'. td_step td td' \<and> TD_IS_INHIBITED td \<and> \<not> TD_IS_INHIBITED td' \<longrightarrow>
      TD_CAN_RUN td' \<and> (\<exists>inhib. td' = TD_CLR_INHIB inhib td \<and> td_reasons td \<subseteq> {n. bit inhib n}))"
proof -
  have wf: "td_wf td" by (rule td_steps_wf [OF assms(2,1)])
  have "td_inhibitors td = 0" if "TD_IS_RUNNING td \<or> TD_ON_RUNQ td"
    using that wf by (auto simp: td_wf_def td_state_defs)
  then have "TD_IS_RUNNING td \<or> TD_ON_RUNQ td \<longrightarrow>
      \<not> (TD_IS_SLEEPING td \<or> TD_IS_SUSPENDED td \<or> TD_IS_SWAPPED td \<or> TD_ON_LOCK td \<or> TD_AWAITING_INTR td)"
    by (auto simp: TD_IS_SLEEPING_def TD_IS_SUSPENDED_def TD_IS_SWAPPED_def TD_ON_LOCK_def TD_AWAITING_INTR_def)
  moreover have "TD_CAN_RUN td' \<and> (\<exists>inhib. td' = TD_CLR_INHIB inhib td \<and> td_reasons td \<subseteq> {n. bit inhib n})"
    if "td_step td td' \<and> TD_IS_INHIBITED td \<and> \<not> TD_IS_INHIBITED td'" for td'
    using that td_released [OF _ wf] by metis
  ultimately show ?thesis using wf td_reasons_empty by (auto simp: td_wf_def)
qed

section \<open>Flags set for a while\<close>

lemma pflags_set_restore:
  "curthread_pflags_restore (fst (curthread_pflags_set flags td)) (snd (curthread_pflags_set flags td)) = td"
proof -
  have "(td_pflags td OR flags) AND (NOT flags OR td_pflags td AND flags) = td_pflags td"
    by (rule bit_eqI) (auto simp: bit_and_iff bit_or_iff bit_not_iff)
  then show ?thesis by (simp add: curthread_pflags_set_def curthread_pflags_restore_def)
qed

lemma no_sleeping_nested: "THREAD_NO_SLEEPING td = Some td' \<Longrightarrow> THREAD_NO_SLEEPING td' = None"
  by (auto simp: THREAD_NO_SLEEPING_def or_and_same split: if_splits)

lemma no_sleeping_restored: "THREAD_NO_SLEEPING td = Some td' \<Longrightarrow> THREAD_SLEEPING_OK td' = Some td"
  using or_and_not [of "td_pflags td" TDP_NOSLEEPING]
  by (auto simp: THREAD_NO_SLEEPING_def THREAD_SLEEPING_OK_def or_and_same split: if_splits)

section \<open>Holding a process\<close>

text \<open>The life of a process as its holders see it: threads hold and release it, the swapper takes it
  out of memory, and it begins to exit.  The last two are not macros of the header, but other parts of the
  kernel; \<open>hold_spec_step\<close> says when each step may happen.\<close>

datatype hold_op = Hold u64 bool | Release u64 | SwapOut | StartExit

fun hold_op_ok :: "hold_op \<Rightarrow> bool" where
  "hold_op_ok (Hold t self) \<longleftrightarrow> thread_ptr t"
| "hold_op_ok (Release t) \<longleftrightarrow> thread_ptr t"
| "hold_op_ok SwapOut \<longleftrightarrow> True"
| "hold_op_ok StartExit \<longleftrightarrow> True"

fun hold_step :: "'w proc_ext \<Rightarrow> hold_op \<Rightarrow> proc \<times> 'w \<Rightarrow> (proc \<times> 'w) option" where
  "hold_step X (Hold t self) s = PHOLD X t self s"
| "hold_step X (Release t) s = PRELE X t s"
| "hold_step X SwapOut (p, w) = Some (p\<lparr>p_flag := p_flag p AND NOT P_INMEM\<rparr>, w)"
| "hold_step X StartExit (p, w) = Some (p\<lparr>p_flag := p_flag p OR P_WEXIT\<rparr>, w)"

fun run_steps :: "('o \<Rightarrow> 's \<Rightarrow> 's option) \<Rightarrow> 'o list \<Rightarrow> 's \<Rightarrow> 's option" where
  "run_steps f [] s = Some s"
| "run_steps f (x # xs) s = do { s \<leftarrow> f x s; run_steps f xs s }"

record hold_spec =
  holders :: nat
  in_mem :: bool
  exiting :: bool
  wakeups :: nat

fun hold_spec_step :: "hold_op \<Rightarrow> hold_spec \<Rightarrow> hold_spec option" where
  "hold_spec_step (Hold t self) a =
     (if exiting a \<and> \<not> self then None else Some (a\<lparr>holders := holders a + 1, in_mem := True\<rparr>))"
| "hold_spec_step (Release t) a =
     (if holders a = 0 then None
      else Some (a\<lparr>holders := holders a - 1, wakeups := wakeups a + (if exiting a \<and> holders a = 1 then 1 else 0)\<rparr>))"
| "hold_spec_step SwapOut a = (if holders a \<noteq> 0 then None else Some (a\<lparr>in_mem := False\<rparr>))"
| "hold_spec_step StartExit a = Some (a\<lparr>exiting := True\<rparr>)"

definition hold_abs :: "('w \<Rightarrow> nat) \<Rightarrow> proc \<times> 'w \<Rightarrow> hold_spec" where
  "hold_abs woken = (\<lambda>(p, w). \<lparr>holders = unat (p_lock p), in_mem = (p_flag p AND P_INMEM \<noteq> 0),
     exiting = (p_flag p AND P_WEXIT \<noteq> 0), wakeups = woken w\<rparr>)"

text \<open>\<open>faultin\<close> brings the process into memory and leaves its count, its mutex and the flag \<open>P_WEXIT\<close> alone;
  \<open>wakeup\<close> does nothing to the process.  \<open>woken\<close> counts the calls of \<open>wakeup\<close>.\<close>

definition proc_ext_ok :: "('w \<Rightarrow> nat) \<Rightarrow> 'w proc_ext \<Rightarrow> bool" where
  "proc_ext_ok woken X \<longleftrightarrow>
     (\<forall>p w p' w'. faultin X (p, w) = (p', w') \<longrightarrow> p_flag p' AND P_INMEM \<noteq> 0 \<and>
        p_flag p' AND P_WEXIT = p_flag p AND P_WEXIT \<and> p_lock p' = p_lock p \<and> p_mtx p' = p_mtx p \<and> woken w' = woken w) \<and>
     (\<forall>p w p' w'. wakeup X (p, w) = (p', w') \<longrightarrow> p' = p \<and> woken w' = woken w + 1)"

definition proc_free :: "proc \<times> 'w \<Rightarrow> bool" where
  "proc_free s \<longleftrightarrow> p_mtx (fst s) = \<lparr>mtx_word = MTX_UNOWNED, mtx_recurse = 0\<rparr>"

text \<open>A lock operation on a free mutex and its counterpart take the fast path.\<close>

lemma PROC_LOCK_free:
  "proc_free (p, w) \<Longrightarrow> PROC_LOCK X t (p, w) = (p\<lparr>p_mtx := \<lparr>mtx_word = t, mtx_recurse = 0\<rparr>\<rparr>, w)"
  by (simp add: PROC_LOCK_def proc_free_def mtx_lock_fast_def mtx_obtain_try_def)

lemma PROC_UNLOCK_held:
  "p_mtx p = \<lparr>mtx_word = t, mtx_recurse = 0\<rparr> \<Longrightarrow>
   PROC_UNLOCK X t (p, w) = (p\<lparr>p_mtx := \<lparr>mtx_word = MTX_UNOWNED, mtx_recurse = 0\<rparr>\<rparr>, w)"
  by (simp add: PROC_UNLOCK_def mtx_unlock_fast_def mtx_release_try_def)

lemma PROC_LOCKED_held: "thread_ptr t \<Longrightarrow> p_mtx p = \<lparr>mtx_word = t, mtx_recurse = 0\<rparr> \<Longrightarrow> PROC_LOCKED t p"
  by (simp add: PROC_LOCKED_def mtx_word_owned)

text \<open>The hold and the release of a process whose mutex is free.\<close>

lemma PHOLD_free:
  assumes "proc_ext_ok woken X" and "thread_ptr t" and "proc_free s" and "unat (p_lock (fst s)) + 1 < 2 ^ 32"
  shows "(case hold_spec_step (Hold t self) (hold_abs woken s) of None \<Rightarrow> PHOLD X t self s = None
     | Some a \<Rightarrow> \<exists>s'. PHOLD X t self s = Some s' \<and> hold_abs woken s' = a \<and> proc_free s')"
proof -
  obtain p w where s: "s = (p, w)" by (cases s)
  let ?p = "p\<lparr>p_mtx := \<lparr>mtx_word = t, mtx_recurse = 0\<rparr>, p_lock := p_lock p + 1\<rparr>"
  obtain p' w' where f: "faultin X (?p, w) = (p', w')" by (cases "faultin X (?p, w)")
  then have f': "p_flag p' AND P_INMEM \<noteq> 0" "p_flag p' AND P_WEXIT = p_flag p AND P_WEXIT" "p_lock p' = p_lock p + 1"
      "p_mtx p' = \<lparr>mtx_word = t, mtx_recurse = 0\<rparr>" "woken w' = woken w"
    using assms(1) by (auto simp: proc_ext_ok_def)
  have "unat (p_lock p + 1) = unat (p_lock p) + 1"
    using assms(4) s by (simp add: unat_word_ariths)
  with assms(2,3) s f f' show ?thesis
    by (auto simp: PHOLD_def PHOLD_locked_def PROC_LOCK_free PROC_LOCKED_held PROC_UNLOCK_held hold_abs_def proc_free_def Let_def)
qed

lemma PRELE_free:
  assumes "proc_ext_ok woken X" and "thread_ptr t" and "proc_free s"
    and "hold_spec_step (Release t) (hold_abs woken s) = Some a"
  shows "\<exists>s'. PRELE X t s = Some s' \<and> hold_abs woken s' = a \<and> proc_free s'"
proof -
  obtain p w where s: "s = (p, w)" by (cases s)
  let ?p = "p\<lparr>p_mtx := \<lparr>mtx_word = t, mtx_recurse = 0\<rparr>, p_lock := p_lock p - 1\<rparr>"
  obtain p' w' where f: "wakeup X (?p, w) = (p', w')" by (cases "wakeup X (?p, w)")
  then have f': "p' = ?p" "woken w' = woken w + 1" using assms(1) by (auto simp: proc_ext_ok_def)
  have nz: "p_lock p \<noteq> 0" using assms(4) s by (auto simp: hold_abs_def split: if_splits)
  then have "unat (p_lock p - 1) = unat (p_lock p) - 1" by (simp add: unat_minus_one)
  moreover have "p_lock p - 1 = 0 \<longleftrightarrow> unat (p_lock p) = 1" by (metis eq_iff_diff_eq_0 unat_1 word_unat_eq_iff)
  ultimately show ?thesis
    using assms(2-4) s f f' nz
    by (auto simp: PRELE_def PRELE_locked_def PROC_LOCK_free PROC_LOCKED_held PROC_UNLOCK_held hold_abs_def proc_free_def Let_def
        split: if_splits)
qed

lemma flag_bits:
  "(f AND NOT P_INMEM) AND P_INMEM = 0" "(f AND NOT P_INMEM) AND P_WEXIT = f AND P_WEXIT"
  "(f OR P_WEXIT) AND P_WEXIT = P_WEXIT" "(f OR P_WEXIT) AND P_INMEM = f AND P_INMEM"
  for f :: u32
  by (rule and_not_same mask_other or_and_same; simp)+

lemma flag_bits_numeral:
  "(f AND - 268435457) AND 268435456 = 0" "(f AND - 268435457) AND 8192 = f AND 8192" for f :: u32
  using flag_bits(1,2) [of f] by simp_all

lemma hold_op_refines:
  assumes "proc_ext_ok woken X" and "hold_op_ok x" and "proc_free s" and "unat (p_lock (fst s)) + 1 < 2 ^ 32"
    and "hold_spec_step x (hold_abs woken s) = Some a"
  shows "\<exists>s'. hold_step X x s = Some s' \<and> hold_abs woken s' = a \<and> proc_free s'"
proof (cases x)
  case (Hold t self)
  with assms PHOLD_free [OF assms(1) _ assms(3,4), of t self] show ?thesis by auto
next
  case (Release t)
  with assms PRELE_free [OF assms(1) _ assms(3)] show ?thesis by auto
next
  case SwapOut
  with assms show ?thesis by (cases s) (auto simp: hold_abs_def proc_free_def flag_bits_numeral split: if_splits)
next
  case StartExit
  with assms show ?thesis by (cases s) (auto simp: hold_abs_def proc_free_def flag_bits)
qed

lemma hold_spec_bound: "hold_spec_step x a = Some a' \<Longrightarrow> holders a' \<le> holders a + 1"
  by (cases x) (auto split: if_splits)

lemma hold_spec_in_mem: "hold_spec_step x a = Some a' \<Longrightarrow> (0 < holders a \<longrightarrow> in_mem a) \<Longrightarrow> 0 < holders a' \<longrightarrow> in_mem a'"
  by (cases x) (auto split: if_splits)

lemma hold_run_refines:
  assumes "proc_ext_ok woken X"
  shows "\<forall>x\<in>set xs. hold_op_ok x \<Longrightarrow> proc_free s \<Longrightarrow> unat (p_lock (fst s)) + length xs < 2 ^ 32 \<Longrightarrow>
    run_steps hold_spec_step xs (hold_abs woken s) = Some a \<Longrightarrow>
    \<exists>s'. run_steps (hold_step X) xs s = Some s' \<and> hold_abs woken s' = a \<and> proc_free s'"
proof (induction xs arbitrary: s)
  case (Cons x xs)
  from Cons.prems(4) obtain b where b: "hold_spec_step x (hold_abs woken s) = Some b" "run_steps hold_spec_step xs b = Some a"
    by (auto split: bind_splits)
  have "unat (p_lock (fst s)) + 1 < 2 ^ 32" using Cons.prems(3) by simp
  from hold_op_refines [OF assms _ Cons.prems(2) this b(1)] Cons.prems(1)
  obtain s1 where s1: "hold_step X x s = Some s1" "hold_abs woken s1 = b" "proc_free s1" by auto
  have h: "holders (hold_abs woken t) = unat (p_lock (fst t))" for t :: "proc \<times> 'a" by (cases t) (simp add: hold_abs_def)
  have "unat (p_lock (fst s1)) \<le> unat (p_lock (fst s)) + 1"
    using hold_spec_bound [OF b(1)] s1(2) h by metis
  then have "unat (p_lock (fst s1)) + length xs < 2 ^ 32" using Cons.prems(3) by simp
  with Cons.IH [of s1] Cons.prems(1) s1 b(2) show ?case by auto
qed simp

lemma hold_spec_run_in_mem:
  "run_steps hold_spec_step xs a = Some a' \<Longrightarrow> (0 < holders a \<longrightarrow> in_mem a) \<Longrightarrow> 0 < holders a' \<longrightarrow> in_mem a'"
proof (induction xs arbitrary: a)
  case (Cons x xs)
  then obtain b where "hold_spec_step x a = Some b" "run_steps hold_spec_step xs b = Some a'" by (auto split: bind_splits)
  with Cons hold_spec_in_mem show ?case by metis
qed simp

text \<open>C21 Holding a process in memory: for every sequence of holds and releases by any threads, of swapping out and
  of the beginning of exit that the specification allows, the macros have a result, no
  assertion fails and the mutex is free again; \<open>p_lock\<close> is the number of holders, a held process
  is in memory, and \<open>wakeup\<close> was called exactly for the releases of the last hold on an exiting process.\<close>

theorem PHOLD_PRELE_refine:
  assumes "proc_ext_ok woken X" and "\<forall>x\<in>set xs. hold_op_ok x" and "proc_free s"
    and "unat (p_lock (fst s)) + length xs < 2 ^ 32" and "0 < holders (hold_abs woken s) \<longrightarrow> in_mem (hold_abs woken s)"
    and "run_steps hold_spec_step xs (hold_abs woken s) = Some a"
  shows "(0 < holders a \<longrightarrow> in_mem a) \<and>
    (\<exists>s'. run_steps (hold_step X) xs s = Some s' \<and> hold_abs woken s' = a \<and> proc_free s')"
  using hold_run_refines [OF assms(1-4,6)] hold_spec_run_in_mem [OF assms(6,5)] by simp

section \<open>Witnesses\<close>

definition sample_thread :: thread where
  "sample_thread = \<lparr>td_flags = 0, td_inhibitors = 0, td_pflags = 0, td_wchan = 0, td_state = TDS_RUNNING\<rparr>"

text \<open>A running thread falls asleep, is suspended, is woken and then resumed.\<close>

lemma thread_inhibition_witness:
  "let td = TD_CLR_SLEEPING (TD_SET_SUSPENDED (TD_SET_SLEEPING sample_thread)) in
     TD_IS_INHIBITED td \<and> td_reasons td \<noteq> {} \<and> TD_CAN_RUN (TD_CLR_SUSPENDED td)"
proof -
  let ?td = "TD_CLR_SLEEPING (TD_SET_SUSPENDED (TD_SET_SLEEPING sample_thread))"
  have "td_step\<^sup>*\<^sup>* sample_thread (TD_SET_SLEEPING sample_thread)"
    unfolding TD_SET_SLEEPING_def by (intro r_into_rtranclp set_inhib) (simp_all add: sample_thread_def)
  also have "td_step\<^sup>*\<^sup>* \<dots> (TD_SET_SUSPENDED (TD_SET_SLEEPING sample_thread))"
    unfolding TD_SET_SUSPENDED_def by (intro r_into_rtranclp set_inhib) (simp_all add: TD_SET_SLEEPING_def TD_SET_INHIB_def)
  also have "td_step\<^sup>*\<^sup>* \<dots> ?td" unfolding TD_CLR_SLEEPING_def by (intro r_into_rtranclp clr_inhib)
  finally have steps: "td_step\<^sup>*\<^sup>* sample_thread ?td" .
  have "td_wf sample_thread" by (simp add: td_wf_def sample_thread_def td_state_defs)
  note inh = thread_inhibition [OF this steps]
  have "TD_IS_INHIBITED ?td" "\<not> TD_IS_INHIBITED (TD_CLR_SUSPENDED ?td)" by code_simp+
  with inh show ?thesis by (auto simp: TD_CLR_SUSPENDED_def Let_def intro: clr_inhib)
qed

text \<open>The world is the count of calls of \<open>wakeup\<close>.\<close>

definition sample_proc_ext :: "nat proc_ext" where
  "sample_proc_ext = \<lparr>px_lock_sleep = \<lambda>m tid opts. m, px_unlock_sleep = \<lambda>m opts. m,
     faultin = \<lambda>(p, w). (p\<lparr>p_flag := p_flag p OR P_INMEM\<rparr>, w), wakeup = \<lambda>(p, w). (p, w + 1),
     stopevent = \<lambda>e v s. s\<rparr>"

definition sample_proc :: proc where
  "sample_proc = \<lparr>p_flag = 0, p_mtx = \<lparr>mtx_word = MTX_UNOWNED, mtx_recurse = 0\<rparr>, p_lock = 0, p_stops = 0\<rparr>"

definition sample_hold_ops :: "hold_op list" where
  "sample_hold_ops = [Hold 0x40 False, Hold 0x80 False, Release 0x40, StartExit, Release 0x80, SwapOut]"

theorem PHOLD_PRELE_refine_witness:
  "\<exists>s'. run_steps (hold_step sample_proc_ext) sample_hold_ops (sample_proc, 0) = Some s' \<and>
     hold_abs id s' = \<lparr>holders = 0, in_mem = False, exiting = True, wakeups = 1\<rparr> \<and> proc_free s'"
proof -
  have x: "proc_ext_ok id sample_proc_ext"
    by (auto simp: proc_ext_ok_def sample_proc_ext_def or_and_same mask_other)
  have ok: "\<forall>x\<in>set sample_hold_ops. hold_op_ok x" by (simp add: sample_hold_ops_def thread_ptr_def)
  have free: "proc_free (sample_proc, 0 :: nat)" by (simp add: proc_free_def sample_proc_def)
  have start: "hold_abs id (sample_proc, 0) = \<lparr>holders = 0, in_mem = False, exiting = False, wakeups = 0\<rparr>"
    by (simp add: hold_abs_def sample_proc_def)
  have len: "unat (p_lock (fst (sample_proc, 0 :: nat))) + length sample_hold_ops < 2 ^ 32"
    by (simp add: sample_proc_def sample_hold_ops_def)
  have run: "run_steps hold_spec_step sample_hold_ops (hold_abs id (sample_proc, 0)) =
      Some \<lparr>holders = 0, in_mem = False, exiting = True, wakeups = 1\<rparr>"
    by (simp add: start sample_hold_ops_def)
  show ?thesis using PHOLD_PRELE_refine [OF x ok free len _ run] by (simp add: start)
qed

end
