(* ===== verification/Kobj_Dispatch.thy ===== *)
theory Kobj_Dispatch
  imports Ps4_Prelude
begin

text \<open>
  The kernel objects of \<open>include/sys/kobj.h\<close>: classes with tables of methods, and the call of a
  method through the cache of its class (\<open>KOBJOPLOOKUP\<close>).  A method pairs the address of a descriptor,
  which names the operation, with the address of a function.  The search through a class and its base
  classes, \<open>kobj_lookup_method\<close>, is a function of the kernel and an argument here, with what the header says
  of it: its results are what the cache keeps.

  Shown: whatever operations are called in whatever order, and however their identifiers
  collide in the cache, a call reaches the method that the search finds, whose function has the
  type of the operation when the tables were built with \<open>KOBJMETHOD\<close>.
\<close>

unbundle bit_operations_syntax

section \<open>Classes and methods\<close>

record kobj_method =
  desc :: ptr
  func :: ptr

record kobjop_desc =
  desc_id :: u32
  deflt :: ptr

record kobj_class =
  class_name :: string
  class_methods :: ptr
  class_size :: u64
  baseclasses :: "ptr list option"
  class_refs :: u32
  class_ops :: ptr

abbreviation (input) KOBJ_CACHE_SIZE :: u32 where "KOBJ_CACHE_SIZE \<equiv> 256"

record kobj_ops =
  cache :: "ptr list"
  ops_cls :: ptr

definition KOBJMETHOD :: "ptr \<Rightarrow> ptr \<Rightarrow> kobj_method" where
  "KOBJMETHOD name_desc FUNC = \<lparr>desc = name_desc, func = FUNC\<rparr>"

definition KOBJMETHOD_END :: kobj_method where
  "KOBJMETHOD_END = \<lparr>desc = NULL, func = NULL\<rparr>"

definition DEFINE_CLASS_0 :: "string \<Rightarrow> ptr \<Rightarrow> u64 \<Rightarrow> kobj_class" where
  "DEFINE_CLASS_0 name methods sz = \<lparr>class_name = name, class_methods = methods, class_size = sz,
     baseclasses = None, class_refs = 0, class_ops = NULL\<rparr>"

definition DEFINE_CLASS_1 :: "string \<Rightarrow> ptr \<Rightarrow> u64 \<Rightarrow> ptr \<Rightarrow> kobj_class" where
  "DEFINE_CLASS_1 name methods sz base1 = \<lparr>class_name = name, class_methods = methods, class_size = sz,
     baseclasses = Some [base1, NULL], class_refs = 0, class_ops = NULL\<rparr>"

definition DEFINE_CLASS_2 :: "string \<Rightarrow> ptr \<Rightarrow> u64 \<Rightarrow> ptr \<Rightarrow> ptr \<Rightarrow> kobj_class" where
  "DEFINE_CLASS_2 name methods sz base1 base2 = \<lparr>class_name = name, class_methods = methods, class_size = sz,
     baseclasses = Some [base1, base2, NULL], class_refs = 0, class_ops = NULL\<rparr>"

definition DEFINE_CLASS_3 :: "string \<Rightarrow> ptr \<Rightarrow> u64 \<Rightarrow> ptr \<Rightarrow> ptr \<Rightarrow> ptr \<Rightarrow> kobj_class" where
  "DEFINE_CLASS_3 name methods sz base1 base2 base3 = \<lparr>class_name = name, class_methods = methods, class_size = sz,
     baseclasses = Some [base1, base2, base3, NULL], class_refs = 0, class_ops = NULL\<rparr>"

section \<open>The lookup\<close>

text \<open>The memory that a lookup reads: the descriptors and the methods.  \<open>kobj_lookup_method\<close> takes the
  class, the content of the slot and the descriptor, and returns a method and the new content of the slot.\<close>

record kobj_heap =
  kobj_descs :: "ptr \<Rightarrow> kobjop_desc option"
  kobj_methods :: "ptr \<Rightarrow> kobj_method option"

type_synonym lookup = "ptr \<Rightarrow> ptr \<Rightarrow> ptr \<Rightarrow> ptr \<times> ptr"

definition KOBJOPLOOKUP :: "lookup \<Rightarrow> kobj_heap \<Rightarrow> ptr \<Rightarrow> kobj_ops \<Rightarrow> (ptr \<times> kobj_ops) option" where
  "KOBJOPLOOKUP kobj_lookup_method H d ops = do {
     dsc \<leftarrow> kobj_descs H d;
     let cep = unat (desc_id dsc AND (KOBJ_CACHE_SIZE - 1));
     if length (cache ops) \<le> cep then None else do {
       let ce = cache ops ! cep;
       m \<leftarrow> kobj_methods H ce;
       if desc m \<noteq> d then
         case kobj_lookup_method (ops_cls ops) ce d of (ce, slot) \<Rightarrow> do {
           m \<leftarrow> kobj_methods H ce;
           Some (func m, ops\<lparr>cache := (cache ops)[cep := slot]\<rparr>) }
       else Some (func m, ops) } }"

text \<open>With \<open>KOBJ_STATS\<close> the lookups are counted.\<close>

definition KOBJOPLOOKUP_STATS ::
  "lookup \<Rightarrow> kobj_heap \<Rightarrow> ptr \<Rightarrow> u32 \<times> kobj_ops \<Rightarrow> (ptr \<times> u32 \<times> kobj_ops) option" where
  "KOBJOPLOOKUP_STATS kobj_lookup_method H d = (\<lambda>(hits, ops).
     map_option (\<lambda>(f, ops'). (f, hits + 1, ops')) (KOBJOPLOOKUP kobj_lookup_method H d ops))"

text \<open>Calls of the operations \<open>ds\<close> in a row, with the functions they reach.\<close>

fun kobj_calls :: "lookup \<Rightarrow> kobj_heap \<Rightarrow> ptr list \<Rightarrow> kobj_ops \<Rightarrow> (ptr list \<times> kobj_ops) option" where
  "kobj_calls L H [] ops = Some ([], ops)"
| "kobj_calls L H (d # ds) ops = do {
     (f, ops) \<leftarrow> KOBJOPLOOKUP L H d ops;
     (fs, ops) \<leftarrow> kobj_calls L H ds ops;
     Some (f # fs, ops) }"

section \<open>What the cache contains\<close>

text \<open>The search finds for every operation a method of that operation, its own or the
  default, and leaves it in the slot.\<close>

definition lookup_ok :: "lookup \<Rightarrow> (ptr \<Rightarrow> ptr \<Rightarrow> ptr) \<Rightarrow> kobj_heap \<Rightarrow> bool" where
  "lookup_ok L found H \<longleftrightarrow> (\<forall>c slot d. kobj_descs H d \<noteq> None \<longrightarrow>
     L c slot d = (found c d, found c d) \<and> (\<exists>m. kobj_methods H (found c d) = Some m \<and> desc m = d))"

text \<open>A slot holds any method whose descriptor is not one that is called (such as the empty one the
  class starts with), or the method that was found.\<close>

definition cache_ok :: "(ptr \<Rightarrow> ptr \<Rightarrow> ptr) \<Rightarrow> kobj_heap \<Rightarrow> kobj_ops \<Rightarrow> bool" where
  "cache_ok found H ops \<longleftrightarrow> length (cache ops) = 256 \<and>
     (\<forall>ce\<in>set (cache ops). \<exists>m. kobj_methods H ce = Some m \<and>
       (kobj_descs H (desc m) \<noteq> None \<longrightarrow> ce = found (ops_cls ops) (desc m)))"

lemma slot_in_range: "unat (i AND (KOBJ_CACHE_SIZE - 1)) < 256"
proof -
  have "(KOBJ_CACHE_SIZE - 1 :: u32) = mask 8" by (simp add: mask_eq_exp_minus_1)
  then have "i AND (KOBJ_CACHE_SIZE - 1) = take_bit 8 i" by (simp only: take_bit_eq_mask)
  moreover have "unat (take_bit 8 i) = take_bit 8 (unat i)" by (simp add: unsigned_take_bit_eq)
  ultimately show ?thesis using take_bit_nat_less_exp [of 8 "unat i"] by simp
qed

lemma KOBJOPLOOKUP_found:
  assumes "lookup_ok L found H" and "cache_ok found H ops" and "kobj_descs H d \<noteq> None"
  shows "\<exists>m ops'. KOBJOPLOOKUP L H d ops = Some (func m, ops') \<and>
    kobj_methods H (found (ops_cls ops) d) = Some m \<and> desc m = d \<and> cache_ok found H ops' \<and> ops_cls ops' = ops_cls ops"
proof -
  obtain dsc where dsc: "kobj_descs H d = Some dsc" using assms(3) by auto
  let ?i = "unat (desc_id dsc AND (KOBJ_CACHE_SIZE - 1))"
  from slot_in_range assms(2) have i: "?i < length (cache ops)" by (simp add: cache_ok_def)
  then have "cache ops ! ?i \<in> set (cache ops)" by simp
  with assms(2) obtain m where m: "kobj_methods H (cache ops ! ?i) = Some m"
      "kobj_descs H (desc m) \<noteq> None \<longrightarrow> cache ops ! ?i = found (ops_cls ops) (desc m)"
    unfolding cache_ok_def by blast
  from assms(1,3) obtain m' where m': "L (ops_cls ops) (cache ops ! ?i) d = (found (ops_cls ops) d, found (ops_cls ops) d)"
      "kobj_methods H (found (ops_cls ops) d) = Some m'" "desc m' = d"
    unfolding lookup_ok_def by blast
  show ?thesis
  proof (cases "desc m = d")
    case True
    with m assms(3) m' dsc i assms(2) show ?thesis by (auto simp: KOBJOPLOOKUP_def Let_def)
  next
    case False
    let ?ops = "ops\<lparr>cache := (cache ops)[?i := found (ops_cls ops) d]\<rparr>"
    have "cache_ok found H ?ops"
      using assms(2) m'(2,3) set_update_subset_insert [of "cache ops" ?i] unfolding cache_ok_def by fastforce
    moreover have "KOBJOPLOOKUP L H d ops = Some (func m', ?ops)"
      using False m m' dsc i by (simp add: KOBJOPLOOKUP_def Let_def)
    ultimately show ?thesis using m' by auto
  qed
qed

lemma kobj_calls_found:
  assumes "lookup_ok L found H"
  shows "cache_ok found H ops \<Longrightarrow> \<forall>d\<in>set ds. kobj_descs H d \<noteq> None \<Longrightarrow>
    \<exists>fs ops'. kobj_calls L H ds ops = Some (fs, ops') \<and> cache_ok found H ops' \<and>
      list_all2 (\<lambda>d f. \<exists>m. kobj_methods H (found (ops_cls ops) d) = Some m \<and> desc m = d \<and> f = func m) ds fs"
proof (induction ds arbitrary: ops)
  case (Cons d ds)
  then obtain m ops1 where 1: "KOBJOPLOOKUP L H d ops = Some (func m, ops1)" "cache_ok found H ops1"
      "kobj_methods H (found (ops_cls ops) d) = Some m" "desc m = d" "ops_cls ops1 = ops_cls ops"
    using KOBJOPLOOKUP_found [OF assms] by (metis list.set_intros(1))
  with Cons.IH [of ops1] Cons.prems show ?case by fastforce
qed simp

section \<open>Properties\<close>

text \<open>\<open>signature\<close> gives the type of a function and \<open>op_type\<close> the type of an operation; that the entries
  of a method table have functions of the type of their operation is an assumption on the tables, for which the
  compiler only warns in \<open>KOBJMETHOD\<close>.\<close>

definition methods_typed :: "(ptr \<Rightarrow> 't) \<Rightarrow> (ptr \<Rightarrow> 't) \<Rightarrow> kobj_heap \<Rightarrow> bool" where
  "methods_typed signature op_type H \<longleftrightarrow> (\<forall>a m. kobj_methods H a = Some m \<longrightarrow>
     kobj_descs H (desc m) \<noteq> None \<longrightarrow> signature (func m) = op_type (desc m))"

text \<open>C22 Method calls are well typed: for any sequence of operations, from any state of the cache that lookups
  leave behind, every call has a function, it is the function of the method that the search finds
  for the object's class, and it has the type of the operation called, when the method tables are well
  typed.  Identifiers that collide in the cache do not matter.\<close>

theorem kobj_calls_typed:
  assumes "lookup_ok L found H" and "cache_ok found H ops" and "methods_typed signature op_type H"
    and "\<forall>d\<in>set ds. kobj_descs H d \<noteq> None"
  shows "\<exists>fs ops'. kobj_calls L H ds ops = Some (fs, ops') \<and> cache_ok found H ops' \<and>
    fs = map (\<lambda>d. func (the (kobj_methods H (found (ops_cls ops) d)))) ds \<and> map signature fs = map op_type ds"
proof -
  from kobj_calls_found [OF assms(1,2,4)] obtain fs ops' where c: "kobj_calls L H ds ops = Some (fs, ops')" "cache_ok found H ops'"
      and fs: "list_all2 (\<lambda>d f. \<exists>m. kobj_methods H (found (ops_cls ops) d) = Some m \<and> desc m = d \<and> f = func m) ds fs"
    by blast
  from fs assms(3,4) have "fs = map (\<lambda>d. func (the (kobj_methods H (found (ops_cls ops) d)))) ds \<and> map signature fs = map op_type ds"
    by (induction rule: list_all2_induct) (auto simp: methods_typed_def)
  with c show ?thesis by blast
qed

section \<open>Witnesses\<close>

text \<open>Two operations whose identifiers collide, and the empty method in every slot.\<close>

definition sample_kobj_heap :: kobj_heap where
  "sample_kobj_heap = \<lparr>kobj_descs = [0x100 \<mapsto> \<lparr>desc_id = 1, deflt = 0x10\<rparr>, 0x200 \<mapsto> \<lparr>desc_id = 257, deflt = 0x20\<rparr>],
     kobj_methods = [0x10 \<mapsto> KOBJMETHOD 0x100 0xF1, 0x20 \<mapsto> KOBJMETHOD 0x200 0xF2, 0x30 \<mapsto> KOBJMETHOD 0x300 0xF3]\<rparr>"

definition sample_found :: "ptr \<Rightarrow> ptr \<Rightarrow> ptr" where
  "sample_found c d = (if d = 0x100 then 0x10 else 0x20)"

definition sample_ops_table :: kobj_ops where
  "sample_ops_table = \<lparr>cache = replicate 256 0x30, ops_cls = 0x500\<rparr>"

theorem kobj_calls_typed_witness:
  "\<exists>ops'. kobj_calls (\<lambda>c slot d. (sample_found c d, sample_found c d)) sample_kobj_heap [0x100, 0x200, 0x100] sample_ops_table =
     Some ([0xF1, 0xF2, 0xF1], ops')"
proof -
  have l: "lookup_ok (\<lambda>c slot d. (sample_found c d, sample_found c d)) sample_found sample_kobj_heap"
    by (simp add: lookup_ok_def sample_found_def sample_kobj_heap_def KOBJMETHOD_def)
  have c: "cache_ok sample_found sample_kobj_heap sample_ops_table"
    by (simp add: cache_ok_def sample_ops_table_def sample_kobj_heap_def KOBJMETHOD_def)
  have t: "methods_typed (\<lambda>f. f AND 0xF) (\<lambda>d. d div 0x100) sample_kobj_heap"
    by (auto simp: methods_typed_def sample_kobj_heap_def KOBJMETHOD_def split: if_splits)
  have d: "\<forall>d\<in>set [0x100, 0x200, 0x100]. kobj_descs sample_kobj_heap d \<noteq> None" by (simp add: sample_kobj_heap_def)
  from kobj_calls_typed [OF l c t d] show ?thesis
    by (simp add: sample_found_def sample_kobj_heap_def KOBJMETHOD_def) blast
qed

end
