(* ===== verification/Stdio_Streams.thy ===== *)
theory Stdio_Streams
  imports Ps4_Prelude
begin

text \<open>
  The inlined part of the standard streams, \<open>include/stdio.h\<close>: the structure \<open>__sFILE\<close>, the macros that
  read and write a character through the buffer of the stream, in the variant for GNU C and in the one
  for other compilers, and those that test its flags.  What the buffer cannot serve is left to
  \<open>__srget\<close> and \<open>__swbuf\<close> of the C library; both are arguments, with what the macros rely on as a
  hypothesis.  The fields of type \<open>int\<close> are integers, and a step below the least \<open>int\<close> has no result.
  Names that start with underscores in C have the prefix \<open>s_\<close> or none here.

  Shown: in full and in line buffering, from any state that satisfies the invariant of the
  comment in the header, both variants of \<open>putc\<close> write inside the buffer only and together with \<open>__swbuf\<close> put
  exactly the given bytes on the stream, in order; \<open>getc\<close> returns the bytes of the buffer in order and calls
  \<open>__srget\<close> exactly when they are used up.
\<close>

unbundle bit_operations_syntax

section \<open>The structure and its macros\<close>

record sbuf =
  sb_base :: ptr
  sb_size :: int

record sFILE =
  s_p :: ptr
  s_r :: int
  s_w :: int
  s_flags :: u16
  s_file :: u16
  s_bf :: sbuf
  s_lbfsize :: int

abbreviation (input) SEOF :: u16 where "SEOF \<equiv> 0x0020"
abbreviation (input) SERR :: u16 where "SERR \<equiv> 0x0040"

text \<open>A stream with the memory its buffer is in and the rest \<open>'w\<close> of the system.\<close>

type_synonym 'w io = "sFILE \<times> memory \<times> 'w"

definition dec_int :: "int \<Rightarrow> int option" where
  "dec_int x = (if x \<le> - (2 ^ 31) then None else Some (x - 1))"

text \<open>The conversion of an \<open>int\<close> to \<open>unsigned char\<close>.\<close>

definition uchar :: "int \<Rightarrow> u8" where
  "uchar c = word_of_int c"

definition sgetc :: "('w io \<Rightarrow> int \<times> 'w io) \<Rightarrow> 'w io \<Rightarrow> (int \<times> 'w io) option" where
  "sgetc srget = (\<lambda>(p, m, w). do {
     r \<leftarrow> dec_int (s_r p);
     let p = p\<lparr>s_r := r\<rparr>;
     if r < 0 then Some (srget (p, m, w))
     else do { b \<leftarrow> m (s_p p); Some (uint b, p\<lparr>s_p := s_p p + 1\<rparr>, m, w) } })"

definition sputc :: "(int \<Rightarrow> 'w io \<Rightarrow> int \<times> 'w io) \<Rightarrow> int \<Rightarrow> 'w io \<Rightarrow> (int \<times> 'w io) option" where
  "sputc swbuf c = (\<lambda>(p, m, w). do {
     n \<leftarrow> dec_int (s_w p);
     let p = p\<lparr>s_w := n\<rparr>;
     if n \<ge> 0 \<or> n \<ge> s_lbfsize p \<and> uchar c \<noteq> 10 then do {
       m \<leftarrow> store8 m (s_p p) (uchar c);
       Some (uint (uchar c), p\<lparr>s_p := s_p p + 1\<rparr>, m, w) }
     else Some (swbuf c (p, m, w)) })"

definition sputc_pcc :: "(int \<Rightarrow> 'w io \<Rightarrow> int \<times> 'w io) \<Rightarrow> int \<Rightarrow> 'w io \<Rightarrow> (int \<times> 'w io) option" where
  "sputc_pcc swbuf c = (\<lambda>(p, m, w). do {
     n \<leftarrow> dec_int (s_w p);
     let p = p\<lparr>s_w := n\<rparr>;
     if n < 0 then
       if n \<ge> s_lbfsize p then do {
         m \<leftarrow> store8 m (s_p p) (uchar c);
         b \<leftarrow> m (s_p p);
         if b \<noteq> 10 then Some (uint b, p\<lparr>s_p := s_p p + 1\<rparr>, m, w) else Some (swbuf 10 (p, m, w)) }
       else Some (swbuf c (p, m, w))
     else do {
       m \<leftarrow> store8 m (s_p p) (uchar c);
       b \<leftarrow> m (s_p p);
       Some (uint b, p\<lparr>s_p := s_p p + 1\<rparr>, m, w) } })"

definition sfeof :: "sFILE \<Rightarrow> bool" where
  "sfeof p \<longleftrightarrow> s_flags p AND SEOF \<noteq> 0"

definition sferror :: "sFILE \<Rightarrow> bool" where
  "sferror p \<longleftrightarrow> s_flags p AND SERR \<noteq> 0"

definition sclearerr :: "sFILE \<Rightarrow> sFILE" where
  "sclearerr p = p\<lparr>s_flags := s_flags p AND NOT (SERR OR SEOF)\<rparr>"

definition sfileno :: "sFILE \<Rightarrow> u16" where
  "sfileno p = s_file p"

text \<open>Without threads the macros are used, with threads the functions of the library.\<close>

definition getc :: "bool \<Rightarrow> ('w io \<Rightarrow> (int \<times> 'w io) option) \<Rightarrow> ('w io \<Rightarrow> int \<times> 'w io) \<Rightarrow> 'w io \<Rightarrow> (int \<times> 'w io) option" where
  "getc isthreaded libc_getc srget fp = (if \<not> isthreaded then sgetc srget fp else libc_getc fp)"

definition putc ::
  "bool \<Rightarrow> (int \<Rightarrow> 'w io \<Rightarrow> (int \<times> 'w io) option) \<Rightarrow> (int \<Rightarrow> 'w io \<Rightarrow> int \<times> 'w io) \<Rightarrow> int \<Rightarrow> 'w io \<Rightarrow> (int \<times> 'w io) option" where
  "putc isthreaded libc_putc swbuf x fp = (if \<not> isthreaded then sputc swbuf x fp else libc_putc x fp)"

lemma clearerr_clears: "\<not> sfeof (sclearerr p)" "\<not> sferror (sclearerr p)"
proof -
  have "(x AND NOT m) AND k = 0" if "k AND m = k" for x m k :: u16
  proof -
    have "(x AND NOT m) AND k = x AND (NOT m AND (k AND m))" using that by (simp add: ac_simps)
    then show ?thesis by (simp add: ac_simps)
  qed
  from this [of _ "SERR OR SEOF"] show "\<not> sfeof (sclearerr p)" "\<not> sferror (sclearerr p)"
    by (simp_all add: sfeof_def sferror_def sclearerr_def)
qed

section \<open>The invariant of an output stream\<close>

text \<open>The number of bytes in the buffer, and the invariant: a fully buffered or unbuffered stream has
  \<open>_lbfsize\<close> 0 and \<open>_w\<close> counts space that is there; a line buffered one has \<open>_lbfsize\<close> the negated size, and
  \<open>- _w\<close> bounds the bytes in the buffer.\<close>

definition used :: "sFILE \<Rightarrow> nat" where
  "used p = unat (s_p p - sb_base (s_bf p))"

definition out_ok :: "sFILE \<Rightarrow> memory \<Rightarrow> bool" where
  "out_ok p m \<longleftrightarrow> (let size = sb_size (s_bf p) in
     0 < size \<and> size < 2 ^ 31 \<and> mapped m (sb_base (s_bf p)) (nat size) \<and> int (used p) \<le> size \<and>
     (s_lbfsize p = 0 \<and> 0 \<le> s_w p \<and> int (used p) + s_w p \<le> size \<or>
      s_lbfsize p = - size \<and> - size \<le> s_w p \<and> s_w p \<le> 0 \<and> int (used p) \<le> - s_w p))"

text \<open>The bytes that were put on the stream: what has been \<open>sent\<close>, then the content of the buffer.\<close>

definition out_stream :: "('w \<Rightarrow> u8 list) \<Rightarrow> 'w io \<Rightarrow> u8 list \<Rightarrow> bool" where
  "out_stream sent = (\<lambda>(p, m, w) bs. \<exists>b. load_bytes m (sb_base (s_bf p)) (used p) = Some b \<and> bs = sent w @ b)"

text \<open>\<open>__swbuf\<close> is called behind the decrement of \<open>_w\<close>; it takes the byte and restores the invariant.\<close>

definition swbuf_ok :: "('w \<Rightarrow> u8 list) \<Rightarrow> (int \<Rightarrow> 'w io \<Rightarrow> int \<times> 'w io) \<Rightarrow> bool" where
  "swbuf_ok sent swbuf \<longleftrightarrow> (\<forall>c p m w bs. out_ok (p\<lparr>s_w := s_w p + 1\<rparr>) m \<and> out_stream sent (p, m, w) bs \<longrightarrow>
     (\<exists>p' m' w'. swbuf c (p, m, w) = (uint (uchar c), p', m', w') \<and> out_ok p' m' \<and>
       out_stream sent (p', m', w') (bs @ [uchar c])))"

section \<open>Writing\<close>

lemma mapped_at: "mapped m a n \<Longrightarrow> i < n \<Longrightarrow> \<exists>b. m (a + of_nat i) = Some b"
  by (auto simp: mapped_def)

lemma s_p_used: "s_p p = sb_base (s_bf p) + of_nat (used p)"
  by (simp add: used_def)

lemma used_next: "used p < 2 ^ 31 \<Longrightarrow> used (p\<lparr>s_p := s_p p + 1\<rparr>) = used p + 1"
proof -
  assume u: "used p < 2 ^ 31"
  let ?d = "s_p p - sb_base (s_bf p)"
  have "s_p p + 1 - sb_base (s_bf p) = ?d + 1" by simp
  moreover have "unat (?d + 1) = unat ?d + 1"
    using u unfolding used_def by (simp add: unat_word_ariths)
  ultimately have "unat (s_p p + 1 - sb_base (s_bf p)) = unat ?d + 1" by (simp only:)
  then show ?thesis by (simp add: used_def)
qed

text \<open>A byte stored behind the bytes of the buffer does not change them, and becomes the next one when the
  position moves on.\<close>

lemma store_next:
  assumes "mapped m (sb_base (s_bf p)) (nat n)" and "int (used p) < n" and "n < 2 ^ 31"
  obtains m' where "store8 m (s_p p) b = Some m'" and "m' (s_p p) = Some b" and "mapped m' (sb_base (s_bf p)) (nat n)"
    and "load_bytes m' (sb_base (s_bf p)) (used p) = load_bytes m (sb_base (s_bf p)) (used p)"
    and "used (p\<lparr>s_p := s_p p + 1\<rparr>) = used p + 1"
    and "load_bytes m (sb_base (s_bf p)) (used p) = Some bs \<Longrightarrow>
      load_bytes m' (sb_base (s_bf p)) (used p + 1) = Some (bs @ [b])"
proof -
  have lt: "used p < nat n" and small: "used p < 2 ^ 31" using assms(2,3) by simp_all
  from mapped_at [OF assms(1) lt] obtain old where "m (s_p p) = Some old" by (auto simp: s_p_used)
  then have st: "store8 m (s_p p) b = Some (m(s_p p \<mapsto> b))" by (simp add: store8_def)
  have other: "\<not> in_region (sb_base (s_bf p)) (used p) (s_p p)"
    by (simp add: in_region_def used_def)
  have keep: "load_bytes (m(s_p p \<mapsto> b)) (sb_base (s_bf p)) (used p) = load_bytes m (sb_base (s_bf p)) (used p)"
    using other small by (intro load_bytes_cong) auto
  show ?thesis
  proof (rule that [OF st])
    show "mapped (m(s_p p \<mapsto> b)) (sb_base (s_bf p)) (nat n)" using assms(1) by (auto simp: mapped_def)
    show "load_bytes m (sb_base (s_bf p)) (used p) = Some bs \<Longrightarrow>
        load_bytes (m(s_p p \<mapsto> b)) (sb_base (s_bf p)) (used p + 1) = Some (bs @ [b])"
      unfolding load_bytes_append using keep by (simp add: s_p_used [symmetric])
  qed (use keep used_next [OF small] in simp_all)
qed

text \<open>Both variants put one byte on the stream and keep the invariant.\<close>

lemma out_ok_room:
  assumes "out_ok p m" and "s_w p - 1 \<ge> 0 \<or> s_w p - 1 \<ge> s_lbfsize p"
  shows "int (used p) < sb_size (s_bf p)"
  using assms by (auto simp: out_ok_def Let_def)

lemma out_ok_advance:
  assumes "out_ok p m" and "s_w p - 1 \<ge> 0 \<or> s_w p - 1 \<ge> s_lbfsize p"
    and "mapped m' (sb_base (s_bf p)) (nat (sb_size (s_bf p)))"
  shows "out_ok (p\<lparr>s_w := s_w p - 1, s_p := s_p p + 1\<rparr>) m'"
proof -
  have "used (p\<lparr>s_p := s_p p + 1\<rparr>) = used p + 1"
    using out_ok_room [OF assms(1,2)] assms(1) by (intro used_next) (auto simp: out_ok_def Let_def)
  then have "used (p\<lparr>s_w := s_w p - 1, s_p := s_p p + 1\<rparr>) = used p + 1" by (simp add: used_def)
  with assms show ?thesis by (auto simp: out_ok_def Let_def)
qed

lemma out_ok_dec: "out_ok p m \<Longrightarrow> dec_int (s_w p) = Some (s_w p - 1)"
  by (auto simp: out_ok_def dec_int_def Let_def)

lemma used_w [simp]: "used (p\<lparr>s_w := n\<rparr>) = used p"
  by (simp add: used_def)

lemma put_stored:
  assumes "out_ok p m" and "s_w p - 1 \<ge> 0 \<or> s_w p - 1 \<ge> s_lbfsize p" and "out_stream sent (p, m, w) bs"
  shows "\<exists>m'. store8 m (s_p p) b = Some m' \<and> m' (s_p p) = Some b \<and>
    out_ok (p\<lparr>s_w := s_w p - 1, s_p := s_p p + 1\<rparr>) m' \<and>
    out_stream sent (p\<lparr>s_w := s_w p - 1, s_p := s_p p + 1\<rparr>, m', w) (bs @ [b]) \<and>
    out_ok p m' \<and> out_stream sent (p\<lparr>s_w := s_w p - 1\<rparr>, m', w) bs"
proof -
  let ?n = "sb_size (s_bf p)"
  from assms(3) obtain buf where buf: "load_bytes m (sb_base (s_bf p)) (used p) = Some buf" "bs = sent w @ buf"
    by (auto simp: out_stream_def)
  have n: "mapped m (sb_base (s_bf p)) (nat ?n)" "?n < 2 ^ 31" using assms(1) by (auto simp: out_ok_def Let_def)
  obtain m' where m': "store8 m (s_p p) b = Some m'" "m' (s_p p) = Some b" "mapped m' (sb_base (s_bf p)) (nat ?n)"
      "load_bytes m' (sb_base (s_bf p)) (used p) = load_bytes m (sb_base (s_bf p)) (used p)"
      "used (p\<lparr>s_p := s_p p + 1\<rparr>) = used p + 1" "load_bytes m' (sb_base (s_bf p)) (used p + 1) = Some (buf @ [b])"
    using store_next [OF n(1) out_ok_room [OF assms(1,2)] n(2), of b buf] buf(1) by blast
  have u: "used (p\<lparr>s_w := s_w p - 1, s_p := s_p p + 1\<rparr>) = used p + 1" using m'(5) by (simp add: used_def)
  have "out_ok (p\<lparr>s_w := s_w p - 1, s_p := s_p p + 1\<rparr>) m'" by (rule out_ok_advance [OF assms(1,2) m'(3)])
  moreover have "out_ok p m'" using assms(1) m'(3) by (auto simp: out_ok_def Let_def)
  ultimately show ?thesis using m' u buf by (intro exI [of _ m']) (simp add: out_stream_def)
qed

lemma swbuf_puts:
  assumes "swbuf_ok sent swbuf" and "out_ok p m" and "out_stream sent (p\<lparr>s_w := s_w p - 1\<rparr>, m, w) bs"
  shows "\<exists>p' m' w'. swbuf c (p\<lparr>s_w := s_w p - 1\<rparr>, m, w) = (uint (uchar c), p', m', w') \<and> out_ok p' m' \<and>
       out_stream sent (p', m', w') (bs @ [uchar c])"
proof -
  have "out_ok ((p\<lparr>s_w := s_w p - 1\<rparr>)\<lparr>s_w := s_w (p\<lparr>s_w := s_w p - 1\<rparr>) + 1\<rparr>) m" using assms(2) by simp
  with assms(1,3) show ?thesis unfolding swbuf_ok_def by blast
qed

lemma sputc_puts:
  assumes "swbuf_ok sent swbuf" and "out_ok p m" and "out_stream sent (p, m, w) bs"
  shows "\<exists>p' m' w'. sputc swbuf c (p, m, w) = Some (uint (uchar c), p', m', w') \<and> out_ok p' m' \<and>
      out_stream sent (p', m', w') (bs @ [uchar c])"
proof (cases "s_w p - 1 \<ge> 0 \<or> s_w p - 1 \<ge> s_lbfsize p \<and> uchar c \<noteq> 10")
  case True
  then have "s_w p - 1 \<ge> 0 \<or> s_w p - 1 \<ge> s_lbfsize p" by auto
  from put_stored [OF assms(2) this assms(3), of "uchar c"] True
  show ?thesis by (auto simp: sputc_def out_ok_dec [OF assms(2)] Let_def)
next
  case False
  have "out_stream sent (p\<lparr>s_w := s_w p - 1\<rparr>, m, w) bs" using assms(3) by (simp add: out_stream_def)
  from swbuf_puts [OF assms(1,2) this, of c] False
  show ?thesis by (auto simp: sputc_def out_ok_dec [OF assms(2)] Let_def)
qed

lemma sputc_pcc_puts:
  assumes "swbuf_ok sent swbuf" and "out_ok p m" and "out_stream sent (p, m, w) bs"
  shows "\<exists>p' m' w'. sputc_pcc swbuf c (p, m, w) = Some (uint (uchar c), p', m', w') \<and> out_ok p' m' \<and>
      out_stream sent (p', m', w') (bs @ [uchar c])"
proof (cases "s_w p - 1 \<ge> 0 \<or> s_w p - 1 \<ge> s_lbfsize p")
  case True
  from put_stored [OF assms(2) True assms(3), of "uchar c"] obtain m' where
    m': "store8 m (s_p p) (uchar c) = Some m'" "m' (s_p p) = Some (uchar c)"
      "out_ok (p\<lparr>s_w := s_w p - 1, s_p := s_p p + 1\<rparr>) m'"
      "out_stream sent (p\<lparr>s_w := s_w p - 1, s_p := s_p p + 1\<rparr>, m', w) (bs @ [uchar c])"
      "out_ok p m'" "out_stream sent (p\<lparr>s_w := s_w p - 1\<rparr>, m', w) bs" by blast
  have "uchar 10 = 10" by (simp add: uchar_def)
  with swbuf_puts [OF assms(1) m'(5,6), of 10] True m'(1-4) show ?thesis
    by (cases "s_w p - 1 < 0 \<and> uchar c = 10") (auto simp: sputc_pcc_def out_ok_dec [OF assms(2)] Let_def)
next
  case False
  have "out_stream sent (p\<lparr>s_w := s_w p - 1\<rparr>, m, w) bs" using assms(3) by (simp add: out_stream_def)
  from swbuf_puts [OF assms(1,2) this, of c] False
  show ?thesis by (auto simp: sputc_pcc_def out_ok_dec [OF assms(2)] Let_def)
qed

fun put_all :: "(int \<Rightarrow> 'w io \<Rightarrow> (int \<times> 'w io) option) \<Rightarrow> int list \<Rightarrow> 'w io \<Rightarrow> (int list \<times> 'w io) option" where
  "put_all put [] s = Some ([], s)"
| "put_all put (c # cs) s = do { (r, s) \<leftarrow> put c s; (rs, s) \<leftarrow> put_all put cs s; Some (r # rs, s) }"

lemma put_all_puts:
  assumes step: "\<And>c p m w bs. out_ok p m \<Longrightarrow> out_stream sent (p, m, w) bs \<Longrightarrow>
    \<exists>p' m' w'. put c (p, m, w) = Some (uint (uchar c), p', m', w') \<and> out_ok p' m' \<and> out_stream sent (p', m', w') (bs @ [uchar c])"
  shows "out_ok p m \<Longrightarrow> out_stream sent (p, m, w) bs \<Longrightarrow>
    \<exists>p' m' w'. put_all put cs (p, m, w) = Some (map (uint \<circ> uchar) cs, p', m', w') \<and> out_ok p' m' \<and>
      out_stream sent (p', m', w') (bs @ map uchar cs)"
proof (induction cs arbitrary: p m w bs)
  case (Cons c cs)
  from step [OF Cons.prems, of c] obtain p' m' w' where 1: "put c (p, m, w) = Some (uint (uchar c), p', m', w')"
      "out_ok p' m'" "out_stream sent (p', m', w') (bs @ [uchar c])" by blast
  from Cons.IH [OF 1(2,3)] 1(1) show ?case by auto
qed simp

section \<open>Reading\<close>

fun get_all :: "('w io \<Rightarrow> (int \<times> 'w io) option) \<Rightarrow> nat \<Rightarrow> 'w io \<Rightarrow> (int list \<times> 'w io) option" where
  "get_all get 0 s = Some ([], s)"
| "get_all get (Suc n) s = do { (r, s) \<leftarrow> get s; (rs, s) \<leftarrow> get_all get n s; Some (r # rs, s) }"

lemma get_all_buffered:
  "load_bytes m (s_p p) n = Some bs \<Longrightarrow> int n \<le> s_r p \<Longrightarrow>
   get_all (sgetc srget) n (p, m, w) = Some (map uint bs, p\<lparr>s_p := s_p p + of_nat n, s_r := s_r p - int n\<rparr>, m, w)"
proof (induction n arbitrary: p bs)
  case (Suc n)
  from Suc.prems(1) obtain b bs' where b: "m (s_p p) = Some b" "load_bytes m (s_p p + 1) n = Some bs'" "bs = b # bs'"
    by (auto split: bind_splits)
  have g: "sgetc srget (p, m, w) = Some (uint b, p\<lparr>s_r := s_r p - 1, s_p := s_p p + 1\<rparr>, m, w)"
    using Suc.prems(2) b(1) by (auto simp: sgetc_def dec_int_def)
  show ?case using Suc.IH [of "p\<lparr>s_r := s_r p - 1, s_p := s_p p + 1\<rparr>" bs'] b Suc.prems(2)
    by (simp add: g algebra_simps)
qed simp

section \<open>Properties\<close>

text \<open>Buffered output: from a state of a fully or a line buffered stream that satisfies the invariant,
  putting the characters \<open>cs\<close> returns them, reduced to bytes, keeps the invariant and adds exactly those
  bytes in that order to the stream, what has been sent followed by what is in the buffer.  No
  store leaves the buffer and \<open>_w\<close> does not overflow, else there would be no result.  The inline
  function and the macro for other compilers agree on this.\<close>

lemma sputc_stream:
  assumes "swbuf_ok sent swbuf" and "out_ok p m" and "out_stream sent (p, m, w) bs" and "put \<in> {sputc swbuf, sputc_pcc swbuf}"
  shows "\<exists>p' m' w'. put_all put cs (p, m, w) = Some (map (uint \<circ> uchar) cs, p', m', w') \<and> out_ok p' m' \<and>
    out_stream sent (p', m', w') (bs @ map uchar cs)"
  using put_all_puts [of sent put, OF _ assms(2,3)] sputc_puts [OF assms(1)] sputc_pcc_puts [OF assms(1)] assms(4)
  by blast

text \<open>Buffered input: \<open>n\<close> characters come from the buffer as long as it has them, and the next one from
  \<open>__srget\<close>.\<close>

lemma sgetc_stream:
  assumes "load_bytes m (s_p p) n = Some bs" and "int n = s_r p"
  shows "get_all (sgetc srget) n (p, m, w) = Some (map uint bs, p\<lparr>s_p := s_p p + of_nat n, s_r := 0\<rparr>, m, w) \<and>
    sgetc srget (p\<lparr>s_p := s_p p + of_nat n, s_r := 0\<rparr>, m, w) = Some (srget (p\<lparr>s_p := s_p p + of_nat n, s_r := - 1\<rparr>, m, w))"
  using get_all_buffered [OF assms(1), of srget w] assms(2) by (simp add: sgetc_def dec_int_def)

section \<open>Witnesses\<close>

text \<open>A flush that takes the buffer and the new byte at once.\<close>

definition sample_swbuf :: "int \<Rightarrow> u8 list io \<Rightarrow> int \<times> u8 list io" where
  "sample_swbuf c = (\<lambda>(p, m, w). (uint (uchar c),
     p\<lparr>s_p := sb_base (s_bf p), s_w := if s_lbfsize p = 0 then sb_size (s_bf p) else 0\<rparr>, m,
     w @ (case load_bytes m (sb_base (s_bf p)) (used p) of None \<Rightarrow> [] | Some b \<Rightarrow> b) @ [uchar c]))"

lemma sample_swbuf_ok: "swbuf_ok id sample_swbuf"
  by (auto simp: swbuf_ok_def sample_swbuf_def out_ok_def out_stream_def used_def Let_def)

text \<open>A line buffered stream of four bytes.\<close>

definition sample_stream :: sFILE where
  "sample_stream = \<lparr>s_p = 0x1000, s_r = 0, s_w = 0, s_flags = 9, s_file = 1, s_bf = \<lparr>sb_base = 0x1000, sb_size = 4\<rparr>, s_lbfsize = - 4\<rparr>"

lemma sputc_stream_witness:
  "\<exists>p' m' w'. put_all (sputc sample_swbuf) [72, 105, 10, 98, 121, 101] (sample_stream, memory_at 0x1000 [0, 0, 0, 0], []) =
     Some ([72, 105, 10, 98, 121, 101], p', m', w') \<and> out_stream id (p', m', w') [72, 105, 10, 98, 121, 101]"
proof -
  have "mapped (memory_at 0x1000 [0, 0, 0, 0]) 0x1000 (nat 4)"
    by (rule load_bytes_mapped [THEN iffD1]) (rule exI, code_simp)
  then have ok: "out_ok sample_stream (memory_at 0x1000 [0, 0, 0, 0])"
    by (simp add: out_ok_def sample_stream_def used_def)
  have "out_stream id (sample_stream, memory_at 0x1000 [0, 0, 0, 0], []) []"
    by (simp add: out_stream_def sample_stream_def used_def)
  from sputc_stream [OF sample_swbuf_ok ok this, of "sputc sample_swbuf" "[72, 105, 10, 98, 121, 101]"]
  show ?thesis by (auto simp: uchar_def)
qed

end
