(* ===== verification/Page_Maps.thy ===== *)
theory Page_Maps
  imports Atomic_Ops
begin

text \<open>
  Counting, rounding and addresses of pages: the bit map and rounding macros of \<open>include/sys/param.h\<close>, the
  page arithmetic of \<open>include/machine/param.h\<close>, and the virtual addresses and page table entries of
  \<open>include/machine/pmap.h\<close>.  The macros for any integer type are written for \<open>unsigned long\<close>, whose
  arithmetic wraps; a division by zero has no result.

  Shown: the bit maps are sets of numbers; rounding to a power of two by masks is rounding by
  division and yields the nearest multiple; a page address and its four table indices determine each
  other, in the lower and in the upper half of the address space.
\<close>

section \<open>Bit maps\<close>

definition setbit :: "u8 list \<Rightarrow> nat \<Rightarrow> u8 list option" where
  "setbit a i = (if i div 8 < length a then Some (a[i div 8 := a ! (i div 8) OR push_bit (i mod 8) 1]) else None)"

definition clrbit :: "u8 list \<Rightarrow> nat \<Rightarrow> u8 list option" where
  "clrbit a i = (if i div 8 < length a then Some (a[i div 8 := a ! (i div 8) AND NOT (push_bit (i mod 8) 1)]) else None)"

definition isset :: "u8 list \<Rightarrow> nat \<Rightarrow> bool option" where
  "isset a i = (if i div 8 < length a then Some (a ! (i div 8) AND push_bit (i mod 8) 1 \<noteq> 0) else None)"

definition isclr :: "u8 list \<Rightarrow> nat \<Rightarrow> bool option" where
  "isclr a i = (if i div 8 < length a then Some (a ! (i div 8) AND push_bit (i mod 8) 1 = 0) else None)"

section \<open>Counting and rounding\<close>

definition howmany :: "u64 \<Rightarrow> u64 \<Rightarrow> u64 option" where
  "howmany x y = udiv (x + (y - 1)) y"

definition rounddown :: "u64 \<Rightarrow> u64 \<Rightarrow> u64 option" where
  "rounddown x y = map_option (\<lambda>q. q * y) (udiv x y)"

definition roundup :: "u64 \<Rightarrow> u64 \<Rightarrow> u64 option" where
  "roundup x y = map_option (\<lambda>q. q * y) (udiv (x + (y - 1)) y)"

definition roundup2 :: "u64 \<Rightarrow> u64 \<Rightarrow> u64" where
  "roundup2 x y = (x + (y - 1)) AND NOT (y - 1)"

definition powerof2 :: "u64 \<Rightarrow> bool" where
  "powerof2 x \<longleftrightarrow> (x - 1) AND x = 0"

abbreviation (input) PAGE_SHIFT :: nat where "PAGE_SHIFT \<equiv> 12"
abbreviation (input) PAGE_MASK :: u64 where "PAGE_MASK \<equiv> 0xfff"
abbreviation (input) PDRSHIFT :: nat where "PDRSHIFT \<equiv> 21"
abbreviation (input) PDRMASK :: u64 where "PDRMASK \<equiv> 0x1fffff"
abbreviation (input) PDPSHIFT :: nat where "PDPSHIFT \<equiv> 30"
abbreviation (input) PDPMASK :: u64 where "PDPMASK \<equiv> 0x3fffffff"
abbreviation (input) PML4SHIFT :: nat where "PML4SHIFT \<equiv> 39"

definition round_page :: "u64 \<Rightarrow> u64" where "round_page x = (x + PAGE_MASK) AND NOT PAGE_MASK"
definition trunc_page :: "u64 \<Rightarrow> u64" where "trunc_page x = x AND NOT PAGE_MASK"
definition trunc_2mpage :: "u64 \<Rightarrow> u64" where "trunc_2mpage x = x AND NOT PDRMASK"
definition round_2mpage :: "u64 \<Rightarrow> u64" where "round_2mpage x = (x + PDRMASK) AND NOT PDRMASK"
definition trunc_1gpage :: "u64 \<Rightarrow> u64" where "trunc_1gpage x = x AND NOT PDPMASK"
definition atop :: "u64 \<Rightarrow> u64" where "atop x = drop_bit PAGE_SHIFT x"
definition ptoa :: "u64 \<Rightarrow> u64" where "ptoa x = push_bit PAGE_SHIFT x"
definition amd64_btop :: "u64 \<Rightarrow> u64" where "amd64_btop x = drop_bit PAGE_SHIFT x"
definition amd64_ptob :: "u64 \<Rightarrow> u64" where "amd64_ptob x = push_bit PAGE_SHIFT x"
definition pgtok :: "u64 \<Rightarrow> u64" where "pgtok x = x * 4"

section \<open>Page tables\<close>

definition KVADDR :: "u64 \<Rightarrow> u64 \<Rightarrow> u64 \<Rightarrow> u64 \<Rightarrow> u64" where
  "KVADDR l4 l3 l2 l1 = push_bit 47 (- 1) OR push_bit PML4SHIFT l4 OR push_bit PDPSHIFT l3 OR push_bit PDRSHIFT l2 OR
     push_bit PAGE_SHIFT l1"

definition UVADDR :: "u64 \<Rightarrow> u64 \<Rightarrow> u64 \<Rightarrow> u64 \<Rightarrow> u64" where
  "UVADDR l4 l3 l2 l1 = push_bit PML4SHIFT l4 OR push_bit PDPSHIFT l3 OR push_bit PDRSHIFT l2 OR push_bit PAGE_SHIFT l1"

abbreviation (input) NPML4EPG :: u64 where "NPML4EPG \<equiv> 512"
abbreviation (input) PML4PML4I :: u64 where "PML4PML4I \<equiv> NPML4EPG div 2"

definition addr_PTmap :: u64 where "addr_PTmap = KVADDR PML4PML4I 0 0 0"
definition addr_PDmap :: u64 where "addr_PDmap = KVADDR PML4PML4I PML4PML4I 0 0"
definition addr_PDPmap :: u64 where "addr_PDPmap = KVADDR PML4PML4I PML4PML4I PML4PML4I 0"
definition addr_PML4map :: u64 where "addr_PML4map = KVADDR PML4PML4I PML4PML4I PML4PML4I PML4PML4I"
definition addr_PML4pml4e :: u64 where "addr_PML4pml4e = addr_PML4map + PML4PML4I * 8"

definition pte_load :: "u64 \<Rightarrow> u64" where "pte_load ptep = ptep"
definition pte_load_store :: "u64 \<Rightarrow> u64 \<Rightarrow> u64 \<times> u64" where "pte_load_store ptep pte = (ptep, pte)"
definition pte_load_clear :: "u64 \<Rightarrow> u64 \<times> u64" where "pte_load_clear pte = atomic_readandclear_long pte"
definition pte_store :: "u64 \<Rightarrow> u64 \<Rightarrow> u64" where "pte_store ptep pte = pte"
definition pte_clear :: "u64 \<Rightarrow> u64" where "pte_clear ptep = pte_store ptep 0"
definition pde_store :: "u64 \<Rightarrow> u64 \<Rightarrow> u64" where "pde_store pdep pde = pte_store pdep pde"

section \<open>Bit maps as sets\<close>

definition bits_of_map :: "u8 list \<Rightarrow> nat set" where
  "bits_of_map a = {i. i < 8 * length a \<and> bit (a ! (i div 8)) (i mod 8)}"

lemma bit_in_range: "i < 8 * length a \<longleftrightarrow> i div 8 < length (a :: u8 list)"
  by (simp add: less_mult_imp_div_less div_less_iff_less_mult mult.commute)

lemma bits_of_map_update:
  assumes "i < 8 * length a" and "\<And>k. k < 8 \<Longrightarrow> bit b k = (if k = i mod 8 then v else bit (a ! (i div 8)) k)"
  shows "bits_of_map (a[i div 8 := b]) = (if v then insert i (bits_of_map a) else bits_of_map a - {i})"
proof (rule set_eqI)
  fix j
  have r: "i div 8 < length a" using assms(1) by (simp add: bit_in_range)
  have "bit (a[i div 8 := b] ! (j div 8)) (j mod 8) = (if j = i then v else bit (a ! (j div 8)) (j mod 8))"
  proof (cases "j div 8 = i div 8")
    case True
    then have "j = i \<longleftrightarrow> j mod 8 = i mod 8" by (metis div_mult_mod_eq)
    with True assms(2) [of "j mod 8"] r show ?thesis by simp
  qed auto
  then show "j \<in> bits_of_map (a[i div 8 := b]) \<longleftrightarrow> j \<in> (if v then insert i (bits_of_map a) else bits_of_map a - {i})"
    using assms(1) by (auto simp: bits_of_map_def)
qed

lemma bitmap_ops:
  assumes "i < 8 * length a"
  shows "\<exists>a'. setbit a i = Some a' \<and> length a' = length a \<and> bits_of_map a' = insert i (bits_of_map a)"
    and "\<exists>a'. clrbit a i = Some a' \<and> length a' = length a \<and> bits_of_map a' = bits_of_map a - {i}"
    and "isset a i = Some (i \<in> bits_of_map a)" and "isclr a i = Some (i \<notin> bits_of_map a)"
proof -
  have r: "i div 8 < length a" using assms by (simp add: bit_in_range)
  have one: "bit (push_bit (i mod 8) (1 :: u8)) k \<longleftrightarrow> k = i mod 8" if "k < 8" for k
    using that by (auto simp: push_bit_of_1 bit_exp_iff)
  have "bits_of_map (a[i div 8 := a ! (i div 8) OR push_bit (i mod 8) 1]) = insert i (bits_of_map a)"
    using bits_of_map_update [OF assms, of _ True] one by (simp add: bit_or_iff)
  then show "\<exists>a'. setbit a i = Some a' \<and> length a' = length a \<and> bits_of_map a' = insert i (bits_of_map a)"
    using r by (simp add: setbit_def)
  have "bits_of_map (a[i div 8 := a ! (i div 8) AND NOT (push_bit (i mod 8) 1)]) = bits_of_map a - {i}"
    using bits_of_map_update [OF assms, of _ False] one by (simp add: bit_and_iff bit_not_iff)
  then show "\<exists>a'. clrbit a i = Some a' \<and> length a' = length a \<and> bits_of_map a' = bits_of_map a - {i}"
    using r by (simp add: clrbit_def)
  show "isset a i = Some (i \<in> bits_of_map a)" "isclr a i = Some (i \<notin> bits_of_map a)"
    using r assms by (simp_all add: isset_def isclr_def bits_of_map_def push_bit_of_1 and_exp_eq_0_iff_not_bit)
qed

section \<open>Rounding\<close>

lemma udiv_mult: "y \<noteq> 0 \<Longrightarrow> unat (z div y * y) = unat z div unat y * unat (y :: u64)"
proof -
  assume "y \<noteq> 0"
  have "unat z div unat y * unat y \<le> unat z" by simp
  also have "unat z < 2 ^ 64" using unsigned_less [of z] by simp
  finally have "unat z div unat y * unat y < 2 ^ 64" .
  then show ?thesis by (simp add: unat_word_ariths unat_div mod_mult_left_eq)
qed

text \<open>Rounding: for a power of two \<open>y\<close> the mask macro \<open>roundup2\<close> computes what \<open>roundup\<close> computes by division, for
  all arguments, also where the sum wraps; and where it does not, \<open>roundup\<close> of any \<open>y\<close> not zero is
  the least multiple of \<open>y\<close> that is not below \<open>x\<close>, \<open>howmany\<close> the number of its parts, and \<open>rounddown\<close> the
  greatest multiple that is not above.\<close>

lemma roundup2_roundup: "k < 64 \<Longrightarrow> roundup x (2 ^ k) = Some (roundup2 x (2 ^ k))"
proof -
  assume k: "k < 64"
  have y: "(2 ^ k :: u64) \<noteq> 0" using k by (simp add: exp_eq_zero_iff)
  have m: "2 ^ k - 1 = (mask k :: u64)" by (simp add: mask_eq_exp_minus_1)
  let ?z = "x + (2 ^ k - 1)"
  have "unat (?z div 2 ^ k * 2 ^ k) = unat ?z div unat (2 ^ k :: u64) * unat (2 ^ k :: u64)" by (rule udiv_mult [OF y])
  also have "unat (2 ^ k :: u64) = 2 ^ k"
  proof -
    have "(2 :: nat) ^ k < 2 ^ 64" using k by (intro power_strict_increasing) simp_all
    then have "unat (of_nat (2 ^ k) :: u64) = 2 ^ k" by (simp only: unat_of_nat) simp
    then show ?thesis by simp
  qed
  also have "unat ?z div 2 ^ k * 2 ^ k = unat (roundup2 x (2 ^ k))"
    by (simp only: roundup2_def m unat_and_not_mask)
  finally show ?thesis using y by (simp add: roundup_def udiv_def word_unat_eq_iff)
qed

lemma roundup_least:
  assumes "y \<noteq> 0" and "unat x + unat y \<le> 2 ^ 64"
  obtains n where "howmany x y = Some (of_nat n)" and "roundup x y = Some (of_nat (n * unat y))"
    and "unat x \<le> n * unat y" and "n * unat y < unat x + unat y" and "n * unat y < 2 ^ 64"
proof -
  define n where "n = (unat x + (unat y - 1)) div unat y"
  have yp: "0 < unat y" using assms(1) by (simp add: unat_gt_0)
  have y1: "unat (y - 1) = unat y - 1" using assms(1) by (simp add: unat_minus_one)
  have z: "unat (x + (y - 1)) = unat x + (unat y - 1)"
    using assms(2) yp by (subst unat_add_small) (simp_all add: y1)
  have "n * unat y \<le> unat x + (unat y - 1)" by (simp add: n_def)
  then have n2: "n * unat y < unat x + unat y" using yp by linarith
  have "unat x + (unat y - 1) < n * unat y + unat y"
    using yp dividend_less_times_div [OF yp, of "unat x + (unat y - 1)"] by (simp add: n_def mult.commute)
  then have n1: "unat x \<le> n * unat y" using yp by linarith
  have q: "(x + (y - 1)) div y = of_nat n" by (simp add: word_arith_nat_div z n_def)
  show ?thesis
  proof (rule that [of n])
    show "howmany x y = Some (of_nat n)" using assms(1) q by (simp add: howmany_def udiv_def)
    show "roundup x y = Some (of_nat (n * unat y))" using assms(1) q by (simp add: roundup_def udiv_def)
  qed (use n1 n2 assms(2) in linarith)+
qed

lemma round_page_roundup:
  "Some (round_page x) = roundup x 4096" "Some (round_2mpage x) = roundup x 0x200000"
  using roundup2_roundup [of 12 x] roundup2_roundup [of 21 x]
  by (simp_all add: round_page_def round_2mpage_def roundup2_def)

lemma page_number: "ptoa (atop x) = trunc_page x"
proof -
  have m: "0xfff = (mask 12 :: u64)" by (simp add: mask_eq_exp_minus_1)
  show ?thesis unfolding ptoa_def atop_def trunc_page_def m
    by (rule bit_eqI) (auto simp: bit_push_bit_iff bit_drop_bit_eq bit_and_iff bit_not_iff bit_mask_iff)
qed

section \<open>Virtual addresses\<close>

text \<open>The index into the table of a level, the nine bits from the shift of the level on; an address is canonical
  when the bits from 47 on are equal.\<close>

definition va_index :: "nat \<Rightarrow> u64 \<Rightarrow> u64" where
  "va_index shift va = take_bit 9 (drop_bit shift va)"

definition canonical :: "u64 \<Rightarrow> bool" where
  "canonical va \<longleftrightarrow> (\<forall>n\<in>{47..<64}. bit va n = bit va 47)"

lemma index_bits: "(l :: u64) < 512 \<Longrightarrow> bit l n \<Longrightarrow> n < 9"
proof (rule ccontr)
  assume l: "l < 512" and b: "bit l n" and "\<not> n < 9"
  then have "bit (take_bit 9 l) n = False" by (simp add: bit_take_bit_iff)
  moreover have "take_bit 9 l = l" using l by (simp add: word_unat_eq_iff unsigned_take_bit_eq take_bit_nat_eq_self word_less_nat_alt)
  ultimately show False using b by simp
qed

lemma index_small: "va_index sh va < 512"
proof -
  have "take_bit 9 (unat (drop_bit sh va)) < 2 ^ 9" by (rule take_bit_nat_less_exp)
  then show ?thesis by (simp add: va_index_def word_less_nat_alt unsigned_take_bit_eq)
qed

lemmas va_bits = bit_or_iff bit_push_bit_iff bit_take_bit_iff bit_drop_bit_eq

lemma UVADDR_index:
  assumes "l4 < 512" "l3 < 512" "l2 < 512" "l1 < 512"
  shows "va_index 39 (UVADDR l4 l3 l2 l1) = l4" "va_index 30 (UVADDR l4 l3 l2 l1) = l3"
    "va_index 21 (UVADDR l4 l3 l2 l1) = l2" "va_index 12 (UVADDR l4 l3 l2 l1) = l1"
  unfolding va_index_def UVADDR_def
  by (rule bit_eqI; use assms [THEN index_bits] in \<open>auto simp: va_bits\<close>; fastforce)+

text \<open>The sign extension of bit 47.\<close>

definition va_sign :: u64 where
  "va_sign = push_bit 47 (- 1)"

lemma bit_va_sign: "bit va_sign n \<longleftrightarrow> 47 \<le> n \<and> n < 64"
  unfolding va_sign_def bit_push_bit_iff by auto

lemma KVADDR_eq: "KVADDR l4 l3 l2 l1 = va_sign OR UVADDR l4 l3 l2 l1"
  by (simp only: KVADDR_def UVADDR_def va_sign_def or.assoc)

lemma index_or: "va_index sh (a OR b) = va_index sh a OR va_index sh b"
  by (simp only: va_index_def drop_bit_or take_bit_or)

lemma index_sign: "sh \<le> 38 \<Longrightarrow> va_index sh va_sign = 0" "va_index 39 va_sign = 0x100"
proof -
  show "sh \<le> 38 \<Longrightarrow> va_index sh va_sign = 0"
    by (rule bit_eqI) (auto simp: va_index_def bit_take_bit_iff bit_drop_bit_eq bit_va_sign)
  show "va_index 39 va_sign = 0x100" by code_simp
qed

lemma KVADDR_index:
  assumes "l4 < 512" "l3 < 512" "l2 < 512" "l1 < 512" and "l4 OR 0x100 = l4"
  shows "va_index 39 (KVADDR l4 l3 l2 l1) = l4" "va_index 30 (KVADDR l4 l3 l2 l1) = l3"
    "va_index 21 (KVADDR l4 l3 l2 l1) = l2" "va_index 12 (KVADDR l4 l3 l2 l1) = l1"
  using assms(5) UVADDR_index [OF assms(1-4)] by (simp_all add: KVADDR_eq index_or index_sign or.commute)

text \<open>The halves of the canonical page addresses.\<close>

definition page_address :: "u64 \<Rightarrow> bool" where
  "page_address va \<longleftrightarrow> canonical va \<and> take_bit 12 va = 0"

lemma page_address_low: "page_address va \<Longrightarrow> n < 12 \<Longrightarrow> \<not> bit va n"
proof
  assume "page_address va" and n: "n < 12" and b: "bit va n"
  then have "\<not> bit (take_bit 12 va) n" by (simp add: page_address_def)
  with n b show False by (simp add: bit_take_bit_iff)
qed

lemma canonical_high: "page_address va \<Longrightarrow> 47 \<le> n \<Longrightarrow> n < 64 \<Longrightarrow> bit va n = bit va 47"
  unfolding page_address_def canonical_def by (meson atLeastLessThan_iff)

lemma bit_index: "bit (push_bit sh (va_index sh va)) n \<longleftrightarrow> sh \<le> n \<and> n < sh + 9 \<and> bit va n"
  by (cases "sh \<le> n") (auto simp: va_index_def bit_push_bit_iff bit_take_bit_iff bit_drop_bit_eq dest: bit_imp_le_length)

lemma bit_UVADDR:
  "bit (UVADDR (va_index 39 va) (va_index 30 va) (va_index 21 va) (va_index 12 va)) n \<longleftrightarrow> 12 \<le> n \<and> n < 48 \<and> bit va n"
  unfolding UVADDR_def bit_or_iff bit_index by auto

lemma VADDR_of_indices:
  assumes "page_address va"
  shows "(if bit va 47 then KVADDR else UVADDR) (va_index 39 va) (va_index 30 va) (va_index 21 va) (va_index 12 va) = va"
proof (rule bit_eqI)
  fix n
  assume "possible_bit TYPE(u64) n"
  then have n: "n < 64" by simp
  show "bit ((if bit va 47 then KVADDR else UVADDR) (va_index 39 va) (va_index 30 va) (va_index 21 va) (va_index 12 va)) n \<longleftrightarrow> bit va n"
    using page_address_low [OF assms, of n] canonical_high [OF assms, of n] n
    by (cases "n < 12"; cases "n < 47") (auto simp: KVADDR_eq bit_or_iff bit_va_sign bit_UVADDR)
qed

text \<open>Page addresses and table indices: four indices below 512 are read back from the address \<open>UVADDR\<close> makes
  of them, and from that of \<open>KVADDR\<close> when the highest belongs to the upper half; and every canonical
  page address is made of its indices by \<open>KVADDR\<close> in the upper half and by \<open>UVADDR\<close> in the lower one.\<close>

lemma VADDR_roundtrip:
  "(l4 < 512 \<and> l3 < 512 \<and> l2 < 512 \<and> l1 < 512 \<longrightarrow>
     map (\<lambda>sh. va_index sh (UVADDR l4 l3 l2 l1)) [39, 30, 21, 12] = [l4, l3, l2, l1] \<and>
     (l4 OR 0x100 = l4 \<longrightarrow> map (\<lambda>sh. va_index sh (KVADDR l4 l3 l2 l1)) [39, 30, 21, 12] = [l4, l3, l2, l1])) \<and>
   (page_address va \<longrightarrow>
     (if bit va 47 then KVADDR else UVADDR) (va_index 39 va) (va_index 30 va) (va_index 21 va) (va_index 12 va) = va)"
  using UVADDR_index KVADDR_index VADDR_of_indices by simp

text \<open>The tables of the current address space, mapped by the recursive entry.\<close>

lemma recursive_maps:
  "addr_PTmap = 0xFFFF800000000000" "addr_PDmap = 0xFFFF804000000000" "addr_PDPmap = 0xFFFF804020000000"
  "addr_PML4map = 0xFFFF804020100000" "addr_PML4pml4e = 0xFFFF804020100800"
  by code_simp+

section \<open>Witnesses\<close>

text \<open>The base of the kernel, two gigabytes below the top of the address space.\<close>

lemma VADDR_roundtrip_witness:
  "map (\<lambda>sh. va_index sh (KVADDR 511 510 1 2)) [39, 30, 21, 12] = [511, 510, 1, 2] \<and>
   KVADDR (va_index 39 0xFFFFFFFF82200000) (va_index 30 0xFFFFFFFF82200000) (va_index 21 0xFFFFFFFF82200000)
     (va_index 12 0xFFFFFFFF82200000) = 0xFFFFFFFF82200000"
proof -
  have "canonical 0xFFFFFFFF82200000" by code_simp
  moreover have "take_bit 12 (0xFFFFFFFF82200000 :: u64) = 0" by code_simp
  ultimately have va: "page_address 0xFFFFFFFF82200000" by (simp add: page_address_def)
  have "bit (0xFFFFFFFF82200000 :: u64) 47" by code_simp
  then show ?thesis using VADDR_roundtrip [of 511 510 1 2 "0xFFFFFFFF82200000"] va by simp
qed

end
