(* ===== verification/Cpu_Registers.thy ===== *)
theory Cpu_Registers
  imports Ps4_Prelude
begin

text \<open>
  The processor as the inline functions of \<open>include/machine/cpufunc.h\<close> see it.  Each of them is one or a few
  instructions; the model is the state these act on and one definition per function.  What a read
  of a port, a selector load or \<open>cpuid\<close> yields is up to the hardware, an argument of the definition; a bit
  scan of zero, whose result the processor leaves undefined, has no result.

  Shown: the bit searches return the positions they promise; sections with interrupts disabled nest;
  loading a segment selector keeps the base of the segment, and no interrupt is possible while it
  is lost; the halves of a machine register fit together; the repeated port instructions
  transfer exactly the bytes asked for; a flush of the translation buffer drops what it must.
\<close>

section \<open>Bit scans\<close>

definition bsf :: "'a::len word \<Rightarrow> nat option" where
  "bsf w = List.find (bit w) [0..<LENGTH('a)]"

definition bsr :: "'a::len word \<Rightarrow> nat option" where
  "bsr w = List.find (bit w) (rev [0..<LENGTH('a)])"

definition bsfl :: "u32 \<Rightarrow> u32 option" where "bsfl x = map_option of_nat (bsf x)"
definition bsfq :: "u64 \<Rightarrow> u64 option" where "bsfq x = map_option of_nat (bsf x)"
definition bsrl :: "u32 \<Rightarrow> u32 option" where "bsrl x = map_option of_nat (bsr x)"
definition bsrq :: "u64 \<Rightarrow> u64 option" where "bsrq x = map_option of_nat (bsr x)"

definition ffsl :: "u64 \<Rightarrow> u32 option" where
  "ffsl x = (if x = 0 then Some (ucast x) else map_option (\<lambda>r. ucast r + 1) (bsfq x))"

definition fls :: "u32 \<Rightarrow> u32 option" where
  "fls x = (if x = 0 then Some x else map_option (\<lambda>r. r + 1) (bsrl x))"

definition flsl :: "u64 \<Rightarrow> u32 option" where
  "flsl x = (if x = 0 then Some (ucast x) else map_option (\<lambda>r. ucast r + 1) (bsrq x))"

section \<open>The state of the processor\<close>

text \<open>The translation buffer maps page addresses to frames, with a mark on the global ones (\<open>PG_G\<close>).\<close>

record cpu =
  rflags :: u64
  cr0 :: u64
  cr2 :: u64
  cr3 :: u64
  cr4 :: u64
  dr :: "nat \<Rightarrow> u64"
  msr :: "u32 \<Rightarrow> u64"
  pmc :: "u32 \<Rightarrow> u64"
  tsc :: u64
  seg_fs :: u16
  seg_gs :: u16
  seg_ss :: u16
  seg_ds :: u16
  seg_es :: u16
  idtr :: ptr
  ldtr :: u16
  tr :: u16
  tlb :: "ptr \<Rightarrow> (u64 \<times> bool) option"

abbreviation (input) IF_bit :: nat where "IF_bit \<equiv> 9"

definition intr_enabled :: "cpu \<Rightarrow> bool" where
  "intr_enabled s \<longleftrightarrow> bit (rflags s) IF_bit"

definition disable_intr :: "cpu \<Rightarrow> cpu" where "disable_intr s = s\<lparr>rflags := unset_bit IF_bit (rflags s)\<rparr>"
definition enable_intr :: "cpu \<Rightarrow> cpu" where "enable_intr s = s\<lparr>rflags := set_bit IF_bit (rflags s)\<rparr>"
definition read_rflags :: "cpu \<Rightarrow> u64" where "read_rflags s = rflags s"
definition write_rflags :: "u64 \<Rightarrow> cpu \<Rightarrow> cpu" where "write_rflags rf s = s\<lparr>rflags := rf\<rparr>"

definition intr_disable :: "cpu \<Rightarrow> u64 \<times> cpu" where
  "intr_disable s = (let rf = read_rflags s in (rf, disable_intr s))"

definition intr_restore :: "u64 \<Rightarrow> cpu \<Rightarrow> cpu" where
  "intr_restore rf s = write_rflags rf s"

text \<open>The pair of registers \<open>eax\<close> and \<open>edx\<close> in which a 64 bit value is passed.\<close>

definition join32 :: "u32 \<times> u32 \<Rightarrow> u64" where
  "join32 = (\<lambda>(low, high). ucast low OR push_bit 32 (ucast high))"

definition split32 :: "u64 \<Rightarrow> u32 \<times> u32" where
  "split32 v = (ucast v, ucast (drop_bit 32 v))"

definition rdmsr :: "u32 \<Rightarrow> cpu \<Rightarrow> u64" where "rdmsr r s = join32 (split32 (msr s r))"
definition rdpmc :: "u32 \<Rightarrow> cpu \<Rightarrow> u64" where "rdpmc r s = join32 (split32 (pmc s r))"
definition rdtsc :: "cpu \<Rightarrow> u64" where "rdtsc s = join32 (split32 (tsc s))"
definition rdtsc32 :: "cpu \<Rightarrow> u32" where "rdtsc32 s = fst (split32 (tsc s))"

definition wrmsr :: "u32 \<Rightarrow> u64 \<Rightarrow> cpu \<Rightarrow> cpu" where
  "wrmsr r newval s = s\<lparr>msr := (msr s)(r := join32 (split32 newval))\<rparr>"

text \<open>Loading \<open>cr3\<close> drops the entries of the translation buffer that are not global, \<open>invlpg\<close> the entry
  of one page.\<close>

definition load_cr0 :: "u64 \<Rightarrow> cpu \<Rightarrow> cpu" where "load_cr0 data s = s\<lparr>cr0 := data\<rparr>"
definition rcr0 :: "cpu \<Rightarrow> u64" where "rcr0 s = cr0 s"
definition rcr2 :: "cpu \<Rightarrow> u64" where "rcr2 s = cr2 s"
definition load_cr3 :: "u64 \<Rightarrow> cpu \<Rightarrow> cpu" where
  "load_cr3 data s = s\<lparr>cr3 := data, tlb := (\<lambda>p. case tlb s p of Some (f, True) \<Rightarrow> Some (f, True) | _ \<Rightarrow> None)\<rparr>"
definition rcr3 :: "cpu \<Rightarrow> u64" where "rcr3 s = cr3 s"
definition load_cr4 :: "u64 \<Rightarrow> cpu \<Rightarrow> cpu" where "load_cr4 data s = s\<lparr>cr4 := data\<rparr>"
definition rcr4 :: "cpu \<Rightarrow> u64" where "rcr4 s = cr4 s"
definition invltlb :: "cpu \<Rightarrow> cpu" where "invltlb s = load_cr3 (rcr3 s) s"
definition invlpg :: "ptr \<Rightarrow> cpu \<Rightarrow> cpu" where
  "invlpg addr s = s\<lparr>tlb := (tlb s)(addr AND NOT 0xfff := None)\<rparr>"

definition rfs :: "cpu \<Rightarrow> u16" where "rfs s = seg_fs s"
definition rgs :: "cpu \<Rightarrow> u16" where "rgs s = seg_gs s"
definition rss :: "cpu \<Rightarrow> u16" where "rss s = seg_ss s"
definition load_ds :: "u16 \<Rightarrow> cpu \<Rightarrow> cpu" where "load_ds sel s = s\<lparr>seg_ds := sel\<rparr>"
definition load_es :: "u16 \<Rightarrow> cpu \<Rightarrow> cpu" where "load_es sel s = s\<lparr>seg_es := sel\<rparr>"

abbreviation (input) MSR_FSBASE :: u32 where "MSR_FSBASE \<equiv> 0xc0000100"
abbreviation (input) MSR_GSBASE :: u32 where "MSR_GSBASE \<equiv> 0xc0000101"

text \<open>A move to \<open>fs\<close> or \<open>gs\<close> loads the base from the descriptor of the selector, \<open>base\<close>.\<close>

definition mov_fs :: "(u16 \<Rightarrow> u64) \<Rightarrow> u16 \<Rightarrow> cpu \<Rightarrow> cpu" where
  "mov_fs base sel s = s\<lparr>seg_fs := sel, msr := (msr s)(MSR_FSBASE := base sel)\<rparr>"

definition mov_gs :: "(u16 \<Rightarrow> u64) \<Rightarrow> u16 \<Rightarrow> cpu \<Rightarrow> cpu" where
  "mov_gs base sel s = s\<lparr>seg_gs := sel, msr := (msr s)(MSR_GSBASE := base sel)\<rparr>"

text \<open>The versions of the kernel, with the states in between: behind each instruction.\<close>

definition load_fs_states :: "(u16 \<Rightarrow> u64) \<Rightarrow> u16 \<Rightarrow> cpu \<Rightarrow> cpu list" where
  "load_fs_states base sel s = (let v = rdmsr MSR_FSBASE s; s1 = mov_fs base sel s; s2 = wrmsr MSR_FSBASE v s1 in [s, s1, s2])"

definition load_fs :: "(u16 \<Rightarrow> u64) \<Rightarrow> u16 \<Rightarrow> cpu \<Rightarrow> cpu" where
  "load_fs base sel s = last (load_fs_states base sel s)"

definition load_gs_states :: "(u16 \<Rightarrow> u64) \<Rightarrow> u16 \<Rightarrow> cpu \<Rightarrow> cpu list" where
  "load_gs_states base sel s =
     (let rf = read_rflags s; s1 = disable_intr s; v = rdmsr MSR_GSBASE s1; s2 = mov_gs base sel s1;
        s3 = wrmsr MSR_GSBASE v s2; s4 = write_rflags rf s3 in [s, s1, s1, s2, s3, s4])"

definition load_gs :: "(u16 \<Rightarrow> u64) \<Rightarrow> u16 \<Rightarrow> cpu \<Rightarrow> cpu" where
  "load_gs base sel s = last (load_gs_states base sel s)"

text \<open>The versions for user code do not keep the base.\<close>

definition load_fs_user :: "(u16 \<Rightarrow> u64) \<Rightarrow> u16 \<Rightarrow> cpu \<Rightarrow> cpu" where "load_fs_user base sel s = mov_fs base sel s"
definition load_gs_user :: "(u16 \<Rightarrow> u64) \<Rightarrow> u16 \<Rightarrow> cpu \<Rightarrow> cpu" where "load_gs_user base sel s = mov_gs base sel s"

definition lidt :: "ptr \<Rightarrow> cpu \<Rightarrow> cpu" where "lidt addr s = s\<lparr>idtr := addr\<rparr>"
definition lldt :: "u16 \<Rightarrow> cpu \<Rightarrow> cpu" where "lldt sel s = s\<lparr>ldtr := sel\<rparr>"
definition ltr :: "u16 \<Rightarrow> cpu \<Rightarrow> cpu" where "ltr sel s = s\<lparr>tr := sel\<rparr>"

definition rdr0 :: "cpu \<Rightarrow> u64" where "rdr0 s = dr s 0"
definition load_dr0 :: "u64 \<Rightarrow> cpu \<Rightarrow> cpu" where "load_dr0 v s = s\<lparr>dr := (dr s)(0 := v)\<rparr>"
definition rdr1 :: "cpu \<Rightarrow> u64" where "rdr1 s = dr s 1"
definition load_dr1 :: "u64 \<Rightarrow> cpu \<Rightarrow> cpu" where "load_dr1 v s = s\<lparr>dr := (dr s)(1 := v)\<rparr>"
definition rdr2 :: "cpu \<Rightarrow> u64" where "rdr2 s = dr s 2"
definition load_dr2 :: "u64 \<Rightarrow> cpu \<Rightarrow> cpu" where "load_dr2 v s = s\<lparr>dr := (dr s)(2 := v)\<rparr>"
definition rdr3 :: "cpu \<Rightarrow> u64" where "rdr3 s = dr s 3"
definition load_dr3 :: "u64 \<Rightarrow> cpu \<Rightarrow> cpu" where "load_dr3 v s = s\<lparr>dr := (dr s)(3 := v)\<rparr>"
definition rdr6 :: "cpu \<Rightarrow> u64" where "rdr6 s = dr s 6"
definition load_dr6 :: "u64 \<Rightarrow> cpu \<Rightarrow> cpu" where "load_dr6 v s = s\<lparr>dr := (dr s)(6 := v)\<rparr>"
definition rdr7 :: "cpu \<Rightarrow> u64" where "rdr7 s = dr s 7"
definition load_dr7 :: "u64 \<Rightarrow> cpu \<Rightarrow> cpu" where "load_dr7 v s = s\<lparr>dr := (dr s)(7 := v)\<rparr>"

text \<open>The registers 4 and 5 are other names of 6 and 7; with the debugging extensions on (bit 3 of \<open>cr4\<close>) they
  fault.\<close>

definition rdr4 :: "cpu \<Rightarrow> u64 option" where "rdr4 s = (if bit (cr4 s) 3 then None else Some (dr s 6))"
definition load_dr4 :: "u64 \<Rightarrow> cpu \<Rightarrow> cpu option" where
  "load_dr4 v s = (if bit (cr4 s) 3 then None else Some (s\<lparr>dr := (dr s)(6 := v)\<rparr>))"
definition rdr5 :: "cpu \<Rightarrow> u64 option" where "rdr5 s = (if bit (cr4 s) 3 then None else Some (dr s 7))"
definition load_dr5 :: "u64 \<Rightarrow> cpu \<Rightarrow> cpu option" where
  "load_dr5 v s = (if bit (cr4 s) 3 then None else Some (s\<lparr>dr := (dr s)(7 := v)\<rparr>))"

section \<open>Ports\<close>

text \<open>A device answers reads and takes writes, of a number of bytes at a port.\<close>

record 'd device =
  port_in :: "u32 \<Rightarrow> nat \<Rightarrow> 'd \<Rightarrow> u8 list \<times> 'd"
  port_out :: "u32 \<Rightarrow> u8 list \<Rightarrow> 'd \<Rightarrow> 'd"

definition inb :: "'d device \<Rightarrow> u32 \<Rightarrow> 'd \<Rightarrow> u8 \<times> 'd" where
  "inb D port d = apfst word_of_bytes (port_in D (take_bit 16 port) 1 d)"
definition inw :: "'d device \<Rightarrow> u32 \<Rightarrow> 'd \<Rightarrow> u16 \<times> 'd" where
  "inw D port d = apfst word_of_bytes (port_in D (take_bit 16 port) 2 d)"
definition inl :: "'d device \<Rightarrow> u32 \<Rightarrow> 'd \<Rightarrow> u32 \<times> 'd" where
  "inl D port d = apfst word_of_bytes (port_in D (take_bit 16 port) 4 d)"
definition outb :: "'d device \<Rightarrow> u32 \<Rightarrow> u8 \<Rightarrow> 'd \<Rightarrow> 'd" where
  "outb D port data d = port_out D (take_bit 16 port) [data] d"
definition outw :: "'d device \<Rightarrow> u32 \<Rightarrow> u16 \<Rightarrow> 'd \<Rightarrow> 'd" where
  "outw D port data d = port_out D (take_bit 16 port) (bytes_of_word 2 data) d"
definition outl :: "'d device \<Rightarrow> u32 \<Rightarrow> u32 \<Rightarrow> 'd \<Rightarrow> 'd" where
  "outl D port data d = port_out D (take_bit 16 port) (bytes_of_word 4 data) d"

text \<open>The repeated forms, with the direction flag clear: \<open>count\<close> units of \<open>size\<close> bytes.\<close>

fun rep_ins :: "'d device \<Rightarrow> nat \<Rightarrow> u32 \<Rightarrow> ptr \<Rightarrow> nat \<Rightarrow> memory \<times> 'd \<Rightarrow> (memory \<times> 'd) option" where
  "rep_ins D sz port addr 0 s = Some s"
| "rep_ins D sz port addr (Suc n) (m, d) = (case port_in D (take_bit 16 port) sz d of (bs, d) \<Rightarrow> do {
     m \<leftarrow> store_bytes m addr bs;
     rep_ins D sz port (addr + of_nat sz) n (m, d) })"

fun rep_outs :: "'d device \<Rightarrow> nat \<Rightarrow> u32 \<Rightarrow> ptr \<Rightarrow> nat \<Rightarrow> memory \<times> 'd \<Rightarrow> (memory \<times> 'd) option" where
  "rep_outs D sz port addr 0 s = Some s"
| "rep_outs D sz port addr (Suc n) (m, d) = do {
     bs \<leftarrow> load_bytes m addr sz;
     rep_outs D sz port (addr + of_nat sz) n (m, port_out D (take_bit 16 port) bs d) }"

definition insb :: "'d device \<Rightarrow> u32 \<Rightarrow> ptr \<Rightarrow> u64 \<Rightarrow> memory \<times> 'd \<Rightarrow> (memory \<times> 'd) option" where
  "insb D port addr count = rep_ins D 1 port addr (unat count)"
definition insw :: "'d device \<Rightarrow> u32 \<Rightarrow> ptr \<Rightarrow> u64 \<Rightarrow> memory \<times> 'd \<Rightarrow> (memory \<times> 'd) option" where
  "insw D port addr count = rep_ins D 2 port addr (unat count)"
definition insl :: "'d device \<Rightarrow> u32 \<Rightarrow> ptr \<Rightarrow> u64 \<Rightarrow> memory \<times> 'd \<Rightarrow> (memory \<times> 'd) option" where
  "insl D port addr count = rep_ins D 4 port addr (unat count)"
definition outsb :: "'d device \<Rightarrow> u32 \<Rightarrow> ptr \<Rightarrow> u64 \<Rightarrow> memory \<times> 'd \<Rightarrow> (memory \<times> 'd) option" where
  "outsb D port addr count = rep_outs D 1 port addr (unat count)"
definition outsw :: "'d device \<Rightarrow> u32 \<Rightarrow> ptr \<Rightarrow> u64 \<Rightarrow> memory \<times> 'd \<Rightarrow> (memory \<times> 'd) option" where
  "outsw D port addr count = rep_outs D 2 port addr (unat count)"
definition outsl :: "'d device \<Rightarrow> u32 \<Rightarrow> ptr \<Rightarrow> u64 \<Rightarrow> memory \<times> 'd \<Rightarrow> (memory \<times> 'd) option" where
  "outsl D port addr count = rep_outs D 4 port addr (unat count)"

section \<open>Searching for bits\<close>

lemma find_upt: "List.find P [0..<n] = Some k \<longleftrightarrow> k < n \<and> P k \<and> (\<forall>i<k. \<not> P i)"
  by (auto simp: find_Some_iff)

lemma find_rev_upt: "List.find P (rev [0..<n]) = Some k \<longleftrightarrow> k < n \<and> P k \<and> (\<forall>i<n. k < i \<longrightarrow> \<not> P i)"
proof (induction n)
  case (Suc n)
  then show ?case by (auto simp: less_Suc_eq)
qed simp

lemma nonzero_bit: "(w :: 'a::len word) \<noteq> 0 \<Longrightarrow> \<exists>n<LENGTH('a). bit w n"
  by (metis bit_imp_le_length bit_word_eqI bit_0_eq bot_apply bot_bool_def)

lemma bsf_spec:
  assumes "(w :: 'a::len word) \<noteq> 0"
  obtains n where "bsf w = Some n" and "n < LENGTH('a)" and "bit w n" and "\<forall>k<n. \<not> bit w k"
proof -
  from nonzero_bit [OF assms] obtain k where "k < LENGTH('a)" "bit w k" by blast
  then have "List.find (bit w) [0..<LENGTH('a)] \<noteq> None" by (auto simp: find_None_iff)
  then obtain n where "bsf w = Some n" by (auto simp: bsf_def)
  with that show ?thesis by (auto simp: bsf_def find_upt)
qed

lemma bsr_spec:
  assumes "(w :: 'a::len word) \<noteq> 0"
  obtains n where "bsr w = Some n" and "n < LENGTH('a)" and "bit w n" and "\<forall>k>n. \<not> bit w k"
proof -
  from nonzero_bit [OF assms] obtain k where "k < LENGTH('a)" "bit w k" by blast
  then have "List.find (bit w) (rev [0..<LENGTH('a)]) \<noteq> None" by (auto simp: find_None_iff)
  then obtain n where "bsr w = Some n" by (auto simp: bsr_def)
  with that show ?thesis by (auto simp: bsr_def find_rev_upt dest: bit_imp_le_length)
qed

text \<open>The results of the searches, with zero for no bit.\<close>

definition first_bit :: "(nat \<Rightarrow> bool) \<Rightarrow> nat \<Rightarrow> bool" where
  "first_bit P r \<longleftrightarrow> (if r = 0 then \<forall>n. \<not> P n else P (r - 1) \<and> (\<forall>k<r - 1. \<not> P k))"

definition last_bit :: "(nat \<Rightarrow> bool) \<Rightarrow> nat \<Rightarrow> bool" where
  "last_bit P r \<longleftrightarrow> (if r = 0 then \<forall>n. \<not> P n else P (r - 1) \<and> (\<forall>k>r - 1. \<not> P k))"

lemma unat_position: "n < 64 \<Longrightarrow> unat (ucast (of_nat n :: u64) + 1 :: u32) = Suc n" "n < 32 \<Longrightarrow> unat (of_nat n + 1 :: u32) = Suc n"
  by (simp_all add: unat_word_ariths unat_of_nat unsigned_ucast_eq take_bit_nat_eq_self unsigned_of_nat)

lemma find_set_bits:
  "\<exists>r. ffsl x = Some r \<and> first_bit (bit x) (unat r)"
  "\<exists>r. flsl x = Some r \<and> last_bit (bit x) (unat r)"
  "\<exists>r. fls y = Some r \<and> last_bit (bit y) (unat r)"
proof -
  show "\<exists>r. ffsl x = Some r \<and> first_bit (bit x) (unat r)"
  proof (cases "x = 0")
    case False
    then obtain n where "bsf x = Some n" "n < 64" "bit x n" "\<forall>k<n. \<not> bit x k" by (rule bsf_spec) simp
    with False show ?thesis by (simp add: ffsl_def bsfq_def first_bit_def unat_position)
  qed (simp add: ffsl_def first_bit_def)
  show "\<exists>r. flsl x = Some r \<and> last_bit (bit x) (unat r)"
  proof (cases "x = 0")
    case False
    then obtain n where "bsr x = Some n" "n < 64" "bit x n" "\<forall>k>n. \<not> bit x k" by (rule bsr_spec) simp
    with False show ?thesis by (simp add: flsl_def bsrq_def last_bit_def unat_position)
  qed (simp add: flsl_def last_bit_def)
  show "\<exists>r. fls y = Some r \<and> last_bit (bit y) (unat r)"
  proof (cases "y = 0")
    case False
    then obtain n where "bsr y = Some n" "n < 32" "bit y n" "\<forall>k>n. \<not> bit y k" by (rule bsr_spec) simp
    with False show ?thesis by (simp add: fls_def bsrl_def last_bit_def unat_position)
  qed (simp add: fls_def last_bit_def)
qed

section \<open>Registers\<close>

lemma join_split [simp]: "join32 (split32 v) = v"
  by (rule bit_eqI)
    (auto simp: join32_def split32_def bit_or_iff bit_push_bit_iff bit_ucast_iff bit_drop_bit_eq)

lemma rdmsr_wrmsr: "rdmsr r (wrmsr r' v s) = (if r = r' then v else rdmsr r s)"
  by (simp add: rdmsr_def wrmsr_def)

lemma invltlb_flushes: "tlb (invltlb s) p = (if \<exists>f. tlb s p = Some (f, True) then tlb s p else None)" "cr3 (invltlb s) = cr3 s"
  by (auto simp: invltlb_def load_cr3_def rcr3_def split: option.splits bool.splits)

lemma intr_flags [simp]: "\<not> intr_enabled (disable_intr s)" "intr_enabled (enable_intr s)"
  by (simp_all add: intr_enabled_def disable_intr_def enable_intr_def bit_unset_bit_iff bit_set_bit_iff)

text \<open>Loading a selector in the kernel: the selector is loaded and nothing else changes at the end, the base
  of the segment included; for \<open>gs\<close>, interrupts are off in every state in between in which the base
  is not the one before.\<close>

lemma load_fs_keeps: "load_fs base sel s = s\<lparr>seg_fs := sel\<rparr>"
  by (simp add: load_fs_def load_fs_states_def mov_fs_def rdmsr_def wrmsr_def Let_def)

lemma load_gs_keeps: "load_gs base sel s = s\<lparr>seg_gs := sel\<rparr>"
  by (simp add: load_gs_def load_gs_states_def mov_gs_def rdmsr_def wrmsr_def read_rflags_def write_rflags_def disable_intr_def Let_def)

lemma load_gs_shielded:
  "t \<in> set (load_gs_states base sel s) \<Longrightarrow> msr t MSR_GSBASE \<noteq> msr s MSR_GSBASE \<Longrightarrow> \<not> intr_enabled t"
  by (auto simp: load_gs_states_def mov_gs_def rdmsr_def wrmsr_def read_rflags_def write_rflags_def intr_enabled_def
      disable_intr_def bit_unset_bit_iff Let_def)

section \<open>Sections without interrupts\<close>

text \<open>Code of the kernel: work, and sections between \<open>intr_disable\<close> and \<open>intr_restore\<close>, nested to any depth.  A run
  notes for every piece of work whether interrupts were enabled when it began.\<close>

datatype code = Work "cpu \<Rightarrow> cpu" | Critical "code list"

fun run_codes :: "code list \<Rightarrow> cpu \<Rightarrow> bool list \<times> cpu" where
  "run_codes [] s = ([], s)"
| "run_codes (Work f # cs) s = (let (bs, s') = run_codes cs (f s) in (intr_enabled s # bs, s'))"
| "run_codes (Critical xs # cs) s =
     (let (rf, s1) = intr_disable s; (bs, s2) = run_codes xs s1; (bs', s3) = run_codes cs (intr_restore rf s2) in (bs @ bs', s3))"

fun depths :: "nat \<Rightarrow> code list \<Rightarrow> nat list" where
  "depths k [] = []"
| "depths k (Work f # cs) = k # depths k cs"
| "depths k (Critical xs # cs) = depths (k + 1) xs @ depths k cs"

fun keeps_intr :: "code list \<Rightarrow> bool" where
  "keeps_intr [] \<longleftrightarrow> True"
| "keeps_intr (Work f # cs) \<longleftrightarrow> (\<forall>s. intr_enabled (f s) = intr_enabled s) \<and> keeps_intr cs"
| "keeps_intr (Critical xs # cs) \<longleftrightarrow> keeps_intr xs \<and> keeps_intr cs"

lemma depths_positive: "0 < k \<Longrightarrow> d \<in> set (depths k cs) \<Longrightarrow> 0 < d"
  by (induction k cs arbitrary: d rule: depths.induct) auto

lemma depths_map: "0 < k \<Longrightarrow> map (\<lambda>d. b \<and> d = 0) (depths k cs) = map (\<lambda>_. False) (depths k cs)"
  by (rule map_cong [OF refl]) (auto dest: depths_positive)

lemma run_codes_intr:
  "keeps_intr cs \<Longrightarrow> (0 < k \<longrightarrow> \<not> intr_enabled s) \<Longrightarrow> run_codes cs s = (bs, s') \<Longrightarrow>
   intr_enabled s' = intr_enabled s \<and> bs = map (\<lambda>d. intr_enabled s \<and> d = 0) (depths k cs)"
proof (induction cs s arbitrary: k bs s' rule: run_codes.induct)
  case (2 f cs s)
  obtain bs1 s1 where 1: "run_codes cs (f s) = (bs1, s1)" by (cases "run_codes cs (f s)")
  with "2.IH" [of k bs1 s1] "2.prems" show ?case by auto
next
  case (3 xs cs s)
  obtain rf s1 where 1: "intr_disable s = (rf, s1)" by (cases "intr_disable s")
  obtain bs1 s2 where 2: "run_codes xs s1 = (bs1, s2)" by (cases "run_codes xs s1")
  obtain bs2 s3 where 3: "run_codes cs (intr_restore rf s2) = (bs2, s3)" by (cases "run_codes cs (intr_restore rf s2)")
  have s1: "rf = rflags s" "\<not> intr_enabled s1" using 1 by (auto simp: intr_disable_def read_rflags_def Let_def)
  have restored: "intr_enabled (intr_restore rf s2) = intr_enabled s"
    using s1(1) by (simp add: intr_restore_def write_rflags_def intr_enabled_def)
  have "bs1 = map (\<lambda>d. intr_enabled s1 \<and> d = 0) (depths (k + 1) xs)"
    using "3.IH"(1) [OF 1 [symmetric] refl _ _ 2, of "k + 1"] "3.prems"(1) s1(2) by simp
  then have "bs1 = map (\<lambda>d. intr_enabled s \<and> d = 0) (depths (k + 1) xs)" by (simp only: depths_map zero_less_Suc Suc_eq_plus1 [symmetric])
  moreover have "intr_enabled s3 = intr_enabled s \<and> bs2 = map (\<lambda>d. intr_enabled s \<and> d = 0) (depths k cs)"
    using "3.IH"(2) [OF 1 [symmetric] refl 2 [symmetric] refl _ _ 3, of k] "3.prems"(1,2) restored by simp
  ultimately show ?case using "3.prems"(3) 1 2 3 by simp
qed simp_all

text \<open>Sections without interrupts nest: for code of any nesting depth whose pieces of work leave the interrupt
  flag alone, a piece of work finds interrupts enabled exactly when it is outside of all sections and
  they were enabled at the beginning, and at the end they are as at the beginning.\<close>

lemma intr_sections_nest:
  assumes "keeps_intr cs" and "run_codes cs s = (bs, s')"
  shows "intr_enabled s' = intr_enabled s \<and> bs = map (\<lambda>d. intr_enabled s \<and> d = 0) (depths 0 cs)"
  using run_codes_intr [OF assms(1) _ assms(2), of 0] by simp

section \<open>Transfers\<close>

fun port_reads :: "'d device \<Rightarrow> nat \<Rightarrow> u32 \<Rightarrow> nat \<Rightarrow> 'd \<Rightarrow> u8 list \<times> 'd" where
  "port_reads D sz port 0 d = ([], d)"
| "port_reads D sz port (Suc n) d =
     (let (bs, d) = port_in D (take_bit 16 port) sz d; (cs, d) = port_reads D sz port n d in (bs @ cs, d))"

lemma store_bytes_append:
  "store_bytes m a (xs @ ys) = do { m \<leftarrow> store_bytes m a xs; store_bytes m (a + of_nat (length xs)) ys }"
proof (induction xs arbitrary: m a)
  case (Cons x xs)
  then show ?case by (cases "store8 m a x") (simp_all add: add.assoc)
qed simp

text \<open>The repeated input stores what the device delivers, in order.\<close>

lemma rep_ins_stores:
  assumes "\<And>d. length (fst (port_in D (take_bit 16 port) sz d)) = sz"
  shows "rep_ins D sz port addr n (m, d) =
    (case port_reads D sz port n d of (bs, d') \<Rightarrow> map_option (\<lambda>m. (m, d')) (store_bytes m addr bs))"
proof (induction n arbitrary: addr m d)
  case (Suc n)
  obtain bs d1 where 1: "port_in D (take_bit 16 port) sz d = (bs, d1)" by (cases "port_in D (take_bit 16 port) sz d")
  have "length bs = sz" using assms [of d] 1 by simp
  with 1 Suc show ?case
    by (cases "port_reads D sz port n d1"; cases "store_bytes m addr bs") (simp_all add: store_bytes_append)
qed simp

section \<open>Witnesses\<close>

definition sample_cpu :: cpu where
  "sample_cpu = \<lparr>rflags = 0x202, cr0 = 0x80000001, cr2 = 0, cr3 = 0, cr4 = 0, dr = (\<lambda>_. 0), msr = (\<lambda>_. 0), pmc = (\<lambda>_. 0),
     tsc = 0, seg_fs = 0, seg_gs = 0, seg_ss = 0, seg_ds = 0, seg_es = 0, idtr = 0, ldtr = 0, tr = 0, tlb = (\<lambda>_. None)\<rparr>"

lemma intr_sections_nest_witness:
  "fst (run_codes [Critical [Work (load_cr0 1), Critical [Work invltlb], Work (load_cr4 2)], Work (load_ds 8)] sample_cpu) =
     [False, False, False, True]"
proof -
  let ?cs = "[Critical [Work (load_cr0 1), Critical [Work invltlb], Work (load_cr4 2)], Work (load_ds 8)]"
  have "keeps_intr ?cs"
    by (simp add: intr_enabled_def load_cr0_def invltlb_def load_cr3_def load_cr4_def load_ds_def)
  moreover obtain bs s' where run: "run_codes ?cs sample_cpu = (bs, s')" by (cases "run_codes ?cs sample_cpu")
  ultimately have "bs = map (\<lambda>d. intr_enabled sample_cpu \<and> d = 0) (depths 0 ?cs)" using intr_sections_nest by blast
  moreover have "intr_enabled sample_cpu" by code_simp
  ultimately show ?thesis using run by simp
qed

end
