(* ===== verification/Net_Addresses.thy ===== *)
theory Net_Addresses
  imports Kern_Lib
begin

unbundle bit_operations_syntax

text \<open>
  Internet addresses: the macros of \<open>include/netinet/in.h\<close> that classify an IPv4 address in host order and
  convert the header fields of a packet, and those of \<open>include/netinet6/in6.h\<close> that classify an IPv6 address,
  sixteen bytes in network order, which they read as bytes and as words of the processor.

  Shown: an IPv4 address has exactly one class, and the classes are ranges; the tests on words say
  the intended thing about the bytes of an address, although the processor reads them in the
  other order; the kinds of IPv6 address exclude each other; the conversions of a header undo each other.
\<close>

section \<open>IPv4\<close>

definition IN_CLASSA :: "u32 \<Rightarrow> bool" where "IN_CLASSA i \<longleftrightarrow> i AND 0x80000000 = 0"
definition IN_CLASSB :: "u32 \<Rightarrow> bool" where "IN_CLASSB i \<longleftrightarrow> i AND 0xc0000000 = 0x80000000"
definition IN_CLASSC :: "u32 \<Rightarrow> bool" where "IN_CLASSC i \<longleftrightarrow> i AND 0xe0000000 = 0xc0000000"
definition IN_CLASSD :: "u32 \<Rightarrow> bool" where "IN_CLASSD i \<longleftrightarrow> i AND 0xf0000000 = 0xe0000000"
definition IN_MULTICAST :: "u32 \<Rightarrow> bool" where "IN_MULTICAST i = IN_CLASSD i"
definition IN_EXPERIMENTAL :: "u32 \<Rightarrow> bool" where "IN_EXPERIMENTAL i \<longleftrightarrow> i AND 0xf0000000 = 0xf0000000"
definition IN_BADCLASS :: "u32 \<Rightarrow> bool" where "IN_BADCLASS i \<longleftrightarrow> i AND 0xf0000000 = 0xf0000000"
definition IN_LINKLOCAL :: "u32 \<Rightarrow> bool" where "IN_LINKLOCAL i \<longleftrightarrow> i AND 0xffff0000 = 0xa9fe0000"
definition IN_LOOPBACK :: "u32 \<Rightarrow> bool" where "IN_LOOPBACK i \<longleftrightarrow> i AND 0xff000000 = 0x7f000000"
definition IN_ZERONET :: "u32 \<Rightarrow> bool" where "IN_ZERONET i \<longleftrightarrow> i AND 0xff000000 = 0"
definition IN_PRIVATE :: "u32 \<Rightarrow> bool" where
  "IN_PRIVATE i \<longleftrightarrow> i AND 0xff000000 = 0x0a000000 \<or> i AND 0xfff00000 = 0xac100000 \<or> i AND 0xffff0000 = 0xc0a80000"
definition IN_LOCAL_GROUP :: "u32 \<Rightarrow> bool" where "IN_LOCAL_GROUP i \<longleftrightarrow> i AND 0xffffff00 = 0xe0000000"
definition IN_ANY_LOCAL :: "u32 \<Rightarrow> bool" where "IN_ANY_LOCAL i \<longleftrightarrow> IN_LINKLOCAL i \<or> IN_LOCAL_GROUP i"

definition in_hosteq :: "u32 \<Rightarrow> u32 \<Rightarrow> bool" where "in_hosteq s t \<longleftrightarrow> s = t"
definition in_nullhost :: "u32 \<Rightarrow> bool" where "in_nullhost x \<longleftrightarrow> x = 0"
definition in_allhosts :: "u32 \<Rightarrow> bool" where "in_allhosts x \<longleftrightarrow> x = bswap32 True 0xe0000001"

text \<open>The two fields of a packet header that are kept in host order inside the kernel.\<close>

record ip_fields =
  ip_len :: u16
  ip_off :: u16

definition SET_NET_IPLEN :: "ip_fields \<Rightarrow> ip_fields" where
  "SET_NET_IPLEN p = p\<lparr>ip_len := bswap16 False (ip_len p), ip_off := bswap16 False (ip_off p)\<rparr>"

definition SET_HOST_IPLEN :: "ip_fields \<Rightarrow> ip_fields" where
  "SET_HOST_IPLEN p = p\<lparr>ip_len := bswap16 False (ip_len p), ip_off := bswap16 False (ip_off p)\<rparr>"

section \<open>IPv6\<close>

type_synonym in6_addr = "u8 list"

text \<open>The word at a byte offset, as the processor reads it.\<close>

definition s6_word :: "in6_addr \<Rightarrow> nat \<Rightarrow> u32" where
  "s6_word a k = word_of_bytes (take 4 (drop k a))"

definition IN6_ARE_ADDR_EQUAL :: "in6_addr \<Rightarrow> in6_addr \<Rightarrow> bool" where
  "IN6_ARE_ADDR_EQUAL a b \<longleftrightarrow> take 16 a = take 16 b"

definition IN6_IS_ADDR_UNSPECIFIED :: "in6_addr \<Rightarrow> bool" where
  "IN6_IS_ADDR_UNSPECIFIED a \<longleftrightarrow> s6_word a 0 = 0 \<and> s6_word a 4 = 0 \<and> s6_word a 8 = 0 \<and> s6_word a 12 = 0"

definition IN6_IS_ADDR_LOOPBACK :: "in6_addr \<Rightarrow> bool" where
  "IN6_IS_ADDR_LOOPBACK a \<longleftrightarrow> s6_word a 0 = 0 \<and> s6_word a 4 = 0 \<and> s6_word a 8 = 0 \<and> s6_word a 12 = bswap32 True 1"

definition IN6_IS_ADDR_V4COMPAT :: "in6_addr \<Rightarrow> bool" where
  "IN6_IS_ADDR_V4COMPAT a \<longleftrightarrow> s6_word a 0 = 0 \<and> s6_word a 4 = 0 \<and> s6_word a 8 = 0 \<and> s6_word a 12 \<noteq> 0 \<and>
     s6_word a 12 \<noteq> bswap32 True 1"

definition IN6_IS_ADDR_V4MAPPED :: "in6_addr \<Rightarrow> bool" where
  "IN6_IS_ADDR_V4MAPPED a \<longleftrightarrow> s6_word a 0 = 0 \<and> s6_word a 4 = 0 \<and> s6_word a 8 = bswap32 True 0x0000ffff"

definition IN6_IS_ADDR_LINKLOCAL :: "in6_addr \<Rightarrow> bool" where
  "IN6_IS_ADDR_LINKLOCAL a \<longleftrightarrow> a ! 0 = 0xfe \<and> a ! 1 AND 0xc0 = 0x80"

definition IN6_IS_ADDR_SITELOCAL :: "in6_addr \<Rightarrow> bool" where
  "IN6_IS_ADDR_SITELOCAL a \<longleftrightarrow> a ! 0 = 0xfe \<and> a ! 1 AND 0xc0 = 0xc0"

definition IN6_IS_ADDR_MULTICAST :: "in6_addr \<Rightarrow> bool" where
  "IN6_IS_ADDR_MULTICAST a \<longleftrightarrow> a ! 0 = 0xff"

definition IPV6_ADDR_MC_SCOPE :: "in6_addr \<Rightarrow> u8" where
  "IPV6_ADDR_MC_SCOPE a = a ! 1 AND 0x0f"

definition IN6_IS_ADDR_MC_NODELOCAL :: "in6_addr \<Rightarrow> bool" where
  "IN6_IS_ADDR_MC_NODELOCAL a \<longleftrightarrow> IN6_IS_ADDR_MULTICAST a \<and> IPV6_ADDR_MC_SCOPE a = 0x01"

definition IN6_IS_ADDR_MC_INTFACELOCAL :: "in6_addr \<Rightarrow> bool" where
  "IN6_IS_ADDR_MC_INTFACELOCAL a \<longleftrightarrow> IN6_IS_ADDR_MULTICAST a \<and> IPV6_ADDR_MC_SCOPE a = 0x01"

definition IN6_IS_ADDR_MC_LINKLOCAL :: "in6_addr \<Rightarrow> bool" where
  "IN6_IS_ADDR_MC_LINKLOCAL a \<longleftrightarrow> IN6_IS_ADDR_MULTICAST a \<and> IPV6_ADDR_MC_SCOPE a = 0x02"

definition IN6_IS_ADDR_MC_SITELOCAL :: "in6_addr \<Rightarrow> bool" where
  "IN6_IS_ADDR_MC_SITELOCAL a \<longleftrightarrow> IN6_IS_ADDR_MULTICAST a \<and> IPV6_ADDR_MC_SCOPE a = 0x05"

definition IN6_IS_ADDR_MC_ORGLOCAL :: "in6_addr \<Rightarrow> bool" where
  "IN6_IS_ADDR_MC_ORGLOCAL a \<longleftrightarrow> IN6_IS_ADDR_MULTICAST a \<and> IPV6_ADDR_MC_SCOPE a = 0x08"

definition IN6_IS_ADDR_MC_GLOBAL :: "in6_addr \<Rightarrow> bool" where
  "IN6_IS_ADDR_MC_GLOBAL a \<longleftrightarrow> IN6_IS_ADDR_MULTICAST a \<and> IPV6_ADDR_MC_SCOPE a = 0x0e"

definition IN6_IS_SCOPE_LINKLOCAL :: "in6_addr \<Rightarrow> bool" where
  "IN6_IS_SCOPE_LINKLOCAL a \<longleftrightarrow> IN6_IS_ADDR_LINKLOCAL a \<or> IN6_IS_ADDR_MC_LINKLOCAL a"

definition IN6_IS_SCOPE_EMBED :: "in6_addr \<Rightarrow> bool" where
  "IN6_IS_SCOPE_EMBED a \<longleftrightarrow> IN6_IS_ADDR_LINKLOCAL a \<or> IN6_IS_ADDR_MC_LINKLOCAL a \<or> IN6_IS_ADDR_MC_INTFACELOCAL a"

text \<open>The lifetime of an address: preferred and valid, in seconds since its update; all ones is for ever.\<close>

record ia6_lifetime =
  ia6t_vltime :: u32
  ia6t_pltime :: u32

definition IFA6_IS_DEPRECATED :: "u64 \<Rightarrow> u64 \<Rightarrow> ia6_lifetime \<Rightarrow> bool" where
  "IFA6_IS_DEPRECATED time_second updatetime l \<longleftrightarrow>
     ia6t_pltime l \<noteq> 0xffffffff \<and> ucast (time_second - updatetime) > ia6t_pltime l"

definition IFA6_IS_INVALID :: "u64 \<Rightarrow> u64 \<Rightarrow> ia6_lifetime \<Rightarrow> bool" where
  "IFA6_IS_INVALID time_second updatetime l \<longleftrightarrow>
     ia6t_vltime l \<noteq> 0xffffffff \<and> ucast (time_second - updatetime) > ia6t_vltime l"

section \<open>Classes of IPv4 addresses\<close>

text \<open>A test of the leading \<open>32 - k\<close> bits says which block of \<open>2 ^ k\<close> addresses an address is in.\<close>

lemma prefix_test: "(i :: u32) AND NOT (mask k) = v \<longleftrightarrow> unat i div 2 ^ k * 2 ^ k = unat v"
  by (simp add: word_unat_eq_iff unat_and_not_mask)

lemma class_masks:
  "(0x80000000 :: u32) = NOT (mask 31)" "(0xc0000000 :: u32) = NOT (mask 30)" "(0xe0000000 :: u32) = NOT (mask 29)"
  "(0xf0000000 :: u32) = NOT (mask 28)"
  by (simp_all add: mask_eq_exp_minus_1)

lemma class_ranges:
  "IN_CLASSA i \<longleftrightarrow> unat i < 0x80000000"
  "IN_CLASSB i \<longleftrightarrow> 0x80000000 \<le> unat i \<and> unat i < 0xc0000000"
  "IN_CLASSC i \<longleftrightarrow> 0xc0000000 \<le> unat i \<and> unat i < 0xe0000000"
  "IN_CLASSD i \<longleftrightarrow> 0xe0000000 \<le> unat i \<and> unat i < 0xf0000000"
  "IN_EXPERIMENTAL i \<longleftrightarrow> 0xf0000000 \<le> unat i"
proof -
  have b: "unat i < 4294967296" using unsigned_less [of i] by simp
  have "i AND 0x80000000 = 0 \<longleftrightarrow> unat i div 2 ^ 31 * 2 ^ 31 = 0"
    using prefix_test [of i 31 0] by (simp add: class_masks(1) [symmetric])
  then show "IN_CLASSA i \<longleftrightarrow> unat i < 0x80000000" unfolding IN_CLASSA_def by (simp, arith)
  have "i AND 0xc0000000 = 0x80000000 \<longleftrightarrow> unat i div 2 ^ 30 * 2 ^ 30 = 0x80000000"
    using prefix_test [of i 30 "0x80000000"] by (simp add: class_masks(2) [symmetric])
  then show "IN_CLASSB i \<longleftrightarrow> 0x80000000 \<le> unat i \<and> unat i < 0xc0000000" unfolding IN_CLASSB_def by (simp, arith)
  have "i AND 0xe0000000 = 0xc0000000 \<longleftrightarrow> unat i div 2 ^ 29 * 2 ^ 29 = 0xc0000000"
    using prefix_test [of i 29 "0xc0000000"] by (simp add: class_masks(3) [symmetric])
  then show "IN_CLASSC i \<longleftrightarrow> 0xc0000000 \<le> unat i \<and> unat i < 0xe0000000" unfolding IN_CLASSC_def by (simp, arith)
  have "i AND 0xf0000000 = 0xe0000000 \<longleftrightarrow> unat i div 2 ^ 28 * 2 ^ 28 = 0xe0000000"
    using prefix_test [of i 28 "0xe0000000"] by (simp add: class_masks(4) [symmetric])
  then show "IN_CLASSD i \<longleftrightarrow> 0xe0000000 \<le> unat i \<and> unat i < 0xf0000000" unfolding IN_CLASSD_def by (simp, arith)
  have "i AND 0xf0000000 = 0xf0000000 \<longleftrightarrow> unat i div 2 ^ 28 * 2 ^ 28 = 0xf0000000"
    using prefix_test [of i 28 "0xf0000000"] by (simp add: class_masks(4) [symmetric])
  then show "IN_EXPERIMENTAL i \<longleftrightarrow> 0xf0000000 \<le> unat i" unfolding IN_EXPERIMENTAL_def using b by (simp, arith)
qed

lemma one_class: "length (filter id [IN_CLASSA i, IN_CLASSB i, IN_CLASSC i, IN_CLASSD i, IN_EXPERIMENTAL i]) = 1"
proof -
  consider "unat i < 0x80000000" | "0x80000000 \<le> unat i" "unat i < 0xc0000000" | "0xc0000000 \<le> unat i" "unat i < 0xe0000000"
    | "0xe0000000 \<le> unat i" "unat i < 0xf0000000" | "0xf0000000 \<le> unat i" by fastforce
  then show ?thesis by cases (simp_all add: class_ranges)
qed

lemma IPLEN_roundtrip: "SET_HOST_IPLEN (SET_NET_IPLEN p) = p" "SET_NET_IPLEN (SET_HOST_IPLEN p) = p"
proof -
  have "bswap16 False (bswap16 False z) = z" for z using bswap_equivalence by blast
  then show "SET_HOST_IPLEN (SET_NET_IPLEN p) = p" "SET_NET_IPLEN (SET_HOST_IPLEN p) = p"
    by (simp_all add: SET_HOST_IPLEN_def SET_NET_IPLEN_def)
qed

section \<open>Kinds of IPv6 addresses\<close>

lemma word4_eq: "length bs = 4 \<Longrightarrow> length cs = 4 \<Longrightarrow> (word_of_bytes bs :: u32) = word_of_bytes cs \<longleftrightarrow> bs = cs"
proof
  assume len: "length bs = 4" "length cs = 4" and eq: "(word_of_bytes bs :: u32) = word_of_bytes cs"
  have "bytes_of_word 4 (word_of_bytes bs :: u32) = bs" "bytes_of_word 4 (word_of_bytes cs :: u32) = cs"
    using bytes_of_word_of_bytes [of bs, where 'a = 32] bytes_of_word_of_bytes [of cs, where 'a = 32] len by simp_all
  with eq show "bs = cs" by (metis (no_types))
qed simp

lemma word4_constants:
  "(0 :: u32) = word_of_bytes [0, 0, 0, 0]" "bswap32 True 1 = word_of_bytes [0, 0, 0, 1]"
  "bswap32 True 0x0000ffff = word_of_bytes [0, 0, 0xff, 0xff]"
  by (simp_all add: bswap32_def bswap32_const_def)

lemma s6_word_eq: "length a = 16 \<Longrightarrow> k \<le> 12 \<Longrightarrow> length bs = 4 \<Longrightarrow> s6_word a k = word_of_bytes bs \<longleftrightarrow> take 4 (drop k a) = bs"
  unfolding s6_word_def by (rule word4_eq) simp_all

text \<open>An address is its four words.\<close>

lemma four_words:
  assumes "length (a :: u8 list) = 16"
  shows "a = take 4 (drop 0 a) @ take 4 (drop 4 a) @ take 4 (drop 8 a) @ take 4 (drop 12 a)"
proof -
  have split: "drop k a = take 4 (drop k a) @ drop (k + 4) a" for k
    by (metis add.commute append_take_drop_id drop_drop)
  have "drop 16 a = []" using assms by simp
  with split [of 0] split [of 4] split [of 8] split [of 12] show ?thesis by simp
qed

lemma address_words:
  assumes "length a = 16" and "length b0 = 4" and "length b1 = 4" and "length b2 = 4" and "length b3 = 4"
  shows "s6_word a 0 = word_of_bytes b0 \<and> s6_word a 4 = word_of_bytes b1 \<and> s6_word a 8 = word_of_bytes b2 \<and>
      s6_word a 12 = word_of_bytes b3 \<longleftrightarrow> a = b0 @ b1 @ b2 @ b3"
proof -
  have "s6_word a 0 = word_of_bytes b0 \<and> s6_word a 4 = word_of_bytes b1 \<and> s6_word a 8 = word_of_bytes b2 \<and>
      s6_word a 12 = word_of_bytes b3 \<longleftrightarrow>
      take 4 (drop 0 a) = b0 \<and> take 4 (drop 4 a) = b1 \<and> take 4 (drop 8 a) = b2 \<and> take 4 (drop 12 a) = b3"
    using assms by (simp add: s6_word_eq)
  also have "\<dots> \<longleftrightarrow> a = b0 @ b1 @ b2 @ b3"
    using assms four_words [OF assms(1)] by (auto simp del: drop0)
  finally show ?thesis .
qed

lemma prefix_words:
  assumes "length a = 16" and "length b0 = 4" and "length b1 = 4" and "length b2 = 4"
  shows "s6_word a 0 = word_of_bytes b0 \<and> s6_word a 4 = word_of_bytes b1 \<and> s6_word a 8 = word_of_bytes b2 \<longleftrightarrow>
      take 12 a = b0 @ b1 @ b2"
proof -
  have "take 12 a = take 4 (drop 0 a) @ take 4 (drop 4 a) @ take 4 (drop 8 a)"
    using arg_cong [OF four_words [OF assms(1)], of "take 12"] assms(1) by simp
  then show ?thesis using assms by (simp add: s6_word_eq)
qed

text \<open>What the tests on words say of the bytes.\<close>

lemma in6_bytes:
  assumes "length a = 16"
  shows "IN6_IS_ADDR_UNSPECIFIED a \<longleftrightarrow> a = replicate 16 0"
    and "IN6_IS_ADDR_LOOPBACK a \<longleftrightarrow> a = replicate 15 0 @ [1]"
    and "IN6_IS_ADDR_V4MAPPED a \<longleftrightarrow> take 12 a = replicate 10 0 @ [0xff, 0xff]"
    and "IN6_IS_ADDR_V4COMPAT a \<longleftrightarrow> take 12 a = replicate 12 0 \<and> a \<noteq> replicate 16 0 \<and> a \<noteq> replicate 15 0 @ [1]"
proof -
  have len: "length [0, 0, 0, 0 :: u8] = 4" "length [0, 0, 0, 1 :: u8] = 4" "length [0, 0, 0xff, 0xff :: u8] = 4" by simp_all
  have r: "replicate 16 (0 :: u8) = [0, 0, 0, 0] @ [0, 0, 0, 0] @ [0, 0, 0, 0] @ [0, 0, 0, 0]"
    "replicate 15 (0 :: u8) @ [1] = [0, 0, 0, 0] @ [0, 0, 0, 0] @ [0, 0, 0, 0] @ [0, 0, 0, 1]"
    "replicate 12 (0 :: u8) = [0, 0, 0, 0] @ [0, 0, 0, 0] @ [0, 0, 0, 0]"
    "replicate 10 (0 :: u8) @ [0xff, 0xff] = [0, 0, 0, 0] @ [0, 0, 0, 0] @ [0, 0, 0xff, 0xff]"
    by (simp_all add: numeral_eq_Suc)
  show u: "IN6_IS_ADDR_UNSPECIFIED a \<longleftrightarrow> a = replicate 16 0"
    unfolding IN6_IS_ADDR_UNSPECIFIED_def r word4_constants(1) by (rule address_words [OF assms]) (rule len)+
  show l: "IN6_IS_ADDR_LOOPBACK a \<longleftrightarrow> a = replicate 15 0 @ [1]"
    unfolding IN6_IS_ADDR_LOOPBACK_def r word4_constants(1,2) by (rule address_words [OF assms]) (rule len)+
  show "IN6_IS_ADDR_V4MAPPED a \<longleftrightarrow> take 12 a = replicate 10 0 @ [0xff, 0xff]"
    unfolding IN6_IS_ADDR_V4MAPPED_def r word4_constants(1,3)
    by (rule prefix_words [OF assms]) (rule len)+
  have "IN6_IS_ADDR_V4COMPAT a \<longleftrightarrow> take 12 a = replicate 12 0 \<and> \<not> IN6_IS_ADDR_UNSPECIFIED a \<and> \<not> IN6_IS_ADDR_LOOPBACK a"
    using prefix_words [OF assms len(1,1,1)]
    unfolding IN6_IS_ADDR_V4COMPAT_def IN6_IS_ADDR_UNSPECIFIED_def IN6_IS_ADDR_LOOPBACK_def r word4_constants(1) by auto
  then show "IN6_IS_ADDR_V4COMPAT a \<longleftrightarrow> take 12 a = replicate 12 0 \<and> a \<noteq> replicate 16 0 \<and> a \<noteq> replicate 15 0 @ [1]"
    using u l by simp
qed

text \<open>The kinds of IPv6 address: the tests that read an address in words of the processor mean the intended
  prefixes of its sixteen bytes in network order, and no address is of two of the kinds unspecified,
  loopback, IPv4 compatible, IPv4 mapped, link local, site local and multicast.\<close>

lemma in6_address_kinds:
  assumes "length a = 16"
  shows "(IN6_IS_ADDR_LOOPBACK a \<longleftrightarrow> a = replicate 15 0 @ [1]) \<and>
    (IN6_IS_ADDR_V4MAPPED a \<longleftrightarrow> take 12 a = replicate 10 0 @ [0xff, 0xff]) \<and>
    (IN6_IS_ADDR_V4COMPAT a \<longleftrightarrow> take 12 a = replicate 12 0 \<and> a \<noteq> replicate 16 0 \<and> a \<noteq> replicate 15 0 @ [1]) \<and>
    length (filter id [IN6_IS_ADDR_UNSPECIFIED a, IN6_IS_ADDR_LOOPBACK a, IN6_IS_ADDR_V4COMPAT a, IN6_IS_ADDR_V4MAPPED a,
      IN6_IS_ADDR_LINKLOCAL a, IN6_IS_ADDR_SITELOCAL a, IN6_IS_ADDR_MULTICAST a]) \<le> 1"
proof -
  have zero: "a ! 0 = 0" if "take 12 a = 0 # b" for b
    using that assms nth_take [of 0 12 a] by (simp del: nth_take)
  have z1: "IN6_IS_ADDR_UNSPECIFIED a \<Longrightarrow> a ! 0 = 0" "IN6_IS_ADDR_LOOPBACK a \<Longrightarrow> a ! 0 = 0"
    using assms by (simp_all add: in6_bytes numeral_eq_Suc)
  have z2: "IN6_IS_ADDR_V4COMPAT a \<Longrightarrow> a ! 0 = 0" "IN6_IS_ADDR_V4MAPPED a \<Longrightarrow> a ! 0 = 0"
    using assms zero by (simp_all add: in6_bytes numeral_eq_Suc)
  have nz: "bswap32 True 1 \<noteq> 0" "bswap32 True 0x0000ffff \<noteq> 0" by (simp_all add: bswap32_def bswap32_const_def)
  have ex: "\<not> (IN6_IS_ADDR_V4COMPAT a \<and> IN6_IS_ADDR_V4MAPPED a)" "\<not> (IN6_IS_ADDR_UNSPECIFIED a \<and> IN6_IS_ADDR_V4MAPPED a)"
    "\<not> (IN6_IS_ADDR_LOOPBACK a \<and> IN6_IS_ADDR_V4MAPPED a)" "\<not> (IN6_IS_ADDR_UNSPECIFIED a \<and> IN6_IS_ADDR_LOOPBACK a)"
    "\<not> (IN6_IS_ADDR_UNSPECIFIED a \<and> IN6_IS_ADDR_V4COMPAT a)" "\<not> (IN6_IS_ADDR_LOOPBACK a \<and> IN6_IS_ADDR_V4COMPAT a)"
    using nz by (auto simp: IN6_IS_ADDR_UNSPECIFIED_def IN6_IS_ADDR_LOOPBACK_def IN6_IS_ADDR_V4COMPAT_def IN6_IS_ADDR_V4MAPPED_def)
  have hi: "\<not> (IN6_IS_ADDR_LINKLOCAL a \<and> IN6_IS_ADDR_SITELOCAL a)" "\<not> (IN6_IS_ADDR_LINKLOCAL a \<and> IN6_IS_ADDR_MULTICAST a)"
    "\<not> (IN6_IS_ADDR_SITELOCAL a \<and> IN6_IS_ADDR_MULTICAST a)"
    "IN6_IS_ADDR_LINKLOCAL a \<or> IN6_IS_ADDR_SITELOCAL a \<or> IN6_IS_ADDR_MULTICAST a \<Longrightarrow> a ! 0 \<noteq> 0"
    by (auto simp: IN6_IS_ADDR_LINKLOCAL_def IN6_IS_ADDR_SITELOCAL_def IN6_IS_ADDR_MULTICAST_def)
  have "length (filter id [IN6_IS_ADDR_UNSPECIFIED a, IN6_IS_ADDR_LOOPBACK a, IN6_IS_ADDR_V4COMPAT a, IN6_IS_ADDR_V4MAPPED a,
      IN6_IS_ADDR_LINKLOCAL a, IN6_IS_ADDR_SITELOCAL a, IN6_IS_ADDR_MULTICAST a]) \<le> 1"
    using z1 z2 ex hi by simp blast
  with in6_bytes [OF assms] show ?thesis by blast
qed

section \<open>Witnesses\<close>

text \<open>The address of the local host, mapped.\<close>

lemma in6_address_kinds_witness:
  "IN6_IS_ADDR_V4MAPPED (replicate 10 0 @ [0xff, 0xff, 127, 0, 0, 1]) \<and> \<not> IN6_IS_ADDR_LOOPBACK (replicate 10 0 @ [0xff, 0xff, 127, 0, 0, 1])"
proof -
  let ?a = "replicate 10 0 @ [0xff, 0xff, 127, 0, 0, 1] :: u8 list"
  have "length ?a = 16" by simp
  note kinds = in6_address_kinds [OF this]
  moreover have "take 12 ?a = replicate 10 0 @ [0xff, 0xff]" by code_simp
  moreover have "?a \<noteq> replicate 15 0 @ [1]" by code_simp
  ultimately show ?thesis by blast
qed

end
