(* ===== verification/Float_Env.thy ===== *)
theory Float_Env
  imports Ps4_Prelude
begin

text \<open>
  The floating point environment of \<open>include/fenv.h\<close>.  The processor has two floating point units with their
  own control and status bits: the x87 (\<open>fnstcw\<close>, \<open>fnstsw\<close>, \<open>fnstenv\<close>, \<open>fldenv\<close>, \<open>fldcw\<close>, \<open>fnclex\<close>) and the SSE unit
  (\<open>stmxcsr\<close>, \<open>ldmxcsr\<close>), whose rounding bits are shifted by three.  The functions present them as one.

  Shown: setting a rounding mode sets it in both units and changes nothing else, and a mode that is none is
  refused; clearing exceptions clears exactly those asked for in both units, on the fast and on the
  slow path; the assumption that \<open>fegetround\<close> makes, that the units agree, is an invariant of the functions.
\<close>

section \<open>The units\<close>

record fpu =
  x87_control :: u16
  x87_status :: u16
  x87_tag :: u16
  mxcsr :: u32

record fenv_x87 =
  env_control :: u32
  env_status :: u32
  env_tag :: u32

record fenv_t =
  env_x87 :: fenv_x87
  env_mxcsr :: u32

abbreviation (input) FE_ALL_EXCEPT :: u32 where "FE_ALL_EXCEPT \<equiv> 0x3f"
abbreviation (input) ROUND_MASK :: u32 where "ROUND_MASK \<equiv> 0x0c00"

text \<open>\<open>fnstenv\<close> masks the exceptions of the x87 after it stored the environment; \<open>fnclex\<close> clears the exception
  flags, the stack fault, the summary and the busy bit.\<close>

definition fldcw :: "u16 \<Rightarrow> fpu \<Rightarrow> fpu" where "fldcw cw s = s\<lparr>x87_control := cw\<rparr>"
definition fnstcw :: "fpu \<Rightarrow> u16" where "fnstcw s = x87_control s"
definition fnstsw :: "fpu \<Rightarrow> u16" where "fnstsw s = x87_status s"
definition fnclex :: "fpu \<Rightarrow> fpu" where "fnclex s = s\<lparr>x87_status := x87_status s AND NOT 0x80ff\<rparr>"
definition ldmxcsr :: "u32 \<Rightarrow> fpu \<Rightarrow> fpu" where "ldmxcsr csr s = s\<lparr>mxcsr := csr\<rparr>"
definition stmxcsr :: "fpu \<Rightarrow> u32" where "stmxcsr s = mxcsr s"

definition fnstenv :: "fpu \<Rightarrow> fenv_x87 \<times> fpu" where
  "fnstenv s = (\<lparr>env_control = ucast (x87_control s), env_status = ucast (x87_status s), env_tag = ucast (x87_tag s)\<rparr>,
     s\<lparr>x87_control := x87_control s OR 0x3f\<rparr>)"

definition fldenv :: "fenv_x87 \<Rightarrow> fpu \<Rightarrow> fpu" where
  "fldenv e s = s\<lparr>x87_control := ucast (env_control e), x87_status := ucast (env_status e), x87_tag := ucast (env_tag e)\<rparr>"

section \<open>The functions\<close>

definition feclearexcept :: "u32 \<Rightarrow> fpu \<Rightarrow> u32 \<times> fpu" where
  "feclearexcept excepts s =
     (let s = (if excepts = FE_ALL_EXCEPT then fnclex s
               else case fnstenv s of (e, s) \<Rightarrow> fldenv (e\<lparr>env_status := env_status e AND NOT excepts\<rparr>) s);
          csr = stmxcsr s AND NOT excepts
      in (0, ldmxcsr csr s))"

definition fegetexceptflag :: "u32 \<Rightarrow> fpu \<Rightarrow> u32 \<times> u16" where
  "fegetexceptflag excepts s = (0, ucast ((stmxcsr s OR ucast (fnstsw s)) AND excepts))"

definition fetestexcept :: "u32 \<Rightarrow> fpu \<Rightarrow> u32" where
  "fetestexcept excepts s = (ucast (fnstsw s) OR stmxcsr s) AND excepts"

definition fegetround :: "fpu \<Rightarrow> u32" where
  "fegetround s = ucast (fnstcw s) AND ROUND_MASK"

definition fesetround :: "u32 \<Rightarrow> fpu \<Rightarrow> u32 \<times> fpu" where
  "fesetround round s =
     (if round AND NOT ROUND_MASK \<noteq> 0 then (- 1, s)
      else let control = (fnstcw s AND ucast (NOT ROUND_MASK)) OR ucast round;
               s = fldcw control s;
               csr = (stmxcsr s AND NOT (push_bit 3 ROUND_MASK)) OR push_bit 3 round
           in (0, ldmxcsr csr s))"

definition fesetenv :: "fenv_t \<Rightarrow> fpu \<Rightarrow> u32 \<times> fpu" where
  "fesetenv envp s = (0, ldmxcsr (env_mxcsr envp) (fldenv (env_x87 envp) s))"

definition fegetexcept :: "fpu \<Rightarrow> u32" where
  "fegetexcept s = NOT (ucast (fnstcw s)) AND FE_ALL_EXCEPT"

section \<open>Rounding\<close>

lemmas fpu_defs = fldcw_def fnstcw_def fnstsw_def fnclex_def ldmxcsr_def stmxcsr_def fnstenv_def fldenv_def

text \<open>The rounding bits of the two units.\<close>

definition rounding_agrees :: "fpu \<Rightarrow> bool" where
  "rounding_agrees s \<longleftrightarrow> mxcsr s AND push_bit 3 ROUND_MASK = push_bit 3 (ucast (x87_control s) AND ROUND_MASK)"

text \<open>Replacing the bits \<open>M\<close> of a register by \<open>r\<close>.\<close>

lemma subset_bits: "(r :: u32) AND NOT M = 0 \<Longrightarrow> bit r n \<Longrightarrow> bit M n"
proof (rule ccontr)
  assume z: "r AND NOT M = 0" and b: "bit r n" and "\<not> bit M n"
  then have "bit (r AND NOT M) n" unfolding bit_and_iff bit_not_iff using bit_imp_le_length [OF b] by simp
  with z show False by simp
qed

lemma set_field:
  assumes "(r :: u32) AND NOT M = 0"
  shows "((c AND NOT M) OR r) AND M = r" and "((c AND NOT M) OR r) AND NOT M = c AND NOT M"
  using subset_bits [OF assms]
  by (auto intro!: bit_eqI simp: bit_and_iff bit_or_iff bit_not_iff)

lemma set_field16:
  assumes "(r :: u32) AND NOT M = 0" and "M AND NOT 0xffff = 0"
  shows "ucast (((c :: u16) AND ucast (NOT M)) OR ucast r) AND M = r"
    and "(((c :: u16) AND ucast (NOT M)) OR ucast r) AND ucast (NOT M) = c AND ucast (NOT M)"
proof -
  have m16: "(0xffff :: u32) = mask 16" by (simp add: mask_eq_exp_minus_1)
  have low: "n < 16" if "bit M n" for n
    using subset_bits [OF assms(2) that] unfolding m16 by (simp add: bit_mask_iff)
  show "ucast (((c :: u16) AND ucast (NOT M)) OR ucast r) AND M = r"
    using subset_bits [OF assms(1)] low
    by (intro bit_eqI) (auto simp: bit_and_iff bit_or_iff bit_not_iff bit_ucast_iff)
  show "(((c :: u16) AND ucast (NOT M)) OR ucast r) AND ucast (NOT M) = c AND ucast (NOT M)"
    using subset_bits [OF assms(1)]
    by (intro bit_eqI) (auto simp: bit_and_iff bit_or_iff bit_not_iff bit_ucast_iff)
qed

lemma push_subset: "(r :: u32) AND NOT M = 0 \<Longrightarrow> push_bit k r AND NOT (push_bit k M) = 0"
  using subset_bits [of r M] by (intro bit_eqI) (auto simp: bit_and_iff bit_not_iff bit_push_bit_iff)

text \<open>Setting the rounding mode: an argument that is no mode is refused and changes nothing; otherwise
  \<open>fegetround\<close> then returns the mode, both units have it, the other bits of both control words and
  the exception flags are unchanged.\<close>

lemma fesetround_spec:
  "if r AND NOT ROUND_MASK \<noteq> 0 then fesetround r s = (- 1, s)
   else \<exists>s'. fesetround r s = (0, s') \<and> fegetround s' = r \<and> rounding_agrees s' \<and>
     x87_control s' AND ucast (NOT ROUND_MASK) = x87_control s AND ucast (NOT ROUND_MASK) \<and>
     mxcsr s' AND NOT (push_bit 3 ROUND_MASK) = mxcsr s AND NOT (push_bit 3 ROUND_MASK) \<and>
     x87_status s' = x87_status s \<and> x87_tag s' = x87_tag s"
proof (cases "r AND NOT ROUND_MASK = 0")
  case True
  have M: "(0x0c00 :: u32) AND NOT 0xffff = 0" by simp
  obtain c st t x where s: "s = \<lparr>x87_control = c, x87_status = st, x87_tag = t, mxcsr = x\<rparr>" by (cases s)
  note f = set_field [OF push_subset [OF True, of 3], of x] and g = set_field16 [OF True M, of c]
  let ?s = "\<lparr>x87_control = (c AND ucast (NOT ROUND_MASK)) OR ucast r, x87_status = st, x87_tag = t,
    mxcsr = (x AND NOT (push_bit 3 ROUND_MASK)) OR push_bit 3 r\<rparr>"
  have e: "fesetround r s = (0, ?s)" using True by (simp only: fesetround_def fpu_defs Let_def s fpu.simps simp_thms if_False)
  have "fegetround ?s = r" "rounding_agrees ?s"
    "x87_control ?s AND ucast (NOT ROUND_MASK) = c AND ucast (NOT ROUND_MASK)"
    "mxcsr ?s AND NOT (push_bit 3 ROUND_MASK) = x AND NOT (push_bit 3 ROUND_MASK)"
    by (simp_all only: fegetround_def rounding_agrees_def fnstcw_def fpu.simps f g)
  then show ?thesis unfolding e using True s by (simp only: if_False simp_thms prod.inject fpu.simps)
qed (simp add: fesetround_def)

section \<open>Exceptions\<close>

lemma or_cleared:
  assumes "(a :: u32) AND k = (b AND k) AND NOT e"
  shows "(a OR (x AND NOT e)) AND k = ((b OR x) AND k) AND NOT e"
proof (rule bit_eqI)
  fix n
  have "bit (a AND k) n = bit ((b AND k) AND NOT e) n" by (simp only: assms)
  then show "bit ((a OR (x AND NOT e)) AND k) n \<longleftrightarrow> bit (((b OR x) AND k) AND NOT e) n"
    by (auto simp: bit_and_iff bit_or_iff bit_not_iff)
qed

text \<open>Clearing exceptions: what \<open>fetestexcept\<close> reports afterwards is what it reported before without those, on the
  path with \<open>fnclex\<close> as on the one with the stored environment; the control words stay.\<close>

lemma feclearexcept_spec:
  assumes "excepts AND NOT FE_ALL_EXCEPT = 0" and "feclearexcept excepts s = (r, s')"
  shows "r = 0" and "fetestexcept FE_ALL_EXCEPT s' = fetestexcept FE_ALL_EXCEPT s AND NOT excepts"
    and "x87_control s' = x87_control s" and "x87_tag s' = x87_tag s" and "mxcsr s' = mxcsr s AND NOT excepts"
proof -
  have u: "ucast (ucast w :: u32) = w" for w :: u16 by (rule bit_eqI) (auto simp: bit_ucast_iff)
  have uand: "ucast (a AND b) = (ucast a AND ucast b :: u16)" for a b :: u32
    by (rule bit_eqI) (auto simp: bit_ucast_iff bit_and_iff)
  have s': "r = 0" "mxcsr s' = mxcsr s AND NOT excepts" "x87_control s' = x87_control s" "x87_tag s' = x87_tag s"
    "x87_status s' = (if excepts = FE_ALL_EXCEPT then x87_status s AND NOT 0x80ff else x87_status s AND ucast (NOT excepts))"
    using assms(2) by (auto simp: feclearexcept_def fpu_defs Let_def uand u split: if_splits)
  then show "r = 0" "x87_control s' = x87_control s" "x87_tag s' = x87_tag s" "mxcsr s' = mxcsr s AND NOT excepts" by simp_all
  have clear: "ucast (x87_status s') AND FE_ALL_EXCEPT = (ucast (x87_status s) AND FE_ALL_EXCEPT) AND NOT excepts"
  proof (cases "excepts = FE_ALL_EXCEPT")
    case True
    have gen: "(ucast (w AND NOT m) :: u32) AND k = 0" if "k AND NOT (ucast m) = 0" for w m :: u16 and k
      using subset_bits [OF that] by (intro bit_eqI) (auto simp: bit_ucast_iff bit_and_iff bit_not_iff)
    have "(0x3f :: u32) AND NOT (ucast (0x80ff :: u16)) = 0" by simp
    then have l: "(ucast (x87_status s AND NOT 0x80ff) :: u32) AND FE_ALL_EXCEPT = 0" by (rule gen)
    have "(v AND k) AND NOT k = 0" for v k :: u32 by (rule bit_eqI) (auto simp: bit_and_iff bit_not_iff)
    with l show ?thesis unfolding s'(5) True by (simp only: if_True simp_thms)
  next
    case False
    have "(ucast (w AND ucast (NOT e) :: u16) :: u32) AND m = (ucast w AND m) AND NOT e" for w e m
      by (rule bit_eqI) (auto simp: bit_ucast_iff bit_and_iff bit_not_iff dest: bit_imp_le_length)
    then show ?thesis using s'(5) False by simp
  qed
  then show "fetestexcept FE_ALL_EXCEPT s' = fetestexcept FE_ALL_EXCEPT s AND NOT excepts"
    unfolding fetestexcept_def fnstsw_def stmxcsr_def s'(2) by (rule or_cleared)
qed

text \<open>The assumption of \<open>fegetround\<close> is an invariant.\<close>

datatype fenv_op = SetRound u32 | ClearExcept u32 | SetEnv fenv_t

fun fenv_step :: "fenv_op \<Rightarrow> fpu \<Rightarrow> fpu" where
  "fenv_step (SetRound r) s = snd (fesetround r s)"
| "fenv_step (ClearExcept e) s = snd (feclearexcept (e AND FE_ALL_EXCEPT) s)"
| "fenv_step (SetEnv e) s = snd (fesetenv e s)"

definition env_agrees :: "fenv_t \<Rightarrow> bool" where
  "env_agrees e \<longleftrightarrow> rounding_agrees (snd (fesetenv e \<lparr>x87_control = 0, x87_status = 0, x87_tag = 0, mxcsr = 0\<rparr>))"

lemma agrees_cong:
  "x87_control s' = x87_control s \<Longrightarrow> mxcsr s' AND push_bit 3 ROUND_MASK = mxcsr s AND push_bit 3 ROUND_MASK \<Longrightarrow>
   rounding_agrees s' = rounding_agrees s"
  by (simp add: rounding_agrees_def)

lemma fenv_step_agrees:
  assumes "rounding_agrees s" and "\<forall>e. x = SetEnv e \<longrightarrow> env_agrees e"
  shows "rounding_agrees (fenv_step x s)"
proof (cases x)
  case (SetRound r)
  with assms(1) fesetround_spec [of r s] show ?thesis by (cases "r AND NOT ROUND_MASK = 0") auto
next
  case (ClearExcept e)
  obtain n s' where c: "feclearexcept (e AND FE_ALL_EXCEPT) s = (n, s')" by (cases "feclearexcept (e AND FE_ALL_EXCEPT) s")
  have sub: "(e AND k) AND NOT k = 0" for k :: u32 by (rule bit_eqI) (auto simp: bit_and_iff bit_not_iff)
  have gen: "(x AND NOT (e AND k)) AND m = x AND m" if "k AND m = 0" for x k m :: u32
  proof (rule bit_eqI)
    fix n
    have "\<not> (bit k n \<and> bit m n)" using that by (metis bit_and_iff bit_0_eq bot_apply bot_bool_def)
    then show "bit ((x AND NOT (e AND k)) AND m) n \<longleftrightarrow> bit (x AND m) n"
      by (auto simp: bit_and_iff bit_or_iff bit_not_iff dest: bit_imp_le_length)
  qed
  have "(0x3f :: u32) AND push_bit 3 ROUND_MASK = 0" by simp
  note m = gen [OF this, of "mxcsr s"]
  have "rounding_agrees s' = rounding_agrees s"
    using feclearexcept_spec(3,5) [OF sub c] m by (intro agrees_cong) (simp_all only:)
  with c assms(1) ClearExcept show ?thesis by simp
next
  case (SetEnv e)
  with assms(2) show ?thesis by (simp add: env_agrees_def fesetenv_def fpu_defs rounding_agrees_def)
qed

text \<open>The two units as one: from a state in which they round alike, after any sequence of the functions that set
  the rounding mode, clear exceptions or load an environment in which they round alike, they still
  do, so that what \<open>fegetround\<close> reads from one is the mode of both.\<close>

lemma fenv_units_agree:
  assumes "rounding_agrees s" and "\<forall>e. SetEnv e \<in> set xs \<longrightarrow> env_agrees e"
  shows "push_bit 3 (fegetround (fold fenv_step xs s)) = mxcsr (fold fenv_step xs s) AND push_bit 3 ROUND_MASK"
proof -
  have "rounding_agrees (fold fenv_step xs s)"
    using assms by (induction xs arbitrary: s) (simp_all add: fenv_step_agrees)
  then show ?thesis unfolding rounding_agrees_def fegetround_def fnstcw_def by (rule sym)
qed

section \<open>Witnesses\<close>

definition sample_fpu :: fpu where
  "sample_fpu = \<lparr>x87_control = 0x037f, x87_status = 0x3821, x87_tag = 0xffff, mxcsr = 0x1fa1\<rparr>"

lemma fenv_units_agree_witness:
  "push_bit 3 (fegetround (fold fenv_step [SetRound 0x0800, ClearExcept 0x20, SetRound 0x1000] sample_fpu)) =
     mxcsr (fold fenv_step [SetRound 0x0800, ClearExcept 0x20, SetRound 0x1000] sample_fpu) AND push_bit 3 ROUND_MASK"
proof (rule fenv_units_agree)
  show "rounding_agrees sample_fpu" by (simp add: rounding_agrees_def sample_fpu_def)
qed simp

end
