(* ===== verification/Char_Types.thy ===== *)
theory Char_Types
  imports Ps4_Prelude
begin

text \<open>
  The classification of characters, \<open>include/_ctype.h\<close> and \<open>include/ctype.h\<close>, over the tables of a locale
  (\<open>include/runetype.h\<close>): 256 entries of class bits, with the value of a digit in the low byte, and of the
  case mappings.  A character is an \<open>int\<close>, also a negative one; reading a table outside of its
  entries has no result.  The tables of the locales, and the functions for characters outside of the
  tables, are arguments.

  Shown: no classification reads outside of a table, for any \<open>int\<close>, as long as the limit for
  single byte characters is at most the size of the tables; the results agree with the
  tables; the width of a character is between minus one and three.
\<close>

section \<open>Locales\<close>

record rune_locale =
  rl_runetype :: "u64 list"
  rl_maplower :: "int list"
  rl_mapupper :: "int list"

record ctype_env =
  CurrentRuneLocale :: rune_locale
  DefaultRuneLocale :: rune_locale
  mb_sb_limit :: int
  runetype_ext :: "int \<Rightarrow> u64"
  tolower_ext :: "int \<Rightarrow> int"
  toupper_ext :: "int \<Rightarrow> int"

definition rd :: "'a list \<Rightarrow> int \<Rightarrow> 'a option" where
  "rd xs i = (if 0 \<le> i \<and> nat i < length xs then Some (xs ! nat i) else None)"

abbreviation (input) CTYPE_A :: u64 where "CTYPE_A \<equiv> 0x00000100"
abbreviation (input) CTYPE_C :: u64 where "CTYPE_C \<equiv> 0x00000200"
abbreviation (input) CTYPE_D :: u64 where "CTYPE_D \<equiv> 0x00000400"
abbreviation (input) CTYPE_G :: u64 where "CTYPE_G \<equiv> 0x00000800"
abbreviation (input) CTYPE_L :: u64 where "CTYPE_L \<equiv> 0x00001000"
abbreviation (input) CTYPE_P :: u64 where "CTYPE_P \<equiv> 0x00002000"
abbreviation (input) CTYPE_S :: u64 where "CTYPE_S \<equiv> 0x00004000"
abbreviation (input) CTYPE_U :: u64 where "CTYPE_U \<equiv> 0x00008000"
abbreviation (input) CTYPE_X :: u64 where "CTYPE_X \<equiv> 0x00010000"
abbreviation (input) CTYPE_B :: u64 where "CTYPE_B \<equiv> 0x00020000"
abbreviation (input) CTYPE_R :: u64 where "CTYPE_R \<equiv> 0x00040000"
abbreviation (input) CTYPE_I :: u64 where "CTYPE_I \<equiv> 0x00080000"
abbreviation (input) CTYPE_T :: u64 where "CTYPE_T \<equiv> 0x00100000"
abbreviation (input) CTYPE_Q :: u64 where "CTYPE_Q \<equiv> 0x00200000"
abbreviation (input) CTYPE_SWM :: u64 where "CTYPE_SWM \<equiv> 0xe0000000"

section \<open>The functions\<close>

text \<open>The results of type \<open>int\<close> are the low 32 bits of the \<open>unsigned long\<close> computed.\<close>

definition maskrune :: "ctype_env \<Rightarrow> int \<Rightarrow> u64 \<Rightarrow> u32 option" where
  "maskrune E c f = map_option (\<lambda>t. ucast (t AND f))
     (if c < 0 \<or> c \<ge> 256 then Some (runetype_ext E c) else rd (rl_runetype (CurrentRuneLocale E)) c)"

definition sbmaskrune :: "ctype_env \<Rightarrow> int \<Rightarrow> u64 \<Rightarrow> u32 option" where
  "sbmaskrune E c f = (if c < 0 \<or> c \<ge> mb_sb_limit E then Some 0
     else map_option (\<lambda>t. ucast (t AND f)) (rd (rl_runetype (CurrentRuneLocale E)) c))"

definition istype :: "ctype_env \<Rightarrow> int \<Rightarrow> u64 \<Rightarrow> bool option" where
  "istype E c f = map_option (\<lambda>x. x \<noteq> 0) (maskrune E c f)"

definition sbistype :: "ctype_env \<Rightarrow> int \<Rightarrow> u64 \<Rightarrow> bool option" where
  "sbistype E c f = map_option (\<lambda>x. x \<noteq> 0) (sbmaskrune E c f)"

definition isctype :: "ctype_env \<Rightarrow> int \<Rightarrow> u64 \<Rightarrow> bool option" where
  "isctype E c f = (if c < 0 \<or> c \<ge> 128 then Some False
     else map_option (\<lambda>t. t AND f \<noteq> 0) (rd (rl_runetype (DefaultRuneLocale E)) c))"

definition toupper_rune :: "ctype_env \<Rightarrow> int \<Rightarrow> int option" where
  "toupper_rune E c = (if c < 0 \<or> c \<ge> 256 then Some (toupper_ext E c) else rd (rl_mapupper (CurrentRuneLocale E)) c)"

definition sbtoupper :: "ctype_env \<Rightarrow> int \<Rightarrow> int option" where
  "sbtoupper E c = (if c < 0 \<or> c \<ge> mb_sb_limit E then Some c else rd (rl_mapupper (CurrentRuneLocale E)) c)"

definition tolower_rune :: "ctype_env \<Rightarrow> int \<Rightarrow> int option" where
  "tolower_rune E c = (if c < 0 \<or> c \<ge> 256 then Some (tolower_ext E c) else rd (rl_maplower (CurrentRuneLocale E)) c)"

definition sbtolower :: "ctype_env \<Rightarrow> int \<Rightarrow> int option" where
  "sbtolower E c = (if c < 0 \<or> c \<ge> mb_sb_limit E then Some c else rd (rl_maplower (CurrentRuneLocale E)) c)"

definition wcwidth_rune :: "ctype_env \<Rightarrow> int \<Rightarrow> int option" where
  "wcwidth_rune E c = (if c = 0 then Some 0 else do {
     x \<leftarrow> maskrune E c (CTYPE_SWM OR CTYPE_R);
     if ucast x AND CTYPE_SWM \<noteq> 0 then Some (uint (drop_bit 30 (ucast x AND CTYPE_SWM)))
     else Some (if ucast x AND CTYPE_R \<noteq> 0 then 1 else - 1) })"

definition isalnum :: "ctype_env \<Rightarrow> int \<Rightarrow> bool option" where "isalnum E c = sbistype E c (CTYPE_A OR CTYPE_D)"
definition isalpha :: "ctype_env \<Rightarrow> int \<Rightarrow> bool option" where "isalpha E c = sbistype E c CTYPE_A"
definition iscntrl :: "ctype_env \<Rightarrow> int \<Rightarrow> bool option" where "iscntrl E c = sbistype E c CTYPE_C"
definition isdigit :: "ctype_env \<Rightarrow> int \<Rightarrow> bool option" where "isdigit E c = isctype E c CTYPE_D"
definition isgraph :: "ctype_env \<Rightarrow> int \<Rightarrow> bool option" where "isgraph E c = sbistype E c CTYPE_G"
definition islower :: "ctype_env \<Rightarrow> int \<Rightarrow> bool option" where "islower E c = sbistype E c CTYPE_L"
definition isprint :: "ctype_env \<Rightarrow> int \<Rightarrow> bool option" where "isprint E c = sbistype E c CTYPE_R"
definition ispunct :: "ctype_env \<Rightarrow> int \<Rightarrow> bool option" where "ispunct E c = sbistype E c CTYPE_P"
definition isspace :: "ctype_env \<Rightarrow> int \<Rightarrow> bool option" where "isspace E c = sbistype E c CTYPE_S"
definition isupper :: "ctype_env \<Rightarrow> int \<Rightarrow> bool option" where "isupper E c = sbistype E c CTYPE_U"
definition isxdigit :: "ctype_env \<Rightarrow> int \<Rightarrow> bool option" where "isxdigit E c = isctype E c CTYPE_X"
definition isblank :: "ctype_env \<Rightarrow> int \<Rightarrow> bool option" where "isblank E c = sbistype E c CTYPE_B"
definition digittoint :: "ctype_env \<Rightarrow> int \<Rightarrow> u32 option" where "digittoint E c = sbmaskrune E c 0xFF"
definition ishexnumber :: "ctype_env \<Rightarrow> int \<Rightarrow> bool option" where "ishexnumber E c = sbistype E c CTYPE_X"
definition isideogram :: "ctype_env \<Rightarrow> int \<Rightarrow> bool option" where "isideogram E c = sbistype E c CTYPE_I"
definition isnumber :: "ctype_env \<Rightarrow> int \<Rightarrow> bool option" where "isnumber E c = sbistype E c CTYPE_D"
definition isphonogram :: "ctype_env \<Rightarrow> int \<Rightarrow> bool option" where "isphonogram E c = sbistype E c CTYPE_Q"
definition isrune :: "ctype_env \<Rightarrow> int \<Rightarrow> bool option" where "isrune E c = sbistype E c 0xFFFFFF00"
definition isspecial :: "ctype_env \<Rightarrow> int \<Rightarrow> bool option" where "isspecial E c = sbistype E c CTYPE_T"
definition isascii :: "u32 \<Rightarrow> bool" where "isascii c \<longleftrightarrow> c AND NOT 0x7F = 0"
definition toascii :: "u32 \<Rightarrow> u32" where "toascii c = c AND 0x7F"

section \<open>Bounds\<close>

definition locale_ok :: "rune_locale \<Rightarrow> bool" where
  "locale_ok l \<longleftrightarrow> length (rl_runetype l) = 256 \<and> length (rl_maplower l) = 256 \<and> length (rl_mapupper l) = 256"

definition ctype_ok :: "ctype_env \<Rightarrow> bool" where
  "ctype_ok E \<longleftrightarrow> locale_ok (CurrentRuneLocale E) \<and> locale_ok (DefaultRuneLocale E) \<and> mb_sb_limit E \<le> 256"

lemma rd_table: "length xs = 256 \<Longrightarrow> \<not> (c < 0 \<or> c \<ge> n) \<Longrightarrow> n \<le> 256 \<Longrightarrow> rd xs c = Some (xs ! nat c)"
  by (auto simp: rd_def)

text \<open>The class bits that a single byte character has in the current locale; none outside.\<close>

definition classes :: "ctype_env \<Rightarrow> int \<Rightarrow> u64" where
  "classes E c = (if c < 0 \<or> c \<ge> mb_sb_limit E then 0 else rl_runetype (CurrentRuneLocale E) ! nat c)"

lemma sb_table:
  assumes "ctype_ok E"
  shows "sbmaskrune E c f = Some (ucast (classes E c AND f))" and "sbistype E c f = Some ((ucast (classes E c AND f) :: u32) \<noteq> 0)"
    and "\<exists>d. sbtoupper E c = Some d" and "\<exists>d. sbtolower E c = Some d" and "\<exists>b. isctype E c f = Some b"
  using assms
  by (auto simp: sbmaskrune_def sbistype_def sbtoupper_def sbtolower_def isctype_def classes_def ctype_ok_def locale_ok_def
      rd_table [of _ _ "mb_sb_limit E"] rd_table [of _ _ 128])

lemma width_range:
  assumes "ctype_ok E"
  shows "\<exists>w. wcwidth_rune E c = Some w \<and> - 1 \<le> w \<and> w \<le> 3"
proof -
  have "maskrune E c f \<noteq> None" for f
    using assms by (auto simp: maskrune_def ctype_ok_def locale_ok_def rd_table [of _ _ 256])
  then obtain x where x: "maskrune E c (CTYPE_SWM OR CTYPE_R) = Some x" by blast
  have le: "uint (drop_bit 30 ((ucast (x :: u32) :: u64) AND m)) \<le> 3" for x m
  proof -
    have "drop_bit 30 ((ucast x :: u64) AND m) = take_bit 2 (drop_bit 30 ((ucast x :: u64) AND m))"
      by (rule bit_eqI) (auto simp: bit_take_bit_iff bit_drop_bit_eq bit_and_iff bit_ucast_iff dest: bit_imp_le_length)
    then have "uint (drop_bit 30 ((ucast x :: u64) AND m)) = take_bit 2 (uint (drop_bit 30 ((ucast x :: u64) AND m)))"
      by (metis unsigned_take_bit_eq)
    also have "\<dots> < 4" using take_bit_int_less_exp [of 2 "uint (drop_bit 30 ((ucast x :: u64) AND m))"] by simp
    finally show ?thesis by simp
  qed
  have "- 1 \<le> uint (drop_bit 30 ((ucast x :: u64) AND CTYPE_SWM))" by (rule order_trans [of _ 0]) simp_all
  with le have "- 1 \<le> uint (drop_bit 30 ((ucast x :: u64) AND CTYPE_SWM)) \<and> uint (drop_bit 30 ((ucast x :: u64) AND CTYPE_SWM)) \<le> 3"
    by blast
  then show ?thesis unfolding wcwidth_rune_def x bind.bind_lunit
    by (cases "c = 0"; cases "(ucast x :: u64) AND CTYPE_SWM \<noteq> 0") simp_all
qed

text \<open>Classification stays in the tables: for every \<open>int\<close>, negative ones and those above the tables included,
  each of the tests has a result, the one that the class bits of the current locale give (of the
  default locale for the two digit tests, and for ASCII only); the case mappings have a result, and the
  width of a character is between minus one and three.\<close>

lemma ctype_in_tables:
  assumes "ctype_ok E"
  shows "isalpha E c = Some (bit (classes E c) 8) \<and> isspace E c = Some (bit (classes E c) 14) \<and>
    isupper E c = Some (bit (classes E c) 15) \<and> islower E c = Some (bit (classes E c) 12) \<and>
    isprint E c = Some (bit (classes E c) 18) \<and> digittoint E c = Some (ucast (classes E c AND 0xFF)) \<and>
    isdigit E c = Some (0 \<le> c \<and> c < 128 \<and> bit (rl_runetype (DefaultRuneLocale E) ! nat c) 10) \<and>
    (\<exists>u l w. sbtoupper E c = Some u \<and> sbtolower E c = Some l \<and> wcwidth_rune E c = Some w \<and> - 1 \<le> w \<and> w \<le> 3)"
proof -
  have flag: "(ucast (x AND 2 ^ k) :: u32) \<noteq> 0 \<longleftrightarrow> bit x k" if "k < 32" for x :: u64 and k
  proof -
    have "bit (ucast (x AND 2 ^ k) :: u32) n \<longleftrightarrow> n = k \<and> bit x k" for n
      using that by (auto simp: bit_ucast_iff bit_and_iff bit_exp_iff)
    then show ?thesis by (metis bit_0_eq bit_eqI bot_apply bot_bool_def)
  qed
  have sb: "sbistype E c (2 ^ k) = Some (bit (classes E c) k)" if "k < 32" for k
    using sb_table(2) [OF assms, of c "2 ^ k"] flag [OF that] by simp
  have "isctype E c (2 ^ 10) = Some (0 \<le> c \<and> c < 128 \<and> bit (rl_runetype (DefaultRuneLocale E) ! nat c) 10)"
    using assms by (auto simp: isctype_def ctype_ok_def locale_ok_def rd_table [of _ _ 128] and_exp_eq_0_iff_not_bit [of _ 10, simplified])
  moreover obtain u where "sbtoupper E c = Some u" using sb_table(3) [OF assms] by blast
  moreover obtain l where "sbtolower E c = Some l" using sb_table(4) [OF assms] by blast
  moreover obtain w where "wcwidth_rune E c = Some w" "- 1 \<le> w" "w \<le> 3" using width_range [OF assms] by blast
  ultimately show ?thesis
    using sb [of 8] sb [of 14] sb [of 15] sb [of 12] sb [of 18] sb_table(1) [OF assms]
    by (simp add: isalpha_def isspace_def isupper_def islower_def isprint_def digittoint_def isdigit_def)
qed

section \<open>Witnesses\<close>

definition sample_locale :: rune_locale where
  "sample_locale = \<lparr>rl_runetype = (replicate 256 0)[65 := 0x48D10A, 97 := 0x4590A], rl_maplower = (map int [0..<256])[65 := 97],
     rl_mapupper = (map int [0..<256])[97 := 65]\<rparr>"

definition sample_ctype :: ctype_env where
  "sample_ctype = \<lparr>CurrentRuneLocale = sample_locale, DefaultRuneLocale = sample_locale, mb_sb_limit = 256,
     runetype_ext = (\<lambda>_. 0), tolower_ext = id, toupper_ext = id\<rparr>"

lemma ctype_in_tables_witness:
  "isalpha sample_ctype 65 = Some True \<and> isalpha sample_ctype (- 1) = Some False \<and> isupper sample_ctype 97 = Some False"
proof -
  have ok: "ctype_ok sample_ctype" by (simp add: ctype_ok_def locale_ok_def sample_ctype_def sample_locale_def)
  have "bit (classes sample_ctype 65) 8" "\<not> bit (classes sample_ctype (- 1)) 8" "\<not> bit (classes sample_ctype 97) 15"
    by (simp_all add: classes_def sample_ctype_def sample_locale_def bit_iff_odd_drop_bit)
  with ctype_in_tables [OF ok, of 65] ctype_in_tables [OF ok, of "- 1"] ctype_in_tables [OF ok, of 97] show ?thesis by simp
qed

end
