(* ===== verification/Kernel_Run.thy ===== *)
theory Kernel_Run
  imports Kernel_Sample
begin

text \<open>
  The system call by which functions run in the kernel: its code, \<open>ps4CallbackSyscallPayload\<close> of
  \<open>source/ps4/internal/asmpayload.s\<close>, instruction by instruction on a machine with the registers that the code uses, and its
  installation (\<open>ps4KernelExploitPayloadInstallRunSyscall\<close> of \<open>source/ps4/internal/kernelexploitpayload.c\<close>).  The
  stack is a list of words apart from the memory.  What the code calls is a parameter: a function gets its two arguments in
  \<open>%rdi\<close> and \<open>%rsi\<close>, may change every register but \<open>%r15\<close> and leaves the stack as it was (the calling convention).

  Shown: from any state of the kernel in which the table of system calls can be looked up, initialised or not, the payload installs
  an entry that points at exactly this code, and the code calls the function it is given once, with its arguments, hands the
  result over in the thread and returns zero.
\<close>

section \<open>The machine\<close>

datatype reg = Rax | Rsi | Rdi | R11 | R15

datatype instr =
    Push reg
  | Pop reg
  | MovReg reg reg
  | MovLoad nat reg reg
  | MovStore reg nat reg
  | TestReg reg
  | Jz nat
  | CallReg reg
  | XorReg reg
  | Ret

record cpu =
  regs :: "reg \<Rightarrow> u64"
  zf :: bool
  stack :: "u64 list"
  sys :: kernel_state

type_synonym callee = "ptr \<Rightarrow> u64 \<Rightarrow> u64 \<Rightarrow> kernel_state \<Rightarrow> ((reg \<Rightarrow> u64) \<times> kernel_state) option"

text \<open>Operands are in the order of the assembler, source first; \<open>Jz k\<close> skips the next \<open>k\<close> instructions.  The result is the
  address that \<open>Ret\<close> goes to, with the state there; a fault, and running over the end of the code, has none.\<close>

function exec :: "callee \<Rightarrow> instr list \<Rightarrow> cpu \<Rightarrow> (ptr \<times> cpu) option" where
  "exec call [] c = None"
| "exec call (Push r # is) c = exec call is (c\<lparr>stack := regs c r # stack c\<rparr>)"
| "exec call (Pop r # is) c =
     (case stack c of [] \<Rightarrow> None | v # st \<Rightarrow> exec call is (c\<lparr>regs := (regs c)(r := v), stack := st\<rparr>))"
| "exec call (MovReg src dst # is) c = exec call is (c\<lparr>regs := (regs c)(dst := regs c src)\<rparr>)"
| "exec call (MovLoad off base dst # is) c = do {
     v \<leftarrow> load64 (km (sys c)) (regs c base + of_nat off);
     exec call is (c\<lparr>regs := (regs c)(dst := v)\<rparr>) }"
| "exec call (MovStore src off base # is) c = do {
     m \<leftarrow> store64 (km (sys c)) (regs c base + of_nat off) (regs c src);
     exec call is (c\<lparr>sys := (sys c)\<lparr>km := m\<rparr>\<rparr>) }"
| "exec call (TestReg r # is) c = exec call is (c\<lparr>zf := (regs c r = 0)\<rparr>)"
| "exec call (Jz k # is) c = exec call (if zf c then drop k is else is) c"
| "exec call (CallReg r # is) c = do {
     (rs, s) \<leftarrow> call (regs c r) (regs c Rdi) (regs c Rsi) (sys c);
     exec call is (c\<lparr>regs := rs(R15 := regs c R15), sys := s\<rparr>) }"
| "exec call (XorReg r # is) c = exec call is (c\<lparr>regs := (regs c)(r := 0), zf := True\<rparr>)"
| "exec call (Ret # is) c = (case stack c of [] \<Rightarrow> None | a # st \<Rightarrow> Some (a, c\<lparr>stack := st\<rparr>))"
  by pat_completeness auto
termination
  by (relation "measure (\<lambda>(call, is, c). length is)") auto

section \<open>Its code\<close>

fun reg_num :: "reg \<Rightarrow> nat" where
  "reg_num Rax = 0" | "reg_num Rsi = 6" | "reg_num Rdi = 7" | "reg_num R11 = 11" | "reg_num R15 = 15"

definition rex_w :: "reg \<Rightarrow> reg \<Rightarrow> u8" where
  "rex_w r b = 0x48 + (if reg_num r \<ge> 8 then 4 else 0) + (if reg_num b \<ge> 8 then 1 else 0)"

definition rex_b :: "reg \<Rightarrow> u8 list" where
  "rex_b b = (if reg_num b \<ge> 8 then [0x41] else [])"

definition modrm :: "nat \<Rightarrow> nat \<Rightarrow> reg \<Rightarrow> u8" where
  "modrm md r b = of_nat (64 * md + 8 * (r mod 8) + reg_num b mod 8)"

text \<open>A memory operand: no displacement, one of a byte or one of four bytes.\<close>

definition mem_operand :: "nat \<Rightarrow> nat \<Rightarrow> reg \<Rightarrow> u8 list" where
  "mem_operand r off base =
     (if off = 0 then [modrm 0 r base]
      else if off < 128 then [modrm 1 r base, of_nat off]
      else modrm 2 r base # bytes_of_word 4 (of_nat off :: u32))"

fun encode :: "instr \<Rightarrow> u8 list" where
  "encode (Push r) = rex_b r @ [of_nat (0x50 + reg_num r mod 8)]"
| "encode (Pop r) = rex_b r @ [of_nat (0x58 + reg_num r mod 8)]"
| "encode (MovReg src dst) = [rex_w src dst, 0x89, modrm 3 (reg_num src) dst]"
| "encode (MovLoad off base dst) = [rex_w dst base, 0x8b] @ mem_operand (reg_num dst) off base"
| "encode (MovStore src off base) = [rex_w src base, 0x89] @ mem_operand (reg_num src) off base"
| "encode (TestReg r) = [rex_w r r, 0x85, modrm 3 (reg_num r) r]"
| "encode (Jz k) = [0x74, 0]"
| "encode (CallReg r) = rex_b r @ [0xff, modrm 3 2 r]"
| "encode (XorReg r) = [rex_w r r, 0x31, modrm 3 (reg_num r) r]"
| "encode Ret = [0xc3]"

text \<open>The jump is over the bytes of the instructions it skips.\<close>

fun assemble :: "instr list \<Rightarrow> u8 list" where
  "assemble [] = []"
| "assemble (Jz k # is) = [0x74, of_nat (length (concat (map encode (take k is))))] @ assemble is"
| "assemble (i # is) = encode i @ assemble is"

definition ps4CallbackSyscallPayload :: "instr list" where
  "ps4CallbackSyscallPayload =
     [Push R15, MovReg Rdi R15, MovLoad 0 Rsi R11, TestReg R11, Jz 4,
      MovLoad 8 Rsi Rdi, MovLoad 16 Rsi Rsi, CallReg R11, MovStore Rax 0x380 R15,
      XorReg Rax, Pop R15, Ret]"

definition ps4CallbackSyscallPayloadSize :: u32 where
  "ps4CallbackSyscallPayloadSize = of_nat (length (assemble ps4CallbackSyscallPayload))"

lemma callback_bytes:
  "assemble ps4CallbackSyscallPayload = [0x41, 0x57, 0x49, 0x89, 0xff, 0x4c, 0x8b, 0x1e, 0x4d, 0x85, 0xdb, 0x74, 0x12,
     0x48, 0x8b, 0x7e, 0x08, 0x48, 0x8b, 0x76, 0x10, 0x41, 0xff, 0xd3, 0x49, 0x89, 0x87, 0x80, 0x03, 0, 0,
     0x48, 0x31, 0xc0, 0x41, 0x5f, 0xc3]"
  by code_simp

lemma callback_size:
  "length (assemble ps4CallbackSyscallPayload) = 37" "unat (scast ps4CallbackSyscallPayloadSize :: u64) = 37"
  by (simp_all add: callback_bytes ps4CallbackSyscallPayloadSize_def)

section \<open>What the code does\<close>

text \<open>The effect of the system call for the thread \<open>td\<close>: nothing for no function; otherwise the function runs and what it
  returns is stored in the thread.\<close>

definition callback_effect :: "callee \<Rightarrow> ptr \<Rightarrow> ptr \<Rightarrow> u64 \<Rightarrow> u64 \<Rightarrow> kernel_state \<Rightarrow> kernel_state option" where
  "callback_effect call td fn argc argv s =
     (if fn = NULL then Some s else do {
        (rs, s) \<leftarrow> call fn argc argv s;
        m \<leftarrow> store64 (km s) (td + 0x380) (rs Rax);
        Some (s\<lparr>km := m\<rparr>) })"

lemma callback_runs:
  assumes "load64 (km (sys c)) (regs c Rsi) = Some fn"
    and "load64 (km (sys c)) (regs c Rsi + 8) = Some argc" and "load64 (km (sys c)) (regs c Rsi + 16) = Some argv"
    and "stack c = ra # st"
  shows "map_option (\<lambda>(a, c'). (a, regs c' Rax, regs c' R15, stack c', sys c')) (exec call ps4CallbackSyscallPayload c) =
    map_option (\<lambda>s. (ra, 0, regs c R15, st, s)) (callback_effect call (regs c Rdi) fn argc argv (sys c))"
proof (cases "fn = NULL")
  case True
  with assms show ?thesis by (simp add: ps4CallbackSyscallPayload_def callback_effect_def)
next
  case False
  show ?thesis
  proof (cases "call fn argc argv (sys c)")
    case None
    with False assms show ?thesis by (simp add: ps4CallbackSyscallPayload_def callback_effect_def)
  next
    case (Some p)
    obtain rs s where p: "p = (rs, s)" by (cases p)
    show ?thesis
      using False assms Some p
      by (cases "store64 (km s) (regs c Rdi + 0x380) (rs Rax)") (simp_all add: ps4CallbackSyscallPayload_def callback_effect_def)
  qed
qed

section \<open>Property\<close>

text \<open>A lookup in the kernel that finds its symbol leaves the globals initialised, whoever initialised them.\<close>

lemma lookup_initialises:
  assumes "kernel_symbol sp kbuf frame run_main name s = Some (table, s1)" and "ps4KernelIsInKernel sp" and "table \<noteq> NULL"
    and "ps4KernelInternalInitialized (kg s) \<or> kg s = kernel_globals_init"
  shows "ps4KernelInternalInitialized (kg s1)"
proof -
  from assms(1,2) obtain m g where init: "ensure_initialized kbuf (km s) (kg s) = Some (m, g)"
    and found: "ps4KernelDlSym_loop m (ps4KernelElfStrings g) name (ps4KernelElfSymbols g) = Some table" and s1: "kg s1 = g"
    by (auto simp: kernel_symbol_def ps4KernelDlSym_def Option.bind_eq_Some_conv)
  have "g \<noteq> kernel_globals_init"
  proof
    assume "g = kernel_globals_init"
    with found show False
      using assms(3) by (subst (asm) ps4KernelDlSym_loop.simps) (simp add: kernel_globals_init_def)
  qed
  with init assms(4) have "ps4KernelInternalInitialized g"
    by (auto simp: ensure_initialized_def ps4KernelInternalInitialize_def Option.bind_eq_Some_conv split: if_splits)
  with s1 show ?thesis by simp
qed

text \<open>C32 The system call that runs functions in the kernel.  From any state of the kernel, with the globals initialised or as the
  program starts with them, in which the lookup of the table of system calls finds it, the payload returns 0 with entry 172 of the table static, of three arguments, and
  pointing at a new block of executable memory that holds exactly the machine code of \<open>ps4CallbackSyscallPayload\<close>, with
  write protection back on.  That code, called the way the
  kernel calls an entry (thread in \<open>%rdi\<close>, arguments \<open>fn, argc, argv\<close> behind \<open>%rsi\<close>), for no function changes nothing, and otherwise
  calls \<open>fn(argc, argv)\<close> exactly once and stores its result in the thread; it returns 0 to its caller with \<open>%r15\<close> and the stack
  as they were, and faults only where the function or the store does.\<close>

theorem run_syscall_installed:
  assumes "copyin_ok ro ci" and "symf = kernel_symbol sp kbuf frame run_main sysent" and "ps4KernelIsInKernel sp"
    and "ps4KernelInternalInitialized (kg s) \<or> kg s = kernel_globals_init" and "symf s = Some (table, s1)" and "table \<noteq> NULL"
    and "addr = ps4KernelExecutableAddress (kg s1)" and "ps4KernelIsKernelAddress addr"
    and "user_bytes (km s1) code 37 = Some (assemble ps4CallbackSyscallPayload)" and "mapped (km s1) addr 37"
    and "e = table + 172 * 48" and "mapped (km s1) e 48" and "\<forall>i\<in>{0..<48}. \<not> ro (e + of_nat i)" and "disjoint_regions addr 37 e 48"
  shows "\<exists>s'. ps4KernelExploitPayloadInstallRunSyscall ro symf ci buf code ps4CallbackSyscallPayloadSize s = Some (0, s') \<and>
    sysent_at (km s') e = Some (static_sysent 3 addr) \<and>
    load_bytes (km s') addr 37 = Some (assemble ps4CallbackSyscallPayload) \<and>
    ps4KernelExecutableAddress (kg s') = addr + 37 \<and> bit (kcr0 s') 16 \<and>
    (\<forall>call c fn argc argv ra st.
       load64 (km (sys c)) (regs c Rsi) = Some fn \<and> load64 (km (sys c)) (regs c Rsi + 8) = Some argc \<and>
       load64 (km (sys c)) (regs c Rsi + 16) = Some argv \<and> stack c = ra # st \<longrightarrow>
       map_option (\<lambda>(a, c'). (a, regs c' Rax, regs c' R15, stack c', sys c')) (exec call ps4CallbackSyscallPayload c) =
       map_option (\<lambda>s. (ra, 0, regs c R15, st, s)) (callback_effect call (regs c Rdi) fn argc argv (sys c)))"
proof -
  have sz: "(scast ps4CallbackSyscallPayloadSize :: u64) = 37"
    by (simp add: callback_bytes ps4CallbackSyscallPayloadSize_def)
  have "ps4KernelInternalInitialized (kg s1)" using lookup_initialises assms(2-6) by blast
  moreover have "bit (kcr0 s1 OR CR0_WP) 16" by (simp add: bit_or_iff CR0_WP_def)
  ultimately show ?thesis
    using ps4KernelExploitPayloadInstallRunSyscall_installs [where symf = symf and s = s and ?s1.0 = s1 and ro = ro and ci = ci and buf = buf
      and sz = ps4CallbackSyscallPayloadSize and bs = "assemble ps4CallbackSyscallPayload" and table = table and addr = addr
      and code = code and e = e] assms callback_runs
    by (fastforce simp: sz callback_size)
qed

section \<open>Witness\<close>

text \<open>A kernel that nothing has initialised yet: its image at the usual address, with the segments, the dynamic table, the symbols and the strings
  from which the first lookup initialises the globals; the code of the system call stands in user memory.\<close>

definition kernel_ehdr :: Elf64_Ehdr where
  "kernel_ehdr = \<lparr>e_ident = [0x7f, 0x45, 0x4c, 0x46, 2, 1, 1, 9, 0, 0, 0, 0, 0, 0, 0, 0],
     e_type = 2, e_machine = 62, e_version = 1, e_entry = 0, e_phoff = 64, e_shoff = 0,
     e_flags = 0, e_ehsize = 64, e_phentsize = 56, e_phnum = 2, e_shentsize = 64, e_shnum = 0, e_shstrndx = 0\<rparr>"

definition kernel_phdr :: "u32 \<Rightarrow> u64 \<Rightarrow> Elf64_Phdr" where
  "kernel_phdr ty vaddr = \<lparr>p_type = ty, p_flags = 7, p_offset = 0, p_vaddr = vaddr, p_paddr = 0,
     p_filesz = 0, p_memsz = 0, p_align = 0\<rparr>"

definition sysent_name :: "u8 list" where
  "sysent_name = [0x73, 0x79, 0x73, 0x65, 0x6e, 0x74]"

definition kernel_file :: "u8 list" where
  "kernel_file = ehdr_bytes kernel_ehdr @ phdr_bytes (kernel_phdr 1 0xffffffff80800000) @ phdr_bytes (kernel_phdr 2 0xffffffff807000b0) @
     dyn_bytes \<lparr>d_tag = 6, d_un = 0xffffffff807000e0\<rparr> @ dyn_bytes \<lparr>d_tag = 5, d_un = 0xffffffff80700110\<rparr> @
     dyn_bytes \<lparr>d_tag = 0, d_un = 0\<rparr> @
     sym_bytes (visible_symbol\<lparr>st_value := 0xffffffff80900000\<rparr>) @ sym_bytes visible_symbol @
     [0] @ (sysent_name @ [0]) @ (sysent_name @ [0])"

lemma sysent_name_simps: "length sysent_name = 6" "0 \<notin> set sysent_name" "sysent_name \<noteq> []"
  by (simp_all add: sysent_name_def)

lemma length_kernel_file: "length kernel_file = 287"
  by (simp add: kernel_file_def length_ehdr_bytes length_phdr_bytes length_dyn_bytes length_sym_bytes kernel_ehdr_def sysent_name_def)

lemma kernel_file_parts:
  assumes "holds_bytes m 0xffffffff80700000 kernel_file"
  shows "ehdr_at m 0xffffffff80700000 = Some kernel_ehdr"
    and "phdr_at m 0xffffffff80700040 = Some (kernel_phdr 1 0xffffffff80800000)"
    and "phdr_at m 0xffffffff80700078 = Some (kernel_phdr 2 0xffffffff807000b0)"
    and "dyn_at m 0xffffffff807000b0 = Some \<lparr>d_tag = 6, d_un = 0xffffffff807000e0\<rparr>"
    and "dyn_at m 0xffffffff807000c0 = Some \<lparr>d_tag = 5, d_un = 0xffffffff80700110\<rparr>"
    and "dyn_at m 0xffffffff807000d0 = Some \<lparr>d_tag = 0, d_un = 0\<rparr>"
    and "sym_at m 0xffffffff807000e0 = Some (visible_symbol\<lparr>st_value := 0xffffffff80900000\<rparr>)"
    and "cstring_at m 0xffffffff80700111 sysent_name" and "cstring_at m 0xffffffff80700118 sysent_name"
  using assms unfolding kernel_file_def holds_bytes_append
  by (simp_all add: ehdr_at_iff phdr_at_iff dyn_at_iff sym_at_iff cstring_at_def length_ehdr_bytes length_phdr_bytes length_dyn_bytes
      length_sym_bytes kernel_ehdr_def sysent_name_simps holds_bytes_append)

lemma kernel_tables:
  assumes "holds_bytes m 0xffffffff80700000 kernel_file" and "ld_elf_data m buf = Some 0xffffffff80700000" and "buf \<noteq> NULL"
  shows "elfSegment m buf None ElfSegmentAttributeType PT_LOAD = Some (0xffffffff80700040, 0)"
    and "elfLoadedDynamic m buf None ElfDynamicAttributeTag DT_SYMTAB = Some (0xffffffff807000b0, 0)"
    and "elfLoadedDynamic m buf None ElfDynamicAttributeTag DT_STRTAB = Some (0xffffffff807000c0, 1)"
proof -
  note parts = kernel_file_parts [OF assms(1)]
  note eh = ehdr_atD [OF parts(1)] and p = phdr_atD [OF parts(2)] phdr_atD [OF parts(3)]
    and d = dyn_atD [OF parts(4)] dyn_atD [OF parts(5)] dyn_atD [OF parts(6)]
  have off: "entry_offset 0 sz = 0" "entry_offset 1 56 = 56" "entry_offset 1 16 = 16" for sz by (simp_all add: entry_offset_def)
  have segs: "elfSegments m buf (Some 0) (Some 0) = Some (0xffffffff80700040, Some 56, Some 2)"
    using eh assms(2,3) by (simp add: elfSegments_def elfHeader_def kernel_ehdr_def)
  show load: "elfSegment m buf None ElfSegmentAttributeType PT_LOAD = Some (0xffffffff80700040, 0)"
    using p by (simp add: elfSegment_def segs elfSegment_loop.simps segment_hit_def off kernel_phdr_def)
  have dynseg: "elfSegment m buf None ElfSegmentAttributeType PT_DYNAMIC = Some (0xffffffff80700078, 1)"
    using p by (simp add: elfSegment_def segs elfSegment_loop.simps segment_hit_def off kernel_phdr_def)
  have "elfDynamicsLength m 0xffffffff807000b0 = Some 2"
    using d by (simp add: elfDynamicsLength_def elfDynamicsLength_loop.simps)
  then have dyns: "elfLoadedDynamics m buf (Some 0) (Some 0) = Some (0xffffffff807000b0, Some 16, Some 2)"
    using assms(3) p by (simp add: elfLoadedDynamics_def dynseg kernel_phdr_def)
  show "elfLoadedDynamic m buf None ElfDynamicAttributeTag DT_SYMTAB = Some (0xffffffff807000b0, 0)"
    "elfLoadedDynamic m buf None ElfDynamicAttributeTag DT_STRTAB = Some (0xffffffff807000c0, 1)"
    using d by (simp_all add: elfLoadedDynamic_def dyns elfDynamic_loop.simps dynamic_hit_def off)
qed

definition first_kernel :: kernel_state where
  "first_kernel = \<lparr>km = patched (patched (\<lambda>_. Some 0) 0xffffffff80700000 kernel_file) 0xa000 (assemble ps4CallbackSyscallPayload),
     kcr0 = 0x80010031, kg = kernel_globals_init\<rparr>"

abbreviation (input) find_sysent :: "kernel_state \<Rightarrow> (ptr \<times> kernel_state) option" where
  "find_sysent \<equiv> kernel_symbol 0xffffff8000000000 0xffffff8000001000 0 (\<lambda>_ _. None) 0xffffffff80700118"

lemma first_kernel_parts:
  "mapped (km first_kernel) a n" "holds_bytes (km first_kernel) 0xffffffff80700000 kernel_file"
  "holds_bytes (km first_kernel) 0xa000 (assemble ps4CallbackSyscallPayload)"
proof -
  have "disjoint_regions 0xffffffff80700000 287 0xa000 37" by (simp add: disjoint_regions_def)
  then show "holds_bytes (km first_kernel) 0xffffffff80700000 kernel_file"
    using holds_patched [of kernel_file "\<lambda>_. Some 0" "0xffffffff80700000"]
    by (simp add: first_kernel_def holds_bytes_def load_patched_other length_kernel_file callback_size)
  show "mapped (km first_kernel) a n" by (simp add: first_kernel_def mapped_def patched_def)
  show "holds_bytes (km first_kernel) 0xa000 (assemble ps4CallbackSyscallPayload)"
    by (simp add: first_kernel_def holds_patched callback_size)
qed

text \<open>The lookup initialises the globals from the image and changes no memory but the handle on its stack.\<close>

lemma first_lookup:
  "\<exists>m1. find_sysent first_kernel = Some (0xffffffff80900000, first_kernel\<lparr>km := m1, kg := \<lparr>ps4KernelInternalInitialized = True,
       ps4KernelElfSymbols = 0xffffffff807000e0, ps4KernelElfStrings = 0xffffffff80700110, ps4KernelExecutableAddress = 0xffffffff80800000\<rparr>\<rparr>) \<and>
     (\<forall>a n. mapped m1 a n) \<and> holds_bytes m1 0xa000 (assemble ps4CallbackSyscallPayload)"
proof -
  let ?m = "km first_kernel" and ?buf = "0xffffff8000001000 :: ptr"
  note f = first_kernel_parts
  have "elfMagic @ drop 9 kernel_file = kernel_file"
    by (simp add: elfMagic_def kernel_file_def kernel_ehdr_def ehdr_bytes_def)
  then have "holds_bytes ?m 0xffffffff80700000 elfMagic" using f(2) holds_bytes_append by metis
  then have seek: "ps4KernelElfSeek ?m = Some 0xffffffff80700000" using ps4KernelElfSeek_first [of ?m] f(1) by simp
  obtain m1 where m1: "store_elf ?m ?buf 0xffffffff80700000 PS4KernelElfSize = Some m1" "dom m1 = dom ?m"
    using store_elf_total f(1) by blast
  note spec = store_elf_spec [OF m1(1)]
  have keep: "holds_bytes m1 a bs = holds_bytes ?m a bs" if d: "disjoint_regions a (length bs) ?buf 16" for a bs
  proof -
    have "m1 x = ?m x" if "in_region a (length bs) x" for x
      using outside_eqD [OF spec(3)] disjoint_regionsD [OF d that] by blast
    moreover have "length bs \<le> address_space" using d by (auto simp: disjoint_regions_def)
    ultimately show ?thesis unfolding holds_bytes_def using load_bytes_cong [of a "length bs" m1 ?m] by simp
  qed
  have image: "holds_bytes m1 0xffffffff80700000 kernel_file"
    using f(2) by (subst keep) (simp_all add: disjoint_regions_def length_kernel_file)
  note t = kernel_tables [OF image spec(1)] and parts = kernel_file_parts [OF image]
  let ?g = "\<lparr>ps4KernelInternalInitialized = True, ps4KernelElfSymbols = 0xffffffff807000e0, ps4KernelElfStrings = 0xffffffff80700110,
    ps4KernelExecutableAddress = 0xffffffff80800000\<rparr>"
  have "ps4KernelInternalInitialize ?buf ?m kernel_globals_init = Some (m1, ?g)"
    using seek m1(1) t dyn_atD(2) [OF parts(4)] dyn_atD(2) [OF parts(5)] phdr_atD [OF parts(2)]
    by (simp add: ps4KernelInternalInitialize_def elfCreateLocalUnchecked_def kernel_phdr_def)
  moreover have "symbol_table_at m1 0xffffffff807000e0 0xffffffff80700110 [visible_symbol\<lparr>st_value := 0xffffffff80900000\<rparr>] [sysent_name]"
    using parts(7,8) by (simp add: symbol_table_at_def visible_symbol_def)
  from ps4KernelDlSym_loop_find [OF this parts(9), of 0]
  have "ps4KernelDlSym_loop m1 0xffffffff80700110 0xffffffff80700118 0xffffffff807000e0 = Some 0xffffffff80900000"
    by (simp add: sysent_name_simps)
  ultimately have "find_sysent first_kernel = Some (0xffffffff80900000, first_kernel\<lparr>km := m1, kg := ?g\<rparr>)"
    by (simp add: kernel_symbol_def ps4KernelDlSym_def ensure_initialized_def first_kernel_def kernel_globals_init_def ps4KernelIsInKernel_def
        ps4KernelIsKernelAddress_def)
  moreover have "mapped m1 a n" for a n using f(1) mapped_cong_dom [OF m1(2)] by simp
  moreover have "holds_bytes m1 0xa000 (assemble ps4CallbackSyscallPayload)"
    using f(3) by (subst keep) (simp_all add: disjoint_regions_def callback_size)
  ultimately show ?thesis by blast
qed

text \<open>The payload runs in that kernel; the code it installs is then called for a function at \<open>0xffffffff80a00000\<close> that adds its arguments.\<close>

definition sample_args :: "u64 list" where
  "sample_args = [0xffffffff80a00000, 3, 0x5000]"

definition sample_cpu :: cpu where
  "sample_cpu = \<lparr>regs = (\<lambda>r. case r of Rdi \<Rightarrow> 0xffffff8000003000 | Rsi \<Rightarrow> 0xffffff8000002000 | _ \<Rightarrow> 77), zf = False,
     stack = [0xffffffff80712345, 5], sys = first_kernel\<lparr>km := with_argv first_kernel 0xffffff8000002000 sample_args\<rparr>\<rparr>"

definition sample_callee :: callee where
  "sample_callee f a b s = (if f = 0xffffffff80a00000 then Some (\<lambda>_. a + b, s) else None)"

lemma sample_cpu_args:
  "load64 (km (sys sample_cpu)) 0xffffff8000002000 = Some 0xffffffff80a00000"
  "load64 (km (sys sample_cpu)) (0xffffff8000002000 + 8) = Some 3"
  "load64 (km (sys sample_cpu)) (0xffffff8000002000 + 16) = Some 0x5000"
  "mapped (km (sys sample_cpu)) a n"
  using load_argv_patched [of 0 sample_args "km first_kernel" "0xffffff8000002000"] load_argv_patched [of 1 sample_args "km first_kernel" "0xffffff8000002000"] load_argv_patched [of 2 sample_args "km first_kernel" "0xffffff8000002000"]
    mapped_patched [OF first_kernel_parts(1)]
  by (simp_all add: sample_cpu_def sample_args_def)

theorem run_syscall_installed_witness:
  "\<not> ps4KernelInternalInitialized (kg first_kernel) \<and>
   (\<exists>s'. ps4KernelExploitPayloadInstallRunSyscall (\<lambda>_. False) find_sysent sample_copyin 0xffffff8000001000 0xa000
      ps4CallbackSyscallPayloadSize first_kernel = Some (0, s') \<and>
      sysent_at (km s') 0xffffffff80902040 = Some (static_sysent 3 0xffffffff80800000) \<and>
      load_bytes (km s') 0xffffffff80800000 37 = Some (assemble ps4CallbackSyscallPayload)) \<and>
   (\<exists>c'. exec sample_callee ps4CallbackSyscallPayload sample_cpu = Some (0xffffffff80712345, c') \<and>
      regs c' Rax = 0 \<and> stack c' = [5] \<and> load64 (km (sys c')) (0xffffff8000003000 + 0x380) = Some 0x5003)"
proof (intro conjI)
  show "\<not> ps4KernelInternalInitialized (kg first_kernel)" by (simp add: first_kernel_def kernel_globals_init_def)
  from first_lookup obtain m1 g where f: "find_sysent first_kernel = Some (0xffffffff80900000, first_kernel\<lparr>km := m1, kg := g\<rparr>)"
    "ps4KernelInternalInitialized g" "ps4KernelExecutableAddress g = 0xffffffff80800000" "\<forall>a n. mapped m1 a n"
    "holds_bytes m1 0xa000 (assemble ps4CallbackSyscallPayload)" by fastforce
  have "user_bytes m1 0xa000 37 = Some (assemble ps4CallbackSyscallPayload)"
    using f(5) by (simp add: user_bytes_def holds_bytes_def callback_size)
  moreover have "disjoint_regions 0xffffffff80800000 37 0xffffffff80902040 48" by (simp add: disjoint_regions_def)
  moreover have "ps4KernelIsKernelAddress 0xffffffff80800000" by (simp add: ps4KernelIsKernelAddress_def)
  ultimately obtain s' where
    1: "ps4KernelExploitPayloadInstallRunSyscall (\<lambda>_. False) find_sysent sample_copyin 0xffffff8000001000 0xa000
      ps4CallbackSyscallPayloadSize first_kernel = Some (0, s')"
      "sysent_at (km s') 0xffffffff80902040 = Some (static_sysent 3 0xffffffff80800000)"
      "load_bytes (km s') 0xffffffff80800000 37 = Some (assemble ps4CallbackSyscallPayload)" and
    2: "\<forall>call c fn argc argv ra st.
       load64 (km (sys c)) (regs c Rsi) = Some fn \<and> load64 (km (sys c)) (regs c Rsi + 8) = Some argc \<and>
       load64 (km (sys c)) (regs c Rsi + 16) = Some argv \<and> stack c = ra # st \<longrightarrow>
       map_option (\<lambda>(a, c'). (a, regs c' Rax, regs c' R15, stack c', sys c')) (exec call ps4CallbackSyscallPayload c) =
       map_option (\<lambda>s. (ra, 0, regs c R15, st, s)) (callback_effect call (regs c Rdi) fn argc argv (sys c))"
    using run_syscall_installed [where ro = "\<lambda>_. False" and symf = find_sysent and s = first_kernel and addr = "0xffffffff80800000"
        and code = "0xa000" and e = "0xffffffff80902040" and buf = "0xffffff8000001000", OF sample_copies_ok(1) refl _ _ f(1)] f(2-4)
    by (auto simp: first_kernel_def ps4KernelIsInKernel_def ps4KernelIsKernelAddress_def)
  from 1 show "\<exists>s'. ps4KernelExploitPayloadInstallRunSyscall (\<lambda>_. False) find_sysent sample_copyin 0xffffff8000001000 0xa000
      ps4CallbackSyscallPayloadSize first_kernel = Some (0, s') \<and>
      sysent_at (km s') 0xffffffff80902040 = Some (static_sysent 3 0xffffffff80800000) \<and>
      load_bytes (km s') 0xffffffff80800000 37 = Some (assemble ps4CallbackSyscallPayload)" by blast
  have r: "regs sample_cpu Rsi = 0xffffff8000002000" "regs sample_cpu Rdi = 0xffffff8000003000"
    "stack sample_cpu = [0xffffffff80712345, 5]" by (simp_all add: sample_cpu_def)
  obtain m where m: "store64 (km (sys sample_cpu)) (0xffffff8000003000 + 0x380) 0x5003 = Some m"
    using sample_cpu_args(4) store64_mapped by blast
  have "callback_effect sample_callee 0xffffff8000003000 0xffffffff80a00000 3 0x5000 (sys sample_cpu) = Some ((sys sample_cpu)\<lparr>km := m\<rparr>)"
    using m by (simp add: callback_effect_def sample_callee_def)
  with 2 [rule_format, of sample_cpu "0xffffffff80a00000" 3 "0x5000" "0xffffffff80712345" "[5]" sample_callee] sample_cpu_args(1-3) r
  show "\<exists>c'. exec sample_callee ps4CallbackSyscallPayload sample_cpu = Some (0xffffffff80712345, c') \<and>
      regs c' Rax = 0 \<and> stack c' = [5] \<and> load64 (km (sys c')) (0xffffff8000003000 + 0x380) = Some 0x5003"
    using load64_store64_same [OF m] by auto
qed

end
