(* ===== verification/Prison_Tree.thy ===== *)
theory Prison_Tree
  imports Sys_Queue Sys_Locks
begin

text \<open>
  The loops of \<open>include/sys/jail.h\<close> over the descendants of a prison.  Prisons form a tree: the children of
  one are a \<open>LIST\<close> with the prison as its head, linked by \<open>pr_sibling\<close>, and each points to its parent.  The loops visit the
  tree without a stack; the variable \<open>descend\<close> says whether the next step may go down.  The body of a loop may
  clear it and so skip what is below the prison it is at.  Two of the loops hold the mutexes of the prisons on the way.

  The links are a \<open>qheap\<close> in which a prison is both the head of the list of its children and an element of the list of its
  parent's children.
\<close>

section \<open>The loops\<close>

record prisons =
  pr_links :: qheap
  pr_parent :: "ptr \<Rightarrow> ptr"

type_synonym mutexes = "ptr \<Rightarrow> mtx"

text \<open>The slow paths of the mutexes, and the thread.\<close>

record prison_ext =
  pr_lock_sleep :: "mtx \<Rightarrow> u64 \<Rightarrow> u32 \<Rightarrow> mtx"
  pr_unlock_sleep :: "mtx \<Rightarrow> u32 \<Rightarrow> mtx"
  pr_curthread :: u64

definition prison_lock :: "prison_ext \<Rightarrow> ptr \<Rightarrow> mutexes \<Rightarrow> mutexes" where
  "prison_lock X pr L = L(pr := mtx_lock_fast (pr_lock_sleep X) (pr_curthread X) 0 (L pr))"

definition prison_unlock :: "prison_ext \<Rightarrow> ptr \<Rightarrow> mutexes \<Rightarrow> mutexes" where
  "prison_unlock X pr L = L(pr := mtx_unlock_fast (pr_unlock_sleep X) (pr_curthread X) 0 (L pr))"

definition FOREACH_PRISON_CHILD :: "prisons \<Rightarrow> ptr \<Rightarrow> ptr list option" where
  "FOREACH_PRISON_CHILD P ppr = LIST_FOREACH (pr_links P) ppr"

definition rd_parent :: "prisons \<Rightarrow> ptr \<Rightarrow> ptr option" where
  "rd_parent P pr = (if pr = NULL then None else Some (pr_parent P pr))"

text \<open>The condition of the first loop: the next prison and the new \<open>descend\<close>.\<close>

definition descendant_next :: "prisons \<Rightarrow> ptr \<Rightarrow> ptr \<Rightarrow> bool \<Rightarrow> (ptr \<times> bool) option" where
  "descendant_next P ppr cpr descend = do {
     e \<leftarrow> (if descend then LIST_EMPTY (pr_links P) cpr else Some True);
     if descend \<and> \<not> e then do { f \<leftarrow> LIST_FIRST (pr_links P) cpr; Some (f, descend) }
     else if cpr = ppr then Some (NULL, descend)
     else do {
       n \<leftarrow> LIST_NEXT (pr_links P) cpr;
       let descend = (n \<noteq> NULL);
       if descend then do { n \<leftarrow> LIST_NEXT (pr_links P) cpr; Some (n, descend) }
       else do { p \<leftarrow> rd_parent P cpr; Some (p, descend) } } }"

partial_function (option) descendant_loop ::
  "prisons \<Rightarrow> (ptr \<Rightarrow> 'w \<Rightarrow> bool \<times> 'w) \<Rightarrow> ptr \<Rightarrow> ptr \<Rightarrow> bool \<Rightarrow> 'w \<Rightarrow> 'w option" where
  "descendant_loop P body ppr cpr descend w = do {
     (cpr, descend) \<leftarrow> descendant_next P ppr cpr descend;
     if cpr = NULL then Some w
     else if \<not> descend then descendant_loop P body ppr cpr descend w
     else case body cpr w of (descend, w) \<Rightarrow> descendant_loop P body ppr cpr descend w }"

definition FOREACH_PRISON_DESCENDANT :: "prisons \<Rightarrow> ptr \<Rightarrow> (ptr \<Rightarrow> 'w \<Rightarrow> bool \<times> 'w) \<Rightarrow> 'w \<Rightarrow> 'w option" where
  "FOREACH_PRISON_DESCENDANT P ppr body w = descendant_loop P body ppr ppr True w"

text \<open>With the mutexes.\<close>

definition locked_next :: "prison_ext \<Rightarrow> prisons \<Rightarrow> ptr \<Rightarrow> ptr \<Rightarrow> bool \<Rightarrow> mutexes \<Rightarrow> (ptr \<times> bool \<times> mutexes) option" where
  "locked_next X P ppr cpr descend L = do {
     e \<leftarrow> (if descend then LIST_EMPTY (pr_links P) cpr else Some True);
     if descend \<and> \<not> e then do { f \<leftarrow> LIST_FIRST (pr_links P) cpr; Some (f, descend, L) }
     else if cpr = ppr then Some (NULL, descend, L)
     else do {
       let L = prison_unlock X cpr L;
       n \<leftarrow> LIST_NEXT (pr_links P) cpr;
       let descend = (n \<noteq> NULL);
       if descend then do { n \<leftarrow> LIST_NEXT (pr_links P) cpr; Some (n, descend, L) }
       else do { p \<leftarrow> rd_parent P cpr; Some (p, descend, L) } } }"

partial_function (option) locked_loop ::
  "prison_ext \<Rightarrow> prisons \<Rightarrow> (ptr \<Rightarrow> mutexes \<times> 'w \<Rightarrow> bool \<times> 'w) \<Rightarrow> ptr \<Rightarrow> ptr \<Rightarrow> bool \<Rightarrow> mutexes \<times> 'w \<Rightarrow> (mutexes \<times> 'w) option" where
  "locked_loop X P body ppr cpr descend s = (case s of (L, w) \<Rightarrow> do {
     (cpr, descend, L) \<leftarrow> locked_next X P ppr cpr descend L;
     if cpr = NULL then Some (L, w)
     else if \<not> descend then locked_loop X P body ppr cpr descend (L, w)
     else let L = prison_lock X cpr L in
       case body cpr (L, w) of (descend, w) \<Rightarrow> locked_loop X P body ppr cpr descend (L, w) })"

definition FOREACH_PRISON_DESCENDANT_LOCKED ::
  "prison_ext \<Rightarrow> prisons \<Rightarrow> ptr \<Rightarrow> (ptr \<Rightarrow> mutexes \<times> 'w \<Rightarrow> bool \<times> 'w) \<Rightarrow> mutexes \<times> 'w \<Rightarrow> (mutexes \<times> 'w) option" where
  "FOREACH_PRISON_DESCENDANT_LOCKED X P ppr body s = locked_loop X P body ppr ppr True s"

text \<open>With the mutexes and the level.  The level is a C \<open>int\<close>; it counts the prisons between the root and the
  current one, far fewer than its range, since the prisons of a system are limited to \<open>JAIL_MAX\<close> = 999999.\<close>

definition level_next ::
  "prison_ext \<Rightarrow> prisons \<Rightarrow> ptr \<Rightarrow> ptr \<Rightarrow> bool \<Rightarrow> mutexes \<Rightarrow> int \<Rightarrow> (ptr \<times> bool \<times> mutexes \<times> int) option" where
  "level_next X P ppr cpr descend L level = do {
     e \<leftarrow> (if descend then LIST_EMPTY (pr_links P) cpr else Some True);
     if descend \<and> \<not> e then do { f \<leftarrow> LIST_FIRST (pr_links P) cpr; Some (f, descend, L, level + 1) }
     else if cpr = ppr then Some (NULL, descend, L, level)
     else do {
       let L = prison_unlock X cpr L;
       n \<leftarrow> LIST_NEXT (pr_links P) cpr;
       let descend = (n \<noteq> NULL);
       if descend then do { n \<leftarrow> LIST_NEXT (pr_links P) cpr; Some (n, descend, L, level) }
       else do { p \<leftarrow> rd_parent P cpr; Some (p, descend, L, level - 1) } } }"

partial_function (option) level_loop ::
  "prison_ext \<Rightarrow> prisons \<Rightarrow> (ptr \<Rightarrow> mutexes \<times> int \<times> 'w \<Rightarrow> bool \<times> 'w) \<Rightarrow> ptr \<Rightarrow> ptr \<Rightarrow> bool \<Rightarrow>
     mutexes \<times> int \<times> 'w \<Rightarrow> (mutexes \<times> int \<times> 'w) option" where
  "level_loop X P body ppr cpr descend s = (case s of (L, level, w) \<Rightarrow> do {
     (cpr, descend, L, level) \<leftarrow> level_next X P ppr cpr descend L level;
     if cpr = NULL then Some (L, level, w)
     else if \<not> descend then level_loop X P body ppr cpr descend (L, level, w)
     else let L = prison_lock X cpr L in
       case body cpr (L, level, w) of (descend, w) \<Rightarrow> level_loop X P body ppr cpr descend (L, level, w) })"

definition FOREACH_PRISON_DESCENDANT_LOCKED_LEVEL ::
  "prison_ext \<Rightarrow> prisons \<Rightarrow> ptr \<Rightarrow> (ptr \<Rightarrow> mutexes \<times> int \<times> 'w \<Rightarrow> bool \<times> 'w) \<Rightarrow> mutexes \<times> 'w \<Rightarrow> (mutexes \<times> int \<times> 'w) option" where
  "FOREACH_PRISON_DESCENDANT_LOCKED_LEVEL X P ppr body = (\<lambda>(L, w). level_loop X P body ppr ppr True (L, 0, w))"

section \<open>Trees of prisons\<close>

datatype prison_tree = Prison (root: ptr) (children: "prison_tree list")

fun prisons_of :: "prison_tree \<Rightarrow> ptr list" where
  "prisons_of (Prison p ts) = p # concat (map prisons_of ts)"

text \<open>The tree \<open>t\<close> is in memory.\<close>

fun tree_at :: "prisons \<Rightarrow> prison_tree \<Rightarrow> bool" where
  "tree_at P (Prison p ts) \<longleftrightarrow> llist (pr_links P) p (map root ts) \<and> (\<forall>t\<in>set ts. pr_parent P (root t) = p \<and> tree_at P t)"

text \<open>The recursive walk: on the way into the list of children (\<open>down\<close>), before a prison (\<open>enter\<close>), after it (\<open>leave\<close>) and
  on the way back to its parent (\<open>up\<close>) the state may change.\<close>

fun walk :: "('s \<Rightarrow> 's) \<Rightarrow> ('s \<Rightarrow> 's) \<Rightarrow> (ptr \<Rightarrow> 's \<Rightarrow> 's) \<Rightarrow> (ptr \<Rightarrow> 's \<Rightarrow> 's) \<Rightarrow> (ptr \<Rightarrow> 's \<Rightarrow> bool \<times> 's) \<Rightarrow> prison_tree \<Rightarrow> 's \<Rightarrow> 's" where
  "walk down up enter leave body (Prison p ts) s =
     (case body p (enter p s) of (d, s) \<Rightarrow>
        leave p (if d \<and> ts \<noteq> [] then up (fold (walk down up enter leave body) ts (down s)) else s))"

text \<open>What the three loops have in common.\<close>

locale prison_loop =
  fixes P :: prisons and ppr :: ptr
    and loop :: "ptr \<Rightarrow> bool \<Rightarrow> 's \<Rightarrow> 's option"
    and down up :: "'s \<Rightarrow> 's" and enter leave :: "ptr \<Rightarrow> 's \<Rightarrow> 's"
    and body :: "ptr \<Rightarrow> 's \<Rightarrow> bool \<times> 's"
  assumes loop_down: "cpr \<noteq> NULL \<Longrightarrow> q_first (pr_links P) cpr \<noteq> NULL \<Longrightarrow>
      loop cpr True s = (case body (q_first (pr_links P) cpr) (enter (q_first (pr_links P) cpr) (down s)) of
        (d, s) \<Rightarrow> loop (q_first (pr_links P) cpr) d s)"
    and loop_leaf: "cpr \<noteq> NULL \<Longrightarrow> q_first (pr_links P) cpr = NULL \<Longrightarrow> loop cpr True s = loop cpr False s"
    and loop_end: "loop ppr False s = Some s"
    and loop_next: "cpr \<noteq> NULL \<Longrightarrow> cpr \<noteq> ppr \<Longrightarrow> q_next (pr_links P) cpr \<noteq> NULL \<Longrightarrow>
      loop cpr False s = (case body (q_next (pr_links P) cpr) (enter (q_next (pr_links P) cpr) (leave cpr s)) of
        (d, s) \<Rightarrow> loop (q_next (pr_links P) cpr) d s)"
    and loop_up: "cpr \<noteq> NULL \<Longrightarrow> cpr \<noteq> ppr \<Longrightarrow> q_next (pr_links P) cpr = NULL \<Longrightarrow> pr_parent P cpr \<noteq> NULL \<Longrightarrow>
      loop cpr False s = loop (pr_parent P cpr) False (up (leave cpr s))"
begin

definition visit :: "ptr \<Rightarrow> 's \<Rightarrow> 's option" where
  "visit p s = (case body p (enter p s) of (d, s) \<Rightarrow> loop p d s)"

lemma visit_siblings:
  assumes "\<And>t d s. t \<in> set ts \<Longrightarrow> loop (root t) d s =
      loop (root t) False (if d \<and> children t \<noteq> [] then up (fold (walk down up enter leave body) (children t) (down s)) else s)"
    and "ts \<noteq> []" and "chain (q_next (pr_links P)) (root (hd ts)) (map root ts) NULL"
    and "\<forall>t\<in>set ts. pr_parent P (root t) = p \<and> root t \<noteq> ppr" and "p \<noteq> NULL"
  shows "visit (root (hd ts)) s = loop p False (up (fold (walk down up enter leave body) ts s))"
  using assms
proof (induction ts arbitrary: s)
  case (Cons t ts)
  obtain c cs where t: "t = Prison c cs" by (cases t)
  obtain d s1 where b: "body c (enter c s) = (d, s1)" by (cases "body c (enter c s)")
  let ?s2 = "if d \<and> cs \<noteq> [] then up (fold (walk down up enter leave body) cs (down s1)) else s1"
  have w: "walk down up enter leave body t s = leave c ?s2" using t b by simp
  have v: "visit c s = loop c False ?s2" using Cons.prems(1) [of t d s1] t b by (simp add: visit_def)
  have c: "c \<noteq> NULL" "c \<noteq> ppr" "pr_parent P c = p" using Cons.prems t by auto
  show ?case
  proof (cases ts)
    case Nil
    then have "q_next (pr_links P) c = NULL" using Cons.prems(3) t by simp
    then show ?thesis using v w t Nil loop_up [OF c(1,2)] c(3) Cons.prems(5) by simp
  next
    case us: (Cons u us)
    then have n: "q_next (pr_links P) c = root u" "root u \<noteq> NULL" using Cons.prems(3) t by auto
    have "visit (root (hd ts)) (leave c ?s2) = loop p False (up (fold (walk down up enter leave body) ts (leave c ?s2)))"
    proof (rule Cons.IH)
      show "loop (root t) d s = loop (root t) False
          (if d \<and> children t \<noteq> [] then up (fold (walk down up enter leave body) (children t) (down s)) else s)"
        if "t \<in> set ts" for t d s using that by (intro Cons.prems(1)) simp
      show "chain (q_next (pr_links P)) (root (hd ts)) (map root ts) NULL" using Cons.prems(3) us t n by simp
    qed (use Cons.prems(4,5) us in simp_all)
    then show ?thesis using v w t n us loop_next [OF c(1,2)] by (simp add: visit_def)
  qed
qed simp

lemma loop_subtree:
  "tree_at P t \<Longrightarrow> ppr \<notin> set (concat (map prisons_of (children t))) \<Longrightarrow> loop (root t) d s =
     loop (root t) False (if d \<and> children t \<noteq> [] then up (fold (walk down up enter leave body) (children t) (down s)) else s)"
proof (induction t arbitrary: d s)
  case (Prison p ts)
  have list: "p \<noteq> NULL" "chain (q_next (pr_links P)) (q_first (pr_links P) p) (map root ts) NULL"
    using Prison.prems(1) by (auto simp: llist_def slist_def)
  have sub: "loop (root t) d s = loop (root t) False
      (if d \<and> children t \<noteq> [] then up (fold (walk down up enter leave body) (children t) (down s)) else s)"
    if "t \<in> set ts" for t d s
  proof (rule Prison.IH [OF that])
    show "tree_at P t" using that Prison.prems(1) by simp
    have "set (concat (map prisons_of (children t))) \<subseteq> set (prisons_of t)" by (cases t) auto
    then show "ppr \<notin> set (concat (map prisons_of (children t)))" using that Prison.prems(2) by auto
  qed
  show ?case
  proof (cases ts)
    case Nil
    with list loop_leaf [of p s] show ?thesis by (cases d) auto
  next
    case (Cons t us)
    then have first: "q_first (pr_links P) p = root (hd ts)" "root (hd ts) \<noteq> NULL" using list(2) by auto
    have "root u \<in> set (prisons_of u)" for u by (cases u) simp
    then have "\<forall>t\<in>set ts. pr_parent P (root t) = p \<and> root t \<noteq> ppr" using Prison.prems by fastforce
    then have "visit (root (hd ts)) (down s) = loop p False (up (fold (walk down up enter leave body) ts (down s)))"
      using Cons list first by (intro visit_siblings sub) auto
    then show ?thesis using Cons first list(1) loop_down [of p s] by (cases d) (simp_all add: visit_def)
  qed
qed

lemma loop_tree:
  assumes "tree_at P t" and "root t = ppr" and "ppr \<notin> set (concat (map prisons_of (children t)))"
  shows "loop ppr True s =
    Some (if children t \<noteq> [] then up (fold (walk down up enter leave body) (children t) (down s)) else s)"
  using loop_subtree [OF assms(1,3), of True s] assms(2) by (simp add: loop_end)

end

section \<open>The three loops are such loops\<close>

lemma links_simps:
  "cpr \<noteq> NULL \<Longrightarrow> LIST_EMPTY H cpr = Some (q_first H cpr = NULL)" "cpr \<noteq> NULL \<Longrightarrow> LIST_FIRST H cpr = Some (q_first H cpr)"
  "cpr \<noteq> NULL \<Longrightarrow> LIST_NEXT H cpr = Some (q_next H cpr)" "cpr \<noteq> NULL \<Longrightarrow> rd_parent P cpr = Some (pr_parent P cpr)"
  by (simp_all add: LIST_EMPTY_def LIST_FIRST_def LIST_NEXT_def link_defs rd_parent_def)

text \<open>What the loops do to the mutexes and the level.\<close>

definition lock_step :: "prison_ext \<Rightarrow> ptr \<Rightarrow> mutexes \<times> 'w \<Rightarrow> mutexes \<times> 'w" where
  "lock_step X p s = (prison_lock X p (fst s), snd s)"

definition unlock_step :: "prison_ext \<Rightarrow> ptr \<Rightarrow> mutexes \<times> 'w \<Rightarrow> mutexes \<times> 'w" where
  "unlock_step X p s = (prison_unlock X p (fst s), snd s)"

definition level_down :: "mutexes \<times> int \<times> 'w \<Rightarrow> mutexes \<times> int \<times> 'w" where
  "level_down = (\<lambda>(L, l, w). (L, l + 1, w))"

definition level_up :: "mutexes \<times> int \<times> 'w \<Rightarrow> mutexes \<times> int \<times> 'w" where
  "level_up = (\<lambda>(L, l, w). (L, l - 1, w))"

lemmas step_defs = lock_step_def unlock_step_def level_down_def level_up_def

lemma step_simps:
  "lock_step X p (L, w) = (prison_lock X p L, w)" "unlock_step X p (L, w) = (prison_unlock X p L, w)"
  "level_down (L, l, v) = (L, l + 1, v)" "level_up (L, l, v) = (L, l - 1, v)"
  by (simp_all add: step_defs)

interpretation plain: prison_loop P ppr "descendant_loop P body ppr" "\<lambda>s. s" "\<lambda>s. s" "\<lambda>_ s. s" "\<lambda>_ s. s" body
  for P :: prisons and ppr :: ptr and body :: "ptr \<Rightarrow> 'w \<Rightarrow> bool \<times> 'w"
proof (unfold_locales, goal_cases)
  case (2 cpr s)
  then show ?case by (subst (1 2) descendant_loop.simps) (simp add: descendant_next_def links_simps)
qed (subst descendant_loop.simps, simp add: descendant_next_def links_simps split: prod.split)+

interpretation locked: prison_loop P ppr "locked_loop X P body ppr" "\<lambda>s. s" "\<lambda>s. s" "lock_step X"
    "unlock_step X" "\<lambda>p s. (fst (body p s), fst s, snd (body p s))"
  for X :: prison_ext and P :: prisons and ppr :: ptr and body :: "ptr \<Rightarrow> mutexes \<times> 'w \<Rightarrow> bool \<times> 'w"
proof (unfold_locales, goal_cases)
  case (2 cpr s)
  then show ?case by (subst (1 2) locked_loop.simps) (simp add: locked_next_def links_simps step_defs split: prod.split)
qed (subst locked_loop.simps, simp add: locked_next_def links_simps step_defs Let_def split: prod.split)+

interpretation level: prison_loop P ppr "level_loop X P body ppr" level_down level_up
    "lock_step X" "unlock_step X"
    "\<lambda>p s. (fst (body p s), fst s, fst (snd s), snd (body p s))"
  for X :: prison_ext and P :: prisons and ppr :: ptr and body :: "ptr \<Rightarrow> mutexes \<times> int \<times> 'w \<Rightarrow> bool \<times> 'w"
proof (unfold_locales, goal_cases)
  case (2 cpr s)
  then show ?case by (subst (1 2) level_loop.simps) (simp add: level_next_def links_simps step_defs split: prod.split)
qed (subst level_loop.simps, simp add: level_next_def links_simps step_defs Let_def split: prod.split)+

section \<open>Visits\<close>

text \<open>The specification of the first loop: the tree in preorder, without what is below a prison where the body clears
  \<open>descend\<close>.\<close>

fun visits :: "(ptr \<Rightarrow> 'w \<Rightarrow> bool \<times> 'w) \<Rightarrow> prison_tree \<Rightarrow> 'w \<Rightarrow> 'w" where
  "visits body (Prison p ts) w = (case body p w of (d, w) \<Rightarrow> if d then fold (visits body) ts w else w)"

lemma fold_cong_set: "(\<And>t s. t \<in> set ts \<Longrightarrow> f t s = g t s) \<Longrightarrow> fold f ts s = fold g ts s"
  by (rule fold_cong) (auto simp: fun_eq_iff)

lemma walk_visits: "walk (\<lambda>s. s) (\<lambda>s. s) (\<lambda>_ s. s) (\<lambda>_ s. s) body t w = visits body t w"
proof (induction t arbitrary: w)
  case (Prison p ts)
  then show ?case using fold_cong_set [of ts "walk (\<lambda>s. s) (\<lambda>s. s) (\<lambda>_ s. s) (\<lambda>_ s. s) body" "visits body"]
    by (auto split: prod.split)
qed

text \<open>The specification of the loops that lock: a visit knows the prisons between \<open>ppr\<close> and the one it is at.\<close>

fun preorder :: "(ptr \<Rightarrow> bool) \<Rightarrow> ptr list \<Rightarrow> prison_tree \<Rightarrow> (ptr \<times> ptr set \<times> int) list" where
  "preorder dec path (Prison p ts) =
     (p, set (p # path), int (length path) + 1) # (if dec p then concat (map (preorder dec (p # path)) ts) else [])"

text \<open>A body that notes the prison, the mutexes of \<open>N\<close> that the thread has, and the level.\<close>

definition noting :: "u64 \<Rightarrow> ptr set \<Rightarrow> (ptr \<Rightarrow> bool) \<Rightarrow> ptr \<Rightarrow> mutexes \<times> int \<times> (ptr \<times> ptr set \<times> int) list \<Rightarrow> bool \<times> (ptr \<times> ptr set \<times> int) list" where
  "noting tid N dec p = (\<lambda>(L, l, vs). (dec p, vs @ [(p, {q \<in> N. mtx_owned tid (L q)}, l)]))"

definition holding :: "u64 \<Rightarrow> ptr set \<Rightarrow> ptr list \<Rightarrow> mutexes \<Rightarrow> bool" where
  "holding tid N path L \<longleftrightarrow> set path \<subseteq> N \<and> (\<forall>q\<in>N. (mtx_owned tid (L q) \<longleftrightarrow> q \<in> set path) \<and> \<not> mtx_recursed (L q))"

lemma holding_steps:
  assumes "thread_ptr (pr_curthread X)" and "mtx_slow_ok (pr_lock_sleep X) (pr_unlock_sleep X) (pr_curthread X)"
    and "p \<in> N" and "p \<notin> set path"
  shows "holding (pr_curthread X) N path L \<Longrightarrow> holding (pr_curthread X) N (p # path) (prison_lock X p L)"
    and "holding (pr_curthread X) N (p # path) L \<Longrightarrow> holding (pr_curthread X) N path (prison_unlock X p L)"
  using assms mtx_fast_owned [OF assms(1,2), of "L p"]
  by (auto simp: holding_def prison_lock_def prison_unlock_def)

abbreviation (input) level_walk :: "prison_ext \<Rightarrow> (ptr \<Rightarrow> mutexes \<times> int \<times> 'w \<Rightarrow> bool \<times> 'w) \<Rightarrow> prison_tree \<Rightarrow> mutexes \<times> int \<times> 'w \<Rightarrow> mutexes \<times> int \<times> 'w" where
  "level_walk X body \<equiv> walk level_down level_up (lock_step X) (unlock_step X) (\<lambda>p s. (fst (body p s), fst s, fst (snd s), snd (body p s)))"

lemma level_walk_notes:
  assumes "thread_ptr (pr_curthread X)" and "mtx_slow_ok (pr_lock_sleep X) (pr_unlock_sleep X) (pr_curthread X)"
  defines "tid \<equiv> pr_curthread X"
  shows "set (prisons_of t) \<subseteq> N \<Longrightarrow> distinct (prisons_of t) \<Longrightarrow> set path \<inter> set (prisons_of t) = {} \<Longrightarrow> holding tid N path L \<Longrightarrow>
    \<exists>L'. level_walk X (noting tid N dec) t (L, int (length path) + 1, vs) = (L', int (length path) + 1, vs @ preorder dec path t) \<and>
      holding tid N path L'"
proof (induction t arbitrary: path L vs)
  case (Prison p ts)
  let ?L = "prison_lock X p L"
  let ?v = "vs @ [(p, set (p # path), int (length path) + 1)]"
  have p: "p \<in> N" "p \<notin> set path" using Prison.prems by auto
  have hold: "holding tid N (p # path) ?L" using holding_steps(1) [OF assms(1,2) p] Prison.prems(4) by (simp add: tid_def)
  then have "{q \<in> N. mtx_owned tid (?L q)} = set (p # path)" unfolding holding_def by blast
  then have b: "noting tid N dec p (?L, int (length path) + 1, vs) = (dec p, ?v)" by (simp add: noting_def)
  have kids: "\<exists>L'. fold (level_walk X (noting tid N dec)) us (K, 2 + int (length path), v) =
        (L', 2 + int (length path), v @ concat (map (preorder dec (p # path)) us)) \<and> holding tid N (p # path) L'"
    if "set us \<subseteq> set ts" "holding tid N (p # path) K" for us K v
    using that
  proof (induction us arbitrary: K v)
    case (Cons u us)
    have u: "u \<in> set ts" using Cons.prems by simp
    have "distinct (concat (map prisons_of ts))" using Prison.prems(2) by simp
    then have "distinct (prisons_of u)" using u by (simp add: distinct_concat_iff)
    moreover have "set (prisons_of u) \<subseteq> N" "set (p # path) \<inter> set (prisons_of u) = {}" using u Prison.prems(1-3) by auto
    ultimately obtain K' where "level_walk X (noting tid N dec) u (K, 2 + int (length path), v) =
        (K', 2 + int (length path), v @ preorder dec (p # path) u)" "holding tid N (p # path) K'"
      using Prison.IH [OF u, of "p # path" K v] Cons.prems(2) by (auto simp: add.commute add.left_commute)
    with Cons.IH [of K' "v @ preorder dec (p # path) u"] Cons.prems(1) show ?case by auto
  qed simp
  obtain L' where L': "(if dec p \<and> ts \<noteq> [] then level_up (fold (level_walk X (noting tid N dec)) ts (?L, 2 + int (length path), ?v))
      else (?L, int (length path) + 1, ?v)) =
      (L', int (length path) + 1, ?v @ (if dec p then concat (map (preorder dec (p # path)) ts) else []))"
    "holding tid N (p # path) L'"
    using kids [OF order_refl hold, of ?v] hold by (cases "dec p \<and> ts \<noteq> []") (auto simp: level_up_def)
  have "holding tid N path (prison_unlock X p L')" using holding_steps(2) [OF assms(1,2) p] L'(2) by (simp add: tid_def)
  moreover have "level_walk X (noting tid N dec) (Prison p ts) (L, int (length path) + 1, vs) =
      (prison_unlock X p L', int (length path) + 1, vs @ preorder dec path (Prison p ts))"
    using L'(1) b by (cases "dec p \<and> ts \<noteq> []") (auto simp: step_simps)
  ultimately show ?case by blast
qed


text \<open>A walk on less of the state.\<close>

lemma walk_map:
  assumes "\<And>s. f (down s) = down' (f s)" and "\<And>s. f (up s) = up' (f s)" and "\<And>p s. f (enter p s) = enter' p (f s)"
    and "\<And>p s. f (leave p s) = leave' p (f s)" and "\<And>p s. body' p (f s) = map_prod id f (body p s)"
  shows "walk down' up' enter' leave' body' t (f s) = f (walk down up enter leave body t s)"
proof (induction t arbitrary: s)
  case (Prison p ts)
  have "fold (walk down' up' enter' leave' body') us (f s) = f (fold (walk down up enter leave body) us s)"
    if "set us \<subseteq> set ts" for us s
    using that Prison.IH by (induction us arbitrary: s) auto
  then show ?case using assms(1-4) assms(5) [of p "enter p s"]
    by (auto simp flip: assms(1-4) split: prod.splits)
qed

section \<open>Properties\<close>

lemma prisons_of_children: "set (concat (map prisons_of (children t))) = set (tl (prisons_of t))" "hd (prisons_of t) = root t"
  by (cases t, simp)+

lemma root_not_below: "distinct (prisons_of t) \<Longrightarrow> root t \<notin> set (concat (map prisons_of (children t)))"
  by (cases t) auto

lemma visits_list: "visits (\<lambda>p vs. (True, vs @ [p])) t vs = vs @ prisons_of t"
proof (induction t arbitrary: vs)
  case (Prison p ts)
  have "fold (visits (\<lambda>p vs. (True, vs @ [p]))) us vs = vs @ concat (map prisons_of us)" if "set us \<subseteq> set ts" for us vs
    using that Prison.IH by (induction us arbitrary: vs) auto
  then show ?case by simp
qed

text \<open>C16 The loop over the descendants of a prison ends and visits the tree below it in preorder, each prison once and none
  of those below a prison at which the body clears \<open>descend\<close>, whatever the body does to the rest of the state; a body that
  only collects gets all descendants.\<close>

theorem prison_descendants_visited:
  assumes "tree_at P t" and "distinct (prisons_of t)"
  shows "FOREACH_PRISON_DESCENDANT P (root t) body w = Some (fold (visits body) (children t) w) \<and>
    FOREACH_PRISON_DESCENDANT P (root t) (\<lambda>p vs. (True, vs @ [p])) [] = Some (tl (prisons_of t))"
proof -
  have loop: "FOREACH_PRISON_DESCENDANT P (root t) body w = Some (fold (visits body) (children t) w)" for body :: "ptr \<Rightarrow> 'x \<Rightarrow> bool \<times> 'x" and w
    using plain.loop_tree [OF assms(1) refl root_not_below [OF assms(2)], of body w]
      fold_cong_set [of "children t" "walk (\<lambda>s. s) (\<lambda>s. s) (\<lambda>_ s. s) (\<lambda>_ s. s) body" "visits body"]
    by (simp add: FOREACH_PRISON_DESCENDANT_def walk_visits)
  have "fold (visits (\<lambda>p vs. (True, vs @ [p]))) us vs = vs @ concat (map prisons_of us)" for us vs
    by (induction us arbitrary: vs) (simp_all add: visits_list)
  then have "fold (visits (\<lambda>p vs. (True, vs @ [p]))) (children t) [] = tl (prisons_of t)" by (cases t) simp
  then show ?thesis by (simp add: loop)
qed

text \<open>C17 The locking loops: when the thread has none of the mutexes at first, it has at each visit exactly those of the prisons
  from below \<open>ppr\<close> down to the one it visits, the level is the number of these, the order is preorder, and at the end it
  has none and the level is zero.  The body may skip what is below a prison.\<close>

theorem prison_descendants_locked:
  assumes "tree_at P t" and "distinct (prisons_of t)" and "N = set (prisons_of t)" and "tid = pr_curthread X"
    and "thread_ptr tid" and "mtx_slow_ok (pr_lock_sleep X) (pr_unlock_sleep X) tid" and "holding tid N [] L"
  shows "\<exists>L'. FOREACH_PRISON_DESCENDANT_LOCKED_LEVEL X P (root t) (noting tid N dec) (L, []) =
      Some (L', 0, concat (map (preorder dec []) (children t))) \<and> holding tid N [] L' \<and>
    FOREACH_PRISON_DESCENDANT_LOCKED X P (root t) (\<lambda>p (L, vs). (dec p, vs @ [(p, {q \<in> N. mtx_owned tid (L q)})])) (L, []) =
      Some (L', map (\<lambda>(p, held, level). (p, held)) (concat (map (preorder dec []) (children t))))"
proof -
  let ?n = "noting tid N dec"
  have below: "set (prisons_of u) \<subseteq> N" "distinct (prisons_of u)" if "u \<in> set (children t)" for u
    using that assms(2,3) by (cases t, force simp: distinct_concat_iff)+
  have "\<exists>L'. fold (level_walk X ?n) us (K, 1, vs) = (L', 1, vs @ concat (map (preorder dec []) us)) \<and> holding tid N [] L'"
    if "set us \<subseteq> set (children t)" "holding tid N [] K" for us K vs
    using that
  proof (induction us arbitrary: K vs)
    case (Cons u us)
    have u: "u \<in> set (children t)" using Cons.prems by simp
    obtain K' where "level_walk X ?n u (K, 1, vs) = (K', 1, vs @ preorder dec [] u)" "holding tid N [] K'"
      using level_walk_notes [of X u N "[]" K dec vs] below [OF u] assms(4-6) Cons.prems(2) by auto
    with Cons.IH [of K' "vs @ preorder dec [] u"] Cons.prems(1) show ?case by auto
  qed simp
  from this [OF order_refl assms(7), of "[]"] obtain L' where
    L': "fold (level_walk X ?n) (children t) (L, 1, []) = (L', 1, concat (map (preorder dec []) (children t)))" "holding tid N [] L'"
    by auto
  define L2 where "L2 = (if children t = [] then L else L')"
  let ?f = "\<lambda>(L, l, vs). (L :: mutexes, map (\<lambda>(p, held, level :: int). (p :: ptr, held :: ptr set)) vs)"
  let ?b = "\<lambda>p (L, vs). (dec p, vs @ [(p, {q \<in> N. mtx_owned tid (L q)})])"
  have lev: "FOREACH_PRISON_DESCENDANT_LOCKED_LEVEL X P (root t) ?n (L, []) = Some (L2, 0, concat (map (preorder dec []) (children t)))"
    using level.loop_tree [OF assms(1) refl root_not_below [OF assms(2)], of X ?n "(L, 0, [])"] L'(1)
    by (auto simp: FOREACH_PRISON_DESCENDANT_LOCKED_LEVEL_def step_simps L2_def)
  have one: "walk (\<lambda>s. s) (\<lambda>s. s) (lock_step X) (unlock_step X) (\<lambda>p s. (fst (?b p s), fst s, snd (?b p s))) u (?f s) = ?f (level_walk X ?n u s)" for u s
    by (rule walk_map) (auto simp: step_defs noting_def)
  have "fold (walk (\<lambda>s. s) (\<lambda>s. s) (lock_step X) (unlock_step X) (\<lambda>p s. (fst (?b p s), fst s, snd (?b p s)))) us (?f s) = ?f (fold (level_walk X ?n) us s)" for us s
    by (induction us arbitrary: s) (simp_all only: fold_simps one)
  from this [of "children t" "(L, 1, [])"] L'(1)
  have "FOREACH_PRISON_DESCENDANT_LOCKED X P (root t) ?b (L, []) =
      Some (L2, map (\<lambda>(p, held, level). (p, held)) (concat (map (preorder dec []) (children t))))"
    using locked.loop_tree [OF assms(1) refl root_not_below [OF assms(2)], of X ?b "(L, [])"]
    by (auto simp: FOREACH_PRISON_DESCENDANT_LOCKED_def L2_def)
  moreover have "holding tid N [] L2" using L'(2) assms(7) by (simp add: L2_def)
  ultimately show ?thesis using lev by blast
qed

section \<open>Witnesses\<close>

text \<open>A prison with two children, the first of which has a child.\<close>

definition sample_tree :: prison_tree where
  "sample_tree = Prison 0x100 [Prison 0x200 [Prison 0x400 []], Prison 0x300 []]"

definition sample_prisons :: prisons where
  "sample_prisons = \<lparr>pr_links = \<lparr>q_first = (\<lambda>_. NULL)(0x100 := 0x200, 0x200 := 0x400), q_last = (\<lambda>_. FirstOf NULL),
     q_next = (\<lambda>_. NULL)(0x200 := 0x300),
     q_prev = (\<lambda>_. FirstOf NULL)(0x200 := FirstOf 0x100, 0x300 := NextOf 0x200, 0x400 := FirstOf 0x200)\<rparr>,
     pr_parent = (\<lambda>_. NULL)(0x200 := 0x100, 0x300 := 0x100, 0x400 := 0x200)\<rparr>"

lemma sample_tree_at: "tree_at sample_prisons sample_tree" "distinct (prisons_of sample_tree)"
  by (simp_all add: sample_tree_def sample_prisons_def llist_def slist_def)

theorem prison_descendants_visited_witness:
  "FOREACH_PRISON_DESCENDANT sample_prisons 0x100 (\<lambda>p vs. (p \<noteq> 0x200, vs @ [p])) [] = Some [0x200, 0x300] \<and>
   FOREACH_PRISON_DESCENDANT sample_prisons 0x100 (\<lambda>p vs. (True, vs @ [p])) [] = Some [0x200, 0x400, 0x300]"
  using prison_descendants_visited [OF sample_tree_at, of "\<lambda>p vs. (p \<noteq> 0x200, vs @ [p])" "[]"]
  by (simp add: sample_tree_def)

definition sample_ext :: prison_ext where
  "sample_ext = \<lparr>pr_lock_sleep = (\<lambda>m t opts. \<lparr>mtx_word = t, mtx_recurse = 0\<rparr>),
     pr_unlock_sleep = (\<lambda>m opts. \<lparr>mtx_word = MTX_UNOWNED, mtx_recurse = 0\<rparr>), pr_curthread = 0x1000\<rparr>"

theorem prison_descendants_locked_witness:
  "\<exists>L. FOREACH_PRISON_DESCENDANT_LOCKED_LEVEL sample_ext sample_prisons 0x100
       (noting 0x1000 {0x100, 0x200, 0x300, 0x400} (\<lambda>_. True)) (\<lambda>_. \<lparr>mtx_word = MTX_UNOWNED, mtx_recurse = 0\<rparr>, []) =
     Some (L, 0, [(0x200, {0x200}, 1), (0x400, {0x400, 0x200}, 2), (0x300, {0x300}, 1)])"
proof -
  let ?free = "\<lambda>_ :: ptr. \<lparr>mtx_word = MTX_UNOWNED, mtx_recurse = 0\<rparr>"
  have t: "thread_ptr 0x1000" by (simp add: thread_ptr_def)
  have n: "{0x100, 0x200, 0x300, 0x400} = set (prisons_of sample_tree)" by (auto simp: sample_tree_def)
  have slow: "mtx_slow_ok (pr_lock_sleep sample_ext) (pr_unlock_sleep sample_ext) 0x1000"
    using mtx_word_owned [OF t] mtx_free_not_owned [OF t] by (simp add: mtx_slow_ok_def sample_ext_def mtx_recursed_def)
  have "holding 0x1000 {0x100, 0x200, 0x300, 0x400} [] ?free"
    using mtx_free_not_owned [OF t] by (simp add: holding_def mtx_recursed_def)
  from prison_descendants_locked [OF sample_tree_at n _ t slow this, of "\<lambda>_. True"] show ?thesis
    by (auto simp: sample_tree_def sample_ext_def)
qed

end
