(* ===== verification/Giant_Lock.thy ===== *)
theory Giant_Lock
  imports Sys_Locks
begin

text \<open>
  The macros of \<open>include/sys/mutex.h\<close> that give up the lock \<open>Giant\<close> around a piece of code and take it back,
  for a kernel without witness and assertions.  \<open>Giant\<close> may be recursed: the macros count the levels in an \<open>int\<close>.

  Shown: every level is given up, and the same number is taken back whatever happened to the lock in between.
\<close>

unbundle bit_operations_syntax

partial_function (option) drop_levels :: "(mtx \<Rightarrow> u32 \<Rightarrow> mtx) \<Rightarrow> u64 \<Rightarrow> u32 \<Rightarrow> mtx \<Rightarrow> (u32 \<times> mtx) option" where
  "drop_levels mtx_unlock_sleep curthread giantcnt Giant =
     (if mtx_owned curthread Giant then
        drop_levels mtx_unlock_sleep curthread (giantcnt + 1) (mtx_unlock_fast mtx_unlock_sleep curthread 0 Giant)
      else Some (giantcnt, Giant))"

declare drop_levels.simps [code]

definition DROP_GIANT :: "(mtx \<Rightarrow> u32 \<Rightarrow> mtx) \<Rightarrow> u64 \<Rightarrow> mtx \<Rightarrow> (u32 \<times> mtx) option" where
  "DROP_GIANT mtx_unlock_sleep curthread Giant =
     (if mtx_owned curthread Giant then drop_levels mtx_unlock_sleep curthread 0 Giant else Some (0, Giant))"

function pickup_levels :: "(mtx \<Rightarrow> u64 \<Rightarrow> u32 \<Rightarrow> mtx) \<Rightarrow> u64 \<Rightarrow> u32 \<Rightarrow> mtx \<Rightarrow> mtx" where
  "pickup_levels mtx_lock_sleep curthread giantcnt Giant =
     (if giantcnt = 0 then Giant
      else pickup_levels mtx_lock_sleep curthread (giantcnt - 1) (mtx_lock_fast mtx_lock_sleep curthread 0 Giant))"
  by auto

termination pickup_levels
  by (relation "measure (\<lambda>(_, _, n, _). unat n)") (simp_all add: unat_minus_one unat_gt_0)

declare pickup_levels.simps [simp del]

definition PARTIAL_PICKUP_GIANT :: "(mtx \<Rightarrow> u64 \<Rightarrow> u32 \<Rightarrow> mtx) \<Rightarrow> u64 \<Rightarrow> u32 \<Rightarrow> mtx \<Rightarrow> mtx" where
  "PARTIAL_PICKUP_GIANT mtx_lock_sleep curthread giantcnt Giant =
     (if sint giantcnt > 0 then pickup_levels mtx_lock_sleep curthread giantcnt Giant else Giant)"

definition UGAR :: "(mtx \<Rightarrow> u32 \<Rightarrow> mtx) \<Rightarrow> u64 \<Rightarrow> u32 \<Rightarrow> mtx \<Rightarrow> u32 \<times> mtx" where
  "UGAR mtx_unlock_sleep curthread rval Giant = (rval, mtx_unlock_fast mtx_unlock_sleep curthread 0 Giant)"

section \<open>Levels\<close>

text \<open>How often the thread has the mutex.  A recursed mutex has its flag set, so that its word is not a bare thread pointer.\<close>

definition levels :: "u64 \<Rightarrow> mtx \<Rightarrow> nat" where
  "levels tid m = (if mtx_owned tid m then Suc (unat (mtx_recurse m)) else 0)"

definition recursion_flagged :: "mtx \<Rightarrow> bool" where
  "recursion_flagged m \<longleftrightarrow> (mtx_recursed m \<longrightarrow> mtx_word m AND MTX_RECURSED \<noteq> 0)"

text \<open>What the slow paths promise: a level is added, after waiting for the mutex where another thread has it, or removed.\<close>

definition mtx_levels_ok :: "(mtx \<Rightarrow> u64 \<Rightarrow> u32 \<Rightarrow> mtx) \<Rightarrow> (mtx \<Rightarrow> u32 \<Rightarrow> mtx) \<Rightarrow> u64 \<Rightarrow> bool" where
  "mtx_levels_ok lock_sleep unlock_sleep tid \<longleftrightarrow>
     (\<forall>m. recursion_flagged m \<and> levels tid m < 2 ^ 32 \<longrightarrow>
        recursion_flagged (lock_sleep m tid 0) \<and> levels tid (lock_sleep m tid 0) = Suc (levels tid m)) \<and>
     (\<forall>m. recursion_flagged m \<and> 0 < levels tid m \<longrightarrow>
        recursion_flagged (unlock_sleep m 0) \<and> Suc (levels tid (unlock_sleep m 0)) = levels tid m)"

lemma thread_ptr_unflagged: "thread_ptr tid \<Longrightarrow> tid AND MTX_RECURSED = 0"
  using thread_ptr_even [of tid] by (simp add: and_one_eq even_iff_mod_2_eq_zero)

lemma bare_word:
  assumes "thread_ptr tid" and "recursion_flagged m"
  shows "mtx_word m = tid \<Longrightarrow> levels tid m = 1" and "mtx_word m = MTX_UNOWNED \<Longrightarrow> levels tid m = 0 \<and> mtx_recurse m = 0"
  using assms thread_ptr_unflagged [of tid] mtx_word_owned [of tid m] mtx_free_not_owned [of tid m]
  by (auto simp: levels_def recursion_flagged_def mtx_recursed_def)

lemma lock_level:
  assumes "thread_ptr tid" and "mtx_levels_ok ls us tid" and "recursion_flagged m" and "levels tid m < 2 ^ 32"
  shows "recursion_flagged (mtx_lock_fast ls tid 0 m) \<and> levels tid (mtx_lock_fast ls tid 0 m) = Suc (levels tid m)"
proof (cases "mtx_word m = MTX_UNOWNED")
  case True
  then have "mtx_lock_fast ls tid 0 m = m\<lparr>mtx_word := tid\<rparr>" by (simp add: mtx_lock_fast_def mtx_obtain_try_def atomic_cmpset_long_def)
  moreover have "recursion_flagged (m\<lparr>mtx_word := tid\<rparr>)"
    using bare_word(2) [OF assms(1,3) True] by (simp add: recursion_flagged_def mtx_recursed_def)
  ultimately show ?thesis using bare_word(2) [OF assms(1,3) True] bare_word(1) [OF assms(1), of "m\<lparr>mtx_word := tid\<rparr>"] by simp
next
  case False
  then have "mtx_lock_fast ls tid 0 m = ls m tid 0" by (simp add: mtx_lock_fast_def mtx_obtain_try_def atomic_cmpset_long_def)
  then show ?thesis using assms(2-4) unfolding mtx_levels_ok_def by metis
qed

lemma unlock_level:
  assumes "thread_ptr tid" and "mtx_levels_ok ls us tid" and "recursion_flagged m" and "0 < levels tid m"
  shows "recursion_flagged (mtx_unlock_fast us tid 0 m) \<and> Suc (levels tid (mtx_unlock_fast us tid 0 m)) = levels tid m"
proof (cases "mtx_word m = tid")
  case True
  let ?m = "m\<lparr>mtx_word := MTX_UNOWNED\<rparr>"
  have "mtx_recurse m = 0" using bare_word(1) [OF assms(1,3) True] mtx_word_owned [OF assms(1) True] by (simp add: levels_def unat_eq_0)
  then have "recursion_flagged ?m" by (simp add: recursion_flagged_def mtx_recursed_def)
  then show ?thesis using bare_word(1) [OF assms(1,3) True] bare_word(2) [OF assms(1), of ?m] True
    by (simp add: mtx_unlock_fast_def mtx_release_try_def atomic_cmpset_long_def)
next
  case False
  then have "mtx_unlock_fast us tid 0 m = us m 0" by (simp add: mtx_unlock_fast_def mtx_release_try_def atomic_cmpset_long_def)
  then show ?thesis using assms(2-4) unfolding mtx_levels_ok_def by metis
qed

lemma drop_levels_all:
  assumes "thread_ptr tid" and "mtx_levels_ok ls us tid"
  shows "recursion_flagged m \<Longrightarrow> levels tid m = k \<Longrightarrow>
    \<exists>m'. drop_levels us tid n m = Some (n + of_nat k, m') \<and> recursion_flagged m' \<and> levels tid m' = 0"
proof (induction k arbitrary: n m)
  case 0
  then show ?case by (subst drop_levels.simps) (simp add: levels_def split: if_splits)
next
  case (Suc k)
  let ?m = "mtx_unlock_fast us tid 0 m"
  have "recursion_flagged ?m" "levels tid ?m = k" using unlock_level [OF assms Suc.prems(1)] Suc.prems(2) by auto
  from Suc.IH [OF this, of "n + 1"] Suc.prems(2) show ?case
    by (subst drop_levels.simps) (auto simp: levels_def add.assoc split: if_splits)
qed

lemma pickup_levels_all:
  assumes "thread_ptr tid" and "mtx_levels_ok ls us tid"
  shows "recursion_flagged m \<Longrightarrow> unat n = k \<Longrightarrow> levels tid m + k < 2 ^ 32 \<Longrightarrow>
    recursion_flagged (pickup_levels ls tid n m) \<and> levels tid (pickup_levels ls tid n m) = levels tid m + k"
proof (induction k arbitrary: n m)
  case 0
  then show ?case by (subst (1 2) pickup_levels.simps) (simp add: unat_eq_0)
next
  case (Suc k)
  let ?m = "mtx_lock_fast ls tid 0 m"
  have m: "recursion_flagged ?m" "levels tid ?m = Suc (levels tid m)" using lock_level [OF assms Suc.prems(1)] Suc.prems(3) by auto
  have n: "n \<noteq> 0" using Suc.prems(2) by auto
  then have n1: "unat (n - 1) = k" using Suc.prems(2) by (simp add: unat_minus_one)
  have "pickup_levels ls tid n m = pickup_levels ls tid (n - 1) ?m" using n by (subst pickup_levels.simps) simp
  with Suc.IH [OF m(1) n1] m(2) Suc.prems(3) show ?case by simp
qed

text \<open>C15 Giving up \<open>Giant\<close> and taking it back: \<open>DROP_GIANT\<close> returns, gives up every level at which the thread has the lock
  and counts them; whatever other threads did with the lock meanwhile, \<open>PICKUP_GIANT\<close> gives the thread the same number of levels again.\<close>

theorem giant_dropped_and_restored:
  assumes "thread_ptr tid" and "mtx_levels_ok ls us tid" and "recursion_flagged m" and "levels tid m < 2 ^ 31"
  shows "\<exists>n m'. DROP_GIANT us tid m = Some (n, m') \<and> unat n = levels tid m \<and> levels tid m' = 0 \<and>
    (\<forall>m''. recursion_flagged m'' \<and> levels tid m'' = 0 \<longrightarrow> levels tid (PARTIAL_PICKUP_GIANT ls tid n m'') = levels tid m)"
proof -
  let ?n = "of_nat (levels tid m) :: u32"
  have n: "unat ?n = levels tid m" using assms(4) by (simp add: unat_of_nat)
  obtain m' where m': "DROP_GIANT us tid m = Some (?n, m')" "levels tid m' = 0"
    using drop_levels_all [OF assms(1-3) refl, of 0] by (auto simp: DROP_GIANT_def levels_def split: if_splits)
  have "sint ?n = int (levels tid m)" using assms(4) by (simp add: signed_of_nat signed_take_bit_int_eq_self)
  then have "levels tid (PARTIAL_PICKUP_GIANT ls tid ?n m'') = levels tid m" if "recursion_flagged m''" "levels tid m'' = 0" for m''
    using pickup_levels_all [OF assms(1,2) that(1) n] that assms(4) by (auto simp: PARTIAL_PICKUP_GIANT_def)
  with m' n show ?thesis by blast
qed

section \<open>Witness\<close>

definition lock_sleep_sample :: "mtx \<Rightarrow> u64 \<Rightarrow> u32 \<Rightarrow> mtx" where
  "lock_sleep_sample m tid opts =
     (if mtx_owned tid m then \<lparr>mtx_word = tid OR MTX_RECURSED, mtx_recurse = mtx_recurse m + 1\<rparr> else \<lparr>mtx_word = tid, mtx_recurse = 0\<rparr>)"

definition unlock_sleep_sample :: "mtx \<Rightarrow> u32 \<Rightarrow> mtx" where
  "unlock_sleep_sample m opts =
     (if mtx_recurse m = 0 then \<lparr>mtx_word = MTX_UNOWNED, mtx_recurse = 0\<rparr>
      else if mtx_recurse m = 1 then \<lparr>mtx_word = mtx_word m AND NOT MTX_RECURSED, mtx_recurse = 0\<rparr> else m\<lparr>mtx_recurse := mtx_recurse m - 1\<rparr>)"

lemma sample_levels_ok: "mtx_levels_ok lock_sleep_sample unlock_sleep_sample 0x10"
proof -
  have owned: "mtx_owned 0x10 \<lparr>mtx_word = 0x10, mtx_recurse = r\<rparr>" "mtx_owned 0x10 \<lparr>mtx_word = 0x11, mtx_recurse = r\<rparr>"
    "\<not> mtx_owned 0x10 \<lparr>mtx_word = 4, mtx_recurse = r\<rparr>" for r
    by (simp_all add: mtx_owned_def MTX_FLAGMASK_def)
  have "unat (r + 1) = Suc (unat r)" if "Suc (unat r) < 2 ^ 32" for r :: u32 using that by (simp add: unat_word_ariths)
  then have "recursion_flagged (lock_sleep_sample m 0x10 0) \<and> levels 0x10 (lock_sleep_sample m 0x10 0) = Suc (levels 0x10 m)"
    if "levels 0x10 m < 2 ^ 32" for m
    using that owned by (auto simp: lock_sleep_sample_def levels_def recursion_flagged_def mtx_recursed_def)
  moreover have "recursion_flagged (unlock_sleep_sample m 0) \<and> Suc (levels 0x10 (unlock_sleep_sample m 0)) = levels 0x10 m"
    if "recursion_flagged m" "0 < levels 0x10 m" for m
  proof -
    have own: "mtx_owned 0x10 m" using that(2) by (simp add: levels_def split: if_splits)
    then have "mtx_owned 0x10 (m\<lparr>mtx_recurse := r\<rparr>)" "mtx_owned 0x10 \<lparr>mtx_word = mtx_word m AND NOT 1, mtx_recurse = r\<rparr>" for r
      by (simp_all add: mtx_owned_def MTX_FLAGMASK_def and.assoc)
    then show ?thesis using that own owned(3)
      by (auto simp: unlock_sleep_sample_def levels_def recursion_flagged_def mtx_recursed_def unat_minus_one unat_gt_0)
  qed
  ultimately show ?thesis by (simp add: mtx_levels_ok_def)
qed

theorem giant_dropped_and_restored_witness:
  "\<exists>n m'. DROP_GIANT unlock_sleep_sample 0x10 \<lparr>mtx_word = 0x11, mtx_recurse = 2\<rparr> = Some (n, m') \<and> unat n = 3 \<and> levels 0x10 m' = 0"
proof -
  let ?m = "\<lparr>mtx_word = 0x11, mtx_recurse = 2\<rparr>"
  have "levels 0x10 ?m = 3" "recursion_flagged ?m" by (simp_all add: levels_def mtx_owned_def MTX_FLAGMASK_def recursion_flagged_def)
  with giant_dropped_and_restored [OF _ sample_levels_ok, of ?m] show ?thesis by (auto simp: thread_ptr_def)
qed

end
