(* ===== verification/Cpu_Iterators.thy ===== *)
theory Cpu_Iterators
  imports Bit_Sets
begin

text \<open>
  The iterators over the processors of \<open>include/sys/smp.h\<close>: \<open>CPU_ABSENT\<close>, \<open>CPU_FOREACH\<close>, \<open>cpu_first\<close> and \<open>cpu_next\<close>,
  over the set \<open>all_cpus\<close> (\<open>Bit_Sets\<close>) and the highest identifier \<open>mp_maxid\<close>.  \<open>None\<close> stands for an access outside the
  set's words, and for a loop that does not end.  The header is one of the kernel, where the set has \<open>MAXCPU\<close> numbers, 64 or on a
  uniprocessor 1, and so a single word.

  Shown: the three visit the processors present, in order, and \<open>cpu_next\<close> comes round; with no processor none of them returns one.
\<close>

definition CPU_ABSENT :: "cpuset_t \<Rightarrow> u32 \<Rightarrow> bool option" where
  "CPU_ABSENT all_cpus x_cpu = map_option Not (CPU_ISSET (unat x_cpu) all_cpus)"

text \<open>The loop of \<open>CPU_FOREACH\<close> from \<open>i\<close> on, with the body as a function on the state.\<close>

partial_function (option) foreach_cpu :: "cpuset_t \<Rightarrow> u32 \<Rightarrow> (u32 \<Rightarrow> 's \<Rightarrow> 's option) \<Rightarrow> u32 \<Rightarrow> 's \<Rightarrow> 's option" where
  "foreach_cpu all_cpus mp_maxid body i s =
     (if i \<le> mp_maxid then do {
        a \<leftarrow> CPU_ABSENT all_cpus i;
        s \<leftarrow> (if \<not> a then body i s else Some s);
        foreach_cpu all_cpus mp_maxid body (i + 1) s }
      else Some s)"

definition CPU_FOREACH :: "cpuset_t \<Rightarrow> u32 \<Rightarrow> (u32 \<Rightarrow> 's \<Rightarrow> 's option) \<Rightarrow> 's \<Rightarrow> 's option" where
  "CPU_FOREACH all_cpus mp_maxid body s = foreach_cpu all_cpus mp_maxid body 0 s"

partial_function (option) first_cpu_from :: "cpuset_t \<Rightarrow> u32 \<Rightarrow> u32 option" where
  "first_cpu_from all_cpus i =
     do { a \<leftarrow> CPU_ABSENT all_cpus i; if \<not> a then Some i else first_cpu_from all_cpus (i + 1) }"

definition cpu_first :: "cpuset_t \<Rightarrow> u32 option" where
  "cpu_first all_cpus = first_cpu_from all_cpus 0"

text \<open>The comparison is one of unsigned integers, because \<open>mp_maxid\<close> is one.\<close>

partial_function (option) cpu_next :: "cpuset_t \<Rightarrow> u32 \<Rightarrow> u32 \<Rightarrow> u32 option" where
  "cpu_next all_cpus mp_maxid i =
     (let i = i + 1; i = (if i > mp_maxid then 0 else i) in
      do { a \<leftarrow> CPU_ABSENT all_cpus i; if \<not> a then Some i else cpu_next all_cpus mp_maxid i })"

declare foreach_cpu.simps [code] first_cpu_from.simps [code] cpu_next.simps [code]

section \<open>What is visited\<close>

abbreviation MAXCPU :: nat where "MAXCPU \<equiv> 64"

definition smp_ok :: "cpuset_t \<Rightarrow> nat \<Rightarrow> bool" where
  "smp_ok all_cpus maxid \<longleftrightarrow> cpu_ok 1 all_cpus \<and> maxid < MAXCPU \<and> cpus all_cpus \<subseteq> {..maxid}"

lemma CPU_ABSENT_mem: "smp_ok c m \<Longrightarrow> n \<le> m \<Longrightarrow> CPU_ABSENT c (of_nat n) = Some (n \<notin> cpus c)"
  using cpu_bit_set.isin_abs [of 1 c n] by (simp add: smp_ok_def CPU_ABSENT_def unat_of_nat)

lemma of_nat_le_u32: "a < 2 ^ 32 \<Longrightarrow> b < 2 ^ 32 \<Longrightarrow> (of_nat a :: u32) \<le> of_nat b \<longleftrightarrow> a \<le> b"
  by (simp add: word_le_nat_alt unat_of_nat)

text \<open>The processors from \<open>i\<close> to the highest identifier, in order.\<close>

definition present :: "cpuset_t \<Rightarrow> nat \<Rightarrow> nat \<Rightarrow> nat list" where
  "present c m i = filter (\<lambda>n. n \<in> cpus c) [i..<Suc m]"

lemma present_step: "i \<le> m \<Longrightarrow> present c m i = (if i \<in> cpus c then i # present c m (Suc i) else present c m (Suc i))"
  by (simp add: present_def upt_conv_Cons del: upt_Suc)

lemma foreach_cpu_present:
  assumes "smp_ok c m"
  shows "i \<le> Suc m \<Longrightarrow> foreach_cpu c (of_nat m) body (of_nat i) s = fold_opt (\<lambda>n. body (of_nat n)) (present c m i) s"
proof (induction "Suc m - i" arbitrary: i s)
  case 0
  then have "i = Suc m" by simp
  then show ?case using assms of_nat_le_u32 [of "Suc m" m] by (subst foreach_cpu.simps) (simp add: present_def smp_ok_def)
next
  case (Suc k)
  have i: "i \<le> m" using Suc.hyps(2) by simp
  have IH: "foreach_cpu c (of_nat m) body (of_nat (Suc i)) s = fold_opt (\<lambda>n. body (of_nat n)) (present c m (Suc i)) s" for s
    using Suc.hyps(1) [of "Suc i"] Suc.hyps(2) by simp
  have "foreach_cpu c (of_nat m) body (of_nat i) s =
      do { s \<leftarrow> (if i \<in> cpus c then body (of_nat i) s else Some s); foreach_cpu c (of_nat m) body (of_nat (Suc i)) s }"
    using assms of_nat_le_u32 [of i m] CPU_ABSENT_mem [OF assms, of i] i
    by (subst foreach_cpu.simps) (simp add: smp_ok_def add.commute)
  then show ?case using Suc.hyps(2) by (simp only: IH present_step) simp
qed

lemma first_cpu_from_present:
  assumes "smp_ok c m"
  shows "present c m i = n # ns \<Longrightarrow> first_cpu_from c (of_nat i) = Some (of_nat n)"
proof (induction "Suc m - i" arbitrary: i)
  case 0
  then show ?case by (simp add: present_def)
next
  case (Suc k)
  have i: "i \<le> m" using Suc.hyps(2) by simp
  have "first_cpu_from c (of_nat i) = (if i \<in> cpus c then Some (of_nat i) else first_cpu_from c (of_nat (Suc i)))"
    using CPU_ABSENT_mem [OF assms i] by (subst first_cpu_from.simps) (simp add: add.commute)
  then show ?case using Suc i by (simp add: present_step del: of_nat_Suc split: if_splits)
qed

lemma cpu_next_step:
  assumes "smp_ok c m"
  shows "i < m \<Longrightarrow> cpu_next c (of_nat m) (of_nat i) = (if Suc i \<in> cpus c then Some (of_nat (Suc i)) else cpu_next c (of_nat m) (of_nat (Suc i)))"
    and "cpu_next c (of_nat m) (of_nat m) = (if 0 \<in> cpus c then Some 0 else cpu_next c (of_nat m) 0)"
proof -
  have s: "(of_nat n :: u32) + 1 = of_nat (Suc n)" for n by simp
  have le: "(of_nat (Suc i) :: u32) \<le> of_nat m \<longleftrightarrow> Suc i \<le> m" if "i \<le> m" for i using that assms by (intro of_nat_le_u32) (auto simp: smp_ok_def)
  show "cpu_next c (of_nat m) (of_nat i) = (if Suc i \<in> cpus c then Some (of_nat (Suc i)) else cpu_next c (of_nat m) (of_nat (Suc i)))" if "i < m"
    using that CPU_ABSENT_mem [OF assms, of "Suc i"] le [of i] unfolding cpu_next.simps [of c "of_nat m" "of_nat i"] s
    by (simp only: Let_def not_less [symmetric]) simp
  show "cpu_next c (of_nat m) (of_nat m) = (if 0 \<in> cpus c then Some 0 else cpu_next c (of_nat m) 0)"
    using CPU_ABSENT_mem [OF assms, of 0] le [of m] unfolding cpu_next.simps [of c "of_nat m" "of_nat m"] s
    by (simp only: Let_def not_less [symmetric]) simp
qed

lemma cpu_next_present:
  assumes "smp_ok c m"
  shows "present c m (Suc i) = n # ns \<Longrightarrow> cpu_next c (of_nat m) (of_nat i) = Some (of_nat n)"
proof (induction "m - i" arbitrary: i)
  case 0
  then show ?case by (simp add: present_def)
next
  case (Suc k)
  with cpu_next_step(1) [OF assms, of i] show ?case by (simp add: present_step [of "Suc i"] del: of_nat_Suc split: if_splits)
qed

lemma cpu_next_last:
  assumes "smp_ok c m"
  shows "i \<le> m \<Longrightarrow> present c m (Suc i) = [] \<Longrightarrow> present c m 0 = n # ns \<Longrightarrow> cpu_next c (of_nat m) (of_nat i) = Some (of_nat n)"
proof (induction "m - i" arbitrary: i)
  case 0
  then show ?case using cpu_next_step(2) [OF assms] cpu_next_present [OF assms, of 0] by (auto simp: present_step [of 0] split: if_splits)
next
  case (Suc k)
  with cpu_next_step(1) [OF assms, of i] show ?case by (simp add: present_step [of "Suc i"] del: of_nat_Suc split: if_splits)
qed

lemma present_drop: "k < length (present c m 0) \<Longrightarrow> present c m (Suc (present c m 0 ! k)) = drop (Suc k) (present c m 0)"
proof -
  have "present c m (Suc (present c m i ! k)) = drop (Suc k) (present c m i)" if "k < length (present c m i)" for i
    using that
  proof (induction "Suc m - i" arbitrary: i k)
    case 0
    then show ?case by (simp add: present_def)
  next
    case (Suc d)
    then have p: "present c m i = (if i \<in> cpus c then i # present c m (Suc i) else present c m (Suc i))" by (intro present_step) simp
    show ?case using Suc.hyps(1) [of "Suc i"] Suc.hyps(2) Suc.prems unfolding p by (cases k) auto
  qed
  then show "k < length (present c m 0) \<Longrightarrow> ?thesis" by simp
qed

lemma present_sorted: "smp_ok c m \<Longrightarrow> present c m 0 = sorted_list_of_set (cpus c)"
proof -
  assume "smp_ok c m"
  then have "set (present c m 0) = cpus c" by (auto simp: present_def smp_ok_def simp del: upt_Suc)
  moreover have "sorted (present c m 0)" "distinct (present c m 0)"
    unfolding present_def by (simp_all add: sorted_wrt_filter del: upt_Suc)
  ultimately show ?thesis by (metis sorted_list_of_set.idem_if_sorted_distinct)
qed

lemma cpu_next_cyclic:
  assumes ok: "smp_ok c m" and k: "k < card (cpus c)"
  shows "cpu_next c (of_nat m) (of_nat (sorted_list_of_set (cpus c) ! k)) =
    Some (of_nat (sorted_list_of_set (cpus c) ! (Suc k mod card (cpus c))))"
proof -
  let ?ids = "sorted_list_of_set (cpus c)"
  note ids = present_sorted [OF ok]
  have len: "length ?ids = card (cpus c)" by simp
  have fin: "finite (cpus c)" using ok finite_subset by (auto simp: smp_ok_def)
  have "?ids ! k \<in> cpus c" using nth_mem [of k ?ids] k fin by simp
  then have le: "?ids ! k \<le> m" using ok by (auto simp: smp_ok_def)
  have rest: "present c m (Suc (?ids ! k)) = drop (Suc k) ?ids" using present_drop [of k c m] k unfolding ids by simp
  show ?thesis
  proof (cases "Suc k < card (cpus c)")
    case True
    then have "drop (Suc k) ?ids = ?ids ! Suc k # drop (Suc (Suc k)) ?ids" by (intro Cons_nth_drop_Suc [symmetric]) simp
    with cpu_next_present [OF ok, of "?ids ! k"] rest True show ?thesis by simp
  next
    case False
    with k have last: "Suc k = card (cpus c)" by simp
    have "?ids \<noteq> []" using k by (auto simp: fin)
    then have "present c m 0 = ?ids ! 0 # tl ?ids" using ids by (simp add: hd_conv_nth [symmetric])
    from cpu_next_last [OF ok le _ this] rest last show ?thesis by simp
  qed
qed

text \<open>A processor that is returned is present; so without processors nothing is returned.\<close>

lemma first_cpu_mem: "first_cpu_from c i = Some y \<Longrightarrow> CPU_ABSENT c y = Some False"
  by (rule first_cpu_from.raw_induct [of "\<lambda>c i y. CPU_ABSENT c y = Some False"]) (auto split: Option.bind_splits if_splits)

lemma cpu_next_mem: "cpu_next c m i = Some y \<Longrightarrow> CPU_ABSENT c y = Some False"
  by (rule cpu_next.raw_induct [of "\<lambda>c m i y. CPU_ABSENT c y = Some False"]) (auto simp: Let_def split: Option.bind_splits if_splits)

lemma no_cpu: "cpu_ok 1 c \<Longrightarrow> cpus c = {} \<Longrightarrow> CPU_ABSENT c y \<noteq> Some False"
  using cpu_bit_set.isin_abs [of 1 c "unat y"]
  by (cases "unat y < 64") (auto simp: CPU_ABSENT_def CPU_ISSET_def word_at_def cpu_ok_def)

text \<open>C18 Iterating over processors, in the one-word set of the kernel: when the processors present are among the identifiers up to \<open>mp_maxid\<close>, \<open>CPU_FOREACH\<close> returns after running
  its body for each of them in ascending order; \<open>cpu_first\<close> is the lowest, and \<open>cpu_next\<close> leads from each to the next one and from
  the highest back to the lowest.  When there is no processor, \<open>cpu_first\<close> and \<open>cpu_next\<close> return none.\<close>

theorem cpus_iterated:
  assumes "cpu_ok 1 all_cpus" and "maxid < MAXCPU" and "cpus all_cpus \<subseteq> {..maxid}"
  shows "CPU_FOREACH all_cpus (of_nat maxid) body s = fold_opt (\<lambda>n. body (of_nat n)) (sorted_list_of_set (cpus all_cpus)) s \<and>
    (cpus all_cpus \<noteq> {} \<longrightarrow> cpu_first all_cpus = Some (of_nat (Min (cpus all_cpus)))) \<and>
    (\<forall>k < card (cpus all_cpus). cpu_next all_cpus (of_nat maxid) (of_nat (sorted_list_of_set (cpus all_cpus) ! k)) =
       Some (of_nat (sorted_list_of_set (cpus all_cpus) ! (Suc k mod card (cpus all_cpus))))) \<and>
    (cpus all_cpus = {} \<longrightarrow> cpu_first all_cpus = None \<and> cpu_next all_cpus (of_nat maxid) i = None)"
proof (intro conjI impI allI)
  let ?ids = "sorted_list_of_set (cpus all_cpus)"
  have ok: "smp_ok all_cpus maxid" using assms by (simp add: smp_ok_def)
  note ids = present_sorted [OF ok]
  show "CPU_FOREACH all_cpus (of_nat maxid) body s = fold_opt (\<lambda>n. body (of_nat n)) ?ids s"
    using foreach_cpu_present [OF ok, of 0 body s] ids by (simp add: CPU_FOREACH_def)
  have fin: "finite (cpus all_cpus)" using assms(3) finite_subset by blast
  show "cpu_first all_cpus = Some (of_nat (Min (cpus all_cpus)))" if "cpus all_cpus \<noteq> {}"
    using first_cpu_from_present [OF ok, of 0] sorted_list_of_set_nonempty [OF fin that] ids by (simp add: cpu_first_def)
  show "cpu_next all_cpus (of_nat maxid) (of_nat (?ids ! k)) = Some (of_nat (?ids ! (Suc k mod card (cpus all_cpus))))"
    if "k < card (cpus all_cpus)" for k by (rule cpu_next_cyclic [OF ok that])
  show "cpu_first all_cpus = None" if "cpus all_cpus = {}"
    using no_cpu [OF assms(1) that] first_cpu_mem [of all_cpus 0] by (cases "cpu_first all_cpus") (auto simp: cpu_first_def)
  show "cpu_next all_cpus (of_nat maxid) i = None" if "cpus all_cpus = {}"
    using no_cpu [OF assms(1) that] cpu_next_mem [of all_cpus _ i] by (cases "cpu_next all_cpus (of_nat maxid) i") auto
qed

lemma cpus_filter: "cpus \<lparr>cpu_bits = [w]\<rparr> = set (filter (bit w) [0..<64])"
  by (auto simp: cpus_def mem_elems div_less_iff_less_mult simp del: upt_Suc upt_rec_numeral)

lemma sample_cpus: "cpus \<lparr>cpu_bits = [0x800000000000000A]\<rparr> = {1, 3, 63}"
proof -
  have "filter (bit (0x800000000000000A :: u64)) [0..<64] = [1, 3, 63]" by code_simp
  then show ?thesis by (subst cpus_filter) simp_all
qed

theorem cpus_iterated_witness:
  "cpu_first \<lparr>cpu_bits = [0x800000000000000A]\<rparr> = Some 1 \<and> cpu_next \<lparr>cpu_bits = [0x800000000000000A]\<rparr> 63 3 = Some 63 \<and>
    cpu_next \<lparr>cpu_bits = [0x800000000000000A]\<rparr> 63 63 = Some 1"
proof -
  let ?c = "\<lparr>cpu_bits = [0x800000000000000A]\<rparr>"
  have ids: "sorted_list_of_set {1, 3, 63 :: nat} = [1, 3, 63]" by code_simp
  have "cpu_first ?c = Some (of_nat (Min {1, 3, 63})) \<and> (\<forall>k < Suc (Suc (Suc 0)). cpu_next ?c (of_nat 63) (of_nat ([1, 3, 63] ! k)) =
      Some (of_nat ([1, 3, 63] ! (Suc k mod 3))))"
    using cpus_iterated [of ?c 63 "\<lambda>_. Some" "()" 0] by (simp add: sample_cpus ids cpu_ok_def)
  from conjunct1 [OF this] conjunct2 [OF this, rule_format, of 1] conjunct2 [OF this, rule_format, of 2] show ?thesis by simp
qed

end
