(* ===== verification/Per_Cpu.thy ===== *)
theory Per_Cpu
  imports Cpu_Iterators
begin

text \<open>
  The data of each processor.  \<open>include/machine/pcpu.h\<close> reads, writes and counts in \<open>struct pcpu\<close> of the running
  processor, through the segment register whose base is \<open>gs\<close> when the variable has the size of an operand, and through the pointer to
  itself that the structure holds at \<open>pc_prvspace\<close> otherwise.  \<open>include/sys/pcpu.h\<close> has dynamic variables, of which every processor has a
  copy at its own offset (\<open>dpcpu_off\<close>).  A variable is given by its offset \<open>name\<close>, and by the type of words \<open>'a\<close> that it
  has.  \<open>sched_pin\<close> and \<open>sched_unpin\<close> of \<open>include/sys/sched.h\<close>, which keep a thread on its processor, and the flags of
  \<open>include/machine/pcb.h\<close> are at the end.

  Shown: both ways of access agree; a counter over all processors is the sum of its copies.
\<close>

unbundle bit_operations_syntax

definition load_word :: "memory \<Rightarrow> ptr \<Rightarrow> 'a::len word option" where
  "load_word m a = map_option word_of_bytes (load_bytes m a (LENGTH('a) div 8))"

definition store_word :: "memory \<Rightarrow> ptr \<Rightarrow> 'a::len word \<Rightarrow> memory option" where
  "store_word m a w = store_bytes m a (bytes_of_word (LENGTH('a) div 8) w)"

section \<open>Variables of the running processor\<close>

definition PCPU_PTR :: "ptr \<Rightarrow> u64 \<Rightarrow> u64 \<Rightarrow> memory \<Rightarrow> ptr option" where
  "PCPU_PTR gs pc_prvspace name m = do { p \<leftarrow> load64 m (gs + pc_prvspace); Some (p + name) }"

definition operand_size :: "nat \<Rightarrow> bool" where
  "operand_size n \<longleftrightarrow> n = 1 \<or> n = 2 \<or> n = 4 \<or> n = 8"

definition PCPU_GET :: "ptr \<Rightarrow> u64 \<Rightarrow> u64 \<Rightarrow> memory \<Rightarrow> 'a::len word option" where
  "PCPU_GET gs pc_prvspace name m =
     (if operand_size (LENGTH('a) div 8) then load_word m (gs + name)
      else do { p \<leftarrow> PCPU_PTR gs pc_prvspace name m; load_word m p })"

definition PCPU_ADD :: "ptr \<Rightarrow> u64 \<Rightarrow> u64 \<Rightarrow> 'a::len word \<Rightarrow> memory \<Rightarrow> memory option" where
  "PCPU_ADD gs pc_prvspace name val m =
     (if operand_size (LENGTH('a) div 8) then do { v \<leftarrow> load_word m (gs + name); store_word m (gs + name) (v + val) }
      else do { p \<leftarrow> PCPU_PTR gs pc_prvspace name m; v \<leftarrow> load_word m p; store_word m p (v + val) })"

definition PCPU_INC :: "ptr \<Rightarrow> u64 \<Rightarrow> 'a::len itself \<Rightarrow> memory \<Rightarrow> memory option" where
  "PCPU_INC gs name t m =
     (if LENGTH('a) div 8 = 1 then do { v \<leftarrow> load8 m (gs + name); store8 m (gs + name) (v + 1) }
      else if LENGTH('a) div 8 = 2 then do { v \<leftarrow> load16 m (gs + name); store16 m (gs + name) (v + 1) }
      else if LENGTH('a) div 8 = 4 then do { v \<leftarrow> load32 m (gs + name); store32 m (gs + name) (v + 1) }
      else if LENGTH('a) div 8 = 8 then do { v \<leftarrow> load64 m (gs + name); store64 m (gs + name) (v + 1) }
      else Some m)"

definition PCPU_SET :: "ptr \<Rightarrow> u64 \<Rightarrow> u64 \<Rightarrow> 'a::len word \<Rightarrow> memory \<Rightarrow> memory option" where
  "PCPU_SET gs pc_prvspace name val m =
     (if operand_size (LENGTH('a) div 8) then store_word m (gs + name) val
      else do { p \<leftarrow> PCPU_PTR gs pc_prvspace name m; store_word m p val })"

text \<open>The current thread is the first member.\<close>

definition curthread :: "ptr \<Rightarrow> memory \<Rightarrow> ptr option" where
  "curthread gs m = load64 m (gs + 0)"

section \<open>Dynamic variables\<close>

definition DPCPU_PTR_at :: "ptr \<Rightarrow> u64 \<Rightarrow> ptr" where
  "DPCPU_PTR_at b n = b + n"

definition DPCPU_PTR :: "ptr \<Rightarrow> u64 \<Rightarrow> u64 \<Rightarrow> u64 \<Rightarrow> memory \<Rightarrow> ptr option" where
  "DPCPU_PTR gs pc_prvspace pc_dynamic n m = do { b \<leftarrow> PCPU_GET gs pc_prvspace pc_dynamic m; Some (DPCPU_PTR_at b n) }"

definition DPCPU_GET :: "ptr \<Rightarrow> u64 \<Rightarrow> u64 \<Rightarrow> u64 \<Rightarrow> memory \<Rightarrow> 'a::len word option" where
  "DPCPU_GET gs pc_prvspace pc_dynamic n m = do { p \<leftarrow> DPCPU_PTR gs pc_prvspace pc_dynamic n m; load_word m p }"

definition DPCPU_SET :: "ptr \<Rightarrow> u64 \<Rightarrow> u64 \<Rightarrow> u64 \<Rightarrow> 'a::len word \<Rightarrow> memory \<Rightarrow> memory option" where
  "DPCPU_SET gs pc_prvspace pc_dynamic n v m = do { p \<leftarrow> DPCPU_PTR gs pc_prvspace pc_dynamic n m; store_word m p v }"

definition DPCPU_ID_PTR :: "ptr list \<Rightarrow> u32 \<Rightarrow> u64 \<Rightarrow> ptr option" where
  "DPCPU_ID_PTR dpcpu_off i n = (if unat i < length dpcpu_off then Some (DPCPU_PTR_at (dpcpu_off ! unat i) n) else None)"

definition DPCPU_ID_GET :: "ptr list \<Rightarrow> u32 \<Rightarrow> u64 \<Rightarrow> memory \<Rightarrow> 'a::len word option" where
  "DPCPU_ID_GET dpcpu_off i n m = do { p \<leftarrow> DPCPU_ID_PTR dpcpu_off i n; load_word m p }"

definition DPCPU_ID_SET :: "ptr list \<Rightarrow> u32 \<Rightarrow> u64 \<Rightarrow> 'a::len word \<Rightarrow> memory \<Rightarrow> memory option" where
  "DPCPU_ID_SET dpcpu_off i n v m = do { p \<leftarrow> DPCPU_ID_PTR dpcpu_off i n; store_word m p v }"

definition DPCPU_SUM :: "cpuset_t \<Rightarrow> u32 \<Rightarrow> ptr list \<Rightarrow> u64 \<Rightarrow> memory \<Rightarrow> 'a::len word option" where
  "DPCPU_SUM all_cpus mp_maxid dpcpu_off n m =
     CPU_FOREACH all_cpus mp_maxid (\<lambda>i sum. do { v \<leftarrow> DPCPU_ID_GET dpcpu_off i n m; Some (sum + v) }) 0"

text \<open>The sum of the member at \<open>var\<close> of a structure.\<close>

definition DPCPU_VARSUM :: "cpuset_t \<Rightarrow> u32 \<Rightarrow> ptr list \<Rightarrow> u64 \<Rightarrow> u64 \<Rightarrow> memory \<Rightarrow> 'a::len word option" where
  "DPCPU_VARSUM all_cpus mp_maxid dpcpu_off n var m =
     CPU_FOREACH all_cpus mp_maxid
       (\<lambda>i sum. do { p \<leftarrow> DPCPU_ID_PTR dpcpu_off i n; v \<leftarrow> load_word m (p + var); Some (sum + v) }) 0"

definition DPCPU_ZERO :: "cpuset_t \<Rightarrow> u32 \<Rightarrow> ptr list \<Rightarrow> u64 \<Rightarrow> u64 \<Rightarrow> memory \<Rightarrow> memory option" where
  "DPCPU_ZERO all_cpus mp_maxid dpcpu_off n sz m =
     CPU_FOREACH all_cpus mp_maxid (\<lambda>i m. do { p \<leftarrow> DPCPU_ID_PTR dpcpu_off i n; memset m p 0 sz }) m"

section \<open>Threads on a processor\<close>

definition sched_pin :: "u32 \<Rightarrow> u32" where "sched_pin td_pinned = td_pinned + 1"
definition sched_unpin :: "u32 \<Rightarrow> u32" where "sched_unpin td_pinned = td_pinned - 1"

definition set_pcb_flags :: "u32 \<Rightarrow> u32 \<Rightarrow> u32" where "set_pcb_flags pcb_flags flags = pcb_flags OR flags"
definition clear_pcb_flags :: "u32 \<Rightarrow> u32 \<Rightarrow> u32" where "clear_pcb_flags pcb_flags flags = pcb_flags AND NOT flags"

section \<open>Properties\<close>

lemma load_store_word:
  fixes v :: "'a::len word"
  assumes "8 dvd LENGTH('a)" and "LENGTH('a) \<le> address_space" and "store_word m a v = Some m'"
  shows "load_word m' a = Some v"
proof -
  let ?bs = "bytes_of_word (LENGTH('a) div 8) v"
  have "load_bytes m' a (length ?bs) = Some ?bs"
    using assms by (intro load_store_bytes_same) (simp_all add: store_word_def)
  then show ?thesis using assms(1) by (simp add: load_word_def word_of_bytes_of_word take_bit_word_eq_self)
qed

lemma store_word_other:
  fixes v :: "'a::len word"
  assumes "store_word m a v = Some m'" and "disjoint_regions b (LENGTH('b) div 8) a (LENGTH('a) div 8)"
  shows "load_word m' b = (load_word m b :: 'b::len word option)"
  using load_store_bytes_other [of m a "bytes_of_word (LENGTH('a) div 8) v" m' b "LENGTH('b) div 8"] assms
  by (simp add: store_word_def load_word_def)

lemma word_mapped:
  "(\<exists>v :: 'a::len word. load_word m a = Some v) \<longleftrightarrow> mapped m a (LENGTH('a) div 8)"
  "(\<exists>m'. store_word m a (v :: 'a word) = Some m') \<longleftrightarrow> mapped m a (LENGTH('a) div 8)"
  using load_bytes_mapped [of m a "LENGTH('a) div 8"] store_bytes_mapped [of m a "bytes_of_word (LENGTH('a) div 8) v"]
  by (auto simp: load_word_def store_word_def)

text \<open>When the structure holds its own address, the two ways of access reach the same place, and the accessors are those of a variable there;
  for operands \<open>PCPU_INC\<close> is \<open>PCPU_ADD\<close> of one.\<close>

lemma pcpu_accessors:
  assumes "load64 m (gs + pc_prvspace) = Some gs"
  shows "PCPU_PTR gs pc_prvspace name m = Some (gs + name)"
    and "PCPU_GET gs pc_prvspace name m = load_word m (gs + name)"
    and "PCPU_SET gs pc_prvspace name v m = store_word m (gs + name) v"
    and "PCPU_ADD gs pc_prvspace name v m = do { u \<leftarrow> load_word m (gs + name); store_word m (gs + name) (u + v) }"
  using assms by (simp_all add: PCPU_PTR_def PCPU_GET_def PCPU_SET_def PCPU_ADD_def)

lemma word_accesses:
  "load_word m a = load16 m a" "load_word m a = load32 m a" "load_word m a = load64 m a"
  "store_word m a v2 = store16 m a v2" "store_word m a v4 = store32 m a v4" "store_word m a v8 = store64 m a v8"
  by (simp_all add: load_word_def store_word_def load16_def load32_def load64_def store_defs)

lemma byte_accesses: "load_word m a = load8 m a" "store_word m a v = store8 m a v"
  by (cases "m a"; simp add: load_word_def store_word_def load8_def store8_def)+

lemma PCPU_INC_adds:
  "PCPU_INC gs name TYPE(8) m = PCPU_ADD gs prv name (1 :: u8) m" "PCPU_INC gs name TYPE(16) m = PCPU_ADD gs prv name (1 :: u16) m"
  "PCPU_INC gs name TYPE(32) m = PCPU_ADD gs prv name (1 :: u32) m" "PCPU_INC gs name TYPE(64) m = PCPU_ADD gs prv name (1 :: u64) m"
  unfolding PCPU_INC_def PCPU_ADD_def operand_size_def word_accesses byte_accesses by simp_all

section \<open>Sums over the processors\<close>

text \<open>Where the copy of processor \<open>i\<close> is, and that the copies of the processors present are mapped and apart from one another.\<close>

abbreviation copy_at :: "ptr list \<Rightarrow> u64 \<Rightarrow> nat \<Rightarrow> ptr" where
  "copy_at off n i \<equiv> DPCPU_PTR_at (off ! i) n"

definition dpcpu_ok :: "cpuset_t \<Rightarrow> nat \<Rightarrow> ptr list \<Rightarrow> u64 \<Rightarrow> nat \<Rightarrow> memory \<Rightarrow> bool" where
  "dpcpu_ok c maxid off n k m \<longleftrightarrow> smp_ok c maxid \<and> maxid < length off \<and> (\<forall>i\<in>cpus c. mapped m (copy_at off n i) k) \<and>
     (\<forall>i\<in>cpus c. \<forall>j\<in>cpus c. i \<noteq> j \<longrightarrow> disjoint_regions (copy_at off n i) k (copy_at off n j) k)"

lemma DPCPU_ID_PTR_present: "dpcpu_ok c maxid off n k m \<Longrightarrow> i \<in> cpus c \<Longrightarrow> DPCPU_ID_PTR off (of_nat i) n = Some (copy_at off n i)"
  by (auto simp: dpcpu_ok_def smp_ok_def DPCPU_ID_PTR_def unat_of_nat)

lemma CPU_FOREACH_present: "smp_ok c maxid \<Longrightarrow> CPU_FOREACH c (of_nat maxid) body s = fold_opt (\<lambda>i. body (of_nat i)) (sorted_list_of_set (cpus c)) s"
  using foreach_cpu_present [of c maxid 0 body s] present_sorted [of c maxid] by (simp add: CPU_FOREACH_def)

lemma finite_cpus: "smp_ok c maxid \<Longrightarrow> finite (cpus c)"
  by (auto simp: smp_ok_def intro: finite_subset)

lemma DPCPU_SUM_value:
  fixes val :: "nat \<Rightarrow> 'a::len word"
  assumes "dpcpu_ok c maxid off n k m" and "\<And>i. i \<in> cpus c \<Longrightarrow> load_word m (copy_at off n i) = Some (val i)"
  shows "DPCPU_SUM c (of_nat maxid) off n m = Some (\<Sum>i\<in>cpus c. val i)"
proof -
  have ok: "smp_ok c maxid" using assms(1) by (simp add: dpcpu_ok_def)
  let ?body = "\<lambda>i sum. do { v \<leftarrow> DPCPU_ID_GET off (of_nat i) n m; Some (sum + v) }"
  have "fold_opt ?body is s = Some (s + sum_list (map val is))" if "set is \<subseteq> cpus c" for "is" s
    using that assms(2) DPCPU_ID_PTR_present [OF assms(1)] by (induction "is" arbitrary: s) (simp_all add: DPCPU_ID_GET_def add.assoc)
  then have "DPCPU_SUM c (of_nat maxid) off n m = Some (sum_list (map val (sorted_list_of_set (cpus c))))"
    unfolding DPCPU_SUM_def CPU_FOREACH_present [OF ok] using finite_cpus [OF ok] by simp
  then show ?thesis using finite_cpus [OF ok] by (simp add: sum_list_distinct_conv_sum_set)
qed

lemma DPCPU_ZERO_zeros:
  assumes "dpcpu_ok c maxid off n (unat sz) m"
  shows "\<exists>m'. DPCPU_ZERO c (of_nat maxid) off n sz m = Some m' \<and> dom m' = dom m \<and>
    (\<forall>i\<in>cpus c. \<forall>x. in_region (copy_at off n i) (unat sz) x \<longrightarrow> m' x = Some 0)"
proof -
  have ok: "smp_ok c maxid" using assms by (simp add: dpcpu_ok_def)
  let ?body = "\<lambda>i m. do { p \<leftarrow> DPCPU_ID_PTR off (of_nat i) n; memset m p 0 sz }"
  have "\<exists>m'. fold_opt ?body is m = Some m' \<and> dom m' = dom m \<and> (\<forall>x. m x = Some 0 \<longrightarrow> m' x = Some 0) \<and>
      (\<forall>i\<in>set is. \<forall>x. in_region (copy_at off n i) (unat sz) x \<longrightarrow> m' x = Some 0)"
    if "set is \<subseteq> cpus c" "\<forall>i\<in>set is. mapped m (copy_at off n i) (unat sz)" for "is" m
    using that
  proof (induction "is" arbitrary: m)
    case (Cons i "is")
    then obtain m1 where m1: "memset m (copy_at off n i) 0 sz = Some m1"
      using memset_mapped [of m "copy_at off n i" 0 sz] by auto
    have "\<forall>j\<in>set is. mapped m1 (copy_at off n j) (unat sz)"
      using Cons.prems(2) mapped_cong_dom [OF dom_memset [OF m1]] by simp
    from Cons.IH [OF _ this] Cons.prems(1) obtain m' where m': "fold_opt ?body is m1 = Some m'" "dom m' = dom m1"
      "\<forall>x. m1 x = Some 0 \<longrightarrow> m' x = Some 0" "\<forall>i\<in>set is. \<forall>x. in_region (copy_at off n i) (unat sz) x \<longrightarrow> m' x = Some 0" by auto
    have "fold_opt ?body (i # is) m = Some m'"
      using m1 m'(1) Cons.prems(1) DPCPU_ID_PTR_present [OF assms, of i] by simp
    then show ?case using m'(2-4) memset_apply [OF m1] dom_memset [OF m1] by auto
  qed simp
  from this [of "sorted_list_of_set (cpus c)" m] show ?thesis
    unfolding DPCPU_ZERO_def CPU_FOREACH_present [OF ok] using finite_cpus [OF ok] assms by (auto simp: dpcpu_ok_def)
qed

lemma load_word_zeros:
  assumes "\<forall>x. in_region a k x \<longrightarrow> m x = Some 0" and "k = LENGTH('a) div 8" and "k \<le> address_space"
  shows "load_word m a = Some (0 :: 'a::len word)"
proof -
  have "load_bytes m a k = Some (replicate k 0)" using assms(1,3) in_region_offset [of _ k a] by (simp add: load_bytes_conv)
  moreover have "word_of_bytes (replicate j 0) = (0 :: 'a word)" for j by (induction j) simp_all
  ultimately show ?thesis using assms(2) by (simp add: load_word_def)
qed

text \<open>C19 A variable with a copy for each processor: \<open>DPCPU_SUM\<close> returns the sum of the copies of the processors present (with the wrap-around of its
  type); \<open>DPCPU_ID_SET\<close> of one processor changes the sum by the difference for that processor; after \<open>DPCPU_ZERO\<close> the sum is zero.\<close>

theorem dpcpu_sums:
  fixes val :: "nat \<Rightarrow> 'a::len word"
  assumes "dpcpu_ok all_cpus maxid dpcpu_off n (LENGTH('a) div 8) m" and "8 dvd LENGTH('a)" and "LENGTH('a) < address_space"
    and "\<forall>i\<in>cpus all_cpus. load_word m (DPCPU_PTR_at (dpcpu_off ! i) n) = Some (val i)"
  shows "DPCPU_SUM all_cpus (of_nat maxid) dpcpu_off n m = Some (\<Sum>i\<in>cpus all_cpus. val i) \<and>
    (\<forall>i\<in>cpus all_cpus. \<forall>v :: 'a word. \<exists>m'. DPCPU_ID_SET dpcpu_off (of_nat i) n v m = Some m' \<and>
       DPCPU_SUM all_cpus (of_nat maxid) dpcpu_off n m' = Some ((\<Sum>i\<in>cpus all_cpus. val i) - val i + v)) \<and>
    (\<exists>m'. DPCPU_ZERO all_cpus (of_nat maxid) dpcpu_off n (of_nat (LENGTH('a) div 8)) m = Some m' \<and>
       DPCPU_SUM all_cpus (of_nat maxid) dpcpu_off n m' = Some (0 :: 'a word))"
proof (intro conjI ballI allI)
  let ?k = "LENGTH('a) div 8" and ?c = all_cpus and ?at = "copy_at dpcpu_off n"
  have fin: "finite (cpus ?c)" using finite_cpus assms(1) by (auto simp: dpcpu_ok_def)
  have k: "unat (of_nat ?k :: u64) = ?k" "?k \<le> address_space" using assms(3) by (simp_all add: unat_of_nat)
  have ok': "dpcpu_ok ?c maxid dpcpu_off n ?k m'" if "dom m' = dom m" for m'
    using assms(1) mapped_cong_dom [OF that] by (simp add: dpcpu_ok_def)
  show "DPCPU_SUM ?c (of_nat maxid) dpcpu_off n m = Some (\<Sum>i\<in>cpus ?c. val i)"
    using DPCPU_SUM_value [OF assms(1), of val] assms(4) by simp
  show "\<exists>m'. DPCPU_ID_SET dpcpu_off (of_nat i) n v m = Some m' \<and>
       DPCPU_SUM ?c (of_nat maxid) dpcpu_off n m' = Some ((\<Sum>i\<in>cpus ?c. val i) - val i + v)" if i: "i \<in> cpus ?c" for i and v :: "'a word"
  proof -
    obtain m' where m': "store_word m (?at i) v = Some m'" using word_mapped(2) [of m "?at i" v] assms(1) i by (auto simp: dpcpu_ok_def)
    have "load_word m' (?at j) = Some ((val(i := v)) j)" if j: "j \<in> cpus ?c" for j
      using load_store_word [OF assms(2) _ m'] store_word_other [OF m', of "?at j", where 'b = 'a] assms(1,3,4) i j
      by (cases "j = i") (auto simp: dpcpu_ok_def)
    with DPCPU_SUM_value [OF ok', of m' "val(i := v)"] m' have "DPCPU_SUM ?c (of_nat maxid) dpcpu_off n m' = Some (\<Sum>j\<in>cpus ?c. (val(i := v)) j)"
      by (simp add: store_word_def dom_store_bytes)
    moreover have "(\<Sum>j\<in>cpus ?c. (val(i := v)) j) = (\<Sum>j\<in>cpus ?c. val j) - val i + v"
      using fin i by (simp add: sum.remove [of _ i])
    ultimately show ?thesis using m' DPCPU_ID_PTR_present [OF assms(1) i] by (simp add: DPCPU_ID_SET_def)
  qed
  obtain m' where m': "DPCPU_ZERO ?c (of_nat maxid) dpcpu_off n (of_nat ?k) m = Some m'" "dom m' = dom m"
    "\<forall>i\<in>cpus ?c. \<forall>x. in_region (?at i) ?k x \<longrightarrow> m' x = Some 0"
    using DPCPU_ZERO_zeros [of ?c maxid dpcpu_off n "of_nat ?k" m] assms(1) k by auto
  have "DPCPU_SUM ?c (of_nat maxid) dpcpu_off n m' = Some (\<Sum>i\<in>cpus ?c. 0 :: 'a word)"
    using DPCPU_SUM_value [OF ok' [OF m'(2)], of "\<lambda>_. 0"] load_word_zeros [OF _ refl k(2)] m'(3) by blast
  then show "\<exists>m'. DPCPU_ZERO ?c (of_nat maxid) dpcpu_off n (of_nat ?k) m = Some m' \<and>
       DPCPU_SUM ?c (of_nat maxid) dpcpu_off n m' = Some (0 :: 'a word)" using m'(1) by auto
qed

text \<open>A pin is undone by an unpin, and flags that are set and cleared again leave the others.\<close>

lemma sched_unpin_pin: "sched_unpin (sched_pin n) = n" "sched_pin (sched_unpin n) = n"
  by (simp_all add: sched_pin_def sched_unpin_def)

lemma pcb_flags_local:
  "set_pcb_flags p f AND f = f" "set_pcb_flags p f AND NOT f = p AND NOT f"
  "clear_pcb_flags p f AND f = 0" "clear_pcb_flags p f AND NOT f = p AND NOT f"
  by (rule bit_word_eqI, auto simp: set_pcb_flags_def clear_pcb_flags_def bit_simps)+

section \<open>Witness\<close>

lemma sample_two_cpus: "cpus \<lparr>cpu_bits = [3]\<rparr> = {0, 1}"
proof -
  have "filter (bit (3 :: u64)) [0..<64] = [0, 1]" by code_simp
  then show ?thesis by (subst cpus_filter) simp_all
qed

theorem dpcpu_sums_witness:
  "DPCPU_SUM \<lparr>cpu_bits = [3]\<rparr> 1 [0x1000, 0x1004] 0 (memory_at 0x1000 [5, 0, 0, 0, 7, 0, 0, 0]) = Some (12 :: u32)"
proof -
  let ?c = "\<lparr>cpu_bits = [3]\<rparr>" and ?m = "memory_at 0x1000 [5, 0, 0, 0, 7, 0, 0, 0]" and ?val = "\<lambda>i. if i = 0 then 5 else 7 :: u32"
  have "mapped ?m (0x1000 + 0) 4" "mapped ?m (0x1000 + 4) 4" by (rule mapped_memory_at; simp)+
  then have "dpcpu_ok ?c 1 [0x1000, 0x1004] 0 4 ?m"
    by (simp add: dpcpu_ok_def smp_ok_def cpu_ok_def sample_two_cpus DPCPU_PTR_at_def disjoint_regions_def)
  moreover have "load_word ?m 0x1000 = Some (5 :: u32)" "load_word ?m 0x1004 = Some (7 :: u32)" by code_simp+
  ultimately show ?thesis
    using dpcpu_sums [of ?c 1 "[0x1000, 0x1004]" 0 ?m ?val] by (simp add: sample_two_cpus DPCPU_PTR_at_def)
qed

end
