(* ===== verification/Bit_Counts.thy ===== *)
theory Bit_Counts
  imports Ps4_Prelude
begin

text \<open>
  The bit counts of \<open>include/sys/systm.h\<close>, which add neighbouring fields of a word, first of one bit, then of two, four,
  and so on.  The specification is the number of bits set.
\<close>

unbundle bit_operations_syntax

definition bitcount32 :: "u32 \<Rightarrow> u32" where
  "bitcount32 x =
     (let x = (x AND 0x55555555) + drop_bit 1 (x AND 0xaaaaaaaa);
          x = (x AND 0x33333333) + drop_bit 2 (x AND 0xcccccccc);
          x = (x + drop_bit 4 x) AND 0x0f0f0f0f;
          x = x + drop_bit 8 x;
          x = (x + drop_bit 16 x) AND 0x000000ff
      in x)"

definition bitcount16 :: "u32 \<Rightarrow> u16" where
  "bitcount16 x =
     (let x = (x AND 0x5555) + drop_bit 1 (x AND 0xaaaa);
          x = (x AND 0x3333) + drop_bit 2 (x AND 0xcccc);
          x = (x + drop_bit 4 x) AND 0x0f0f;
          x = (x + drop_bit 8 x) AND 0x00ff
      in ucast x)"

section \<open>Words as fields\<close>

text \<open>The number with the fields \<open>ds\<close> of \<open>w\<close> bits, the lowest first.\<close>

definition fields :: "nat \<Rightarrow> int list \<Rightarrow> int" where
  "fields w ds = horner_sum id (2 ^ w) ds"

lemma fields_simps [simp]: "fields w [] = 0" "fields w (d # ds) = d + 2 ^ w * fields w ds"
  by (simp_all add: fields_def)

abbreviation fits :: "nat \<Rightarrow> int list \<Rightarrow> bool" where
  "fits w ds \<equiv> \<forall>d\<in>set ds. 0 \<le> d \<and> d < 2 ^ w"

lemma and_field:
  assumes "0 \<le> (a :: int)" "a < 2 ^ w" "0 \<le> b" "b < 2 ^ w"
  shows "(a + 2 ^ w * A) AND (b + 2 ^ w * B) = (a AND b) + 2 ^ w * (A AND B)"
proof -
  have c: "c + 2 ^ w * C = concat_bit w c C" if "0 \<le> c" "c < 2 ^ w" for c C :: int
    using that by (simp add: concat_bit_eq take_bit_int_eq_self push_bit_eq_mult mult.commute)
  have ab: "0 \<le> a AND b" "a AND b < 2 ^ w"
    using assms AND_upper1 [of a b] by (auto simp: le_less_trans)
  show ?thesis
    unfolding c [OF assms(1,2)] c [OF assms(3,4)] c [OF ab]
    by (rule bit_eqI) (auto simp: bit_and_iff bit_concat_bit_iff)
qed

text \<open>The first and the second of each pair of fields.\<close>

fun firsts :: "int list \<Rightarrow> int list" where
  "firsts (a # b # ds) = a # firsts ds" | "firsts ds = []"

fun seconds :: "int list \<Rightarrow> int list" where
  "seconds (a # b # ds) = b # seconds ds" | "seconds ds = []"

definition pair_sums :: "int list \<Rightarrow> int list" where
  "pair_sums ds = map2 (+) (firsts ds) (seconds ds)"

lemma length_firsts: "length ds = 2 * n \<Longrightarrow> length (firsts ds) = n \<and> length (seconds ds) = n"
  by (induction ds arbitrary: n rule: firsts.induct) (auto, (case_tac n; simp)+)

lemma and_low_fields:
  "fits w ds \<Longrightarrow> length ds = 2 * n \<Longrightarrow> fields w ds AND fields (2 * w) (replicate n (2 ^ w - 1)) = fields (2 * w) (firsts ds)"
proof (induction n arbitrary: ds)
  case (Suc n)
  obtain a b es where ds: "ds = a # b # es" using Suc.prems(2) by (cases ds rule: firsts.cases) auto
  have "a + 2 ^ w * (b + 2 ^ w * fields w es) AND (2 ^ w - 1) + 2 ^ w * (0 + 2 ^ w * fields (2 * w) (replicate n (2 ^ w - 1))) =
      (a AND (2 ^ w - 1)) + 2 ^ w * ((b AND 0) + 2 ^ w * (fields w es AND fields (2 * w) (replicate n (2 ^ w - 1))))"
    using Suc.prems(1) ds by (subst and_field; (subst and_field)?) auto
  moreover have "a AND (2 ^ w - 1) = a"
    using Suc.prems(1) ds by (simp add: flip: mask_eq_exp_minus_1 take_bit_eq_mask) (simp add: take_bit_int_eq_self)
  ultimately show ?case using Suc.IH [of es] Suc.prems ds by (simp add: power_add mult_2 mult.assoc)
qed simp

lemma and_high_fields:
  "fits w ds \<Longrightarrow> length ds = 2 * n \<Longrightarrow>
    fields w ds AND fields (2 * w) (replicate n (2 ^ w * (2 ^ w - 1))) = 2 ^ w * fields (2 * w) (seconds ds)"
proof (induction n arbitrary: ds)
  case (Suc n)
  obtain a b es where ds: "ds = a # b # es" using Suc.prems(2) by (cases ds rule: firsts.cases) auto
  let ?m = "fields (2 * w) (replicate n (2 ^ w * (2 ^ w - 1)))"
  have "a + 2 ^ w * (b + 2 ^ w * fields w es) AND 0 + 2 ^ w * ((2 ^ w - 1) + 2 ^ w * ?m) =
      (a AND 0) + 2 ^ w * ((b AND (2 ^ w - 1)) + 2 ^ w * (fields w es AND ?m))"
    using Suc.prems(1) ds by (subst and_field; (subst and_field)?) auto
  moreover have "b AND (2 ^ w - 1) = b"
    using Suc.prems(1) ds by (simp add: flip: mask_eq_exp_minus_1 take_bit_eq_mask) (simp add: take_bit_int_eq_self)
  moreover have "fields w es AND ?m = 2 ^ w * fields (2 * w) (seconds es)" using Suc.IH [of es] Suc.prems ds by simp
  moreover have "2 ^ w * (2 ^ w - 1) + 2 ^ (2 * w) * ?m = 0 + 2 ^ w * ((2 ^ w - 1) + 2 ^ w * ?m)"
    unfolding mult_2 power_add by (simp add: algebra_simps)
  ultimately show ?case using ds by (simp add: power_add mult_2 mult.assoc)
qed simp

lemma uint_drop: "uint (drop_bit n (x :: 'a::len word)) = uint x div 2 ^ n"
  using unsigned_less [of x] by (subst unsigned_drop_bit_eq) (simp add: drop_bit_eq_div take_bit_int_eq_self)

lemma fields_bound: "fits w ds \<Longrightarrow> 0 \<le> fields w ds \<and> fields w ds < 2 ^ (w * length ds)"
proof (induction ds)
  case (Cons d ds)
  then have "d + 2 ^ w * fields w ds \<le> (2 ^ w - 1) + 2 ^ w * (2 ^ (w * length ds) - 1)"
    by (intro add_mono mult_left_mono) auto
  with Cons show ?case by (simp add: power_add algebra_simps)
qed simp

lemma fields_add: "length as = length bs \<Longrightarrow> fields w as + fields w bs = fields w (map2 (+) as bs)"
proof (induction as bs rule: list_induct2)
  case (Cons a as b bs)
  then show ?case by (simp add: distrib_left flip: Cons.IH)
qed simp

lemma sum_pair_sums: "length ds = 2 * n \<Longrightarrow> sum_list (pair_sums ds) = sum_list ds"
proof (induction n arbitrary: ds)
  case (Suc n)
  obtain a b es where "ds = a # b # es" using Suc.prems by (cases ds rule: firsts.cases) auto
  with Suc show ?case by (simp add: pair_sums_def)
qed (simp add: pair_sums_def)

lemma pair_sums_range:
  "length ds = 2 * n \<Longrightarrow> \<forall>d\<in>set ds. 0 \<le> d \<and> d \<le> k \<Longrightarrow> length (pair_sums ds) = n \<and> (\<forall>d\<in>set (pair_sums ds). 0 \<le> d \<and> d \<le> 2 * k)"
proof (induction n arbitrary: ds)
  case (Suc n)
  obtain a b es where "ds = a # b # es" using Suc.prems by (cases ds rule: firsts.cases) auto
  with Suc show ?case by (fastforce simp: pair_sums_def)
qed (simp add: pair_sums_def)

text \<open>One round of the first kind: the even and the odd fields, masked apart and added.\<close>

lemma add_pairs:
  fixes x :: "'a::len word"
  assumes "uint x = fields w ds" and "length ds = 2 * n" and "\<forall>d\<in>set ds. 0 \<le> d \<and> d \<le> k"
    and "k < 2 ^ w" and "2 * k < 2 ^ (2 * w)" and "2 * w * n \<le> LENGTH('a)"
    and "uint lo = fields (2 * w) (replicate n (2 ^ w - 1))" and "uint hi = fields (2 * w) (replicate n (2 ^ w * (2 ^ w - 1)))"
  shows "uint ((x AND lo) + drop_bit w (x AND hi)) = fields (2 * w) (pair_sums ds)"
proof -
  have fit: "fits w ds" using assms(3,4) by force
  have "uint (x AND lo) = fields (2 * w) (firsts ds)"
    using and_low_fields [OF fit assms(2)] assms(1,7) by (simp add: uint_and)
  moreover have "uint (drop_bit w (x AND hi)) = fields (2 * w) (seconds ds)"
    using and_high_fields [OF fit assms(2)] assms(1,8) by (subst uint_drop) (simp add: uint_and)
  moreover have "fields (2 * w) (firsts ds) + fields (2 * w) (seconds ds) = fields (2 * w) (pair_sums ds)"
    using length_firsts [OF assms(2)] by (simp add: pair_sums_def fields_add)
  moreover have "0 \<le> fields (2 * w) (pair_sums ds) \<and> fields (2 * w) (pair_sums ds) < 2 ^ (2 * w * n)"
    using pair_sums_range [OF assms(2,3)] assms(5) fields_bound [of "pair_sums ds" "2 * w"] by force
  moreover have "(2 :: int) ^ (2 * w * n) \<le> 2 ^ LENGTH('a)" using assms(6) by (intro power_increasing) auto
  ultimately have "uint (x AND lo) + uint (drop_bit w (x AND hi)) = fields (2 * w) (pair_sums ds)"
    "0 \<le> fields (2 * w) (pair_sums ds)" "fields (2 * w) (pair_sums ds) < 2 ^ LENGTH('a)" by linarith+
  then show ?thesis unfolding uint_word_ariths by (simp only: mod_pos_pos_trivial)
qed


text \<open>The round of the second kind: fields with room for the sum are added first and masked afterwards.\<close>

lemma add_neighbours:
  fixes x :: "'a::len word"
  assumes "uint x = fields w ds" and "length ds = 2 * n" and "0 < n" and "\<forall>d\<in>set ds. 0 \<le> d \<and> d \<le> k"
    and "2 * k < 2 ^ w" and "2 * w * n \<le> LENGTH('a)" and "uint lo = fields (2 * w) (replicate n (2 ^ w - 1))"
  shows "uint ((x + drop_bit w x) AND lo) = fields (2 * w) (pair_sums ds)"
proof -
  obtain d es where ds: "ds = d # es" using assms(2,3) by (cases ds) auto
  let ?s = "map2 (+) ds (es @ [0])"
  have fit: "0 \<le> d" "d < 2 ^ w" using assms(4,5) ds by auto
  have "uint (drop_bit w x) = fields w es" using fit assms(1) ds by (subst uint_drop) simp
  also have "\<dots> = fields w (es @ [0])" by (induction es) simp_all
  finally have sum: "uint x + uint (drop_bit w x) = fields w ?s" using assms(1) ds by (simp add: fields_add del: fields_simps)
  have "0 \<le> a \<and> a \<le> 2 * k" if "a \<in> set ?s" for a
  proof -
    from that obtain b c where bc: "(b, c) \<in> set (zip ds (es @ [0]))" "a = b + c" by auto
    have "b \<in> set ds" "c \<in> set (es @ [0])" using set_zip_leftD [OF bc(1)] set_zip_rightD [OF bc(1)] by simp_all
    then have "0 \<le> b \<and> b \<le> k" "0 \<le> c \<and> c \<le> k" using assms(4) ds by auto
    with bc(2) show ?thesis by simp
  qed
  then have fits: "fits w ?s" using assms(5) by force
  have len: "length ?s = 2 * n" using assms(2) ds by simp
  have "(2 :: int) ^ (w * (2 * n)) \<le> 2 ^ LENGTH('a)" using assms(6) by (intro power_increasing) (auto simp: ac_simps)
  moreover have "0 \<le> fields w ?s \<and> fields w ?s < 2 ^ (w * (2 * n))" using fields_bound [OF fits] len by (simp only:)
  ultimately have "uint (x + drop_bit w x) = fields w ?s"
    unfolding uint_word_ariths sum by (intro mod_pos_pos_trivial) linarith+
  then have "uint ((x + drop_bit w x) AND lo) = fields (2 * w) (firsts ?s)"
    using and_low_fields [OF fits len] assms(7) by (simp add: uint_and)
  moreover have "firsts (map2 (+) ds (tl ds @ [0])) = pair_sums ds" if "length ds = 2 * n" for ds n
    using that
  proof (induction n arbitrary: ds)
    case (Suc n)
    obtain a b fs where ds: "ds = a # b # fs" using Suc.prems by (cases ds rule: firsts.cases) auto
    with Suc.IH [of fs] Suc.prems show ?case by (cases fs) (simp_all add: pair_sums_def)
  qed (simp add: pair_sums_def)
  then have "firsts ?s = pair_sums ds" using assms(2) ds by (metis list.sel(3))
  ultimately show ?thesis by simp
qed

lemma uint_bits: "uint (x :: 'a::len word) = fields 1 (map (\<lambda>n. of_bool (bit x n)) [0..<LENGTH('a)])"
proof -
  have "fields 1 (map of_bool bs) = horner_sum of_bool 2 bs" for bs by (induction bs) simp_all
  then have "fields 1 (map (\<lambda>n. of_bool (bit (uint x) n)) [0..<LENGTH('a)]) = take_bit LENGTH('a) (uint x)"
    using horner_sum_bit_eq_take_bit [of "uint x" "LENGTH('a)"] by (metis (no_types, lifting) map_map comp_def map_eq_conv)
  moreover have "map (\<lambda>n. of_bool (bit (uint x) n)) [0..<LENGTH('a)] = map (\<lambda>n. of_bool (bit x n) :: int) [0..<LENGTH('a)]"
    by (auto simp: bit_uint_iff)
  moreover have "take_bit LENGTH('a) (uint x) = uint x" using unsigned_less [of x] by (simp add: take_bit_int_eq_self)
  ultimately show ?thesis by simp
qed

lemma sum_bits: "sum_list (map (\<lambda>n. of_bool (P n)) [0..<k]) = int (card {n. n < k \<and> P n})"
proof (induction k)
  case (Suc k)
  have "{n. n < Suc k \<and> P n} = (if P k then insert k {n. n < k \<and> P n} else {n. n < k \<and> P n})" by (auto simp: less_Suc_eq)
  with Suc show ?case by simp
qed simp


lemma masks:
  "fields 2 (replicate 16 1) = 0x55555555" "fields 2 (replicate 16 2) = 0xaaaaaaaa" "fields 4 (replicate 8 3) = 0x33333333"
  "fields 4 (replicate 8 12) = 0xcccccccc" "fields 8 (replicate 4 15) = 0x0f0f0f0f" "fields 2 (replicate 8 1) = 0x5555"
  "fields 2 (replicate 8 2) = 0xaaaa" "fields 4 (replicate 4 3) = 0x3333" "fields 4 (replicate 4 12) = 0xcccc" "fields 8 (replicate 2 15) = 0x0f0f"
  by code_simp+

text \<open>The three rounds that both functions begin with: \<open>8 * n\<close> bits become \<open>n\<close> fields of eight bits.\<close>

lemma three_rounds:
  fixes x :: "'a::len word"
  assumes "uint x = fields 1 ds" and "length ds = 8 * n" and "0 < n" and "\<forall>d\<in>set ds. 0 \<le> d \<and> d \<le> 1" and "8 * n \<le> LENGTH('a)"
    and "uint lo1 = fields 2 (replicate (4 * n) 1)" and "uint hi1 = fields 2 (replicate (4 * n) 2)"
    and "uint lo2 = fields 4 (replicate (2 * n) 3)" and "uint hi2 = fields 4 (replicate (2 * n) 12)" and "uint lo4 = fields 8 (replicate n 15)"
  shows "\<exists>es. length es = n \<and> (\<forall>e\<in>set es. 0 \<le> e \<and> e \<le> 8) \<and> sum_list es = sum_list ds \<and>
    uint (let x = (x AND lo1) + drop_bit 1 (x AND hi1); x = (x AND lo2) + drop_bit 2 (x AND hi2) in (x + drop_bit 4 x) AND lo4) = fields 8 es"
proof -
  define d1 where "d1 = pair_sums ds"
  define d2 where "d2 = pair_sums d1"
  define x1 where "x1 = (x AND lo1) + drop_bit 1 (x AND hi1)"
  define x2 where "x2 = (x1 AND lo2) + drop_bit 2 (x1 AND hi2)"
  have x1: "uint x1 = fields (2 * 1) d1" unfolding x1_def d1_def
    by (rule add_pairs [where n = "4 * n" and k = 1]) (use assms in auto)
  have d1: "length d1 = 4 * n" "\<forall>d\<in>set d1. 0 \<le> d \<and> d \<le> 2" "sum_list d1 = sum_list ds"
    using pair_sums_range [of ds "4 * n" 1] sum_pair_sums [of ds "4 * n"] assms(2,4) by (simp_all add: d1_def)
  have x2: "uint x2 = fields (2 * 2) d2" unfolding x2_def d2_def
    by (rule add_pairs [where n = "2 * n" and k = 2]) (use assms x1 d1 in auto)
  have d2: "length d2 = 2 * n" "\<forall>d\<in>set d2. 0 \<le> d \<and> d \<le> 4" "sum_list d2 = sum_list d1"
    using pair_sums_range [of d1 "2 * n" 2] sum_pair_sums [of d1 "2 * n"] d1 by (simp_all add: d2_def)
  have "uint ((x2 + drop_bit 4 x2) AND lo4) = fields (2 * 4) (pair_sums d2)"
    by (rule add_neighbours [where n = n and k = 4]) (use assms x2 d2 in auto)
  then show ?thesis
    using pair_sums_range [of d2 n 4] sum_pair_sums [of d2 n] d1(3) d2 by (intro exI [of _ "pair_sums d2"]) (simp add: x1_def x2_def Let_def)
qed

lemma bits_of:
  fixes x :: "'a::len word"
  assumes "k \<le> LENGTH('a)"
  obtains ds where "uint (take_bit k x) = fields 1 ds" "length ds = k" "\<forall>d\<in>set ds. 0 \<le> d \<and> d \<le> 1"
    "sum_list ds = int (card {n. n < k \<and> bit x n})"
proof -
  let ?ds = "map (\<lambda>n. of_bool (bit x n) :: int) [0..<k]"
  have "fields 1 (ds @ replicate j 0) = fields 1 ds" for ds j by (induction ds) (simp_all, induction j, simp_all)
  moreover have "map (\<lambda>n. of_bool (bit (take_bit k x) n)) [0..<LENGTH('a)] = ?ds @ replicate (LENGTH('a) - k) 0"
    using assms by (intro nth_equalityI) (auto simp: nth_append bit_take_bit_iff)
  ultimately have "uint (take_bit k x) = fields 1 ?ds" using uint_bits [of "take_bit k x"] by metis
  then show thesis using that [of ?ds] sum_bits [of "bit x" k] by simp
qed

lemma uint_and_255: "uint (w AND 255 :: u32) = uint w mod 256"
proof -
  have "uint w AND 255 = take_bit 8 (uint w)" by (simp add: take_bit_eq_mask mask_eq_exp_minus_1)
  then show ?thesis by (simp add: uint_and take_bit_eq_mod)
qed

lemma last_rounds32:
  assumes "uint (y :: u32) = a + 256 * (b + 256 * (c + 256 * d))" and "\<forall>e\<in>{a, b, c, d}. 0 \<le> e \<and> e \<le> 8"
  shows "uint (let x = y + drop_bit 8 y in (x + drop_bit 16 x) AND 255) = a + b + c + d"
proof -
  have y8: "uint (drop_bit 8 y) = b + 256 * (c + 256 * d)" using assms by (subst uint_drop) auto
  define z where "z = y + drop_bit 8 y"
  have z: "uint z = (a + b) + 256 * ((b + c) + 256 * ((c + d) + 256 * d))"
    unfolding z_def uint_word_ariths y8 assms(1) using assms(2) by (subst mod_pos_pos_trivial) auto
  have "((a + b) + 256 * ((b + c) + 256 * ((c + d) + 256 * d))) div 65536 = (c + d) + 256 * d"
  proof -
    have "((a + b) + 256 * ((b + c) + 256 * ((c + d) + 256 * d))) = ((a + b) + 256 * (b + c)) + ((c + d) + 256 * d) * 65536" by simp
    moreover have "((a + b) + 256 * (b + c)) div 65536 = 0" using assms(2) by auto
    ultimately show ?thesis by (metis add.left_neutral add.commute div_mult_self1 zero_neq_numeral)
  qed
  then have z16: "uint (drop_bit 16 z) = (c + d) + 256 * d" using z by (subst uint_drop) simp
  have "uint (z + drop_bit 16 z) = (a + b + c + d) + 256 * ((b + c + d) + 256 * ((c + d) + 256 * d))"
    unfolding uint_word_ariths z z16 using assms(2) by (subst mod_pos_pos_trivial) auto
  moreover have "((a + b + c + d) + 256 * ((b + c + d) + 256 * ((c + d) + 256 * d))) mod 256 = a + b + c + d"
    unfolding mod_mult_self2 using assms(2) by (intro mod_pos_pos_trivial) auto
  ultimately show ?thesis unfolding Let_def z_def [symmetric] by (subst uint_and_255) (simp only:)
qed


lemma list4:
  assumes "length es = 4"
  obtains a b c d where "es = [a, b, c, d]"
  using assms by (auto simp: numeral_eq_Suc length_Suc_conv)

lemma list2:
  assumes "length es = 2"
  obtains a b where "es = [a, b]"
  using assms by (auto simp: numeral_eq_Suc length_Suc_conv)

lemma uint_ucast16: "uint (r :: u32) \<le> 255 \<Longrightarrow> uint (ucast r :: u16) = uint r"
  unfolding unsigned_ucast_eq take_bit_eq_mod by (intro mod_pos_pos_trivial) auto

lemma low_bits: "take_bit 16 m = m \<Longrightarrow> (x :: u32) AND m = take_bit 16 x AND m"
  by (metis (no_types) and.left_commute take_bit_and take_bit_eq_mask and.assoc and.commute and.idem)

lemma last_round16:
  assumes "uint (y :: u32) = a + 256 * b" and "\<forall>e\<in>{a, b}. 0 \<le> e \<and> e \<le> 8"
  shows "uint ((y + drop_bit 8 y) AND 255) = a + b"
proof -
  have "uint (drop_bit 8 y) = b" using assms by (subst uint_drop) auto
  then have "uint (y + drop_bit 8 y) = (a + b) + 256 * b"
    using assms unfolding uint_word_ariths by (subst mod_pos_pos_trivial) auto
  moreover have "((a + b) + 256 * b) mod 256 = a + b"
    unfolding mod_mult_self2 using assms(2) by (intro mod_pos_pos_trivial) auto
  ultimately show ?thesis by (subst uint_and_255) (simp only:)
qed

lemma bitcount32_sum: "uint (bitcount32 x) = int (card {n. n < 32 \<and> bit x n})"
proof -
  let ?y = "let x = (x AND 0x55555555) + drop_bit 1 (x AND 0xaaaaaaaa); x = (x AND 0x33333333) + drop_bit 2 (x AND 0xcccccccc)
     in (x + drop_bit 4 x) AND 0x0f0f0f0f"
  obtain ds where ds: "uint (take_bit 32 x) = fields 1 ds" "length ds = 32" "\<forall>d\<in>set ds. 0 \<le> d \<and> d \<le> 1"
      "sum_list ds = int (card {n. n < 32 \<and> bit x n})"
    by (rule bits_of [of 32 x]) simp
  have x: "take_bit 32 x = x" by (simp add: take_bit_word_eq_self)
  have "\<exists>es. length es = 4 \<and> (\<forall>e\<in>set es. 0 \<le> e \<and> e \<le> 8) \<and> sum_list es = sum_list ds \<and> uint ?y = fields 8 es"
    by (rule three_rounds) (use ds(1-3) x in \<open>simp_all add: masks del: fields_simps\<close>)
  then obtain es where es: "length es = 4" "\<forall>e\<in>set es. 0 \<le> e \<and> e \<le> 8" "sum_list es = sum_list ds" "uint ?y = fields 8 es" by blast
  obtain a b c d where abcd: "es = [a, b, c, d]" by (rule list4 [OF es(1)])
  have "uint ?y = a + 256 * (b + 256 * (c + 256 * d))" unfolding es(4) abcd by simp
  then have "uint (bitcount32 x) = a + b + c + d"
    using last_rounds32 [of ?y a b c d] es(2) unfolding abcd bitcount32_def Let_def by simp
  then show ?thesis using abcd es(3) ds(4) by simp
qed

lemma bitcount16_sum: "unat (bitcount16 x) = card {n. n < 16 \<and> bit x n}"
proof -
  let ?y = "let x = (take_bit 16 x AND 0x5555) + drop_bit 1 (take_bit 16 x AND 0xaaaa); x = (x AND 0x3333) + drop_bit 2 (x AND 0xcccc)
     in (x + drop_bit 4 x) AND 0x0f0f"
  obtain ds where ds: "uint (take_bit 16 x) = fields 1 ds" "length ds = 16" "\<forall>d\<in>set ds. 0 \<le> d \<and> d \<le> 1"
      "sum_list ds = int (card {n. n < 16 \<and> bit x n})"
    by (rule bits_of [of 16 x]) simp
  have "\<exists>es. length es = 2 \<and> (\<forall>e\<in>set es. 0 \<le> e \<and> e \<le> 8) \<and> sum_list es = sum_list ds \<and> uint ?y = fields 8 es"
    by (rule three_rounds) (use ds(1-3) in \<open>simp_all add: masks del: fields_simps\<close>)
  then obtain es where es: "length es = 2" "\<forall>e\<in>set es. 0 \<le> e \<and> e \<le> 8" "sum_list es = sum_list ds" "uint ?y = fields 8 es" by blast
  obtain a b where ab: "es = [a, b]" by (rule list2 [OF es(1)])
  have y: "uint ?y = a + 256 * b" unfolding es(4) ab by simp
  let ?r = "(?y + drop_bit 8 ?y) AND 255"
  have r: "uint ?r = a + b" using last_round16 [OF y] es(2) ab by simp
  have "take_bit 16 x AND 0x5555 = x AND 0x5555" "take_bit 16 x AND 0xaaaa = x AND 0xaaaa"
    by (rule low_bits [symmetric], simp)+
  then have "bitcount16 x = ucast ?r" unfolding bitcount16_def Let_def by (simp only:)
  moreover have "uint (ucast ?r :: u16) = uint ?r" by (rule uint_ucast16, unfold r) (use es(2) ab in auto)
  ultimately have "uint (bitcount16 x) = a + b" using r by simp
  then have "uint (bitcount16 x) = int (card {n. n < 16 \<and> bit x n})" using ab es(3) ds(4) by simp
  then show ?thesis by (simp only: unat_eq_nat_uint nat_int)
qed

text \<open>C24 The bit counts count bits: for every word, \<open>bitcount32\<close> is the number of bits that are set, and \<open>bitcount16\<close> the number of
  those among the lower sixteen.\<close>

theorem bitcount_counts:
  "unat (bitcount32 x) = card {n. bit x n} \<and> unat (bitcount16 x) = card {n. n < 16 \<and> bit x n}"
proof -
  have "{n. n < 32 \<and> bit x n} = {n. bit x n}" using bit_imp_le_length [of x] by auto
  then have "unat (bitcount32 x) = card {n. bit x n}" using bitcount32_sum [of x] by (simp only: unat_eq_nat_uint nat_int)
  then show ?thesis using bitcount16_sum by (rule conjI)
qed

end
