(* ===== verification/Packed_Codes.thy ===== *)
theory Packed_Codes
  imports Ps4_Prelude
begin

text \<open>
  Numbers into which the headers pack several values: the commands of \<open>ioctl\<close> (\<open>include/sys/ioccom.h\<close>), the status that
  \<open>wait\<close> reports (\<open>sys/wait.h\<close>), device numbers (\<open>sys/types.h\<close>), file types (\<open>sys/stat.h\<close>, \<open>sys/dirent.h\<close>), priorities of
  messages (\<open>syslog.h\<close>) and of threads (\<open>sys/priority.h\<close>), segment selectors and descriptors (\<open>machine/segments.h\<close>), the debug control register
  (\<open>machine/reg.h\<close>) and the 32 bit ELF fields (\<open>sys/elf32.h\<close>).  An \<open>int\<close> is its bit pattern; a shift to the right of one
  is \<open>signed_drop_bit\<close>.

  Shown: what is packed comes out again, and which values do not fit.
\<close>

unbundle bit_operations_syntax

section \<open>Commands of ioctl\<close>

abbreviation IOCPARM_SHIFT :: nat where "IOCPARM_SHIFT \<equiv> 13"

definition IOCPARM_MASK :: u64 where
  "IOCPARM_MASK = push_bit IOCPARM_SHIFT 1 - 1"

definition IOCPARM_LEN :: "u64 \<Rightarrow> u64" where
  "IOCPARM_LEN x = drop_bit 16 x AND IOCPARM_MASK"

definition IOCBASECMD :: "u64 \<Rightarrow> u64" where
  "IOCBASECMD x = x AND NOT (push_bit 16 IOCPARM_MASK)"

definition IOCGROUP :: "u64 \<Rightarrow> u64" where
  "IOCGROUP x = drop_bit 8 x AND 0xff"

definition IOCPARM_MAX :: u64 where
  "IOCPARM_MAX = push_bit IOCPARM_SHIFT 1"

abbreviation IOC_VOID :: u64 where "IOC_VOID \<equiv> 0x20000000"
abbreviation IOC_OUT :: u64 where "IOC_OUT \<equiv> 0x40000000"
abbreviation IOC_IN :: u64 where "IOC_IN \<equiv> 0x80000000"

definition IOC_INOUT :: u64 where "IOC_INOUT = IOC_IN OR IOC_OUT"
definition IOC_DIRMASK :: u64 where "IOC_DIRMASK = IOC_VOID OR IOC_OUT OR IOC_IN"

text \<open>The group and the number are of type \<open>int\<close> and widened with their sign; the length is a size.\<close>

definition IOC :: "u64 \<Rightarrow> u32 \<Rightarrow> u32 \<Rightarrow> u64 \<Rightarrow> u64" where
  "IOC inout grp num len =
     inout OR push_bit 16 (len AND IOCPARM_MASK) OR scast (push_bit 8 grp) OR scast num"

definition IO_cmd :: "u32 \<Rightarrow> u32 \<Rightarrow> u64" where "IO_cmd g n = IOC IOC_VOID g n 0"
definition IOWINT :: "u32 \<Rightarrow> u32 \<Rightarrow> u64" where "IOWINT g n = IOC IOC_VOID g n 4"
definition IOR :: "u32 \<Rightarrow> u32 \<Rightarrow> u64 \<Rightarrow> u64" where "IOR g n sizeof_t = IOC IOC_OUT g n sizeof_t"
definition IOW :: "u32 \<Rightarrow> u32 \<Rightarrow> u64 \<Rightarrow> u64" where "IOW g n sizeof_t = IOC IOC_IN g n sizeof_t"
definition IOWR :: "u32 \<Rightarrow> u32 \<Rightarrow> u64 \<Rightarrow> u64" where "IOWR g n sizeof_t = IOC IOC_INOUT g n sizeof_t"

section \<open>Status of a process\<close>

abbreviation WCOREFLAG :: u32 where "WCOREFLAG \<equiv> 0x80"
abbreviation WSTOPPED_status :: u32 where "WSTOPPED_status \<equiv> 0x7f"

definition WSTATUS :: "u32 \<Rightarrow> u32" where "WSTATUS x = x AND 0x7f"
definition WIFSTOPPED :: "u32 \<Rightarrow> bool" where "WIFSTOPPED x \<longleftrightarrow> WSTATUS x = WSTOPPED_status"
definition WSTOPSIG :: "u32 \<Rightarrow> u32" where "WSTOPSIG x = signed_drop_bit 8 x"
definition WIFSIGNALED :: "u32 \<Rightarrow> bool" where "WIFSIGNALED x \<longleftrightarrow> WSTATUS x \<noteq> WSTOPPED_status \<and> WSTATUS x \<noteq> 0"
definition WTERMSIG :: "u32 \<Rightarrow> u32" where "WTERMSIG x = WSTATUS x"
definition WIFEXITED :: "u32 \<Rightarrow> bool" where "WIFEXITED x \<longleftrightarrow> WSTATUS x = 0"
definition WEXITSTATUS :: "u32 \<Rightarrow> u32" where "WEXITSTATUS x = signed_drop_bit 8 x"
definition WIFCONTINUED :: "u32 \<Rightarrow> bool" where "WIFCONTINUED x \<longleftrightarrow> x = 0x13"
definition WCOREDUMP :: "u32 \<Rightarrow> u32" where "WCOREDUMP x = x AND WCOREFLAG"
definition W_EXITCODE :: "u32 \<Rightarrow> u32 \<Rightarrow> u32" where "W_EXITCODE ret sig = push_bit 8 ret OR sig"
definition W_STOPCODE :: "u32 \<Rightarrow> u32" where "W_STOPCODE sig = push_bit 8 sig OR WSTOPPED_status"

section \<open>Devices and files\<close>

definition major :: "u32 \<Rightarrow> u32" where "major x = drop_bit 8 x AND 0xff"
definition minor :: "u32 \<Rightarrow> u32" where "minor x = x AND 0xffff00ff"
definition makedev :: "u32 \<Rightarrow> u32 \<Rightarrow> u32" where "makedev x y = push_bit 8 x OR y"

definition S_ISDIR :: "u16 \<Rightarrow> bool" where "S_ISDIR m \<longleftrightarrow> m AND 0xf000 = 0x4000"
definition S_ISCHR :: "u16 \<Rightarrow> bool" where "S_ISCHR m \<longleftrightarrow> m AND 0xf000 = 0x2000"
definition S_ISBLK :: "u16 \<Rightarrow> bool" where "S_ISBLK m \<longleftrightarrow> m AND 0xf000 = 0x6000"
definition S_ISREG :: "u16 \<Rightarrow> bool" where "S_ISREG m \<longleftrightarrow> m AND 0xf000 = 0x8000"
definition S_ISFIFO :: "u16 \<Rightarrow> bool" where "S_ISFIFO m \<longleftrightarrow> m AND 0xf000 = 0x1000"
definition S_ISLNK :: "u16 \<Rightarrow> bool" where "S_ISLNK m \<longleftrightarrow> m AND 0xf000 = 0xa000"
definition S_ISSOCK :: "u16 \<Rightarrow> bool" where "S_ISSOCK m \<longleftrightarrow> m AND 0xf000 = 0xc000"
definition S_ISWHT :: "u16 \<Rightarrow> bool" where "S_ISWHT m \<longleftrightarrow> m AND 0xf000 = 0xe000"

text \<open>Both macros compute with \<open>int\<close>, to which a mode is promoted.\<close>

definition IFTODT :: "u16 \<Rightarrow> u32" where "IFTODT mode = drop_bit 12 (ucast mode AND 0xf000)"
definition DTTOIF :: "u32 \<Rightarrow> u32" where "DTTOIF dirtype = push_bit 12 dirtype"

section \<open>Priorities\<close>

abbreviation LOG_PRIMASK :: u32 where "LOG_PRIMASK \<equiv> 0x07"
abbreviation LOG_FACMASK :: u32 where "LOG_FACMASK \<equiv> 0x03f8"

definition LOG_PRI :: "u32 \<Rightarrow> u32" where "LOG_PRI p = p AND LOG_PRIMASK"
definition LOG_MAKEPRI :: "u32 \<Rightarrow> u32 \<Rightarrow> u32" where "LOG_MAKEPRI fac pri = fac OR pri"
definition LOG_FAC :: "u32 \<Rightarrow> u32" where "LOG_FAC p = signed_drop_bit 3 (p AND LOG_FACMASK)"
definition LOG_MASK :: "nat \<Rightarrow> u32" where "LOG_MASK pri = push_bit pri 1"
definition LOG_UPTO :: "nat \<Rightarrow> u32" where "LOG_UPTO pri = push_bit (pri + 1) 1 - 1"

abbreviation PRI_REALTIME :: u32 where "PRI_REALTIME \<equiv> 2"
abbreviation PRI_FIFO_BIT :: u32 where "PRI_FIFO_BIT \<equiv> 8"
definition PRI_FIFO :: u32 where "PRI_FIFO = PRI_FIFO_BIT OR PRI_REALTIME"
definition PRI_BASE :: "u32 \<Rightarrow> u32" where "PRI_BASE p = p AND NOT PRI_FIFO_BIT"
definition PRI_IS_REALTIME :: "u32 \<Rightarrow> bool" where "PRI_IS_REALTIME p \<longleftrightarrow> PRI_BASE p = PRI_REALTIME"
definition PRI_NEED_RR :: "u32 \<Rightarrow> bool" where "PRI_NEED_RR p \<longleftrightarrow> p \<noteq> PRI_FIFO"

section \<open>Segments and debug registers\<close>

abbreviation SEL_LDT :: u32 where "SEL_LDT \<equiv> 4"
definition ISPL :: "u32 \<Rightarrow> u32" where "ISPL s = s AND 3"
definition ISLDT :: "u32 \<Rightarrow> u32" where "ISLDT s = s AND SEL_LDT"
definition IDXSEL :: "u32 \<Rightarrow> u32" where "IDXSEL s = signed_drop_bit 3 s AND 0x1fff"
definition LSEL :: "u32 \<Rightarrow> u32 \<Rightarrow> u32" where "LSEL s r = push_bit 3 s OR SEL_LDT OR r"
definition GSEL :: "u32 \<Rightarrow> u32 \<Rightarrow> u32" where "GSEL s r = push_bit 3 s OR r"

text \<open>A segment descriptor is 64 bits wide; the members are bit fields, from the lowest bit on.  A bit field that is narrower than \<open>int\<close> has type
  \<open>int\<close> in an expression.\<close>

type_synonym descriptor = u64

definition bitfield :: "nat \<Rightarrow> nat \<Rightarrow> descriptor \<Rightarrow> u32" where
  "bitfield pos width d = ucast (take_bit width (drop_bit pos d))"

definition set_bitfield :: "nat \<Rightarrow> nat \<Rightarrow> u32 \<Rightarrow> descriptor \<Rightarrow> descriptor" where
  "set_bitfield pos width v d = (d AND NOT (push_bit pos (mask width))) OR push_bit pos (take_bit width (ucast v))"

definition sd_lolimit :: "descriptor \<Rightarrow> u32" where "sd_lolimit = bitfield 0 16"
definition sd_lobase :: "descriptor \<Rightarrow> u32" where "sd_lobase = bitfield 16 24"
definition sd_hilimit :: "descriptor \<Rightarrow> u32" where "sd_hilimit = bitfield 48 4"
definition sd_hibase :: "descriptor \<Rightarrow> u32" where "sd_hibase = bitfield 56 8"

definition USD_GETBASE :: "descriptor \<Rightarrow> u32" where "USD_GETBASE sd = sd_lobase sd OR push_bit 24 (sd_hibase sd)"
definition USD_SETBASE :: "descriptor \<Rightarrow> u32 \<Rightarrow> descriptor" where
  "USD_SETBASE sd b = set_bitfield 56 8 (drop_bit 24 b) (set_bitfield 16 24 b sd)"
definition USD_GETLIMIT :: "descriptor \<Rightarrow> u32" where "USD_GETLIMIT sd = sd_lolimit sd OR push_bit 16 (sd_hilimit sd)"
definition USD_SETLIMIT :: "descriptor \<Rightarrow> u32 \<Rightarrow> descriptor" where
  "USD_SETLIMIT sd l = set_bitfield 48 4 (drop_bit 16 l) (set_bitfield 0 16 l sd)"

definition DBREG_DR7_MASK :: "nat \<Rightarrow> u64" where
  "DBREG_DR7_MASK i = push_bit (i * 4 + 16) 0xf OR push_bit (i * 2) 0x3"
definition DBREG_DR7_SET :: "nat \<Rightarrow> u64 \<Rightarrow> u64 \<Rightarrow> u64 \<Rightarrow> u64" where
  "DBREG_DR7_SET i len access enable = push_bit (i * 4 + 16) (push_bit 2 len OR access) OR push_bit (i * 2) enable"
definition DBREG_DR7_ENABLED :: "u64 \<Rightarrow> nat \<Rightarrow> bool" where "DBREG_DR7_ENABLED d i \<longleftrightarrow> d AND push_bit (i * 2) 0x3 \<noteq> 0"
definition DBREG_DR7_ACCESS :: "u64 \<Rightarrow> nat \<Rightarrow> u64" where "DBREG_DR7_ACCESS d i = drop_bit (i * 4 + 16) d AND 0x3"
definition DBREG_DR7_LEN :: "u64 \<Rightarrow> nat \<Rightarrow> u64" where "DBREG_DR7_LEN d i = drop_bit (i * 4 + 18) d AND 0x3"

section \<open>The 32 bit ELF fields\<close>

definition ELF32_R_SYM :: "u32 \<Rightarrow> u32" where "ELF32_R_SYM info = drop_bit 8 info"
definition ELF32_R_TYPE :: "u32 \<Rightarrow> u8" where "ELF32_R_TYPE info = ucast info"
definition ELF32_R_INFO :: "u32 \<Rightarrow> u32 \<Rightarrow> u32" where "ELF32_R_INFO symb type = push_bit 8 symb + ucast (ucast type :: u8)"
definition ELF32_M_SYM :: "u32 \<Rightarrow> u32" where "ELF32_M_SYM info = drop_bit 8 info"
definition ELF32_M_SIZE :: "u32 \<Rightarrow> u8" where "ELF32_M_SIZE info = ucast info"
definition ELF32_M_INFO :: "u32 \<Rightarrow> u32 \<Rightarrow> u32" where "ELF32_M_INFO symb sz = push_bit 8 symb + ucast (ucast sz :: u8)"
definition ELF32_ST_BIND :: "u8 \<Rightarrow> u32" where "ELF32_ST_BIND info = drop_bit 4 (ucast info)"
definition ELF32_ST_TYPE :: "u8 \<Rightarrow> u32" where "ELF32_ST_TYPE info = ucast info AND 0xf"
definition ELF32_ST_INFO :: "u32 \<Rightarrow> u32 \<Rightarrow> u32" where "ELF32_ST_INFO bnd type = push_bit 4 bnd + (type AND 0xf)"
definition ELF32_ST_VISIBILITY :: "u8 \<Rightarrow> u32" where "ELF32_ST_VISIBILITY oth = ucast oth AND 0x3"

section \<open>What is packed comes out again\<close>

lemma and_masks:
  "x AND 0x3 = take_bit 2 x" "x AND 0x7 = take_bit 3 x" "x AND 0xf = take_bit 4 x" "x AND 0x7f = take_bit 7 x" "x AND 0xff = take_bit 8 x"
  "x AND 0x1fff = take_bit 13 x" for x :: "'a::len word"
  by (simp_all add: take_bit_eq_mask mask_eq_exp_minus_1)

lemma narrow_bits: "unat (x :: 'a::len word) < 2 ^ n \<Longrightarrow> bit x k \<Longrightarrow> k < n"
proof -
  assume "unat x < 2 ^ n" "bit x k"
  then have "take_bit n (unat x) = unat x" "bit (unat x) k" by (simp_all add: take_bit_nat_eq_self bit_unsigned_iff bit_imp_le_length)
  then show "k < n" by (metis bit_take_bit_iff)
qed

lemma flag_word_bits: "bit (128 :: u32) k \<longleftrightarrow> k = 7" "bit (4 :: u32) k \<longleftrightarrow> k = 2" "bit (8 :: u32) k \<longleftrightarrow> k = 3"
proof -
  have "n < 32 \<Longrightarrow> bit (2 ^ n :: u32) k \<longleftrightarrow> k = n" for n by (auto simp: bit_exp_iff)
  from this [of 7] this [of 2] this [of 3] show "bit (128 :: u32) k \<longleftrightarrow> k = 7" "bit (4 :: u32) k \<longleftrightarrow> k = 2" "bit (8 :: u32) k \<longleftrightarrow> k = 3"
    by simp_all
qed

lemma IOCPARM_LEN_take: "IOCPARM_LEN x = take_bit 13 (drop_bit 16 x)"
  by (simp add: IOCPARM_LEN_def IOCPARM_MASK_def and_masks)

text \<open>The direction as a field of three bits.\<close>

lemma direction_bits: "d \<in> {IOC_VOID, IOC_OUT, IOC_IN, IOC_INOUT} \<Longrightarrow> \<exists>e. unat e < 2 ^ 3 \<and> d = push_bit 29 e"
proof -
  have "IOC_VOID = push_bit 29 1" "IOC_OUT = push_bit 29 2" "IOC_IN = push_bit 29 4" "IOC_INOUT = push_bit 29 6"
    by (simp_all add: IOC_INOUT_def)
  moreover have "unat (1 :: u64) < 2 ^ 3" "unat (2 :: u64) < 2 ^ 3" "unat (4 :: u64) < 2 ^ 3" "unat (6 :: u64) < 2 ^ 3" by simp_all
  ultimately show "d \<in> {IOC_VOID, IOC_OUT, IOC_IN, IOC_INOUT} \<Longrightarrow> ?thesis" by blast
qed

lemma bit_IOC:
  assumes "unat e < 2 ^ 3" and "unat g < 2 ^ 8" and "unat n < 2 ^ 8" and "k < 64"
  shows "bit (IOC (push_bit 29 e) g n len) k \<longleftrightarrow>
    (if k < 8 then bit n k else if k < 16 then bit g (k - 8) else if k < 29 then bit len (k - 16) else k < 32 \<and> bit e (k - 29))"
proof -
  have sc: "bit (scast (x :: u32) :: u64) k \<longleftrightarrow> bit x k" if "unat x < 2 ^ 16" for x
    using narrow_bits [OF that, of k] narrow_bits [OF that, of 31] assms(4) by (cases "k \<le> 31") (auto simp: bit_simps min_def)
  have "unat (push_bit 8 g) < 2 ^ 16" using assms(2) by (simp add: push_bit_eq_mult unat_word_ariths)
  then have "bit (IOC (push_bit 29 e) g n len) k \<longleftrightarrow> bit (push_bit 29 e) k \<or> bit (push_bit 16 (take_bit 13 len)) k \<or> bit (push_bit 8 g) k \<or> bit n k"
    using sc [of n] sc [of "push_bit 8 g"] assms(3) by (simp add: IOC_def IOCPARM_MASK_def and_masks bit_or_iff)
  then show ?thesis
    using narrow_bits [OF assms(1), of "k - 29"] narrow_bits [OF assms(2), of "k - 8"] narrow_bits [OF assms(3), of k] assms(4)
    by (auto simp: bit_simps)
qed

text \<open>Commands of ioctl: a command packed from a direction, a group and a number of one byte, and a length gives all four back, the length
  modulo \<open>IOCPARM_MAX\<close>; so a parameter of \<open>IOCPARM_MAX\<close> bytes is packed as one of length zero.\<close>

lemma ioctl_command_fields:
  assumes "d \<in> {IOC_VOID, IOC_OUT, IOC_IN, IOC_INOUT}" and "unat g < 256" and "unat n < 256"
  shows "IOC d g n len AND IOC_DIRMASK = d \<and> IOCGROUP (IOC d g n len) = ucast g \<and> IOC d g n len AND 0xff = ucast n \<and>
    IOCPARM_LEN (IOC d g n len) = len mod IOCPARM_MAX \<and> IOCBASECMD (IOC d g n len) = IOC d g n 0 \<and>
    IOCPARM_LEN (IOC d g n IOCPARM_MAX) = 0"
proof -
  obtain e where e: "unat e < 2 ^ 3" "d = push_bit 29 e" using direction_bits [OF assms(1)] by blast
  have gn: "unat g < 2 ^ 8" "unat n < 2 ^ 8" using assms(2,3) by simp_all
  note b = bit_IOC [OF e(1) gn]
  have dm: "IOC_DIRMASK = push_bit 29 (mask 3)" by (simp add: IOC_DIRMASK_def mask_eq_exp_minus_1)
  have pm: "IOCPARM_MASK = mask 13" "IOCPARM_MAX = 2 ^ 13" by (simp_all add: IOCPARM_MASK_def IOCPARM_MAX_def mask_eq_exp_minus_1)
  have len: "IOCPARM_LEN (IOC d g n l) = take_bit 13 l" for l
    unfolding IOCPARM_LEN_take e(2) by (rule bit_word_eqI) (auto simp: bit_take_bit_iff bit_drop_bit_eq b dest: bit_imp_le_length)
  have md: "take_bit 13 l = l mod IOCPARM_MAX" for l :: u64 by (simp add: pm take_bit_eq_mod)
  have "j < 32 \<and> j - 29 < 3" if "bit e (j - 29)" for j using narrow_bits [OF e(1) that] by simp
  then have "IOC d g n len AND IOC_DIRMASK = d" unfolding dm e(2)
    by (intro bit_word_eqI) (auto simp: bit_and_iff bit_push_bit_iff bit_mask_iff b)
  moreover have "IOCGROUP (IOC d g n len) = ucast g" unfolding IOCGROUP_def and_masks e(2)
  proof (rule bit_word_eqI)
    show "bit (take_bit 8 (drop_bit 8 (IOC (push_bit 29 e) g n len))) k \<longleftrightarrow> bit (ucast g :: u64) k" if "k < LENGTH(64)" for k
      using that narrow_bits [OF gn(1), of k] b [of "8 + k"] by (cases "k < 8") (auto simp: bit_take_bit_iff bit_drop_bit_eq bit_ucast_iff)
  qed
  moreover have "IOC d g n len AND 0xff = ucast n" unfolding and_masks e(2)
    using narrow_bits [OF gn(2)] by (intro bit_word_eqI) (auto simp: bit_take_bit_iff bit_ucast_iff b)
  moreover have "IOCBASECMD (IOC d g n len) = IOC d g n 0" unfolding IOCBASECMD_def pm e(2)
    by (intro bit_word_eqI) (auto simp: bit_and_iff bit_not_iff bit_push_bit_iff bit_mask_iff b)
  ultimately show ?thesis using len md by simp
qed

text \<open>A status says that the process ended, was killed by a signal or is stopped, and exactly one of these; with which value, if it was built for
  it.  The status of a continued process, however, is also that of one killed by signal 19.\<close>

lemma sshiftr_status:
  assumes "unat (r :: u32) < 2 ^ 23" and "unat (s :: u32) < 2 ^ 8"
  shows "signed_drop_bit 8 (push_bit 8 r OR s) = r"
proof (rule bit_word_eqI)
  fix n assume "n < LENGTH(32)"
  then show "bit (signed_drop_bit 8 (push_bit 8 r OR s)) n \<longleftrightarrow> bit r n"
    using narrow_bits [OF assms(1), of n] narrow_bits [OF assms(1), of 23] narrow_bits [OF assms(2), of "8 + n"] narrow_bits [OF assms(2), of 31]
    by (auto simp: bit_simps not_le)
qed

lemma wait_status_decoded:
  shows "(WIFEXITED x \<and> \<not> WIFSIGNALED x \<and> \<not> WIFSTOPPED x) \<or> (\<not> WIFEXITED x \<and> WIFSIGNALED x \<and> \<not> WIFSTOPPED x) \<or>
      (\<not> WIFEXITED x \<and> \<not> WIFSIGNALED x \<and> WIFSTOPPED x)"
    and "unat r < 2 ^ 23 \<Longrightarrow> WIFEXITED (W_EXITCODE r 0) \<and> WEXITSTATUS (W_EXITCODE r 0) = r"
    and "unat r < 2 ^ 23 \<Longrightarrow> WIFSTOPPED (W_STOPCODE r) \<and> WSTOPSIG (W_STOPCODE r) = r"
    and "0 < unat s \<Longrightarrow> unat s < 127 \<Longrightarrow> c \<in> {0, WCOREFLAG} \<Longrightarrow>
      WIFSIGNALED (W_EXITCODE r (s OR c)) \<and> WTERMSIG (W_EXITCODE r (s OR c)) = s \<and> WCOREDUMP (W_EXITCODE r (s OR c)) = c"
proof -
  have low: "take_bit 7 (push_bit 8 r OR s) = take_bit 7 s" for r s :: u32 by (rule bit_word_eqI) (auto simp: bit_simps)
  have st: "WSTATUS (push_bit 8 r OR s) = take_bit 7 s" for r s unfolding WSTATUS_def and_masks by (rule low)
  show "(WIFEXITED x \<and> \<not> WIFSIGNALED x \<and> \<not> WIFSTOPPED x) \<or> (\<not> WIFEXITED x \<and> WIFSIGNALED x \<and> \<not> WIFSTOPPED x) \<or>
      (\<not> WIFEXITED x \<and> \<not> WIFSIGNALED x \<and> WIFSTOPPED x)"
    by (auto simp: WIFEXITED_def WIFSIGNALED_def WIFSTOPPED_def)
  show "WIFEXITED (W_EXITCODE r 0) \<and> WEXITSTATUS (W_EXITCODE r 0) = r" if "unat r < 2 ^ 23"
    using sshiftr_status [OF that, where s = 0] st [where s = 0] by (simp add: W_EXITCODE_def WIFEXITED_def WEXITSTATUS_def)
  show "WIFSTOPPED (W_STOPCODE r) \<and> WSTOPSIG (W_STOPCODE r) = r" if "unat r < 2 ^ 23"
    using sshiftr_status [OF that, where s = "0x7f"] st [where s = "0x7f"] by (simp add: W_STOPCODE_def WIFSTOPPED_def WSTOPSIG_def)
  show "WIFSIGNALED (W_EXITCODE r (s OR c)) \<and> WTERMSIG (W_EXITCODE r (s OR c)) = s \<and> WCOREDUMP (W_EXITCODE r (s OR c)) = c"
    if s: "0 < unat s" "unat s < 127" and c: "c \<in> {0, WCOREFLAG}"
  proof -
    have b: "k < 7" if "bit s k" for k using narrow_bits [of s 7 k] s(2) that by simp
    have "k = 7" if "bit c k" for k using c that flag_word_bits(1) [of k] by auto
    then have "take_bit 7 (s OR c) = s" using b by (intro bit_word_eqI) (auto simp: bit_simps)
    then have "WSTATUS (W_EXITCODE r (s OR c)) = s" unfolding W_EXITCODE_def st .
    moreover have "s \<noteq> 0" "s \<noteq> 0x7f" using s by auto
    moreover have "bit ((push_bit 8 r OR s OR c) AND WCOREFLAG) k \<longleftrightarrow> bit c k" for k
      using b [of k] c flag_word_bits(1) [of k] by (auto simp: bit_and_iff bit_or_iff bit_push_bit_iff)
    then have "WCOREDUMP (W_EXITCODE r (s OR c)) = c" unfolding WCOREDUMP_def W_EXITCODE_def by (intro bit_word_eqI)
    ultimately show ?thesis by (simp add: WIFSIGNALED_def WTERMSIG_def)
  qed
qed

lemma continued_is_signaled: "WIFCONTINUED x \<Longrightarrow> WIFSIGNALED x \<and> WTERMSIG x = 19"
  by (simp add: WIFCONTINUED_def WIFSIGNALED_def WTERMSIG_def WSTATUS_def)

text \<open>Device numbers: a number is that of its two parts, and the parts come out again.\<close>

lemma minor_mask: "0xffff00ff = NOT (push_bit 8 (mask 8 :: u32))"
  by code_simp

lemma device_numbers:
  shows "makedev (major d) (minor d) = d"
    and "unat x < 256 \<Longrightarrow> minor y = y \<Longrightarrow> major (makedev x y) = x \<and> minor (makedev x y) = y"
proof -
  show "makedev (major d) (minor d) = d" unfolding makedev_def major_def minor_def minor_mask and_masks
    by (rule bit_word_eqI) (auto simp: bit_simps not_le)
  show "major (makedev x y) = x \<and> minor (makedev x y) = y" if x: "unat x < 256" and y: "minor y = y"
  proof
    have xs: "k < 8" if "bit x k" for k using narrow_bits [of x 8 k] x that by simp
    have ys: "k < 8 \<or> 16 \<le> k" if "bit y k" for k
    proof -
      have "bit (y AND NOT (push_bit 8 (mask 8))) k" using that y unfolding minor_def minor_mask by simp
      then show ?thesis by (auto simp: bit_simps dest: bit_imp_le_length)
    qed
    show "major (makedev x y) = x" unfolding makedev_def major_def and_masks
    proof (rule bit_word_eqI)
      show "bit (take_bit 8 (drop_bit 8 (push_bit 8 x OR y))) n \<longleftrightarrow> bit x n" if "n < LENGTH(32)" for n
        using xs [of n] ys [of "8 + n"] that by (cases "n < 8") (auto simp: bit_simps)
    qed
    have "minor (makedev x y) = minor y" unfolding makedev_def minor_def minor_mask
      using xs by (intro bit_word_eqI) (auto simp: bit_simps dest: xs)
    with y show "minor (makedev x y) = y" by simp
  qed
qed

text \<open>A mode has the type that its directory entry says, and so at most one type.\<close>

lemma file_types: "DTTOIF (IFTODT mode) = ucast (mode AND 0xf000)"
proof -
  have m: "0xf000 = (push_bit 12 (mask 4) :: 'a::len word)" by (simp add: mask_eq_exp_minus_1 push_bit_eq_mult)
  show ?thesis unfolding IFTODT_def DTTOIF_def m
    by (rule bit_word_eqI) (auto simp: bit_simps not_le)
qed

lemma one_file_type:
  "length (filter (\<lambda>p. p m) [S_ISDIR, S_ISCHR, S_ISBLK, S_ISREG, S_ISFIFO, S_ISLNK, S_ISSOCK, S_ISWHT]) \<le> 1"
  by (simp add: S_ISDIR_def S_ISCHR_def S_ISBLK_def S_ISREG_def S_ISFIFO_def S_ISLNK_def S_ISSOCK_def S_ISWHT_def)

text \<open>Selectors and descriptors.\<close>

lemma selectors:
  assumes "unat i < 2 ^ 13" and "unat r < 2 ^ 2" and "t \<in> {0, SEL_LDT}"
  shows "IDXSEL (push_bit 3 i OR t OR r) = i \<and> ISPL (push_bit 3 i OR t OR r) = r \<and> ISLDT (push_bit 3 i OR t OR r) = t"
proof -
  have t: "bit t k \<Longrightarrow> k = 2" for k using assms(3) flag_word_bits(2) [of k] by auto
  note bs = narrow_bits [OF assms(1)] narrow_bits [OF assms(2)] t
  let ?s = "push_bit 3 i OR t OR r"
  have "bit (take_bit 13 (signed_drop_bit 3 ?s)) k \<longleftrightarrow> bit i k" if "k < LENGTH(32)" for k
    using that bs(1) [of k] bs(2) [of "3 + k"] bs(3) [of "3 + k"] by (cases "k < 13") (auto simp: bit_simps)
  then have "IDXSEL ?s = i" unfolding IDXSEL_def and_masks by (rule bit_word_eqI)
  moreover have "bit (take_bit 2 ?s) k \<longleftrightarrow> bit r k" if "k < LENGTH(32)" for k
    using that bs(2,3) [of k] by (auto simp: bit_simps)
  then have "ISPL ?s = r" unfolding ISPL_def and_masks by (rule bit_word_eqI)
  moreover have "bit (?s AND SEL_LDT) k \<longleftrightarrow> bit t k" if "k < LENGTH(32)" for k
    using that bs(2,3) [of k] assms(3) flag_word_bits(2) [of k] by (auto simp: bit_and_iff bit_or_iff bit_push_bit_iff)
  then have "ISLDT ?s = t" unfolding ISLDT_def by (rule bit_word_eqI)
  ultimately show ?thesis by simp
qed

lemma bit_bitfield: "bit (bitfield p w d) k \<longleftrightarrow> k < 32 \<and> k < w \<and> p + k < 64 \<and> bit d (p + k)"
  by (auto simp: bitfield_def bit_simps dest: bit_imp_le_length)

lemma bit_set_bitfield:
  "w \<le> 32 \<Longrightarrow> bit (set_bitfield p w v d) k \<longleftrightarrow> k < 64 \<and> (if p \<le> k \<and> k < p + w then bit v (k - p) else bit d k)"
  by (auto simp: set_bitfield_def bit_simps dest: bit_imp_le_length)

lemma descriptor_fields:
  "USD_GETBASE (USD_SETBASE d b) = b" "USD_GETLIMIT (USD_SETLIMIT d l) = take_bit 20 l"
  "USD_GETLIMIT (USD_SETBASE d b) = USD_GETLIMIT d" "USD_GETBASE (USD_SETLIMIT d l) = USD_GETBASE d"
proof -
  note defs = USD_GETBASE_def USD_SETBASE_def USD_GETLIMIT_def USD_SETLIMIT_def sd_lobase_def sd_hibase_def sd_lolimit_def sd_hilimit_def
  note bits = bit_or_iff bit_push_bit_iff bit_bitfield bit_set_bitfield bit_drop_bit_eq bit_take_bit_iff
  show "USD_GETBASE (USD_SETBASE d b) = b" unfolding defs by (rule bit_word_eqI) (auto simp: bits)
  show "USD_GETLIMIT (USD_SETLIMIT d l) = take_bit 20 l" unfolding defs by (rule bit_word_eqI) (auto simp: bits)
  show "USD_GETLIMIT (USD_SETBASE d b) = USD_GETLIMIT d" unfolding defs by (rule bit_word_eqI) (auto simp: bits)
  show "USD_GETBASE (USD_SETLIMIT d l) = USD_GETBASE d" unfolding defs by (rule bit_word_eqI) (auto simp: bits)
qed

text \<open>The control register of the watchpoints: each of the four has its fields, which \<open>DBREG_DR7_MASK\<close> clears.\<close>

lemma bit_watchpoint:
  assumes "i < 4" and "j < 4" and "k < 4" and "unat len < 2 ^ 2" and "unat acc < 2 ^ 2" and "unat en < 2 ^ 2"
  shows "bit ((c AND NOT (DBREG_DR7_MASK i)) OR DBREG_DR7_SET i len acc en) (j * 4 + 16 + k) \<longleftrightarrow>
    (if j = i then (if k < 2 then bit acc k else bit len (k - 2)) else bit c (j * 4 + 16 + k))"
proof -
  have m: "(0xf :: u64) = mask 4" "(0x3 :: u64) = mask 2" by (simp_all add: mask_eq_exp_minus_1)
  let ?n = "j * 4 + 16 + k"
  have n: "?n < 64" "\<not> ?n < i * 2 + 2" using assms(1-3) by auto
  have w: "i * 4 + 16 \<le> ?n \<and> ?n < i * 4 + 20 \<longleftrightarrow> j = i" using assms(3) by auto
  have "bit (DBREG_DR7_MASK i) ?n \<longleftrightarrow> j = i" unfolding DBREG_DR7_MASK_def m using n w by (auto simp: bit_simps)
  moreover have "bit (DBREG_DR7_SET i len acc en) ?n \<longleftrightarrow> j = i \<and> (if k < 2 then bit acc k else bit len (k - 2))"
  proof -
    have "\<not> bit en (?n - i * 2)" using narrow_bits [OF assms(6), of "?n - i * 2"] n by auto
    moreover have "bit (push_bit 2 len OR acc) q \<longleftrightarrow> q < 4 \<and> (if q < 2 then bit acc q else bit len (q - 2))" for q
      using narrow_bits [OF assms(4), of "q - 2"] narrow_bits [OF assms(5), of q] by (auto simp: bit_simps dest: bit_imp_le_length)
    moreover have "i * 4 + 16 \<le> ?n \<and> ?n - (i * 4 + 16) < 4 \<longleftrightarrow> j = i" using assms(3) by auto
    ultimately show ?thesis using n(1) unfolding DBREG_DR7_SET_def bit_or_iff [of "push_bit _ _"] bit_push_bit_iff [of "i * 4 + 16"] bit_push_bit_iff [of "i * 2"]
      by (cases "j = i") (simp, fastforce)
  qed
  ultimately show ?thesis by (auto simp: bit_or_iff bit_and_iff bit_not_iff n(1))
qed

lemma watchpoint_fields:
  fixes c :: u64
  assumes "i < 4" and "j < 4" and "unat len < 2 ^ 2" and "unat acc < 2 ^ 2" and "unat en < 2 ^ 2"
  defines "d \<equiv> (c AND NOT (DBREG_DR7_MASK i)) OR DBREG_DR7_SET i len acc en"
  shows "DBREG_DR7_LEN d j = (if j = i then len else DBREG_DR7_LEN c j) \<and> DBREG_DR7_ACCESS d j = (if j = i then acc else DBREG_DR7_ACCESS c j)"
proof
  note b = bit_watchpoint [OF assms(1,2) _ assms(3-5), of _ c, folded d_def]
  have n: "j * 4 + 16 + (2 + k) = j * 4 + 18 + k" for k by simp
  have "bit (take_bit 2 (drop_bit (j * 4 + 18) d)) k \<longleftrightarrow> bit (if j = i then len else take_bit 2 (drop_bit (j * 4 + 18) c)) k" for k
    using b [of "2 + k", unfolded n] narrow_bits [OF assms(3), of k] by (cases "k < 2") (auto simp: bit_take_bit_iff bit_drop_bit_eq simp del: add.assoc)
  then show "DBREG_DR7_LEN d j = (if j = i then len else DBREG_DR7_LEN c j)"
    unfolding DBREG_DR7_LEN_def and_masks by (intro bit_word_eqI)
  have "bit (take_bit 2 (drop_bit (j * 4 + 16) d)) k \<longleftrightarrow> bit (if j = i then acc else take_bit 2 (drop_bit (j * 4 + 16) c)) k" for k
    using b [of k] narrow_bits [OF assms(4), of k] by (cases "k < 2") (auto simp: bit_take_bit_iff bit_drop_bit_eq)
  then show "DBREG_DR7_ACCESS d j = (if j = i then acc else DBREG_DR7_ACCESS c j)"
    unfolding DBREG_DR7_ACCESS_def and_masks by (intro bit_word_eqI)
qed

text \<open>The priority and the facility of a message; and what a bound on the priorities lets through.\<close>

lemma message_priorities:
  assumes "unat p < 2 ^ 3" and "unat f < 2 ^ 7"
  shows "LOG_PRI (LOG_MAKEPRI (push_bit 3 f) p) = p" and "LOG_FAC (LOG_MAKEPRI (push_bit 3 f) p) = f"
proof -
  have m: "LOG_FACMASK = push_bit 3 (mask 7)" by (simp add: mask_eq_exp_minus_1)
  note bs = narrow_bits [OF assms(1)] narrow_bits [OF assms(2)]
  have "bit (take_bit 3 (push_bit 3 f OR p)) k \<longleftrightarrow> bit p k" if "k < LENGTH(32)" for k using bs(1) [of k] by (auto simp: bit_simps)
  then show "LOG_PRI (LOG_MAKEPRI (push_bit 3 f) p) = p" unfolding LOG_PRI_def LOG_MAKEPRI_def and_masks by (rule bit_word_eqI)
  have "bit (signed_drop_bit 3 ((push_bit 3 f OR p) AND push_bit 3 (mask 7))) k \<longleftrightarrow> bit f k" if "k < LENGTH(32)" for k
    using that bs(1) [of "3 + k"] bs(2) [of k] by (cases "k < 7") (auto simp: bit_simps)
  then show "LOG_FAC (LOG_MAKEPRI (push_bit 3 f) p) = f" unfolding LOG_FAC_def LOG_MAKEPRI_def m by (rule bit_word_eqI)
qed

lemma log_mask_upto: "p < 8 \<Longrightarrow> q < 8 \<Longrightarrow> LOG_MASK p AND LOG_UPTO q \<noteq> 0 \<longleftrightarrow> p \<le> q"
proof -
  assume "p < 8" "q < 8"
  have "LOG_UPTO q = mask (q + 1)" by (simp add: LOG_UPTO_def mask_eq_exp_minus_1 push_bit_eq_mult)
  moreover have "LOG_MASK p AND w \<noteq> 0 \<longleftrightarrow> bit w p" for w by (simp add: LOG_MASK_def bit_iff_and_push_bit_not_eq_0 and.commute)
  ultimately show ?thesis using \<open>q < 8\<close> by (auto simp: bit_mask_iff)
qed

text \<open>Priority classes of threads.\<close>

lemma priority_classes: "PRI_IS_REALTIME p \<longleftrightarrow> p = PRI_REALTIME \<or> \<not> PRI_NEED_RR p"
proof -
  have "bit (p AND PRI_FIFO_BIT) n \<longleftrightarrow> bit (if bit p 3 then PRI_FIFO_BIT else 0) n" for n
    using flag_word_bits(3) [of n] by (cases "n = 3") (simp add: bit_and_iff, auto simp: bit_and_iff)
  then have "p AND PRI_FIFO_BIT = (if bit p 3 then PRI_FIFO_BIT else 0)" by (intro bit_word_eqI)
  moreover have "x = (x AND NOT y) OR (x AND y)" for x y :: u32 by (rule bit_word_eqI) (auto simp: bit_or_iff bit_and_iff bit_not_iff)
  note this [of p PRI_FIFO_BIT]
  ultimately have "PRI_BASE p = 2 \<Longrightarrow> p = 2 OR PRI_FIFO_BIT \<or> p = 2" unfolding PRI_BASE_def by (auto split: if_splits)
  then show ?thesis by (auto simp: PRI_IS_REALTIME_def PRI_NEED_RR_def PRI_FIFO_def PRI_BASE_def)
qed

text \<open>The 32 bit fields of relocations, moves and symbols.\<close>

lemma elf32_fields:
  fixes s t :: u32
  assumes "unat s < 2 ^ 24" and "unat t < 2 ^ 8"
  shows "ELF32_R_SYM (ELF32_R_INFO s t) = s \<and> ucast (ELF32_R_TYPE (ELF32_R_INFO s t)) = t \<and>
    ELF32_M_SYM (ELF32_M_INFO s t) = s \<and> ucast (ELF32_M_SIZE (ELF32_M_INFO s t)) = t"
proof -
  note bs = narrow_bits [OF assms(1)] narrow_bits [OF assms(2)]
  have u: "ucast (ucast t :: u8) = t" using bs(2) by (intro bit_word_eqI) (auto simp: bit_simps)
  have "\<not> bit (push_bit 8 s) k \<or> \<not> bit t k" for k using bs(2) [of k] by (auto simp: bit_push_bit_iff)
  then have "push_bit 8 s + t = push_bit 8 s OR t" by (rule disjunctive_add)
  then have i: "ELF32_R_INFO s t = push_bit 8 s OR t" "ELF32_M_INFO s t = push_bit 8 s OR t" by (simp_all add: ELF32_R_INFO_def ELF32_M_INFO_def u)
  have "bit (drop_bit 8 (push_bit 8 s OR t)) k \<longleftrightarrow> bit s k" for k using bs(1) [of k] bs(2) [of "8 + k"] by (auto simp: bit_simps)
  then have "drop_bit 8 (push_bit 8 s OR t) = s" by (intro bit_word_eqI)
  moreover have "bit (ucast (ucast (push_bit 8 s OR t) :: u8) :: u32) k \<longleftrightarrow> bit t k" for k
    using bs(2) [of k] by (auto simp: bit_simps)
  then have "ucast (ucast (push_bit 8 s OR t) :: u8) = t" by (intro bit_word_eqI)
  ultimately show ?thesis by (simp add: i ELF32_R_SYM_def ELF32_R_TYPE_def ELF32_M_SYM_def ELF32_M_SIZE_def)
qed

section \<open>Witness\<close>

lemma ioctl_command_fields_witness: "IOCPARM_LEN (IOC IOC_OUT 0x66 0x7f 4) = 4 \<and> IOCGROUP (IOC IOC_OUT 0x66 0x7f 4) = 0x66"
  using ioctl_command_fields [of IOC_OUT "0x66" "0x7f" 4] by (simp add: IOCPARM_MAX_def)

end
