(* ===== verification/Vm_State.thy ===== *)
theory Vm_State
  imports Ps4_Prelude
begin

text \<open>
  Tests and accessors of the kernel's tables: the counters of free pages (\<open>include/sys/vmmeter.h\<close>), address maps (\<open>include/vm/vm_map.h\<close>), the wrappers
  of the zone allocator (\<open>include/vm/uma.h\<close>, whose functions with arguments are parameters) and the lookup of an open file
  (\<open>include/sys/filedesc.h\<close>).  The records have the members that these read.
\<close>

unbundle bit_operations_syntax

section \<open>Free pages\<close>

record vmmeter =
  v_free_reserved :: u32
  v_free_target :: u32
  v_free_min :: u32
  v_free_count :: u32
  v_cache_count :: u32
  v_cache_min :: u32
  v_free_severe :: u32

definition vm_page_count_severe :: "vmmeter \<Rightarrow> bool" where
  "vm_page_count_severe cnt \<longleftrightarrow> v_free_severe cnt > v_free_count cnt + v_cache_count cnt"

definition vm_page_count_min :: "vmmeter \<Rightarrow> bool" where
  "vm_page_count_min cnt \<longleftrightarrow> v_free_min cnt > v_free_count cnt + v_cache_count cnt"

definition vm_page_count_target :: "vmmeter \<Rightarrow> bool" where
  "vm_page_count_target cnt \<longleftrightarrow> v_free_target cnt > v_free_count cnt + v_cache_count cnt"

definition vm_paging_target :: "vmmeter \<Rightarrow> u32" where
  "vm_paging_target cnt = (v_free_target cnt + v_cache_min cnt) - (v_free_count cnt + v_cache_count cnt)"

definition vm_paging_needed :: "vmmeter \<Rightarrow> bool" where
  "vm_paging_needed cnt \<longleftrightarrow> v_free_reserved cnt + v_cache_min cnt > v_free_count cnt + v_cache_count cnt"

text \<open>A system with fewer than \<open>2 ^ 31\<close> pages: no sum wraps, the tests follow the order of their thresholds, and the pages to free are
  a positive \<open>int\<close> exactly when the target is not reached.\<close>

lemma sint_diff_u32:
  assumes "unat (a :: u32) < 2 ^ 31" and "unat (b :: u32) < 2 ^ 31"
  shows "sint (a - b) = int (unat a) - int (unat b)"
proof -
  have lt: "uint x < 2 ^ 31" if "unat x < 2 ^ 31" for x :: u32
  proof -
    have "int (unat x) < int (2 ^ 31)" using that by (simp only: of_nat_less_iff)
    then show ?thesis by simp
  qed
  have "sint a = uint a" "sint b = uint b" using assms by (simp_all add: sint_small32)
  then have "sint (a - b) = signed_take_bit 31 (uint a - uint b)" using sint_word_ariths(2) [of a b] by simp
  also have "\<dots> = uint a - uint b"
  proof (rule signed_take_bit_int_eq_self)
    have "0 \<le> uint a" "0 \<le> uint b" by simp_all
    with lt [OF assms(1)] lt [OF assms(2)] show "- (2 ^ 31) \<le> uint a - uint b" "uint a - uint b < 2 ^ 31" by linarith+
  qed
  finally show ?thesis by simp
qed

lemma vm_page_counts:
  assumes "unat (v_free_count c) + unat (v_cache_count c) < 2 ^ 31" and "unat (v_free_target c) + unat (v_cache_min c) < 2 ^ 31"
    and "v_free_severe c \<le> v_free_min c" and "v_free_min c \<le> v_free_target c"
  shows "(vm_page_count_severe c \<longrightarrow> vm_page_count_min c) \<and> (vm_page_count_min c \<longrightarrow> vm_page_count_target c) \<and>
    (vm_page_count_target c \<longrightarrow> sint (vm_paging_target c) > 0) \<and>
    sint (vm_paging_target c) = int (unat (v_free_target c) + unat (v_cache_min c)) - int (unat (v_free_count c) + unat (v_cache_count c))"
proof -
  have s: "unat (v_free_count c + v_cache_count c) = unat (v_free_count c) + unat (v_cache_count c)"
    "unat (v_free_target c + v_cache_min c) = unat (v_free_target c) + unat (v_cache_min c)"
    using assms(1,2) by (simp_all add: unat_word_ariths)
  have "sint (vm_paging_target c) = int (unat (v_free_target c) + unat (v_cache_min c)) - int (unat (v_free_count c) + unat (v_cache_count c))"
    unfolding vm_paging_target_def using assms(1,2) s by (subst sint_diff_u32) simp_all
  moreover from this have "unat (v_free_count c) + unat (v_cache_count c) < unat (v_free_target c) \<Longrightarrow> sint (vm_paging_target c) > 0" by linarith
  ultimately show ?thesis using assms(3,4) s
    by (auto simp: vm_page_count_severe_def vm_page_count_min_def vm_page_count_target_def word_less_nat_alt word_le_nat_alt)
qed

section \<open>Address maps\<close>

record vm_map_entry =
  entry_start :: u64
  entry_end :: u64
  eflags :: u32
  wired_count :: u32

record vm_map =
  vm_header :: vm_map_entry
  vm_flags :: u8
  vm_pmap :: ptr

abbreviation MAP_ENTRY_USER_WIRED :: u32 where "MAP_ENTRY_USER_WIRED \<equiv> 0x20"
abbreviation MAP_ENTRY_BEHAV_MASK :: u32 where "MAP_ENTRY_BEHAV_MASK \<equiv> 0xC0"

definition vm_map_entry_behavior :: "vm_map_entry \<Rightarrow> u8" where
  "vm_map_entry_behavior entry = ucast (eflags entry AND MAP_ENTRY_BEHAV_MASK)"

definition vm_map_entry_user_wired_count :: "vm_map_entry \<Rightarrow> u32" where
  "vm_map_entry_user_wired_count entry = (if eflags entry AND MAP_ENTRY_USER_WIRED \<noteq> 0 then 1 else 0)"

definition vm_map_entry_system_wired_count :: "vm_map_entry \<Rightarrow> u32" where
  "vm_map_entry_system_wired_count entry = wired_count entry - vm_map_entry_user_wired_count entry"

definition vm_map_max :: "vm_map \<Rightarrow> u64" where "vm_map_max mp = entry_end (vm_header mp)"
definition vm_map_min :: "vm_map \<Rightarrow> u64" where "vm_map_min mp = entry_start (vm_header mp)"
definition vm_map_pmap :: "vm_map \<Rightarrow> ptr" where "vm_map_pmap mp = vm_pmap mp"

definition vm_map_modflags :: "vm_map \<Rightarrow> u8 \<Rightarrow> u8 \<Rightarrow> vm_map" where
  "vm_map_modflags mp flags_set flags_clear = mp\<lparr>vm_flags := (vm_flags mp OR flags_set) AND NOT flags_clear\<rparr>"

lemma vm_wired_counts:
  "vm_map_entry_user_wired_count e + vm_map_entry_system_wired_count e = wired_count e"
  by (simp add: vm_map_entry_system_wired_count_def)

text \<open>The behaviour survives the conversion to a byte, although the flags are wider.\<close>

lemma vm_behavior_kept: "ucast (vm_map_entry_behavior e) = eflags e AND MAP_ENTRY_BEHAV_MASK"
proof -
  have m: "MAP_ENTRY_BEHAV_MASK = push_bit 6 (mask 2)" by (simp add: mask_eq_exp_minus_1)
  show ?thesis unfolding vm_map_entry_behavior_def m by (rule bit_word_eqI) (auto simp: bit_simps)
qed

lemma vm_modflags_bits:
  "bit (vm_flags (vm_map_modflags m s c)) k \<longleftrightarrow> (bit (vm_flags m) k \<or> bit s k) \<and> \<not> bit c k"
  by (auto simp: vm_map_modflags_def bit_simps dest: bit_imp_le_length)

section \<open>Zones\<close>

definition uma_zalloc :: "(ptr \<Rightarrow> ptr \<Rightarrow> u32 \<Rightarrow> 's \<Rightarrow> ptr \<times> 's) \<Rightarrow> ptr \<Rightarrow> u32 \<Rightarrow> 's \<Rightarrow> ptr \<times> 's" where
  "uma_zalloc uma_zalloc_arg zone flags = uma_zalloc_arg zone NULL flags"

definition uma_zfree :: "(ptr \<Rightarrow> ptr \<Rightarrow> ptr \<Rightarrow> 's \<Rightarrow> 's) \<Rightarrow> ptr \<Rightarrow> ptr \<Rightarrow> 's \<Rightarrow> 's" where
  "uma_zfree uma_zfree_arg zone item = uma_zfree_arg zone item NULL"

section \<open>Open files\<close>

record filedesc =
  fd_ofiles :: "ptr list"
  fd_nfiles :: u32

definition fget_locked :: "filedesc \<Rightarrow> u32 \<Rightarrow> ptr option" where
  "fget_locked fdp fd =
     (if sint fd < 0 \<or> sint fd \<ge> sint (fd_nfiles fdp) then Some NULL
      else if unat fd < length (fd_ofiles fdp) then Some (fd_ofiles fdp ! unat fd) else None)"

definition fd_table_ok :: "filedesc \<Rightarrow> bool" where
  "fd_table_ok fdp \<longleftrightarrow> unat (fd_nfiles fdp) = length (fd_ofiles fdp) \<and> length (fd_ofiles fdp) < 2 ^ 31"

text \<open>Whatever number a process passes, the lookup stays in the table: it gives the entry of that number, or null.\<close>

lemma sint_nonneg32: "0 \<le> sint (x :: u32) \<Longrightarrow> sint x = int (unat x)"
proof -
  assume "0 \<le> sint x"
  moreover have "sint x < 2 ^ 32" using sint_lt [of x] by simp
  ultimately have "take_bit 32 (sint x) = sint x" by (simp add: take_bit_int_eq_self)
  then show ?thesis using uint_sint [of x] by simp
qed

lemma fget_locked_in_table:
  assumes "fd_table_ok fdp"
  shows "fget_locked fdp fd = Some (if 0 \<le> sint fd \<and> nat (sint fd) < length (fd_ofiles fdp) then fd_ofiles fdp ! nat (sint fd) else NULL)"
proof -
  have n: "sint (fd_nfiles fdp) = int (length (fd_ofiles fdp))" using assms by (simp add: fd_table_ok_def sint_small32)
  show ?thesis
  proof (cases "0 \<le> sint fd")
    case True
    then have "sint fd = int (unat fd)" by (rule sint_nonneg32)
    then show ?thesis unfolding fget_locked_def n by (simp only: of_nat_le_iff nat_int not_le) auto
  qed (simp add: fget_locked_def)
qed

end
