(* ===== verification/Signal_Info.thy ===== *)
theory Signal_Info
  imports Bit_Sets
begin

text \<open>
  The rest of \<open>include/sys/signalvar.h\<close>: signal sets from and to the single word of older interfaces, and the information that
  accompanies a queued signal.  The union of the reasons in \<open>siginfo_t\<close> is a list of bytes; the links are addresses.
\<close>

unbundle bit_operations_syntax

section \<open>Old signal sets\<close>

text \<open>Both macros store into the first word.\<close>

definition SIGSETLO :: "sigset_t \<Rightarrow> sigset_t \<Rightarrow> sigset_t option" where
  "SIGSETLO set1 set2 = do { w \<leftarrow> word_at (sig_bits set2) 0;
     map_option (\<lambda>b. set1\<lparr>sig_bits := b\<rparr>) (upd_word 0 (\<lambda>_. w) (sig_bits set1)) }"

definition SIGSETOLD :: "sigset_t \<Rightarrow> u32 \<Rightarrow> sigset_t option" where
  "SIGSETOLD sset oset = map_option (\<lambda>b. sset\<lparr>sig_bits := b\<rparr>) (upd_word 0 (\<lambda>_. oset) (sig_bits sset))"

definition SIG2OSIG :: "sigset_t \<Rightarrow> u32 option" where
  "SIG2OSIG sig = word_at (sig_bits sig) 0"

definition OSIG2SIG :: "u32 \<Rightarrow> sigset_t \<Rightarrow> sigset_t option" where
  "OSIG2SIG osig sig = SIGSETOLD (SIGEMPTYSET sig) osig"

lemma elems_first_word:
  fixes ws :: "u32 list"
  assumes "length ws = 4"
  shows "elems (ws[0 := w]) = {n. n < 32 \<and> bit w n} \<union> (elems ws - {..<32})"
proof -
  have "n \<in> elems (ws[0 := w]) \<longleftrightarrow> n < 32 \<and> bit w n \<or> n \<in> elems ws \<and> \<not> n < 32" for n
  proof (cases "n < 32")
    case True
    then have "n div 32 = 0" "n mod 32 = n" by simp_all
    with assms True show ?thesis by (simp add: mem_elems)
  next
    case False
    then have "n div 32 \<noteq> 0" by (simp add: div_eq_0_iff)
    with assms False show ?thesis by (simp add: mem_elems)
  qed
  then show ?thesis by auto
qed

text \<open>In terms of sets of signals: the signals up to 32 are replaced, the others stay; an old set is turned into a set with no others and read back.\<close>

lemma old_signals:
  assumes "sig_ok s" and "sig_ok t"
  shows "\<exists>r. SIGSETLO s t = Some r \<and> sig_ok r \<and> signals r = (signals t \<inter> {1..32}) \<union> (signals s - {1..32})"
    and "\<exists>r. SIGSETOLD s v = Some r \<and> sig_ok r \<and> signals r = Suc ` {n. n < 32 \<and> bit v n} \<union> (signals s - {1..32})"
    and "\<exists>r. OSIG2SIG v s = Some r \<and> sig_ok r \<and> signals r = Suc ` {n. n < 32 \<and> bit v n} \<and> SIG2OSIG r = Some v"
proof -
  have img: "Suc ` (A - {..<32}) = Suc ` A - {1..32}" "Suc ` (A \<inter> {..<32}) = Suc ` A \<inter> {1..32}" for A
    by (auto simp: image_iff)
  have old: "SIGSETOLD p v = Some (p\<lparr>sig_bits := (sig_bits p)[0 := v]\<rparr>) \<and> sig_ok (p\<lparr>sig_bits := (sig_bits p)[0 := v]\<rparr>) \<and>
      signals (p\<lparr>sig_bits := (sig_bits p)[0 := v]\<rparr>) = Suc ` {n. n < 32 \<and> bit v n} \<union> (signals p - {1..32})" if "sig_ok p" for p v
    using that elems_first_word [of "sig_bits p" v]
    by (simp add: SIGSETOLD_def upd_word_def sig_ok_def signals_def image_Un img)
  show "\<exists>r. SIGSETOLD s v = Some r \<and> sig_ok r \<and> signals r = Suc ` {n. n < 32 \<and> bit v n} \<union> (signals s - {1..32})"
    using old [OF assms(1)] by blast
  have "SIGSETLO s t = SIGSETOLD s (sig_bits t ! 0)" using assms(2) by (simp add: SIGSETLO_def SIGSETOLD_def word_at_def sig_ok_def)
  moreover have "{n. n < 32 \<and> bit (sig_bits t ! 0) n} = elems (sig_bits t) \<inter> {..<32}" using assms(2) by (auto simp: mem_elems sig_ok_def)
  ultimately show "\<exists>r. SIGSETLO s t = Some r \<and> sig_ok r \<and> signals r = (signals t \<inter> {1..32}) \<union> (signals s - {1..32})"
    using old [OF assms(1), of "sig_bits t ! 0"] by (simp add: img signals_def [of t])
  have e: "sig_ok (SIGEMPTYSET s)" "signals (SIGEMPTYSET s) = {}" using sig_updates(1) [OF assms(1,1)] by auto
  show "\<exists>r. OSIG2SIG v s = Some r \<and> sig_ok r \<and> signals r = Suc ` {n. n < 32 \<and> bit v n} \<and> SIG2OSIG r = Some v"
    using old [OF e(1), of v] e by (auto simp: OSIG2SIG_def SIG2OSIG_def word_at_def sig_ok_def)
qed

section \<open>Information about a signal\<close>

record siginfo =
  si_signo :: u32
  si_errno :: u32
  si_code :: u32
  si_pid :: u32
  si_uid :: u32
  si_status :: u32
  si_addr :: ptr
  si_value :: u64
  si_reason :: "u8 list"

record ksiginfo =
  ksi_next :: ptr
  ksi_prev :: ptr
  ksi_info :: siginfo
  ksi_flags :: u32
  ksi_sigq :: ptr

record sigevent =
  sigev_notify :: u32
  sigev_signo :: u32
  sigev_value :: u64

abbreviation KSI_TRAP :: u32 where "KSI_TRAP \<equiv> 0x01"
abbreviation KSI_SIGQ :: u32 where "KSI_SIGQ \<equiv> 0x08"

definition KSI_COPYMASK :: u32 where "KSI_COPYMASK = KSI_TRAP OR KSI_SIGQ"

definition KSI_ONQ :: "ksiginfo \<Rightarrow> bool" where "KSI_ONQ ksi \<longleftrightarrow> ksi_sigq ksi \<noteq> NULL"

definition ksiginfo_init :: "ksiginfo \<Rightarrow> ksiginfo" where
  "ksiginfo_init ksi =
     \<lparr>ksi_next = NULL, ksi_prev = NULL,
      ksi_info = \<lparr>si_signo = 0, si_errno = 0, si_code = 0, si_pid = 0, si_uid = 0, si_status = 0, si_addr = NULL, si_value = 0,
        si_reason = replicate (length (si_reason (ksi_info ksi))) 0\<rparr>,
      ksi_flags = 0, ksi_sigq = NULL\<rparr>"

definition ksiginfo_init_trap :: "ksiginfo \<Rightarrow> ksiginfo" where
  "ksiginfo_init_trap ksi = (let kp = ksiginfo_init ksi in kp\<lparr>ksi_flags := ksi_flags kp OR KSI_TRAP\<rparr>)"

definition ksiginfo_copy :: "ksiginfo \<Rightarrow> ksiginfo \<Rightarrow> ksiginfo" where
  "ksiginfo_copy src dst =
     (let dst = dst\<lparr>ksi_info := ksi_info src\<rparr> in dst\<lparr>ksi_flags := ksi_flags src AND KSI_COPYMASK\<rparr>)"

definition ksiginfo_set_sigev :: "ksiginfo \<Rightarrow> sigevent \<Rightarrow> ksiginfo" where
  "ksiginfo_set_sigev dst sigev =
     (let dst = dst\<lparr>ksi_info := (ksi_info dst)\<lparr>si_signo := sigev_signo sigev\<rparr>\<rparr>
      in dst\<lparr>ksi_info := (ksi_info dst)\<lparr>si_value := sigev_value sigev\<rparr>\<rparr>)"

text \<open>A copy says the same about the signal, keeps only the flags about its origin, and stays where it is queued; a fresh one is not queued.\<close>

lemma ksiginfo_copied:
  "ksi_info (ksiginfo_copy src dst) = ksi_info src \<and> (KSI_ONQ (ksiginfo_copy src dst) \<longleftrightarrow> KSI_ONQ dst) \<and>
    ksi_next (ksiginfo_copy src dst) = ksi_next dst \<and> ksi_prev (ksiginfo_copy src dst) = ksi_prev dst \<and>
    (bit (ksi_flags (ksiginfo_copy src dst)) k \<longleftrightarrow> bit (ksi_flags src) k \<and> (k = 0 \<or> k = 3))"
proof -
  have "bit (2 ^ n :: u32) k \<longleftrightarrow> k = n" if "n < 32" for n using that by (auto simp: bit_exp_iff)
  from this [of 3] this [of 0] have "bit KSI_SIGQ k \<longleftrightarrow> k = 3" "bit KSI_TRAP k \<longleftrightarrow> k = 0" by simp_all
  then have "bit (ksi_flags src AND KSI_COPYMASK) k \<longleftrightarrow> bit (ksi_flags src) k \<and> (k = 0 \<or> k = 3)"
    unfolding KSI_COPYMASK_def bit_and_iff bit_or_iff by blast
  moreover have "ksi_flags (ksiginfo_copy src dst) = ksi_flags src AND KSI_COPYMASK" by (simp add: ksiginfo_copy_def Let_def)
  ultimately show ?thesis by (simp add: ksiginfo_copy_def KSI_ONQ_def Let_def)
qed

lemma ksiginfo_fresh: "\<not> KSI_ONQ (ksiginfo_init k) \<and> \<not> KSI_ONQ (ksiginfo_init_trap k) \<and> ksi_flags (ksiginfo_init_trap k) = KSI_TRAP"
  by (simp add: KSI_ONQ_def ksiginfo_init_def ksiginfo_init_trap_def Let_def)

lemma ksiginfo_sigev:
  "si_signo (ksi_info (ksiginfo_set_sigev k e)) = sigev_signo e \<and> si_value (ksi_info (ksiginfo_set_sigev k e)) = sigev_value e \<and>
    ksi_flags (ksiginfo_set_sigev k e) = ksi_flags k \<and> ksi_sigq (ksiginfo_set_sigev k e) = ksi_sigq k"
  by (simp add: ksiginfo_set_sigev_def Let_def)

end
