(* ===== verification/Spec2Isabelle.thy ===== *)
theory Spec2Isabelle
  imports Elf_Sample Kernel_Sample Named_Memory Protected_Memory Sys_Queue_Loops Net_Queues Bit_Sets Sys_Time Kern_Lib
    Ring_Multi Control_Messages Event_Handlers Thread_State Kobj_Dispatch Stdio_Streams Page_Maps Cpu_Registers
    Net_Addresses Float_Env Char_Types Kernel_Run Prison_Tree Giant_Lock Per_Cpu Bit_Counts Packed_Codes Vm_State Signal_Info
begin

text \<open>
  A verification of libps4, a C library for programs that run on the PS4 in user mode and in the
  kernel.

  \<^bold>\<open>The program.\<close>  The library's own code is under \<open>source/ps4\<close>.  \<open>elfloader.c\<close> reads ELF objects and
  loads them: a handle points at the bytes of an object, getters and searches read its tables,
  the loader builds the image and relocates it.  \<open>kernel.c\<close> runs functions in the kernel, finds
  the header and the symbols of the running kernel and allocates memory there; it builds on the
  system call that the exploit installs.  \<open>resolve.c\<close> binds a stub to its function at the
  first call: the stub (\<open>include/ps4/internal/stub.h\<close>) is machine code with operands that the resolver reads, and
  the resolver asks the module loader in user mode and \<open>kernel.c\<close> in the kernel.  \<open>namedmemory.c\<close> and
  \<open>protectedmemory.c\<close> wrap shared memory and just-in-time memory.  The rest of the repository is
  the system headers; some of them contain code that is compiled into the programs: queues, atomic operations, locks, a lock-free ring,
  network buffers and queues, bit sets, time arithmetic, control messages of sockets, lists of event handlers, the run state of threads and holds on
  processes, method calls on kernel objects, the character macros of streams and of character classes, page arithmetic, wrapped instructions of the processor, tests
  on network addresses, the floating-point environment, walks over the tree of prisons, iterators over processors and the data each processor has, bit counts,
  packed codes, and tests on tables of the kernel.

  \<^bold>\<open>The theories.\<close>
  \<^item> \<open>Ps4_Prelude\<close>: machine integers as words at their width, memory as a partial map from addresses to
    bytes, loads and stores, \<open>memcpy\<close> and \<open>memset\<close>, the locale \<open>table_fold\<close> for loops over tables, and a predicate for what a computation reads.
  \<^item> \<open>Elf_Format\<close>: the structures of \<open>include/sys/elf64.h\<close> as records with encoders and field reads, and the macros on packed fields.
  \<^item> \<open>Elf_Object\<close>, \<open>Elf_Strings\<close>, \<open>Elf_Lifecycle\<close>, \<open>Elf_Loader\<close>: \<open>source/ps4/elfloader.c\<close>, in the order of the file.  The locale
    \<open>table_search\<close> is the contract of the three searches.  The loader refines an abstract image (segments laid
    over each other in table order, file bytes then zeros) and an abstract relocation.
  \<^item> \<open>Kernel_Services\<close>: \<open>source/ps4/kernel.c\<close> and the two memory payloads of \<open>kernelexploitpayload.c\<close>.
  \<^item> \<open>Kernel_Patches\<close>: copying through the kernel, and the hooks of functions and system calls (\<open>kernel.c\<close>, \<open>kernelexploitpayload.c\<close>,
    \<open>asmpayload.s\<close>), on memory with read-only pages and the write protection bit.
  \<^item> \<open>Kernel_Run\<close>: the system call by which functions run in the kernel, its code (\<open>asmpayload.s\<close>) as instructions of a small machine and as
    the bytes the payload installs.
  \<^item> \<open>Resolve\<close>: \<open>source/ps4/internal/resolve.c\<close> with the stubs as byte lists.
  \<^item> \<open>Os_Resources\<close>, \<open>Named_Memory\<close>, \<open>Protected_Memory\<close>: the two memory wrappers over answers of the operating system and a trace
    of calls; the locale \<open>resource_owner\<close> is the account of resources that both give.
  \<^item> \<open>Sys_Queue\<close>: \<open>include/sys/queue.h\<close> on a heap of links; the locale \<open>linked_queue\<close> is interpreted for the four queues.
  \<^item> \<open>Sys_Queue_Loops\<close>: the loops of the same file whose body changes the queue, and its consistency checks; the locale
    \<open>removal_loop\<close> is interpreted for the five loops.
  \<^item> \<open>Atomic_Ops\<close>: \<open>include/machine/atomic.h\<close> (as on a machine with several processors) and \<open>include/sys/refcount.h\<close>.
  \<^item> \<open>Sys_Locks\<close>: the inlined operations of \<open>mutex.h\<close>, \<open>rwlock.h\<close> and \<open>sx.h\<close>; the locale \<open>owner_lock\<close> is
    interpreted for the three locks.
  \<^item> \<open>Giant_Lock\<close>: the macros of \<open>mutex.h\<close> that give up a recursed lock and take it back.
  \<^item> \<open>Prison_Tree\<close>: the loops of \<open>include/sys/jail.h\<close> over the descendants of a prison, on the lists of \<open>Sys_Queue\<close> and with the mutexes of
    \<open>Sys_Locks\<close>; the locale \<open>prison_loop\<close> is interpreted for the three loops.
  \<^item> \<open>Buf_Ring\<close>: \<open>include/sys/buf_ring.h\<close>, one step per access to a shared field.
  \<^item> \<open>Ring_Multi\<close>: the same steps taken by any number of producers and consumers; a thread is overtaken when the head it has
    read comes round again before its compare-and-set.
  \<^item> \<open>Event_Handlers\<close>: \<open>include/sys/eventhandler.h\<close>, over the queues and the mutex; the list may change while its mutex is released for a handler.
  \<^item> \<open>Thread_State\<close>: the inhibitors and states of threads and the holds on processes of \<open>include/sys/proc.h\<close>, over the mutex.
  \<^item> \<open>Kobj_Dispatch\<close>: \<open>include/sys/kobj.h\<close>, the method cache of a class over a search that is only declared.
  \<^item> \<open>Mbufs\<close>, \<open>Net_Queues\<close>: \<open>include/sys/mbuf.h\<close>, and the queues of \<open>include/net/if_var.h\<close>, which use the mutex, the
    ring and the buffers; the locale \<open>bounded_fifo\<close> is interpreted for the locked queue and for the queue over a ring.
  \<^item> \<open>Bit_Sets\<close>: \<open>cpuset.h\<close>, \<open>signalvar.h\<close> and \<open>select.h\<close>; the locale \<open>bit_set\<close> is interpreted for the three.
  \<^item> \<open>Signal_Info\<close>: the other macros of \<open>signalvar.h\<close>, for signal sets of one word and for the information about a queued signal.
  \<^item> \<open>Cpu_Iterators\<close>, \<open>Per_Cpu\<close>: the iterators of \<open>include/sys/smp.h\<close> over a processor set, and over them the data of each processor
    (\<open>include/machine/pcpu.h\<close>, \<open>include/sys/pcpu.h\<close>), with the pins of \<open>sched.h\<close> and the flags of \<open>machine/pcb.h\<close>.
  \<^item> \<open>Bit_Counts\<close>: the bit counts of \<open>include/sys/systm.h\<close>, words seen as lists of fields.
  \<^item> \<open>Packed_Codes\<close>: the macros that pack several values into a number, of \<open>ioccom.h\<close>, \<open>wait.h\<close>, \<open>types.h\<close>, \<open>stat.h\<close>, \<open>dirent.h\<close>, \<open>syslog.h\<close>,
    \<open>priority.h\<close>, \<open>segments.h\<close>, \<open>reg.h\<close> and \<open>elf32.h\<close>.
  \<^item> \<open>Vm_State\<close>: the inline functions of \<open>vmmeter.h\<close>, \<open>vm_map.h\<close>, \<open>uma.h\<close> and \<open>filedesc.h\<close>.
  \<^item> \<open>Sys_Time\<close>: \<open>include/sys/time.h\<close>.
  \<^item> \<open>Kern_Lib\<close>: \<open>include/machine/endian.h\<close> and \<open>include/sys/libkern.h\<close>.
  \<^item> \<open>Control_Messages\<close>: the macros of \<open>include/sys/socket.h\<close> on control messages in memory.
  \<^item> \<open>Net_Addresses\<close>: the address macros of \<open>include/netinet/in.h\<close> and \<open>include/netinet6/in6.h\<close>.
  \<^item> \<open>Page_Maps\<close>: \<open>include/sys/param.h\<close>, \<open>include/machine/param.h\<close> and \<open>include/machine/pmap.h\<close>.
  \<^item> \<open>Cpu_Registers\<close>: \<open>include/machine/cpufunc.h\<close> on a record of the registers and ports it touches.
  \<^item> \<open>Float_Env\<close>: \<open>include/fenv.h\<close> on the control and status words of the two floating-point units.
  \<^item> \<open>Stdio_Streams\<close>, \<open>Char_Types\<close>: the inline functions and macros of \<open>include/stdio.h\<close>, and of \<open>include/_ctype.h\<close> and \<open>include/ctype.h\<close>.
  \<^item> \<open>Elf_Sample\<close>, \<open>Kernel_Sample\<close>: concrete objects, symbol tables and stubs on which the theorems are applied.

  \<^bold>\<open>How code becomes definitions.\<close>  A C function is a function of the same name on the state it uses.  Code that
  touches memory runs in the option monad, and \<open>None\<close> is a fault, a panic, or a
  loop that does not end.  A handle or a structure in memory is read field by field where the code does so, and is a record where
  only its fields matter (queues, locks, buffers).  C integers are words, so arithmetic wraps around as it
  does in the program; comparisons of signed numbers read the words as signed.  Names with a leading underscore in C
  have a suffix (\<open>_try\<close>, \<open>_fast\<close>, \<open>_raw\<close>), and names that clash with a constant of the logic a prefix.  Functions
  that the repository only declares (the allocator, system calls, the slow paths of locks, \<open>m_freem\<close>, the zone allocator,
  the CRC table, the functions that fill and flush streams, the search for methods, event handlers, swapping in) are arguments or fields of a record of functions; what a theorem needs of them is among its
  hypotheses and holds in its witness.

  \<^bold>\<open>What is shown.\<close>
  \<^item> ELF: searches return the first match; sizes, counts and alignments are what the tables say;
    strings and names are found at their least offset and read back; loading accepts exactly the objects for this machine, builds the image of the
    segments (or sections), relocates exactly the slots of the two tables and changes nothing outside the target; each early exit reports its code and leaves memory alone.
  \<^item> Kernel: the header search, disjoint blocks of the allocator, the run protocol, the first symbol with a name, the same answer in both modes;
    copies between user and kernel memory, hooks and their refusals, the write protection on afterwards; in a kernel that nothing has initialised the
    payload installs the system call by which functions run, and its machine code calls the function once and hands over the result.
  \<^item> Resolver: the offsets it reads are those of the stubs; for every answer of the system the order of its steps, the result and the
    error code of each; the stub type test that reads the wrong byte.
  \<^item> Memory wrappers: every block, handle and mapping is accounted for; what stays behind is what \<open>munmap\<close> refused, and what is lost are
    numbers that a failed call left in a handle variable; sizes.
  \<^item> Queues: each of the four represents the list its operations yield, forwards and backwards, and disturbs no other; loops that remove and free elements
    end, visit every element once and leave the rest; the checks of a list hold exactly when it is well formed.
  \<^item> Concurrency: invariants over all interleavings of atomic steps give one owner per lock, sharers and owners apart, references counted, and first-in first-out order of the ring with one
    producer and one consumer, in which no call waits.  A producer that is overtaken overruns a ring of any size; with any number
    of producers and consumers of which none is overtaken it keeps the order, and among those that wait some thread can always go on.
  \<^item> Kernel structures: an invocation of event handlers ends and runs each living one once, in order, while the list changes; a thread is inhibited as long as a reason
    is set; holds on a process refine a counter with wakeups; every method call reaches a function of the type of its operation when the method tables are well typed.
  \<^item> Prisons: the loops over descendants end and visit in preorder what the visits do not cut off; the locking ones have exactly the mutexes of the prisons
    on the way to each visit, and none in the end.
  \<^item> A recursed lock that is given up is taken back at as many levels.
  \<^item> Processors, in the one-word sets of the kernel: iterators visit those present in order and come round, but never return when there is none; a counter with a copy for each is the sum of the copies.
  \<^item> Networking: the locked queue (without queueing discipline and token-bucket regulator) and the queue over a ring meet one contract; packets, chains of buffers, are freed once and not touched afterwards; space in buffers; allocation is all or nothing.
  \<^item> Control messages are read back as laid out; a walk stays inside the buffer whatever it contains, and ends exactly when no
    message it reaches claims the length zero.
  \<^item> Streams: characters put reach the stream in order and no store leaves the buffer; character classes stay inside their tables for every integer.
  \<^item> Machine: page addresses and table indices determine each other; sections without interrupts nest; the two floating-point units keep one
    rounding mode; address classes partition the addresses.
  \<^item> Bit sets are sets; binary time arithmetic is exact and conversions lose at most one unit; the table-driven CRC is the bit-by-bit one; byte swaps reverse bytes;
    bit counts count bits; packed codes give back what was packed, with the values that do not fit; lookups of files stay in the table.

  \<^bold>\<open>Bounds and termination.\<close>  Loops over a count are total functions with a measure.  Loops that may
  run forever (waiting in the ring, draining a queue, walking links, scanning memory for a magic number or a terminator) are partial functions in the option
  monad, and the theorems state that they return.  No fuel is used.  Sizes in hypotheses are those of the C types: string tables
  below 4 GiB, queues of at most \<open>2 ^ 31 - 1\<close> packets, rings of \<open>2 ^ b\<close> slots with \<open>b < 32\<close>, seconds below \<open>2 ^ 62\<close>.

  \<^bold>\<open>Not modelled.\<close>  The exploit (\<open>kernelexploit.c\<close>) and the payloads that change credentials, the jail and the console:
  their effect is behaviour of the target kernel that is not part of the sources.  The sources generated for each stub: one macro call each.
  The tracing of \<open>QUEUE_MACRO_DEBUG\<close> in the queues, off in the builds.  The slow paths of locks, queueing disciplines and
  the zone allocator, which are only declared.  The data bytes of buffers.  Lock profiling, witness and tracing macros, which are
  empty in the library's builds.  Macros that only rename a function that is declared, or build declarations and registrations (\<open>sysctl.h\<close>, \<open>kernel.h\<close>,
  \<open>module.h\<close>, \<open>vnet.h\<close>, \<open>tgmath.h\<close>).  The other system headers: declarations, constants and structures without code.
\<close>

end
